(* ===== verification/Us_Prelude.thy ===== *)
theory Us_Prelude imports
  Main
  "HOL-Library.Word"
begin

section \<open>Prelude: words, pointers and doubly linked lists\<close>

text \<open>
  Names, types and generic lemmas that every component of the model shares: the C integer
  types, nullable pointers, and the relational abstraction of an intrusive doubly linked list
  (fields \<open>next\<close> and \<open>prev\<close> of the nodes, a head pointer) as the list of its nodes.
  The interface locale \<open>intrusive_dlist\<close> states what the code's link and unlink routines
  do to the fields; its two refinement lemmas are used for the sockets of a group, its
  connecting sockets, and the groups of the loop.
\<close>

unbundle bit_operations_syntax

type_synonym u8 = "8 word"
type_synonym u16 = "16 word"
type_synonym u32 = "32 word"
type_synonym u64 = "64 word"

text \<open>An object is named by its address; a C pointer is an address or NULL.\<close>

type_synonym addr = nat
type_synonym ptr = "addr option"

named_theorems us_defs \<open>definitions of the straight-line state updates\<close>
named_theorems us_frame \<open>what an operation leaves unchanged\<close>

subsection \<open>Singly linked lists\<close>

text \<open>\<open>sll nx h xs\<close>: from \<open>h\<close> the \<open>nx\<close> fields run through \<open>xs\<close> to NULL.\<close>

fun sll :: "(addr \<Rightarrow> ptr) \<Rightarrow> ptr \<Rightarrow> addr list \<Rightarrow> bool" where
  "sll nx h [] = (h = None)"
| "sll nx h (x # xs) = (h = Some x \<and> sll nx (nx x) xs)"

lemma sll_frame:
  "(\<And>a. a \<in> set xs \<Longrightarrow> nx' a = nx a) \<Longrightarrow> sll nx' h xs = sll nx h xs"
  by (induction xs arbitrary: h) auto

lemma sll_upd [simp]: "x \<notin> set xs \<Longrightarrow> sll (nx(x := y)) h xs = sll nx h xs"
  by (rule sll_frame) auto

lemma sll_unique: "sll nx h xs \<Longrightarrow> sll nx h ys \<Longrightarrow> xs = ys"
proof (induction xs arbitrary: h ys)
  case Nil
  then show ?case by (cases ys) auto
next
  case (Cons x xs)
  then show ?case by (cases ys) auto
qed

lemma sll_None [simp]: "sll nx None xs \<longleftrightarrow> xs = []"
  by (cases xs) auto

lemma sll_Some: "sll nx (Some x) xs \<longleftrightarrow> (\<exists>ys. xs = x # ys \<and> sll nx (nx x) ys)"
  by (cases xs) auto

lemma sll_suffix: "sll nx h (xs @ y # ys) \<Longrightarrow> sll nx (Some y) (y # ys)"
  by (induction xs arbitrary: h) auto

lemma sll_distinct: "sll nx h xs \<Longrightarrow> distinct xs"
proof (induction xs arbitrary: h)
  case Nil
  then show ?case by simp
next
  case (Cons x xs)
  have "x \<notin> set xs"
  proof
    assume "x \<in> set xs"
    then obtain as bs where xs: "xs = as @ x # bs" by (meson split_list)
    from Cons.prems have "sll nx (Some x) (x # xs)" by simp
    moreover from Cons.prems have "sll nx (nx x) (as @ x # bs)" using xs by simp
    then have "sll nx (Some x) (x # bs)" by (rule sll_suffix)
    ultimately have "x # xs = x # bs" by (rule sll_unique)
    then have "length xs = length bs" by simp
    with xs show False by simp
  qed
  with Cons show ?case by auto
qed

subsection \<open>Doubly linked list segments\<close>

text \<open>
  \<open>dseg nx pv p h xs q\<close>: from \<open>h\<close> the \<open>nx\<close> fields run through exactly the nodes
  \<open>xs\<close> and end in \<open>q\<close>, and every \<open>pv\<close> field points to the node before (\<open>p\<close>
  for the first one). A list is a segment from no predecessor to NULL.
\<close>

fun dseg :: "(addr \<Rightarrow> ptr) \<Rightarrow> (addr \<Rightarrow> ptr) \<Rightarrow> ptr \<Rightarrow> ptr \<Rightarrow> addr list \<Rightarrow> ptr \<Rightarrow> bool" where
  "dseg nx pv p h [] q = (h = q)"
| "dseg nx pv p h (x # xs) q = (h = Some x \<and> pv x = p \<and> dseg nx pv (Some x) (nx x) xs q)"

definition lastp :: "ptr \<Rightarrow> addr list \<Rightarrow> ptr" where
  "lastp p xs = (if xs = [] then p else Some (last xs))"

abbreviation dll :: "(addr \<Rightarrow> ptr) \<Rightarrow> (addr \<Rightarrow> ptr) \<Rightarrow> ptr \<Rightarrow> addr list \<Rightarrow> bool" where
  "dll nx pv h xs \<equiv> dseg nx pv None h xs None"

lemma lastp_simps [simp]:
  "lastp p [] = p" "lastp p (x # xs) = lastp (Some x) xs" "lastp p (xs @ [y]) = Some y"
  by (auto simp: lastp_def)

lemma dseg_frame:
  assumes "\<And>a. a \<in> set xs \<Longrightarrow> nx' a = nx a" "\<And>a. a \<in> set xs \<Longrightarrow> pv' a = pv a"
  shows "dseg nx' pv' p h xs q = dseg nx pv p h xs q"
  using assms by (induction xs arbitrary: p h) auto

lemma dseg_append:
  "dseg nx pv p h (xs @ ys) q \<longleftrightarrow>
     (\<exists>m. dseg nx pv p h xs m \<and> dseg nx pv (lastp p xs) m ys q)"
  by (induction xs arbitrary: p h) auto

lemma dll_sll: "dseg nx pv p h xs None \<Longrightarrow> sll nx h xs"
  by (induction xs arbitrary: p h) auto

lemma dll_distinct: "dll nx pv h xs \<Longrightarrow> distinct xs"
  by (rule sll_distinct [OF dll_sll])

lemma dll_unique: "dll nx pv h xs \<Longrightarrow> dll nx pv h ys \<Longrightarrow> xs = ys"
  by (blast intro: sll_unique dest: dll_sll)

lemma dll_None [simp]: "dll nx pv None xs \<longleftrightarrow> xs = []"
  by (cases xs) auto

lemma dll_empty_iff: "dll nx pv h xs \<Longrightarrow> h = None \<longleftrightarrow> xs = []"
  by (cases xs) auto

text \<open>The two ends of a node of the list.\<close>

lemma dll_split:
  assumes "dll nx pv h (as @ x # bs)"
  shows "dseg nx pv None h as (Some x)" "pv x = lastp None as" "dseg nx pv (Some x) (nx x) bs None"
  using assms by (auto simp: dseg_append)

lemma dll_prev_None_iff: "dll nx pv h (as @ x # bs) \<Longrightarrow> pv x = None \<longleftrightarrow> as = []"
  by (frule dll_split(2)) (simp add: lastp_def)

lemma dll_next_None_iff: "dll nx pv h (as @ x # bs) \<Longrightarrow> nx x = None \<longleftrightarrow> bs = []"
  by (drule dll_split(3)) (cases bs, auto)

lemma dll_prev_neq_next:
  assumes "dll nx pv h xs" "x \<in> set xs"
  shows "pv x = nx x \<longleftrightarrow> pv x = None \<and> nx x = None"
proof -
  from assms(2) obtain as bs where xs: "xs = as @ x # bs" by (meson split_list)
  have dist: "distinct xs" using assms(1) by (rule dll_distinct)
  note s = dll_split [OF assms(1) [unfolded xs]]
  show ?thesis
  proof
    assume eq: "pv x = nx x"
    show "pv x = None \<and> nx x = None"
    proof (cases bs)
      case Nil
      with s(3) eq show ?thesis by simp
    next
      case (Cons b bs')
      with s eq have "lastp None as = Some b" by simp
      then have "b \<in> set as" by (auto simp: lastp_def split: if_splits)
      with dist xs Cons show ?thesis by auto
    qed
  qed auto
qed

lemma dll_not_self:
  assumes "dll nx pv h xs" "x \<in> set xs"
  shows "nx x \<noteq> Some x" "pv x \<noteq> Some x"
proof -
  from assms(2) obtain as bs where xs: "xs = as @ x # bs" by (meson split_list)
  have dist: "distinct xs" using assms(1) by (rule dll_distinct)
  note s = dll_split [OF assms(1) [unfolded xs]]
  show "nx x \<noteq> Some x" using s(3) dist xs by (cases bs) auto
  show "pv x \<noteq> Some x" using s(2) dist xs by (auto simp: lastp_def split: if_splits)
qed

lemma dll_head_iff_prev_None:
  assumes "dll nx pv h xs" "x \<in> set xs"
  shows "h = Some x \<longleftrightarrow> pv x = None"
proof -
  from assms(2) obtain as bs where xs: "xs = as @ x # bs" by (meson split_list)
  have dist: "distinct xs" using assms(1) by (rule dll_distinct)
  note s = dll_split [OF assms(1) [unfolded xs]]
  show ?thesis
  proof (cases as)
    case Nil
    with s show ?thesis by simp
  next
    case (Cons a as')
    with s dist xs show ?thesis by (auto simp: lastp_def)
  qed
qed

subsection \<open>Linking at the head, unlinking any node\<close>

definition link_pv :: "(addr \<Rightarrow> ptr) \<Rightarrow> ptr \<Rightarrow> addr \<Rightarrow> (addr \<Rightarrow> ptr)" where
  "link_pv pv h x = (case h of None \<Rightarrow> pv(x := None) | Some y \<Rightarrow> (pv(x := None))(y := Some x))"

definition unlink_nx :: "(addr \<Rightarrow> ptr) \<Rightarrow> (addr \<Rightarrow> ptr) \<Rightarrow> addr \<Rightarrow> (addr \<Rightarrow> ptr)" where
  "unlink_nx nx pv x = (case pv x of None \<Rightarrow> nx | Some p \<Rightarrow> nx(p := nx x))"

definition unlink_pv :: "(addr \<Rightarrow> ptr) \<Rightarrow> (addr \<Rightarrow> ptr) \<Rightarrow> addr \<Rightarrow> (addr \<Rightarrow> ptr)" where
  "unlink_pv nx pv x = (case nx x of None \<Rightarrow> pv | Some n \<Rightarrow> pv(n := pv x))"

definition unlink_head :: "(addr \<Rightarrow> ptr) \<Rightarrow> (addr \<Rightarrow> ptr) \<Rightarrow> ptr \<Rightarrow> addr \<Rightarrow> ptr" where
  "unlink_head nx pv h x = (case pv x of None \<Rightarrow> nx x | Some _ \<Rightarrow> h)"

lemma dll_link:
  assumes "dll nx pv h xs" "x \<notin> set xs"
  shows "dll (nx(x := h)) (link_pv pv h x) (Some x) (x # xs)"
proof (cases xs)
  case Nil
  with assms show ?thesis by (simp add: link_pv_def)
next
  case (Cons y ys)
  have dist: "distinct xs" using assms(1) by (rule dll_distinct)
  from assms Cons have h: "h = Some y" and tl: "dseg nx pv (Some y) (nx y) ys None" by auto
  have "dseg (nx(x := h)) (link_pv pv h x) (Some y) (nx y) ys None = dseg nx pv (Some y) (nx y) ys None"
    using assms(2) Cons dist h by (intro dseg_frame) (auto simp: link_pv_def)
  with Cons h tl assms(2) show ?thesis by (auto simp: link_pv_def)
qed

lemma dll_unlink_split:
  assumes l: "dll nx pv h (as @ x # bs)"
  shows "dll (unlink_nx nx pv x) (unlink_pv nx pv x) (unlink_head nx pv h x) (as @ bs)"
proof -
  note s = dll_split [OF l]
  have dist: "distinct (as @ x # bs)" using l by (rule dll_distinct)
  have pv_in: "l \<in> set as" if "pv x = Some l" for l
    using that s(2) by (auto simp: lastp_def split: if_splits)
  let ?nx = "unlink_nx nx pv x" and ?pv = "unlink_pv nx pv x"
  have tail: "dseg ?nx ?pv (lastp None as) (nx x) bs None"
  proof (cases bs)
    case Nil
    with s(3) show ?thesis by simp
  next
    case (Cons b bs')
    with s have nxx: "nx x = Some b" and rest: "dseg nx pv (Some b) (nx b) bs' None" by auto
    have fr: "dseg ?nx ?pv (Some b) (nx b) bs' None = dseg nx pv (Some b) (nx b) bs' None"
      using dist Cons nxx
      by (intro dseg_frame)
        (auto simp: unlink_nx_def unlink_pv_def dest: pv_in split: option.splits)
    have "?nx b = nx b"
      using dist Cons by (auto simp: unlink_nx_def dest: pv_in split: option.splits)
    with fr rest Cons nxx s(2) show ?thesis by (simp add: unlink_pv_def)
  qed
  show ?thesis
  proof (cases as rule: rev_cases)
    case Nil
    with s tail show ?thesis by (simp add: unlink_head_def)
  next
    case (snoc as' l)
    have pvx: "pv x = Some l" using s(2) snoc by simp
    from s(1) snoc have front: "dseg nx pv None h as' (Some l)" and pvl: "pv l = lastp None as'"
      by (auto simp: dseg_append)
    have "dseg ?nx ?pv None h as' (Some l) = dseg nx pv None h as' (Some l)"
      using dist snoc pvx s(3)
      by (intro dseg_frame) (cases bs; auto simp: unlink_nx_def unlink_pv_def)+
    moreover have "?pv l = pv l"
      using dist snoc s(3) by (cases bs) (auto simp: unlink_pv_def)
    moreover have "?nx l = nx x" using pvx by (simp add: unlink_nx_def)
    ultimately show ?thesis
      using front pvl tail snoc pvx by (auto simp: dseg_append unlink_head_def)
  qed
qed

lemma dll_unlink:
  assumes "dll nx pv h xs" "x \<in> set xs"
  shows "dll (unlink_nx nx pv x) (unlink_pv nx pv x) (unlink_head nx pv h x) (remove1 x xs)"
proof -
  from assms(2) obtain as bs where xs: "xs = as @ x # bs" and "x \<notin> set as"
    by (meson split_list_first)
  then have "remove1 x xs = as @ bs" by (simp add: remove1_append)
  with dll_unlink_split [OF assms(1) [unfolded xs]] show ?thesis by simp
qed

text \<open>Nodes outside the list are not written to.\<close>

lemma dll_head_in: "dll nx pv h xs \<Longrightarrow> h = Some y \<Longrightarrow> y \<in> set xs"
  by (cases xs) auto

lemma dll_prev_in:
  assumes "dll nx pv h xs" "x \<in> set xs" "pv x = Some p"
  shows "p \<in> set xs"
proof -
  from assms(2) obtain as bs where xs: "xs = as @ x # bs" by (meson split_list)
  from dll_split(2) [OF assms(1) [unfolded xs]] assms(3) have "lastp None as = Some p" by simp
  then show ?thesis by (auto simp: xs lastp_def split: if_splits)
qed

lemma dll_next_in:
  assumes "dll nx pv h xs" "x \<in> set xs" "nx x = Some n"
  shows "n \<in> set xs"
proof -
  from assms(2) obtain as bs where xs: "xs = as @ x # bs" by (meson split_list)
  from dll_split(3) [OF assms(1) [unfolded xs]] assms(3) show ?thesis by (cases bs) (auto simp: xs)
qed

lemma link_pv_other: "dll nx pv h xs \<Longrightarrow> a \<notin> set xs \<Longrightarrow> a \<noteq> x \<Longrightarrow> link_pv pv h x a = pv a"
  by (auto simp: link_pv_def split: option.splits dest: dll_head_in)

lemma unlink_nx_other:
  "dll nx pv h xs \<Longrightarrow> x \<in> set xs \<Longrightarrow> a \<notin> set xs \<Longrightarrow> unlink_nx nx pv x a = nx a"
  by (auto simp: unlink_nx_def split: option.splits dest: dll_prev_in)

lemma unlink_pv_other:
  "dll nx pv h xs \<Longrightarrow> x \<in> set xs \<Longrightarrow> a \<notin> set xs \<Longrightarrow> unlink_pv nx pv x a = pv a"
  by (auto simp: unlink_pv_def split: option.splits dest: dll_next_in)

text \<open>The same for the fields of a store of records.\<close>

lemma fun_upd_field: "(\<lambda>a. f ((h(x := v)) a)) = (\<lambda>a. f (h a))(x := f v)"
  by (rule ext) simp

subsection \<open>The interface of an intrusive doubly linked list\<close>

text \<open>
  The client reads the fields through \<open>nexts\<close>, \<open>prevs\<close> and \<open>head\<close>. The provider
  promises what linking writes, and what unlinking writes when the node is on the list; from
  these laws linking is consing and unlinking is removing on the abstract list.
\<close>

locale intrusive_dlist =
  fixes nexts :: "'w \<Rightarrow> addr \<Rightarrow> ptr" and prevs :: "'w \<Rightarrow> addr \<Rightarrow> ptr" and head :: "'w \<Rightarrow> ptr"
    and link :: "addr \<Rightarrow> 'w \<Rightarrow> 'w" and unlink :: "addr \<Rightarrow> 'w \<Rightarrow> 'w"
    and linkable :: "addr \<Rightarrow> 'w \<Rightarrow> bool"
  assumes link_step: "linkable x w \<Longrightarrow>
      nexts (link x w) = (nexts w)(x := head w) \<and>
      prevs (link x w) = link_pv (prevs w) (head w) x \<and> head (link x w) = Some x"
    and unlink_step: "dll (nexts w) (prevs w) (head w) xs \<Longrightarrow> x \<in> set xs \<Longrightarrow>
      nexts (unlink x w) = unlink_nx (nexts w) (prevs w) x \<and>
      prevs (unlink x w) = unlink_pv (nexts w) (prevs w) x \<and>
      head (unlink x w) = unlink_head (nexts w) (prevs w) (head w) x"
begin

lemma link_refines_cons:
  assumes "dll (nexts w) (prevs w) (head w) xs" "x \<notin> set xs" "linkable x w"
  shows "dll (nexts (link x w)) (prevs (link x w)) (head (link x w)) (x # xs)"
  using dll_link [OF assms(1,2)] link_step [OF assms(3)] by simp

lemma unlink_refines_remove:
  assumes "dll (nexts w) (prevs w) (head w) xs" "x \<in> set xs"
  shows "dll (nexts (unlink x w)) (prevs (unlink x w)) (head (unlink x w)) (remove1 x xs)"
  using dll_unlink [OF assms] unlink_step [OF assms] by simp

lemma unlink_link:
  assumes "dll (nexts w) (prevs w) (head w) xs" "x \<notin> set xs" "linkable x w"
  shows "dll (nexts (unlink x (link x w))) (prevs (unlink x (link x w))) (head (unlink x (link x w))) xs"
  using unlink_refines_remove [OF link_refines_cons [OF assms], of x] by simp

end

end
