(* ===== verification/Us_Sni_Tree.thy ===== *)
theory Us_Sni_Tree imports
  "Us_Prelude"
  "HOL-Library.Char_ord"
  "HOL-Library.List_Lexorder"
begin

section \<open>The tree of server names (\<open>crypto/sni_tree.cpp\<close>)\<close>

text \<open>
  A node is reached by the labels of a name from the left, holds what was stored under the name
  (\<open>user\<close>, null when nothing was) and a map from labels to further nodes. The map is an ordered
  one, here the list of its entries in the order of the keys, which compare as unsigned characters.
  A node belongs to its parent alone, so the tree is a value; the copies of the labels that the map's
  keys point to live and die with the entries.

  Stored values are abstract here; a listener stores a TLS context (\<open>Us_Server_Names\<close>).
\<close>

subsection \<open>Ordered maps\<close>

fun put :: "'k::linorder \<Rightarrow> 'v \<Rightarrow> ('k \<times> 'v) list \<Rightarrow> ('k \<times> 'v) list" where
  "put k v [] = [(k, v)]"
| "put k v ((a, b) # xs) = (if k < a then (k, v) # (a, b) # xs else if k = a then (k, v) # xs
                            else (a, b) # put k v xs)"

definition erase :: "'k \<Rightarrow> ('k \<times> 'v) list \<Rightarrow> ('k \<times> 'v) list" where
  "erase k xs = filter (\<lambda>e. fst e \<noteq> k) xs"

definition ordered :: "('k::linorder \<times> 'v) list \<Rightarrow> bool" where
  "ordered xs = sorted_wrt (<) (map fst xs)"

lemma map_of_put: "map_of (put k v xs) = (map_of xs)(k \<mapsto> v)"
  by (induction k v xs rule: put.induct) auto

lemma put_keys: "fst ` set (put k v xs) = insert k (fst ` set xs)"
  by (induction k v xs rule: put.induct) auto

lemma put_values: "set (put k v xs) \<subseteq> insert (k, v) (set xs)"
  by (induction k v xs rule: put.induct) auto

lemma put_not_nil [simp]: "put k v xs \<noteq> []"
  by (induction k v xs rule: put.induct) auto

lemma ordered_put [simp]: "ordered xs \<Longrightarrow> ordered (put k v xs)"
proof (induction k v xs rule: put.induct)
  case (2 k v a b xs)
  then show ?case using put_keys [of k v xs] by (auto simp: ordered_def)
qed (simp add: ordered_def)

lemma ordered_erase [simp]: "ordered xs \<Longrightarrow> ordered (erase k xs)"
  by (induction xs) (auto simp: ordered_def erase_def)

lemma ordered_distinct: "ordered xs \<Longrightarrow> distinct (map fst xs)"
  by (simp add: ordered_def strict_sorted_iff)

lemma map_of_erase: "map_of (erase k xs) = (map_of xs)(k := None)"
  by (induction xs) (auto simp: erase_def)

lemma erase_subset: "set (erase k xs) \<subseteq> set xs"
  by (auto simp: erase_def)

text \<open>Two ordered maps with the same entries are the same.\<close>

lemma ordered_unique:
  assumes "ordered xs" "ordered ys" "map_of xs = map_of ys"
  shows "xs = ys"
proof (rule map_sorted_distinct_set_unique [where f = fst])
  show "inj_on fst (set xs \<union> set ys)"
    using assms by (metis (no_types, lifting) inj_onI map_of_eq_Some_iff option.inject ordered_distinct
        prod.collapse sup.idem map_of_inject_set)
  show "sorted (map fst xs)" "distinct (map fst xs)" "sorted (map fst ys)" "distinct (map fst ys)"
    using assms(1,2) by (simp_all add: ordered_def strict_sorted_iff)
  show "set xs = set ys"
    using assms by (simp add: map_of_inject_set [symmetric] ordered_distinct)
qed

subsection \<open>Nodes and their operations\<close>

datatype 'u sni_node = Sni_node (sni_user: "'u option") (sni_children: "(char list \<times> 'u sni_node) list")

lemma child_size [termination_simp]:
  "(l, c) \<in> set ch \<Longrightarrow> size c < Suc (size_list (size_prod (\<lambda>_. 0) size) ch)"
  by (induction ch) auto

lemma child_size_image [termination_simp]:
  "c \<in> snd ` set ch \<Longrightarrow> size c < Suc (size_list (size_prod (\<lambda>_. 0) size) ch)"
  using child_size by force

definition sni_new :: "'u sni_node" where
  "sni_new = Sni_node None []"

text \<open>The loop that all three operations begin with: the labels between the dots.\<close>

function labels :: "char list \<Rightarrow> char list list" where
  "labels view = (if view = [] then [] else
     (let label = takeWhile (\<lambda>c. c \<noteq> CHR ''.'') view
      in label # labels (drop (min (length view) (length label + 1)) view)))"
  by pat_completeness auto
termination by (relation "measure length") auto

declare labels.simps [simp del]

fun add_labels :: "'u sni_node \<Rightarrow> char list list \<Rightarrow> 'u \<Rightarrow> int \<times> 'u sni_node" where
  "add_labels root [] user =
    (if sni_user root \<noteq> None then (1, root) else (0, Sni_node (Some user) (sni_children root)))"
| "add_labels root (label # ls) user =
    (let node = (case map_of (sni_children root) label of None \<Rightarrow> sni_new | Some it \<Rightarrow> it);
         (r, node) = add_labels node ls user
     in (r, Sni_node (sni_user root) (put label node (sni_children root))))"

definition sni_add :: "'u sni_node \<Rightarrow> char list \<Rightarrow> 'u \<Rightarrow> int \<times> 'u sni_node" where
  "sni_add sni hostname user = add_labels sni (labels hostname) user"

fun removeUser :: "'u sni_node \<Rightarrow> char list list \<Rightarrow> 'u option \<times> 'u sni_node" where
  "removeUser root [] = (sni_user root, Sni_node None (sni_children root))"
| "removeUser root (label # ls) = (case map_of (sni_children root) label of
     None \<Rightarrow> (None, root)
   | Some it \<Rightarrow> (let (removedUser, it) = removeUser it ls
       in (removedUser, Sni_node (sni_user root)
            (if sni_children it = [] \<and> sni_user it = None then erase label (sni_children root)
             else put label it (sni_children root)))))"

fun getUser :: "'u sni_node \<Rightarrow> char list list \<Rightarrow> 'u option" where
  "getUser root [] = sni_user root"
| "getUser root (label # ls) = (case (case map_of (sni_children root) label of
       None \<Rightarrow> None | Some it \<Rightarrow> getUser it ls) of
     Some user \<Rightarrow> Some user
   | None \<Rightarrow> (case map_of (sni_children root) ''*'' of None \<Rightarrow> None | Some it \<Rightarrow> getUser it ls))"

definition MAX_LABELS :: "nat" where "MAX_LABELS = 10"

definition sni_remove :: "'u sni_node \<Rightarrow> char list \<Rightarrow> 'u option \<times> 'u sni_node" where
  "sni_remove sni hostname = (let ls = labels hostname in
     if length ls > MAX_LABELS then (None, sni) else removeUser sni ls)"

definition sni_find :: "'u sni_node \<Rightarrow> char list \<Rightarrow> 'u option" where
  "sni_find sni hostname = (let ls = labels hostname in
     if length ls > MAX_LABELS then None else getUser sni ls)"

text \<open>
  The destructor calls back for what its children hold, and then destroys them. In which order it
  destroys them is the map's choice; here it is the order of the keys.
\<close>

fun sni_free :: "'u sni_node \<Rightarrow> 'u list" where
  "sni_free (Sni_node user ch) =
    List.map_filter (\<lambda>p. sni_user (snd p)) ch @ concat (map sni_free (map snd ch))"

subsection \<open>What a tree stores\<close>

fun names :: "'u sni_node \<Rightarrow> char list list \<Rightarrow> 'u option" where
  "names root [] = sni_user root"
| "names root (l # ls) = (case map_of (sni_children root) l of None \<Rightarrow> None | Some c \<Rightarrow> names c ls)"

definition dead :: "'u sni_node \<Rightarrow> bool" where
  "dead t \<longleftrightarrow> sni_children t = [] \<and> sni_user t = None"

fun wf_sni :: "'u sni_node \<Rightarrow> bool" where
  "wf_sni (Sni_node u ch) \<longleftrightarrow> ordered ch \<and> (\<forall>c \<in> snd ` set ch. wf_sni c \<and> \<not> dead c)"

lemma names_new [simp]: "names sni_new ls = None"
  by (cases ls) (simp_all add: sni_new_def)

lemma wf_new [simp]: "wf_sni sni_new" "sni_user sni_new = None"
  by (simp_all add: sni_new_def ordered_def)

lemma wf_childI: "wf_sni t \<Longrightarrow> map_of (sni_children t) l = Some c \<Longrightarrow> wf_sni c \<and> \<not> dead c"
  by (cases t) (auto dest!: map_of_SomeD intro: rev_image_eqI)

text \<open>A node that is not dead carries a name; a tree with no name is the empty one.\<close>

lemma live_name: "wf_sni t \<Longrightarrow> \<not> dead t \<Longrightarrow> \<exists>ls. names t ls \<noteq> None"
proof (induction t rule: wf_sni.induct)
  case (1 u ch)
  show ?case
  proof (cases u)
    case None
    with 1(3) obtain l c xs where ch: "ch = (l, c) # xs" by (cases ch) (auto simp: dead_def)
    have "\<exists>ls. names c ls \<noteq> None" using 1(2) by (intro 1(1)) (auto simp: ch)
    then obtain ls where "names c ls \<noteq> None" by blast
    then have "names (Sni_node u ch) (l # ls) \<noteq> None" by (simp add: ch)
    then show ?thesis by blast
  next
    case (Some x)
    then have "names (Sni_node u ch) [] \<noteq> None" by simp
    then show ?thesis by blast
  qed
qed

text \<open>The shape of a tree is determined by what it stores.\<close>

lemma names_unique: "wf_sni t \<Longrightarrow> wf_sni t' \<Longrightarrow> names t = names t' \<Longrightarrow> t = t'"
proof (induction t arbitrary: t' rule: wf_sni.induct)
  case (1 u ch)
  obtain u' ch' where t': "t' = Sni_node u' ch'" by (cases t')
  have "u = u'" using fun_cong [OF 1(4), of "[]"] t' by simp
  moreover have "ch = ch'"
  proof (rule ordered_unique)
    show "ordered ch" "ordered ch'" using 1(2,3) t' by simp_all
    show "map_of ch = map_of ch'"
    proof
      fix l
      have step: "(case map_of ch l of None \<Rightarrow> None | Some c \<Rightarrow> names c ls)
        = (case map_of ch' l of None \<Rightarrow> None | Some c \<Rightarrow> names c ls)" for ls
        using fun_cong [OF 1(4), of "l # ls"] t' by simp
      have wf: "map_of ch l = Some c \<Longrightarrow> wf_sni c \<and> \<not> dead c"
        "map_of ch' l = Some c' \<Longrightarrow> wf_sni c' \<and> \<not> dead c'" for c c'
        using wf_childI [OF 1(2)] wf_childI [OF 1(3)] t' by simp_all
      show "map_of ch l = map_of ch' l"
      proof (cases "map_of ch l")
        case None
        then show ?thesis using step wf(2) live_name by (cases "map_of ch' l") fastforce+
      next
        case (Some c)
        then obtain c' where c': "map_of ch' l = Some c'"
          using step wf(1) live_name by (cases "map_of ch' l") fastforce+
        have "names c = names c'" using step Some c' by (simp add: fun_eq_iff)
        moreover have "c \<in> snd ` set ch" using map_of_SomeD [OF Some] by force
        ultimately show ?thesis using 1(1) wf Some c' by simp
      qed
    qed
  qed
  ultimately show ?case by (simp add: t')
qed

subsection \<open>The operations on what is stored\<close>

lemma add_not_dead: "add_labels t ls u = (r, t') \<Longrightarrow> \<not> dead t'"
  by (cases ls) (auto simp: dead_def split: if_splits prod.splits)

lemma add_labels_wf: "wf_sni t \<Longrightarrow> add_labels t ls u = (r, t') \<Longrightarrow> wf_sni t'"
proof (induction t ls u arbitrary: r t' rule: add_labels.induct)
  case (1 root user)
  then show ?case by (cases root) (auto split: if_splits)
next
  case (2 root l ls user)
  obtain u ch where root: "root = Sni_node u ch" by (cases root)
  obtain c where c: "c = (case map_of (sni_children root) l of None \<Rightarrow> sni_new | Some it \<Rightarrow> it)" by simp
  obtain q c' where a: "add_labels c ls user = (q, c')" by fastforce
  have "wf_sni c" using wf_childI [OF 2(2), of l] unfolding c by (cases "map_of (sni_children root) l") simp_all
  from 2(1) [OF c this a] add_not_dead [OF a] have c': "wf_sni c'" "\<not> dead c'" by simp_all
  have t': "t' = Sni_node u (put l c' ch)" using 2(3) a c root by simp
  have "wf_sni x \<and> \<not> dead x" if "x \<in> snd ` set (put l c' ch)" for x
    using that put_values [of l c' ch] 2(2) c' by (auto simp: root)
  then show ?case using 2(2) by (simp add: t' root del: split_paired_All)
qed

lemma names_add:
  "add_labels t ls u = (r, t') \<Longrightarrow>
    (case names t ls of None \<Rightarrow> r = 0 \<and> names t' = (names t)(ls \<mapsto> u) | Some _ \<Rightarrow> r = 1 \<and> names t' = names t)"
proof (induction t ls u arbitrary: r t' rule: add_labels.induct)
  case (1 root user)
  have "names (Sni_node (Some user) (sni_children root)) ls = ((names root)([] \<mapsto> user)) ls" for ls
    by (cases ls) simp_all
  with 1 show ?case by (auto split: if_splits option.splits)
next
  case (2 root l ls user)
  obtain c where c: "c = (case map_of (sni_children root) l of None \<Rightarrow> sni_new | Some it \<Rightarrow> it)" by simp
  obtain q c' where a: "add_labels c ls user = (q, c')" by fastforce
  have t': "r = q" "t' = Sni_node (sni_user root) (put l c' (sni_children root))" using 2(2) a c by auto
  have n: "names root (l # ls) = names c ls" by (simp add: c split: option.split)
  note IH = 2(1) [OF c a]
  have at: "names t' ms = (case ms of [] \<Rightarrow> names root ms
      | m # ms \<Rightarrow> if m = l then names c' ms else names root (m # ms))" for ms
    by (cases ms) (simp_all add: t' map_of_put)
  have l: "names root (l # ms) = names c ms" for ms
    by (simp add: c split: option.split)
  show ?case using IH unfolding n t'(1)
    by (cases "names c ls") (auto simp: fun_eq_iff at l simp del: names.simps split: list.splits)
qed

lemma names_remove:
  "wf_sni t \<Longrightarrow> removeUser t ls = (r, t') \<Longrightarrow> r = names t ls \<and> names t' = (names t)(ls := None) \<and> wf_sni t'"
proof (induction t ls arbitrary: r t' rule: removeUser.induct)
  case (1 root)
  have "names (Sni_node None (sni_children root)) ls = ((names root)([] := None)) ls" for ls
    by (cases ls) simp_all
  with 1 show ?case by (cases root) auto
next
  case (2 root l ls)
  show ?case
  proof (cases "map_of (sni_children root) l")
    case None
    then have "(names root)(l # ls := None) = names root" by (simp add: fun_eq_iff)
    with None 2 show ?thesis by simp
  next
    case (Some c)
    obtain q c' where a: "removeUser c ls = (q, c')" by fastforce
    have "wf_sni c" using wf_childI [OF 2(2) Some] by simp
    then have IH: "q = names c ls" "names c' = (names c)(ls := None)" "wf_sni c'" using 2(1) [OF Some _ a] by auto
    have r: "r = q" "t' = Sni_node (sni_user root)
        (if dead c' then erase l (sni_children root) else put l c' (sni_children root))"
      using 2(3) Some a by (auto simp: dead_def)
    have dead: "names c' ms = None" if "dead c'" for ms
      using that by (cases ms) (auto simp: dead_def)
    have "names t' ms = ((names root)(l # ls := None)) ms" for ms
    proof (cases ms)
      case (Cons m ms')
      then show ?thesis using Some dead [of ms'] IH(2) by (auto simp: r map_of_put map_of_erase)
    qed (simp add: r)
    moreover have "wf_sni t'"
      using 2(2) IH(3) put_values [of l c' "sni_children root"] erase_subset [of l "sni_children root"]
      by (cases root) (auto simp: r image_iff)
    ultimately show ?thesis using r(1) IH(1) Some by (simp add: fun_eq_iff)
  qed
qed


subsection \<open>The order of matching\<close>

text \<open>
  The stored names that match a name, best first: at every position the label itself is tried
  before the wildcard, and an earlier position decides.
\<close>

fun patterns :: "char list list \<Rightarrow> char list list list" where
  "patterns [] = [[]]"
| "patterns (l # ls) = map ((#) l) (patterns ls) @ map ((#) ''*'') (patterns ls)"

definition first_stored :: "'u sni_node \<Rightarrow> char list list list \<Rightarrow> 'u option" where
  "first_stored t ps = Option.bind (List.find (\<lambda>p. names t p \<noteq> None) ps) (names t)"

lemma first_stored_append:
  "first_stored t (ps @ qs) = (case first_stored t ps of None \<Rightarrow> first_stored t qs | Some u \<Rightarrow> Some u)"
proof -
  have "List.find P (ps @ qs) = (case List.find P ps of None \<Rightarrow> List.find P qs | Some p \<Rightarrow> Some p)" for P
    by (induction ps) simp_all
  moreover have "List.find P ps = Some p \<Longrightarrow> P p" for P p
    by (metis find_Some_iff)
  ultimately show ?thesis by (force simp: first_stored_def split: option.split)
qed

lemma find_map: "List.find P (map f ps) = map_option f (List.find (P \<circ> f) ps)"
  by (induction ps) simp_all

lemma first_stored_child:
  "first_stored t (map ((#) l) ps) = (case map_of (sni_children t) l of None \<Rightarrow> None | Some c \<Rightarrow> first_stored c ps)"
proof (cases "map_of (sni_children t) l")
  case None
  then have "List.find ((\<lambda>p. names t p \<noteq> None) \<circ> (#) l) ps = None" by (simp add: find_None_iff)
  with None show ?thesis by (simp add: first_stored_def find_map)
next
  case (Some c)
  then have "(\<lambda>p. names t p \<noteq> None) \<circ> (#) l = (\<lambda>p. names c p \<noteq> None)" by (simp add: fun_eq_iff)
  moreover have "names t \<circ> (#) l = names c" using Some by (simp add: fun_eq_iff)
  ultimately show ?thesis using Some
    by (cases "List.find (\<lambda>p. names c p \<noteq> None) ps") (simp_all add: first_stored_def find_map)
qed

lemma getUser_first: "getUser t ls = first_stored t (patterns ls)"
proof (induction t ls rule: getUser.induct)
  case (1 root)
  then show ?case by (simp add: first_stored_def)
next
  case (2 root label ls)
  then show ?case
    by (simp add: first_stored_append first_stored_child split: option.split)
qed

end
