(* ===== verification/Us_State.thy ===== *)
theory Us_State imports
  Us_Prelude
  Us_Sni_Tree
begin

section \<open>State: the objects of the library, the kernel it talks to, the events it dispatches\<close>

text \<open>
  The records mirror the C structures of \<open>internal/internal.h\<close>, \<open>internal/loop_data.h\<close>,
  \<open>internal/eventing/epoll_kqueue.h\<close> and \<open>libusockets.h\<close> field by field, with the declared
  widths. Objects live in maps from addresses; a \<open>us_socket_t\<close>, a \<open>us_listen_socket_t\<close>,
  a \<open>us_udp_socket_t\<close> and a \<open>us_internal_callback_t\<close> begin with a \<open>us_poll_t\<close>, so the poll
  of such an object is the one at the same address (and the socket embedded in a listen socket is the
  one at the listener's address). \<open>heap_tag\<close> says which addresses are allocated and as what:
  \<open>us_malloc\<close> and \<open>us_calloc\<close> hand out fresh addresses, \<open>us_free\<close> clears the tag.

  Code that is not part of the library answers through scripts: every system call, every call into
  the resolver and every call into BoringSSL takes the next element of \<open>replies\<close>, and is recorded in
  \<open>trace\<close> (most recent first) together with the events handed to the application. A statement that
  holds for every script holds for every behaviour of that code. When the script has run out the
  kernel answers \<open>-1\<close> with \<open>EAGAIN\<close>.
\<close>

subsection \<open>Constants\<close>

definition EPERM :: "int" where "EPERM = 1"
definition ENOENT :: "int" where "ENOENT = 2"
definition EINTR :: "int" where "EINTR = 4"
definition EAGAIN :: "int" where "EAGAIN = 11"
definition EACCES :: "int" where "EACCES = 13"
definition EINVAL :: "int" where "EINVAL = 22"
definition ENAMETOOLONG :: "int" where "ENAMETOOLONG = 36"
definition ENOSYS :: "int" where "ENOSYS = 38"
definition ENOPROTOOPT :: "int" where "ENOPROTOOPT = 92"
definition ENOTSUP :: "int" where "ENOTSUP = 95"
definition EAFNOSUPPORT :: "int" where "EAFNOSUPPORT = 97"
definition ECONNRESET :: "int" where "ECONNRESET = 104"
definition ECONNABORTED :: "int" where "ECONNABORTED = 103"
definition ECONNREFUSED :: "int" where "ECONNREFUSED = 111"
definition EINPROGRESS :: "int" where "EINPROGRESS = 115"

lemmas errno_defs = EPERM_def ENOENT_def EINTR_def EAGAIN_def EACCES_def EINVAL_def
  ENAMETOOLONG_def ENOSYS_def ENOPROTOOPT_def ENOTSUP_def EAFNOSUPPORT_def ECONNRESET_def
  ECONNABORTED_def ECONNREFUSED_def EINPROGRESS_def

definition LIBUS_SOCKET_ERROR :: "int" where "LIBUS_SOCKET_ERROR = -1"
definition LIBUS_RECV_BUFFER_LENGTH :: "int" where "LIBUS_RECV_BUFFER_LENGTH = 524288"
definition LIBUS_SEND_BUFFER_LENGTH :: "int" where "LIBUS_SEND_BUFFER_LENGTH = 16384"
definition LIBUS_TIMEOUT_GRANULARITY :: "u32" where "LIBUS_TIMEOUT_GRANULARITY = 4"
definition LIBUS_MAX_READY_POLLS :: "int" where "LIBUS_MAX_READY_POLLS = 1024"
definition LIBUS_UDP_MAX_SIZE :: "int" where "LIBUS_UDP_MAX_SIZE = 65536"
definition LIBUS_UDP_RECV_COUNT :: "int" where "LIBUS_UDP_RECV_COUNT = 8"

definition LIBUS_SOCKET_CLOSE_CODE_CLEAN_SHUTDOWN :: "int" where "LIBUS_SOCKET_CLOSE_CODE_CLEAN_SHUTDOWN = 0"
definition LIBUS_SOCKET_CLOSE_CODE_CONNECTION_RESET :: "int" where "LIBUS_SOCKET_CLOSE_CODE_CONNECTION_RESET = 1"
definition LIBUS_SOCKET_CLOSE_CODE_FAST_SHUTDOWN :: "int" where "LIBUS_SOCKET_CLOSE_CODE_FAST_SHUTDOWN = 2"

lemmas close_code_defs = LIBUS_SOCKET_CLOSE_CODE_CLEAN_SHUTDOWN_def
  LIBUS_SOCKET_CLOSE_CODE_CONNECTION_RESET_def LIBUS_SOCKET_CLOSE_CODE_FAST_SHUTDOWN_def

definition LIBUS_LISTEN_EXCLUSIVE_PORT :: "u32" where "LIBUS_LISTEN_EXCLUSIVE_PORT = 1"
definition LIBUS_SOCKET_ALLOW_HALF_OPEN :: "u32" where "LIBUS_SOCKET_ALLOW_HALF_OPEN = 2"
definition LIBUS_LISTEN_REUSE_PORT :: "u32" where "LIBUS_LISTEN_REUSE_PORT = 4"
definition LIBUS_SOCKET_IPV6_ONLY :: "u32" where "LIBUS_SOCKET_IPV6_ONLY = 8"
definition LIBUS_LISTEN_REUSE_ADDR :: "u32" where "LIBUS_LISTEN_REUSE_ADDR = 16"
definition LIBUS_LISTEN_DISALLOW_REUSE_PORT_FAILURE :: "u32" where "LIBUS_LISTEN_DISALLOW_REUSE_PORT_FAILURE = 32"
definition LIBUS_LISTEN_DEFER_ACCEPT :: "u32" where "LIBUS_LISTEN_DEFER_ACCEPT = 64"

text \<open>\<open>poll_type\<close> is a 5-bit field: three bits of kind, two of what is polled for.\<close>

definition POLL_TYPE_SOCKET :: "5 word" where "POLL_TYPE_SOCKET = 0"
definition POLL_TYPE_SOCKET_SHUT_DOWN :: "5 word" where "POLL_TYPE_SOCKET_SHUT_DOWN = 1"
definition POLL_TYPE_SEMI_SOCKET :: "5 word" where "POLL_TYPE_SEMI_SOCKET = 2"
definition POLL_TYPE_CALLBACK :: "5 word" where "POLL_TYPE_CALLBACK = 3"
definition POLL_TYPE_UDP :: "5 word" where "POLL_TYPE_UDP = 4"
definition POLL_TYPE_POLLING_OUT :: "5 word" where "POLL_TYPE_POLLING_OUT = 8"
definition POLL_TYPE_POLLING_IN :: "5 word" where "POLL_TYPE_POLLING_IN = 16"
definition POLL_TYPE_KIND_MASK :: "5 word" where "POLL_TYPE_KIND_MASK = 7"
definition POLL_TYPE_POLLING_MASK :: "5 word" where "POLL_TYPE_POLLING_MASK = 24"

lemmas poll_type_defs = POLL_TYPE_SOCKET_def POLL_TYPE_SOCKET_SHUT_DOWN_def
  POLL_TYPE_SEMI_SOCKET_def POLL_TYPE_CALLBACK_def POLL_TYPE_UDP_def POLL_TYPE_POLLING_OUT_def
  POLL_TYPE_POLLING_IN_def POLL_TYPE_KIND_MASK_def POLL_TYPE_POLLING_MASK_def

definition EPOLLIN :: "u32" where "EPOLLIN = 1"
definition EPOLLOUT :: "u32" where "EPOLLOUT = 4"
definition EPOLLERR :: "u32" where "EPOLLERR = 8"
definition EPOLLHUP :: "u32" where "EPOLLHUP = 16"
definition EPOLLRDHUP :: "u32" where "EPOLLRDHUP = 8192"
definition EPOLLET :: "u32" where "EPOLLET = 2147483648"

abbreviation "LIBUS_SOCKET_READABLE \<equiv> EPOLLIN"
abbreviation "LIBUS_SOCKET_WRITABLE \<equiv> EPOLLOUT"

lemmas epoll_defs = EPOLLIN_def EPOLLOUT_def EPOLLERR_def EPOLLHUP_def EPOLLRDHUP_def EPOLLET_def

subsection \<open>Data exchanged with the kernel\<close>

text \<open>A port is kept as the two bytes of the network order field; IP addresses as their bytes.\<close>

datatype sockaddr =
    Sa_unspec
  | Sa_in "u8 \<times> u8" "u8 list"
  | Sa_in6 "u8 \<times> u8" "u8 list" u32
  | Sa_un "u8 list"

datatype family = AF_UNSPEC | AF_UNIX | AF_INET | AF_INET6

fun sa_family :: "sockaddr \<Rightarrow> family" where
  "sa_family Sa_unspec = AF_UNSPEC"
| "sa_family (Sa_in _ _) = AF_INET"
| "sa_family (Sa_in6 _ _ _) = AF_INET6"
| "sa_family (Sa_un _) = AF_UNIX"

record addrinfo =
  ai_family :: family
  ai_addr :: sockaddr

record cmsg =
  cmsg_level :: int
  cmsg_type :: int
  cmsg_data :: "u8 list"

record mmsg =
  msg_name :: sockaddr
  msg_payload :: "u8 list"
  msg_len :: int
  msg_flags :: int
  msg_control :: "cmsg list"

datatype sockopt_value =
    Ov_int int
  | Ov_bytes "u8 list"
  | Ov_u32 u32
  | Ov_mreq "u8 list" "u8 list"
  | Ov_mreq6 "u8 list" u32
  | Ov_mreq_source "u8 list" "u8 list" "u8 list"
  | Ov_group_source u32 sockaddr sockaddr
  | Ov_linger int int

text \<open>
  What \<open>epoll_event.data.ptr\<close> holds: NULL, one of our polls, or a pointer whose upper bits are
  set, which marks a poll owned by Bun's runtime (\<open>CLEAR_POINTER_TAG\<close>).
\<close>

datatype pollref = Null_poll | Poll addr | Tagged nat

datatype epoll_op = EPOLL_CTL_ADD | EPOLL_CTL_MOD | EPOLL_CTL_DEL

type_synonym timespec = "int \<times> int"

text \<open>
  The functions of BoringSSL that the TLS layer calls. While one of them runs it may call back into
  the BIO of the library: \<open>bio_op\<close> is what it asks for.
\<close>

datatype ssl_op =
    SSL_new | SSL_free | SSL_is_init_finished | SSL_in_init | SSL_get_shutdown | SSL_do_handshake
  | SSL_shutdown | SSL_read int | SSL_write "u8 list" | SSL_get_error int | SSL_renegotiate
  | SSL_get_quiet_shutdown | SSL_get_peer_certificate | SSL_get_verify_result
  | SSL_cipher_auth_is_psk | SSL_session_version | SSL_session_reused
  | SSL_set_bio | SSL_set_renegotiate_explicit | SSL_set_renegotiate_never | SSL_set_connect_state
  | SSL_set_accept_state | SSL_set_tlsext_host_name "char list" | SSL_CTX_get_verify_mode
  | SSL_set_verify_peer | SSL_set0_verify_cert_store | SSL_set_listener ptr | SSL_get_listener
  | SSL_CTX_up_ref | SSL_CTX_free | SSL_CTX_set_servername_callback | SSL_CTX_set_sni_userdata ptr
  | SSL_get_servername | SSL_set_SSL_CTX addr | SSL_get_SSL_CTX | SSL_CTX_get_sni_userdata

datatype bio_op = Bio_write "u8 list" | Bio_read int

datatype syscall =
    Sys_socket family int | Sys_close int | Sys_shutdown_wr int | Sys_shutdown_rd int
  | Sys_fcntl_get int int | Sys_fcntl_set int int int
  | Sys_setsockopt int int int sockopt_value | Sys_getsockopt_error int
  | Sys_getsockname int | Sys_getpeername int | Sys_accept4 int
  | Sys_recv int int int | Sys_recvmsg int int | Sys_send int "u8 list" | Sys_sendmsg int "u8 list" int
  | Sys_writev int "u8 list" "u8 list"
  | Sys_bind int sockaddr | Sys_listen int int | Sys_connect int sockaddr
  | Sys_getaddrinfo "char list" int | Sys_freeaddrinfo
  | Sys_open_dir "u8 list"
  | Sys_sendmmsg int "mmsg list" | Sys_recvmmsg int int
  | Sys_epoll_create | Sys_epoll_ctl int epoll_op int u32 pollref
  | Sys_epoll_pwait2 int int "timespec option" | Sys_epoll_pwait int int int
  | Sys_timerfd_create | Sys_timerfd_settime int timespec timespec | Sys_eventfd
  | Sys_read int | Sys_write int | Sys_socketpair
  | Ext_date_header_timer
  | Dns_get "char list" u16 | Dns_set addr addr | Dns_cancel addr addr
  | Dns_free_request addr int | Dns_result addr
  | Ssl ssl_op addr

text \<open>The answer of one call: its result, the \<open>errno\<close> it sets, and what it stores for the caller.\<close>

record reply =
  r_ret :: int
  r_errno :: int
  r_int :: int
  r_int2 :: int
  r_bytes :: "u8 list"
  r_addr :: sockaddr
  r_addrs :: "addrinfo list"
  r_msgs :: "mmsg list"
  r_events :: "(u32 \<times> pollref) list"
  r_ptr :: ptr
  r_bio :: "bio_op list"

definition default_reply :: reply where
  "default_reply = \<lparr> r_ret = -1, r_errno = EAGAIN, r_int = 0, r_int2 = 0, r_bytes = [], r_addr = Sa_unspec,
     r_addrs = [], r_msgs = [], r_events = [], r_ptr = None, r_bio = [] \<rparr>"

subsection \<open>Events handed to the application\<close>

datatype event =
    Ev_open addr bool "u8 list"
  | Ev_data addr "u8 list"
  | Ev_fd addr int
  | Ev_writable addr
  | Ev_close addr int ptr
  | Ev_timeout addr
  | Ev_long_timeout addr
  | Ev_end addr
  | Ev_connect_error addr int
  | Ev_connecting_error addr int
  | Ev_handshake addr bool int
  | Ev_ssl_raw_tap addr "u8 list"
  | Ev_udp_data addr "mmsg list"
  | Ev_udp_drain addr
  | Ev_udp_close addr
  | Ev_udp_recv_error addr int
  | Ev_callback addr
  | Ev_bun_poll nat
  | Ev_server_name addr "char list"
  | Ev_pre | Ev_post | Ev_before_wait

datatype obs = Sys syscall | Dispatch event

record kernel =
  errno :: int
  replies :: "reply list"
  trace :: "obs list"

subsection \<open>The library's objects\<close>

record us_poll_t =
  p_fd :: "27 word"
  p_poll_type :: "5 word"

record us_socket_t =
  s_timeout :: u8
  s_long_timeout :: u8
  s_is_paused :: bool
  s_allow_half_open :: bool
  s_low_prio_state :: "2 word"
  s_is_ipc :: bool
  s_is_closed :: bool
  s_adopted :: bool
  s_last_write_failed :: bool
  s_kind :: u8
  s_ssl_handshake_state :: "2 word"
  s_ssl_write_wants_read :: bool
  s_ssl_read_wants_write :: bool
  s_ssl_fatal_error :: bool
  s_ssl_is_server :: bool
  s_ssl_raw_tap :: bool
  s_group :: ptr
  s_ssl :: ptr
  s_prev :: ptr
  s_next :: ptr
  s_connect_next :: ptr
  s_connect_state :: ptr

record us_connecting_socket_t =
  c_addrinfo_req :: ptr
  c_group :: ptr
  c_ssl_ctx :: ptr
  c_next :: ptr
  c_connecting_head :: ptr
  c_options :: u32
  c_socket_ext_size :: int
  c_closed :: bool
  c_shutdown :: bool
  c_shutdown_read :: bool
  c_pending_resolve_callback :: bool
  c_timeout :: u8
  c_long_timeout :: u8
  c_kind :: u8
  c_port :: u16
  c_error :: int
  c_addrinfo_head :: "sockaddr list"
  c_next_pending :: ptr
  c_prev_pending :: ptr

text \<open>What a listener stores under a server name: a leaf of its tree.\<close>

record sni_node_t =
  n_ctx :: addr
  n_user :: ptr

record us_listen_socket_t =
  l_accept_group :: addr
  l_next :: ptr
  l_ssl_ctx :: ptr
  l_sni :: "sni_node_t sni_node option"
  l_on_server_name :: bool
  l_socket_ext_size :: int
  l_accept_kind :: u8
  l_deferred_accept :: bool

record us_socket_group_t =
  g_vtable :: ptr
  g_ext :: ptr
  g_head_sockets :: ptr
  g_head_connecting_sockets :: ptr
  g_head_listen_sockets :: ptr
  g_iterator :: ptr
  g_prev :: ptr
  g_next :: ptr
  g_global_tick :: u32
  g_low_prio_count :: u16
  g_timestamp :: u8
  g_long_timestamp :: u8
  g_linked :: bool

record us_udp_socket_t =
  u_port :: u16
  u_closed :: bool
  u_connected :: bool
  u_next :: ptr
  u_user :: ptr

datatype callback_fn = Cb_sweep_timer | Cb_sweep_noop | Cb_wakeup | Cb_user nat

record us_internal_callback_t =
  cb_expects_the_loop :: bool
  cb_leave_poll_ready :: bool
  cb_cb :: "callback_fn option"
  cb_has_added_timer :: bool

record us_loop_t =
  ld_sweep_timer :: ptr
  ld_sweep_timer_count :: int
  ld_wakeup_async :: ptr
  ld_head :: ptr
  ld_quic_head :: ptr
  ld_quic_next_tick_us :: int
  ld_iterator :: ptr
  ld_closed_udp_head :: ptr
  ld_closed_head :: ptr
  ld_low_prio_head :: ptr
  ld_low_prio_budget :: int
  ld_dns_ready_head :: ptr
  ld_closed_connecting_head :: ptr
  ld_iteration_nr :: "64 word"
  ld_jsc_vm :: ptr
  ld_ssl_inited :: bool
  ld_ssl_socket :: ptr
  ld_ssl_read_input :: "u8 list"
  ld_ssl_read_input_offset :: int
  ld_ssl_read_input_length :: int
  ld_tick_depth :: int
  lp_num_polls :: int
  lp_num_ready_polls :: int
  lp_current_ready_poll :: int
  lp_fd :: int
  lp_pending_wakeups :: u32
  lp_ready_polls :: "(u32 \<times> pollref) list"
  lp_has_epoll_pwait2 :: int

datatype tag = T_socket | T_listen | T_connecting | T_udp | T_callback | T_poll

record world =
  kern :: kernel
  polls :: "addr \<Rightarrow> us_poll_t"
  sockets :: "addr \<Rightarrow> us_socket_t"
  conns :: "addr \<Rightarrow> us_connecting_socket_t"
  listeners :: "addr \<Rightarrow> us_listen_socket_t"
  groups :: "addr \<Rightarrow> us_socket_group_t"
  udps :: "addr \<Rightarrow> us_udp_socket_t"
  callbacks :: "addr \<Rightarrow> us_internal_callback_t"
  loop :: us_loop_t
  heap_tag :: "addr \<Rightarrow> tag option"
  next_addr :: addr

subsection \<open>Updates of one object\<close>

definition upd_kern :: "(kernel \<Rightarrow> kernel) \<Rightarrow> world \<Rightarrow> world" where
  "upd_kern f w = w\<lparr>kern := f (kern w)\<rparr>"

definition upd_p :: "addr \<Rightarrow> (us_poll_t \<Rightarrow> us_poll_t) \<Rightarrow> world \<Rightarrow> world" where
  "upd_p a f w = w\<lparr>polls := (polls w)(a := f (polls w a))\<rparr>"

definition upd_s :: "addr \<Rightarrow> (us_socket_t \<Rightarrow> us_socket_t) \<Rightarrow> world \<Rightarrow> world" where
  "upd_s a f w = w\<lparr>sockets := (sockets w)(a := f (sockets w a))\<rparr>"

definition upd_c :: "addr \<Rightarrow> (us_connecting_socket_t \<Rightarrow> us_connecting_socket_t) \<Rightarrow> world \<Rightarrow> world" where
  "upd_c a f w = w\<lparr>conns := (conns w)(a := f (conns w a))\<rparr>"

definition upd_ls :: "addr \<Rightarrow> (us_listen_socket_t \<Rightarrow> us_listen_socket_t) \<Rightarrow> world \<Rightarrow> world" where
  "upd_ls a f w = w\<lparr>listeners := (listeners w)(a := f (listeners w a))\<rparr>"

definition upd_g :: "addr \<Rightarrow> (us_socket_group_t \<Rightarrow> us_socket_group_t) \<Rightarrow> world \<Rightarrow> world" where
  "upd_g a f w = w\<lparr>groups := (groups w)(a := f (groups w a))\<rparr>"

definition upd_u :: "addr \<Rightarrow> (us_udp_socket_t \<Rightarrow> us_udp_socket_t) \<Rightarrow> world \<Rightarrow> world" where
  "upd_u a f w = w\<lparr>udps := (udps w)(a := f (udps w a))\<rparr>"

definition upd_cb :: "addr \<Rightarrow> (us_internal_callback_t \<Rightarrow> us_internal_callback_t) \<Rightarrow> world \<Rightarrow> world" where
  "upd_cb a f w = w\<lparr>callbacks := (callbacks w)(a := f (callbacks w a))\<rparr>"

definition upd_loop :: "(us_loop_t \<Rightarrow> us_loop_t) \<Rightarrow> world \<Rightarrow> world" where
  "upd_loop f w = w\<lparr>loop := f (loop w)\<rparr>"

definition us_free :: "addr \<Rightarrow> world \<Rightarrow> world" where
  "us_free a w = w\<lparr>heap_tag := (heap_tag w)(a := None)\<rparr>"

definition us_malloc :: "tag \<Rightarrow> world \<Rightarrow> addr \<times> world" where
  "us_malloc t w = (next_addr w,
     w\<lparr>heap_tag := (heap_tag w)(next_addr w \<mapsto> t), next_addr := Suc (next_addr w)\<rparr>)"

lemma upd_kern_sel [simp]:
  "kern (upd_kern f w) = f (kern w)" "polls (upd_kern f w) = polls w"
  "sockets (upd_kern f w) = sockets w" "conns (upd_kern f w) = conns w"
  "listeners (upd_kern f w) = listeners w" "groups (upd_kern f w) = groups w"
  "udps (upd_kern f w) = udps w" "callbacks (upd_kern f w) = callbacks w"
  "loop (upd_kern f w) = loop w" "heap_tag (upd_kern f w) = heap_tag w"
  "next_addr (upd_kern f w) = next_addr w"
  by (simp_all add: upd_kern_def)

lemma upd_p_sel [simp]:
  "kern (upd_p a f w) = kern w" "polls (upd_p a f w) = (polls w)(a := f (polls w a))"
  "sockets (upd_p a f w) = sockets w" "conns (upd_p a f w) = conns w"
  "listeners (upd_p a f w) = listeners w" "groups (upd_p a f w) = groups w"
  "udps (upd_p a f w) = udps w" "callbacks (upd_p a f w) = callbacks w"
  "loop (upd_p a f w) = loop w" "heap_tag (upd_p a f w) = heap_tag w"
  "next_addr (upd_p a f w) = next_addr w"
  by (simp_all add: upd_p_def)

lemma upd_s_sel [simp]:
  "kern (upd_s a f w) = kern w" "polls (upd_s a f w) = polls w"
  "sockets (upd_s a f w) = (sockets w)(a := f (sockets w a))" "conns (upd_s a f w) = conns w"
  "listeners (upd_s a f w) = listeners w" "groups (upd_s a f w) = groups w"
  "udps (upd_s a f w) = udps w" "callbacks (upd_s a f w) = callbacks w"
  "loop (upd_s a f w) = loop w" "heap_tag (upd_s a f w) = heap_tag w"
  "next_addr (upd_s a f w) = next_addr w"
  by (simp_all add: upd_s_def)

lemma upd_c_sel [simp]:
  "kern (upd_c a f w) = kern w" "polls (upd_c a f w) = polls w"
  "sockets (upd_c a f w) = sockets w" "conns (upd_c a f w) = (conns w)(a := f (conns w a))"
  "listeners (upd_c a f w) = listeners w" "groups (upd_c a f w) = groups w"
  "udps (upd_c a f w) = udps w" "callbacks (upd_c a f w) = callbacks w"
  "loop (upd_c a f w) = loop w" "heap_tag (upd_c a f w) = heap_tag w"
  "next_addr (upd_c a f w) = next_addr w"
  by (simp_all add: upd_c_def)

lemma upd_ls_sel [simp]:
  "kern (upd_ls a f w) = kern w" "polls (upd_ls a f w) = polls w"
  "sockets (upd_ls a f w) = sockets w" "conns (upd_ls a f w) = conns w"
  "listeners (upd_ls a f w) = (listeners w)(a := f (listeners w a))" "groups (upd_ls a f w) = groups w"
  "udps (upd_ls a f w) = udps w" "callbacks (upd_ls a f w) = callbacks w"
  "loop (upd_ls a f w) = loop w" "heap_tag (upd_ls a f w) = heap_tag w"
  "next_addr (upd_ls a f w) = next_addr w"
  by (simp_all add: upd_ls_def)

lemma upd_g_sel [simp]:
  "kern (upd_g a f w) = kern w" "polls (upd_g a f w) = polls w"
  "sockets (upd_g a f w) = sockets w" "conns (upd_g a f w) = conns w"
  "listeners (upd_g a f w) = listeners w" "groups (upd_g a f w) = (groups w)(a := f (groups w a))"
  "udps (upd_g a f w) = udps w" "callbacks (upd_g a f w) = callbacks w"
  "loop (upd_g a f w) = loop w" "heap_tag (upd_g a f w) = heap_tag w"
  "next_addr (upd_g a f w) = next_addr w"
  by (simp_all add: upd_g_def)

lemma upd_u_sel [simp]:
  "kern (upd_u a f w) = kern w" "polls (upd_u a f w) = polls w"
  "sockets (upd_u a f w) = sockets w" "conns (upd_u a f w) = conns w"
  "listeners (upd_u a f w) = listeners w" "groups (upd_u a f w) = groups w"
  "udps (upd_u a f w) = (udps w)(a := f (udps w a))" "callbacks (upd_u a f w) = callbacks w"
  "loop (upd_u a f w) = loop w" "heap_tag (upd_u a f w) = heap_tag w"
  "next_addr (upd_u a f w) = next_addr w"
  by (simp_all add: upd_u_def)

lemma upd_cb_sel [simp]:
  "kern (upd_cb a f w) = kern w" "polls (upd_cb a f w) = polls w"
  "sockets (upd_cb a f w) = sockets w" "conns (upd_cb a f w) = conns w"
  "listeners (upd_cb a f w) = listeners w" "groups (upd_cb a f w) = groups w"
  "udps (upd_cb a f w) = udps w" "callbacks (upd_cb a f w) = (callbacks w)(a := f (callbacks w a))"
  "loop (upd_cb a f w) = loop w" "heap_tag (upd_cb a f w) = heap_tag w"
  "next_addr (upd_cb a f w) = next_addr w"
  by (simp_all add: upd_cb_def)

lemma upd_loop_sel [simp]:
  "kern (upd_loop f w) = kern w" "polls (upd_loop f w) = polls w"
  "sockets (upd_loop f w) = sockets w" "conns (upd_loop f w) = conns w"
  "listeners (upd_loop f w) = listeners w" "groups (upd_loop f w) = groups w"
  "udps (upd_loop f w) = udps w" "callbacks (upd_loop f w) = callbacks w"
  "loop (upd_loop f w) = f (loop w)" "heap_tag (upd_loop f w) = heap_tag w"
  "next_addr (upd_loop f w) = next_addr w"
  by (simp_all add: upd_loop_def)

lemma us_free_sel [simp]:
  "kern (us_free a w) = kern w" "polls (us_free a w) = polls w"
  "sockets (us_free a w) = sockets w" "conns (us_free a w) = conns w"
  "listeners (us_free a w) = listeners w" "groups (us_free a w) = groups w"
  "udps (us_free a w) = udps w" "callbacks (us_free a w) = callbacks w"
  "loop (us_free a w) = loop w" "heap_tag (us_free a w) = (heap_tag w)(a := None)"
  "next_addr (us_free a w) = next_addr w"
  by (simp_all add: us_free_def)

lemma us_malloc_sel [simp]:
  "fst (us_malloc t w) = next_addr w"
  "kern (snd (us_malloc t w)) = kern w" "polls (snd (us_malloc t w)) = polls w"
  "sockets (snd (us_malloc t w)) = sockets w" "conns (snd (us_malloc t w)) = conns w"
  "listeners (snd (us_malloc t w)) = listeners w" "groups (snd (us_malloc t w)) = groups w"
  "udps (snd (us_malloc t w)) = udps w" "callbacks (snd (us_malloc t w)) = callbacks w"
  "loop (snd (us_malloc t w)) = loop w"
  "heap_tag (snd (us_malloc t w)) = (heap_tag w)(next_addr w \<mapsto> t)"
  "next_addr (snd (us_malloc t w)) = Suc (next_addr w)"
  by (simp_all add: us_malloc_def)

subsection \<open>Calls into the kernel\<close>

definition pop_reply :: "kernel \<Rightarrow> reply" where
  "pop_reply k = (case replies k of [] \<Rightarrow> default_reply | r # _ \<Rightarrow> r)"

text \<open>\<open>sys c\<close>: perform \<open>c\<close>; a result of \<open>-1\<close> comes with \<open>errno\<close> set.\<close>

definition sys :: "syscall \<Rightarrow> kernel \<Rightarrow> reply \<times> kernel" where
  "sys c k = (let r = pop_reply k in
     (r, k\<lparr>replies := tl (replies k), trace := Sys c # trace k,
           errno := (if r_ret r = -1 then r_errno r else errno k)\<rparr>))"

text \<open>
  The loop \<open>do r = call(...); while (IS_EINTR(r));\<close> that the sources write around most calls:
  \<open>IS_EINTR\<close> is a result of \<open>-1\<close> with \<open>errno\<close> \<open>EINTR\<close>.
\<close>

lemma sys_progress:
  assumes "r_ret (fst (sys c k)) = -1" "errno (snd (sys c k)) = EINTR"
  shows "length (replies (snd (sys c k))) < length (replies k)"
proof (cases "replies k")
  case Nil
  with assms show ?thesis by (simp add: sys_def pop_reply_def default_reply_def errno_defs Let_def)
next
  case (Cons r rs)
  then show ?thesis by (simp add: sys_def Let_def)
qed

function sys_retry :: "syscall \<Rightarrow> kernel \<Rightarrow> reply \<times> kernel" where
  "sys_retry c k = (let (r, k') = sys c k in
     if r_ret r = -1 \<and> errno k' = EINTR then sys_retry c k' else (r, k'))"
  by auto
termination
proof (relation "measure (\<lambda>(c, k). length (replies k))", goal_cases)
  case (2 c k x r k')
  then have "fst (sys c k) = r" "snd (sys c k) = k'" by (metis fst_conv, metis snd_conv)
  with 2 sys_progress [of c k] show ?case by simp
qed simp

declare sys_retry.simps [simp del]

definition lift_k :: "(kernel \<Rightarrow> 'a \<times> kernel) \<Rightarrow> world \<Rightarrow> 'a \<times> world" where
  "lift_k f w = (let (r, k) = f (kern w) in (r, upd_kern (\<lambda>_. k) w))"

lemma lift_k_sel [simp]:
  "kern (snd (lift_k f w)) = snd (f (kern w))" "polls (snd (lift_k f w)) = polls w"
  "sockets (snd (lift_k f w)) = sockets w" "conns (snd (lift_k f w)) = conns w"
  "listeners (snd (lift_k f w)) = listeners w" "groups (snd (lift_k f w)) = groups w"
  "udps (snd (lift_k f w)) = udps w" "callbacks (snd (lift_k f w)) = callbacks w"
  "loop (snd (lift_k f w)) = loop w" "heap_tag (snd (lift_k f w)) = heap_tag w"
  "next_addr (snd (lift_k f w)) = next_addr w" "fst (lift_k f w) = fst (f (kern w))"
  by (simp_all add: lift_k_def case_prod_beta Let_def)

text \<open>A call whose result the code ignores and that cannot fail is only recorded.\<close>

definition ext_call :: "syscall \<Rightarrow> world \<Rightarrow> world" where
  "ext_call c w = upd_kern (\<lambda>k. k\<lparr>trace := Sys c # trace k\<rparr>) w"

lemma ext_call_sel [simp]:
  "polls (ext_call c w) = polls w" "sockets (ext_call c w) = sockets w"
  "conns (ext_call c w) = conns w" "listeners (ext_call c w) = listeners w"
  "groups (ext_call c w) = groups w" "udps (ext_call c w) = udps w"
  "callbacks (ext_call c w) = callbacks w" "loop (ext_call c w) = loop w"
  "heap_tag (ext_call c w) = heap_tag w" "next_addr (ext_call c w) = next_addr w"
  "replies (kern (ext_call c w)) = replies (kern w)"
  by (simp_all add: ext_call_def)

definition set_errno :: "int \<Rightarrow> kernel \<Rightarrow> kernel" where
  "set_errno e k = k\<lparr>errno := e\<rparr>"

definition log_event :: "event \<Rightarrow> world \<Rightarrow> world" where
  "log_event e w = upd_kern (\<lambda>k. k\<lparr>trace := Dispatch e # trace k\<rparr>) w"

text \<open>
  The application: a handler receives an event and may call back into the library, so it maps
  worlds to worlds; its result is the socket pointer it returns.
\<close>

type_synonym handler = "event \<Rightarrow> world \<Rightarrow> ptr \<times> world"

definition dispatch :: "handler \<Rightarrow> event \<Rightarrow> world \<Rightarrow> ptr \<times> world" where
  "dispatch h e w = h e (log_event e w)"

end
