(* ===== verification/Us_Bsd.thy ===== *)
theory Us_Bsd imports
  Us_State
begin

section \<open>System call wrappers (\<open>bsd.c\<close>)\<close>

text \<open>
  The wrappers of \<open>bsd.c\<close> in the Linux configuration, as functions of the kernel: socket
  creation, options, addresses, accept, receive and send, listening and connecting over TCP, UNIX and
  UDP sockets. A result that C returns through a pointer is part of the result tuple. \<open>close\<close> and
  the option calls whose result the source ignores are performed for their effect (\<open>sys_do\<close>).
\<close>

definition sys_do :: "syscall \<Rightarrow> kernel \<Rightarrow> kernel" where
  "sys_do c k = snd (sys c k)"

definition sys_ret :: "syscall \<Rightarrow> kernel \<Rightarrow> int \<times> kernel" where
  "sys_ret c k = (let (r, k) = sys c k in (r_ret r, k))"

subsection \<open>Option levels and names\<close>

definition SOL_SOCKET :: "int" where "SOL_SOCKET = 1"
definition IPPROTO_IP :: "int" where "IPPROTO_IP = 0"
definition IPPROTO_TCP :: "int" where "IPPROTO_TCP = 6"
definition IPPROTO_IPV6 :: "int" where "IPPROTO_IPV6 = 41"
definition SO_REUSEADDR :: "int" where "SO_REUSEADDR = 2"
definition SO_BROADCAST :: "int" where "SO_BROADCAST = 6"
definition SO_KEEPALIVE :: "int" where "SO_KEEPALIVE = 9"
definition SO_LINGER :: "int" where "SO_LINGER = 13"
definition SO_REUSEPORT :: "int" where "SO_REUSEPORT = 15"
definition TCP_NODELAY :: "int" where "TCP_NODELAY = 1"
definition TCP_CORK :: "int" where "TCP_CORK = 3"
definition TCP_KEEPIDLE :: "int" where "TCP_KEEPIDLE = 4"
definition TCP_KEEPINTVL :: "int" where "TCP_KEEPINTVL = 5"
definition TCP_KEEPCNT :: "int" where "TCP_KEEPCNT = 6"
definition TCP_DEFER_ACCEPT :: "int" where "TCP_DEFER_ACCEPT = 9"
definition IP_TTL :: "int" where "IP_TTL = 2"
definition IP_PKTINFO :: "int" where "IP_PKTINFO = 8"
definition IP_RECVERR :: "int" where "IP_RECVERR = 11"
definition IP_RECVTOS :: "int" where "IP_RECVTOS = 13"
definition IP_MULTICAST_IF :: "int" where "IP_MULTICAST_IF = 32"
definition IP_MULTICAST_TTL :: "int" where "IP_MULTICAST_TTL = 33"
definition IP_MULTICAST_LOOP :: "int" where "IP_MULTICAST_LOOP = 34"
definition IP_ADD_MEMBERSHIP :: "int" where "IP_ADD_MEMBERSHIP = 35"
definition IP_DROP_MEMBERSHIP :: "int" where "IP_DROP_MEMBERSHIP = 36"
definition IP_ADD_SOURCE_MEMBERSHIP :: "int" where "IP_ADD_SOURCE_MEMBERSHIP = 39"
definition IP_DROP_SOURCE_MEMBERSHIP :: "int" where "IP_DROP_SOURCE_MEMBERSHIP = 40"
definition MCAST_JOIN_SOURCE_GROUP :: "int" where "MCAST_JOIN_SOURCE_GROUP = 46"
definition MCAST_LEAVE_SOURCE_GROUP :: "int" where "MCAST_LEAVE_SOURCE_GROUP = 47"
definition IPV6_UNICAST_HOPS :: "int" where "IPV6_UNICAST_HOPS = 16"
definition IPV6_MULTICAST_IF :: "int" where "IPV6_MULTICAST_IF = 17"
definition IPV6_MULTICAST_HOPS :: "int" where "IPV6_MULTICAST_HOPS = 18"
definition IPV6_MULTICAST_LOOP :: "int" where "IPV6_MULTICAST_LOOP = 19"
definition IPV6_JOIN_GROUP :: "int" where "IPV6_JOIN_GROUP = 20"
definition IPV6_LEAVE_GROUP :: "int" where "IPV6_LEAVE_GROUP = 21"
definition IPV6_RECVERR :: "int" where "IPV6_RECVERR = 25"
definition IPV6_V6ONLY :: "int" where "IPV6_V6ONLY = 26"
definition IPV6_RECVPKTINFO :: "int" where "IPV6_RECVPKTINFO = 49"
definition IPV6_PKTINFO :: "int" where "IPV6_PKTINFO = 50"
definition IPV6_RECVTCLASS :: "int" where "IPV6_RECVTCLASS = 66"
definition MSG_TRUNC :: "int" where "MSG_TRUNC = 32"

subsection \<open>Datagrams\<close>

definition bsd_sendmmsg :: "int \<Rightarrow> mmsg list \<Rightarrow> kernel \<Rightarrow> int \<times> kernel" where
  "bsd_sendmmsg fd msgvec k = (let (r, k) = sys_retry (Sys_sendmmsg fd msgvec) k in (r_ret r, k))"

text \<open>The datagrams received are the ones the kernel stored, at most one per slot of the buffer.\<close>

definition bsd_recvmmsg :: "int \<Rightarrow> int \<Rightarrow> kernel \<Rightarrow> int \<times> mmsg list \<times> kernel" where
  "bsd_recvmmsg fd flags k = (let (r, k) = sys_retry (Sys_recvmmsg fd LIBUS_UDP_RECV_COUNT) k in
     (r_ret r, r_msgs r, k))"

record udp_recvslot =
  iov_base :: int
  iov_len :: int

definition bsd_udp_setup_recvbuf :: "int \<Rightarrow> udp_recvslot list" where
  "bsd_udp_setup_recvbuf databuf =
     map (\<lambda>i. \<lparr> iov_base = databuf + int i * LIBUS_UDP_MAX_SIZE, iov_len = LIBUS_UDP_MAX_SIZE \<rparr>)
       [0..<nat LIBUS_UDP_RECV_COUNT]"

record udp_sendbuf =
  sb_has_empty :: bool
  sb_has_addresses :: bool
  sb_num :: int
  sb_msgvec :: "mmsg list"

text \<open>
  \<open>sizeof (struct udp_sendbuf)\<close> is 8, \<open>sizeof (struct mmsghdr)\<close> 64 and
  \<open>sizeof (struct iovec)\<close> 16 on the 64-bit targets. The count is a \<open>size_t\<close>, so a negative
  \<open>num\<close> is not below it.
\<close>

definition sendbuf_count :: "int \<Rightarrow> int \<Rightarrow> int" where
  "sendbuf_count bufsize num =
     (let count = (bufsize - 8) div (64 + 16) in if 0 \<le> num \<and> count > num then num else count)"

definition addr_msg :: "sockaddr option \<Rightarrow> sockaddr" where
  "addr_msg a = (case a of None \<Rightarrow> Sa_unspec | Some x \<Rightarrow> x)"

definition has_inet_addr :: "sockaddr option \<Rightarrow> bool" where
  "has_inet_addr a = (case a of None \<Rightarrow> False | Some x \<Rightarrow> sa_family x = AF_INET \<or> sa_family x = AF_INET6)"

definition bsd_udp_setup_sendbuf ::
  "int \<Rightarrow> u8 list list \<Rightarrow> sockaddr option list \<Rightarrow> int \<Rightarrow> udp_sendbuf" where
  "bsd_udp_setup_sendbuf bufsize payloads addresses num = (let
     count = sendbuf_count bufsize num;
     pl = take (nat count) payloads; ad = take (nat count) addresses
   in \<lparr> sb_has_empty = (\<exists>p \<in> set pl. p = []), sb_has_addresses = (\<exists>a \<in> set ad. has_inet_addr a),
        sb_num = count,
        sb_msgvec = map (\<lambda>(p, a). \<lparr> msg_name = (if has_inet_addr a then addr_msg a else Sa_unspec),
           msg_payload = p, msg_len = 0, msg_flags = 0, msg_control = [] \<rparr>) (zip pl ad) \<rparr>)"

fun cmsg_local_ip :: "cmsg list \<Rightarrow> u8 list" where
  "cmsg_local_ip [] = []"
| "cmsg_local_ip (c # cs) =
     (if cmsg_level c = IPPROTO_IP \<and> cmsg_type c = IP_PKTINFO then take 4 (drop 8 (cmsg_data c))
      else if cmsg_level c = IPPROTO_IPV6 \<and> cmsg_type c = IPV6_PKTINFO then take 16 (cmsg_data c)
      else cmsg_local_ip cs)"

text \<open>
  \<open>ipi_addr\<close> is the third field of \<open>in_pktinfo\<close> (offset 8), \<open>ipi6_addr\<close> the first one of
  \<open>in6_pktinfo\<close>. The length the C function returns is the length of the list.
\<close>

definition bsd_udp_packet_buffer_local_ip :: "mmsg list \<Rightarrow> nat \<Rightarrow> u8 list" where
  "bsd_udp_packet_buffer_local_ip msgvec index = cmsg_local_ip (msg_control (msgvec ! index))"

definition bsd_udp_packet_buffer_peer :: "mmsg list \<Rightarrow> nat \<Rightarrow> sockaddr" where
  "bsd_udp_packet_buffer_peer msgvec index = msg_name (msgvec ! index)"

definition bsd_udp_packet_buffer_payload :: "mmsg list \<Rightarrow> nat \<Rightarrow> u8 list" where
  "bsd_udp_packet_buffer_payload msgvec index = msg_payload (msgvec ! index)"

definition bsd_udp_packet_buffer_payload_length :: "mmsg list \<Rightarrow> nat \<Rightarrow> int" where
  "bsd_udp_packet_buffer_payload_length msgvec index =
     (let len = msg_len (msgvec ! index) in if len > LIBUS_UDP_MAX_SIZE then LIBUS_UDP_MAX_SIZE else len)"

definition bsd_udp_packet_buffer_truncated :: "mmsg list \<Rightarrow> nat \<Rightarrow> int" where
  "bsd_udp_packet_buffer_truncated msgvec index =
     (if (msg_flags (msgvec ! index)) AND MSG_TRUNC \<noteq> 0 then 1 else 0)"

subsection \<open>Descriptor flags and socket options\<close>

definition apple_no_sigpipe :: "int \<Rightarrow> int" where
  "apple_no_sigpipe fd = fd"

definition O_NONBLOCK :: "int" where "O_NONBLOCK = 2048"
definition FD_CLOEXEC :: "int" where "FD_CLOEXEC = 1"
definition F_GETFD :: "int" where "F_GETFD = 1"
definition F_SETFD :: "int" where "F_SETFD = 2"
definition F_GETFL :: "int" where "F_GETFL = 3"
definition F_SETFL :: "int" where "F_SETFL = 4"

definition bsd_set_nonblocking :: "int \<Rightarrow> kernel \<Rightarrow> int \<times> kernel" where
  "bsd_set_nonblocking fd k = (if fd \<noteq> LIBUS_SOCKET_ERROR then
     (let (flags, k) = sys_ret (Sys_fcntl_get fd F_GETFL) k;
          k = sys_do (Sys_fcntl_set fd F_SETFL (flags OR O_NONBLOCK)) k;
          (flags, k) = sys_ret (Sys_fcntl_get fd F_GETFD) k;
          k = sys_do (Sys_fcntl_set fd F_SETFD (flags OR FD_CLOEXEC)) k
      in (fd, k)) else (fd, k))"

definition setsockopt_6_or_4 :: "int \<Rightarrow> int \<Rightarrow> int \<Rightarrow> sockopt_value \<Rightarrow> kernel \<Rightarrow> int \<times> kernel" where
  "setsockopt_6_or_4 fd option4 option6 v k =
    (let (res, k) = sys_ret (Sys_setsockopt fd IPPROTO_IPV6 option6 v) k in
     if res = 0 then (0, k)
     else if errno k = ENOPROTOOPT \<or> errno k = EINVAL
     then sys_ret (Sys_setsockopt fd IPPROTO_IP option4 v) k
     else (res, k))"

definition bsd_socket_nodelay :: "int \<Rightarrow> int \<Rightarrow> kernel \<Rightarrow> kernel" where
  "bsd_socket_nodelay fd enabled k = sys_do (Sys_setsockopt fd IPPROTO_TCP TCP_NODELAY (Ov_int enabled)) k"

definition bsd_socket_broadcast :: "int \<Rightarrow> int \<Rightarrow> kernel \<Rightarrow> int \<times> kernel" where
  "bsd_socket_broadcast fd enabled k =
     sys_ret (Sys_setsockopt fd SOL_SOCKET SO_BROADCAST (Ov_int enabled)) k"

definition bsd_socket_multicast_loopback :: "int \<Rightarrow> int \<Rightarrow> kernel \<Rightarrow> int \<times> kernel" where
  "bsd_socket_multicast_loopback fd enabled k =
     setsockopt_6_or_4 fd IP_MULTICAST_LOOP IPV6_MULTICAST_LOOP (Ov_int enabled) k"

definition bsd_socket_multicast_interface :: "int \<Rightarrow> sockaddr \<Rightarrow> kernel \<Rightarrow> int \<times> kernel" where
  "bsd_socket_multicast_interface fd addr k = (case addr of
     Sa_in _ ip \<Rightarrow> (let first_octet = uint (hd ip) in
       if \<not> (224 \<le> first_octet \<and> first_octet \<le> 239)
       then sys_ret (Sys_setsockopt fd IPPROTO_IP IP_MULTICAST_IF (Ov_bytes ip)) k
       else (-1, set_errno EINVAL k))
   | Sa_in6 _ _ scope_id \<Rightarrow>
       sys_ret (Sys_setsockopt fd IPPROTO_IPV6 IPV6_MULTICAST_IF (Ov_u32 scope_id)) k
   | _ \<Rightarrow> (-1, set_errno EINVAL k))"

fun sin_addr :: "sockaddr \<Rightarrow> u8 list" where
  "sin_addr (Sa_in _ ip) = ip"
| "sin_addr _ = []"

fun sin6_addr :: "sockaddr \<Rightarrow> u8 list" where
  "sin6_addr (Sa_in6 _ ip _) = ip"
| "sin6_addr _ = []"

fun sin6_scope_id :: "sockaddr \<Rightarrow> u32" where
  "sin6_scope_id (Sa_in6 _ _ s) = s"
| "sin6_scope_id _ = 0"

definition INADDR_ANY :: "u8 list" where "INADDR_ANY = [0,0,0,0]"

definition bsd_socket_set_membership4 ::
  "int \<Rightarrow> sockaddr \<Rightarrow> sockaddr option \<Rightarrow> bool \<Rightarrow> kernel \<Rightarrow> int \<times> kernel" where
  "bsd_socket_set_membership4 fd addr iface drp k = (let
     interface = (case iface of Some i \<Rightarrow> sin_addr i | None \<Rightarrow> INADDR_ANY);
     opt = (if drp then IP_DROP_MEMBERSHIP else IP_ADD_MEMBERSHIP)
   in sys_ret (Sys_setsockopt fd IPPROTO_IP opt (Ov_mreq (sin_addr addr) interface)) k)"

definition bsd_socket_set_membership6 ::
  "int \<Rightarrow> sockaddr \<Rightarrow> sockaddr option \<Rightarrow> bool \<Rightarrow> kernel \<Rightarrow> int \<times> kernel" where
  "bsd_socket_set_membership6 fd addr iface drp k = (let
     interface = (case iface of Some i \<Rightarrow> sin6_scope_id i | None \<Rightarrow> 0);
     opt = (if drp then IPV6_LEAVE_GROUP else IPV6_JOIN_GROUP)
   in sys_ret (Sys_setsockopt fd IPPROTO_IPV6 opt (Ov_mreq6 (sin6_addr addr) interface)) k)"

definition bsd_socket_set_membership ::
  "int \<Rightarrow> sockaddr \<Rightarrow> sockaddr option \<Rightarrow> bool \<Rightarrow> kernel \<Rightarrow> int \<times> kernel" where
  "bsd_socket_set_membership fd addr iface drp k =
    (if (case iface of Some i \<Rightarrow> sa_family addr \<noteq> sa_family i | None \<Rightarrow> False)
     then (-1, set_errno EINVAL k)
     else if sa_family addr = AF_INET6 then bsd_socket_set_membership6 fd addr iface drp k
     else bsd_socket_set_membership4 fd addr iface drp k)"

definition bsd_socket_set_source_specific_membership4 ::
  "int \<Rightarrow> sockaddr \<Rightarrow> sockaddr \<Rightarrow> sockaddr option \<Rightarrow> bool \<Rightarrow> kernel \<Rightarrow> int \<times> kernel" where
  "bsd_socket_set_source_specific_membership4 fd source grp iface drp k = (let
     interface = (case iface of Some i \<Rightarrow> sin_addr i | None \<Rightarrow> INADDR_ANY);
     opt = (if drp then IP_DROP_SOURCE_MEMBERSHIP else IP_ADD_SOURCE_MEMBERSHIP)
   in sys_ret (Sys_setsockopt fd IPPROTO_IP opt
        (Ov_mreq_source (sin_addr grp) interface (sin_addr source))) k)"

definition bsd_socket_set_source_specific_membership6 ::
  "int \<Rightarrow> sockaddr \<Rightarrow> sockaddr \<Rightarrow> sockaddr option \<Rightarrow> bool \<Rightarrow> kernel \<Rightarrow> int \<times> kernel" where
  "bsd_socket_set_source_specific_membership6 fd source grp iface drp k = (let
     interface = (case iface of Some i \<Rightarrow> sin6_scope_id i | None \<Rightarrow> 0);
     opt = (if drp then MCAST_LEAVE_SOURCE_GROUP else MCAST_JOIN_SOURCE_GROUP)
   in sys_ret (Sys_setsockopt fd IPPROTO_IPV6 opt (Ov_group_source interface source grp)) k)"

definition bsd_socket_set_source_specific_membership ::
  "int \<Rightarrow> sockaddr \<Rightarrow> sockaddr \<Rightarrow> sockaddr option \<Rightarrow> bool \<Rightarrow> kernel \<Rightarrow> int \<times> kernel" where
  "bsd_socket_set_source_specific_membership fd source grp iface drp k =
    (if sa_family source = sa_family grp \<and>
        (case iface of None \<Rightarrow> True | Some i \<Rightarrow> sa_family grp = sa_family i)
        \<and> sa_family source = AF_INET
     then bsd_socket_set_source_specific_membership4 fd source grp iface drp k
     else if sa_family source = sa_family grp \<and>
        (case iface of None \<Rightarrow> True | Some i \<Rightarrow> sa_family grp = sa_family i)
        \<and> sa_family source = AF_INET6
     then bsd_socket_set_source_specific_membership6 fd source grp iface drp k
     else (-1, set_errno EINVAL k))"

definition bsd_socket_ttl_any :: "int \<Rightarrow> int \<Rightarrow> int \<Rightarrow> int \<Rightarrow> kernel \<Rightarrow> int \<times> kernel" where
  "bsd_socket_ttl_any fd ttl ipv4 ipv6 k =
    (if ttl < 1 \<or> ttl > 255 then (-1, set_errno EINVAL k)
     else setsockopt_6_or_4 fd ipv4 ipv6 (Ov_int ttl) k)"

definition bsd_socket_ttl_unicast :: "int \<Rightarrow> int \<Rightarrow> kernel \<Rightarrow> int \<times> kernel" where
  "bsd_socket_ttl_unicast fd ttl k = bsd_socket_ttl_any fd ttl IP_TTL IPV6_UNICAST_HOPS k"

definition bsd_socket_ttl_multicast :: "int \<Rightarrow> int \<Rightarrow> kernel \<Rightarrow> int \<times> kernel" where
  "bsd_socket_ttl_multicast fd ttl k = bsd_socket_ttl_any fd ttl IP_MULTICAST_TTL IPV6_MULTICAST_HOPS k"

definition bsd_socket_keepalive :: "int \<Rightarrow> int \<Rightarrow> u32 \<Rightarrow> kernel \<Rightarrow> int \<times> kernel" where
  "bsd_socket_keepalive fd on delay k =
    (let (r, k) = sys_ret (Sys_setsockopt fd SOL_SOCKET SO_KEEPALIVE (Ov_int on)) k in
     if r \<noteq> 0 then (errno k, k)
     else if on = 0 then (0, k)
     else if delay = 0 then (-1, k)
     else let (r, k) = sys_ret (Sys_setsockopt fd IPPROTO_TCP TCP_KEEPIDLE (Ov_u32 delay)) k in
     if r \<noteq> 0 then (errno k, k)
     else let (r, k) = sys_ret (Sys_setsockopt fd IPPROTO_TCP TCP_KEEPINTVL (Ov_int 1)) k in
     if r \<noteq> 0 then (errno k, k)
     else let (r, k) = sys_ret (Sys_setsockopt fd IPPROTO_TCP TCP_KEEPCNT (Ov_int 10)) k in
     if r \<noteq> 0 then (errno k, k) else (0, k))"

definition bsd_socket_flush :: "int \<Rightarrow> kernel \<Rightarrow> kernel" where
  "bsd_socket_flush fd k = sys_do (Sys_setsockopt fd IPPROTO_TCP TCP_CORK (Ov_int 0)) k"

subsection \<open>Sockets, addresses, input and output\<close>

definition SOCK_STREAM :: "int" where "SOCK_STREAM = 1"
definition SOCK_DGRAM :: "int" where "SOCK_DGRAM = 2"

text \<open>The result is the descriptor or \<open>LIBUS_SOCKET_ERROR\<close>, and what is stored in \<open>*err\<close>.\<close>

definition bsd_create_socket :: "family \<Rightarrow> int \<Rightarrow> kernel \<Rightarrow> int \<times> int \<times> kernel" where
  "bsd_create_socket domain typ k =
    (let (r, k) = sys_retry (Sys_socket domain typ) k in
     if r_ret r = -1 then (LIBUS_SOCKET_ERROR, errno k, k) else (apple_no_sigpipe (r_ret r), 0, k))"

definition bsd_close_socket :: "int \<Rightarrow> kernel \<Rightarrow> kernel" where
  "bsd_close_socket fd k = sys_do (Sys_close fd) k"

definition bsd_shutdown_socket :: "int \<Rightarrow> kernel \<Rightarrow> kernel" where
  "bsd_shutdown_socket fd k = sys_do (Sys_shutdown_wr fd) k"

definition bsd_shutdown_socket_read :: "int \<Rightarrow> kernel \<Rightarrow> kernel" where
  "bsd_shutdown_socket_read fd k = sys_do (Sys_shutdown_rd fd) k"

record bsd_addr_t =
  ba_mem :: sockaddr
  ba_ip :: "u8 list"
  ba_ip_length :: int
  ba_port :: int

definition ntohs :: "u8 \<times> u8 \<Rightarrow> int" where
  "ntohs p = uint (fst p) * 256 + uint (snd p)"

definition internal_finalize_bsd_addr :: "sockaddr \<Rightarrow> bsd_addr_t" where
  "internal_finalize_bsd_addr a = (case a of
     Sa_in6 port ip _ \<Rightarrow> \<lparr> ba_mem = a, ba_ip = ip, ba_ip_length = 16, ba_port = ntohs port \<rparr>
   | Sa_in port ip \<Rightarrow> \<lparr> ba_mem = a, ba_ip = ip, ba_ip_length = 4, ba_port = ntohs port \<rparr>
   | _ \<Rightarrow> \<lparr> ba_mem = a, ba_ip = [], ba_ip_length = 0, ba_port = -1 \<rparr>)"

definition bsd_local_addr :: "int \<Rightarrow> kernel \<Rightarrow> bsd_addr_t option \<times> kernel" where
  "bsd_local_addr fd k = (let (r, k) = sys (Sys_getsockname fd) k in
     if r_ret r \<noteq> 0 then (None, k) else (Some (internal_finalize_bsd_addr (r_addr r)), k))"

definition bsd_remote_addr :: "int \<Rightarrow> kernel \<Rightarrow> bsd_addr_t option \<times> kernel" where
  "bsd_remote_addr fd k = (let (r, k) = sys (Sys_getpeername fd) k in
     if r_ret r \<noteq> 0 then (None, k) else (Some (internal_finalize_bsd_addr (r_addr r)), k))"

definition bsd_addr_get_ip :: "bsd_addr_t \<Rightarrow> u8 list" where
  "bsd_addr_get_ip a = ba_ip a"

definition bsd_addr_get_ip_length :: "bsd_addr_t \<Rightarrow> int" where
  "bsd_addr_get_ip_length a = ba_ip_length a"

definition bsd_addr_get_port :: "bsd_addr_t \<Rightarrow> int" where
  "bsd_addr_get_port a = ba_port a"

definition bsd_accept_socket :: "int \<Rightarrow> kernel \<Rightarrow> int \<times> bsd_addr_t \<times> kernel" where
  "bsd_accept_socket fd k = (let (r, k) = sys_retry (Sys_accept4 fd) k in
     if r_ret r = LIBUS_SOCKET_ERROR then (LIBUS_SOCKET_ERROR, internal_finalize_bsd_addr Sa_unspec, k)
     else (r_ret r, internal_finalize_bsd_addr (r_addr r), k))"

definition bsd_recv :: "int \<Rightarrow> int \<Rightarrow> int \<Rightarrow> kernel \<Rightarrow> int \<times> u8 list \<times> kernel" where
  "bsd_recv fd len flags k = (let (r, k) = sys_retry (Sys_recv fd len flags) k in (r_ret r, r_bytes r, k))"

definition bsd_recvmsg :: "int \<Rightarrow> int \<Rightarrow> kernel \<Rightarrow> reply \<times> kernel" where
  "bsd_recvmsg fd flags k = sys_retry (Sys_recvmsg fd flags) k"

definition bsd_write2 :: "int \<Rightarrow> u8 list \<Rightarrow> u8 list \<Rightarrow> kernel \<Rightarrow> int \<times> kernel" where
  "bsd_write2 fd header payload k =
     (let (r, k) = sys_retry (Sys_writev fd header payload) k in (r_ret r, k))"

definition bsd_send :: "int \<Rightarrow> u8 list \<Rightarrow> kernel \<Rightarrow> int \<times> kernel" where
  "bsd_send fd buf k = (let (r, k) = sys_retry (Sys_send fd buf) k in (r_ret r, k))"

text \<open>The message of \<open>sendmsg\<close> carries the bytes and one descriptor (see \<open>us_socket_ipc_write_fd\<close>).\<close>

definition bsd_sendmsg :: "int \<Rightarrow> u8 list \<Rightarrow> int \<Rightarrow> kernel \<Rightarrow> int \<times> kernel" where
  "bsd_sendmsg fd buf passed_fd k = (let (r, k) = sys_retry (Sys_sendmsg fd buf passed_fd) k in (r_ret r, k))"

definition bsd_would_block :: "kernel \<Rightarrow> bool" where
  "bsd_would_block k = (errno k = EAGAIN)"

subsection \<open>Listening\<close>

text \<open>
  The functions below store an error code through a pointer on some paths only: they take the value
  the pointer holds before and return the value it holds after.
\<close>

definition us_internal_bind_and_listen ::
  "int \<Rightarrow> sockaddr \<Rightarrow> int \<Rightarrow> int \<Rightarrow> kernel \<Rightarrow> int \<times> int \<times> kernel" where
  "us_internal_bind_and_listen listenFd listenAddr backlog err k =
    (let (r, k) = sys_retry (Sys_bind listenFd listenAddr) k in
     if r_ret r = -1 then (-1, errno k, k)
     else let (r, k) = sys_retry (Sys_listen listenFd backlog) k in (r_ret r, errno k, k))"

definition bsd_set_reuseaddr :: "int \<Rightarrow> kernel \<Rightarrow> int \<times> kernel" where
  "bsd_set_reuseaddr listenFd k = sys_ret (Sys_setsockopt listenFd SOL_SOCKET SO_REUSEADDR (Ov_int 1)) k"

definition bsd_set_reuseport :: "int \<Rightarrow> kernel \<Rightarrow> int \<times> kernel" where
  "bsd_set_reuseport listenFd k = sys_ret (Sys_setsockopt listenFd SOL_SOCKET SO_REUSEPORT (Ov_int 1)) k"

definition bsd_set_reuse :: "int \<Rightarrow> u32 \<Rightarrow> kernel \<Rightarrow> int \<times> kernel" where
  "bsd_set_reuse listenFd options k =
    (let (result, k) = (if options AND LIBUS_LISTEN_REUSE_ADDR \<noteq> 0
                        then bsd_set_reuseaddr listenFd k else (0, k)) in
     if result \<noteq> 0 then (result, k)
     else if options AND LIBUS_LISTEN_REUSE_PORT \<noteq> 0 then
       (let (result, k) = bsd_set_reuseport listenFd k in
        if result \<noteq> 0 then
          (if errno k = ENOTSUP \<and> options AND LIBUS_LISTEN_DISALLOW_REUSE_PORT_FAILURE = 0
           then (0, set_errno 0 k) else (result, k))
        else (0, k))
     else (0, k))"

definition bsd_bind_listen_fd ::
  "int \<Rightarrow> addrinfo \<Rightarrow> u32 \<Rightarrow> int \<Rightarrow> kernel \<Rightarrow> int \<times> int \<times> kernel" where
  "bsd_bind_listen_fd listenFd listenAddr options err k =
    (let (r, k) = bsd_set_reuse listenFd options k in
     if r \<noteq> 0 then (LIBUS_SOCKET_ERROR, err, k)
     else let k = sys_do (Sys_setsockopt listenFd SOL_SOCKET SO_REUSEADDR (Ov_int 1)) k;
       (r, k) = (if ai_family listenAddr = AF_INET6
                 then sys_ret (Sys_setsockopt listenFd IPPROTO_IPV6 IPV6_V6ONLY
                        (Ov_int (if options AND LIBUS_SOCKET_IPV6_ONLY \<noteq> 0 then 1 else 0))) k
                 else (0, k)) in
     if r \<noteq> 0 then (LIBUS_SOCKET_ERROR, err, k)
     else let (r, err, k) = us_internal_bind_and_listen listenFd (ai_addr listenAddr) 512 err k in
     if r \<noteq> 0 then (LIBUS_SOCKET_ERROR, err, k) else (listenFd, err, k))"

definition bsd_set_defer_accept :: "int \<Rightarrow> kernel \<Rightarrow> bool \<times> kernel" where
  "bsd_set_defer_accept listenFd k =
    (let (r, k) = sys_ret (Sys_setsockopt listenFd IPPROTO_TCP TCP_DEFER_ACCEPT (Ov_int 1)) k in (r = 0, k))"

text \<open>One of the two loops of \<open>bsd_create_listen_socket\<close>: the addresses of one family, in order.\<close>

fun listen_first :: "family \<Rightarrow> u32 \<Rightarrow> addrinfo list \<Rightarrow> int \<Rightarrow> kernel \<Rightarrow> int option \<times> int \<times> kernel" where
  "listen_first fam options [] err k = (None, err, k)"
| "listen_first fam options (a # as) err k =
    (if ai_family a = fam then
       (let (fd, _, k) = bsd_create_socket (ai_family a) SOCK_STREAM k in
        if fd = LIBUS_SOCKET_ERROR then listen_first fam options as err k
        else let (r, err, k) = bsd_bind_listen_fd fd a options err k in
        if r \<noteq> LIBUS_SOCKET_ERROR then (Some fd, err, k)
        else listen_first fam options as err (bsd_close_socket fd k))
     else listen_first fam options as err k)"

definition bsd_create_listen_socket ::
  "char list \<Rightarrow> int \<Rightarrow> u32 \<Rightarrow> int \<Rightarrow> kernel \<Rightarrow> int \<times> int \<times> kernel" where
  "bsd_create_listen_socket host port options err k =
    (let (r, k) = sys (Sys_getaddrinfo host port) k in
     if r_ret r \<noteq> 0 then (LIBUS_SOCKET_ERROR, err, k)
     else case listen_first AF_INET6 options (r_addrs r) err k of
       (Some fd, err, k) \<Rightarrow> (fd, err, sys_do Sys_freeaddrinfo k)
     | (None, err, k) \<Rightarrow> (case listen_first AF_INET options (r_addrs r) err k of
         (Some fd, err, k) \<Rightarrow> (fd, err, sys_do Sys_freeaddrinfo k)
       | (None, err, k) \<Rightarrow> (LIBUS_SOCKET_ERROR, err, sys_do Sys_freeaddrinfo k)))"

subsection \<open>UNIX socket addresses\<close>

definition SUN_PATH_SIZE :: "nat" where "SUN_PATH_SIZE = 108"
definition DIRNAME_BUF_SIZE :: "nat" where "DIRNAME_BUF_SIZE = 4096"

definition slash :: u8 where "slash = 47"

fun dirname_len :: "u8 list \<Rightarrow> nat \<Rightarrow> nat" where
  "dirname_len path n = (if n > 1 \<and> path ! (n - 1) \<noteq> slash then dirname_len path (n - 1) else n)"

declare dirname_len.simps [simp del]

text \<open>\<open>%d\<close> of a descriptor.\<close>

fun decimal :: "nat \<Rightarrow> u8 list" where
  "decimal n = (if n < 10 then [of_nat (48 + n)] else decimal (n div 10) @ [of_nat (48 + n mod 10)])"

declare decimal.simps [simp del]

definition proc_self_fd :: "u8 list" where
  "proc_self_fd = [47,112,114,111,99,47,115,101,108,102,47,102,100,47]"

definition padded_sun_path :: "u8 list \<Rightarrow> u8 list" where
  "padded_sun_path p = p @ replicate (SUN_PATH_SIZE - length p) 0"

text \<open>
  The result: the status, \<open>*dirfd_workaround_for_unix_path_len\<close>, and the address as the kernel
  sees it, that is \<open>sun_path\<close> up to \<open>addrlen\<close>: the whole zero padded array, or exactly the
  name for an abstract socket.
\<close>

definition bsd_create_unix_socket_address :: "u8 list \<Rightarrow> kernel \<Rightarrow> int \<times> int \<times> sockaddr \<times> kernel" where
  "bsd_create_unix_socket_address path k =
    (let path_len = length path in
     if path_len = 0 then (LIBUS_SOCKET_ERROR, -1, Sa_unspec, set_errno ENOENT k)
     else if path_len \<ge> SUN_PATH_SIZE \<and> path ! 0 \<noteq> 0 then
       (let dl = dirname_len path path_len in
        if dl < 2 \<or> path_len - dl + 1 \<ge> SUN_PATH_SIZE
        then (LIBUS_SOCKET_ERROR, -1, Sa_unspec, set_errno ENAMETOOLONG k)
        else if dl + 1 > DIRNAME_BUF_SIZE
        then (LIBUS_SOCKET_ERROR, -1, Sa_unspec, set_errno ENAMETOOLONG k)
        else let (dirfd, k) = sys_ret (Sys_open_dir (take dl path)) k in
        if dirfd = -1 then (LIBUS_SOCKET_ERROR, -1, Sa_unspec, set_errno ENAMETOOLONG k)
        else let sun_path = proc_self_fd @ decimal (nat dirfd) @ [slash]
                              @ takeWhile (\<lambda>b. b \<noteq> 0) (drop dl path) in
        if length sun_path \<ge> SUN_PATH_SIZE
        then (LIBUS_SOCKET_ERROR, -1, Sa_unspec, set_errno ENAMETOOLONG (sys_do (Sys_close dirfd) k))
        else (0, dirfd, Sa_un (padded_sun_path sun_path), k))
     else if path_len < SUN_PATH_SIZE then
       (if path ! 0 = 0 then (0, -1, Sa_un path, k) else (0, -1, Sa_un (padded_sun_path path), k))
     else (LIBUS_SOCKET_ERROR, -1, Sa_unspec, set_errno ENAMETOOLONG k))"

definition internal_bsd_create_listen_socket_unix ::
  "sockaddr \<Rightarrow> int \<Rightarrow> kernel \<Rightarrow> int \<times> int \<times> kernel" where
  "internal_bsd_create_listen_socket_unix server_address err k =
    (let (fd, _, k) = bsd_create_socket AF_UNIX SOCK_STREAM k in
     if fd = LIBUS_SOCKET_ERROR then (LIBUS_SOCKET_ERROR, err, k)
     else let (r, err, k) = us_internal_bind_and_listen fd server_address 512 err k in
     if r \<noteq> 0 then (LIBUS_SOCKET_ERROR, err, bsd_close_socket fd k) else (fd, err, k))"

definition bsd_create_listen_socket_unix ::
  "u8 list \<Rightarrow> int \<Rightarrow> kernel \<Rightarrow> int \<times> int \<times> kernel" where
  "bsd_create_listen_socket_unix path err k =
    (let (r, dirfd, server_address, k) = bsd_create_unix_socket_address path k in
     if r \<noteq> 0 then (LIBUS_SOCKET_ERROR, err, k)
     else let (fd, err, k) = internal_bsd_create_listen_socket_unix server_address err k in
     (fd, err, if dirfd \<noteq> -1 then sys_do (Sys_close dirfd) k else k))"

subsection \<open>UDP sockets\<close>

fun udp_first :: "family \<Rightarrow> addrinfo list \<Rightarrow> int \<Rightarrow> addrinfo option \<Rightarrow> int \<Rightarrow> kernel \<Rightarrow>
    int \<times> addrinfo option \<times> int \<times> kernel" where
  "udp_first fam [] fd la err k = (fd, la, err, k)"
| "udp_first fam (a # as) fd la err k =
    (if fd \<noteq> LIBUS_SOCKET_ERROR then (fd, la, err, k)
     else if ai_family a = fam
     then (let (fd, err, k) = bsd_create_socket (ai_family a) SOCK_DGRAM k in
           udp_first fam as fd (Some a) err k)
     else udp_first fam as fd la err k)"

definition set_6_or_4_ignore :: "int \<Rightarrow> int \<Rightarrow> int \<Rightarrow> kernel \<Rightarrow> kernel" where
  "set_6_or_4_ignore fd option6 option4 k =
    (let (r, k) = sys_ret (Sys_setsockopt fd IPPROTO_IPV6 option6 (Ov_int 1)) k in
     if r = -1 \<and> (errno k = ENOPROTOOPT \<or> errno k = EINVAL)
     then sys_do (Sys_setsockopt fd IPPROTO_IP option4 (Ov_int 1)) k else k)"

definition bsd_create_udp_socket :: "char list \<Rightarrow> int \<Rightarrow> u32 \<Rightarrow> kernel \<Rightarrow> int \<times> int \<times> kernel" where
  "bsd_create_udp_socket host port options k =
    (let (r, k) = sys (Sys_getaddrinfo host port) k in
     if r_ret r \<noteq> 0 then (LIBUS_SOCKET_ERROR, - r_ret r, k)
     else let (fd, la, err, k) = udp_first AF_INET6 (r_addrs r) LIBUS_SOCKET_ERROR None 0 k;
              (fd, la, err, k) = udp_first AF_INET (r_addrs r) fd la err k in
     if fd = LIBUS_SOCKET_ERROR then (LIBUS_SOCKET_ERROR, err, sys_do Sys_freeaddrinfo k)
     else let a = the la; (r, k) = bsd_set_reuse fd options k in
     if r \<noteq> 0 then (LIBUS_SOCKET_ERROR, errno k, sys_do Sys_freeaddrinfo (bsd_close_socket fd k))
     else let (r, k) = (if ai_family a = AF_INET6
                 then sys_ret (Sys_setsockopt fd IPPROTO_IPV6 IPV6_V6ONLY
                        (Ov_int (if options AND LIBUS_SOCKET_IPV6_ONLY \<noteq> 0 then 1 else 0))) k
                 else (0, k)) in
     if r \<noteq> 0 then (LIBUS_SOCKET_ERROR, err, k)
     else let k = set_6_or_4_ignore fd IPV6_RECVPKTINFO IP_PKTINFO k;
              k = set_6_or_4_ignore fd IPV6_RECVTCLASS IP_RECVTOS k;
              k = sys_do (Sys_setsockopt fd IPPROTO_IP IP_RECVERR (Ov_int 1)) k;
              k = (if ai_family a = AF_INET6
                   then sys_do (Sys_setsockopt fd IPPROTO_IPV6 IPV6_RECVERR (Ov_int 1)) k else k);
              (r, k) = sys_ret (Sys_bind fd (ai_addr a)) k in
     if r \<noteq> 0 then (LIBUS_SOCKET_ERROR, errno k, sys_do Sys_freeaddrinfo (bsd_close_socket fd k))
     else (fd, 0, sys_do Sys_freeaddrinfo k))"

fun connect_first :: "int \<Rightarrow> addrinfo list \<Rightarrow> kernel \<Rightarrow> int \<times> kernel" where
  "connect_first fd [] k = (LIBUS_SOCKET_ERROR, k)"
| "connect_first fd (a # as) k =
    (let (r, k) = sys_ret (Sys_connect fd (ai_addr a)) k in
     if r = 0 then (0, k) else connect_first fd as k)"

definition bsd_connect_udp_socket :: "int \<Rightarrow> char list \<Rightarrow> int \<Rightarrow> kernel \<Rightarrow> int \<times> kernel" where
  "bsd_connect_udp_socket fd host port k =
    (let (r, k) = sys (Sys_getaddrinfo host port) k in
     if r_ret r \<noteq> 0 then (r_ret r, k)
     else if r_addrs r = [] then (-1, k)
     else let (ret, k) = connect_first fd (r_addrs r) k in (ret, sys_do Sys_freeaddrinfo k))"

definition bsd_disconnect_udp_socket :: "int \<Rightarrow> kernel \<Rightarrow> int \<times> kernel" where
  "bsd_disconnect_udp_socket fd k =
    (let (res, k) = sys_ret (Sys_connect fd Sa_unspec) k in
     if res = 0 \<or> errno k = EAFNOSUPPORT then (0, k) else (-1, k))"

subsection \<open>Connecting\<close>

function connect_retry :: "int \<Rightarrow> sockaddr \<Rightarrow> kernel \<Rightarrow> int \<times> kernel" where
  "connect_retry fd addr k = (let (r, k') = sys_ret (Sys_connect fd addr) (set_errno 0 k) in
     if r = -1 \<and> errno k' = EINTR then connect_retry fd addr k' else (r, k'))"
  by auto
termination
proof (relation "measure (\<lambda>(fd, addr, k). length (replies k))", goal_cases)
  case (2 fd addr k x r k')
  then have "r_ret (fst (sys (Sys_connect fd addr) (set_errno 0 k))) = -1"
    "errno (snd (sys (Sys_connect fd addr) (set_errno 0 k))) = EINTR"
    "k' = snd (sys (Sys_connect fd addr) (set_errno 0 k))"
    by (auto simp: sys_ret_def case_prod_beta)
  with sys_progress [of "Sys_connect fd addr" "set_errno 0 k"] show ?case by (simp add: set_errno_def)
qed simp

declare connect_retry.simps [simp del]

definition bsd_do_connect_raw :: "int \<Rightarrow> sockaddr \<Rightarrow> kernel \<Rightarrow> int \<times> kernel" where
  "bsd_do_connect_raw fd addr k =
    (let (r, k) = connect_retry fd addr k in
     if r = -1 \<and> errno k \<noteq> 0 then (if errno k = EINPROGRESS then (0, k) else (errno k, k))
     else (0, k))"

definition bsd_create_connect_socket :: "sockaddr \<Rightarrow> kernel \<Rightarrow> int \<times> kernel" where
  "bsd_create_connect_socket addr k =
    (let (fd, _, k) = bsd_create_socket (sa_family addr) SOCK_STREAM k in
     if fd = LIBUS_SOCKET_ERROR then (LIBUS_SOCKET_ERROR, k)
     else let (rc, k) = bsd_do_connect_raw fd addr k in
     if rc \<noteq> 0 then (LIBUS_SOCKET_ERROR, bsd_close_socket fd k) else (fd, k))"

definition internal_bsd_create_connect_socket_unix :: "sockaddr \<Rightarrow> kernel \<Rightarrow> int \<times> kernel" where
  "internal_bsd_create_connect_socket_unix server_address k =
    (let (fd, _, k) = bsd_create_socket AF_UNIX SOCK_STREAM k in
     if fd = LIBUS_SOCKET_ERROR then (LIBUS_SOCKET_ERROR, k)
     else let (rc, k) = bsd_do_connect_raw fd server_address k in
     if rc \<noteq> 0 then (LIBUS_SOCKET_ERROR, bsd_close_socket fd k) else (fd, k))"

definition bsd_create_connect_socket_unix :: "u8 list \<Rightarrow> kernel \<Rightarrow> int \<times> kernel" where
  "bsd_create_connect_socket_unix server_path k =
    (let (r, dirfd, server_address, k) = bsd_create_unix_socket_address server_path k in
     if r \<noteq> 0 then (LIBUS_SOCKET_ERROR, k)
     else let (fd, k) = internal_bsd_create_connect_socket_unix server_address k in
     (fd, if dirfd \<noteq> -1 then sys_do (Sys_close dirfd) k else k))"

end
