(* ===== verification/Us_Poll.thy ===== *)
theory Us_Poll imports
  Us_Bsd
  "HOL-Library.Signed_Division"
begin

section \<open>Polls, timers and wakeups over epoll (\<open>eventing/epoll_kqueue.c\<close>)\<close>

text \<open>
  A poll holds its descriptor (27 bits) and five bits of kind and interest. The operations keep three
  things in step: the bits, the kernel's registration (\<open>epoll_ctl\<close>), and the array of events that
  have been fetched in this iteration but not dispatched yet, in which a poll that changes or stops
  must be renamed or cleared.
\<close>

subsection \<open>Creation, kind and interest\<close>

definition us_create_poll :: "tag \<Rightarrow> bool \<Rightarrow> world \<Rightarrow> addr \<times> world" where
  "us_create_poll t fallthrough w =
     us_malloc t (if \<not> fallthrough then upd_loop (lp_num_polls_update (\<lambda>n. n + 1)) w else w)"

definition us_poll_free :: "addr \<Rightarrow> world \<Rightarrow> world" where
  "us_poll_free p w = us_free p (upd_loop (lp_num_polls_update (\<lambda>n. n - 1)) w)"

definition us_poll_init :: "addr \<Rightarrow> int \<Rightarrow> 5 word \<Rightarrow> world \<Rightarrow> world" where
  "us_poll_init p fd poll_type w =
     upd_p p (\<lambda>x. x\<lparr>p_fd := word_of_int fd, p_poll_type := poll_type\<rparr>) w"

definition events_of_type :: "5 word \<Rightarrow> u32" where
  "events_of_type t = (if t AND POLL_TYPE_POLLING_IN \<noteq> 0 then LIBUS_SOCKET_READABLE else 0)
                   OR (if t AND POLL_TYPE_POLLING_OUT \<noteq> 0 then LIBUS_SOCKET_WRITABLE else 0)"

definition us_poll_events :: "addr \<Rightarrow> world \<Rightarrow> u32" where
  "us_poll_events p w = events_of_type (p_poll_type (polls w p))"

definition us_poll_fd :: "addr \<Rightarrow> world \<Rightarrow> int" where
  "us_poll_fd p w = sint (p_fd (polls w p))"

definition us_internal_poll_type :: "addr \<Rightarrow> world \<Rightarrow> 5 word" where
  "us_internal_poll_type p w = p_poll_type (polls w p) AND POLL_TYPE_KIND_MASK"

definition us_internal_poll_set_type :: "addr \<Rightarrow> 5 word \<Rightarrow> world \<Rightarrow> world" where
  "us_internal_poll_set_type p poll_type w =
     upd_p p (\<lambda>x. x\<lparr>p_poll_type := poll_type OR (p_poll_type x AND POLL_TYPE_POLLING_MASK)\<rparr>) w"

definition interest_bits :: "u32 \<Rightarrow> 5 word" where
  "interest_bits events = (if events AND LIBUS_SOCKET_READABLE \<noteq> 0 then POLL_TYPE_POLLING_IN else 0)
                       OR (if events AND LIBUS_SOCKET_WRITABLE \<noteq> 0 then POLL_TYPE_POLLING_OUT else 0)"

text \<open>With neither interest the registration still asks for end of file and errors.\<close>

definition epoll_mask :: "u32 \<Rightarrow> u32" where
  "epoll_mask events =
     (if events AND LIBUS_SOCKET_READABLE = 0 \<and> events AND LIBUS_SOCKET_WRITABLE = 0
      then events OR EPOLLRDHUP OR EPOLLHUP OR EPOLLERR else events)"

subsection \<open>The ready polls of the current iteration\<close>

fun replace_ready :: "nat \<Rightarrow> pollref \<Rightarrow> pollref \<Rightarrow> (u32 \<times> pollref) list \<Rightarrow> (u32 \<times> pollref) list" where
  "replace_ready n old new [] = []"
| "replace_ready 0 old new xs = xs"
| "replace_ready (Suc n) old new ((e, p) # xs) =
     (if p = old then (e, new) # replace_ready n old new xs
      else (e, p) # replace_ready (Suc n) old new xs)"

definition us_internal_loop_update_pending_ready_polls :: "pollref \<Rightarrow> pollref \<Rightarrow> world \<Rightarrow> world" where
  "us_internal_loop_update_pending_ready_polls old_poll new_poll w = (let
     i = nat (lp_current_ready_poll (loop w)); len = nat (lp_num_ready_polls (loop w)) - i;
     rp = lp_ready_polls (loop w)
   in upd_loop (lp_ready_polls_update (\<lambda>_.
        take i rp @ replace_ready 1 old_poll new_poll (take len (drop i rp)) @ drop (i + len) rp)) w)"

subsection \<open>Starting, changing and stopping\<close>

definition epoll_ctl :: "epoll_op \<Rightarrow> int \<Rightarrow> u32 \<Rightarrow> pollref \<Rightarrow> world \<Rightarrow> int \<times> world" where
  "epoll_ctl opr fd events p w =
     (let (r, w) = lift_k (sys_retry (Sys_epoll_ctl (lp_fd (loop w)) opr fd events p)) w in (r_ret r, w))"

definition us_poll_start_rc :: "addr \<Rightarrow> u32 \<Rightarrow> world \<Rightarrow> int \<times> world" where
  "us_poll_start_rc p events w =
    (let w = upd_p p (p_poll_type_update (\<lambda>_. us_internal_poll_type p w OR interest_bits events)) w
     in epoll_ctl EPOLL_CTL_ADD (us_poll_fd p w) (epoll_mask events) (Poll p) w)"

definition us_poll_start :: "addr \<Rightarrow> u32 \<Rightarrow> world \<Rightarrow> world" where
  "us_poll_start p events w = snd (us_poll_start_rc p events w)"

definition us_poll_change :: "addr \<Rightarrow> u32 \<Rightarrow> world \<Rightarrow> world" where
  "us_poll_change p events w =
    (if us_poll_events p w \<noteq> events then
      (let w = upd_p p (p_poll_type_update (\<lambda>_. us_internal_poll_type p w OR interest_bits events)) w;
           (_, w) = epoll_ctl EPOLL_CTL_MOD (us_poll_fd p w) (epoll_mask events) (Poll p) w
       in us_internal_loop_update_pending_ready_polls (Poll p) (Poll p) w)
     else w)"

definition us_poll_stop :: "addr \<Rightarrow> world \<Rightarrow> world" where
  "us_poll_stop p w =
    (let (_, w) = epoll_ctl EPOLL_CTL_DEL (us_poll_fd p w) 0 Null_poll w
     in us_internal_loop_update_pending_ready_polls (Poll p) Null_poll w)"

text \<open>
  \<open>memcpy\<close> copies the whole old object: the poll and the socket it is part of (the only objects
  that are resized are sockets, in \<open>us_socket_adopt\<close>). Sizes are the extension sizes.
\<close>

definition us_poll_resize :: "addr \<Rightarrow> int \<Rightarrow> int \<Rightarrow> world \<Rightarrow> addr \<times> world" where
  "us_poll_resize p old_ext_size ext_size w =
    (if ext_size \<le> old_ext_size then (p, w)
     else let (new_p, w) = us_malloc T_socket w;
       w = upd_p new_p (\<lambda>_. polls w p) (upd_s new_p (\<lambda>_. sockets w p) w);
       w = upd_loop (lp_num_polls_update (\<lambda>n. n + 1)) w;
       events = us_poll_events p w;
       w = upd_p new_p (p_poll_type_update (\<lambda>_. us_internal_poll_type new_p w)) w;
       w = us_poll_change new_p events w;
       w = us_internal_loop_update_pending_ready_polls (Poll p) (Poll new_p) w
     in (new_p, w))"

definition us_internal_accept_poll_event :: "addr \<Rightarrow> world \<Rightarrow> world" where
  "us_internal_accept_poll_event p w = snd (lift_k (sys_retry (Sys_read (us_poll_fd p w))) w)"

subsection \<open>Timers and the wakeup event\<close>

definition zero_callback :: us_internal_callback_t where
  "zero_callback = \<lparr> cb_expects_the_loop = False, cb_leave_poll_ready = False, cb_cb = None,
     cb_has_added_timer = False \<rparr>"

definition us_create_timer :: "bool \<Rightarrow> world \<Rightarrow> ptr \<times> world" where
  "us_create_timer fallthrough w =
    (let (p, w) = us_create_poll T_callback fallthrough w;
         w = upd_p p (\<lambda>_. \<lparr> p_fd = 0, p_poll_type = 0 \<rparr>) (upd_cb p (\<lambda>_. zero_callback) w);
         (r, w) = lift_k (sys Sys_timerfd_create) w in
     if r_ret r = -1 then (None, w)
     else let w = us_poll_init p (r_ret r) POLL_TYPE_CALLBACK w;
              w = upd_cb p (\<lambda>c. c\<lparr>cb_expects_the_loop := False, cb_leave_poll_ready := False,
                     cb_has_added_timer := False\<rparr>) w
     in (Some p, w))"

definition us_timer_close :: "addr \<Rightarrow> bool \<Rightarrow> world \<Rightarrow> world" where
  "us_timer_close timer fallthrough w =
    (let w = us_poll_stop timer w;
         (_, w) = lift_k (sys (Sys_close (us_poll_fd timer w))) w
     in if fallthrough then us_free timer w else us_poll_free timer w)"

definition us_timer_set :: "addr \<Rightarrow> callback_fn \<Rightarrow> int \<Rightarrow> int \<Rightarrow> world \<Rightarrow> world" where
  "us_timer_set t cb ms repeat_ms w =
    (let w = upd_cb t (cb_cb_update (\<lambda>_. Some cb)) w;
         (_, w) = lift_k (sys (Sys_timerfd_settime (us_poll_fd t w)
                    (ms sdiv 1000, (ms smod 1000) * 1000000)
                    (repeat_ms sdiv 1000, (repeat_ms smod 1000) * 1000000))) w
     in if ld_sweep_timer (loop w) = Some t \<and> cb_has_added_timer (callbacks w t) then w
        else us_poll_start t LIBUS_SOCKET_READABLE
          (if ld_sweep_timer (loop w) = Some t
           then upd_cb t (cb_has_added_timer_update (\<lambda>_. True)) w else w))"

text \<open>\<open>None\<close> is the panic on a failing \<open>eventfd\<close>.\<close>

definition us_internal_create_async :: "bool \<Rightarrow> world \<Rightarrow> ptr \<times> world" where
  "us_internal_create_async fallthrough w =
    (let (p, w) = us_create_poll T_callback fallthrough w;
         w = upd_p p (\<lambda>_. \<lparr> p_fd = 0, p_poll_type = 0 \<rparr>) (upd_cb p (\<lambda>_. zero_callback) w);
         (r, w) = lift_k (sys Sys_eventfd) w in
     if r_ret r = -1 then (None, w)
     else let w = us_poll_init p (r_ret r) POLL_TYPE_CALLBACK w;
              w = upd_cb p (\<lambda>c. c\<lparr>cb_expects_the_loop := True, cb_leave_poll_ready := True\<rparr>) w
     in (Some p, w))"

definition us_internal_async_close :: "addr \<Rightarrow> world \<Rightarrow> world" where
  "us_internal_async_close a w =
    (let w = us_poll_stop a w;
         (_, w) = lift_k (sys (Sys_close (us_poll_fd a w))) w
     in us_poll_free a w)"

definition us_internal_async_set :: "addr \<Rightarrow> callback_fn \<Rightarrow> world \<Rightarrow> world" where
  "us_internal_async_set a cb w =
    (let w = upd_cb a (cb_cb_update (\<lambda>_. Some cb)) w;
         w = us_poll_start a LIBUS_SOCKET_READABLE w;
         (_, w) = lift_k (sys (Sys_epoll_ctl (lp_fd (loop w)) EPOLL_CTL_MOD (us_poll_fd a w)
                    (EPOLLIN OR EPOLLET) (Poll a))) w
     in w)"

text \<open>The loop may spin as long as the kernel keeps answering \<open>EAGAIN\<close>: \<open>None\<close> is no return.\<close>

partial_function (option) async_wakeup_loop :: "int \<Rightarrow> kernel \<Rightarrow> kernel option" where
  "async_wakeup_loop fd k =
    (let (r, k) = sys_ret (Sys_write fd) k in
     if r \<ge> 0 then Some k
     else if errno k = EINTR then async_wakeup_loop fd k
     else if errno k = EAGAIN then
       (let (r, k) = sys_ret (Sys_read fd) k in
        if r > 0 \<or> errno k = EAGAIN \<or> errno k = EINTR then async_wakeup_loop fd k else Some k)
     else Some k)"

definition us_internal_async_wakeup :: "addr \<Rightarrow> world \<Rightarrow> world option" where
  "us_internal_async_wakeup a w =
     map_option (\<lambda>k. upd_kern (\<lambda>_. k) w) (async_wakeup_loop (us_poll_fd a w) (kern w))"

definition us_socket_get_error :: "addr \<Rightarrow> world \<Rightarrow> int \<times> world" where
  "us_socket_get_error s w =
    (let (r, w) = lift_k (sys (Sys_getsockopt_error (us_poll_fd s w))) w in
     if r_ret r = -1 then (errno (kern w), w) else (r_int r, w))"

subsection \<open>Fetching events\<close>

text \<open>The raw system call returns \<open>- errno\<close> and leaves \<open>errno\<close> alone.\<close>

definition sys_raw :: "syscall \<Rightarrow> kernel \<Rightarrow> reply \<times> kernel" where
  "sys_raw c k = (pop_reply k, k\<lparr>replies := tl (replies k), trace := Sys c # trace k\<rparr>)"

function raw_retry :: "syscall \<Rightarrow> kernel \<Rightarrow> reply \<times> kernel" where
  "raw_retry c k = (let (r, k') = sys_raw c k in
     if r_ret r = - EINTR then raw_retry c k' else (r, k'))"
  by auto
termination
proof (relation "measure (\<lambda>(c, k). length (replies k))", goal_cases)
  case (2 c k x r k')
  then show ?case
    by (cases "replies k") (auto simp: sys_raw_def pop_reply_def default_reply_def errno_defs)
qed simp

declare raw_retry.simps [simp del]

text \<open>
  The events answered by the kernel are stored in \<open>ready_polls\<close>; a successful call returns how
  many there are, at most \<open>maxevents\<close>.
\<close>

definition wait_result :: "reply \<Rightarrow> int" where
  "wait_result r = (if r_ret r < 0 then r_ret r
     else int (length (take (nat LIBUS_MAX_READY_POLLS) (r_events r))))"

definition store_ready :: "reply \<Rightarrow> world \<Rightarrow> world" where
  "store_ready r w = (if r_ret r < 0 then w
     else upd_loop (lp_ready_polls_update (\<lambda>_. take (nat LIBUS_MAX_READY_POLLS) (r_events r))) w)"

definition timeout_ms :: "timespec option \<Rightarrow> int" where
  "timeout_ms timeout = (case timeout of None \<Rightarrow> -1 | Some (s, ns) \<Rightarrow> s * 1000 + ns sdiv 1000000)"

definition bun_epoll_pwait2 :: "timespec option \<Rightarrow> world \<Rightarrow> int \<times> world" where
  "bun_epoll_pwait2 timeout w = (let
     fallback = (\<lambda>w. let (r, w) = lift_k (sys_retry (Sys_epoll_pwait (lp_fd (loop w))
                       LIBUS_MAX_READY_POLLS (timeout_ms timeout))) w
                     in (wait_result r, store_ready r w))
   in if lp_has_epoll_pwait2 (loop w) \<noteq> 0 then
        (let (r, w) = lift_k (raw_retry (Sys_epoll_pwait2 (lp_fd (loop w)) LIBUS_MAX_READY_POLLS timeout)) w in
         if r_ret r \<noteq> - ENOSYS \<and> r_ret r \<noteq> - EPERM \<and> r_ret r \<noteq> - ENOTSUP \<and> r_ret r \<noteq> - EACCES
         then (wait_result r, store_ready r w)
         else fallback (upd_loop (lp_has_epoll_pwait2_update (\<lambda>_. 0)) w))
      else fallback w)"

subsection \<open>What the poll operations leave alone\<close>

text \<open>They touch the poll, the kernel and the pending ready polls, nothing else.\<close>

lemma update_pending_frame [simp]:
  "sockets (us_internal_loop_update_pending_ready_polls a b w) = sockets w"
  "conns (us_internal_loop_update_pending_ready_polls a b w) = conns w"
  "listeners (us_internal_loop_update_pending_ready_polls a b w) = listeners w"
  "groups (us_internal_loop_update_pending_ready_polls a b w) = groups w"
  "udps (us_internal_loop_update_pending_ready_polls a b w) = udps w"
  "heap_tag (us_internal_loop_update_pending_ready_polls a b w) = heap_tag w"
  "next_addr (us_internal_loop_update_pending_ready_polls a b w) = next_addr w"
  "kern (us_internal_loop_update_pending_ready_polls a b w) = kern w"
  "polls (us_internal_loop_update_pending_ready_polls a b w) = polls w"
  "callbacks (us_internal_loop_update_pending_ready_polls a b w) = callbacks w"
  "ld_sweep_timer (loop (us_internal_loop_update_pending_ready_polls a b w)) = ld_sweep_timer (loop w)"
  "ld_sweep_timer_count (loop (us_internal_loop_update_pending_ready_polls a b w)) = ld_sweep_timer_count (loop w)"
  "ld_wakeup_async (loop (us_internal_loop_update_pending_ready_polls a b w)) = ld_wakeup_async (loop w)"
  "ld_head (loop (us_internal_loop_update_pending_ready_polls a b w)) = ld_head (loop w)"
  "ld_quic_head (loop (us_internal_loop_update_pending_ready_polls a b w)) = ld_quic_head (loop w)"
  "ld_quic_next_tick_us (loop (us_internal_loop_update_pending_ready_polls a b w)) = ld_quic_next_tick_us (loop w)"
  "ld_iterator (loop (us_internal_loop_update_pending_ready_polls a b w)) = ld_iterator (loop w)"
  "ld_closed_udp_head (loop (us_internal_loop_update_pending_ready_polls a b w)) = ld_closed_udp_head (loop w)"
  "ld_closed_head (loop (us_internal_loop_update_pending_ready_polls a b w)) = ld_closed_head (loop w)"
  "ld_low_prio_head (loop (us_internal_loop_update_pending_ready_polls a b w)) = ld_low_prio_head (loop w)"
  "ld_low_prio_budget (loop (us_internal_loop_update_pending_ready_polls a b w)) = ld_low_prio_budget (loop w)"
  "ld_dns_ready_head (loop (us_internal_loop_update_pending_ready_polls a b w)) = ld_dns_ready_head (loop w)"
  "ld_closed_connecting_head (loop (us_internal_loop_update_pending_ready_polls a b w)) = ld_closed_connecting_head (loop w)"
  "ld_iteration_nr (loop (us_internal_loop_update_pending_ready_polls a b w)) = ld_iteration_nr (loop w)"
  "ld_jsc_vm (loop (us_internal_loop_update_pending_ready_polls a b w)) = ld_jsc_vm (loop w)"
  "ld_ssl_inited (loop (us_internal_loop_update_pending_ready_polls a b w)) = ld_ssl_inited (loop w)"
  "ld_ssl_socket (loop (us_internal_loop_update_pending_ready_polls a b w)) = ld_ssl_socket (loop w)"
  "ld_ssl_read_input (loop (us_internal_loop_update_pending_ready_polls a b w)) = ld_ssl_read_input (loop w)"
  "ld_ssl_read_input_offset (loop (us_internal_loop_update_pending_ready_polls a b w)) = ld_ssl_read_input_offset (loop w)"
  "ld_ssl_read_input_length (loop (us_internal_loop_update_pending_ready_polls a b w)) = ld_ssl_read_input_length (loop w)"
  "ld_tick_depth (loop (us_internal_loop_update_pending_ready_polls a b w)) = ld_tick_depth (loop w)"
  "lp_num_polls (loop (us_internal_loop_update_pending_ready_polls a b w)) = lp_num_polls (loop w)"
  "lp_num_ready_polls (loop (us_internal_loop_update_pending_ready_polls a b w)) = lp_num_ready_polls (loop w)"
  "lp_current_ready_poll (loop (us_internal_loop_update_pending_ready_polls a b w)) = lp_current_ready_poll (loop w)"
  "lp_fd (loop (us_internal_loop_update_pending_ready_polls a b w)) = lp_fd (loop w)"
  "lp_pending_wakeups (loop (us_internal_loop_update_pending_ready_polls a b w)) = lp_pending_wakeups (loop w)"
  "lp_has_epoll_pwait2 (loop (us_internal_loop_update_pending_ready_polls a b w)) = lp_has_epoll_pwait2 (loop w)"
  by (simp_all add: us_internal_loop_update_pending_ready_polls_def Let_def)

lemma epoll_ctl_frame [simp]:
  "polls (snd (epoll_ctl opr fd ev p w)) = polls w" "callbacks (snd (epoll_ctl opr fd ev p w)) = callbacks w"
  "loop (snd (epoll_ctl opr fd ev p w)) = loop w"
  "sockets (snd (epoll_ctl opr fd ev p w)) = sockets w"
  "conns (snd (epoll_ctl opr fd ev p w)) = conns w"
  "listeners (snd (epoll_ctl opr fd ev p w)) = listeners w"
  "groups (snd (epoll_ctl opr fd ev p w)) = groups w"
  "udps (snd (epoll_ctl opr fd ev p w)) = udps w"
  "heap_tag (snd (epoll_ctl opr fd ev p w)) = heap_tag w"
  "next_addr (snd (epoll_ctl opr fd ev p w)) = next_addr w"
  by (simp_all add: epoll_ctl_def case_prod_beta Let_def)

lemma us_poll_start_rc_frame [simp]:
  "sockets (snd (us_poll_start_rc p ev w)) = sockets w"
  "conns (snd (us_poll_start_rc p ev w)) = conns w"
  "listeners (snd (us_poll_start_rc p ev w)) = listeners w"
  "groups (snd (us_poll_start_rc p ev w)) = groups w"
  "udps (snd (us_poll_start_rc p ev w)) = udps w"
  "heap_tag (snd (us_poll_start_rc p ev w)) = heap_tag w"
  "next_addr (snd (us_poll_start_rc p ev w)) = next_addr w"
  "callbacks (snd (us_poll_start_rc p ev w)) = callbacks w"
  "ld_sweep_timer (loop (snd (us_poll_start_rc p ev w))) = ld_sweep_timer (loop w)"
  "ld_sweep_timer_count (loop (snd (us_poll_start_rc p ev w))) = ld_sweep_timer_count (loop w)"
  "ld_wakeup_async (loop (snd (us_poll_start_rc p ev w))) = ld_wakeup_async (loop w)"
  "ld_head (loop (snd (us_poll_start_rc p ev w))) = ld_head (loop w)"
  "ld_quic_head (loop (snd (us_poll_start_rc p ev w))) = ld_quic_head (loop w)"
  "ld_quic_next_tick_us (loop (snd (us_poll_start_rc p ev w))) = ld_quic_next_tick_us (loop w)"
  "ld_iterator (loop (snd (us_poll_start_rc p ev w))) = ld_iterator (loop w)"
  "ld_closed_udp_head (loop (snd (us_poll_start_rc p ev w))) = ld_closed_udp_head (loop w)"
  "ld_closed_head (loop (snd (us_poll_start_rc p ev w))) = ld_closed_head (loop w)"
  "ld_low_prio_head (loop (snd (us_poll_start_rc p ev w))) = ld_low_prio_head (loop w)"
  "ld_low_prio_budget (loop (snd (us_poll_start_rc p ev w))) = ld_low_prio_budget (loop w)"
  "ld_dns_ready_head (loop (snd (us_poll_start_rc p ev w))) = ld_dns_ready_head (loop w)"
  "ld_closed_connecting_head (loop (snd (us_poll_start_rc p ev w))) = ld_closed_connecting_head (loop w)"
  "ld_iteration_nr (loop (snd (us_poll_start_rc p ev w))) = ld_iteration_nr (loop w)"
  "ld_jsc_vm (loop (snd (us_poll_start_rc p ev w))) = ld_jsc_vm (loop w)"
  "ld_ssl_inited (loop (snd (us_poll_start_rc p ev w))) = ld_ssl_inited (loop w)"
  "ld_ssl_socket (loop (snd (us_poll_start_rc p ev w))) = ld_ssl_socket (loop w)"
  "ld_ssl_read_input (loop (snd (us_poll_start_rc p ev w))) = ld_ssl_read_input (loop w)"
  "ld_ssl_read_input_offset (loop (snd (us_poll_start_rc p ev w))) = ld_ssl_read_input_offset (loop w)"
  "ld_ssl_read_input_length (loop (snd (us_poll_start_rc p ev w))) = ld_ssl_read_input_length (loop w)"
  "ld_tick_depth (loop (snd (us_poll_start_rc p ev w))) = ld_tick_depth (loop w)"
  "lp_num_polls (loop (snd (us_poll_start_rc p ev w))) = lp_num_polls (loop w)"
  "lp_num_ready_polls (loop (snd (us_poll_start_rc p ev w))) = lp_num_ready_polls (loop w)"
  "lp_current_ready_poll (loop (snd (us_poll_start_rc p ev w))) = lp_current_ready_poll (loop w)"
  "lp_fd (loop (snd (us_poll_start_rc p ev w))) = lp_fd (loop w)"
  "lp_pending_wakeups (loop (snd (us_poll_start_rc p ev w))) = lp_pending_wakeups (loop w)"
  "lp_has_epoll_pwait2 (loop (snd (us_poll_start_rc p ev w))) = lp_has_epoll_pwait2 (loop w)"
  by (simp_all add: us_poll_start_rc_def Let_def)

lemma us_poll_start_frame [simp]:
  "sockets (us_poll_start p ev w) = sockets w"
  "conns (us_poll_start p ev w) = conns w"
  "listeners (us_poll_start p ev w) = listeners w"
  "groups (us_poll_start p ev w) = groups w"
  "udps (us_poll_start p ev w) = udps w"
  "heap_tag (us_poll_start p ev w) = heap_tag w"
  "next_addr (us_poll_start p ev w) = next_addr w"
  "callbacks (us_poll_start p ev w) = callbacks w"
  "ld_sweep_timer (loop (us_poll_start p ev w)) = ld_sweep_timer (loop w)"
  "ld_sweep_timer_count (loop (us_poll_start p ev w)) = ld_sweep_timer_count (loop w)"
  "ld_wakeup_async (loop (us_poll_start p ev w)) = ld_wakeup_async (loop w)"
  "ld_head (loop (us_poll_start p ev w)) = ld_head (loop w)"
  "ld_quic_head (loop (us_poll_start p ev w)) = ld_quic_head (loop w)"
  "ld_quic_next_tick_us (loop (us_poll_start p ev w)) = ld_quic_next_tick_us (loop w)"
  "ld_iterator (loop (us_poll_start p ev w)) = ld_iterator (loop w)"
  "ld_closed_udp_head (loop (us_poll_start p ev w)) = ld_closed_udp_head (loop w)"
  "ld_closed_head (loop (us_poll_start p ev w)) = ld_closed_head (loop w)"
  "ld_low_prio_head (loop (us_poll_start p ev w)) = ld_low_prio_head (loop w)"
  "ld_low_prio_budget (loop (us_poll_start p ev w)) = ld_low_prio_budget (loop w)"
  "ld_dns_ready_head (loop (us_poll_start p ev w)) = ld_dns_ready_head (loop w)"
  "ld_closed_connecting_head (loop (us_poll_start p ev w)) = ld_closed_connecting_head (loop w)"
  "ld_iteration_nr (loop (us_poll_start p ev w)) = ld_iteration_nr (loop w)"
  "ld_jsc_vm (loop (us_poll_start p ev w)) = ld_jsc_vm (loop w)"
  "ld_ssl_inited (loop (us_poll_start p ev w)) = ld_ssl_inited (loop w)"
  "ld_ssl_socket (loop (us_poll_start p ev w)) = ld_ssl_socket (loop w)"
  "ld_ssl_read_input (loop (us_poll_start p ev w)) = ld_ssl_read_input (loop w)"
  "ld_ssl_read_input_offset (loop (us_poll_start p ev w)) = ld_ssl_read_input_offset (loop w)"
  "ld_ssl_read_input_length (loop (us_poll_start p ev w)) = ld_ssl_read_input_length (loop w)"
  "ld_tick_depth (loop (us_poll_start p ev w)) = ld_tick_depth (loop w)"
  "lp_num_polls (loop (us_poll_start p ev w)) = lp_num_polls (loop w)"
  "lp_num_ready_polls (loop (us_poll_start p ev w)) = lp_num_ready_polls (loop w)"
  "lp_current_ready_poll (loop (us_poll_start p ev w)) = lp_current_ready_poll (loop w)"
  "lp_fd (loop (us_poll_start p ev w)) = lp_fd (loop w)"
  "lp_pending_wakeups (loop (us_poll_start p ev w)) = lp_pending_wakeups (loop w)"
  "lp_has_epoll_pwait2 (loop (us_poll_start p ev w)) = lp_has_epoll_pwait2 (loop w)"
  by (simp_all add: us_poll_start_def)

lemma us_poll_change_frame [simp]:
  "sockets (us_poll_change p ev w) = sockets w"
  "conns (us_poll_change p ev w) = conns w"
  "listeners (us_poll_change p ev w) = listeners w"
  "groups (us_poll_change p ev w) = groups w"
  "udps (us_poll_change p ev w) = udps w"
  "heap_tag (us_poll_change p ev w) = heap_tag w"
  "next_addr (us_poll_change p ev w) = next_addr w"
  "callbacks (us_poll_change p ev w) = callbacks w"
  "ld_sweep_timer (loop (us_poll_change p ev w)) = ld_sweep_timer (loop w)"
  "ld_sweep_timer_count (loop (us_poll_change p ev w)) = ld_sweep_timer_count (loop w)"
  "ld_wakeup_async (loop (us_poll_change p ev w)) = ld_wakeup_async (loop w)"
  "ld_head (loop (us_poll_change p ev w)) = ld_head (loop w)"
  "ld_quic_head (loop (us_poll_change p ev w)) = ld_quic_head (loop w)"
  "ld_quic_next_tick_us (loop (us_poll_change p ev w)) = ld_quic_next_tick_us (loop w)"
  "ld_iterator (loop (us_poll_change p ev w)) = ld_iterator (loop w)"
  "ld_closed_udp_head (loop (us_poll_change p ev w)) = ld_closed_udp_head (loop w)"
  "ld_closed_head (loop (us_poll_change p ev w)) = ld_closed_head (loop w)"
  "ld_low_prio_head (loop (us_poll_change p ev w)) = ld_low_prio_head (loop w)"
  "ld_low_prio_budget (loop (us_poll_change p ev w)) = ld_low_prio_budget (loop w)"
  "ld_dns_ready_head (loop (us_poll_change p ev w)) = ld_dns_ready_head (loop w)"
  "ld_closed_connecting_head (loop (us_poll_change p ev w)) = ld_closed_connecting_head (loop w)"
  "ld_iteration_nr (loop (us_poll_change p ev w)) = ld_iteration_nr (loop w)"
  "ld_jsc_vm (loop (us_poll_change p ev w)) = ld_jsc_vm (loop w)"
  "ld_ssl_inited (loop (us_poll_change p ev w)) = ld_ssl_inited (loop w)"
  "ld_ssl_socket (loop (us_poll_change p ev w)) = ld_ssl_socket (loop w)"
  "ld_ssl_read_input (loop (us_poll_change p ev w)) = ld_ssl_read_input (loop w)"
  "ld_ssl_read_input_offset (loop (us_poll_change p ev w)) = ld_ssl_read_input_offset (loop w)"
  "ld_ssl_read_input_length (loop (us_poll_change p ev w)) = ld_ssl_read_input_length (loop w)"
  "ld_tick_depth (loop (us_poll_change p ev w)) = ld_tick_depth (loop w)"
  "lp_num_polls (loop (us_poll_change p ev w)) = lp_num_polls (loop w)"
  "lp_num_ready_polls (loop (us_poll_change p ev w)) = lp_num_ready_polls (loop w)"
  "lp_current_ready_poll (loop (us_poll_change p ev w)) = lp_current_ready_poll (loop w)"
  "lp_fd (loop (us_poll_change p ev w)) = lp_fd (loop w)"
  "lp_pending_wakeups (loop (us_poll_change p ev w)) = lp_pending_wakeups (loop w)"
  "lp_has_epoll_pwait2 (loop (us_poll_change p ev w)) = lp_has_epoll_pwait2 (loop w)"
  by (simp_all add: us_poll_change_def case_prod_beta Let_def)

lemma us_poll_stop_frame [simp]:
  "sockets (us_poll_stop p w) = sockets w"
  "conns (us_poll_stop p w) = conns w"
  "listeners (us_poll_stop p w) = listeners w"
  "groups (us_poll_stop p w) = groups w"
  "udps (us_poll_stop p w) = udps w"
  "heap_tag (us_poll_stop p w) = heap_tag w"
  "next_addr (us_poll_stop p w) = next_addr w"
  "callbacks (us_poll_stop p w) = callbacks w"
  "polls (us_poll_stop p w) = polls w"
  "ld_sweep_timer (loop (us_poll_stop p w)) = ld_sweep_timer (loop w)"
  "ld_sweep_timer_count (loop (us_poll_stop p w)) = ld_sweep_timer_count (loop w)"
  "ld_wakeup_async (loop (us_poll_stop p w)) = ld_wakeup_async (loop w)"
  "ld_head (loop (us_poll_stop p w)) = ld_head (loop w)"
  "ld_quic_head (loop (us_poll_stop p w)) = ld_quic_head (loop w)"
  "ld_quic_next_tick_us (loop (us_poll_stop p w)) = ld_quic_next_tick_us (loop w)"
  "ld_iterator (loop (us_poll_stop p w)) = ld_iterator (loop w)"
  "ld_closed_udp_head (loop (us_poll_stop p w)) = ld_closed_udp_head (loop w)"
  "ld_closed_head (loop (us_poll_stop p w)) = ld_closed_head (loop w)"
  "ld_low_prio_head (loop (us_poll_stop p w)) = ld_low_prio_head (loop w)"
  "ld_low_prio_budget (loop (us_poll_stop p w)) = ld_low_prio_budget (loop w)"
  "ld_dns_ready_head (loop (us_poll_stop p w)) = ld_dns_ready_head (loop w)"
  "ld_closed_connecting_head (loop (us_poll_stop p w)) = ld_closed_connecting_head (loop w)"
  "ld_iteration_nr (loop (us_poll_stop p w)) = ld_iteration_nr (loop w)"
  "ld_jsc_vm (loop (us_poll_stop p w)) = ld_jsc_vm (loop w)"
  "ld_ssl_inited (loop (us_poll_stop p w)) = ld_ssl_inited (loop w)"
  "ld_ssl_socket (loop (us_poll_stop p w)) = ld_ssl_socket (loop w)"
  "ld_ssl_read_input (loop (us_poll_stop p w)) = ld_ssl_read_input (loop w)"
  "ld_ssl_read_input_offset (loop (us_poll_stop p w)) = ld_ssl_read_input_offset (loop w)"
  "ld_ssl_read_input_length (loop (us_poll_stop p w)) = ld_ssl_read_input_length (loop w)"
  "ld_tick_depth (loop (us_poll_stop p w)) = ld_tick_depth (loop w)"
  "lp_num_polls (loop (us_poll_stop p w)) = lp_num_polls (loop w)"
  "lp_num_ready_polls (loop (us_poll_stop p w)) = lp_num_ready_polls (loop w)"
  "lp_current_ready_poll (loop (us_poll_stop p w)) = lp_current_ready_poll (loop w)"
  "lp_fd (loop (us_poll_stop p w)) = lp_fd (loop w)"
  "lp_pending_wakeups (loop (us_poll_stop p w)) = lp_pending_wakeups (loop w)"
  "lp_has_epoll_pwait2 (loop (us_poll_stop p w)) = lp_has_epoll_pwait2 (loop w)"
  by (simp_all add: us_poll_stop_def case_prod_beta Let_def)

lemma us_timer_set_frame [simp]:
  "sockets (us_timer_set t cb ms rep w) = sockets w"
  "conns (us_timer_set t cb ms rep w) = conns w"
  "listeners (us_timer_set t cb ms rep w) = listeners w"
  "groups (us_timer_set t cb ms rep w) = groups w"
  "udps (us_timer_set t cb ms rep w) = udps w"
  "heap_tag (us_timer_set t cb ms rep w) = heap_tag w"
  "next_addr (us_timer_set t cb ms rep w) = next_addr w"
  "ld_sweep_timer (loop (us_timer_set t cb ms rep w)) = ld_sweep_timer (loop w)"
  "ld_sweep_timer_count (loop (us_timer_set t cb ms rep w)) = ld_sweep_timer_count (loop w)"
  "ld_wakeup_async (loop (us_timer_set t cb ms rep w)) = ld_wakeup_async (loop w)"
  "ld_head (loop (us_timer_set t cb ms rep w)) = ld_head (loop w)"
  "ld_quic_head (loop (us_timer_set t cb ms rep w)) = ld_quic_head (loop w)"
  "ld_quic_next_tick_us (loop (us_timer_set t cb ms rep w)) = ld_quic_next_tick_us (loop w)"
  "ld_iterator (loop (us_timer_set t cb ms rep w)) = ld_iterator (loop w)"
  "ld_closed_udp_head (loop (us_timer_set t cb ms rep w)) = ld_closed_udp_head (loop w)"
  "ld_closed_head (loop (us_timer_set t cb ms rep w)) = ld_closed_head (loop w)"
  "ld_low_prio_head (loop (us_timer_set t cb ms rep w)) = ld_low_prio_head (loop w)"
  "ld_low_prio_budget (loop (us_timer_set t cb ms rep w)) = ld_low_prio_budget (loop w)"
  "ld_dns_ready_head (loop (us_timer_set t cb ms rep w)) = ld_dns_ready_head (loop w)"
  "ld_closed_connecting_head (loop (us_timer_set t cb ms rep w)) = ld_closed_connecting_head (loop w)"
  "ld_iteration_nr (loop (us_timer_set t cb ms rep w)) = ld_iteration_nr (loop w)"
  "ld_jsc_vm (loop (us_timer_set t cb ms rep w)) = ld_jsc_vm (loop w)"
  "ld_ssl_inited (loop (us_timer_set t cb ms rep w)) = ld_ssl_inited (loop w)"
  "ld_ssl_socket (loop (us_timer_set t cb ms rep w)) = ld_ssl_socket (loop w)"
  "ld_ssl_read_input (loop (us_timer_set t cb ms rep w)) = ld_ssl_read_input (loop w)"
  "ld_ssl_read_input_offset (loop (us_timer_set t cb ms rep w)) = ld_ssl_read_input_offset (loop w)"
  "ld_ssl_read_input_length (loop (us_timer_set t cb ms rep w)) = ld_ssl_read_input_length (loop w)"
  "ld_tick_depth (loop (us_timer_set t cb ms rep w)) = ld_tick_depth (loop w)"
  "lp_num_polls (loop (us_timer_set t cb ms rep w)) = lp_num_polls (loop w)"
  "lp_num_ready_polls (loop (us_timer_set t cb ms rep w)) = lp_num_ready_polls (loop w)"
  "lp_current_ready_poll (loop (us_timer_set t cb ms rep w)) = lp_current_ready_poll (loop w)"
  "lp_fd (loop (us_timer_set t cb ms rep w)) = lp_fd (loop w)"
  "lp_pending_wakeups (loop (us_timer_set t cb ms rep w)) = lp_pending_wakeups (loop w)"
  "lp_has_epoll_pwait2 (loop (us_timer_set t cb ms rep w)) = lp_has_epoll_pwait2 (loop w)"
  by (simp_all add: us_timer_set_def case_prod_beta Let_def)

end
