(* ===== verification/Us_Group.thy ===== *)
theory Us_Group imports
  Us_Poll
begin

section \<open>Groups and their intrusive lists (\<open>context.c\<close>, \<open>loop.c\<close>)\<close>

text \<open>
  A group owns the list of its sockets, the list of its connecting sockets and the list of its listen
  sockets; the loop owns the list of the groups that are not empty. All are intrusive. The operations
  here link and unlink one object, keep the loop's list of groups and the reference count of the sweep
  timer in step, and advance the iterators a running sweep holds.
\<close>

subsection \<open>The sweep timer\<close>

definition us_internal_enable_sweep_timer :: "world \<Rightarrow> world" where
  "us_internal_enable_sweep_timer w =
    (let w = upd_loop (ld_sweep_timer_count_update (\<lambda>n. n + 1)) w in
     if ld_sweep_timer_count (loop w) = 1 then
       ext_call Ext_date_header_timer
         (us_timer_set (the (ld_sweep_timer (loop w))) Cb_sweep_timer
            (uint LIBUS_TIMEOUT_GRANULARITY * 1000) (uint LIBUS_TIMEOUT_GRANULARITY * 1000) w)
     else w)"

definition us_internal_disable_sweep_timer :: "world \<Rightarrow> world" where
  "us_internal_disable_sweep_timer w =
    (let w = upd_loop (ld_sweep_timer_count_update (\<lambda>n. n - 1)) w in
     if ld_sweep_timer_count (loop w) = 0 then
       us_timer_set (the (ld_sweep_timer (loop w))) Cb_sweep_noop 0 0 w
     else w)"

subsection \<open>Groups of the loop\<close>

definition us_internal_loop_link_group :: "addr \<Rightarrow> world \<Rightarrow> world" where
  "us_internal_loop_link_group grp w =
    (let w = upd_g grp (\<lambda>g. g\<lparr>g_next := ld_head (loop w), g_prev := None\<rparr>) w;
         w = (case ld_head (loop w) of
                Some h \<Rightarrow> upd_g h (g_prev_update (\<lambda>_. Some grp)) w | None \<Rightarrow> w)
     in upd_loop (ld_head_update (\<lambda>_. Some grp)) w)"

definition us_internal_loop_unlink_group :: "addr \<Rightarrow> world \<Rightarrow> world" where
  "us_internal_loop_unlink_group grp w =
    (let w = (if ld_iterator (loop w) = Some grp
              then upd_loop (ld_iterator_update (\<lambda>_. g_next (groups w grp))) w else w) in
     if ld_head (loop w) = Some grp then
       (let w = upd_loop (ld_head_update (\<lambda>_. g_next (groups w grp))) w in
        case ld_head (loop w) of
          Some h \<Rightarrow> upd_g h (g_prev_update (\<lambda>_. None)) w | None \<Rightarrow> w)
     else
       (let w = upd_g (the (g_prev (groups w grp)))
                  (g_next_update (\<lambda>_. g_next (groups w grp))) w in
        case g_next (groups w grp) of
          Some n \<Rightarrow> upd_g n (g_prev_update (\<lambda>_. g_prev (groups w grp))) w | None \<Rightarrow> w))"

definition us_internal_group_is_empty :: "addr \<Rightarrow> world \<Rightarrow> bool" where
  "us_internal_group_is_empty grp w =
    (g_head_sockets (groups w grp) = None \<and> g_head_connecting_sockets (groups w grp) = None
     \<and> g_head_listen_sockets (groups w grp) = None \<and> g_low_prio_count (groups w grp) = 0)"

definition us_internal_group_touched :: "addr \<Rightarrow> world \<Rightarrow> world" where
  "us_internal_group_touched grp w =
    (if \<not> g_linked (groups w grp)
     then upd_g grp (g_linked_update (\<lambda>_. True)) (us_internal_loop_link_group grp w) else w)"

definition us_internal_group_maybe_unlink :: "addr \<Rightarrow> world \<Rightarrow> world" where
  "us_internal_group_maybe_unlink grp w =
    (if g_linked (groups w grp) \<and> us_internal_group_is_empty grp w
     then upd_g grp (g_linked_update (\<lambda>_. False)) (us_internal_loop_unlink_group grp w) else w)"

definition zero_group :: us_socket_group_t where
  "zero_group = \<lparr> g_vtable = None, g_ext = None, g_head_sockets = None,
     g_head_connecting_sockets = None, g_head_listen_sockets = None, g_iterator = None,
     g_prev = None, g_next = None, g_global_tick = 0, g_low_prio_count = 0, g_timestamp = 0,
     g_long_timestamp = 0, g_linked = False \<rparr>"

definition us_socket_group_init :: "addr \<Rightarrow> ptr \<Rightarrow> ptr \<Rightarrow> world \<Rightarrow> world" where
  "us_socket_group_init grp vtable ext w =
     upd_g grp (\<lambda>_. zero_group\<lparr>g_vtable := vtable, g_ext := ext\<rparr>) w"

text \<open>The assertions of a debug build (\<open>US_ASSERT\<close>) are the precondition \<open>deinit_ok\<close>.\<close>

definition deinit_ok :: "addr \<Rightarrow> world \<Rightarrow> bool" where
  "deinit_ok grp w = (us_internal_group_is_empty grp w \<and> g_iterator (groups w grp) = None)"

definition us_socket_group_deinit :: "addr \<Rightarrow> world \<Rightarrow> world" where
  "us_socket_group_deinit grp w =
    (if g_linked (groups w grp)
     then upd_g grp (g_linked_update (\<lambda>_. False)) (us_internal_loop_unlink_group grp w) else w)"

definition us_socket_group_timestamp :: "addr \<Rightarrow> world \<Rightarrow> u8" where
  "us_socket_group_timestamp grp w = g_timestamp (groups w grp)"

definition us_socket_group_ext :: "addr \<Rightarrow> world \<Rightarrow> ptr" where
  "us_socket_group_ext grp w = g_ext (groups w grp)"

definition us_socket_group_next :: "addr \<Rightarrow> world \<Rightarrow> ptr" where
  "us_socket_group_next grp w = g_next (groups w grp)"

subsection \<open>Sockets of a group\<close>

definition us_socket_is_closed :: "addr \<Rightarrow> world \<Rightarrow> bool" where
  "us_socket_is_closed s w = s_is_closed (sockets w s)"

definition us_internal_socket_group_link_socket :: "addr \<Rightarrow> addr \<Rightarrow> world \<Rightarrow> world" where
  "us_internal_socket_group_link_socket grp s w =
    (if us_socket_is_closed s w then w
     else let h = g_head_sockets (groups w grp);
       w = upd_s s (\<lambda>x. x\<lparr>s_group := Some grp, s_next := h, s_prev := None\<rparr>) w;
       w = (case h of Some y \<Rightarrow> upd_s y (s_prev_update (\<lambda>_. Some s)) w | None \<Rightarrow> w);
       w = upd_g grp (g_head_sockets_update (\<lambda>_. Some s)) w;
       w = us_internal_group_touched grp w
     in us_internal_enable_sweep_timer w)"

definition unlink_socket_chain :: "addr \<Rightarrow> addr \<Rightarrow> world \<Rightarrow> world" where
  "unlink_socket_chain grp s w =
    (let prv = s_prev (sockets w s); nxt = s_next (sockets w s) in
     if prv = nxt then upd_g grp (g_head_sockets_update (\<lambda>_. None)) w
     else let w = (case prv of Some p \<Rightarrow> upd_s p (s_next_update (\<lambda>_. nxt)) w
                   | None \<Rightarrow> upd_g grp (g_head_sockets_update (\<lambda>_. nxt)) w)
     in (case nxt of Some n \<Rightarrow> upd_s n (s_prev_update (\<lambda>_. prv)) w | None \<Rightarrow> w))"

definition us_internal_socket_group_unlink_socket :: "addr \<Rightarrow> addr \<Rightarrow> world \<Rightarrow> world" where
  "us_internal_socket_group_unlink_socket grp s w =
    (let w = (if g_iterator (groups w grp) = Some s
              then upd_g grp (g_iterator_update (\<lambda>_. s_next (sockets w s))) w else w);
         w = unlink_socket_chain grp s w;
         w = us_internal_disable_sweep_timer w
     in us_internal_group_maybe_unlink grp w)"

subsection \<open>Connecting sockets of a group\<close>

definition us_internal_socket_group_link_connecting_socket :: "addr \<Rightarrow> addr \<Rightarrow> world \<Rightarrow> world" where
  "us_internal_socket_group_link_connecting_socket grp c w =
    (if c_closed (conns w c) then w
     else let h = g_head_connecting_sockets (groups w grp);
       w = upd_c c (\<lambda>x. x\<lparr>c_group := Some grp, c_next_pending := h, c_prev_pending := None\<rparr>) w;
       w = (case h of Some y \<Rightarrow> upd_c y (c_prev_pending_update (\<lambda>_. Some c)) w | None \<Rightarrow> w);
       w = upd_g grp (g_head_connecting_sockets_update (\<lambda>_. Some c)) w;
       w = us_internal_group_touched grp w
     in us_internal_enable_sweep_timer w)"

definition unlink_connecting_chain :: "addr \<Rightarrow> addr \<Rightarrow> world \<Rightarrow> world" where
  "unlink_connecting_chain grp c w =
    (let prv = c_prev_pending (conns w c); nxt = c_next_pending (conns w c) in
     if prv = nxt then upd_g grp (g_head_connecting_sockets_update (\<lambda>_. None)) w
     else let w = (case prv of Some p \<Rightarrow> upd_c p (c_next_pending_update (\<lambda>_. nxt)) w
                   | None \<Rightarrow> upd_g grp (g_head_connecting_sockets_update (\<lambda>_. nxt)) w)
     in (case nxt of Some n \<Rightarrow> upd_c n (c_prev_pending_update (\<lambda>_. prv)) w | None \<Rightarrow> w))"

definition us_internal_socket_group_unlink_connecting_socket :: "addr \<Rightarrow> addr \<Rightarrow> world \<Rightarrow> world" where
  "us_internal_socket_group_unlink_connecting_socket grp c w =
    (let w = unlink_connecting_chain grp c w;
         w = us_internal_disable_sweep_timer w
     in us_internal_group_maybe_unlink grp w)"

subsection \<open>The low priority queue\<close>

text \<open>
  The queue of the loop reuses the sockets' \<open>next\<close> and \<open>prev\<close> fields; a parked socket is not
  on its group's list. \<open>low_prio_push\<close> is how dispatching a readable socket parks it,
  \<open>low_prio_chain\<close> how closing or detaching a parked socket takes it out.
\<close>

definition low_prio_push :: "addr \<Rightarrow> world \<Rightarrow> world" where
  "low_prio_push s w =
    (let w = upd_s s (\<lambda>x. x\<lparr>s_prev := None, s_next := ld_low_prio_head (loop w)\<rparr>) w;
         w = (case s_next (sockets w s) of
                Some n \<Rightarrow> upd_s n (s_prev_update (\<lambda>_. Some s)) w | None \<Rightarrow> w)
     in upd_loop (ld_low_prio_head_update (\<lambda>_. Some s)) w)"

definition low_prio_chain :: "addr \<Rightarrow> world \<Rightarrow> world" where
  "low_prio_chain s w =
    (let w = (case s_prev (sockets w s) of
                None \<Rightarrow> upd_loop (ld_low_prio_head_update (\<lambda>_. s_next (sockets w s))) w
              | Some p \<Rightarrow> upd_s p (s_next_update (\<lambda>_. s_next (sockets w s))) w)
     in (case s_next (sockets w s) of
           Some n \<Rightarrow> upd_s n (s_prev_update (\<lambda>_. s_prev (sockets w s))) w | None \<Rightarrow> w))"

subsection \<open>What the operations leave alone\<close>

lemma sweep_count_enable [simp]:
  "ld_sweep_timer_count (loop (us_internal_enable_sweep_timer w)) = ld_sweep_timer_count (loop w) + 1"
  by (simp add: us_internal_enable_sweep_timer_def Let_def)

lemma sweep_count_disable [simp]:
  "ld_sweep_timer_count (loop (us_internal_disable_sweep_timer w)) = ld_sweep_timer_count (loop w) - 1"
  by (simp add: us_internal_disable_sweep_timer_def Let_def)

lemma enable_sweep_frame [simp]:
  "sockets (us_internal_enable_sweep_timer w) = sockets w"
  "conns (us_internal_enable_sweep_timer w) = conns w"
  "listeners (us_internal_enable_sweep_timer w) = listeners w"
  "groups (us_internal_enable_sweep_timer w) = groups w"
  "udps (us_internal_enable_sweep_timer w) = udps w"
  "heap_tag (us_internal_enable_sweep_timer w) = heap_tag w"
  "next_addr (us_internal_enable_sweep_timer w) = next_addr w"
  "ld_sweep_timer (loop (us_internal_enable_sweep_timer w)) = ld_sweep_timer (loop w)"
  "ld_wakeup_async (loop (us_internal_enable_sweep_timer w)) = ld_wakeup_async (loop w)"
  "ld_head (loop (us_internal_enable_sweep_timer w)) = ld_head (loop w)"
  "ld_quic_head (loop (us_internal_enable_sweep_timer w)) = ld_quic_head (loop w)"
  "ld_quic_next_tick_us (loop (us_internal_enable_sweep_timer w)) = ld_quic_next_tick_us (loop w)"
  "ld_iterator (loop (us_internal_enable_sweep_timer w)) = ld_iterator (loop w)"
  "ld_closed_udp_head (loop (us_internal_enable_sweep_timer w)) = ld_closed_udp_head (loop w)"
  "ld_closed_head (loop (us_internal_enable_sweep_timer w)) = ld_closed_head (loop w)"
  "ld_low_prio_head (loop (us_internal_enable_sweep_timer w)) = ld_low_prio_head (loop w)"
  "ld_low_prio_budget (loop (us_internal_enable_sweep_timer w)) = ld_low_prio_budget (loop w)"
  "ld_dns_ready_head (loop (us_internal_enable_sweep_timer w)) = ld_dns_ready_head (loop w)"
  "ld_closed_connecting_head (loop (us_internal_enable_sweep_timer w)) = ld_closed_connecting_head (loop w)"
  "ld_iteration_nr (loop (us_internal_enable_sweep_timer w)) = ld_iteration_nr (loop w)"
  "ld_jsc_vm (loop (us_internal_enable_sweep_timer w)) = ld_jsc_vm (loop w)"
  "ld_ssl_inited (loop (us_internal_enable_sweep_timer w)) = ld_ssl_inited (loop w)"
  "ld_ssl_socket (loop (us_internal_enable_sweep_timer w)) = ld_ssl_socket (loop w)"
  "ld_ssl_read_input (loop (us_internal_enable_sweep_timer w)) = ld_ssl_read_input (loop w)"
  "ld_ssl_read_input_offset (loop (us_internal_enable_sweep_timer w)) = ld_ssl_read_input_offset (loop w)"
  "ld_ssl_read_input_length (loop (us_internal_enable_sweep_timer w)) = ld_ssl_read_input_length (loop w)"
  "ld_tick_depth (loop (us_internal_enable_sweep_timer w)) = ld_tick_depth (loop w)"
  "lp_num_polls (loop (us_internal_enable_sweep_timer w)) = lp_num_polls (loop w)"
  "lp_num_ready_polls (loop (us_internal_enable_sweep_timer w)) = lp_num_ready_polls (loop w)"
  "lp_current_ready_poll (loop (us_internal_enable_sweep_timer w)) = lp_current_ready_poll (loop w)"
  "lp_fd (loop (us_internal_enable_sweep_timer w)) = lp_fd (loop w)"
  "lp_pending_wakeups (loop (us_internal_enable_sweep_timer w)) = lp_pending_wakeups (loop w)"
  "lp_has_epoll_pwait2 (loop (us_internal_enable_sweep_timer w)) = lp_has_epoll_pwait2 (loop w)"
  by (simp_all add: us_internal_enable_sweep_timer_def Let_def)

lemma disable_sweep_frame [simp]:
  "sockets (us_internal_disable_sweep_timer w) = sockets w"
  "conns (us_internal_disable_sweep_timer w) = conns w"
  "listeners (us_internal_disable_sweep_timer w) = listeners w"
  "groups (us_internal_disable_sweep_timer w) = groups w"
  "udps (us_internal_disable_sweep_timer w) = udps w"
  "heap_tag (us_internal_disable_sweep_timer w) = heap_tag w"
  "next_addr (us_internal_disable_sweep_timer w) = next_addr w"
  "ld_sweep_timer (loop (us_internal_disable_sweep_timer w)) = ld_sweep_timer (loop w)"
  "ld_wakeup_async (loop (us_internal_disable_sweep_timer w)) = ld_wakeup_async (loop w)"
  "ld_head (loop (us_internal_disable_sweep_timer w)) = ld_head (loop w)"
  "ld_quic_head (loop (us_internal_disable_sweep_timer w)) = ld_quic_head (loop w)"
  "ld_quic_next_tick_us (loop (us_internal_disable_sweep_timer w)) = ld_quic_next_tick_us (loop w)"
  "ld_iterator (loop (us_internal_disable_sweep_timer w)) = ld_iterator (loop w)"
  "ld_closed_udp_head (loop (us_internal_disable_sweep_timer w)) = ld_closed_udp_head (loop w)"
  "ld_closed_head (loop (us_internal_disable_sweep_timer w)) = ld_closed_head (loop w)"
  "ld_low_prio_head (loop (us_internal_disable_sweep_timer w)) = ld_low_prio_head (loop w)"
  "ld_low_prio_budget (loop (us_internal_disable_sweep_timer w)) = ld_low_prio_budget (loop w)"
  "ld_dns_ready_head (loop (us_internal_disable_sweep_timer w)) = ld_dns_ready_head (loop w)"
  "ld_closed_connecting_head (loop (us_internal_disable_sweep_timer w)) = ld_closed_connecting_head (loop w)"
  "ld_iteration_nr (loop (us_internal_disable_sweep_timer w)) = ld_iteration_nr (loop w)"
  "ld_jsc_vm (loop (us_internal_disable_sweep_timer w)) = ld_jsc_vm (loop w)"
  "ld_ssl_inited (loop (us_internal_disable_sweep_timer w)) = ld_ssl_inited (loop w)"
  "ld_ssl_socket (loop (us_internal_disable_sweep_timer w)) = ld_ssl_socket (loop w)"
  "ld_ssl_read_input (loop (us_internal_disable_sweep_timer w)) = ld_ssl_read_input (loop w)"
  "ld_ssl_read_input_offset (loop (us_internal_disable_sweep_timer w)) = ld_ssl_read_input_offset (loop w)"
  "ld_ssl_read_input_length (loop (us_internal_disable_sweep_timer w)) = ld_ssl_read_input_length (loop w)"
  "ld_tick_depth (loop (us_internal_disable_sweep_timer w)) = ld_tick_depth (loop w)"
  "lp_num_polls (loop (us_internal_disable_sweep_timer w)) = lp_num_polls (loop w)"
  "lp_num_ready_polls (loop (us_internal_disable_sweep_timer w)) = lp_num_ready_polls (loop w)"
  "lp_current_ready_poll (loop (us_internal_disable_sweep_timer w)) = lp_current_ready_poll (loop w)"
  "lp_fd (loop (us_internal_disable_sweep_timer w)) = lp_fd (loop w)"
  "lp_pending_wakeups (loop (us_internal_disable_sweep_timer w)) = lp_pending_wakeups (loop w)"
  "lp_has_epoll_pwait2 (loop (us_internal_disable_sweep_timer w)) = lp_has_epoll_pwait2 (loop w)"
  by (simp_all add: us_internal_disable_sweep_timer_def Let_def)

lemma link_group_frame [simp]:
  "kern (us_internal_loop_link_group g w) = kern w"
  "polls (us_internal_loop_link_group g w) = polls w"
  "callbacks (us_internal_loop_link_group g w) = callbacks w"
  "sockets (us_internal_loop_link_group g w) = sockets w"
  "conns (us_internal_loop_link_group g w) = conns w"
  "listeners (us_internal_loop_link_group g w) = listeners w"
  "udps (us_internal_loop_link_group g w) = udps w"
  "heap_tag (us_internal_loop_link_group g w) = heap_tag w"
  "next_addr (us_internal_loop_link_group g w) = next_addr w"
  "g_vtable (groups (us_internal_loop_link_group g w) x) = g_vtable (groups w x)"
  "g_ext (groups (us_internal_loop_link_group g w) x) = g_ext (groups w x)"
  "g_head_sockets (groups (us_internal_loop_link_group g w) x) = g_head_sockets (groups w x)"
  "g_head_connecting_sockets (groups (us_internal_loop_link_group g w) x) = g_head_connecting_sockets (groups w x)"
  "g_head_listen_sockets (groups (us_internal_loop_link_group g w) x) = g_head_listen_sockets (groups w x)"
  "g_iterator (groups (us_internal_loop_link_group g w) x) = g_iterator (groups w x)"
  "g_global_tick (groups (us_internal_loop_link_group g w) x) = g_global_tick (groups w x)"
  "g_low_prio_count (groups (us_internal_loop_link_group g w) x) = g_low_prio_count (groups w x)"
  "g_timestamp (groups (us_internal_loop_link_group g w) x) = g_timestamp (groups w x)"
  "g_long_timestamp (groups (us_internal_loop_link_group g w) x) = g_long_timestamp (groups w x)"
  "g_linked (groups (us_internal_loop_link_group g w) x) = g_linked (groups w x)"
  "ld_sweep_timer (loop (us_internal_loop_link_group g w)) = ld_sweep_timer (loop w)"
  "ld_sweep_timer_count (loop (us_internal_loop_link_group g w)) = ld_sweep_timer_count (loop w)"
  "ld_wakeup_async (loop (us_internal_loop_link_group g w)) = ld_wakeup_async (loop w)"
  "ld_quic_head (loop (us_internal_loop_link_group g w)) = ld_quic_head (loop w)"
  "ld_quic_next_tick_us (loop (us_internal_loop_link_group g w)) = ld_quic_next_tick_us (loop w)"
  "ld_iterator (loop (us_internal_loop_link_group g w)) = ld_iterator (loop w)"
  "ld_closed_udp_head (loop (us_internal_loop_link_group g w)) = ld_closed_udp_head (loop w)"
  "ld_closed_head (loop (us_internal_loop_link_group g w)) = ld_closed_head (loop w)"
  "ld_low_prio_head (loop (us_internal_loop_link_group g w)) = ld_low_prio_head (loop w)"
  "ld_low_prio_budget (loop (us_internal_loop_link_group g w)) = ld_low_prio_budget (loop w)"
  "ld_dns_ready_head (loop (us_internal_loop_link_group g w)) = ld_dns_ready_head (loop w)"
  "ld_closed_connecting_head (loop (us_internal_loop_link_group g w)) = ld_closed_connecting_head (loop w)"
  "ld_iteration_nr (loop (us_internal_loop_link_group g w)) = ld_iteration_nr (loop w)"
  "ld_jsc_vm (loop (us_internal_loop_link_group g w)) = ld_jsc_vm (loop w)"
  "ld_ssl_inited (loop (us_internal_loop_link_group g w)) = ld_ssl_inited (loop w)"
  "ld_ssl_socket (loop (us_internal_loop_link_group g w)) = ld_ssl_socket (loop w)"
  "ld_ssl_read_input (loop (us_internal_loop_link_group g w)) = ld_ssl_read_input (loop w)"
  "ld_ssl_read_input_offset (loop (us_internal_loop_link_group g w)) = ld_ssl_read_input_offset (loop w)"
  "ld_ssl_read_input_length (loop (us_internal_loop_link_group g w)) = ld_ssl_read_input_length (loop w)"
  "ld_tick_depth (loop (us_internal_loop_link_group g w)) = ld_tick_depth (loop w)"
  "lp_num_polls (loop (us_internal_loop_link_group g w)) = lp_num_polls (loop w)"
  "lp_num_ready_polls (loop (us_internal_loop_link_group g w)) = lp_num_ready_polls (loop w)"
  "lp_current_ready_poll (loop (us_internal_loop_link_group g w)) = lp_current_ready_poll (loop w)"
  "lp_fd (loop (us_internal_loop_link_group g w)) = lp_fd (loop w)"
  "lp_pending_wakeups (loop (us_internal_loop_link_group g w)) = lp_pending_wakeups (loop w)"
  "lp_has_epoll_pwait2 (loop (us_internal_loop_link_group g w)) = lp_has_epoll_pwait2 (loop w)"
  by (auto simp: us_internal_loop_link_group_def Let_def split: option.splits)

lemma unlink_group_frame [simp]:
  "kern (us_internal_loop_unlink_group g w) = kern w"
  "polls (us_internal_loop_unlink_group g w) = polls w"
  "callbacks (us_internal_loop_unlink_group g w) = callbacks w"
  "sockets (us_internal_loop_unlink_group g w) = sockets w"
  "conns (us_internal_loop_unlink_group g w) = conns w"
  "listeners (us_internal_loop_unlink_group g w) = listeners w"
  "udps (us_internal_loop_unlink_group g w) = udps w"
  "heap_tag (us_internal_loop_unlink_group g w) = heap_tag w"
  "next_addr (us_internal_loop_unlink_group g w) = next_addr w"
  "g_vtable (groups (us_internal_loop_unlink_group g w) x) = g_vtable (groups w x)"
  "g_ext (groups (us_internal_loop_unlink_group g w) x) = g_ext (groups w x)"
  "g_head_sockets (groups (us_internal_loop_unlink_group g w) x) = g_head_sockets (groups w x)"
  "g_head_connecting_sockets (groups (us_internal_loop_unlink_group g w) x) = g_head_connecting_sockets (groups w x)"
  "g_head_listen_sockets (groups (us_internal_loop_unlink_group g w) x) = g_head_listen_sockets (groups w x)"
  "g_iterator (groups (us_internal_loop_unlink_group g w) x) = g_iterator (groups w x)"
  "g_global_tick (groups (us_internal_loop_unlink_group g w) x) = g_global_tick (groups w x)"
  "g_low_prio_count (groups (us_internal_loop_unlink_group g w) x) = g_low_prio_count (groups w x)"
  "g_timestamp (groups (us_internal_loop_unlink_group g w) x) = g_timestamp (groups w x)"
  "g_long_timestamp (groups (us_internal_loop_unlink_group g w) x) = g_long_timestamp (groups w x)"
  "g_linked (groups (us_internal_loop_unlink_group g w) x) = g_linked (groups w x)"
  "ld_sweep_timer (loop (us_internal_loop_unlink_group g w)) = ld_sweep_timer (loop w)"
  "ld_sweep_timer_count (loop (us_internal_loop_unlink_group g w)) = ld_sweep_timer_count (loop w)"
  "ld_wakeup_async (loop (us_internal_loop_unlink_group g w)) = ld_wakeup_async (loop w)"
  "ld_quic_head (loop (us_internal_loop_unlink_group g w)) = ld_quic_head (loop w)"
  "ld_quic_next_tick_us (loop (us_internal_loop_unlink_group g w)) = ld_quic_next_tick_us (loop w)"
  "ld_closed_udp_head (loop (us_internal_loop_unlink_group g w)) = ld_closed_udp_head (loop w)"
  "ld_closed_head (loop (us_internal_loop_unlink_group g w)) = ld_closed_head (loop w)"
  "ld_low_prio_head (loop (us_internal_loop_unlink_group g w)) = ld_low_prio_head (loop w)"
  "ld_low_prio_budget (loop (us_internal_loop_unlink_group g w)) = ld_low_prio_budget (loop w)"
  "ld_dns_ready_head (loop (us_internal_loop_unlink_group g w)) = ld_dns_ready_head (loop w)"
  "ld_closed_connecting_head (loop (us_internal_loop_unlink_group g w)) = ld_closed_connecting_head (loop w)"
  "ld_iteration_nr (loop (us_internal_loop_unlink_group g w)) = ld_iteration_nr (loop w)"
  "ld_jsc_vm (loop (us_internal_loop_unlink_group g w)) = ld_jsc_vm (loop w)"
  "ld_ssl_inited (loop (us_internal_loop_unlink_group g w)) = ld_ssl_inited (loop w)"
  "ld_ssl_socket (loop (us_internal_loop_unlink_group g w)) = ld_ssl_socket (loop w)"
  "ld_ssl_read_input (loop (us_internal_loop_unlink_group g w)) = ld_ssl_read_input (loop w)"
  "ld_ssl_read_input_offset (loop (us_internal_loop_unlink_group g w)) = ld_ssl_read_input_offset (loop w)"
  "ld_ssl_read_input_length (loop (us_internal_loop_unlink_group g w)) = ld_ssl_read_input_length (loop w)"
  "ld_tick_depth (loop (us_internal_loop_unlink_group g w)) = ld_tick_depth (loop w)"
  "lp_num_polls (loop (us_internal_loop_unlink_group g w)) = lp_num_polls (loop w)"
  "lp_num_ready_polls (loop (us_internal_loop_unlink_group g w)) = lp_num_ready_polls (loop w)"
  "lp_current_ready_poll (loop (us_internal_loop_unlink_group g w)) = lp_current_ready_poll (loop w)"
  "lp_fd (loop (us_internal_loop_unlink_group g w)) = lp_fd (loop w)"
  "lp_pending_wakeups (loop (us_internal_loop_unlink_group g w)) = lp_pending_wakeups (loop w)"
  "lp_has_epoll_pwait2 (loop (us_internal_loop_unlink_group g w)) = lp_has_epoll_pwait2 (loop w)"
  by (auto simp: us_internal_loop_unlink_group_def Let_def split: option.splits)

lemma touched_frame [simp]:
  "kern (us_internal_group_touched g w) = kern w"
  "polls (us_internal_group_touched g w) = polls w"
  "callbacks (us_internal_group_touched g w) = callbacks w"
  "sockets (us_internal_group_touched g w) = sockets w"
  "conns (us_internal_group_touched g w) = conns w"
  "listeners (us_internal_group_touched g w) = listeners w"
  "udps (us_internal_group_touched g w) = udps w"
  "heap_tag (us_internal_group_touched g w) = heap_tag w"
  "next_addr (us_internal_group_touched g w) = next_addr w"
  "g_vtable (groups (us_internal_group_touched g w) x) = g_vtable (groups w x)"
  "g_ext (groups (us_internal_group_touched g w) x) = g_ext (groups w x)"
  "g_head_sockets (groups (us_internal_group_touched g w) x) = g_head_sockets (groups w x)"
  "g_head_connecting_sockets (groups (us_internal_group_touched g w) x) = g_head_connecting_sockets (groups w x)"
  "g_head_listen_sockets (groups (us_internal_group_touched g w) x) = g_head_listen_sockets (groups w x)"
  "g_iterator (groups (us_internal_group_touched g w) x) = g_iterator (groups w x)"
  "g_global_tick (groups (us_internal_group_touched g w) x) = g_global_tick (groups w x)"
  "g_low_prio_count (groups (us_internal_group_touched g w) x) = g_low_prio_count (groups w x)"
  "g_timestamp (groups (us_internal_group_touched g w) x) = g_timestamp (groups w x)"
  "g_long_timestamp (groups (us_internal_group_touched g w) x) = g_long_timestamp (groups w x)"
  "ld_sweep_timer (loop (us_internal_group_touched g w)) = ld_sweep_timer (loop w)"
  "ld_sweep_timer_count (loop (us_internal_group_touched g w)) = ld_sweep_timer_count (loop w)"
  "ld_wakeup_async (loop (us_internal_group_touched g w)) = ld_wakeup_async (loop w)"
  "ld_quic_head (loop (us_internal_group_touched g w)) = ld_quic_head (loop w)"
  "ld_quic_next_tick_us (loop (us_internal_group_touched g w)) = ld_quic_next_tick_us (loop w)"
  "ld_iterator (loop (us_internal_group_touched g w)) = ld_iterator (loop w)"
  "ld_closed_udp_head (loop (us_internal_group_touched g w)) = ld_closed_udp_head (loop w)"
  "ld_closed_head (loop (us_internal_group_touched g w)) = ld_closed_head (loop w)"
  "ld_low_prio_head (loop (us_internal_group_touched g w)) = ld_low_prio_head (loop w)"
  "ld_low_prio_budget (loop (us_internal_group_touched g w)) = ld_low_prio_budget (loop w)"
  "ld_dns_ready_head (loop (us_internal_group_touched g w)) = ld_dns_ready_head (loop w)"
  "ld_closed_connecting_head (loop (us_internal_group_touched g w)) = ld_closed_connecting_head (loop w)"
  "ld_iteration_nr (loop (us_internal_group_touched g w)) = ld_iteration_nr (loop w)"
  "ld_jsc_vm (loop (us_internal_group_touched g w)) = ld_jsc_vm (loop w)"
  "ld_ssl_inited (loop (us_internal_group_touched g w)) = ld_ssl_inited (loop w)"
  "ld_ssl_socket (loop (us_internal_group_touched g w)) = ld_ssl_socket (loop w)"
  "ld_ssl_read_input (loop (us_internal_group_touched g w)) = ld_ssl_read_input (loop w)"
  "ld_ssl_read_input_offset (loop (us_internal_group_touched g w)) = ld_ssl_read_input_offset (loop w)"
  "ld_ssl_read_input_length (loop (us_internal_group_touched g w)) = ld_ssl_read_input_length (loop w)"
  "ld_tick_depth (loop (us_internal_group_touched g w)) = ld_tick_depth (loop w)"
  "lp_num_polls (loop (us_internal_group_touched g w)) = lp_num_polls (loop w)"
  "lp_num_ready_polls (loop (us_internal_group_touched g w)) = lp_num_ready_polls (loop w)"
  "lp_current_ready_poll (loop (us_internal_group_touched g w)) = lp_current_ready_poll (loop w)"
  "lp_fd (loop (us_internal_group_touched g w)) = lp_fd (loop w)"
  "lp_pending_wakeups (loop (us_internal_group_touched g w)) = lp_pending_wakeups (loop w)"
  "lp_has_epoll_pwait2 (loop (us_internal_group_touched g w)) = lp_has_epoll_pwait2 (loop w)"
  by (auto simp: us_internal_group_touched_def)

lemma maybe_unlink_frame [simp]:
  "kern (us_internal_group_maybe_unlink g w) = kern w"
  "polls (us_internal_group_maybe_unlink g w) = polls w"
  "callbacks (us_internal_group_maybe_unlink g w) = callbacks w"
  "sockets (us_internal_group_maybe_unlink g w) = sockets w"
  "conns (us_internal_group_maybe_unlink g w) = conns w"
  "listeners (us_internal_group_maybe_unlink g w) = listeners w"
  "udps (us_internal_group_maybe_unlink g w) = udps w"
  "heap_tag (us_internal_group_maybe_unlink g w) = heap_tag w"
  "next_addr (us_internal_group_maybe_unlink g w) = next_addr w"
  "g_vtable (groups (us_internal_group_maybe_unlink g w) x) = g_vtable (groups w x)"
  "g_ext (groups (us_internal_group_maybe_unlink g w) x) = g_ext (groups w x)"
  "g_head_sockets (groups (us_internal_group_maybe_unlink g w) x) = g_head_sockets (groups w x)"
  "g_head_connecting_sockets (groups (us_internal_group_maybe_unlink g w) x) = g_head_connecting_sockets (groups w x)"
  "g_head_listen_sockets (groups (us_internal_group_maybe_unlink g w) x) = g_head_listen_sockets (groups w x)"
  "g_iterator (groups (us_internal_group_maybe_unlink g w) x) = g_iterator (groups w x)"
  "g_global_tick (groups (us_internal_group_maybe_unlink g w) x) = g_global_tick (groups w x)"
  "g_low_prio_count (groups (us_internal_group_maybe_unlink g w) x) = g_low_prio_count (groups w x)"
  "g_timestamp (groups (us_internal_group_maybe_unlink g w) x) = g_timestamp (groups w x)"
  "g_long_timestamp (groups (us_internal_group_maybe_unlink g w) x) = g_long_timestamp (groups w x)"
  "ld_sweep_timer (loop (us_internal_group_maybe_unlink g w)) = ld_sweep_timer (loop w)"
  "ld_sweep_timer_count (loop (us_internal_group_maybe_unlink g w)) = ld_sweep_timer_count (loop w)"
  "ld_wakeup_async (loop (us_internal_group_maybe_unlink g w)) = ld_wakeup_async (loop w)"
  "ld_quic_head (loop (us_internal_group_maybe_unlink g w)) = ld_quic_head (loop w)"
  "ld_quic_next_tick_us (loop (us_internal_group_maybe_unlink g w)) = ld_quic_next_tick_us (loop w)"
  "ld_closed_udp_head (loop (us_internal_group_maybe_unlink g w)) = ld_closed_udp_head (loop w)"
  "ld_closed_head (loop (us_internal_group_maybe_unlink g w)) = ld_closed_head (loop w)"
  "ld_low_prio_head (loop (us_internal_group_maybe_unlink g w)) = ld_low_prio_head (loop w)"
  "ld_low_prio_budget (loop (us_internal_group_maybe_unlink g w)) = ld_low_prio_budget (loop w)"
  "ld_dns_ready_head (loop (us_internal_group_maybe_unlink g w)) = ld_dns_ready_head (loop w)"
  "ld_closed_connecting_head (loop (us_internal_group_maybe_unlink g w)) = ld_closed_connecting_head (loop w)"
  "ld_iteration_nr (loop (us_internal_group_maybe_unlink g w)) = ld_iteration_nr (loop w)"
  "ld_jsc_vm (loop (us_internal_group_maybe_unlink g w)) = ld_jsc_vm (loop w)"
  "ld_ssl_inited (loop (us_internal_group_maybe_unlink g w)) = ld_ssl_inited (loop w)"
  "ld_ssl_socket (loop (us_internal_group_maybe_unlink g w)) = ld_ssl_socket (loop w)"
  "ld_ssl_read_input (loop (us_internal_group_maybe_unlink g w)) = ld_ssl_read_input (loop w)"
  "ld_ssl_read_input_offset (loop (us_internal_group_maybe_unlink g w)) = ld_ssl_read_input_offset (loop w)"
  "ld_ssl_read_input_length (loop (us_internal_group_maybe_unlink g w)) = ld_ssl_read_input_length (loop w)"
  "ld_tick_depth (loop (us_internal_group_maybe_unlink g w)) = ld_tick_depth (loop w)"
  "lp_num_polls (loop (us_internal_group_maybe_unlink g w)) = lp_num_polls (loop w)"
  "lp_num_ready_polls (loop (us_internal_group_maybe_unlink g w)) = lp_num_ready_polls (loop w)"
  "lp_current_ready_poll (loop (us_internal_group_maybe_unlink g w)) = lp_current_ready_poll (loop w)"
  "lp_fd (loop (us_internal_group_maybe_unlink g w)) = lp_fd (loop w)"
  "lp_pending_wakeups (loop (us_internal_group_maybe_unlink g w)) = lp_pending_wakeups (loop w)"
  "lp_has_epoll_pwait2 (loop (us_internal_group_maybe_unlink g w)) = lp_has_epoll_pwait2 (loop w)"
  by (auto simp: us_internal_group_maybe_unlink_def)

lemma deinit_frame [simp]:
  "kern (us_socket_group_deinit g w) = kern w"
  "polls (us_socket_group_deinit g w) = polls w"
  "callbacks (us_socket_group_deinit g w) = callbacks w"
  "sockets (us_socket_group_deinit g w) = sockets w"
  "conns (us_socket_group_deinit g w) = conns w"
  "listeners (us_socket_group_deinit g w) = listeners w"
  "udps (us_socket_group_deinit g w) = udps w"
  "heap_tag (us_socket_group_deinit g w) = heap_tag w"
  "next_addr (us_socket_group_deinit g w) = next_addr w"
  "g_vtable (groups (us_socket_group_deinit g w) x) = g_vtable (groups w x)"
  "g_ext (groups (us_socket_group_deinit g w) x) = g_ext (groups w x)"
  "g_head_sockets (groups (us_socket_group_deinit g w) x) = g_head_sockets (groups w x)"
  "g_head_connecting_sockets (groups (us_socket_group_deinit g w) x) = g_head_connecting_sockets (groups w x)"
  "g_head_listen_sockets (groups (us_socket_group_deinit g w) x) = g_head_listen_sockets (groups w x)"
  "g_iterator (groups (us_socket_group_deinit g w) x) = g_iterator (groups w x)"
  "g_global_tick (groups (us_socket_group_deinit g w) x) = g_global_tick (groups w x)"
  "g_low_prio_count (groups (us_socket_group_deinit g w) x) = g_low_prio_count (groups w x)"
  "g_timestamp (groups (us_socket_group_deinit g w) x) = g_timestamp (groups w x)"
  "g_long_timestamp (groups (us_socket_group_deinit g w) x) = g_long_timestamp (groups w x)"
  "ld_sweep_timer (loop (us_socket_group_deinit g w)) = ld_sweep_timer (loop w)"
  "ld_sweep_timer_count (loop (us_socket_group_deinit g w)) = ld_sweep_timer_count (loop w)"
  "ld_wakeup_async (loop (us_socket_group_deinit g w)) = ld_wakeup_async (loop w)"
  "ld_quic_head (loop (us_socket_group_deinit g w)) = ld_quic_head (loop w)"
  "ld_quic_next_tick_us (loop (us_socket_group_deinit g w)) = ld_quic_next_tick_us (loop w)"
  "ld_closed_udp_head (loop (us_socket_group_deinit g w)) = ld_closed_udp_head (loop w)"
  "ld_closed_head (loop (us_socket_group_deinit g w)) = ld_closed_head (loop w)"
  "ld_low_prio_head (loop (us_socket_group_deinit g w)) = ld_low_prio_head (loop w)"
  "ld_low_prio_budget (loop (us_socket_group_deinit g w)) = ld_low_prio_budget (loop w)"
  "ld_dns_ready_head (loop (us_socket_group_deinit g w)) = ld_dns_ready_head (loop w)"
  "ld_closed_connecting_head (loop (us_socket_group_deinit g w)) = ld_closed_connecting_head (loop w)"
  "ld_iteration_nr (loop (us_socket_group_deinit g w)) = ld_iteration_nr (loop w)"
  "ld_jsc_vm (loop (us_socket_group_deinit g w)) = ld_jsc_vm (loop w)"
  "ld_ssl_inited (loop (us_socket_group_deinit g w)) = ld_ssl_inited (loop w)"
  "ld_ssl_socket (loop (us_socket_group_deinit g w)) = ld_ssl_socket (loop w)"
  "ld_ssl_read_input (loop (us_socket_group_deinit g w)) = ld_ssl_read_input (loop w)"
  "ld_ssl_read_input_offset (loop (us_socket_group_deinit g w)) = ld_ssl_read_input_offset (loop w)"
  "ld_ssl_read_input_length (loop (us_socket_group_deinit g w)) = ld_ssl_read_input_length (loop w)"
  "ld_tick_depth (loop (us_socket_group_deinit g w)) = ld_tick_depth (loop w)"
  "lp_num_polls (loop (us_socket_group_deinit g w)) = lp_num_polls (loop w)"
  "lp_num_ready_polls (loop (us_socket_group_deinit g w)) = lp_num_ready_polls (loop w)"
  "lp_current_ready_poll (loop (us_socket_group_deinit g w)) = lp_current_ready_poll (loop w)"
  "lp_fd (loop (us_socket_group_deinit g w)) = lp_fd (loop w)"
  "lp_pending_wakeups (loop (us_socket_group_deinit g w)) = lp_pending_wakeups (loop w)"
  "lp_has_epoll_pwait2 (loop (us_socket_group_deinit g w)) = lp_has_epoll_pwait2 (loop w)"
  by (auto simp: us_socket_group_deinit_def)

lemma link_socket_fields [simp]:
  "s_timeout (sockets (us_internal_socket_group_link_socket g s w) x) = s_timeout (sockets w x)"
  "s_long_timeout (sockets (us_internal_socket_group_link_socket g s w) x) = s_long_timeout (sockets w x)"
  "s_is_paused (sockets (us_internal_socket_group_link_socket g s w) x) = s_is_paused (sockets w x)"
  "s_allow_half_open (sockets (us_internal_socket_group_link_socket g s w) x) = s_allow_half_open (sockets w x)"
  "s_low_prio_state (sockets (us_internal_socket_group_link_socket g s w) x) = s_low_prio_state (sockets w x)"
  "s_is_ipc (sockets (us_internal_socket_group_link_socket g s w) x) = s_is_ipc (sockets w x)"
  "s_is_closed (sockets (us_internal_socket_group_link_socket g s w) x) = s_is_closed (sockets w x)"
  "s_adopted (sockets (us_internal_socket_group_link_socket g s w) x) = s_adopted (sockets w x)"
  "s_last_write_failed (sockets (us_internal_socket_group_link_socket g s w) x) = s_last_write_failed (sockets w x)"
  "s_kind (sockets (us_internal_socket_group_link_socket g s w) x) = s_kind (sockets w x)"
  "s_ssl_handshake_state (sockets (us_internal_socket_group_link_socket g s w) x) = s_ssl_handshake_state (sockets w x)"
  "s_ssl_write_wants_read (sockets (us_internal_socket_group_link_socket g s w) x) = s_ssl_write_wants_read (sockets w x)"
  "s_ssl_read_wants_write (sockets (us_internal_socket_group_link_socket g s w) x) = s_ssl_read_wants_write (sockets w x)"
  "s_ssl_fatal_error (sockets (us_internal_socket_group_link_socket g s w) x) = s_ssl_fatal_error (sockets w x)"
  "s_ssl_is_server (sockets (us_internal_socket_group_link_socket g s w) x) = s_ssl_is_server (sockets w x)"
  "s_ssl_raw_tap (sockets (us_internal_socket_group_link_socket g s w) x) = s_ssl_raw_tap (sockets w x)"
  "s_ssl (sockets (us_internal_socket_group_link_socket g s w) x) = s_ssl (sockets w x)"
  "s_connect_next (sockets (us_internal_socket_group_link_socket g s w) x) = s_connect_next (sockets w x)"
  "s_connect_state (sockets (us_internal_socket_group_link_socket g s w) x) = s_connect_state (sockets w x)"
  by (auto simp: us_internal_socket_group_link_socket_def Let_def split: option.splits)

lemma link_socket_group:
  "s_group (sockets (us_internal_socket_group_link_socket g s w) x) =
     (if x = s \<and> \<not> us_socket_is_closed s w then Some g else s_group (sockets w x))"
  by (auto simp: us_internal_socket_group_link_socket_def Let_def split: option.splits)

lemma unlink_socket_fields [simp]:
  "s_timeout (sockets (us_internal_socket_group_unlink_socket g s w) x) = s_timeout (sockets w x)"
  "s_long_timeout (sockets (us_internal_socket_group_unlink_socket g s w) x) = s_long_timeout (sockets w x)"
  "s_is_paused (sockets (us_internal_socket_group_unlink_socket g s w) x) = s_is_paused (sockets w x)"
  "s_allow_half_open (sockets (us_internal_socket_group_unlink_socket g s w) x) = s_allow_half_open (sockets w x)"
  "s_low_prio_state (sockets (us_internal_socket_group_unlink_socket g s w) x) = s_low_prio_state (sockets w x)"
  "s_is_ipc (sockets (us_internal_socket_group_unlink_socket g s w) x) = s_is_ipc (sockets w x)"
  "s_is_closed (sockets (us_internal_socket_group_unlink_socket g s w) x) = s_is_closed (sockets w x)"
  "s_adopted (sockets (us_internal_socket_group_unlink_socket g s w) x) = s_adopted (sockets w x)"
  "s_last_write_failed (sockets (us_internal_socket_group_unlink_socket g s w) x) = s_last_write_failed (sockets w x)"
  "s_kind (sockets (us_internal_socket_group_unlink_socket g s w) x) = s_kind (sockets w x)"
  "s_ssl_handshake_state (sockets (us_internal_socket_group_unlink_socket g s w) x) = s_ssl_handshake_state (sockets w x)"
  "s_ssl_write_wants_read (sockets (us_internal_socket_group_unlink_socket g s w) x) = s_ssl_write_wants_read (sockets w x)"
  "s_ssl_read_wants_write (sockets (us_internal_socket_group_unlink_socket g s w) x) = s_ssl_read_wants_write (sockets w x)"
  "s_ssl_fatal_error (sockets (us_internal_socket_group_unlink_socket g s w) x) = s_ssl_fatal_error (sockets w x)"
  "s_ssl_is_server (sockets (us_internal_socket_group_unlink_socket g s w) x) = s_ssl_is_server (sockets w x)"
  "s_ssl_raw_tap (sockets (us_internal_socket_group_unlink_socket g s w) x) = s_ssl_raw_tap (sockets w x)"
  "s_group (sockets (us_internal_socket_group_unlink_socket g s w) x) = s_group (sockets w x)"
  "s_ssl (sockets (us_internal_socket_group_unlink_socket g s w) x) = s_ssl (sockets w x)"
  "s_connect_next (sockets (us_internal_socket_group_unlink_socket g s w) x) = s_connect_next (sockets w x)"
  "s_connect_state (sockets (us_internal_socket_group_unlink_socket g s w) x) = s_connect_state (sockets w x)"
  by (auto simp: us_internal_socket_group_unlink_socket_def unlink_socket_chain_def Let_def split: option.splits)

lemma link_socket_frame [simp]:
  "conns (us_internal_socket_group_link_socket g s w) = conns w"
  "listeners (us_internal_socket_group_link_socket g s w) = listeners w"
  "udps (us_internal_socket_group_link_socket g s w) = udps w"
  "heap_tag (us_internal_socket_group_link_socket g s w) = heap_tag w"
  "next_addr (us_internal_socket_group_link_socket g s w) = next_addr w"
  "g_vtable (groups (us_internal_socket_group_link_socket g s w) x) = g_vtable (groups w x)"
  "g_ext (groups (us_internal_socket_group_link_socket g s w) x) = g_ext (groups w x)"
  "g_head_connecting_sockets (groups (us_internal_socket_group_link_socket g s w) x) = g_head_connecting_sockets (groups w x)"
  "g_head_listen_sockets (groups (us_internal_socket_group_link_socket g s w) x) = g_head_listen_sockets (groups w x)"
  "g_global_tick (groups (us_internal_socket_group_link_socket g s w) x) = g_global_tick (groups w x)"
  "g_low_prio_count (groups (us_internal_socket_group_link_socket g s w) x) = g_low_prio_count (groups w x)"
  "g_timestamp (groups (us_internal_socket_group_link_socket g s w) x) = g_timestamp (groups w x)"
  "g_long_timestamp (groups (us_internal_socket_group_link_socket g s w) x) = g_long_timestamp (groups w x)"
  "g_iterator (groups (us_internal_socket_group_link_socket g s w) x) = g_iterator (groups w x)"
  "ld_sweep_timer (loop (us_internal_socket_group_link_socket g s w)) = ld_sweep_timer (loop w)"
  "ld_wakeup_async (loop (us_internal_socket_group_link_socket g s w)) = ld_wakeup_async (loop w)"
  "ld_quic_head (loop (us_internal_socket_group_link_socket g s w)) = ld_quic_head (loop w)"
  "ld_quic_next_tick_us (loop (us_internal_socket_group_link_socket g s w)) = ld_quic_next_tick_us (loop w)"
  "ld_closed_udp_head (loop (us_internal_socket_group_link_socket g s w)) = ld_closed_udp_head (loop w)"
  "ld_closed_head (loop (us_internal_socket_group_link_socket g s w)) = ld_closed_head (loop w)"
  "ld_low_prio_head (loop (us_internal_socket_group_link_socket g s w)) = ld_low_prio_head (loop w)"
  "ld_low_prio_budget (loop (us_internal_socket_group_link_socket g s w)) = ld_low_prio_budget (loop w)"
  "ld_dns_ready_head (loop (us_internal_socket_group_link_socket g s w)) = ld_dns_ready_head (loop w)"
  "ld_closed_connecting_head (loop (us_internal_socket_group_link_socket g s w)) = ld_closed_connecting_head (loop w)"
  "ld_iteration_nr (loop (us_internal_socket_group_link_socket g s w)) = ld_iteration_nr (loop w)"
  "ld_jsc_vm (loop (us_internal_socket_group_link_socket g s w)) = ld_jsc_vm (loop w)"
  "ld_ssl_inited (loop (us_internal_socket_group_link_socket g s w)) = ld_ssl_inited (loop w)"
  "ld_ssl_socket (loop (us_internal_socket_group_link_socket g s w)) = ld_ssl_socket (loop w)"
  "ld_ssl_read_input (loop (us_internal_socket_group_link_socket g s w)) = ld_ssl_read_input (loop w)"
  "ld_ssl_read_input_offset (loop (us_internal_socket_group_link_socket g s w)) = ld_ssl_read_input_offset (loop w)"
  "ld_ssl_read_input_length (loop (us_internal_socket_group_link_socket g s w)) = ld_ssl_read_input_length (loop w)"
  "ld_tick_depth (loop (us_internal_socket_group_link_socket g s w)) = ld_tick_depth (loop w)"
  "lp_num_polls (loop (us_internal_socket_group_link_socket g s w)) = lp_num_polls (loop w)"
  "lp_num_ready_polls (loop (us_internal_socket_group_link_socket g s w)) = lp_num_ready_polls (loop w)"
  "lp_current_ready_poll (loop (us_internal_socket_group_link_socket g s w)) = lp_current_ready_poll (loop w)"
  "lp_fd (loop (us_internal_socket_group_link_socket g s w)) = lp_fd (loop w)"
  "lp_pending_wakeups (loop (us_internal_socket_group_link_socket g s w)) = lp_pending_wakeups (loop w)"
  "lp_has_epoll_pwait2 (loop (us_internal_socket_group_link_socket g s w)) = lp_has_epoll_pwait2 (loop w)"
  "ld_iterator (loop (us_internal_socket_group_link_socket g s w)) = ld_iterator (loop w)"
  by (auto simp: us_internal_socket_group_link_socket_def Let_def split: option.splits)

lemma unlink_socket_frame [simp]:
  "conns (us_internal_socket_group_unlink_socket g s w) = conns w"
  "listeners (us_internal_socket_group_unlink_socket g s w) = listeners w"
  "udps (us_internal_socket_group_unlink_socket g s w) = udps w"
  "heap_tag (us_internal_socket_group_unlink_socket g s w) = heap_tag w"
  "next_addr (us_internal_socket_group_unlink_socket g s w) = next_addr w"
  "g_vtable (groups (us_internal_socket_group_unlink_socket g s w) x) = g_vtable (groups w x)"
  "g_ext (groups (us_internal_socket_group_unlink_socket g s w) x) = g_ext (groups w x)"
  "g_head_connecting_sockets (groups (us_internal_socket_group_unlink_socket g s w) x) = g_head_connecting_sockets (groups w x)"
  "g_head_listen_sockets (groups (us_internal_socket_group_unlink_socket g s w) x) = g_head_listen_sockets (groups w x)"
  "g_global_tick (groups (us_internal_socket_group_unlink_socket g s w) x) = g_global_tick (groups w x)"
  "g_low_prio_count (groups (us_internal_socket_group_unlink_socket g s w) x) = g_low_prio_count (groups w x)"
  "g_timestamp (groups (us_internal_socket_group_unlink_socket g s w) x) = g_timestamp (groups w x)"
  "g_long_timestamp (groups (us_internal_socket_group_unlink_socket g s w) x) = g_long_timestamp (groups w x)"
  "ld_sweep_timer (loop (us_internal_socket_group_unlink_socket g s w)) = ld_sweep_timer (loop w)"
  "ld_wakeup_async (loop (us_internal_socket_group_unlink_socket g s w)) = ld_wakeup_async (loop w)"
  "ld_quic_head (loop (us_internal_socket_group_unlink_socket g s w)) = ld_quic_head (loop w)"
  "ld_quic_next_tick_us (loop (us_internal_socket_group_unlink_socket g s w)) = ld_quic_next_tick_us (loop w)"
  "ld_closed_udp_head (loop (us_internal_socket_group_unlink_socket g s w)) = ld_closed_udp_head (loop w)"
  "ld_closed_head (loop (us_internal_socket_group_unlink_socket g s w)) = ld_closed_head (loop w)"
  "ld_low_prio_head (loop (us_internal_socket_group_unlink_socket g s w)) = ld_low_prio_head (loop w)"
  "ld_low_prio_budget (loop (us_internal_socket_group_unlink_socket g s w)) = ld_low_prio_budget (loop w)"
  "ld_dns_ready_head (loop (us_internal_socket_group_unlink_socket g s w)) = ld_dns_ready_head (loop w)"
  "ld_closed_connecting_head (loop (us_internal_socket_group_unlink_socket g s w)) = ld_closed_connecting_head (loop w)"
  "ld_iteration_nr (loop (us_internal_socket_group_unlink_socket g s w)) = ld_iteration_nr (loop w)"
  "ld_jsc_vm (loop (us_internal_socket_group_unlink_socket g s w)) = ld_jsc_vm (loop w)"
  "ld_ssl_inited (loop (us_internal_socket_group_unlink_socket g s w)) = ld_ssl_inited (loop w)"
  "ld_ssl_socket (loop (us_internal_socket_group_unlink_socket g s w)) = ld_ssl_socket (loop w)"
  "ld_ssl_read_input (loop (us_internal_socket_group_unlink_socket g s w)) = ld_ssl_read_input (loop w)"
  "ld_ssl_read_input_offset (loop (us_internal_socket_group_unlink_socket g s w)) = ld_ssl_read_input_offset (loop w)"
  "ld_ssl_read_input_length (loop (us_internal_socket_group_unlink_socket g s w)) = ld_ssl_read_input_length (loop w)"
  "ld_tick_depth (loop (us_internal_socket_group_unlink_socket g s w)) = ld_tick_depth (loop w)"
  "lp_num_polls (loop (us_internal_socket_group_unlink_socket g s w)) = lp_num_polls (loop w)"
  "lp_num_ready_polls (loop (us_internal_socket_group_unlink_socket g s w)) = lp_num_ready_polls (loop w)"
  "lp_current_ready_poll (loop (us_internal_socket_group_unlink_socket g s w)) = lp_current_ready_poll (loop w)"
  "lp_fd (loop (us_internal_socket_group_unlink_socket g s w)) = lp_fd (loop w)"
  "lp_pending_wakeups (loop (us_internal_socket_group_unlink_socket g s w)) = lp_pending_wakeups (loop w)"
  "lp_has_epoll_pwait2 (loop (us_internal_socket_group_unlink_socket g s w)) = lp_has_epoll_pwait2 (loop w)"
  by (auto simp: us_internal_socket_group_unlink_socket_def unlink_socket_chain_def Let_def split: option.splits)

lemma link_connecting_frame [simp]:
  "sockets (us_internal_socket_group_link_connecting_socket g c w) = sockets w"
  "listeners (us_internal_socket_group_link_connecting_socket g c w) = listeners w"
  "udps (us_internal_socket_group_link_connecting_socket g c w) = udps w"
  "heap_tag (us_internal_socket_group_link_connecting_socket g c w) = heap_tag w"
  "next_addr (us_internal_socket_group_link_connecting_socket g c w) = next_addr w"
  "g_vtable (groups (us_internal_socket_group_link_connecting_socket g c w) x) = g_vtable (groups w x)"
  "g_ext (groups (us_internal_socket_group_link_connecting_socket g c w) x) = g_ext (groups w x)"
  "g_head_sockets (groups (us_internal_socket_group_link_connecting_socket g c w) x) = g_head_sockets (groups w x)"
  "g_head_listen_sockets (groups (us_internal_socket_group_link_connecting_socket g c w) x) = g_head_listen_sockets (groups w x)"
  "g_iterator (groups (us_internal_socket_group_link_connecting_socket g c w) x) = g_iterator (groups w x)"
  "g_global_tick (groups (us_internal_socket_group_link_connecting_socket g c w) x) = g_global_tick (groups w x)"
  "g_low_prio_count (groups (us_internal_socket_group_link_connecting_socket g c w) x) = g_low_prio_count (groups w x)"
  "g_timestamp (groups (us_internal_socket_group_link_connecting_socket g c w) x) = g_timestamp (groups w x)"
  "g_long_timestamp (groups (us_internal_socket_group_link_connecting_socket g c w) x) = g_long_timestamp (groups w x)"
  "ld_sweep_timer (loop (us_internal_socket_group_link_connecting_socket g c w)) = ld_sweep_timer (loop w)"
  "ld_wakeup_async (loop (us_internal_socket_group_link_connecting_socket g c w)) = ld_wakeup_async (loop w)"
  "ld_quic_head (loop (us_internal_socket_group_link_connecting_socket g c w)) = ld_quic_head (loop w)"
  "ld_quic_next_tick_us (loop (us_internal_socket_group_link_connecting_socket g c w)) = ld_quic_next_tick_us (loop w)"
  "ld_closed_udp_head (loop (us_internal_socket_group_link_connecting_socket g c w)) = ld_closed_udp_head (loop w)"
  "ld_closed_head (loop (us_internal_socket_group_link_connecting_socket g c w)) = ld_closed_head (loop w)"
  "ld_low_prio_head (loop (us_internal_socket_group_link_connecting_socket g c w)) = ld_low_prio_head (loop w)"
  "ld_low_prio_budget (loop (us_internal_socket_group_link_connecting_socket g c w)) = ld_low_prio_budget (loop w)"
  "ld_dns_ready_head (loop (us_internal_socket_group_link_connecting_socket g c w)) = ld_dns_ready_head (loop w)"
  "ld_closed_connecting_head (loop (us_internal_socket_group_link_connecting_socket g c w)) = ld_closed_connecting_head (loop w)"
  "ld_iteration_nr (loop (us_internal_socket_group_link_connecting_socket g c w)) = ld_iteration_nr (loop w)"
  "ld_jsc_vm (loop (us_internal_socket_group_link_connecting_socket g c w)) = ld_jsc_vm (loop w)"
  "ld_ssl_inited (loop (us_internal_socket_group_link_connecting_socket g c w)) = ld_ssl_inited (loop w)"
  "ld_ssl_socket (loop (us_internal_socket_group_link_connecting_socket g c w)) = ld_ssl_socket (loop w)"
  "ld_ssl_read_input (loop (us_internal_socket_group_link_connecting_socket g c w)) = ld_ssl_read_input (loop w)"
  "ld_ssl_read_input_offset (loop (us_internal_socket_group_link_connecting_socket g c w)) = ld_ssl_read_input_offset (loop w)"
  "ld_ssl_read_input_length (loop (us_internal_socket_group_link_connecting_socket g c w)) = ld_ssl_read_input_length (loop w)"
  "ld_tick_depth (loop (us_internal_socket_group_link_connecting_socket g c w)) = ld_tick_depth (loop w)"
  "lp_num_polls (loop (us_internal_socket_group_link_connecting_socket g c w)) = lp_num_polls (loop w)"
  "lp_num_ready_polls (loop (us_internal_socket_group_link_connecting_socket g c w)) = lp_num_ready_polls (loop w)"
  "lp_current_ready_poll (loop (us_internal_socket_group_link_connecting_socket g c w)) = lp_current_ready_poll (loop w)"
  "lp_fd (loop (us_internal_socket_group_link_connecting_socket g c w)) = lp_fd (loop w)"
  "lp_pending_wakeups (loop (us_internal_socket_group_link_connecting_socket g c w)) = lp_pending_wakeups (loop w)"
  "lp_has_epoll_pwait2 (loop (us_internal_socket_group_link_connecting_socket g c w)) = lp_has_epoll_pwait2 (loop w)"
  "ld_iterator (loop (us_internal_socket_group_link_connecting_socket g c w)) = ld_iterator (loop w)"
  by (auto simp: us_internal_socket_group_link_connecting_socket_def Let_def split: option.splits)

lemma unlink_connecting_frame [simp]:
  "sockets (us_internal_socket_group_unlink_connecting_socket g c w) = sockets w"
  "listeners (us_internal_socket_group_unlink_connecting_socket g c w) = listeners w"
  "udps (us_internal_socket_group_unlink_connecting_socket g c w) = udps w"
  "heap_tag (us_internal_socket_group_unlink_connecting_socket g c w) = heap_tag w"
  "next_addr (us_internal_socket_group_unlink_connecting_socket g c w) = next_addr w"
  "g_vtable (groups (us_internal_socket_group_unlink_connecting_socket g c w) x) = g_vtable (groups w x)"
  "g_ext (groups (us_internal_socket_group_unlink_connecting_socket g c w) x) = g_ext (groups w x)"
  "g_head_sockets (groups (us_internal_socket_group_unlink_connecting_socket g c w) x) = g_head_sockets (groups w x)"
  "g_head_listen_sockets (groups (us_internal_socket_group_unlink_connecting_socket g c w) x) = g_head_listen_sockets (groups w x)"
  "g_iterator (groups (us_internal_socket_group_unlink_connecting_socket g c w) x) = g_iterator (groups w x)"
  "g_global_tick (groups (us_internal_socket_group_unlink_connecting_socket g c w) x) = g_global_tick (groups w x)"
  "g_low_prio_count (groups (us_internal_socket_group_unlink_connecting_socket g c w) x) = g_low_prio_count (groups w x)"
  "g_timestamp (groups (us_internal_socket_group_unlink_connecting_socket g c w) x) = g_timestamp (groups w x)"
  "g_long_timestamp (groups (us_internal_socket_group_unlink_connecting_socket g c w) x) = g_long_timestamp (groups w x)"
  "ld_sweep_timer (loop (us_internal_socket_group_unlink_connecting_socket g c w)) = ld_sweep_timer (loop w)"
  "ld_wakeup_async (loop (us_internal_socket_group_unlink_connecting_socket g c w)) = ld_wakeup_async (loop w)"
  "ld_quic_head (loop (us_internal_socket_group_unlink_connecting_socket g c w)) = ld_quic_head (loop w)"
  "ld_quic_next_tick_us (loop (us_internal_socket_group_unlink_connecting_socket g c w)) = ld_quic_next_tick_us (loop w)"
  "ld_closed_udp_head (loop (us_internal_socket_group_unlink_connecting_socket g c w)) = ld_closed_udp_head (loop w)"
  "ld_closed_head (loop (us_internal_socket_group_unlink_connecting_socket g c w)) = ld_closed_head (loop w)"
  "ld_low_prio_head (loop (us_internal_socket_group_unlink_connecting_socket g c w)) = ld_low_prio_head (loop w)"
  "ld_low_prio_budget (loop (us_internal_socket_group_unlink_connecting_socket g c w)) = ld_low_prio_budget (loop w)"
  "ld_dns_ready_head (loop (us_internal_socket_group_unlink_connecting_socket g c w)) = ld_dns_ready_head (loop w)"
  "ld_closed_connecting_head (loop (us_internal_socket_group_unlink_connecting_socket g c w)) = ld_closed_connecting_head (loop w)"
  "ld_iteration_nr (loop (us_internal_socket_group_unlink_connecting_socket g c w)) = ld_iteration_nr (loop w)"
  "ld_jsc_vm (loop (us_internal_socket_group_unlink_connecting_socket g c w)) = ld_jsc_vm (loop w)"
  "ld_ssl_inited (loop (us_internal_socket_group_unlink_connecting_socket g c w)) = ld_ssl_inited (loop w)"
  "ld_ssl_socket (loop (us_internal_socket_group_unlink_connecting_socket g c w)) = ld_ssl_socket (loop w)"
  "ld_ssl_read_input (loop (us_internal_socket_group_unlink_connecting_socket g c w)) = ld_ssl_read_input (loop w)"
  "ld_ssl_read_input_offset (loop (us_internal_socket_group_unlink_connecting_socket g c w)) = ld_ssl_read_input_offset (loop w)"
  "ld_ssl_read_input_length (loop (us_internal_socket_group_unlink_connecting_socket g c w)) = ld_ssl_read_input_length (loop w)"
  "ld_tick_depth (loop (us_internal_socket_group_unlink_connecting_socket g c w)) = ld_tick_depth (loop w)"
  "lp_num_polls (loop (us_internal_socket_group_unlink_connecting_socket g c w)) = lp_num_polls (loop w)"
  "lp_num_ready_polls (loop (us_internal_socket_group_unlink_connecting_socket g c w)) = lp_num_ready_polls (loop w)"
  "lp_current_ready_poll (loop (us_internal_socket_group_unlink_connecting_socket g c w)) = lp_current_ready_poll (loop w)"
  "lp_fd (loop (us_internal_socket_group_unlink_connecting_socket g c w)) = lp_fd (loop w)"
  "lp_pending_wakeups (loop (us_internal_socket_group_unlink_connecting_socket g c w)) = lp_pending_wakeups (loop w)"
  "lp_has_epoll_pwait2 (loop (us_internal_socket_group_unlink_connecting_socket g c w)) = lp_has_epoll_pwait2 (loop w)"
  by (auto simp: us_internal_socket_group_unlink_connecting_socket_def unlink_connecting_chain_def Let_def split: option.splits)

lemma link_connecting_fields [simp]:
  "c_addrinfo_req (conns (us_internal_socket_group_link_connecting_socket g c w) x) = c_addrinfo_req (conns w x)"
  "c_ssl_ctx (conns (us_internal_socket_group_link_connecting_socket g c w) x) = c_ssl_ctx (conns w x)"
  "c_next (conns (us_internal_socket_group_link_connecting_socket g c w) x) = c_next (conns w x)"
  "c_connecting_head (conns (us_internal_socket_group_link_connecting_socket g c w) x) = c_connecting_head (conns w x)"
  "c_options (conns (us_internal_socket_group_link_connecting_socket g c w) x) = c_options (conns w x)"
  "c_socket_ext_size (conns (us_internal_socket_group_link_connecting_socket g c w) x) = c_socket_ext_size (conns w x)"
  "c_closed (conns (us_internal_socket_group_link_connecting_socket g c w) x) = c_closed (conns w x)"
  "c_shutdown (conns (us_internal_socket_group_link_connecting_socket g c w) x) = c_shutdown (conns w x)"
  "c_shutdown_read (conns (us_internal_socket_group_link_connecting_socket g c w) x) = c_shutdown_read (conns w x)"
  "c_pending_resolve_callback (conns (us_internal_socket_group_link_connecting_socket g c w) x) = c_pending_resolve_callback (conns w x)"
  "c_timeout (conns (us_internal_socket_group_link_connecting_socket g c w) x) = c_timeout (conns w x)"
  "c_long_timeout (conns (us_internal_socket_group_link_connecting_socket g c w) x) = c_long_timeout (conns w x)"
  "c_kind (conns (us_internal_socket_group_link_connecting_socket g c w) x) = c_kind (conns w x)"
  "c_port (conns (us_internal_socket_group_link_connecting_socket g c w) x) = c_port (conns w x)"
  "c_error (conns (us_internal_socket_group_link_connecting_socket g c w) x) = c_error (conns w x)"
  "c_addrinfo_head (conns (us_internal_socket_group_link_connecting_socket g c w) x) = c_addrinfo_head (conns w x)"
  by (auto simp: us_internal_socket_group_link_connecting_socket_def Let_def split: option.splits)

lemma unlink_connecting_fields [simp]:
  "c_addrinfo_req (conns (us_internal_socket_group_unlink_connecting_socket g c w) x) = c_addrinfo_req (conns w x)"
  "c_ssl_ctx (conns (us_internal_socket_group_unlink_connecting_socket g c w) x) = c_ssl_ctx (conns w x)"
  "c_next (conns (us_internal_socket_group_unlink_connecting_socket g c w) x) = c_next (conns w x)"
  "c_connecting_head (conns (us_internal_socket_group_unlink_connecting_socket g c w) x) = c_connecting_head (conns w x)"
  "c_options (conns (us_internal_socket_group_unlink_connecting_socket g c w) x) = c_options (conns w x)"
  "c_socket_ext_size (conns (us_internal_socket_group_unlink_connecting_socket g c w) x) = c_socket_ext_size (conns w x)"
  "c_closed (conns (us_internal_socket_group_unlink_connecting_socket g c w) x) = c_closed (conns w x)"
  "c_shutdown (conns (us_internal_socket_group_unlink_connecting_socket g c w) x) = c_shutdown (conns w x)"
  "c_shutdown_read (conns (us_internal_socket_group_unlink_connecting_socket g c w) x) = c_shutdown_read (conns w x)"
  "c_pending_resolve_callback (conns (us_internal_socket_group_unlink_connecting_socket g c w) x) = c_pending_resolve_callback (conns w x)"
  "c_timeout (conns (us_internal_socket_group_unlink_connecting_socket g c w) x) = c_timeout (conns w x)"
  "c_long_timeout (conns (us_internal_socket_group_unlink_connecting_socket g c w) x) = c_long_timeout (conns w x)"
  "c_kind (conns (us_internal_socket_group_unlink_connecting_socket g c w) x) = c_kind (conns w x)"
  "c_port (conns (us_internal_socket_group_unlink_connecting_socket g c w) x) = c_port (conns w x)"
  "c_error (conns (us_internal_socket_group_unlink_connecting_socket g c w) x) = c_error (conns w x)"
  "c_addrinfo_head (conns (us_internal_socket_group_unlink_connecting_socket g c w) x) = c_addrinfo_head (conns w x)"
  "c_group (conns (us_internal_socket_group_unlink_connecting_socket g c w) x) = c_group (conns w x)"
  by (auto simp: us_internal_socket_group_unlink_connecting_socket_def unlink_connecting_chain_def Let_def split: option.splits)

lemma link_connecting_group:
  "c_group (conns (us_internal_socket_group_link_connecting_socket g c w) x) =
     (if x = c \<and> \<not> c_closed (conns w c) then Some g else c_group (conns w x))"
  by (auto simp: us_internal_socket_group_link_connecting_socket_def Let_def split: option.splits)

lemma low_prio_push_frame [simp]:
  "s_timeout (sockets (low_prio_push s w) x) = s_timeout (sockets w x)"
  "s_long_timeout (sockets (low_prio_push s w) x) = s_long_timeout (sockets w x)"
  "s_is_paused (sockets (low_prio_push s w) x) = s_is_paused (sockets w x)"
  "s_allow_half_open (sockets (low_prio_push s w) x) = s_allow_half_open (sockets w x)"
  "s_low_prio_state (sockets (low_prio_push s w) x) = s_low_prio_state (sockets w x)"
  "s_is_ipc (sockets (low_prio_push s w) x) = s_is_ipc (sockets w x)"
  "s_is_closed (sockets (low_prio_push s w) x) = s_is_closed (sockets w x)"
  "s_adopted (sockets (low_prio_push s w) x) = s_adopted (sockets w x)"
  "s_last_write_failed (sockets (low_prio_push s w) x) = s_last_write_failed (sockets w x)"
  "s_kind (sockets (low_prio_push s w) x) = s_kind (sockets w x)"
  "s_ssl_handshake_state (sockets (low_prio_push s w) x) = s_ssl_handshake_state (sockets w x)"
  "s_ssl_write_wants_read (sockets (low_prio_push s w) x) = s_ssl_write_wants_read (sockets w x)"
  "s_ssl_read_wants_write (sockets (low_prio_push s w) x) = s_ssl_read_wants_write (sockets w x)"
  "s_ssl_fatal_error (sockets (low_prio_push s w) x) = s_ssl_fatal_error (sockets w x)"
  "s_ssl_is_server (sockets (low_prio_push s w) x) = s_ssl_is_server (sockets w x)"
  "s_ssl_raw_tap (sockets (low_prio_push s w) x) = s_ssl_raw_tap (sockets w x)"
  "s_group (sockets (low_prio_push s w) x) = s_group (sockets w x)"
  "s_ssl (sockets (low_prio_push s w) x) = s_ssl (sockets w x)"
  "s_connect_next (sockets (low_prio_push s w) x) = s_connect_next (sockets w x)"
  "s_connect_state (sockets (low_prio_push s w) x) = s_connect_state (sockets w x)"
  "kern (low_prio_push s w) = kern w"
  "polls (low_prio_push s w) = polls w"
  "conns (low_prio_push s w) = conns w"
  "listeners (low_prio_push s w) = listeners w"
  "groups (low_prio_push s w) = groups w"
  "udps (low_prio_push s w) = udps w"
  "callbacks (low_prio_push s w) = callbacks w"
  "heap_tag (low_prio_push s w) = heap_tag w"
  "next_addr (low_prio_push s w) = next_addr w"
  "ld_sweep_timer (loop (low_prio_push s w)) = ld_sweep_timer (loop w)"
  "ld_sweep_timer_count (loop (low_prio_push s w)) = ld_sweep_timer_count (loop w)"
  "ld_wakeup_async (loop (low_prio_push s w)) = ld_wakeup_async (loop w)"
  "ld_head (loop (low_prio_push s w)) = ld_head (loop w)"
  "ld_quic_head (loop (low_prio_push s w)) = ld_quic_head (loop w)"
  "ld_quic_next_tick_us (loop (low_prio_push s w)) = ld_quic_next_tick_us (loop w)"
  "ld_iterator (loop (low_prio_push s w)) = ld_iterator (loop w)"
  "ld_closed_udp_head (loop (low_prio_push s w)) = ld_closed_udp_head (loop w)"
  "ld_closed_head (loop (low_prio_push s w)) = ld_closed_head (loop w)"
  "ld_low_prio_budget (loop (low_prio_push s w)) = ld_low_prio_budget (loop w)"
  "ld_dns_ready_head (loop (low_prio_push s w)) = ld_dns_ready_head (loop w)"
  "ld_closed_connecting_head (loop (low_prio_push s w)) = ld_closed_connecting_head (loop w)"
  "ld_iteration_nr (loop (low_prio_push s w)) = ld_iteration_nr (loop w)"
  "ld_jsc_vm (loop (low_prio_push s w)) = ld_jsc_vm (loop w)"
  "ld_ssl_inited (loop (low_prio_push s w)) = ld_ssl_inited (loop w)"
  "ld_ssl_socket (loop (low_prio_push s w)) = ld_ssl_socket (loop w)"
  "ld_ssl_read_input (loop (low_prio_push s w)) = ld_ssl_read_input (loop w)"
  "ld_ssl_read_input_offset (loop (low_prio_push s w)) = ld_ssl_read_input_offset (loop w)"
  "ld_ssl_read_input_length (loop (low_prio_push s w)) = ld_ssl_read_input_length (loop w)"
  "ld_tick_depth (loop (low_prio_push s w)) = ld_tick_depth (loop w)"
  "lp_num_polls (loop (low_prio_push s w)) = lp_num_polls (loop w)"
  "lp_num_ready_polls (loop (low_prio_push s w)) = lp_num_ready_polls (loop w)"
  "lp_current_ready_poll (loop (low_prio_push s w)) = lp_current_ready_poll (loop w)"
  "lp_fd (loop (low_prio_push s w)) = lp_fd (loop w)"
  "lp_pending_wakeups (loop (low_prio_push s w)) = lp_pending_wakeups (loop w)"
  "lp_has_epoll_pwait2 (loop (low_prio_push s w)) = lp_has_epoll_pwait2 (loop w)"
  by (auto simp: low_prio_push_def Let_def split: option.splits)

lemma low_prio_chain_frame [simp]:
  "s_timeout (sockets (low_prio_chain s w) x) = s_timeout (sockets w x)"
  "s_long_timeout (sockets (low_prio_chain s w) x) = s_long_timeout (sockets w x)"
  "s_is_paused (sockets (low_prio_chain s w) x) = s_is_paused (sockets w x)"
  "s_allow_half_open (sockets (low_prio_chain s w) x) = s_allow_half_open (sockets w x)"
  "s_low_prio_state (sockets (low_prio_chain s w) x) = s_low_prio_state (sockets w x)"
  "s_is_ipc (sockets (low_prio_chain s w) x) = s_is_ipc (sockets w x)"
  "s_is_closed (sockets (low_prio_chain s w) x) = s_is_closed (sockets w x)"
  "s_adopted (sockets (low_prio_chain s w) x) = s_adopted (sockets w x)"
  "s_last_write_failed (sockets (low_prio_chain s w) x) = s_last_write_failed (sockets w x)"
  "s_kind (sockets (low_prio_chain s w) x) = s_kind (sockets w x)"
  "s_ssl_handshake_state (sockets (low_prio_chain s w) x) = s_ssl_handshake_state (sockets w x)"
  "s_ssl_write_wants_read (sockets (low_prio_chain s w) x) = s_ssl_write_wants_read (sockets w x)"
  "s_ssl_read_wants_write (sockets (low_prio_chain s w) x) = s_ssl_read_wants_write (sockets w x)"
  "s_ssl_fatal_error (sockets (low_prio_chain s w) x) = s_ssl_fatal_error (sockets w x)"
  "s_ssl_is_server (sockets (low_prio_chain s w) x) = s_ssl_is_server (sockets w x)"
  "s_ssl_raw_tap (sockets (low_prio_chain s w) x) = s_ssl_raw_tap (sockets w x)"
  "s_group (sockets (low_prio_chain s w) x) = s_group (sockets w x)"
  "s_ssl (sockets (low_prio_chain s w) x) = s_ssl (sockets w x)"
  "s_connect_next (sockets (low_prio_chain s w) x) = s_connect_next (sockets w x)"
  "s_connect_state (sockets (low_prio_chain s w) x) = s_connect_state (sockets w x)"
  "kern (low_prio_chain s w) = kern w"
  "polls (low_prio_chain s w) = polls w"
  "conns (low_prio_chain s w) = conns w"
  "listeners (low_prio_chain s w) = listeners w"
  "groups (low_prio_chain s w) = groups w"
  "udps (low_prio_chain s w) = udps w"
  "callbacks (low_prio_chain s w) = callbacks w"
  "heap_tag (low_prio_chain s w) = heap_tag w"
  "next_addr (low_prio_chain s w) = next_addr w"
  "ld_sweep_timer (loop (low_prio_chain s w)) = ld_sweep_timer (loop w)"
  "ld_sweep_timer_count (loop (low_prio_chain s w)) = ld_sweep_timer_count (loop w)"
  "ld_wakeup_async (loop (low_prio_chain s w)) = ld_wakeup_async (loop w)"
  "ld_head (loop (low_prio_chain s w)) = ld_head (loop w)"
  "ld_quic_head (loop (low_prio_chain s w)) = ld_quic_head (loop w)"
  "ld_quic_next_tick_us (loop (low_prio_chain s w)) = ld_quic_next_tick_us (loop w)"
  "ld_iterator (loop (low_prio_chain s w)) = ld_iterator (loop w)"
  "ld_closed_udp_head (loop (low_prio_chain s w)) = ld_closed_udp_head (loop w)"
  "ld_closed_head (loop (low_prio_chain s w)) = ld_closed_head (loop w)"
  "ld_low_prio_budget (loop (low_prio_chain s w)) = ld_low_prio_budget (loop w)"
  "ld_dns_ready_head (loop (low_prio_chain s w)) = ld_dns_ready_head (loop w)"
  "ld_closed_connecting_head (loop (low_prio_chain s w)) = ld_closed_connecting_head (loop w)"
  "ld_iteration_nr (loop (low_prio_chain s w)) = ld_iteration_nr (loop w)"
  "ld_jsc_vm (loop (low_prio_chain s w)) = ld_jsc_vm (loop w)"
  "ld_ssl_inited (loop (low_prio_chain s w)) = ld_ssl_inited (loop w)"
  "ld_ssl_socket (loop (low_prio_chain s w)) = ld_ssl_socket (loop w)"
  "ld_ssl_read_input (loop (low_prio_chain s w)) = ld_ssl_read_input (loop w)"
  "ld_ssl_read_input_offset (loop (low_prio_chain s w)) = ld_ssl_read_input_offset (loop w)"
  "ld_ssl_read_input_length (loop (low_prio_chain s w)) = ld_ssl_read_input_length (loop w)"
  "ld_tick_depth (loop (low_prio_chain s w)) = ld_tick_depth (loop w)"
  "lp_num_polls (loop (low_prio_chain s w)) = lp_num_polls (loop w)"
  "lp_num_ready_polls (loop (low_prio_chain s w)) = lp_num_ready_polls (loop w)"
  "lp_current_ready_poll (loop (low_prio_chain s w)) = lp_current_ready_poll (loop w)"
  "lp_fd (loop (low_prio_chain s w)) = lp_fd (loop w)"
  "lp_pending_wakeups (loop (low_prio_chain s w)) = lp_pending_wakeups (loop w)"
  "lp_has_epoll_pwait2 (loop (low_prio_chain s w)) = lp_has_epoll_pwait2 (loop w)"
  by (auto simp: low_prio_chain_def Let_def split: option.splits)

end
