(* ===== verification/Us_Invariant.thy ===== *)
theory Us_Invariant imports
  Us_Group
begin

section \<open>The abstract state and the representation invariant\<close>

text \<open>
  What the intrusive lists stand for: which groups the loop knows, which sockets and connecting
  sockets each group holds, which sockets are parked in the low priority queue, which are closed and
  wait to be freed, and which are closed but not yet on that list (\<open>a_limbo\<close>: the ones whose
  \<open>on_close\<close> is running); \<open>a_loose\<close> are open sockets in the hands of an operation, between two
  lists. \<open>wf_world\<close> says that a world represents an abstract state.
\<close>

subsection \<open>Views of the world as intrusive lists\<close>

abbreviation snx :: "world \<Rightarrow> addr \<Rightarrow> ptr" where "snx w \<equiv> \<lambda>a. s_next (sockets w a)"
abbreviation spv :: "world \<Rightarrow> addr \<Rightarrow> ptr" where "spv w \<equiv> \<lambda>a. s_prev (sockets w a)"
abbreviation cnx :: "world \<Rightarrow> addr \<Rightarrow> ptr" where "cnx w \<equiv> \<lambda>a. c_next_pending (conns w a)"
abbreviation cpv :: "world \<Rightarrow> addr \<Rightarrow> ptr" where "cpv w \<equiv> \<lambda>a. c_prev_pending (conns w a)"
abbreviation gnx :: "world \<Rightarrow> addr \<Rightarrow> ptr" where "gnx w \<equiv> \<lambda>a. g_next (groups w a)"
abbreviation gpv :: "world \<Rightarrow> addr \<Rightarrow> ptr" where "gpv w \<equiv> \<lambda>a. g_prev (groups w a)"

interpretation gl: intrusive_dlist gnx gpv "\<lambda>w. ld_head (loop w)"
  us_internal_loop_link_group us_internal_loop_unlink_group "\<lambda>_ _. True"
proof (unfold_locales, goal_cases)
  case (1 x w)
  show ?case
    by (auto simp: us_internal_loop_link_group_def Let_def link_pv_def fun_eq_iff split: option.splits)
next
  case (2 w xs x)
  note h = dll_head_iff_prev_None [OF 2]
  show ?case
  proof (cases "ld_head (loop w) = Some x")
    case True
    with h show ?thesis
      by (auto simp: us_internal_loop_unlink_group_def Let_def unlink_nx_def unlink_pv_def
          unlink_head_def fun_eq_iff split: option.splits)
  next
    case False
    with h obtain p where p: "gpv w x = Some p" by auto
    with 2 have "p \<noteq> x" by (metis dll_distinct dll_split(2) distinct_append in_set_conv_decomp
          lastp_def last_in_set not_distinct_conv_prefix option.distinct(1) option.inject)
    with False p show ?thesis
      by (auto simp: us_internal_loop_unlink_group_def Let_def unlink_nx_def unlink_pv_def
          unlink_head_def fun_eq_iff split: option.splits)
  qed
qed

interpretation gq: intrusive_dlist snx spv "\<lambda>w. ld_low_prio_head (loop w)"
  low_prio_push low_prio_chain "\<lambda>_ _. True"
proof (unfold_locales, goal_cases)
  case (1 x w)
  show ?case
    by (auto simp: low_prio_push_def Let_def link_pv_def fun_eq_iff split: option.splits)
next
  case (2 w xs x)
  then have "s_next (sockets w x) \<noteq> Some x" "s_prev (sockets w x) \<noteq> Some x"
    by (auto dest: dll_not_self)
  then show ?case
    by (auto simp: low_prio_chain_def Let_def unlink_nx_def unlink_pv_def unlink_head_def fun_eq_iff
        split: option.splits)
qed

interpretation gs: intrusive_dlist snx spv "\<lambda>w. g_head_sockets (groups w g)"
  "us_internal_socket_group_link_socket g" "us_internal_socket_group_unlink_socket g"
  "\<lambda>s w. \<not> us_socket_is_closed s w" for g
proof (unfold_locales, goal_cases)
  case (1 x w)
  then show ?case
    by (auto simp: us_internal_socket_group_link_socket_def Let_def link_pv_def fun_eq_iff
        split: option.splits)
next
  case (2 w xs x)
  note h = dll_prev_neq_next [OF 2]
  then show ?case
    by (auto simp: us_internal_socket_group_unlink_socket_def unlink_socket_chain_def Let_def
        unlink_nx_def unlink_pv_def unlink_head_def fun_eq_iff split: option.splits)
qed

interpretation gc: intrusive_dlist cnx cpv "\<lambda>w. g_head_connecting_sockets (groups w g)"
  "us_internal_socket_group_link_connecting_socket g"
  "us_internal_socket_group_unlink_connecting_socket g"
  "\<lambda>c w. \<not> c_closed (conns w c)" for g
proof (unfold_locales, goal_cases)
  case (1 x w)
  then show ?case
    by (auto simp: us_internal_socket_group_link_connecting_socket_def Let_def link_pv_def fun_eq_iff
        split: option.splits)
next
  case (2 w xs x)
  note h = dll_prev_neq_next [OF 2]
  then show ?case
    by (auto simp: us_internal_socket_group_unlink_connecting_socket_def unlink_connecting_chain_def
        Let_def unlink_nx_def unlink_pv_def unlink_head_def fun_eq_iff split: option.splits)
qed

subsection \<open>The representation invariant\<close>

record absr =
  a_groups :: "addr list"
  a_socks :: "addr \<Rightarrow> addr list"
  a_conns :: "addr \<Rightarrow> addr list"
  a_low :: "addr list"
  a_closed :: "addr list"
  a_limbo :: "addr set"
  a_loose :: "addr set"

definition wf_groups :: "addr list \<Rightarrow> world \<Rightarrow> bool" where
  "wf_groups Gs w \<longleftrightarrow> dll (gnx w) (gpv w) (ld_head (loop w)) Gs
     \<and> (\<forall>g. g_linked (groups w g) = (g \<in> set Gs))"

definition wf_nonempty :: "world \<Rightarrow> bool" where
  "wf_nonempty w \<longleftrightarrow> (\<forall>g. g_linked (groups w g) = (\<not> us_internal_group_is_empty g w))"

definition wf_socks :: "(addr \<Rightarrow> addr list) \<Rightarrow> world \<Rightarrow> bool" where
  "wf_socks ss w \<longleftrightarrow> (\<forall>g. dll (snx w) (spv w) (g_head_sockets (groups w g)) (ss g))
     \<and> (\<forall>g. \<forall>s\<in>set (ss g). s_group (sockets w s) = Some g \<and> \<not> s_is_closed (sockets w s)
          \<and> s_low_prio_state (sockets w s) \<noteq> 1)"

definition wf_conns :: "(addr \<Rightarrow> addr list) \<Rightarrow> world \<Rightarrow> bool" where
  "wf_conns cs w \<longleftrightarrow> (\<forall>g. dll (cnx w) (cpv w) (g_head_connecting_sockets (groups w g)) (cs g))
     \<and> (\<forall>g. \<forall>c\<in>set (cs g). c_group (conns w c) = Some g)"

definition wf_low :: "addr list \<Rightarrow> world \<Rightarrow> bool" where
  "wf_low ls w \<longleftrightarrow> dll (snx w) (spv w) (ld_low_prio_head (loop w)) ls
     \<and> (\<forall>s\<in>set ls. \<not> s_is_closed (sockets w s) \<and> s_low_prio_state (sockets w s) = 1
          \<and> s_group (sockets w s) \<noteq> None)
     \<and> (\<forall>g. unat (g_low_prio_count (groups w g))
          = length (filter (\<lambda>s. s_group (sockets w s) = Some g) ls))"

definition wf_closed :: "addr list \<Rightarrow> addr set \<Rightarrow> world \<Rightarrow> bool" where
  "wf_closed cl lim w \<longleftrightarrow> sll (snx w) (ld_closed_head (loop w)) cl
     \<and> (\<forall>s\<in>set cl \<union> lim. s_is_closed (sockets w s)) \<and> set cl \<inter> lim = {}"

definition sweep_sum :: "(addr \<Rightarrow> addr list) \<Rightarrow> (addr \<Rightarrow> addr list) \<Rightarrow> addr list \<Rightarrow> int" where
  "sweep_sum ss cs Gs = (\<Sum>g\<leftarrow>Gs. int (length (ss g)) + int (length (cs g)))"

definition wf_count :: "absr \<Rightarrow> world \<Rightarrow> bool" where
  "wf_count A w \<longleftrightarrow>
     ld_sweep_timer_count (loop w) = sweep_sum (a_socks A) (a_conns A) (a_groups A)"

definition wf_iter :: "absr \<Rightarrow> world \<Rightarrow> bool" where
  "wf_iter A w \<longleftrightarrow> (\<forall>g s. g_iterator (groups w g) = Some s \<longrightarrow> s \<in> set (a_socks A g))
     \<and> (\<forall>g. ld_iterator (loop w) = Some g \<longrightarrow> g \<in> set (a_groups A))"

definition on_list :: "absr \<Rightarrow> addr \<Rightarrow> bool" where
  "on_list A s \<longleftrightarrow> (\<exists>g. s \<in> set (a_socks A g)) \<or> s \<in> set (a_low A) \<or> s \<in> set (a_closed A)
     \<or> s \<in> a_limbo A \<or> s \<in> a_loose A"

text \<open>
  Every allocated socket is accounted for, and everything on a list is allocated; a listen socket
  is pushed on the closed list too. Addresses not handed out yet are not allocated.
\<close>

definition wf_heap :: "absr \<Rightarrow> world \<Rightarrow> bool" where
  "wf_heap A w \<longleftrightarrow> (\<forall>s. heap_tag w s = Some T_socket \<longrightarrow> on_list A s)
     \<and> (\<forall>s. on_list A s \<and> s \<notin> set (a_closed A) \<longrightarrow> heap_tag w s = Some T_socket)
     \<and> (\<forall>s\<in>set (a_closed A). heap_tag w s = Some T_socket \<or> heap_tag w s = Some T_listen)
     \<and> (\<forall>a. next_addr w \<le> a \<longrightarrow> heap_tag w a = None)"

definition wf_loose :: "absr \<Rightarrow> world \<Rightarrow> bool" where
  "wf_loose A w \<longleftrightarrow> (\<forall>s\<in>a_loose A. \<not> s_is_closed (sockets w s) \<and> (\<forall>g. s \<notin> set (a_socks A g))
     \<and> s \<notin> set (a_low A))"

definition wf_world :: "absr \<Rightarrow> world \<Rightarrow> bool" where
  "wf_world A w \<longleftrightarrow> wf_groups (a_groups A) w \<and> wf_nonempty w \<and> wf_socks (a_socks A) w
     \<and> wf_conns (a_conns A) w \<and> wf_low (a_low A) w \<and> wf_closed (a_closed A) (a_limbo A) w
     \<and> wf_count A w \<and> wf_iter A w \<and> wf_heap A w \<and> wf_loose A w"

definition fresh_conn :: "addr \<Rightarrow> absr \<Rightarrow> bool" where
  "fresh_conn c A \<longleftrightarrow> (\<forall>g. c \<notin> set (a_conns A g))"

subsection \<open>Lists are disjoint\<close>

lemma wf_socks_disjoint:
  "wf_socks ss w \<Longrightarrow> s \<in> set (ss g) \<Longrightarrow> s \<in> set (ss g') \<Longrightarrow> g = g'"
  unfolding wf_socks_def by (metis option.inject)

lemma wf_conns_disjoint:
  "wf_conns cs w \<Longrightarrow> c \<in> set (cs g) \<Longrightarrow> c \<in> set (cs g') \<Longrightarrow> g = g'"
  unfolding wf_conns_def by (metis option.inject)

lemma wf_socks_low: "wf_socks ss w \<Longrightarrow> wf_low ls w \<Longrightarrow> s \<in> set (ss g) \<Longrightarrow> s \<notin> set ls"
  unfolding wf_socks_def wf_low_def by blast

lemma wf_open_closed:
  "wf_closed cl lim w \<Longrightarrow> \<not> s_is_closed (sockets w s) \<Longrightarrow> s \<notin> set cl \<and> s \<notin> lim"
  unfolding wf_closed_def by blast

lemma wf_head_None:
  "wf_socks ss w \<Longrightarrow> g_head_sockets (groups w g) = None \<longleftrightarrow> ss g = []"
  unfolding wf_socks_def using dll_empty_iff by blast

lemma wf_conn_head_None:
  "wf_conns cs w \<Longrightarrow> g_head_connecting_sockets (groups w g) = None \<longleftrightarrow> cs g = []"
  unfolding wf_conns_def using dll_empty_iff by blast

text \<open>A group that is not linked holds nothing.\<close>

lemma wf_unlinked_empty:
  assumes "wf_world A w" "g \<notin> set (a_groups A)"
  shows "a_socks A g = []" "a_conns A g = []"
proof -
  from assms have "us_internal_group_is_empty g w"
    unfolding wf_world_def wf_groups_def wf_nonempty_def by blast
  with assms show "a_socks A g = []" "a_conns A g = []"
    by (auto simp: wf_world_def us_internal_group_is_empty_def dest: wf_head_None wf_conn_head_None)
qed

lemma wf_sock_group: "wf_world A w \<Longrightarrow> s \<in> set (a_socks A g) \<Longrightarrow> g \<in> set (a_groups A)"
  by (rule ccontr) (simp add: wf_unlinked_empty(1))

lemma wf_conn_group: "wf_world A w \<Longrightarrow> c \<in> set (a_conns A g) \<Longrightarrow> g \<in> set (a_groups A)"
  by (rule ccontr) (simp add: wf_unlinked_empty(2))

subsection \<open>Linking and unlinking a group\<close>

lemma touched_groups:
  assumes "wf_groups Gs w"
  shows "wf_groups (if g \<in> set Gs then Gs else g # Gs) (us_internal_group_touched g w)"
proof (cases "g \<in> set Gs")
  case True
  with assms show ?thesis by (simp add: wf_groups_def us_internal_group_touched_def)
next
  case False
  with assms gl.link_refines_cons [of w Gs g] show ?thesis
    by (auto simp: wf_groups_def us_internal_group_touched_def fun_eq_iff intro: dseg_frame [THEN iffD1, rotated 2])
qed

lemma unlink_groups:
  assumes "wf_groups Gs w" "g \<in> set Gs"
  shows "wf_groups (remove1 g Gs)
    (upd_g g (g_linked_update (\<lambda>_. False)) (us_internal_loop_unlink_group g w))"
proof -
  from assms have "distinct Gs" by (auto simp: wf_groups_def dest: dll_distinct)
  with assms gl.unlink_refines_remove [of w Gs g] show ?thesis
    by (auto simp: wf_groups_def fun_eq_iff intro: dseg_frame [THEN iffD1, rotated 2])
qed

lemma maybe_unlink_groups:
  assumes "wf_groups Gs w"
  shows "wf_groups (if us_internal_group_is_empty g w then remove1 g Gs else Gs)
    (us_internal_group_maybe_unlink g w)"
  using assms unlink_groups [OF assms, of g]
  by (auto simp: us_internal_group_maybe_unlink_def wf_groups_def remove1_idem)

lemma maybe_unlink_spec:
  assumes "wf_groups Gs w" "\<forall>x. ld_iterator (loop w) = Some x \<longrightarrow> x \<in> set Gs"
  shows "\<forall>x. ld_iterator (loop (us_internal_group_maybe_unlink g w)) = Some x \<longrightarrow>
    x \<in> set (if us_internal_group_is_empty g w then remove1 g Gs else Gs)"
proof (cases "g_linked (groups w g) \<and> us_internal_group_is_empty g w")
  case False
  then have "us_internal_group_is_empty g w \<Longrightarrow> g \<notin> set Gs"
    using assms(1) by (auto simp: wf_groups_def)
  with False assms(2) show ?thesis by (auto simp: us_internal_group_maybe_unlink_def remove1_idem)
next
  case True
  have dist: "distinct Gs" "dll (gnx w) (gpv w) (ld_head (loop w)) Gs" "g \<in> set Gs"
    using True assms(1) by (auto simp: wf_groups_def dest: dll_distinct)
  have "n \<noteq> g \<and> n \<in> set Gs" if "g_next (groups w g) = Some n" for n
  proof
    show "n \<in> set Gs" using dll_next_in [OF dist(2,3)] that by simp
    from dist(3) obtain as bs where xs: "Gs = as @ g # bs" by (meson split_list)
    from dll_split(3) [OF dist(2) [unfolded xs]] that have "n \<in> set bs" by (cases bs) auto
    with dist(1) xs show "n \<noteq> g" by auto
  qed
  moreover have "ld_iterator (loop (us_internal_group_maybe_unlink g w)) =
      (if ld_iterator (loop w) = Some g then g_next (groups w g) else ld_iterator (loop w))"
    using True by (auto simp: us_internal_group_maybe_unlink_def us_internal_loop_unlink_group_def
        Let_def split: option.splits)
  ultimately show ?thesis using True assms(2) dist(1) by (auto simp: set_remove1_eq split: if_splits)
qed

lemma sweep_sum_notin:
  "g \<notin> set Gs \<Longrightarrow> sweep_sum (ss(g := xs)) cs Gs = sweep_sum ss cs Gs"
  "g \<notin> set Gs \<Longrightarrow> sweep_sum ss (cs(g := xs)) Gs = sweep_sum ss cs Gs"
  by (induction Gs) (auto simp: sweep_sum_def)

lemma sweep_sum_upd:
  assumes "distinct Gs" "g \<in> set Gs"
  shows "sweep_sum (ss(g := xs)) cs Gs = sweep_sum ss cs Gs + int (length xs) - int (length (ss g))"
    "sweep_sum ss (cs(g := xs)) Gs = sweep_sum ss cs Gs + int (length xs) - int (length (cs g))"
proof -
  from assms(2) obtain as bs where Gs: "Gs = as @ g # bs" by (meson split_list)
  with assms(1) have ab: "g \<notin> set as" "g \<notin> set bs" by auto
  have app: "sweep_sum ss cs (xs @ ys) = sweep_sum ss cs xs + sweep_sum ss cs ys" for ss cs xs ys
    by (simp add: sweep_sum_def)
  have cons: "sweep_sum ss cs (x # xs) = int (length (ss x)) + int (length (cs x)) + sweep_sum ss cs xs"
    for ss cs x xs by (simp add: sweep_sum_def)
  show "sweep_sum (ss(g := xs)) cs Gs = sweep_sum ss cs Gs + int (length xs) - int (length (ss g))"
    "sweep_sum ss (cs(g := xs)) Gs = sweep_sum ss cs Gs + int (length xs) - int (length (cs g))"
    using ab by (simp_all add: Gs app cons sweep_sum_notin)
qed

lemma sweep_sum_remove1:
  "g \<in> set Gs \<Longrightarrow> ss g = [] \<Longrightarrow> cs g = [] \<Longrightarrow> sweep_sum ss cs (remove1 g Gs) = sweep_sum ss cs Gs"
  by (induction Gs) (auto simp: sweep_sum_def)

subsection \<open>Linking and unlinking a socket\<close>

definition add_group :: "addr \<Rightarrow> addr list \<Rightarrow> addr list" where
  "add_group g Gs = (if g \<in> set Gs then Gs else g # Gs)"

definition a_link :: "addr \<Rightarrow> addr \<Rightarrow> absr \<Rightarrow> absr" where
  "a_link g s A = A\<lparr>a_socks := (a_socks A)(g := s # a_socks A g),
     a_groups := add_group g (a_groups A), a_loose := a_loose A - {s}\<rparr>"

text \<open>A group leaves the loop's list when the last thing it holds goes.\<close>

definition a_unlink :: "bool \<Rightarrow> addr \<Rightarrow> addr \<Rightarrow> absr \<Rightarrow> absr" where
  "a_unlink e g s A = A\<lparr>a_socks := (a_socks A)(g := remove1 s (a_socks A g)),
     a_groups := (if e then remove1 g (a_groups A) else a_groups A),
     a_loose := insert s (a_loose A)\<rparr>"

lemma link_socket_lists:
  assumes "\<not> us_socket_is_closed s w"
  shows "s_next (sockets (us_internal_socket_group_link_socket g s w) a) =
       ((snx w)(s := g_head_sockets (groups w g))) a"
    "s_prev (sockets (us_internal_socket_group_link_socket g s w) a) =
       link_pv (spv w) (g_head_sockets (groups w g)) s a"
    "g_head_sockets (groups (us_internal_socket_group_link_socket g s w) x) =
       (if x = g then Some s else g_head_sockets (groups w x))"
proof -
  show "s_next (sockets (us_internal_socket_group_link_socket g s w) a) =
       ((snx w)(s := g_head_sockets (groups w g))) a"
    "s_prev (sockets (us_internal_socket_group_link_socket g s w) a) =
       link_pv (spv w) (g_head_sockets (groups w g)) s a"
    using gs.link_step [OF assms, of g] by (metis (no_types, lifting))+
  show "g_head_sockets (groups (us_internal_socket_group_link_socket g s w) x) =
       (if x = g then Some s else g_head_sockets (groups w x))"
    using assms by (auto simp: us_internal_socket_group_link_socket_def Let_def split: option.splits)
qed

lemma wf_groups_cong:
  assumes "\<And>a. g_next (groups w' a) = g_next (groups w a)" "\<And>a. g_prev (groups w' a) = g_prev (groups w a)"
    "\<And>a. g_linked (groups w' a) = g_linked (groups w a)" "ld_head (loop w') = ld_head (loop w)"
  shows "wf_groups Gs w' = wf_groups Gs w"
  by (simp add: wf_groups_def assms)

lemma link_socket_groups:
  assumes "wf_groups Gs w" "\<not> us_socket_is_closed s w"
  shows "wf_groups (add_group g Gs) (us_internal_socket_group_link_socket g s w)"
proof -
  let ?h = "g_head_sockets (groups w g)"
  let ?u = "upd_s s (\<lambda>x. x\<lparr>s_group := Some g, s_next := ?h, s_prev := None\<rparr>) w"
  let ?v = "upd_g g (g_head_sockets_update (\<lambda>_. Some s))
    (case ?h of Some y \<Rightarrow> upd_s y (s_prev_update (\<lambda>_. Some s)) ?u | None \<Rightarrow> ?u)"
  have "wf_groups Gs ?v = wf_groups Gs w"
    by (rule wf_groups_cong) (auto split: option.splits)
  with touched_groups [of Gs ?v g] assms show ?thesis
    by (simp add: us_internal_socket_group_link_socket_def Let_def add_group_def
        wf_groups_cong [of "us_internal_enable_sweep_timer v" v for v])
qed

text \<open>
  While a parked socket moves back to its group the group may be linked and hold nothing: \<open>wf_but X\<close>
  leaves that open for the groups \<open>X\<close>. Linking a socket into such a group settles it.
\<close>

definition wf_but :: "addr set \<Rightarrow> absr \<Rightarrow> world \<Rightarrow> bool" where
  "wf_but X A w \<longleftrightarrow> wf_groups (a_groups A) w
     \<and> (\<forall>g. g_linked (groups w g) = (\<not> us_internal_group_is_empty g w) \<or> g \<in> X \<and> g_linked (groups w g))
     \<and> wf_socks (a_socks A) w \<and> wf_conns (a_conns A) w \<and> wf_low (a_low A) w
     \<and> wf_closed (a_closed A) (a_limbo A) w \<and> wf_count A w \<and> wf_iter A w \<and> wf_heap A w \<and> wf_loose A w"

lemma wf_but_empty: "wf_but {} A w = wf_world A w"
  by (auto simp: wf_but_def wf_world_def wf_nonempty_def)

lemma link_socket_but:
  assumes "wf_but X A w" "s \<in> a_loose A" "s_low_prio_state (sockets w s) \<noteq> 1"
  shows "wf_but (X - {g}) (a_link g s A) (us_internal_socket_group_link_socket g s w)"
proof -
  have fr: "\<And>g. s \<notin> set (a_socks A g)" "s \<notin> set (a_low A)" "s \<notin> set (a_closed A)"
    and op: "\<not> us_socket_is_closed s w"
    using assms(1,2) by (auto simp: wf_but_def wf_loose_def wf_closed_def us_socket_is_closed_def)
  let ?w = "us_internal_socket_group_link_socket g s w"
  note L = link_socket_lists [OF op]
  have nc: "\<not> s_is_closed (sockets w s)" using op by (simp add: us_socket_is_closed_def)
  have dl: "dll (snx w) (spv w) (g_head_sockets (groups w g)) (a_socks A g)" for g
    using assms(1) by (simp add: wf_but_def wf_socks_def)
  have other: "dseg (snx ?w) (spv ?w) p h xs q = dseg (snx w) (spv w) p h xs q"
    if "s \<notin> set xs" "set xs \<inter> set (a_socks A g) = {}" for p h xs q
    using that by (intro dseg_frame) (auto simp: L disjoint_iff intro!: link_pv_other [OF dl [of g]])
  have socks: "wf_socks ((a_socks A)(g := s # a_socks A g)) ?w"
    unfolding wf_socks_def
  proof (intro conjI allI ballI)
    fix x
    show "dll (snx ?w) (spv ?w) (g_head_sockets (groups ?w x)) (((a_socks A)(g := s # a_socks A g)) x)"
    proof (cases "x = g")
      case True
      with gs.link_refines_cons [where g = g and x = s, OF dl] fr(1) op show ?thesis by simp
    next
      case False
      have "set (a_socks A x) \<inter> set (a_socks A g) = {}"
        using assms(1) False by (auto simp: wf_but_def dest: wf_socks_disjoint)
      with False other dl fr(1) show ?thesis by (simp add: L(3))
    qed
  next
    fix x y
    assume "y \<in> set (((a_socks A)(g := s # a_socks A g)) x)"
    with assms nc fr(1) show "s_group (sockets ?w y) = Some x" "\<not> s_is_closed (sockets ?w y)"
      "s_low_prio_state (sockets ?w y) \<noteq> 1"
      by (auto simp: link_socket_group us_socket_is_closed_def wf_but_def wf_socks_def
          split: if_splits)
  qed
  have low: "wf_low (a_low A) ?w"
  proof -
    have "set (a_low A) \<inter> set (a_socks A g) = {}" "s \<notin> set (a_low A)"
      using assms(1) fr(2) by (auto simp: wf_but_def dest: wf_socks_low)
    moreover from this have "filter (\<lambda>y. s_group (sockets ?w y) = Some x) (a_low A)
        = filter (\<lambda>y. s_group (sockets w y) = Some x) (a_low A)" for x
      by (intro filter_cong) (auto simp: link_socket_group)
    ultimately show ?thesis
      using assms(1) by (auto simp: wf_but_def wf_low_def other link_socket_group)
  qed
  have closed: "wf_closed (a_closed A) (a_limbo A) ?w"
  proof -
    have "sll (snx ?w) h xs = sll (snx w) h xs" if "s \<notin> set xs" for h xs
      using that by (intro sll_frame) (auto simp: L)
    then show ?thesis using assms(1) fr(3) by (simp add: wf_but_def wf_closed_def)
  qed
  have conns: "wf_conns (a_conns A) ?w"
    using assms(1) by (simp add: wf_but_def wf_conns_def)
  have groups: "wf_groups (add_group g (a_groups A)) ?w"
    using assms(1) op by (auto simp: wf_but_def intro: link_socket_groups)
  have ne: "g_linked (groups ?w x) = (\<not> us_internal_group_is_empty x ?w) \<or> x \<in> X - {g} \<and> g_linked (groups ?w x)" for x
  proof -
    have lk: "g_linked (groups ?w x) = (x = g \<or> g_linked (groups w x))"
      using groups assms(1) by (auto simp: wf_but_def wf_groups_def add_group_def split: if_splits)
    then show ?thesis using assms(1)
      by (auto simp: wf_but_def us_internal_group_is_empty_def L(3) split: if_splits)
  qed
  have cnt: "wf_count (a_link g s A) ?w"
  proof -
    have d: "distinct (a_groups A)"
      using assms(1) by (auto simp: wf_but_def wf_groups_def dest: dll_distinct)
    have c: "ld_sweep_timer_count (loop ?w) = ld_sweep_timer_count (loop w) + 1"
      using op by (auto simp: us_internal_socket_group_link_socket_def Let_def split: option.splits)
    have "g \<notin> set (a_groups A) \<Longrightarrow> a_socks A g = [] \<and> a_conns A g = []"
    proof -
      assume "g \<notin> set (a_groups A)"
      then have "us_internal_group_is_empty g w" using assms(1) by (auto simp: wf_but_def wf_groups_def)
      then show ?thesis using assms(1)
        by (auto simp: us_internal_group_is_empty_def wf_but_def dest: wf_head_None [of _ _ g] wf_conn_head_None [of _ _ g])
    qed
    then show ?thesis using assms(1) c d
      by (auto simp: wf_but_def wf_count_def a_link_def add_group_def sweep_sum_upd sweep_sum_notin)
        (simp add: sweep_sum_def)
  qed
  have it: "wf_iter (a_link g s A) ?w"
    using assms(1) by (auto simp: wf_but_def wf_iter_def a_link_def add_group_def)
  have hp: "wf_heap (a_link g s A) ?w"
    using assms(1,2) by (auto simp: wf_but_def wf_heap_def on_list_def a_link_def)
  have lo: "wf_loose (a_link g s A) ?w"
    using assms(1) by (auto simp: wf_but_def wf_loose_def a_link_def)
  show ?thesis
    using groups ne socks conns low closed cnt it hp lo by (simp add: wf_but_def a_link_def)
qed

lemma link_socket_wf:
  assumes "wf_world A w" "s \<in> a_loose A" "s_low_prio_state (sockets w s) \<noteq> 1"
  shows "wf_world (a_link g s A) (us_internal_socket_group_link_socket g s w)"
  using link_socket_but [of "{}" A w s g] assms by (simp add: wf_but_empty)

lemma unlink_socket_lists:
  assumes "wf_socks ss w" "s \<in> set (ss g)"
  shows "s_next (sockets (us_internal_socket_group_unlink_socket g s w) a) = unlink_nx (snx w) (spv w) s a"
    "s_prev (sockets (us_internal_socket_group_unlink_socket g s w) a) = unlink_pv (snx w) (spv w) s a"
    "g_head_sockets (groups (us_internal_socket_group_unlink_socket g s w) x) =
       (if x = g then unlink_head (snx w) (spv w) (g_head_sockets (groups w g)) s
        else g_head_sockets (groups w x))"
    "g_iterator (groups (us_internal_socket_group_unlink_socket g s w) x) =
       (if x = g \<and> g_iterator (groups w g) = Some s then s_next (sockets w s)
        else g_iterator (groups w x))"
proof -
  have dl: "dll (snx w) (spv w) (g_head_sockets (groups w g)) (ss g)"
    using assms(1) by (simp add: wf_socks_def)
  note st = gs.unlink_step [where g = g, OF dl assms(2)]
  show "s_next (sockets (us_internal_socket_group_unlink_socket g s w) a) = unlink_nx (snx w) (spv w) s a"
    "s_prev (sockets (us_internal_socket_group_unlink_socket g s w) a) = unlink_pv (snx w) (spv w) s a"
    using st by (metis (no_types, lifting))+
  show "g_head_sockets (groups (us_internal_socket_group_unlink_socket g s w) x) =
       (if x = g then unlink_head (snx w) (spv w) (g_head_sockets (groups w g)) s
        else g_head_sockets (groups w x))"
    using st by (auto simp: us_internal_socket_group_unlink_socket_def unlink_socket_chain_def Let_def
        split: option.splits)
  show "g_iterator (groups (us_internal_socket_group_unlink_socket g s w) x) =
       (if x = g \<and> g_iterator (groups w g) = Some s then s_next (sockets w s)
        else g_iterator (groups w x))"
    by (auto simp: us_internal_socket_group_unlink_socket_def unlink_socket_chain_def Let_def
        split: option.splits)
qed

text \<open>Dropping the group when nothing keeps it linked.\<close>

lemma maybe_unlink_but:
  assumes "wf_but {g} A w"
  defines "w' \<equiv> us_internal_group_maybe_unlink g w"
  shows "wf_world (A\<lparr>a_groups := (if us_internal_group_is_empty g w' then remove1 g (a_groups A)
    else a_groups A)\<rparr>) w'"
proof -
  let ?e = "us_internal_group_is_empty g w'"
  let ?Gs = "if ?e then remove1 g (a_groups A) else a_groups A"
  have gv: "wf_groups (a_groups A) w" using assms(1) by (simp add: wf_but_def)
  have ev: "us_internal_group_is_empty g w = ?e" by (simp add: w'_def us_internal_group_is_empty_def)
  have gr: "wf_groups ?Gs w'"
    using maybe_unlink_groups [OF gv, of g] by (simp only: ev flip: w'_def)
  have li: "\<forall>x. ld_iterator (loop w') = Some x \<longrightarrow> x \<in> set ?Gs"
    using maybe_unlink_spec [OF gv, of g, unfolded ev, folded w'_def] assms(1) by (simp add: wf_but_def wf_iter_def)
  have gd: "distinct (a_groups A)" using gv by (auto simp: wf_groups_def dest: dll_distinct)
  have lk: "g_linked (groups w' x) = (x \<in> set ?Gs)" "g_linked (groups w x) = (x \<in> set (a_groups A))" for x
    using gr gv by (simp_all add: wf_groups_def)
  have ne: "wf_nonempty w'"
    unfolding wf_nonempty_def
  proof
    fix x
    have "us_internal_group_is_empty x w' = us_internal_group_is_empty x w"
      by (simp add: w'_def us_internal_group_is_empty_def)
    moreover have "g_linked (groups w x) = (\<not> us_internal_group_is_empty x w) \<or> x = g \<and> g_linked (groups w x)"
      using assms(1) by (simp add: wf_but_def)
    ultimately show "g_linked (groups w' x) = (\<not> us_internal_group_is_empty x w')"
      using gd lk [of x] ev by (auto simp: set_remove1_eq)
  qed
  have s: "wf_socks (a_socks A) w'" "wf_conns (a_conns A) w'" "wf_low (a_low A) w'" "wf_closed (a_closed A) (a_limbo A) w'"
    using assms(1) by (simp_all add: wf_but_def wf_socks_def wf_conns_def wf_low_def wf_closed_def w'_def)
  have eg: "a_socks A g = []" "a_conns A g = []" if ?e
    using that s by (auto simp: us_internal_group_is_empty_def dest: wf_head_None [of _ _ g] wf_conn_head_None [of _ _ g])
  let ?A = "A\<lparr>a_groups := ?Gs\<rparr>"
  have "g \<in> set (a_groups A) \<or> remove1 g (a_groups A) = a_groups A"
    by (cases "g \<in> set (a_groups A)") (simp_all add: remove1_idem)
  then have cnt: "wf_count ?A w'"
    using assms(1) eg by (auto simp: wf_but_def wf_count_def sweep_sum_remove1 w'_def)
  have it: "wf_iter ?A w'"
    using assms(1) li by (auto simp: wf_but_def wf_iter_def w'_def)
  have "on_list ?A x = on_list A x" for x by (simp add: on_list_def)
  then have hl: "wf_heap ?A w'" "wf_loose ?A w'" using assms(1) by (auto simp: wf_but_def wf_heap_def wf_loose_def w'_def)
  show ?thesis unfolding wf_world_def using gr ne s cnt it hl by simp
qed

text \<open>Unlinking up to \<open>maybe_unlink\<close>.\<close>

definition unlink_core :: "addr \<Rightarrow> addr \<Rightarrow> world \<Rightarrow> world" where
  "unlink_core g s w = us_internal_disable_sweep_timer (unlink_socket_chain g s
     (if g_iterator (groups w g) = Some s
      then upd_g g (g_iterator_update (\<lambda>_. s_next (sockets w s))) w else w))"

lemma unlink_socket_core: "us_internal_socket_group_unlink_socket g s w = us_internal_group_maybe_unlink g (unlink_core g s w)"
  by (simp add: us_internal_socket_group_unlink_socket_def unlink_core_def Let_def)

lemma unlink_core_frame:
  "s_group (sockets (unlink_core g s w) x) = s_group (sockets w x)"
  "s_is_closed (sockets (unlink_core g s w) x) = s_is_closed (sockets w x)"
  "s_low_prio_state (sockets (unlink_core g s w) x) = s_low_prio_state (sockets w x)"
  "conns (unlink_core g s w) = conns w" "heap_tag (unlink_core g s w) = heap_tag w"
  "next_addr (unlink_core g s w) = next_addr w"
  "ld_low_prio_head (loop (unlink_core g s w)) = ld_low_prio_head (loop w)"
  "ld_closed_head (loop (unlink_core g s w)) = ld_closed_head (loop w)"
  "ld_head (loop (unlink_core g s w)) = ld_head (loop w)"
  "ld_iterator (loop (unlink_core g s w)) = ld_iterator (loop w)"
  "ld_sweep_timer_count (loop (unlink_core g s w)) = ld_sweep_timer_count (loop w) - 1"
  "g_low_prio_count (groups (unlink_core g s w) x) = g_low_prio_count (groups w x)"
  "g_head_connecting_sockets (groups (unlink_core g s w) x) = g_head_connecting_sockets (groups w x)"
  "g_head_listen_sockets (groups (unlink_core g s w) x) = g_head_listen_sockets (groups w x)"
  "g_linked (groups (unlink_core g s w) x) = g_linked (groups w x)"
  "g_next (groups (unlink_core g s w) x) = g_next (groups w x)"
  "g_prev (groups (unlink_core g s w) x) = g_prev (groups w x)"
  by (auto simp: unlink_core_def unlink_socket_chain_def Let_def split: option.splits)

lemma unlink_core_wf:
  fixes g s :: addr
  assumes "wf_world A w" "s \<in> set (a_socks A g)"
  defines "u \<equiv> unlink_core g s w"
  shows "wf_but {g} (A\<lparr>a_socks := (a_socks A)(g := remove1 s (a_socks A g)), a_loose := insert s (a_loose A)\<rparr>) u"
proof -
  let ?A = "A\<lparr>a_socks := (a_socks A)(g := remove1 s (a_socks A g)), a_loose := insert s (a_loose A)\<rparr>"
  let ?ss = "(a_socks A)(g := remove1 s (a_socks A g))"
  have ws: "wf_socks (a_socks A) w" using assms(1) by (simp add: wf_world_def)
  note L = unlink_socket_lists [where g = g, OF ws assms(2), unfolded unlink_socket_core, folded u_def, simplified]
  note F = unlink_core_frame [of g s w, folded u_def]
  have dl: "dll (snx w) (spv w) (g_head_sockets (groups w x)) (a_socks A x)" for x
    using ws by (simp add: wf_socks_def)
  have dist: "distinct (a_socks A x)" for x using dl by (rule dll_distinct)
  have other: "dseg (snx u) (spv u) p h xs q = dseg (snx w) (spv w) p h xs q"
    if "set xs \<inter> set (a_socks A g) = {}" for p h xs q
    using that assms(2) by (intro dseg_frame)
      (auto simp: L disjoint_iff intro!: unlink_nx_other [OF dl [of g]] unlink_pv_other [OF dl [of g]])
  have socks: "wf_socks ?ss u"
    unfolding wf_socks_def
  proof (intro conjI allI ballI)
    fix x
    show "dll (snx u) (spv u) (g_head_sockets (groups u x)) (?ss x)"
    proof (cases "x = g")
      case True
      with gs.unlink_refines_remove [where g = g, OF dl assms(2)] show ?thesis by (simp add: unlink_socket_core u_def)
    next
      case False
      have "set (a_socks A x) \<inter> set (a_socks A g) = {}"
        using ws False by (auto dest: wf_socks_disjoint)
      with False other dl show ?thesis by (simp add: L(3))
    qed
  next
    fix x y
    assume "y \<in> set (?ss x)"
    then have "y \<in> set (a_socks A x)" using dist by (auto split: if_splits simp: set_remove1_eq)
    with ws show "s_group (sockets u y) = Some x" "\<not> s_is_closed (sockets u y)"
      "s_low_prio_state (sockets u y) \<noteq> 1"
      by (auto simp: F wf_socks_def)
  qed
  have low: "wf_low (a_low A) u"
  proof -
    have "set (a_low A) \<inter> set (a_socks A g) = {}"
      using assms(1) by (auto simp: wf_world_def dest: wf_socks_low)
    then show ?thesis using assms(1) by (simp add: wf_world_def wf_low_def other F)
  qed
  have closed: "wf_closed (a_closed A) (a_limbo A) u"
  proof -
    have "set (a_closed A) \<inter> set (a_socks A g) = {}"
      using assms(1) by (auto simp: wf_world_def wf_closed_def wf_socks_def)
    then have "sll (snx u) h (a_closed A) = sll (snx w) h (a_closed A)" for h
      using assms(2) by (intro sll_frame) (auto simp: L disjoint_iff intro!: unlink_nx_other [OF dl [of g]])
    then show ?thesis using assms(1) by (simp add: wf_world_def wf_closed_def F)
  qed
  have conns: "wf_conns (a_conns A) u"
    using assms(1) by (simp add: wf_world_def wf_conns_def F)
  have gr: "wf_groups (a_groups A) u"
    using assms(1) wf_groups_cong [of u w] by (simp add: F wf_world_def)
  have gd: "distinct (a_groups A)" using gr by (auto simp: wf_groups_def dest: dll_distinct)
  have gin: "g \<in> set (a_groups A)" using assms(1,2) by (rule wf_sock_group)
  have ne: "g_linked (groups u x) = (\<not> us_internal_group_is_empty x u) \<or> x \<in> {g} \<and> g_linked (groups u x)" for x
    using assms(1) gin by (cases "x = g")
      (auto simp: wf_world_def wf_nonempty_def wf_groups_def us_internal_group_is_empty_def L(3) F)
  have cnt: "wf_count ?A u"
  proof -
    have l: "int (length (remove1 s (a_socks A g))) = int (length (a_socks A g)) - 1"
      using assms(2) length_pos_if_in_set [OF assms(2)] by (simp add: length_remove1 of_nat_diff Suc_le_eq)
    show ?thesis using assms(1) l gin gd by (auto simp: wf_world_def wf_count_def sweep_sum_upd F)
  qed
  have it: "wf_iter ?A u"
  proof -
    have "n \<in> set (remove1 s (a_socks A g))" if "s_next (sockets w s) = Some n" for n
    proof -
      from assms(2) obtain as bs where xs: "a_socks A g = as @ s # bs" by (meson split_list)
      from dll_split(3) [OF dl [of g, unfolded xs]] that have "n \<in> set bs" by (cases bs) auto
      with dist [of g] xs show ?thesis by (auto simp: set_remove1_eq)
    qed
    then show ?thesis using assms(1) dist
      by (auto simp: wf_world_def wf_iter_def F L(4) set_remove1_eq split: if_splits)
  qed
  have sl: "s \<notin> set (a_low A)"
    using assms(1) wf_socks_low [OF ws _ assms(2)] by (simp add: wf_world_def)
  have sc: "\<not> s_is_closed (sockets w s)" using ws assms(2) by (simp add: wf_socks_def)
  have so: "\<And>x. x \<noteq> g \<Longrightarrow> s \<notin> set (a_socks A x)" using wf_socks_disjoint [OF ws assms(2)] by blast
  have "on_list ?A x = on_list A x" for x
  proof (cases "x = s")
    case True
    with assms(2) show ?thesis by (auto simp: on_list_def)
  next
    case False
    then have "x \<in> set (?ss y) \<longleftrightarrow> x \<in> set (a_socks A y)" for y by simp
    with False show ?thesis by (simp add: on_list_def)
  qed
  then have hp: "wf_heap ?A u"
    using assms(1) by (simp add: wf_world_def wf_heap_def F)
  have lo: "wf_loose ?A u"
    using assms(1) sl sc so dist by (auto simp: wf_world_def wf_loose_def F set_remove1_eq)
  show ?thesis
    unfolding wf_but_def using gr ne socks conns low closed cnt it hp lo by simp
qed

lemma unlink_socket_wf:
  fixes g s :: addr
  assumes "wf_world A w" "s \<in> set (a_socks A g)"
  defines "w' \<equiv> us_internal_socket_group_unlink_socket g s w"
  shows "wf_world (a_unlink (us_internal_group_is_empty g w') g s A) w'"
proof -
  let ?B = "A\<lparr>a_socks := (a_socks A)(g := remove1 s (a_socks A g)), a_loose := insert s (a_loose A)\<rparr>"
  have "a_unlink e g s A = ?B\<lparr>a_groups := (if e then remove1 g (a_groups ?B) else a_groups ?B)\<rparr>" for e
    by (simp add: a_unlink_def)
  then show ?thesis
    using maybe_unlink_but [OF unlink_core_wf [OF assms(1,2)]] by (simp add: w'_def unlink_socket_core)
qed

subsection \<open>Linking and unlinking a connecting socket\<close>

definition a_link_c :: "addr \<Rightarrow> addr \<Rightarrow> absr \<Rightarrow> absr" where
  "a_link_c g c A = A\<lparr>a_conns := (a_conns A)(g := c # a_conns A g), a_groups := add_group g (a_groups A)\<rparr>"

definition a_unlink_c :: "bool \<Rightarrow> addr \<Rightarrow> addr \<Rightarrow> absr \<Rightarrow> absr" where
  "a_unlink_c e g c A = A\<lparr>a_conns := (a_conns A)(g := remove1 c (a_conns A g)),
     a_groups := (if e then remove1 g (a_groups A) else a_groups A)\<rparr>"

lemma link_conn_lists:
  assumes "\<not> c_closed (conns w c)"
  shows "c_next_pending (conns (us_internal_socket_group_link_connecting_socket g c w) a) =
       ((cnx w)(c := g_head_connecting_sockets (groups w g))) a"
    "c_prev_pending (conns (us_internal_socket_group_link_connecting_socket g c w) a) =
       link_pv (cpv w) (g_head_connecting_sockets (groups w g)) c a"
    "g_head_connecting_sockets (groups (us_internal_socket_group_link_connecting_socket g c w) x) =
       (if x = g then Some c else g_head_connecting_sockets (groups w x))"
proof -
  show "c_next_pending (conns (us_internal_socket_group_link_connecting_socket g c w) a) =
       ((cnx w)(c := g_head_connecting_sockets (groups w g))) a"
    "c_prev_pending (conns (us_internal_socket_group_link_connecting_socket g c w) a) =
       link_pv (cpv w) (g_head_connecting_sockets (groups w g)) c a"
    using gc.link_step [OF assms, of g] by (metis (no_types, lifting))+
  show "g_head_connecting_sockets (groups (us_internal_socket_group_link_connecting_socket g c w) x) =
       (if x = g then Some c else g_head_connecting_sockets (groups w x))"
    using assms by (auto simp: us_internal_socket_group_link_connecting_socket_def Let_def split: option.splits)
qed

lemma link_conn_groups:
  assumes "wf_groups Gs w" "\<not> c_closed (conns w c)"
  shows "wf_groups (add_group g Gs) (us_internal_socket_group_link_connecting_socket g c w)"
proof -
  let ?h = "g_head_connecting_sockets (groups w g)"
  let ?u = "upd_c c (\<lambda>x. x\<lparr>c_group := Some g, c_next_pending := ?h, c_prev_pending := None\<rparr>) w"
  let ?v = "upd_g g (g_head_connecting_sockets_update (\<lambda>_. Some c))
    (case ?h of Some y \<Rightarrow> upd_c y (c_prev_pending_update (\<lambda>_. Some c)) ?u | None \<Rightarrow> ?u)"
  have "wf_groups Gs ?v = wf_groups Gs w"
    by (rule wf_groups_cong) (auto split: option.splits)
  with touched_groups [of Gs ?v g] assms show ?thesis
    by (simp add: us_internal_socket_group_link_connecting_socket_def Let_def add_group_def
        wf_groups_cong [of "us_internal_enable_sweep_timer v" v for v])
qed

lemma link_conn_wf:
  assumes "wf_world A w" "fresh_conn c A" "\<not> c_closed (conns w c)"
  shows "wf_world (a_link_c g c A) (us_internal_socket_group_link_connecting_socket g c w)"
proof -
  let ?w = "us_internal_socket_group_link_connecting_socket g c w"
  note L = link_conn_lists [OF assms(3)]
  have dl: "dll (cnx w) (cpv w) (g_head_connecting_sockets (groups w g)) (a_conns A g)" for g
    using assms(1) by (simp add: wf_world_def wf_conns_def)
  have other: "dseg (cnx ?w) (cpv ?w) p h xs q = dseg (cnx w) (cpv w) p h xs q"
    if "c \<notin> set xs" "set xs \<inter> set (a_conns A g) = {}" for p h xs q
    using that by (intro dseg_frame) (auto simp: L disjoint_iff intro!: link_pv_other [OF dl [of g]])
  have conns: "wf_conns ((a_conns A)(g := c # a_conns A g)) ?w"
    unfolding wf_conns_def
  proof (intro conjI allI ballI)
    fix x
    show "dll (cnx ?w) (cpv ?w) (g_head_connecting_sockets (groups ?w x)) (((a_conns A)(g := c # a_conns A g)) x)"
    proof (cases "x = g")
      case True
      with gc.link_refines_cons [where g = g and x = c, OF dl] assms(2,3) show ?thesis
        by (simp add: fresh_conn_def)
    next
      case False
      have "set (a_conns A x) \<inter> set (a_conns A g) = {}"
        using assms(1) False by (auto simp: wf_world_def dest: wf_conns_disjoint)
      with False other dl assms(2) show ?thesis by (simp add: fresh_conn_def L(3))
    qed
  next
    fix x y
    assume "y \<in> set (((a_conns A)(g := c # a_conns A g)) x)"
    with assms show "c_group (conns ?w y) = Some x"
      by (auto simp: link_connecting_group wf_world_def wf_conns_def fresh_conn_def split: if_splits)
  qed
  have groups: "wf_groups (add_group g (a_groups A)) ?w"
    using assms(1,3) by (auto simp: wf_world_def intro: link_conn_groups)
  have ne: "wf_nonempty ?w"
  proof -
    have lk: "g_linked (groups ?w x) = (x = g \<or> g_linked (groups w x))" for x
      using groups assms(1) by (auto simp: wf_world_def wf_groups_def add_group_def split: if_splits)
    then show ?thesis using assms(1)
      by (auto simp: wf_nonempty_def wf_world_def us_internal_group_is_empty_def L(3) split: if_splits)
  qed
  have cnt: "wf_count (a_link_c g c A) ?w"
  proof -
    have d: "distinct (a_groups A)"
      using assms(1) by (auto simp: wf_world_def wf_groups_def dest: dll_distinct)
    have k: "ld_sweep_timer_count (loop ?w) = ld_sweep_timer_count (loop w) + 1"
      using assms(3) by (auto simp: us_internal_socket_group_link_connecting_socket_def Let_def split: option.splits)
    have "g \<notin> set (a_groups A) \<Longrightarrow> a_socks A g = [] \<and> a_conns A g = []"
      using wf_unlinked_empty [OF assms(1)] by simp
    then show ?thesis using assms(1) k d
      by (auto simp: wf_world_def wf_count_def a_link_c_def add_group_def sweep_sum_upd sweep_sum_notin)
        (simp add: sweep_sum_def)
  qed
  have rest: "wf_socks (a_socks A) ?w" "wf_low (a_low A) ?w" "wf_closed (a_closed A) (a_limbo A) ?w"
    "wf_iter (a_link_c g c A) ?w" "wf_heap (a_link_c g c A) ?w" "wf_loose (a_link_c g c A) ?w"
    using assms(1)
    by (auto simp: wf_world_def wf_socks_def wf_low_def wf_closed_def wf_iter_def wf_heap_def wf_loose_def
        on_list_def a_link_c_def add_group_def)
  show ?thesis using groups ne conns cnt rest by (simp add: wf_world_def a_link_c_def)
qed

lemma unlink_conn_groups:
  fixes g c :: addr
  assumes "wf_groups Gs w" "\<forall>x. ld_iterator (loop w) = Some x \<longrightarrow> x \<in> set Gs"
  defines "w' \<equiv> us_internal_socket_group_unlink_connecting_socket g c w"
  shows "wf_groups (if us_internal_group_is_empty g w' then remove1 g Gs else Gs) w'
    \<and> (\<forall>x. ld_iterator (loop w') = Some x \<longrightarrow>
         x \<in> set (if us_internal_group_is_empty g w' then remove1 g Gs else Gs))"
proof -
  obtain v where v: "v = us_internal_disable_sweep_timer (unlink_connecting_chain g c w)" by blast
  have w': "w' = us_internal_group_maybe_unlink g v"
    by (simp add: w'_def v us_internal_socket_group_unlink_connecting_socket_def Let_def)
  have "wf_groups Gs v = wf_groups Gs w"
    by (rule wf_groups_cong) (auto simp: v unlink_connecting_chain_def Let_def split: option.splits)
  moreover have "ld_iterator (loop v) = ld_iterator (loop w)"
    by (auto simp: v unlink_connecting_chain_def Let_def split: option.splits)
  moreover have "us_internal_group_is_empty g w' = us_internal_group_is_empty g v"
    by (simp add: w' us_internal_group_is_empty_def)
  ultimately show ?thesis
    using maybe_unlink_groups [of Gs v g] maybe_unlink_spec [of Gs v g] assms(1,2) by (simp add: w')
qed

lemma unlink_conn_wf:
  fixes g c :: addr
  assumes "wf_world A w" "c \<in> set (a_conns A g)"
  defines "w' \<equiv> us_internal_socket_group_unlink_connecting_socket g c w"
  shows "wf_world (a_unlink_c (us_internal_group_is_empty g w') g c A) w'"
proof -
  let ?e = "us_internal_group_is_empty g w'"
  let ?cs = "(a_conns A)(g := remove1 c (a_conns A g))"
  have wc: "wf_conns (a_conns A) w" using assms(1) by (simp add: wf_world_def)
  have dl: "dll (cnx w) (cpv w) (g_head_connecting_sockets (groups w x)) (a_conns A x)" for x
    using wc by (simp add: wf_conns_def)
  have dist: "distinct (a_conns A x)" for x using dl by (rule dll_distinct)
  note st = gc.unlink_step [where g = g, OF dl assms(2), folded w'_def]
  have L: "c_next_pending (conns w' a) = unlink_nx (cnx w) (cpv w) c a"
    "c_prev_pending (conns w' a) = unlink_pv (cnx w) (cpv w) c a"
    "g_head_connecting_sockets (groups w' x) = (if x = g
       then unlink_head (cnx w) (cpv w) (g_head_connecting_sockets (groups w g)) c
       else g_head_connecting_sockets (groups w x))" for a x
    using st by (metis (no_types, lifting), metis (no_types, lifting),
        auto simp: w'_def us_internal_socket_group_unlink_connecting_socket_def
          unlink_connecting_chain_def Let_def split: option.splits)
  have conns: "wf_conns ?cs w'"
    unfolding wf_conns_def
  proof (intro conjI allI ballI)
    fix x
    show "dll (cnx w') (cpv w') (g_head_connecting_sockets (groups w' x)) (?cs x)"
    proof (cases "x = g")
      case True
      with gc.unlink_refines_remove [where g = g, OF dl assms(2)] show ?thesis by (simp add: w'_def)
    next
      case False
      have "set (a_conns A x) \<inter> set (a_conns A g) = {}"
        using wc False by (auto dest: wf_conns_disjoint)
      then have "dll (cnx w') (cpv w') h (a_conns A x) = dll (cnx w) (cpv w) h (a_conns A x)" for h
        using assms(2) by (intro dseg_frame)
          (auto simp: L disjoint_iff intro!: unlink_nx_other [OF dl [of g]] unlink_pv_other [OF dl [of g]])
      with False dl show ?thesis by (simp add: L(3))
    qed
  next
    fix x y
    assume "y \<in> set (?cs x)"
    then have "y \<in> set (a_conns A x)" using dist by (auto split: if_splits simp: set_remove1_eq)
    with wc show "c_group (conns w' y) = Some x" by (auto simp: w'_def wf_conns_def)
  qed
  have gr: "wf_groups (if ?e then remove1 g (a_groups A) else a_groups A) w'"
    and li: "\<forall>x. ld_iterator (loop w') = Some x \<longrightarrow> x \<in> set (if ?e then remove1 g (a_groups A) else a_groups A)"
    using unlink_conn_groups [of "a_groups A" w g c] assms(1)
    by (auto simp: wf_world_def wf_iter_def w'_def)
  have gd: "distinct (a_groups A)" using assms(1) by (auto simp: wf_world_def wf_groups_def dest: dll_distinct)
  have gin: "g \<in> set (a_groups A)" using assms(1,2) by (rule wf_conn_group)
  have ne: "wf_nonempty w'"
    unfolding wf_nonempty_def
  proof
    fix x
    have lk: "g_linked (groups w' x) = (x \<in> set (if ?e then remove1 g (a_groups A) else a_groups A))"
      using gr by (simp add: wf_groups_def)
    show "g_linked (groups w' x) = (\<not> us_internal_group_is_empty x w')"
    proof (cases "x = g")
      case True
      with lk gd gin show ?thesis by (simp add: set_remove1_eq)
    next
      case False
      then have "us_internal_group_is_empty x w' = us_internal_group_is_empty x w"
        by (simp add: us_internal_group_is_empty_def L(3)) (simp add: w'_def)
      with False lk gd assms(1) show ?thesis
        by (auto simp: wf_world_def wf_nonempty_def wf_groups_def set_remove1_eq)
    qed
  qed
  have rest: "wf_socks (a_socks A) w'" "wf_low (a_low A) w'" "wf_closed (a_closed A) (a_limbo A) w'"
    "wf_iter (a_unlink_c ?e g c A) w'" "wf_heap (a_unlink_c ?e g c A) w'" "wf_loose (a_unlink_c ?e g c A) w'"
    using assms(1) li by (auto simp: w'_def wf_world_def wf_socks_def wf_low_def wf_closed_def wf_iter_def
        wf_heap_def wf_loose_def on_list_def a_unlink_c_def)
  have cnt: "wf_count (a_unlink_c ?e g c A) w'"
  proof -
    have k: "ld_sweep_timer_count (loop w') = ld_sweep_timer_count (loop w) - 1"
      by (auto simp: w'_def us_internal_socket_group_unlink_connecting_socket_def
          unlink_connecting_chain_def Let_def split: option.splits)
    have l: "int (length (remove1 c (a_conns A g))) = int (length (a_conns A g)) - 1"
      using assms(2) length_pos_if_in_set [OF assms(2)] by (simp add: length_remove1 of_nat_diff Suc_le_eq)
    have e: "?cs g = []" "a_socks A g = []" if ?e
      using that rest conns by (auto simp: us_internal_group_is_empty_def
          dest: wf_head_None [of _ _ g] wf_conn_head_None [of _ _ g])
    show ?thesis using assms(1) k l gin gd e
      by (auto simp: wf_world_def wf_count_def a_unlink_c_def sweep_sum_remove1 sweep_sum_upd)
  qed
  show ?thesis using gr ne conns cnt rest by (simp add: wf_world_def a_unlink_c_def)
qed

subsection \<open>What the invariant depends on\<close>

text \<open>Polls, callbacks, the kernel and the other fields of the objects play no part in it.\<close>

lemma wf_cong:
  assumes "\<And>a. s_next (sockets w' a) = s_next (sockets w a)" "\<And>a. s_prev (sockets w' a) = s_prev (sockets w a)"
    "\<And>a. s_group (sockets w' a) = s_group (sockets w a)"
    "\<And>a. s_is_closed (sockets w' a) = s_is_closed (sockets w a)"
    "\<And>a. s_low_prio_state (sockets w' a) = 1 \<longleftrightarrow> s_low_prio_state (sockets w a) = 1"
    "\<And>a. c_next_pending (conns w' a) = c_next_pending (conns w a)"
    "\<And>a. c_prev_pending (conns w' a) = c_prev_pending (conns w a)"
    "\<And>a. c_group (conns w' a) = c_group (conns w a)"
    "\<And>g. g_next (groups w' g) = g_next (groups w g)" "\<And>g. g_prev (groups w' g) = g_prev (groups w g)"
    "\<And>g. g_linked (groups w' g) = g_linked (groups w g)"
    "\<And>g. g_head_sockets (groups w' g) = g_head_sockets (groups w g)"
    "\<And>g. g_head_connecting_sockets (groups w' g) = g_head_connecting_sockets (groups w g)"
    "\<And>g. g_head_listen_sockets (groups w' g) = g_head_listen_sockets (groups w g)"
    "\<And>g. g_low_prio_count (groups w' g) = g_low_prio_count (groups w g)"
    "\<And>g. g_iterator (groups w' g) = g_iterator (groups w g)"
    "ld_head (loop w') = ld_head (loop w)" "ld_iterator (loop w') = ld_iterator (loop w)"
    "ld_low_prio_head (loop w') = ld_low_prio_head (loop w)"
    "ld_closed_head (loop w') = ld_closed_head (loop w)"
    "ld_sweep_timer_count (loop w') = ld_sweep_timer_count (loop w)"
    "heap_tag w' = heap_tag w" "next_addr w' = next_addr w"
  shows "wf_world A w' = wf_world A w"
  by (simp add: assms wf_world_def wf_groups_def wf_nonempty_def us_internal_group_is_empty_def wf_socks_def
      wf_conns_def wf_low_def wf_closed_def wf_count_def wf_iter_def wf_heap_def wf_loose_def)

lemma wf_kern [simp]: "wf_world A (upd_kern f w) = wf_world A w"
  by (rule wf_cong) simp_all

lemma wf_lift_k [simp]: "wf_world A (snd (lift_k f w)) = wf_world A w"
  by (rule wf_cong) simp_all

lemma wf_ext_call [simp]: "wf_world A (ext_call c w) = wf_world A w"
  by (rule wf_cong) simp_all

lemma wf_log_event [simp]: "wf_world A (log_event e w) = wf_world A w"
  by (simp add: log_event_def)

lemma wf_upd_p [simp]: "wf_world A (upd_p p f w) = wf_world A w"
  by (rule wf_cong) simp_all

lemma wf_poll_ops [simp]:
  "wf_world A (us_poll_change p ev w) = wf_world A w" "wf_world A (us_poll_stop p w) = wf_world A w"
  "wf_world A (us_poll_start p ev w) = wf_world A w" "wf_world A (us_poll_init p fd ty w) = wf_world A w"
  "wf_world A (us_internal_poll_set_type p ty w) = wf_world A w"
  "wf_world A (us_internal_loop_update_pending_ready_polls q r w) = wf_world A w"
  by (rule wf_cong; simp add: us_poll_init_def us_internal_poll_set_type_def)+

text \<open>An update of a socket that keeps its links, its group and its state bits.\<close>

lemma wf_upd_s:
  assumes "\<And>x. s_next (f x) = s_next x" "\<And>x. s_prev (f x) = s_prev x" "\<And>x. s_group (f x) = s_group x"
    "\<And>x. s_is_closed (f x) = s_is_closed x" "\<And>x. s_low_prio_state (f x) = s_low_prio_state x"
  shows "wf_world A (upd_s s f w) = wf_world A w"
  by (rule wf_cong) (simp_all add: assms)

lemma wf_upd_loop:
  assumes "\<And>l. ld_head (f l) = ld_head l" "\<And>l. ld_iterator (f l) = ld_iterator l"
    "\<And>l. ld_low_prio_head (f l) = ld_low_prio_head l" "\<And>l. ld_closed_head (f l) = ld_closed_head l"
    "\<And>l. ld_sweep_timer_count (f l) = ld_sweep_timer_count l"
  shows "wf_world A (upd_loop f w) = wf_world A w"
  by (rule wf_cong) (simp_all add: assms)

subsection \<open>Leaving the low priority queue\<close>

lemma low_chain_lists:
  assumes "wf_low ls w" "s \<in> set ls"
  shows "s_next (sockets (low_prio_chain s w) a) = unlink_nx (snx w) (spv w) s a"
    "s_prev (sockets (low_prio_chain s w) a) = unlink_pv (snx w) (spv w) s a"
    "dll (snx (low_prio_chain s w)) (spv (low_prio_chain s w)) (ld_low_prio_head (loop (low_prio_chain s w)))
       (remove1 s ls)"
proof -
  have dl: "dll (snx w) (spv w) (ld_low_prio_head (loop w)) ls" using assms(1) by (simp add: wf_low_def)
  note st = gq.unlink_step [OF dl assms(2)]
  show "s_next (sockets (low_prio_chain s w) a) = unlink_nx (snx w) (spv w) s a"
    "s_prev (sockets (low_prio_chain s w) a) = unlink_pv (snx w) (spv w) s a"
    using st by (metis (no_types, lifting))+
  show "dll (snx (low_prio_chain s w)) (spv (low_prio_chain s w)) (ld_low_prio_head (loop (low_prio_chain s w)))
       (remove1 s ls)"
    by (rule gq.unlink_refines_remove [OF dl assms(2)])
qed

end
