(* ===== verification/Us_Close.thy ===== *)
theory Us_Close imports
  Us_Invariant
begin

section \<open>Raw output, the TLS session of a socket, and closing (\<open>socket.c\<close>, \<open>crypto/openssl.c\<close>)\<close>

text \<open>
  Closing a socket runs through the TLS layer and back, so the part of it that closing needs is here:
  the BIO callbacks BoringSSL makes while one of its functions runs, the queries of the session, the
  handshake state machine and the graceful close. \<open>ssl_call\<close> is one call into BoringSSL: the answer
  comes from the script, and the BIO operations it lists are performed on the socket that
  \<open>ssl_set_loop_data\<close> selected.
\<close>

subsection \<open>Raw output\<close>

definition us_socket_raw_write :: "addr \<Rightarrow> u8 list \<Rightarrow> world \<Rightarrow> int \<times> world" where
  "us_socket_raw_write s data w =
    (if us_socket_is_closed s w \<or> us_internal_poll_type s w = POLL_TYPE_SOCKET_SHUT_DOWN then (0, w)
     else let (written, w) = lift_k (bsd_send (us_poll_fd s w) data) w;
              w = (if written \<noteq> int (length data)
                   then us_poll_change s (LIBUS_SOCKET_READABLE OR LIBUS_SOCKET_WRITABLE)
                          (upd_s s (s_last_write_failed_update (\<lambda>_. True)) w)
                   else w)
     in (if written < 0 then 0 else written, w))"

definition us_internal_socket_raw_shutdown :: "addr \<Rightarrow> world \<Rightarrow> world" where
  "us_internal_socket_raw_shutdown s w =
    (if \<not> us_socket_is_closed s w \<and> us_internal_poll_type s w \<noteq> POLL_TYPE_SOCKET_SHUT_DOWN then
       (let w = us_internal_poll_set_type s POLL_TYPE_SOCKET_SHUT_DOWN w;
            w = us_poll_change s (us_poll_events s w AND LIBUS_SOCKET_READABLE) w
        in snd (lift_k (\<lambda>k. ((), bsd_shutdown_socket (us_poll_fd s w) k)) w))
     else w)"

subsection \<open>Calls into BoringSSL\<close>

definition BIO_s_custom_write :: "u8 list \<Rightarrow> world \<Rightarrow> int \<times> world" where
  "BIO_s_custom_write data w = (case ld_ssl_socket (loop w) of
     None \<Rightarrow> (-1, w)
   | Some s \<Rightarrow> (let (written, w) = us_socket_raw_write s data w in
       if written = 0 then (-1, w) else (written, w)))"

definition BIO_s_custom_read :: "int \<Rightarrow> world \<Rightarrow> int \<times> u8 list \<times> world" where
  "BIO_s_custom_read len w = (let l = loop w in
     if ld_ssl_read_input_length l = 0 then (-1, [], w)
     else let n = (if len > ld_ssl_read_input_length l then ld_ssl_read_input_length l else len)
     in (n, take (nat n) (drop (nat (ld_ssl_read_input_offset l)) (ld_ssl_read_input l)),
         upd_loop (\<lambda>l. l\<lparr>ld_ssl_read_input_offset := ld_ssl_read_input_offset l + n,
                         ld_ssl_read_input_length := ld_ssl_read_input_length l - n\<rparr>) w))"

definition bio_step :: "bio_op \<Rightarrow> world \<Rightarrow> world" where
  "bio_step b w = (case b of
     Bio_write data \<Rightarrow> snd (BIO_s_custom_write data w)
   | Bio_read n \<Rightarrow> snd (snd (BIO_s_custom_read n w)))"

definition ssl_call :: "ssl_op \<Rightarrow> addr \<Rightarrow> world \<Rightarrow> reply \<times> world" where
  "ssl_call opr ssl w = (let (r, w) = lift_k (sys (Ssl opr ssl)) w in (r, fold bio_step (r_bio r) w))"

definition ssl_ret :: "ssl_op \<Rightarrow> addr \<Rightarrow> world \<Rightarrow> int \<times> world" where
  "ssl_ret opr ssl w = (let (r, w) = ssl_call opr ssl w in (r_ret r, w))"

definition SSL_SENT_SHUTDOWN :: "int" where "SSL_SENT_SHUTDOWN = 1"
definition SSL_RECEIVED_SHUTDOWN :: "int" where "SSL_RECEIVED_SHUTDOWN = 2"
definition SSL_ERROR_SSL :: "int" where "SSL_ERROR_SSL = 1"
definition SSL_ERROR_WANT_READ :: "int" where "SSL_ERROR_WANT_READ = 2"
definition SSL_ERROR_WANT_WRITE :: "int" where "SSL_ERROR_WANT_WRITE = 3"
definition SSL_ERROR_SYSCALL :: "int" where "SSL_ERROR_SYSCALL = 5"
definition SSL_ERROR_ZERO_RETURN :: "int" where "SSL_ERROR_ZERO_RETURN = 6"
definition SSL_ERROR_WANT_RENEGOTIATE :: "int" where "SSL_ERROR_WANT_RENEGOTIATE = 19"

lemmas ssl_error_defs = SSL_SENT_SHUTDOWN_def SSL_RECEIVED_SHUTDOWN_def SSL_ERROR_SSL_def
  SSL_ERROR_WANT_READ_def SSL_ERROR_WANT_WRITE_def SSL_ERROR_SYSCALL_def SSL_ERROR_ZERO_RETURN_def
  SSL_ERROR_WANT_RENEGOTIATE_def

definition HANDSHAKE_PENDING :: "2 word" where "HANDSHAKE_PENDING = 0"
definition HANDSHAKE_COMPLETED :: "2 word" where "HANDSHAKE_COMPLETED = 1"
definition HANDSHAKE_RENEGOTIATION_PENDING :: "2 word" where "HANDSHAKE_RENEGOTIATION_PENDING = 2"

lemmas handshake_defs = HANDSHAKE_PENDING_def HANDSHAKE_COMPLETED_def HANDSHAKE_RENEGOTIATION_PENDING_def

definition ssl_set_loop_data :: "addr \<Rightarrow> world \<Rightarrow> world" where
  "ssl_set_loop_data s w = upd_loop (\<lambda>l. l\<lparr>ld_ssl_read_input_length := 0,
     ld_ssl_read_input_offset := 0, ld_ssl_socket := Some s\<rparr>) w"

definition us_internal_ssl_detach :: "addr \<Rightarrow> world \<Rightarrow> world" where
  "us_internal_ssl_detach s w = (case s_ssl (sockets w s) of
     None \<Rightarrow> w
   | Some ssl \<Rightarrow> upd_s s (s_ssl_update (\<lambda>_. None)) (ext_call (Ssl SSL_free ssl) w))"

definition us_internal_ssl_is_shut_down :: "addr \<Rightarrow> world \<Rightarrow> bool \<times> world" where
  "us_internal_ssl_is_shut_down s w =
    (if us_internal_poll_type s w = POLL_TYPE_SOCKET_SHUT_DOWN then (True, w)
     else case s_ssl (sockets w s) of
       None \<Rightarrow> (True, w)
     | Some ssl \<Rightarrow> (let (st, w) = ssl_ret SSL_get_shutdown ssl w in
         (st AND SSL_SENT_SHUTDOWN \<noteq> 0 \<or> s_ssl_fatal_error (sockets w s), w)))"

definition us_socket_is_shut_down :: "addr \<Rightarrow> world \<Rightarrow> bool \<times> world" where
  "us_socket_is_shut_down s w =
    (if s_ssl (sockets w s) \<noteq> None then us_internal_ssl_is_shut_down s w
     else (us_internal_poll_type s w = POLL_TYPE_SOCKET_SHUT_DOWN, w))"

definition ssl_gone :: "addr \<Rightarrow> world \<Rightarrow> bool" where
  "ssl_gone s w = (us_socket_is_closed s w \<or> s_ssl (sockets w s) = None)"

subsection \<open>Verification of the peer\<close>

definition X509_V_OK :: "int" where "X509_V_OK = 0"
definition X509_V_ERR_UNABLE_TO_GET_ISSUER_CERT :: "int" where "X509_V_ERR_UNABLE_TO_GET_ISSUER_CERT = 2"
definition TLS1_3_VERSION :: "int" where "TLS1_3_VERSION = 772"

definition us_internal_verify_peer_certificate :: "addr \<Rightarrow> int \<Rightarrow> world \<Rightarrow> int \<times> world" where
  "us_internal_verify_peer_certificate ssl dflt w =
    (let (cert, w) = ssl_ret SSL_get_peer_certificate ssl w in
     if cert \<noteq> 0 then ssl_ret SSL_get_verify_result ssl w
     else let (psk, w) = ssl_ret SSL_cipher_auth_is_psk ssl w;
              (version, w) = ssl_ret SSL_session_version ssl w in
     if psk \<noteq> 0 then (X509_V_OK, w)
     else if version = TLS1_3_VERSION then
       (let (reused, w) = ssl_ret SSL_session_reused ssl w in
        if reused \<noteq> 0 then (X509_V_OK, w) else (dflt, w))
     else (dflt, w))"

definition us_ssl_socket_verify_error_from_ssl :: "addr \<Rightarrow> world \<Rightarrow> int \<times> world" where
  "us_ssl_socket_verify_error_from_ssl ssl w =
     us_internal_verify_peer_certificate ssl X509_V_ERR_UNABLE_TO_GET_ISSUER_CERT w"

definition us_internal_ssl_verify_error :: "addr \<Rightarrow> world \<Rightarrow> int \<times> world" where
  "us_internal_ssl_verify_error s w = (case s_ssl (sockets w s) of
     None \<Rightarrow> (0, w)
   | Some ssl \<Rightarrow> if us_socket_is_closed s w then (0, w)
       else let (sd, w) = us_internal_ssl_is_shut_down s w in
         if sd then (0, w) else us_ssl_socket_verify_error_from_ssl ssl w)"

definition us_socket_verify_error :: "addr \<Rightarrow> world \<Rightarrow> int \<times> world" where
  "us_socket_verify_error s w =
    (if s_ssl (sockets w s) \<noteq> None then us_internal_ssl_verify_error s w else (0, w))"

subsection \<open>The handshake\<close>

definition ssl_trigger_handshake :: "handler \<Rightarrow> addr \<Rightarrow> bool \<Rightarrow> world \<Rightarrow> world" where
  "ssl_trigger_handshake h s success w =
    (let w = upd_s s (s_ssl_handshake_state_update (\<lambda>_. HANDSHAKE_COMPLETED)) w;
         (err, w) = us_internal_ssl_verify_error s w
     in snd (dispatch h (Ev_handshake s success err) w))"

definition ssl_trigger_handshake_econnreset :: "handler \<Rightarrow> addr \<Rightarrow> world \<Rightarrow> world" where
  "ssl_trigger_handshake_econnreset h s w =
    (let w = upd_s s (s_ssl_handshake_state_update (\<lambda>_. HANDSHAKE_COMPLETED)) w
     in snd (dispatch h (Ev_handshake s False (-46)) w))"

definition ssl_renegotiate :: "handler \<Rightarrow> addr \<Rightarrow> world \<Rightarrow> bool \<times> world" where
  "ssl_renegotiate h s w =
    (let w = upd_s s (s_ssl_handshake_state_update (\<lambda>_. HANDSHAKE_RENEGOTIATION_PENDING)) w;
         (r, w) = ssl_ret SSL_renegotiate (the (s_ssl (sockets w s))) w
     in if r = 0 then (False, ssl_trigger_handshake h s False w) else (True, w))"

text \<open>
  The second result of one step of \<open>ssl_update_handshake\<close> says whether its next action is
  \<open>ssl_close(s, 0, NULL)\<close> (which ends it); that call is made where the two functions are tied.
\<close>

definition ssl_update_step :: "handler \<Rightarrow> addr \<Rightarrow> world \<Rightarrow> bool \<times> world" where
  "ssl_update_step h s w =
    (if s_ssl (sockets w s) = None \<or> s_ssl_handshake_state (sockets w s) \<noteq> HANDSHAKE_PENDING then (False, w)
     else let ssl = the (s_ssl (sockets w s)); (fin, w) = ssl_ret SSL_is_init_finished ssl w in
     if fin \<noteq> 0 then (False, ssl_trigger_handshake h s True w)
     else let (sd, w) = (if us_socket_is_closed s w then (True, w) else us_internal_ssl_is_shut_down s w);
              (rcv, w) = (if sd then (True, w)
                else let (st, w) = ssl_ret SSL_get_shutdown ssl w in (st AND SSL_RECEIVED_SHUTDOWN \<noteq> 0, w)) in
     if rcv then (False, ssl_trigger_handshake h s False w)
     else let (result, w) = ssl_ret SSL_do_handshake ssl w;
              (st, w) = ssl_ret SSL_get_shutdown ssl w in
     if st AND SSL_RECEIVED_SHUTDOWN \<noteq> 0 then (True, w)
     else if result \<le> 0 then
       (let (err, w) = ssl_ret (SSL_get_error result) ssl w in
        if err \<noteq> SSL_ERROR_WANT_READ \<and> err \<noteq> SSL_ERROR_WANT_WRITE then
          (let w = (if err = SSL_ERROR_SSL \<or> err = SSL_ERROR_SYSCALL
                    then upd_s s (s_ssl_fatal_error_update (\<lambda>_. True)) w else w)
           in (False, ssl_trigger_handshake h s False w))
        else (False, upd_s s (\<lambda>x. x\<lparr>s_ssl_handshake_state := HANDSHAKE_PENDING,
                s_ssl_write_wants_read := True, s_last_write_failed := True\<rparr>) w))
     else let w = ssl_trigger_handshake h s True w in
       if ssl_gone s w then (False, w)
       else (False, upd_s s (s_ssl_write_wants_read_update (\<lambda>_. True)) w))"

definition ssl_handle_shutdown :: "addr \<Rightarrow> bool \<Rightarrow> world \<Rightarrow> bool \<times> world" where
  "ssl_handle_shutdown s force_fast_shutdown w = (case s_ssl (sockets w s) of
     None \<Rightarrow> (True, w)
   | Some ssl \<Rightarrow> (let (sd, w) = us_internal_ssl_is_shut_down s w in
     if sd \<or> s_ssl_fatal_error (sockets w s) then (True, w)
     else let (fin, w) = ssl_ret SSL_is_init_finished ssl w in
     if fin = 0 then (True, w)
     else let (state, w) = ssl_ret SSL_get_shutdown ssl w in
     if state AND SSL_SENT_SHUTDOWN = 0 \<or> state AND SSL_RECEIVED_SHUTDOWN = 0 then
       (let w = ssl_set_loop_data s w;
            (ret, w) = ssl_ret SSL_shutdown ssl w;
            (ret, w) = (if ret = 0 \<and> force_fast_shutdown then ssl_ret SSL_shutdown ssl w else (ret, w)) in
        if ret < 0 then
          (let (err, w) = ssl_ret (SSL_get_error ret) ssl w in
           if err = SSL_ERROR_SSL \<or> err = SSL_ERROR_SYSCALL
           then (True, upd_s s (s_ssl_fatal_error_update (\<lambda>_. True)) w)
           else if err = SSL_ERROR_WANT_READ \<or> err = SSL_ERROR_WANT_WRITE then (True, w)
           else (True, upd_s s (s_ssl_fatal_error_update (\<lambda>_. True)) w))
        else (ret = 1, w))
     else (True, w)))"

subsection \<open>Closing\<close>

definition us_internal_ssl_on_close :: "handler \<Rightarrow> addr \<Rightarrow> int \<Rightarrow> ptr \<Rightarrow> world \<Rightarrow> ptr \<times> world" where
  "us_internal_ssl_on_close h s code reason w =
    (let w = ssl_set_loop_data s w;
         (ret, w) = dispatch h (Ev_close s code reason) w
     in (ret, us_internal_ssl_detach s w))"

text \<open>The first half of \<open>close_raw\<close> and of \<open>detach\<close>: off the queue or off the group's list.\<close>

definition low_prio_unlink :: "addr \<Rightarrow> world \<Rightarrow> world" where
  "low_prio_unlink s w =
    (let w = low_prio_chain s w;
         w = upd_s s (\<lambda>x. x\<lparr>s_prev := None, s_next := None, s_low_prio_state := 0\<rparr>) w;
         g = the (s_group (sockets w s));
         w = upd_g g (g_low_prio_count_update (\<lambda>n. n - 1)) w
     in us_internal_group_maybe_unlink g w)"

definition close_unlink :: "addr \<Rightarrow> world \<Rightarrow> world" where
  "close_unlink s w =
    (if s_low_prio_state (sockets w s) = 1 then low_prio_unlink s w
     else us_internal_socket_group_unlink_socket (the (s_group (sockets w s))) s w)"

text \<open>Push on the list of closed sockets, which \<open>free_closed_sockets\<close> empties after the iteration.\<close>

definition push_closed :: "addr \<Rightarrow> world \<Rightarrow> world" where
  "push_closed s w =
     upd_loop (ld_closed_head_update (\<lambda>_. Some s)) (upd_s s (s_next_update (\<lambda>_. ld_closed_head (loop w))) w)"

definition us_internal_socket_close_raw :: "handler \<Rightarrow> addr \<Rightarrow> int \<Rightarrow> ptr \<Rightarrow> world \<Rightarrow> ptr \<times> world" where
  "us_internal_socket_close_raw h s code reason w =
    (if us_socket_is_closed s w then (Some s, w)
     else let w = close_unlink s w;
       w = us_poll_stop s w;
       w = (if code = LIBUS_SOCKET_CLOSE_CODE_CONNECTION_RESET
            then snd (lift_k (sys (Sys_setsockopt (us_poll_fd s w) SOL_SOCKET SO_LINGER (Ov_linger 1 0))) w)
            else w);
       w = snd (lift_k (\<lambda>k. ((), bsd_close_socket (us_poll_fd s w) k)) w);
       w = upd_s s (s_is_closed_update (\<lambda>_. True)) w;
       (res, w) = (if us_internal_poll_type s w AND POLL_TYPE_SEMI_SOCKET = 0 then
                     (if s_ssl (sockets w s) \<noteq> None then us_internal_ssl_on_close h s code reason w
                      else dispatch h (Ev_close s code reason) w)
                   else (Some s, w));
       w = us_internal_ssl_detach s w
     in (res, push_closed s w))"

subsection \<open>The script of answers is consumed\<close>

text \<open>
  \<open>budget\<close> counts the answers left. No operation of the library adds one, and every call that
  did not get the default answer has taken one: this is what bounds the loops and recursions below.
\<close>

definition budget :: "world \<Rightarrow> nat" where
  "budget w = length (replies (kern w))"

named_theorems budget_le \<open>operations that do not add answers\<close>

lemma replies_sys [simp]: "replies (snd (sys c k)) = tl (replies k)"
  by (simp add: sys_def Let_def)

lemma replies_sys_retry: "length (replies (snd (sys_retry c k))) \<le> length (replies k) - 1"
proof (induction c k rule: sys_retry.induct)
  case (1 c k)
  show ?case
  proof (cases "r_ret (fst (sys c k)) = -1 \<and> errno (snd (sys c k)) = EINTR")
    case True
    then have "sys_retry c k = sys_retry c (snd (sys c k))"
      by (subst sys_retry.simps) (simp add: case_prod_beta Let_def)
    with 1 [of "sys c k" "fst (sys c k)" "snd (sys c k)"] True show ?thesis by simp
  next
    case False
    then have "sys_retry c k = sys c k"
      by (subst sys_retry.simps) (auto simp: case_prod_beta Let_def)
    then show ?thesis by simp
  qed
qed

lemma budget_upd [simp]:
  "budget (upd_p a f1 w) = budget w" "budget (upd_s a f2 w) = budget w" "budget (upd_c a f3 w) = budget w"
  "budget (upd_ls a f4 w) = budget w" "budget (upd_g a f5 w) = budget w" "budget (upd_u a f6 w) = budget w"
  "budget (upd_cb a f7 w) = budget w" "budget (upd_loop f8 w) = budget w" "budget (us_free a w) = budget w"
  "budget (snd (us_malloc tg w)) = budget w" "budget (ext_call c w) = budget w"
  "budget (log_event e w) = budget w" "budget (ssl_set_loop_data s w) = budget w"
  "budget (us_internal_poll_set_type s t w) = budget w" "budget (us_poll_init s fd t w) = budget w"
  "budget (us_internal_loop_update_pending_ready_polls p q w) = budget w"
  "budget (us_internal_loop_link_group g w) = budget w"
  "budget (us_internal_loop_unlink_group g w) = budget w"
  "budget (us_internal_group_touched g w) = budget w"
  "budget (us_internal_group_maybe_unlink g w) = budget w"
  "budget (low_prio_chain s w) = budget w" "budget (low_prio_push s w) = budget w"
  by (simp_all add: budget_def log_event_def ssl_set_loop_data_def us_internal_poll_set_type_def
      us_poll_init_def)

lemma budget_sys [simp]: "budget (snd (lift_k (sys c) w)) = budget w - 1"
  by (simp add: budget_def)

lemma budget_retry [budget_le]: "budget (snd (lift_k (sys_retry c) w)) \<le> budget w"
  using replies_sys_retry [of c "kern w"] by (simp add: budget_def)

lemma budget_epoll_ctl [budget_le]: "budget (snd (epoll_ctl opr fd ev p w)) \<le> budget w"
  using budget_retry by (simp add: epoll_ctl_def case_prod_beta Let_def)

lemma budget_poll_change [budget_le]: "budget (us_poll_change p ev w) \<le> budget w"
  using budget_epoll_ctl by (auto simp: us_poll_change_def case_prod_beta Let_def
      intro: order.trans [OF budget_epoll_ctl])

lemma budget_poll_start [budget_le]: "budget (us_poll_start p ev w) \<le> budget w"
  by (auto simp: us_poll_start_def us_poll_start_rc_def Let_def intro: order.trans [OF budget_epoll_ctl])

lemma budget_poll_stop [budget_le]: "budget (us_poll_stop p w) \<le> budget w"
  using budget_epoll_ctl by (simp add: us_poll_stop_def case_prod_beta Let_def)

lemma budget_timer_set [budget_le]: "budget (us_timer_set t cb ms rep w) \<le> budget w"
  by (auto simp: us_timer_set_def case_prod_beta Let_def intro!: order.trans [OF budget_poll_start])

lemma budget_enable_sweep [budget_le]: "budget (us_internal_enable_sweep_timer w) \<le> budget w"
  by (auto simp: us_internal_enable_sweep_timer_def Let_def intro!: order.trans [OF budget_timer_set])

lemma budget_disable_sweep [budget_le]: "budget (us_internal_disable_sweep_timer w) \<le> budget w"
  by (auto simp: us_internal_disable_sweep_timer_def Let_def intro!: order.trans [OF budget_timer_set])

lemma budget_link_socket [budget_le]: "budget (us_internal_socket_group_link_socket g s w) \<le> budget w"
  by (auto simp: us_internal_socket_group_link_socket_def Let_def split: option.splits
      intro!: order.trans [OF budget_enable_sweep])

lemma budget_unlink_socket [budget_le]: "budget (us_internal_socket_group_unlink_socket g s w) \<le> budget w"
  by (auto simp: us_internal_socket_group_unlink_socket_def unlink_socket_chain_def Let_def
      split: option.splits intro!: order.trans [OF budget_disable_sweep])

lemma budget_close_unlink [budget_le]: "budget (close_unlink s w) \<le> budget w"
  by (auto simp: close_unlink_def low_prio_unlink_def Let_def budget_unlink_socket split: option.splits)

lemma budget_bsd_send [budget_le]: "budget (snd (lift_k (bsd_send fd data) w)) \<le> budget w"
  using replies_sys_retry [of "Sys_send fd data" "kern w"]
  by (simp add: budget_def bsd_send_def case_prod_beta Let_def)

lemma budget_raw_write [budget_le]: "budget (snd (us_socket_raw_write s data w)) \<le> budget w"
  by (auto simp: us_socket_raw_write_def case_prod_beta Let_def budget_bsd_send
      intro!: order.trans [OF budget_poll_change])

lemma budget_bio_step [budget_le]: "budget (bio_step b w) \<le> budget w"
  using budget_raw_write
  by (auto simp: bio_step_def BIO_s_custom_write_def BIO_s_custom_read_def case_prod_beta Let_def
      split: bio_op.splits option.splits)

lemma budget_bio_steps [budget_le]: "budget (fold bio_step bs w) \<le> budget w"
  by (induction bs arbitrary: w) (auto intro: order.trans budget_bio_step)

lemma budget_ssl_call: "budget (snd (ssl_call opr ssl w)) \<le> budget w - 1"
  using budget_bio_steps [of _ "snd (lift_k (sys (Ssl opr ssl)) w)"]
  by (simp add: ssl_call_def case_prod_beta Let_def)

lemma budget_ssl_ret: "budget (snd (ssl_ret opr ssl w)) \<le> budget w - 1"
  using budget_ssl_call by (simp add: ssl_ret_def case_prod_beta Let_def)

lemma budget_ssl_ret_le [budget_le]: "budget (snd (ssl_ret opr ssl w)) \<le> budget w"
  using budget_ssl_ret [of opr ssl w] by linarith

text \<open>The default answer is \<open>-1\<close>; any other answer was on the script.\<close>

lemma ssl_ret_default: "budget w = 0 \<Longrightarrow> fst (ssl_ret opr ssl w) = -1"
  by (simp add: budget_def ssl_ret_def ssl_call_def case_prod_beta Let_def sys_def pop_reply_def
      default_reply_def)

lemma budget_ssl_shut_down [budget_le]: "budget (snd (us_internal_ssl_is_shut_down s w)) \<le> budget w"
  using budget_ssl_ret_le
  by (auto simp: us_internal_ssl_is_shut_down_def case_prod_beta Let_def split: option.splits)

lemma ssl_update_step_again:
  assumes "fst (ssl_update_step h s w)"
  shows "budget (snd (ssl_update_step h s w)) < budget w"
proof -
  define ssl where "ssl = the (s_ssl (sockets w s))"
  obtain fin w1 where w1: "ssl_ret SSL_is_init_finished ssl w = (fin, w1)" by (cases "ssl_ret SSL_is_init_finished ssl w")
  have c: "s_ssl (sockets w s) \<noteq> None" "s_ssl_handshake_state (sockets w s) = HANDSHAKE_PENDING" "fin = 0"
    using assms w1 by (auto simp: ssl_update_step_def Let_def ssl_def split: if_splits)
  have "budget w \<noteq> 0" using ssl_ret_default [of w SSL_is_init_finished ssl] w1 c(3) by auto
  with budget_ssl_ret [of SSL_is_init_finished ssl w] w1 have lt: "budget w1 < budget w" by simp
  obtain sd w2 where w2: "(if us_socket_is_closed s w1 then (True, w1) else us_internal_ssl_is_shut_down s w1) = (sd, w2)"
    by (cases "if us_socket_is_closed s w1 then (True, w1) else us_internal_ssl_is_shut_down s w1")
  have b2: "budget w2 \<le> budget w1" using w2 budget_ssl_shut_down [of s w1] by (auto split: if_splits)
  obtain rcv w3 where w3: "(if sd then (True, w2)
      else let (st, w) = ssl_ret SSL_get_shutdown ssl w2 in (st AND SSL_RECEIVED_SHUTDOWN \<noteq> 0, w)) = (rcv, w3)"
    by (cases "if sd then (True, w2)
      else let (st, w) = ssl_ret SSL_get_shutdown ssl w2 in (st AND SSL_RECEIVED_SHUTDOWN \<noteq> 0, w)")
  have b3: "budget w3 \<le> budget w2" using w3 budget_ssl_ret_le [of SSL_get_shutdown ssl w2]
    by (auto simp: case_prod_beta Let_def split: if_splits)
  obtain result w4 where w4: "ssl_ret SSL_do_handshake ssl w3 = (result, w4)" by (cases "ssl_ret SSL_do_handshake ssl w3")
  obtain st w5 where w5: "ssl_ret SSL_get_shutdown ssl w4 = (st, w5)" by (cases "ssl_ret SSL_get_shutdown ssl w4")
  have b5: "budget w5 \<le> budget w3"
    using w4 w5 budget_ssl_ret_le [of SSL_do_handshake ssl w3] budget_ssl_ret_le [of SSL_get_shutdown ssl w4] by simp
  have "snd (ssl_update_step h s w) = w5"
    using assms c w1 w2 w3 w4 w5
    by (simp add: ssl_update_step_def Let_def flip: ssl_def split: if_splits prod.splits)
  with lt b2 b3 b5 show ?thesis by simp
qed

function us_internal_ssl_close :: "handler \<Rightarrow> addr \<Rightarrow> int \<Rightarrow> ptr \<Rightarrow> world \<Rightarrow> ptr \<times> world" where
  "us_internal_ssl_close h s code reason w =
    (if ssl_gone s w \<or> us_internal_poll_type s w = POLL_TYPE_SEMI_SOCKET
     then us_internal_socket_close_raw h s code reason w
     else let (again, w1) = ssl_update_step h s (ssl_set_loop_data s w);
              w2 = (if again then snd (us_internal_ssl_close h s 0 None w1) else w1) in
     if ssl_gone s w2 then (Some s, w2)
     else let w3 = (if s_ssl_handshake_state (sockets w2 s) \<noteq> HANDSHAKE_COMPLETED
                    then ssl_trigger_handshake_econnreset h s w2 else w2) in
     if ssl_gone s w3 then (Some s, w3)
     else let (fin, w4) = ssl_handle_shutdown s (code \<noteq> 0) w3 in
     if fin then us_internal_socket_close_raw h s code reason w4 else (Some s, w4))"
  by pat_completeness auto
termination
proof (relation "measure (\<lambda>(h, s, code, reason, w). budget w)", goal_cases)
  case (2 h s code reason w x again w1)
  then have "fst (ssl_update_step h s (ssl_set_loop_data s w))" "w1 = snd (ssl_update_step h s (ssl_set_loop_data s w))"
    by (metis fst_conv, metis snd_conv)
  with ssl_update_step_again [of h s "ssl_set_loop_data s w"] show ?case by simp
qed simp

declare us_internal_ssl_close.simps [simp del]

definition ssl_update_handshake :: "handler \<Rightarrow> addr \<Rightarrow> world \<Rightarrow> world" where
  "ssl_update_handshake h s w =
    (let (again, w1) = ssl_update_step h s w in
     if again then snd (us_internal_ssl_close h s 0 None w1) else w1)"

text \<open>In the words of the source: close calls update, update calls close.\<close>

lemma us_internal_ssl_close_unfold:
  "us_internal_ssl_close h s code reason w =
    (if ssl_gone s w \<or> us_internal_poll_type s w = POLL_TYPE_SEMI_SOCKET
     then us_internal_socket_close_raw h s code reason w
     else let w2 = ssl_update_handshake h s (ssl_set_loop_data s w) in
     if ssl_gone s w2 then (Some s, w2)
     else let w3 = (if s_ssl_handshake_state (sockets w2 s) \<noteq> HANDSHAKE_COMPLETED
                    then ssl_trigger_handshake_econnreset h s w2 else w2) in
     if ssl_gone s w3 then (Some s, w3)
     else let (fin, w4) = ssl_handle_shutdown s (code \<noteq> 0) w3 in
     if fin then us_internal_socket_close_raw h s code reason w4 else (Some s, w4))"
  by (subst us_internal_ssl_close.simps) (simp add: ssl_update_handshake_def case_prod_beta Let_def)

definition us_socket_close :: "handler \<Rightarrow> addr \<Rightarrow> int \<Rightarrow> ptr \<Rightarrow> world \<Rightarrow> ptr \<times> world" where
  "us_socket_close h s code reason w =
    (if s_ssl (sockets w s) \<noteq> None \<and> \<not> us_socket_is_closed s w
     then us_internal_ssl_close h s code reason w
     else us_internal_socket_close_raw h s code reason w)"

definition us_socket_detach :: "addr \<Rightarrow> world \<Rightarrow> world" where
  "us_socket_detach s w =
    (if us_socket_is_closed s w then w
     else let w = close_unlink s w;
              w = us_poll_stop s w;
              w = us_internal_ssl_detach s w;
              w = push_closed s w
     in upd_s s (s_is_closed_update (\<lambda>_. True)) w)"

end
