(* ===== verification/Us_Contract.thy ===== *)
theory Us_Contract imports
  Us_Close
begin

section \<open>Closing keeps the invariant, whatever the application does in its callbacks\<close>

text \<open>
  The steps of closing on the abstract state, and the contract between the library and the
  application: a callback may call back into the library, so it may change every list, but it leaves
  the invariant true, does not touch the sockets an operation still holds, and does not free or reopen
  a socket. Under this contract (the locale \<open>dispatch_contract\<close>) closing, with or without TLS,
  keeps the invariant.
\<close>

subsection \<open>Leaving the low priority queue\<close>

definition a_unpark :: "bool \<Rightarrow> addr \<Rightarrow> addr \<Rightarrow> absr \<Rightarrow> absr" where
  "a_unpark e g s A = A\<lparr>a_low := remove1 s (a_low A),
     a_groups := (if e then remove1 g (a_groups A) else a_groups A), a_loose := insert s (a_loose A)\<rparr>"

lemma length_filter_remove1:
  "x \<in> set xs \<Longrightarrow> length (filter P (remove1 x xs)) = length (filter P xs) - (if P x then 1 else 0)"
  by (induction xs) (auto simp: Suc_diff_le length_pos_if_in_set filter_empty_conv
      intro!: Suc_pred length_pos_if_in_set)

text \<open>Taking a parked socket out leaves its group possibly linked and empty.\<close>

definition low_prio_out :: "2 word \<Rightarrow> addr \<Rightarrow> addr \<Rightarrow> world \<Rightarrow> world" where
  "low_prio_out n g s w = upd_g g (g_low_prio_count_update (\<lambda>n. n - 1))
     (upd_s s (\<lambda>x. x\<lparr>s_prev := None, s_next := None, s_low_prio_state := n\<rparr>) (low_prio_chain s w))"

lemma low_prio_out_wf:
  assumes "wf_world A w" "s \<in> set (a_low A)" "s_group (sockets w s) = Some g" "n \<noteq> 1"
  defines "v \<equiv> low_prio_out n g s w"
  shows "wf_but {g} (A\<lparr>a_low := remove1 s (a_low A), a_loose := insert s (a_loose A)\<rparr>) v"
proof -
  note v = v_def low_prio_out_def
  have wl: "wf_low (a_low A) w" using assms(1) by (simp add: wf_world_def)
  have dl: "dll (snx w) (spv w) (ld_low_prio_head (loop w)) (a_low A)" using wl by (simp add: wf_low_def)
  have dist: "distinct (a_low A)" using dl by (rule dll_distinct)
  note L = low_chain_lists [OF wl assms(2)]
  have other: "dseg (snx v) (spv v) p h xs q = dseg (snx w) (spv w) p h xs q"
    if "set xs \<inter> set (a_low A) = {}" for p h xs q
    using that assms(2) by (intro dseg_frame)
      (auto simp: v L disjoint_iff intro!: unlink_nx_other [OF dl] unlink_pv_other [OF dl])
  have f: "s_is_closed (sockets v x) = s_is_closed (sockets w x)"
    "s_group (sockets v x) = s_group (sockets w x)"
    "s_low_prio_state (sockets v x) = (if x = s then n else s_low_prio_state (sockets w x))" for x
    by (auto simp: v)
  have disj: "set (a_socks A x) \<inter> set (a_low A) = {}" for x
    using assms(1) by (auto simp: wf_world_def dest: wf_socks_low)
  have socks: "wf_socks (a_socks A) v"
    using assms(1,2) disj by (auto simp: wf_world_def wf_socks_def other f) (auto simp: v)
  have low: "wf_low (remove1 s (a_low A)) v"
    unfolding wf_low_def
  proof (intro conjI ballI allI)
    have "s \<notin> set (remove1 s (a_low A))" using dist by simp
    then show "dll (snx v) (spv v) (ld_low_prio_head (loop v)) (remove1 s (a_low A))"
      using L(3) by (simp add: v) (auto elim!: dseg_frame [THEN iffD1, rotated 2])
  next
    fix x
    assume "x \<in> set (remove1 s (a_low A))"
    with dist have "x \<in> set (a_low A)" "x \<noteq> s" by (auto simp: set_remove1_eq)
    with wl show "\<not> s_is_closed (sockets v x)" "s_low_prio_state (sockets v x) = 1"
      "s_group (sockets v x) \<noteq> None"
      by (auto simp: wf_low_def f)
  next
    fix x
    have n: "unat (g_low_prio_count (groups w y))
        = length (filter (\<lambda>z. s_group (sockets w z) = Some y) (a_low A))" for y
      using wl by (simp add: wf_low_def)
    have "filter (\<lambda>y. s_group (sockets w y) = Some g) (a_low A) \<noteq> []"
      using assms(2,3) by (auto simp: filter_empty_conv)
    then have "g_low_prio_count (groups w g) \<noteq> 0" using n [of g] by auto
    then have "unat (g_low_prio_count (groups w x) - (if x = g then 1 else 0))
        = unat (g_low_prio_count (groups w x)) - (if x = g then 1 else 0)"
      by (simp add: unat_minus_one)
    with n [of x] assms(2,3) show "unat (g_low_prio_count (groups v x))
        = length (filter (\<lambda>y. s_group (sockets v y) = Some x) (remove1 s (a_low A)))"
      by (auto simp: f length_filter_remove1) (auto simp: v)
  qed
  have closed: "wf_closed (a_closed A) (a_limbo A) v"
  proof -
    have "set (a_closed A) \<inter> set (a_low A) = {}"
      using assms(1) by (auto simp: wf_world_def wf_closed_def wf_low_def)
    then have "sll (snx v) h (a_closed A) = sll (snx w) h (a_closed A)" for h
      using assms(2) by (intro sll_frame) (auto simp: v L disjoint_iff intro!: unlink_nx_other [OF dl])
    then show ?thesis using assms(1) by (simp add: wf_world_def wf_closed_def f) (simp add: v)
  qed
  have "wf_groups (a_groups A) v = wf_groups (a_groups A) w"
    by (rule wf_groups_cong) (simp_all add: v)
  then have gr: "wf_groups (a_groups A) v" using assms(1) by (simp add: wf_world_def)
  have ne: "g_linked (groups v x) = (\<not> us_internal_group_is_empty x v) \<or> x \<in> {g} \<and> g_linked (groups v x)" for x
  proof (cases "x = g")
    case True
    have "filter (\<lambda>y. s_group (sockets w y) = Some g) (a_low A) \<noteq> []"
      using assms(2,3) by (auto simp: filter_empty_conv)
    moreover have "unat (g_low_prio_count (groups w g))
        = length (filter (\<lambda>z. s_group (sockets w z) = Some g) (a_low A))"
      using wl by (simp add: wf_low_def)
    ultimately have "g_low_prio_count (groups w g) \<noteq> 0" by auto
    then have "\<not> us_internal_group_is_empty g w" by (simp add: us_internal_group_is_empty_def)
    then have "g_linked (groups w g)" using assms(1) by (simp add: wf_world_def wf_nonempty_def)
    with True show ?thesis by (simp add: v)
  next
    case False
    then show ?thesis using assms(1)
      by (simp add: wf_world_def wf_nonempty_def us_internal_group_is_empty_def v)
  qed
  have cnt: "wf_count A v" "wf_iter A v" "wf_conns (a_conns A) v"
    using assms(1) by (auto simp: wf_world_def wf_count_def wf_iter_def wf_conns_def v)
  have ns: "\<not> s_is_closed (sockets w s)" "\<And>x. s \<notin> set (a_socks A x)"
    using wl assms(2) disj by (auto simp: wf_low_def)
  let ?A = "A\<lparr>a_low := remove1 s (a_low A), a_loose := insert s (a_loose A)\<rparr>"
  have "on_list ?A x = on_list A x" for x
    using assms(2) by (cases "x = s") (auto simp: on_list_def)
  then have hp: "wf_heap ?A v" using assms(1) by (simp add: wf_world_def wf_heap_def v)
  have lo: "wf_loose ?A v"
    using assms(1) ns dist by (auto simp: wf_world_def wf_loose_def f set_remove1_eq)
  have ct: "wf_count ?A v" "wf_iter ?A v" using cnt by (simp_all add: wf_count_def wf_iter_def)
  show ?thesis unfolding wf_but_def using gr ne socks low closed cnt(3) ct hp lo by simp
qed

lemma low_prio_unlink_wf:
  assumes "wf_world A w" "s \<in> set (a_low A)" "s_group (sockets w s) = Some g"
  defines "w' \<equiv> low_prio_unlink s w"
  shows "wf_world (a_unpark (us_internal_group_is_empty g w') g s A) w'"
proof -
  have "w' = us_internal_group_maybe_unlink g (low_prio_out 0 g s w)"
    using assms(3) by (simp add: w'_def low_prio_unlink_def low_prio_out_def Let_def)
  moreover have "a_unpark e g s A = A\<lparr>a_low := remove1 s (a_low A), a_loose := insert s (a_loose A)\<rparr>
      \<lparr>a_groups := (if e then remove1 g (a_groups (A\<lparr>a_low := remove1 s (a_low A), a_loose := insert s (a_loose A)\<rparr>))
         else a_groups (A\<lparr>a_low := remove1 s (a_low A), a_loose := insert s (a_loose A)\<rparr>))\<rparr>" for e
    by (simp add: a_unpark_def)
  ultimately show ?thesis
    using maybe_unlink_but [OF low_prio_out_wf [OF assms(1-3), of 0]] by simp
qed

subsection \<open>The other steps of closing\<close>

text \<open>The parts of the invariant that do not look at sockets.\<close>

lemma wf_frame_sockets:
  assumes "groups w' = groups w" "conns w' = conns w" "ld_head (loop w') = ld_head (loop w)"
    "ld_iterator (loop w') = ld_iterator (loop w)"
    "ld_sweep_timer_count (loop w') = ld_sweep_timer_count (loop w)"
  shows "wf_groups Gs w' = wf_groups Gs w" "wf_nonempty w' = wf_nonempty w" "wf_conns cs w' = wf_conns cs w"
    "wf_count A w' = wf_count A w" "wf_iter A w' = wf_iter A w"
  by (simp_all add: assms wf_groups_def wf_nonempty_def us_internal_group_is_empty_def wf_conns_def
      wf_count_def wf_iter_def)

lemma mark_closed_wf:
  assumes "wf_world A w" "s \<in> a_loose A"
  shows "wf_world (A\<lparr>a_loose := a_loose A - {s}, a_limbo := insert s (a_limbo A)\<rparr>)
    (upd_s s (s_is_closed_update (\<lambda>_. True)) w)"
proof -
  define w' where "w' = upd_s s (s_is_closed_update (\<lambda>_. True)) w"
  have l: "\<not> s_is_closed (sockets w s)" "\<And>g. s \<notin> set (a_socks A g)" "s \<notin> set (a_low A)"
    using assms by (auto simp: wf_world_def wf_loose_def)
  have "s \<notin> set (a_closed A)" using assms(1) l(1) by (auto simp: wf_world_def wf_closed_def)
  have v: "s_next (sockets w' x) = s_next (sockets w x)" "s_prev (sockets w' x) = s_prev (sockets w x)"
    "s_group (sockets w' x) = s_group (sockets w x)"
    "s_low_prio_state (sockets w' x) = s_low_prio_state (sockets w x)"
    "s_is_closed (sockets w' x) = (x = s \<or> s_is_closed (sockets w x))" for x by (auto simp: w'_def)
  have r: "groups w' = groups w" "conns w' = conns w" "heap_tag w' = heap_tag w" "next_addr w' = next_addr w"
    "ld_head (loop w') = ld_head (loop w)" "ld_iterator (loop w') = ld_iterator (loop w)"
    "ld_low_prio_head (loop w') = ld_low_prio_head (loop w)"
    "ld_sweep_timer_count (loop w') = ld_sweep_timer_count (loop w)"
    by (simp_all add: w'_def)
  have rc: "ld_closed_head (loop w') = ld_closed_head (loop w)" by (simp add: w'_def)
  have 1: "wf_socks (a_socks A) w'" "wf_low (a_low A) w'"
    using assms(1) l by (auto simp: wf_world_def wf_socks_def wf_low_def v r)
  have 2: "wf_closed (a_closed A) (insert s (a_limbo A)) w'"
    using assms(1) \<open>s \<notin> set (a_closed A)\<close> by (auto simp: wf_world_def wf_closed_def v rc)
  have 3: "wf_heap (A\<lparr>a_loose := a_loose A - {s}, a_limbo := insert s (a_limbo A)\<rparr>) w'"
    using assms by (auto simp: wf_world_def wf_heap_def on_list_def r)
  have 4: "wf_loose (A\<lparr>a_loose := a_loose A - {s}, a_limbo := insert s (a_limbo A)\<rparr>) w'"
    using assms(1) by (auto simp: wf_world_def wf_loose_def v)
  show ?thesis
    using assms(1) 1 2 3 4
    by (simp add: wf_world_def wf_frame_sockets [OF r(1,2,5,6,8)] flip: w'_def) (simp add: wf_count_def wf_iter_def)
qed

lemma push_closed_wf:
  assumes "wf_world A w" "s \<in> a_limbo A"
  shows "wf_world (A\<lparr>a_limbo := a_limbo A - {s}, a_closed := s # a_closed A\<rparr>) (push_closed s w)"
proof -
  define w' where "w' = push_closed s w"
  have sc: "s_is_closed (sockets w s)" "s \<notin> set (a_closed A)"
    using assms by (auto simp: wf_world_def wf_closed_def)
  then have l: "\<And>g. s \<notin> set (a_socks A g)" "s \<notin> set (a_low A)"
    using assms(1) by (auto simp: wf_world_def wf_socks_def wf_low_def)
  have v: "s_next (sockets w' x) = (if x = s then ld_closed_head (loop w) else s_next (sockets w x))"
    "s_prev (sockets w' x) = s_prev (sockets w x)" "s_group (sockets w' x) = s_group (sockets w x)"
    "s_low_prio_state (sockets w' x) = s_low_prio_state (sockets w x)"
    "s_is_closed (sockets w' x) = s_is_closed (sockets w x)" for x
    by (auto simp: w'_def push_closed_def)
  have r: "groups w' = groups w" "conns w' = conns w" "heap_tag w' = heap_tag w" "next_addr w' = next_addr w"
    "ld_head (loop w') = ld_head (loop w)" "ld_iterator (loop w') = ld_iterator (loop w)"
    "ld_low_prio_head (loop w') = ld_low_prio_head (loop w)"
    "ld_sweep_timer_count (loop w') = ld_sweep_timer_count (loop w)"
    by (simp_all add: w'_def push_closed_def)
  have rc: "ld_closed_head (loop w') = Some s" by (simp add: w'_def push_closed_def)
  have other: "dseg (snx w') (spv w') p h xs q = dseg (snx w) (spv w) p h xs q" if "s \<notin> set xs" for p h xs q
    using that by (intro dseg_frame) (auto simp: v)
  have 1: "wf_socks (a_socks A) w'" "wf_low (a_low A) w'"
    using assms(1) l by (auto simp: wf_world_def wf_socks_def wf_low_def other v(3-5) r)
  have "sll (snx w') h (a_closed A) = sll (snx w) h (a_closed A)" for h
    using sc(2) by (intro sll_frame) (auto simp: v)
  then have 2: "wf_closed (s # a_closed A) (a_limbo A - {s}) w'"
    using assms(1) sc by (auto simp: wf_world_def wf_closed_def v rc)
  have 3: "wf_heap (A\<lparr>a_limbo := a_limbo A - {s}, a_closed := s # a_closed A\<rparr>) w'"
    using assms by (auto simp: wf_world_def wf_heap_def on_list_def r)
  have 4: "wf_loose (A\<lparr>a_limbo := a_limbo A - {s}, a_closed := s # a_closed A\<rparr>) w'"
    using assms(1) by (auto simp: wf_world_def wf_loose_def v)
  show ?thesis
    using assms(1) 1 2 3 4
    by (simp add: wf_world_def wf_frame_sockets [OF r(1,2,5,6,8)] flip: w'_def) (simp add: wf_count_def wf_iter_def)
qed

lemma close_unlink_wf:
  assumes "wf_world A w" "heap_tag w s = Some T_socket" "\<not> s_is_closed (sockets w s)" "s \<notin> a_loose A"
  shows "\<exists>A'. wf_world A' (close_unlink s w) \<and> a_limbo A' = a_limbo A \<and> a_loose A' = insert s (a_loose A)"
proof -
  have nc: "s \<notin> set (a_closed A)" "s \<notin> a_limbo A"
    using assms(1,3) by (auto simp: wf_world_def wf_closed_def)
  have "on_list A s" using assms(1,2) by (simp add: wf_world_def wf_heap_def)
  then consider g where "s \<in> set (a_socks A g)" | "s \<in> set (a_low A)"
    using nc assms(4) by (auto simp: on_list_def)
  then show ?thesis
  proof cases
    case 1
    then have "s_group (sockets w s) = Some g" "s_low_prio_state (sockets w s) \<noteq> 1"
      using assms(1) by (auto simp: wf_world_def wf_socks_def)
    with unlink_socket_wf [OF assms(1) 1] show ?thesis
      by (auto simp: close_unlink_def a_unlink_def intro!: exI)
  next
    case 2
    then obtain g where "s_group (sockets w s) = Some g" "s_low_prio_state (sockets w s) = 1"
      using assms(1) by (auto simp: wf_world_def wf_low_def)
    with low_prio_unlink_wf [OF assms(1) 2] show ?thesis
      by (auto simp: close_unlink_def a_unpark_def intro!: exI)
  qed
qed

subsection \<open>The invariant between operations\<close>

text \<open>
  Between operations no socket is loose. \<open>okw S w w'\<close>: if the sockets \<open>S\<close> are allocated, the
  invariant survives from \<open>w\<close> to \<open>w'\<close> with the same sockets in limbo, and no socket is
  allocated, freed, reopened, moved or parked on the way. Nor are answers added to the script.
\<close>

definition inv :: "addr set \<Rightarrow> world \<Rightarrow> bool" where
  "inv L w \<longleftrightarrow> (\<exists>A. wf_world A w \<and> a_limbo A = L \<and> a_loose A = {})"

lemma inv_intro: "wf_world A w \<Longrightarrow> a_limbo A = L \<Longrightarrow> a_loose A = {} \<Longrightarrow> inv L w"
  unfolding inv_def by blast

definition okw :: "addr set \<Rightarrow> world \<Rightarrow> world \<Rightarrow> bool" where
  "okw S w w' \<longleftrightarrow> budget w' \<le> budget w \<and> (\<forall>L. inv L w \<and> (\<forall>x\<in>S. heap_tag w x = Some T_socket) \<longrightarrow> inv L w'
     \<and> (\<forall>x. (heap_tag w' x = Some T_socket \<longleftrightarrow> heap_tag w x = Some T_socket)
         \<and> (heap_tag w x = Some T_socket \<longrightarrow> (s_is_closed (sockets w x) \<longrightarrow> s_is_closed (sockets w' x))
           \<and> (s_adopted (sockets w' x) \<longrightarrow> s_adopted (sockets w x))
           \<and> (s_low_prio_state (sockets w' x) = 1 \<longrightarrow> s_low_prio_state (sockets w x) = 1))))"

lemma okw_refl [simp, intro!]: "okw S w w"
  by (simp add: okw_def)

lemma okw_trans: "okw S u v \<Longrightarrow> okw S v w \<Longrightarrow> okw S u w"
  unfolding okw_def by (intro conjI; (erule conjE)+) (simp, blast)

lemma okw_budget: "okw S v w \<Longrightarrow> budget w \<le> budget v"
  by (simp add: okw_def)

lemma okw_mono: "okw S u v \<Longrightarrow> S \<subseteq> T \<Longrightarrow> okw T u v"
  unfolding okw_def by blast

text \<open>Steps that the invariant does not see.\<close>

definition quiet :: "world \<Rightarrow> world \<Rightarrow> bool" where
  "quiet w w' \<longleftrightarrow> budget w' \<le> budget w \<and> (\<forall>A. wf_world A w' = wf_world A w) \<and> heap_tag w' = heap_tag w
     \<and> (\<forall>x. s_is_closed (sockets w' x) = s_is_closed (sockets w x)
           \<and> s_group (sockets w' x) = s_group (sockets w x)
           \<and> s_adopted (sockets w' x) = s_adopted (sockets w x)
           \<and> s_low_prio_state (sockets w' x) = s_low_prio_state (sockets w x))"

lemma quiet_refl [simp, intro!]: "quiet w w"
  by (simp add: quiet_def)

lemma quiet_trans: "quiet u v \<Longrightarrow> quiet v w \<Longrightarrow> quiet u w"
  by (simp add: quiet_def)

lemma quiet_okw: "quiet w w' \<Longrightarrow> okw S w w'"
  by (simp add: quiet_def okw_def inv_def)

lemma quiet_wf: "quiet w w' \<Longrightarrow> wf_world A w' = wf_world A w"
  by (simp add: quiet_def)

named_theorems quiet_intro \<open>quiet operations, for backward reasoning\<close>

lemma quiet_if [quiet_intro]:
  "(b \<Longrightarrow> quiet v x) \<Longrightarrow> (\<not> b \<Longrightarrow> quiet v y) \<Longrightarrow> quiet v (if b then x else y)"
  by simp

lemma quiet_case_option [quiet_intro]:
  "(a = None \<Longrightarrow> quiet v x) \<Longrightarrow> (\<And>y. a = Some y \<Longrightarrow> quiet v (f y)) \<Longrightarrow> quiet v (case a of None \<Rightarrow> x | Some y \<Rightarrow> f y)"
  by (cases a) auto

text \<open>Functions of the kernel that only take answers off the script.\<close>

definition frugal :: "(kernel \<Rightarrow> 'a \<times> kernel) \<Rightarrow> bool" where
  "frugal f \<longleftrightarrow> (\<forall>k. length (replies (snd (f k))) \<le> length (replies k))"

lemma replies_sys_do [simp]: "replies (sys_do c k) = tl (replies k)"
  by (simp add: sys_do_def)

lemma replies_sys_ret [simp]: "replies (snd (sys_ret c k)) = tl (replies k)"
  by (simp add: sys_ret_def case_prod_beta)

lemma frugal_sys [quiet_intro]: "frugal (sys c)" "frugal (sys_retry c)" "frugal (\<lambda>k. ((), sys_do c k))"
  by (simp_all add: frugal_def order.trans [OF replies_sys_retry diff_le_self])

lemma frugal_wrappers [quiet_intro]:
  "frugal (\<lambda>k. ((), bsd_close_socket fd k))" "frugal (\<lambda>k. ((), bsd_shutdown_socket fd k))"
  "frugal (\<lambda>k. ((), bsd_shutdown_socket_read fd k))" "frugal (\<lambda>k. ((), bsd_socket_flush fd k))"
  "frugal (\<lambda>k. ((), bsd_socket_nodelay fd e k))"
  unfolding bsd_close_socket_def bsd_shutdown_socket_def bsd_shutdown_socket_read_def bsd_socket_flush_def
    bsd_socket_nodelay_def by (rule frugal_sys)+

lemma frugal_map: "frugal f \<Longrightarrow> frugal (\<lambda>k. let (r, k) = f k in (g r, k))"
  by (simp add: frugal_def case_prod_beta)

lemma frugal_io [quiet_intro]:
  "frugal (bsd_send fd data)" "frugal (bsd_write2 fd data data')" "frugal (bsd_sendmsg fd data fd')"
  "frugal (bsd_recvmsg fd flags)"
  unfolding bsd_send_def bsd_write2_def bsd_sendmsg_def bsd_recvmsg_def by (rule frugal_map frugal_sys)+

lemma frugal_keepalive [quiet_intro]: "frugal (bsd_socket_keepalive fd on delay)"
  by (simp add: frugal_def bsd_socket_keepalive_def case_prod_beta Let_def)

lemma frugal_recv [quiet_intro]: "frugal (\<lambda>k. let (n, bytes, k) = bsd_recv fd len flags k in ((n, bytes), k))"
  using frugal_sys(2) [of "Sys_recv fd len flags"] by (simp add: frugal_def bsd_recv_def case_prod_beta Let_def)

lemma budget_lift_k: "frugal f \<Longrightarrow> budget (snd (lift_k f w)) \<le> budget w"
  by (simp add: frugal_def budget_def)

lemma quiet_lift_k [quiet_intro]: "quiet v w \<Longrightarrow> frugal f \<Longrightarrow> quiet v (snd (lift_k f w))"
  by (erule quiet_trans) (simp add: quiet_def budget_lift_k)

lemma quiet_ext_call [quiet_intro]: "quiet v w \<Longrightarrow> quiet v (ext_call c w)"
  by (erule quiet_trans) (simp add: quiet_def)

lemma quiet_log_event [quiet_intro]: "quiet v w \<Longrightarrow> quiet v (log_event e w)"
  by (erule quiet_trans) (simp add: quiet_def, simp add: log_event_def)

lemma quiet_upd_p [quiet_intro]: "quiet v w \<Longrightarrow> quiet v (upd_p p f w)"
  by (erule quiet_trans) (simp add: quiet_def)

lemma quiet_poll_ops [quiet_intro]:
  "quiet v w \<Longrightarrow> quiet v (us_poll_change p ev w)" "quiet v w \<Longrightarrow> quiet v (us_poll_stop p w)"
  "quiet v w \<Longrightarrow> quiet v (us_poll_start p ev w)" "quiet v w \<Longrightarrow> quiet v (us_poll_init p fd ty w)"
  "quiet v w \<Longrightarrow> quiet v (us_internal_poll_set_type p ty w)"
  by (erule quiet_trans; simp add: quiet_def budget_le; simp add: us_poll_init_def us_internal_poll_set_type_def)+

lemma quiet_upd_s [quiet_intro]:
  assumes "quiet v w" "\<And>x. s_next (f x) = s_next x" "\<And>x. s_prev (f x) = s_prev x"
    "\<And>x. s_group (f x) = s_group x" "\<And>x. s_is_closed (f x) = s_is_closed x"
    "\<And>x. s_low_prio_state (f x) = s_low_prio_state x" "\<And>x. s_adopted (f x) = s_adopted x"
  shows "quiet v (upd_s s f w)"
  by (rule quiet_trans [OF assms(1)]) (simp add: quiet_def assms wf_upd_s)

lemma quiet_upd_loop [quiet_intro]:
  assumes "quiet v w" "\<And>l. ld_head (f l) = ld_head l" "\<And>l. ld_iterator (f l) = ld_iterator l"
    "\<And>l. ld_low_prio_head (f l) = ld_low_prio_head l" "\<And>l. ld_closed_head (f l) = ld_closed_head l"
    "\<And>l. ld_sweep_timer_count (f l) = ld_sweep_timer_count l"
  shows "quiet v (upd_loop f w)"
  by (rule quiet_trans [OF assms(1)]) (simp add: quiet_def assms wf_upd_loop)

lemma quiet_raw_write [quiet_intro]: "quiet v w \<Longrightarrow> quiet v (snd (us_socket_raw_write s data w))"
  by (simp add: us_socket_raw_write_def case_prod_beta Let_def) (intro conjI impI quiet_intro; simp)

lemma quiet_bio_step [quiet_intro]: "quiet v w \<Longrightarrow> quiet v (bio_step b w)"
  by (cases b) (simp_all add: bio_step_def BIO_s_custom_write_def BIO_s_custom_read_def case_prod_beta
      Let_def quiet_intro split: option.splits)

lemma quiet_bio_steps [quiet_intro]: "quiet v w \<Longrightarrow> quiet v (fold bio_step bs w)"
  by (induction bs arbitrary: w) (auto intro: quiet_intro)

lemma quiet_ssl_ret [quiet_intro]: "quiet v w \<Longrightarrow> quiet v (snd (ssl_ret opr ssl w))"
  by (simp add: ssl_ret_def ssl_call_def case_prod_beta Let_def quiet_intro)

lemma quiet_set_loop_data [quiet_intro]: "quiet v w \<Longrightarrow> quiet v (ssl_set_loop_data s w)"
  by (simp add: ssl_set_loop_data_def quiet_intro)

lemma quiet_ssl_shut_down [quiet_intro]: "quiet v w \<Longrightarrow> quiet v (snd (us_internal_ssl_is_shut_down s w))"
  by (auto simp: us_internal_ssl_is_shut_down_def case_prod_beta Let_def quiet_intro split: option.splits)

lemma quiet_shut_down [quiet_intro]: "quiet v w \<Longrightarrow> quiet v (snd (us_socket_is_shut_down s w))"
  by (auto simp: us_socket_is_shut_down_def quiet_intro)

lemma quiet_verify_error [quiet_intro]: "quiet v w \<Longrightarrow> quiet v (snd (us_internal_ssl_verify_error s w))"
  by (auto simp: us_internal_ssl_verify_error_def us_ssl_socket_verify_error_from_ssl_def
      us_internal_verify_peer_certificate_def case_prod_beta Let_def split: option.splits
      intro!: quiet_intro)

lemma quiet_ssl_detach [quiet_intro]: "quiet v w \<Longrightarrow> quiet v (us_internal_ssl_detach s w)"
  by (auto simp: us_internal_ssl_detach_def split: option.splits intro!: quiet_intro)

text \<open>Structural rules: through pairs, \<open>let\<close>s and conditionals, without unfolding them.\<close>

lemma quiet_struct:
  "quiet v (snd p) \<Longrightarrow> (\<And>a b. quiet v b \<Longrightarrow> quiet v (snd (f a b))) \<Longrightarrow> quiet v (snd (case p of (a, b) \<Rightarrow> f a b))"
  "quiet v W \<Longrightarrow> (\<And>w. quiet v w \<Longrightarrow> quiet v (snd (g w))) \<Longrightarrow> quiet v (snd (let w = W in g w))"
  "(b \<Longrightarrow> quiet v (snd x)) \<Longrightarrow> (\<not> b \<Longrightarrow> quiet v (snd y)) \<Longrightarrow> quiet v (snd (if b then x else y))"
  "(a = None \<Longrightarrow> quiet v (snd x)) \<Longrightarrow> (\<And>z. a = Some z \<Longrightarrow> quiet v (snd (q z))) \<Longrightarrow>
     quiet v (snd (case a of None \<Rightarrow> x | Some z \<Rightarrow> q z))"
  "quiet v u \<Longrightarrow> quiet v (snd (c, u))"
  by (auto simp: Let_def split: prod.splits option.splits)

lemma quiet_handle_shutdown [quiet_intro]: "quiet v w \<Longrightarrow> quiet v (snd (ssl_handle_shutdown s b w))"
  unfolding ssl_handle_shutdown_def by (assumption | rule quiet_struct quiet_intro | simp)+

lemma okw_quiet: "okw S u v \<Longrightarrow> quiet v w \<Longrightarrow> okw S u w"
  by (blast intro: okw_trans quiet_okw)

lemma okw_struct:
  "okw S v (snd p) \<Longrightarrow> (\<And>a b. okw S v b \<Longrightarrow> okw S v (snd (f a b))) \<Longrightarrow> okw S v (snd (case p of (a, b) \<Rightarrow> f a b))"
  "okw S v W \<Longrightarrow> (\<And>w. okw S v w \<Longrightarrow> okw S v (snd (g w))) \<Longrightarrow> okw S v (snd (let w = W in g w))"
  "(b \<Longrightarrow> okw S v (snd x)) \<Longrightarrow> (\<not> b \<Longrightarrow> okw S v (snd y)) \<Longrightarrow> okw S v (snd (if b then x else y))"
  "(b \<Longrightarrow> okw S v w1) \<Longrightarrow> (\<not> b \<Longrightarrow> okw S v w2) \<Longrightarrow> okw S v (if b then w1 else w2)"
  "(a = None \<Longrightarrow> okw S v (snd x)) \<Longrightarrow> (\<And>z. a = Some z \<Longrightarrow> okw S v (snd (q z))) \<Longrightarrow>
     okw S v (snd (case a of None \<Rightarrow> x | Some z \<Rightarrow> q z))"
  "okw S v u \<Longrightarrow> okw S v (snd (c, u))"
  "okw S v (snd p) \<Longrightarrow> (\<And>a b. okw S v b \<Longrightarrow> okw S v (snd (f a b))) \<Longrightarrow> okw S v (snd (let (a, b) = p in f a b))"
  "okw S v (snd p) \<Longrightarrow> (\<And>a b. okw S v b \<Longrightarrow> okw S v (k a b)) \<Longrightarrow> okw S v (let (a, b) = p in k a b)"
  "okw S v W \<Longrightarrow> (\<And>w. okw S v w \<Longrightarrow> okw S v (l w)) \<Longrightarrow> okw S v (let w = W in l w)"
  by (auto simp: Let_def split: prod.splits option.splits)

text \<open>A quiet operation keeps \<open>okw\<close>.\<close>

lemma okw_quiet_ops:
  "okw S v w \<Longrightarrow> okw S v (snd (ssl_ret opr ssl w))"
  "okw S v w \<Longrightarrow> okw S v (ssl_set_loop_data s w)"
  "okw S v w \<Longrightarrow> okw S v (snd (us_internal_ssl_is_shut_down s w))"
  "okw S v w \<Longrightarrow> okw S v (snd (us_internal_ssl_verify_error s w))"
  "okw S v w \<Longrightarrow> okw S v (us_internal_ssl_detach s w)"
  "okw S v w \<Longrightarrow> okw S v (snd (ssl_handle_shutdown s b w))"
  "okw S v w \<Longrightarrow> okw S v (us_poll_change p ev w)"
  "frugal k \<Longrightarrow> okw S v w \<Longrightarrow> okw S v (snd (lift_k k w))"
  by (erule okw_quiet, (rule quiet_intro)+, rule quiet_refl)+

lemma okw_upd_s:
  assumes "okw S v w" "\<And>x. s_next (f x) = s_next x" "\<And>x. s_prev (f x) = s_prev x"
    "\<And>x. s_group (f x) = s_group x" "\<And>x. s_is_closed (f x) = s_is_closed x"
    "\<And>x. s_low_prio_state (f x) = s_low_prio_state x" "\<And>x. s_adopted (f x) = s_adopted x"
  shows "okw S v (upd_s s f w)"
  by (rule okw_quiet [OF assms(1) quiet_upd_s]) (simp_all add: assms)

subsection \<open>The contract with the application\<close>

locale dispatch_contract =
  fixes h :: handler
  assumes keeps: "okw {} w (snd (h e w))"
begin

lemma dispatch_okw: "okw S v w \<Longrightarrow> okw S v (snd (dispatch h e w))"
proof -
  assume a: "okw S v w"
  have "okw S v (log_event e w)" by (rule okw_quiet [OF a quiet_log_event]) simp
  then show ?thesis unfolding dispatch_def by (rule okw_trans) (rule okw_mono [OF keeps], simp)
qed

text \<open>Closing: the socket leaves its list, is in limbo while \<open>on_close\<close> runs, and ends on the closed list.\<close>

lemma close_raw_strong: "okw {s} w (snd (us_internal_socket_close_raw h s code reason w))
  \<and> (\<forall>L. inv L w \<and> heap_tag w s = Some T_socket \<longrightarrow>
       s_is_closed (sockets (snd (us_internal_socket_close_raw h s code reason w)) s))"
proof (cases "s_is_closed (sockets w s)")
  case True
  then show ?thesis by (simp add: us_internal_socket_close_raw_def us_socket_is_closed_def)
next
  case False
  let ?r = "us_internal_socket_close_raw h s code reason w"
  let ?step = "\<lambda>v w x. (heap_tag w x = Some T_socket \<longleftrightarrow> heap_tag v x = Some T_socket)
      \<and> (heap_tag v x = Some T_socket \<longrightarrow> (s_is_closed (sockets v x) \<longrightarrow> s_is_closed (sockets w x))
        \<and> (s_adopted (sockets w x) \<longrightarrow> s_adopted (sockets v x))
        \<and> (s_low_prio_state (sockets w x) = 1 \<longrightarrow> s_low_prio_state (sockets v x) = 1))"
  define w1 where "w1 = close_unlink s w"
  have f1: "heap_tag w1 = heap_tag w" "\<And>x. s_is_closed (sockets w1 x) = s_is_closed (sockets w x)"
    "\<And>x. s_adopted (sockets w1 x) = s_adopted (sockets w x)"
    "\<And>x. s_low_prio_state (sockets w1 x) = 1 \<Longrightarrow> s_low_prio_state (sockets w x) = 1"
    by (auto simp: w1_def close_unlink_def low_prio_unlink_def Let_def split: if_splits)
  define w2 where "w2 = snd (lift_k (\<lambda>k. ((), bsd_close_socket (us_poll_fd s (us_poll_stop s w1)) k))
    (if code = LIBUS_SOCKET_CLOSE_CODE_CONNECTION_RESET
     then snd (lift_k (sys (Sys_setsockopt (us_poll_fd s (us_poll_stop s w1)) SOL_SOCKET SO_LINGER (Ov_linger 1 0)))
            (us_poll_stop s w1))
     else us_poll_stop s w1))"
  have q2: "quiet w1 w2" unfolding w2_def
    by (intro quiet_lift_k quiet_if quiet_poll_ops quiet_refl frugal_sys frugal_wrappers)
  define w3 where "w3 = upd_s s (s_is_closed_update (\<lambda>_. True)) w2"
  define p4 where "p4 = (if us_internal_poll_type s w3 AND POLL_TYPE_SEMI_SOCKET = 0 then
      (if s_ssl (sockets w3 s) \<noteq> None then us_internal_ssl_on_close h s code reason w3
       else dispatch h (Ev_close s code reason) w3) else (Some s, w3))"
  define w5 where "w5 = us_internal_ssl_detach s (snd p4)"
  have o5: "okw {} w3 w5"
    unfolding w5_def p4_def us_internal_ssl_on_close_def
    by (assumption | rule okw_struct okw_quiet_ops dispatch_okw okw_refl)+
  have res: "snd ?r = push_closed s w5"
    using False f1 by (auto simp: us_internal_socket_close_raw_def us_socket_is_closed_def Let_def w1_def w2_def w3_def
        w5_def p4_def case_prod_beta us_poll_fd_def)
  have bud: "budget (snd ?r) \<le> budget w"
    using q2 okw_budget [OF o5] budget_close_unlink [of s w] by (simp add: res push_closed_def w3_def quiet_def w1_def)
  have main: "inv L (snd ?r) \<and> (\<forall>x. ?step w (snd ?r) x) \<and> s_is_closed (sockets (snd ?r) s)"
    if L: "inv L w" "heap_tag w s = Some T_socket" for L
  proof -
    from L obtain A where A: "wf_world A w" "a_limbo A = L" "a_loose A = {}" and tg: "heap_tag w s = Some T_socket"
      by (auto simp: inv_def)
    have sL: "s \<notin> L" using A False by (auto simp: wf_world_def wf_closed_def)
    obtain A1 where A1: "wf_world A1 w1" "a_limbo A1 = L" "a_loose A1 = {s}"
      using close_unlink_wf [OF A(1) tg False] A by (auto simp: w1_def)
    have "wf_world A1 w2" using A1(1) quiet_wf [OF q2] by simp
    then have i3: "inv (insert s L) w3"
      unfolding w3_def by (rule inv_intro [OF mark_closed_wf]) (use A1 in auto)
    from o5 i3 have i5: "inv (insert s L) w5" by (simp add: okw_def)
    then obtain A5 where "wf_world A5 w5" "a_limbo A5 = insert s L" "a_loose A5 = {}" by (auto simp: inv_def)
    then have i6: "inv L (push_closed s w5)"
      by (intro inv_intro [OF push_closed_wf [of A5]]) (use sL in auto)
    have fr: "?step w (snd ?r) x" for x
    proof -
      have "?step w w3 x" using q2 f1 by (auto simp: w3_def quiet_def)
      moreover have "?step w3 w5 x" using o5 i3 by (auto simp: okw_def)
      ultimately show ?thesis by (auto simp: res push_closed_def)
    qed
    have "heap_tag w3 s = Some T_socket" "s_is_closed (sockets w3 s)"
      using q2 f1 L by (auto simp: w3_def quiet_def)
    then have "s_is_closed (sockets w5 s)" using o5 i3 by (auto simp: okw_def)
    then have "s_is_closed (sockets (snd ?r) s)" by (simp add: res push_closed_def)
    with i6 fr show ?thesis by (simp add: res)
  qed
  have "okw {s} w (snd ?r)" unfolding okw_def using main bud by blast
  with main show ?thesis by blast
qed

lemmas close_raw_okw = close_raw_strong [THEN conjunct1]
lemmas close_raw_closed = close_raw_strong [THEN conjunct2, rule_format, OF conjI]

lemma close_raw_ok: "okw {s} v w \<Longrightarrow> okw {s} v (snd (us_internal_socket_close_raw h s code reason w))"
  by (erule okw_trans) (rule close_raw_okw)

lemma trigger_handshake_ok: "okw S v w \<Longrightarrow> okw S v (ssl_trigger_handshake h s b w)"
  unfolding ssl_trigger_handshake_def
  by (assumption | rule okw_struct okw_quiet_ops dispatch_okw okw_upd_s | simp)+

lemma trigger_econnreset_ok: "okw S v w \<Longrightarrow> okw S v (ssl_trigger_handshake_econnreset h s w)"
  unfolding ssl_trigger_handshake_econnreset_def
  by (assumption | rule okw_struct okw_quiet_ops dispatch_okw okw_upd_s | simp)+

lemma update_step_ok: "okw S v w \<Longrightarrow> okw S v (snd (ssl_update_step h s w))"
  unfolding ssl_update_step_def Let_def [of "the _"]
  by (assumption | rule okw_struct okw_quiet_ops trigger_handshake_ok okw_upd_s | simp)+

lemma ssl_close_okw: "okw {s} w (snd (us_internal_ssl_close h s code reason w))"
proof (induction "budget w" arbitrary: code reason w rule: less_induct)
  case less
  obtain again w1 where step: "ssl_update_step h s (ssl_set_loop_data s w) = (again, w1)" by fastforce
  have o1: "okw {s} w w1"
    using update_step_ok [of "{s}" w "ssl_set_loop_data s w" s] step
    by (simp add: okw_quiet_ops(2))
  define w2 where "w2 = (if again then snd (us_internal_ssl_close h s 0 None w1) else w1)"
  have o2: "okw {s} w w2"
  proof (cases again)
    case True
    then have "budget w1 < budget w"
      using ssl_update_step_again [of h s "ssl_set_loop_data s w"] step by simp
    from okw_trans [OF o1 less [OF this]] True show ?thesis by (simp add: w2_def)
  qed (use o1 in \<open>simp add: w2_def\<close>)
  have "us_internal_ssl_close h s code reason w =
    (if ssl_gone s w \<or> us_internal_poll_type s w = POLL_TYPE_SEMI_SOCKET
     then us_internal_socket_close_raw h s code reason w
     else if ssl_gone s w2 then (Some s, w2)
     else let w3 = (if s_ssl_handshake_state (sockets w2 s) \<noteq> HANDSHAKE_COMPLETED
                    then ssl_trigger_handshake_econnreset h s w2 else w2) in
     if ssl_gone s w3 then (Some s, w3)
     else let (fin, w4) = ssl_handle_shutdown s (code \<noteq> 0) w3 in
     if fin then us_internal_socket_close_raw h s code reason w4 else (Some s, w4))"
    by (subst us_internal_ssl_close.simps) (simp add: step w2_def Let_def)
  then show ?case
    by (simp only:) (assumption | rule okw_struct okw_quiet_ops trigger_econnreset_ok close_raw_ok o2 okw_refl)+
qed

lemma ssl_close_ok: "okw {s} v w \<Longrightarrow> okw {s} v (snd (us_internal_ssl_close h s code reason w))"
  by (erule okw_trans) (rule ssl_close_okw)

lemma update_handshake_ok: "okw {s} v w \<Longrightarrow> okw {s} v (ssl_update_handshake h s w)"
  unfolding ssl_update_handshake_def
  by (assumption | rule okw_struct update_step_ok ssl_close_ok)+

text \<open>The public entry: with or without TLS, graceful or forced.\<close>

lemma socket_close_ok: "okw {s} v w \<Longrightarrow> okw {s} v (snd (us_socket_close h s code reason w))"
  unfolding us_socket_close_def by (rule okw_struct ssl_close_ok close_raw_ok | assumption)+

end

lemma push_closed_swap:
  "upd_s s (s_is_closed_update f) (push_closed s w) = push_closed s (upd_s s (s_is_closed_update f) w)"
proof (rule world.equality)
  show "sockets (upd_s s (s_is_closed_update f) (push_closed s w)) =
      sockets (push_closed s (upd_s s (s_is_closed_update f) w))"
    by (auto simp: push_closed_def fun_eq_iff)
qed (simp_all add: push_closed_def)

lemma detach_okw: "okw {s} w (us_socket_detach s w)"
proof (cases "s_is_closed (sockets w s)")
  case True
  then show ?thesis by (simp add: us_socket_detach_def us_socket_is_closed_def)
next
  case False
  define w1 where "w1 = close_unlink s w"
  define w2 where "w2 = us_internal_ssl_detach s (us_poll_stop s w1)"
  have f1: "heap_tag w1 = heap_tag w" "\<And>x. s_is_closed (sockets w1 x) = s_is_closed (sockets w x)"
    "\<And>x. s_adopted (sockets w1 x) = s_adopted (sockets w x)"
    "\<And>x. s_low_prio_state (sockets w1 x) = 1 \<Longrightarrow> s_low_prio_state (sockets w x) = 1"
    by (auto simp: w1_def close_unlink_def low_prio_unlink_def Let_def split: if_splits)
  have q2: "quiet w1 w2" unfolding w2_def by (intro quiet_ssl_detach quiet_poll_ops quiet_refl)
  define w3 where "w3 = upd_s s (s_is_closed_update (\<lambda>_. True)) w2"
  have res: "us_socket_detach s w = push_closed s w3"
    using False by (simp add: us_socket_detach_def us_socket_is_closed_def Let_def w1_def w2_def w3_def
        push_closed_swap)
  have i: "inv L (push_closed s w3)" if L: "inv L w" "heap_tag w s = Some T_socket" for L
  proof -
    from L obtain A where A: "wf_world A w" "a_limbo A = L" "a_loose A = {}" by (auto simp: inv_def)
    have sL: "s \<notin> L" using A False by (auto simp: wf_world_def wf_closed_def)
    obtain A1 where A1: "wf_world A1 w1" "a_limbo A1 = L" "a_loose A1 = {s}"
      using close_unlink_wf [OF A(1) L(2) False] A by (auto simp: w1_def)
    have w2: "wf_world A1 w2" using A1(1) quiet_wf [OF q2] by simp
    show ?thesis
      by (intro inv_intro [OF push_closed_wf [OF mark_closed_wf [OF w2, of s, folded w3_def]]])
        (use A1 sL in auto)
  qed
  have b: "budget w2 \<le> budget w" using q2 budget_close_unlink [of s w] by (simp add: quiet_def w1_def)
  show ?thesis
    using i q2 f1 b by (auto simp: okw_def res w3_def quiet_def push_closed_def)
qed

end
