(* ===== verification/Us_Timeout.thy ===== *)
theory Us_Timeout imports
  Us_Contract
begin

section \<open>Timeouts and the sweep (\<open>socket.c\<close>, \<open>loop.c\<close>)\<close>

text \<open>
  A timeout is a value of the group's 240-valued clock, which one sweep advances by one every four
  seconds (the long clock by one every fifteen sweeps, a minute). The sweep walks the groups of the
  loop and the sockets of each group while its callbacks may unlink what it is about to visit; the
  iterators in the loop and in the group are what \<open>unlink\<close> moves on for it. The walk is a partial
  function: \<open>None\<close> is a sweep that does not return.
\<close>

definition timeout_ticks :: "u8 \<Rightarrow> u32 \<Rightarrow> u8" where
  "timeout_ticks timestamp seconds =
     (if seconds \<noteq> 0 then ucast ((ucast timestamp + drop_bit 2 (seconds + 3)) mod 240 :: u32) else 255)"

definition long_timeout_ticks :: "u8 \<Rightarrow> u32 \<Rightarrow> u8" where
  "long_timeout_ticks long_timestamp minutes =
     (if minutes \<noteq> 0 then ucast ((ucast long_timestamp + minutes) mod 240 :: u32) else 255)"

definition us_socket_timeout :: "addr \<Rightarrow> u32 \<Rightarrow> world \<Rightarrow> world" where
  "us_socket_timeout s seconds w =
     upd_s s (s_timeout_update (\<lambda>_. timeout_ticks
       (g_timestamp (groups w (the (s_group (sockets w s))))) seconds)) w"

definition us_connecting_socket_timeout :: "addr \<Rightarrow> u32 \<Rightarrow> world \<Rightarrow> world" where
  "us_connecting_socket_timeout c seconds w =
     upd_c c (c_timeout_update (\<lambda>_. timeout_ticks
       (g_timestamp (groups w (the (c_group (conns w c))))) seconds)) w"

definition us_socket_long_timeout :: "addr \<Rightarrow> u32 \<Rightarrow> world \<Rightarrow> world" where
  "us_socket_long_timeout s minutes w =
     upd_s s (s_long_timeout_update (\<lambda>_. long_timeout_ticks
       (g_long_timestamp (groups w (the (s_group (sockets w s))))) minutes)) w"

definition us_connecting_socket_long_timeout :: "addr \<Rightarrow> u32 \<Rightarrow> world \<Rightarrow> world" where
  "us_connecting_socket_long_timeout c minutes w =
     upd_c c (c_long_timeout_update (\<lambda>_. long_timeout_ticks
       (g_long_timestamp (groups w (the (c_group (conns w c))))) minutes)) w"

subsection \<open>The sweep\<close>

definition is_due :: "u8 \<Rightarrow> u8 \<Rightarrow> addr \<Rightarrow> world \<Rightarrow> bool" where
  "is_due short_ticks long_ticks s w =
     (short_ticks = s_timeout (sockets w s) \<or> long_ticks = s_long_timeout (sockets w s))"

text \<open>The tightest loop: from \<open>s\<close> on, the first socket with a timeout to emit, or the end.\<close>

partial_function (option) sweep_seek :: "u8 \<Rightarrow> u8 \<Rightarrow> addr \<Rightarrow> world \<Rightarrow> ptr option" where
  "sweep_seek short_ticks long_ticks s w =
    (if is_due short_ticks long_ticks s w then Some (Some s)
     else case s_next (sockets w s) of
       None \<Rightarrow> Some None
     | Some n \<Rightarrow> sweep_seek short_ticks long_ticks n w)"

definition emit_timeout :: "handler \<Rightarrow> u8 \<Rightarrow> addr \<Rightarrow> world \<Rightarrow> world" where
  "emit_timeout h short_ticks s w =
    (if short_ticks = s_timeout (sockets w s)
     then snd (dispatch h (Ev_timeout s) (upd_s s (s_timeout_update (\<lambda>_. 255)) w)) else w)"

definition emit_long_timeout :: "handler \<Rightarrow> u8 \<Rightarrow> addr \<Rightarrow> addr \<Rightarrow> world \<Rightarrow> world" where
  "emit_long_timeout h long_ticks grp s w =
    (if g_iterator (groups w grp) = Some s \<and> long_ticks = s_long_timeout (sockets w s)
     then snd (dispatch h (Ev_long_timeout s) (upd_s s (s_long_timeout_update (\<lambda>_. 255)) w)) else w)"

text \<open>
  The sockets of one group from \<open>s\<close> on. The first result is \<open>False\<close> for \<open>outer_continue\<close>:
  the loop's iterator has left this group, which must not be touched again.
\<close>

partial_function (option) sweep_group ::
  "handler \<Rightarrow> addr \<Rightarrow> u8 \<Rightarrow> u8 \<Rightarrow> ptr \<Rightarrow> world \<Rightarrow> (bool \<times> world) option" where
  "sweep_group h grp short_ticks long_ticks sp w = (case sp of
     None \<Rightarrow> Some (True, w)
   | Some s0 \<Rightarrow> (case sweep_seek short_ticks long_ticks s0 w of
       None \<Rightarrow> None
     | Some None \<Rightarrow> Some (True, w)
     | Some (Some s) \<Rightarrow>
         (let w = emit_timeout h short_ticks s (upd_g grp (g_iterator_update (\<lambda>_. Some s)) w) in
          if ld_iterator (loop w) \<noteq> Some grp then Some (False, w)
          else let w = emit_long_timeout h long_ticks grp s w in
          if ld_iterator (loop w) \<noteq> Some grp then Some (False, w)
          else sweep_group h grp short_ticks long_ticks
                 (if g_iterator (groups w grp) = Some s then s_next (sockets w s)
                  else g_iterator (groups w grp)) w)))"

definition tick_group :: "us_socket_group_t \<Rightarrow> us_socket_group_t" where
  "tick_group g = (let t = g_global_tick g + 1 in
     g\<lparr>g_global_tick := t, g_timestamp := ucast (t mod 240),
       g_long_timestamp := ucast ((t div 15) mod 240)\<rparr>)"

partial_function (option) sweep_groups :: "handler \<Rightarrow> world \<Rightarrow> world option" where
  "sweep_groups h w = (case ld_iterator (loop w) of
     None \<Rightarrow> Some w
   | Some grp \<Rightarrow>
      (let w = upd_g grp tick_group w in
       case sweep_group h grp (g_timestamp (groups w grp)) (g_long_timestamp (groups w grp))
              (g_head_sockets (groups w grp)) w of
         None \<Rightarrow> None
       | Some (survived, w) \<Rightarrow> sweep_groups h
           (if survived
            then upd_loop (ld_iterator_update (\<lambda>_. g_next (groups w grp)))
                   (upd_g grp (g_iterator_update (\<lambda>_. None)) w)
            else w)))"

definition us_internal_timer_sweep :: "handler \<Rightarrow> world \<Rightarrow> world option" where
  "us_internal_timer_sweep h w =
     sweep_groups h (upd_loop (ld_iterator_update (\<lambda>_. ld_head (loop w))) w)"

definition sweep_timer_cb :: "handler \<Rightarrow> world \<Rightarrow> world option" where
  "sweep_timer_cb h w = us_internal_timer_sweep h w"

definition sweep_timer_noop :: "world \<Rightarrow> world" where
  "sweep_timer_noop w = w"

subsection \<open>Arithmetic of the clock\<close>

lemma unat_drop_bit_2: "unat (drop_bit 2 (x :: u32)) = unat x div 4"
  by (simp add: drop_bit_eq_div unat_div)

lemma unat_ucast_lt:
  "unat x < 2 ^ LENGTH('b) \<Longrightarrow> unat (ucast (x :: 'a::len word) :: 'b::len word) = unat x"
  by (simp add: unsigned_ucast_eq take_bit_nat_eq_self_iff)

text \<open>\<open>n\<close> seconds, rounded up, in sweeps of four seconds.\<close>

definition sweeps :: "nat \<Rightarrow> nat" where
  "sweeps n = (n + 3) div 4"

lemma mod_240_lt: "n mod 240 < (256::nat)"
  by (rule less_trans [OF mod_less_divisor]) simp_all

lemma timeout_ticks_nat:
  assumes "seconds \<noteq> 0" "unat seconds \<le> 960"
  shows "unat (timeout_ticks ts seconds) = (unat ts + sweeps (unat seconds)) mod 240"
proof -
  have s3: "unat (seconds + 3) = unat seconds + 3" using assms(2) by (simp add: unat_word_ariths)
  have ts: "unat ts < 256" using unsigned_less [of ts] by simp
  have c: "unat (ucast ts :: u32) = unat ts" using ts by (simp add: unat_ucast_lt)
  have "unat (ucast ts + drop_bit 2 (seconds + 3) :: u32) = unat ts + (unat seconds + 3) div 4"
    using assms(2) ts by (simp add: unat_word_ariths(1) unat_drop_bit_2 s3 c del: unsigned_ucast_eq)
  then have "unat ((ucast ts + drop_bit 2 (seconds + 3)) mod 240 :: u32) = (unat ts + (unat seconds + 3) div 4) mod 240"
    by (simp add: unat_mod)
  then show ?thesis
    using assms(1) mod_240_lt by (simp add: timeout_ticks_def sweeps_def unat_ucast_lt)
qed

text \<open>
  The clock after \<open>k\<close> more sweeps is \<open>(t + k) mod 240\<close>: a timeout of up to 960 seconds set at
  clock \<open>t\<close> is met first at sweep number \<open>sweeps seconds\<close>.
\<close>

lemma clock_meets:
  fixes t k n :: nat
  assumes "1 \<le> k" "k \<le> 240" "1 \<le> n" "n \<le> 240"
  shows "(t + k) mod 240 = (t mod 240 + n) mod 240 \<longleftrightarrow> k = n"
proof -
  have eq: "a = b" if "a \<le> b" "(t + b) mod 240 = (t + a) mod 240" "1 \<le> a" "b \<le> 240" for a b :: nat
  proof (rule ccontr)
    assume "a \<noteq> b"
    have "240 dvd (t + b) - (t + a)" using that mod_eq_dvd_iff_nat [of "t + a" "t + b" 240] by simp
    then have "240 \<le> b - a" using that(1) \<open>a \<noteq> b\<close> by (auto dest: dvd_imp_le)
    then show False using that by simp
  qed
  show ?thesis
    using eq [of k n] eq [of n k] assms by (metis mod_add_left_eq nat_le_linear)
qed

subsection \<open>What a sweep emits\<close>

text \<open>An idle application looks but does not call back.\<close>

definition idle :: "handler \<Rightarrow> bool" where
  "idle h \<longleftrightarrow> (\<forall>e w. snd (h e w) = w)"

definition fired :: "u8 \<Rightarrow> u8 \<Rightarrow> (addr \<Rightarrow> us_socket_t) \<Rightarrow> addr \<Rightarrow> event list" where
  "fired st lt ss s = (if st = s_timeout (ss s) then [Ev_timeout s] else [])
     @ (if lt = s_long_timeout (ss s) then [Ev_long_timeout s] else [])"

definition expire :: "u8 \<Rightarrow> u8 \<Rightarrow> us_socket_t \<Rightarrow> us_socket_t" where
  "expire st lt x = x\<lparr>s_timeout := (if st = s_timeout x then 255 else s_timeout x),
     s_long_timeout := (if lt = s_long_timeout x then 255 else s_long_timeout x)\<rparr>"

lemma expire_idle: "\<not> is_due st lt s w \<Longrightarrow> expire st lt (sockets w s) = sockets w s"
  by (simp add: is_due_def expire_def)

lemma fired_idle: "\<not> is_due st lt s w \<Longrightarrow> fired st lt (sockets w) s = []"
  by (simp add: is_due_def fired_def)

text \<open>The tight loop finds the first due socket of the list.\<close>

lemma sweep_seek_list:
  "sll (snx w) (Some s) (s # xs) \<Longrightarrow> sweep_seek st lt s w = Some (find (\<lambda>x. is_due st lt x w) (s # xs))"
proof (induction xs arbitrary: s)
  case Nil
  then show ?case by (subst sweep_seek.simps) simp
next
  case (Cons y ys)
  then show ?case by (subst sweep_seek.simps) (auto simp: Cons.IH [of y])
qed

lemma find_split:
  "find P xs = Some s \<Longrightarrow> \<exists>as bs. xs = as @ s # bs \<and> P s \<and> (\<forall>x\<in>set as. \<not> P x)"
proof (induction xs)
  case (Cons x xs)
  show ?case
  proof (cases "P x")
    case True
    with Cons.prems show ?thesis by (intro exI [of _ "[]"] exI [of _ xs]) simp
  next
    case False
    with Cons obtain as bs where "xs = as @ s # bs" "P s" "\<forall>y\<in>set as. \<not> P y" by auto
    with False show ?thesis by (intro exI [of _ "x # as"] exI [of _ bs]) simp
  qed
qed simp

lemma dispatch_idle: "idle h \<Longrightarrow> snd (dispatch h e w) = log_event e w"
  by (simp add: idle_def dispatch_def)

lemma log_event_sel [simp]:
  "kern (log_event e w) = (kern w)\<lparr>trace := Dispatch e # trace (kern w)\<rparr>"
  "polls (log_event e w) = polls w" "sockets (log_event e w) = sockets w" "conns (log_event e w) = conns w"
  "listeners (log_event e w) = listeners w" "groups (log_event e w) = groups w"
  "udps (log_event e w) = udps w" "callbacks (log_event e w) = callbacks w"
  "loop (log_event e w) = loop w" "heap_tag (log_event e w) = heap_tag w"
  "next_addr (log_event e w) = next_addr w"
  by (simp_all add: log_event_def)

definition emit :: "handler \<Rightarrow> addr \<Rightarrow> u8 \<Rightarrow> u8 \<Rightarrow> addr \<Rightarrow> world \<Rightarrow> world" where
  "emit h g st lt s w = emit_long_timeout h lt g s
     (emit_timeout h st s (upd_g g (g_iterator_update (\<lambda>_. Some s)) w))"

lemma emit_idle:
  assumes "idle h" "lt \<noteq> 255"
  shows "kern (emit h g st lt s w) =
      (kern w)\<lparr>trace := map Dispatch (rev (fired st lt (sockets w) s)) @ trace (kern w)\<rparr>"
    "sockets (emit h g st lt s w) = (sockets w)(s := expire st lt (sockets w s))"
    "groups (emit h g st lt s w) = (groups w)(g := (groups w g)\<lparr>g_iterator := Some s\<rparr>)"
    "loop (emit h g st lt s w) = loop w"
  using assms
  by (auto simp: emit_def emit_timeout_def emit_long_timeout_def dispatch_idle fired_def expire_def
      fun_eq_iff)

lemma sweep_group_step:
  assumes "idle h" "ld_iterator (loop w) = Some g" "sweep_seek st lt s0 w = Some (Some s)" "lt \<noteq> 255"
  shows "sweep_group h g st lt (Some s0) w =
    sweep_group h g st lt (s_next (sockets (emit h g st lt s w) s)) (emit h g st lt s w)"
proof -
  define w1 where "w1 = emit_timeout h st s (upd_g g (g_iterator_update (\<lambda>_. Some s)) w)"
  have e: "emit h g st lt s w = emit_long_timeout h lt g s w1" by (simp add: emit_def w1_def)
  have l: "loop w1 = loop w" using assms(1) by (simp add: w1_def emit_timeout_def dispatch_idle)
  note l2 = emit_idle(3,4) [OF assms(1,4), of g st s w, unfolded e]
  show ?thesis
    by (subst sweep_group.simps) (simp add: assms(2,3) Let_def e l l2 flip: w1_def)
qed

lemma sweep_group_list:
  assumes "idle h" "lt \<noteq> 255"
  shows "ld_iterator (loop w) = Some g \<Longrightarrow> sll (snx w) sp xs \<Longrightarrow>
    \<exists>w'. sweep_group h g st lt sp w = Some (True, w')
      \<and> trace (kern w') = map Dispatch (rev (concat (map (fired st lt (sockets w)) xs))) @ trace (kern w)
      \<and> sockets w' = (\<lambda>x. if x \<in> set xs then expire st lt (sockets w x) else sockets w x)
      \<and> (\<exists>i. groups w' = (groups w)(g := (groups w g)\<lparr>g_iterator := i\<rparr>)) \<and> loop w' = loop w"
proof (induction "length xs" arbitrary: xs sp w rule: less_induct)
  case less
  show ?case
  proof (cases xs)
    case Nil
    with less.prems have "sp = None" by (cases sp) auto
    then show ?thesis
      using Nil by (subst sweep_group.simps) (auto intro!: exI [of _ w] exI [of _ "g_iterator (groups w g)"])
  next
    case (Cons s0 ys)
    with less.prems have sp: "sp = Some s0" "sll (snx w) (Some s0) (s0 # ys)" by (cases sp; auto)+
    note seek = sweep_seek_list [OF sp(2), of st lt, folded Cons]
    show ?thesis
    proof (cases "find (\<lambda>x. is_due st lt x w) xs")
      case None
      then have idle: "\<forall>x\<in>set xs. \<not> is_due st lt x w" by (simp add: find_None_iff)
      then have c: "concat (map (fired st lt (sockets w)) xs) = []" by (simp add: fired_idle)
      have s: "sockets w = (\<lambda>x. if x \<in> set xs then expire st lt (sockets w x) else sockets w x)"
        using idle by (auto simp: expire_idle fun_eq_iff)
      have g: "\<exists>i. groups w = (groups w)(g := (groups w g)\<lparr>g_iterator := i\<rparr>)"
        by (rule exI [of _ "g_iterator (groups w g)"]) simp
      have r: "sweep_group h g st lt sp w = Some (True, w)"
        using seek None by (subst sweep_group.simps) (simp add: sp(1))
      have "trace (kern w) = map Dispatch (rev (concat (map (fired st lt (sockets w)) xs))) @ trace (kern w)"
        by (simp only: c) simp
      with r s g show ?thesis by (intro exI [of _ w] conjI refl)
    next
      case (Some s)
      obtain as bs where xs: "xs = as @ s # bs" "\<forall>x\<in>set as. \<not> is_due st lt x w"
        using find_split [OF Some] by auto
      define w1 where "w1 = emit h g st lt s w"
      note w1 = emit_idle [OF assms, of g st s w, folded w1_def]
      have step: "sweep_group h g st lt sp w = sweep_group h g st lt (s_next (sockets w1 s)) w1"
        using sweep_group_step [OF assms(1) less.prems(1) _ assms(2)] seek Some by (simp add: sp(1) w1_def)
      have nx: "snx w1 = snx w" by (auto simp: w1 expire_def)
      have nx': "s_next (sockets w1 s) = s_next (sockets w s)" by (simp add: w1 expire_def)
      have "distinct xs" using less.prems(2) by (rule sll_distinct)
      then have dist: "s \<notin> set as" "s \<notin> set bs" "set as \<inter> set bs = {}" using xs(1) by auto
      have tail: "sll (snx w1) (s_next (sockets w1 s)) bs"
        using sll_suffix [of "snx w" sp as s bs] less.prems(2) xs(1) unfolding nx by (simp add: nx')
      have it: "ld_iterator (loop w1) = Some g" using less.prems(1) by (simp add: w1)
      have "length bs < length xs" using xs(1) by simp
      from less.hyps [OF this it tail] obtain w' i where w':
        "sweep_group h g st lt (s_next (sockets w1 s)) w1 = Some (True, w')"
        "trace (kern w') = map Dispatch (rev (concat (map (fired st lt (sockets w1)) bs))) @ trace (kern w1)"
        "sockets w' = (\<lambda>x. if x \<in> set bs then expire st lt (sockets w1 x) else sockets w1 x)"
        "groups w' = (groups w1)(g := (groups w1 g)\<lparr>g_iterator := i\<rparr>)" "loop w' = loop w1" by blast
      have f: "map (fired st lt (sockets w1)) bs = map (fired st lt (sockets w)) bs"
        using dist(2) by (intro map_cong) (auto simp: w1 fired_def)
      have a: "concat (map (fired st lt (sockets w)) as) = []" using xs(2) by (simp add: fired_idle)
      have "trace (kern w') = map Dispatch (rev (concat (map (fired st lt (sockets w)) xs))) @ trace (kern w)"
        using a by (simp add: w'(2) [unfolded f] w1(1) xs(1))
      moreover have "sockets w' = (\<lambda>x. if x \<in> set xs then expire st lt (sockets w x) else sockets w x)"
        using dist xs(2) by (auto simp: w'(3) w1 xs(1) expire_idle fun_eq_iff)
      moreover have "groups w' = (groups w)(g := (groups w g)\<lparr>g_iterator := i\<rparr>)"
        by (simp add: w'(4) w1)
      moreover have "sweep_group h g st lt sp w = Some (True, w')" "loop w' = loop w"
        by (simp_all add: step w'(1,5) w1(4))
      ultimately show ?thesis by (intro exI [of _ w'] exI [of _ i] conjI)
    qed
  qed
qed

definition short_clock :: "us_socket_group_t \<Rightarrow> u8" where
  "short_clock g = ucast ((g_global_tick g + 1) mod 240)"

definition long_clock :: "us_socket_group_t \<Rightarrow> u8" where
  "long_clock g = ucast (((g_global_tick g + 1) div 15) mod 240)"

lemma clock_not_255: "short_clock g \<noteq> 255" "long_clock g \<noteq> 255"
proof -
  have "ucast (x mod 240 :: u32) \<noteq> (255 :: u8)" for x
  proof
    assume "ucast (x mod 240) = (255 :: u8)"
    then have "unat (ucast (x mod 240) :: u8) = 255" by simp
    moreover have "unat (x mod 240) < 240" by (simp add: unat_mod)
    ultimately show False by (simp add: unat_ucast_lt)
  qed
  then show "short_clock g \<noteq> 255" "long_clock g \<noteq> 255" by (simp_all add: short_clock_def long_clock_def)
qed

text \<open>What one group, and the groups in order, have to emit at the next sweep.\<close>

definition group_events :: "world \<Rightarrow> (addr \<Rightarrow> addr list) \<Rightarrow> addr \<Rightarrow> event list" where
  "group_events w ss g =
     concat (map (fired (short_clock (groups w g)) (long_clock (groups w g)) (sockets w)) (ss g))"

definition sweep_events :: "world \<Rightarrow> absr \<Rightarrow> event list" where
  "sweep_events w A = concat (map (group_events w (a_socks A)) (a_groups A))"

lemma sweep_groups_list:
  assumes "idle h"
  shows "sll (gnx w) (ld_iterator (loop w)) gs \<Longrightarrow>
    (\<And>g. sll (snx w) (g_head_sockets (groups w g)) (ss g)) \<Longrightarrow>
    (\<And>g g'. g \<noteq> g' \<Longrightarrow> set (ss g) \<inter> set (ss g') = {}) \<Longrightarrow>
    \<exists>w'. sweep_groups h w = Some w'
      \<and> trace (kern w') = map Dispatch (rev (concat (map (group_events w ss) gs))) @ trace (kern w)
      \<and> (\<forall>x. g_global_tick (groups w' x) = g_global_tick (groups w x) + (if x \<in> set gs then 1 else 0))
      \<and> (\<forall>x s. x \<in> set gs \<longrightarrow> s \<in> set (ss x) \<longrightarrow>
            sockets w' s = expire (short_clock (groups w x)) (long_clock (groups w x)) (sockets w s))
      \<and> (\<forall>s. (\<forall>x\<in>set gs. s \<notin> set (ss x)) \<longrightarrow> sockets w' s = sockets w s)"
proof (induction gs arbitrary: w)
  case Nil
  then have "ld_iterator (loop w) = None" by (cases "ld_iterator (loop w)") auto
  then show ?case by (subst sweep_groups.simps) simp
next
  case (Cons g gs)
  have it: "ld_iterator (loop w) = Some g" using Cons.prems(1) by (cases "ld_iterator (loop w)") auto
  define w1 where "w1 = upd_g g tick_group w"
  have t1: "g_timestamp (groups w1 g) = short_clock (groups w g)" "g_long_timestamp (groups w1 g) = long_clock (groups w g)"
    "g_head_sockets (groups w1 g) = g_head_sockets (groups w g)" "sockets w1 = sockets w" "kern w1 = kern w"
    "loop w1 = loop w" "\<And>x. x \<noteq> g \<Longrightarrow> groups w1 x = groups w x"
    "g_global_tick (groups w1 g) = g_global_tick (groups w g) + 1" "g_next (groups w1 g) = g_next (groups w g)"
    by (simp_all add: w1_def tick_group_def short_clock_def long_clock_def Let_def)
  have it1: "ld_iterator (loop w1) = Some g" using it by (simp add: t1)
  have sl1: "sll (snx w1) (g_head_sockets (groups w g)) (ss g)" using Cons.prems(2) by (simp add: t1)
  obtain w2 i where w2:
    "sweep_group h g (short_clock (groups w g)) (long_clock (groups w g)) (g_head_sockets (groups w g)) w1 = Some (True, w2)"
    "trace (kern w2) = map Dispatch (rev (group_events w ss g)) @ trace (kern w)"
    "sockets w2 = (\<lambda>x. if x \<in> set (ss g) then expire (short_clock (groups w g)) (long_clock (groups w g)) (sockets w x)
       else sockets w x)"
    "groups w2 = (groups w1)(g := (groups w1 g)\<lparr>g_iterator := i\<rparr>)" "loop w2 = loop w"
    using sweep_group_list [OF assms clock_not_255(2) [of "groups w g"] it1 sl1, of "short_clock (groups w g)"]
    unfolding t1(4-6) group_events_def by blast
  define w3 where "w3 = upd_loop (ld_iterator_update (\<lambda>_. g_next (groups w2 g))) (upd_g g (g_iterator_update (\<lambda>_. None)) w2)"
  have step: "sweep_groups h w = sweep_groups h w3"
    by (subst sweep_groups.simps) (simp add: it Let_def t1 w2(1) w3_def flip: w1_def)
  have s3: "sockets w3 = sockets w2" "kern w3 = kern w2" "ld_iterator (loop w3) = g_next (groups w g)"
    "\<And>x. x \<noteq> g \<Longrightarrow> groups w3 x = groups w x" "g_global_tick (groups w3 g) = g_global_tick (groups w g) + 1"
    "g_head_sockets (groups w3 g) = g_head_sockets (groups w g)"
    by (simp_all add: w3_def w2(4) t1)
  have nx: "snx w3 = snx w" by (auto simp: s3(1) w2(3) expire_def)
  have gh: "g_head_sockets (groups w3 x) = g_head_sockets (groups w x)" for x
    using s3(4,6) by (cases "x = g") auto
  have gn: "g \<notin> set gs" using sll_distinct [OF Cons.prems(1)] by simp
  have l: "sll (gnx w3) (ld_iterator (loop w3)) gs"
  proof -
    have "sll (gnx w) (g_next (groups w g)) gs" using Cons.prems(1) it by simp
    moreover have "gnx w3 a = gnx w a" if "a \<in> set gs" for a
      using that gn s3(4) [of a] by metis
    ultimately show ?thesis using s3(3) by (subst sll_frame [of _ _ "gnx w"]) auto
  qed
  obtain w' where w': "sweep_groups h w3 = Some w'"
    "trace (kern w') = map Dispatch (rev (concat (map (group_events w3 ss) gs))) @ trace (kern w3)"
    "\<forall>x. g_global_tick (groups w' x) = g_global_tick (groups w3 x) + (if x \<in> set gs then 1 else 0)"
    "\<forall>x s. x \<in> set gs \<longrightarrow> s \<in> set (ss x) \<longrightarrow>
            sockets w' s = expire (short_clock (groups w3 x)) (long_clock (groups w3 x)) (sockets w3 s)"
    "\<forall>s. (\<forall>x\<in>set gs. s \<notin> set (ss x)) \<longrightarrow> sockets w' s = sockets w3 s"
    using Cons.IH [OF l _ Cons.prems(3)] Cons.prems(2) by (auto simp: nx gh)
  have same: "group_events w3 ss x = group_events w ss x" if "x \<noteq> g" for x
    using Cons.prems(3) [OF that] that
    by (auto simp: group_events_def s3(1,4) w2(3) fired_def disjoint_iff intro!: arg_cong [where f = concat] map_cong)
  have "trace (kern w') = map Dispatch (rev (concat (map (group_events w ss) (g # gs)))) @ trace (kern w)"
    using gn by (simp add: w'(2) s3(2) w2(2)) (metis same map_eq_conv)
  moreover have "\<forall>x. g_global_tick (groups w' x) = g_global_tick (groups w x) + (if x \<in> set (g # gs) then 1 else 0)"
  proof
    fix x
    show "g_global_tick (groups w' x) = g_global_tick (groups w x) + (if x \<in> set (g # gs) then 1 else 0)"
      using w'(3) s3(4) [of x] s3(5) gn by (cases "x = g") auto
  qed
  moreover have "\<forall>x s. x \<in> set (g # gs) \<longrightarrow> s \<in> set (ss x) \<longrightarrow>
            sockets w' s = expire (short_clock (groups w x)) (long_clock (groups w x)) (sockets w s)"
  proof (intro allI impI)
    fix x s
    assume x: "x \<in> set (g # gs)" "s \<in> set (ss x)"
    show "sockets w' s = expire (short_clock (groups w x)) (long_clock (groups w x)) (sockets w s)"
    proof (cases "x = g")
      case True
      then have "\<forall>y\<in>set gs. s \<notin> set (ss y)" using x gn Cons.prems(3) by (metis IntI empty_iff)
      then show ?thesis using w'(5) x True by (simp add: s3(1) w2(3))
    next
      case False
      then have "s \<notin> set (ss g)" using x Cons.prems(3) [OF False] by auto
      then show ?thesis using w'(4) x False s3(4) [OF False] by (simp add: s3(1) w2(3))
    qed
  qed
  moreover have "\<forall>s. (\<forall>x\<in>set (g # gs). s \<notin> set (ss x)) \<longrightarrow> sockets w' s = sockets w s"
    using w'(5) by (simp add: s3(1) w2(3))
  ultimately show ?case using step w'(1) by (intro exI [of _ w'] conjI) simp_all
qed

text \<open>
  C4: A sweep of a well-formed loop returns. It advances the clock of every group on the loop's list by one,
  calls \<open>on_timeout\<close> and \<open>on_long_timeout\<close> for exactly the sockets of those groups whose short or long
  timeout equals the new clock, in the order of the lists, resets the timeouts that fired, and changes no
  other socket (with an application whose callbacks make no call).
\<close>

theorem sweep_emits:
  assumes "wf_world A w" "idle h"
  shows "\<exists>w'. us_internal_timer_sweep h w = Some w'
      \<and> trace (kern w') = map Dispatch (rev (sweep_events w A)) @ trace (kern w)
      \<and> (\<forall>x. g_global_tick (groups w' x) = g_global_tick (groups w x) + (if x \<in> set (a_groups A) then 1 else 0))
      \<and> (\<forall>x s. x \<in> set (a_groups A) \<longrightarrow> s \<in> set (a_socks A x) \<longrightarrow>
            sockets w' s = expire (short_clock (groups w x)) (long_clock (groups w x)) (sockets w s))
      \<and> (\<forall>s. (\<forall>x\<in>set (a_groups A). s \<notin> set (a_socks A x)) \<longrightarrow> sockets w' s = sockets w s)"
proof -
  define w1 where "w1 = upd_loop (ld_iterator_update (\<lambda>_. ld_head (loop w))) w"
  have f: "groups w1 = groups w" "sockets w1 = sockets w" "kern w1 = kern w" by (simp_all add: w1_def)
  have ev: "group_events w1 ss = group_events w ss" for ss by (simp add: group_events_def f fun_eq_iff)
  have gl: "sll (gnx w1) (ld_iterator (loop w1)) (a_groups A)"
    using assms(1) by (auto simp: wf_world_def wf_groups_def w1_def dest: dll_sll)
  have sl: "sll (snx w1) (g_head_sockets (groups w1 g)) (a_socks A g)" for g
    using assms(1) by (auto simp: wf_world_def wf_socks_def f dest: dll_sll)
  have dj: "set (a_socks A g) \<inter> set (a_socks A g') = {}" if "g \<noteq> g'" for g g'
    using assms(1) that by (auto simp: wf_world_def dest: wf_socks_disjoint)
  show ?thesis
    using sweep_groups_list [OF assms(2) gl sl dj]
    by (simp add: us_internal_timer_sweep_def sweep_events_def ev f flip: w1_def)
qed

end
