(* ===== verification/Us_Tls.thy ===== *)
theory Us_Tls imports
  Us_Timeout
begin

section \<open>The TLS layer: sessions, events, reading and writing (\<open>crypto/openssl.c\<close>)\<close>

text \<open>
  A socket with \<open>s_ssl\<close> set sends its events through this layer. \<open>on_open\<close> starts the handshake,
  \<open>on_data\<close> decrypts what has arrived and hands on the plaintext, \<open>on_writable\<close> retries what
  was blocked, \<open>on_end\<close> answers the end of the stream. Reading and the two event functions, which
  call each other, are partial: \<open>None\<close> is a call that does not return, and \<open>Us_Serving\<close> shows
  that they return when the application does not extend the script of answers.
\<close>

subsection \<open>Sessions\<close>

definition us_internal_init_loop_ssl_data :: "world \<Rightarrow> world" where
  "us_internal_init_loop_ssl_data w =
    (if \<not> ld_ssl_inited (loop w)
     then upd_loop (\<lambda>l. l\<lparr>ld_ssl_inited := True, ld_ssl_socket := None, ld_ssl_read_input := [],
            ld_ssl_read_input_offset := 0, ld_ssl_read_input_length := 0\<rparr>) w
     else w)"

definition us_internal_free_loop_ssl_data :: "world \<Rightarrow> world" where
  "us_internal_free_loop_ssl_data w =
    (if ld_ssl_inited (loop w) then upd_loop (ld_ssl_inited_update (\<lambda>_. False)) w else w)"

definition us_internal_ssl_ctx_up_ref :: "ptr \<Rightarrow> world \<Rightarrow> world" where
  "us_internal_ssl_ctx_up_ref p w = (case p of None \<Rightarrow> w | Some ctx \<Rightarrow> ext_call (Ssl SSL_CTX_up_ref ctx) w)"

definition us_internal_ssl_ctx_unref :: "ptr \<Rightarrow> world \<Rightarrow> world" where
  "us_internal_ssl_ctx_unref p w = (case p of None \<Rightarrow> w | Some ctx \<Rightarrow> ext_call (Ssl SSL_CTX_free ctx) w)"

text \<open>\<open>SSL_new\<close> answers with the address of the session (allocation does not fail).\<close>

definition us_internal_ssl_attach ::
  "addr \<Rightarrow> addr \<Rightarrow> bool \<Rightarrow> char list option \<Rightarrow> ptr \<Rightarrow> world \<Rightarrow> world" where
  "us_internal_ssl_attach s ctx is_client sni listener w =
    (let w = us_internal_init_loop_ssl_data w;
         (r, w) = lift_k (sys (Ssl SSL_new ctx)) w;
         ssl = (case r_ptr r of None \<Rightarrow> 0 | Some a \<Rightarrow> a);
         w = ext_call (Ssl SSL_set_bio ssl) w;
         w = (if is_client then
                let w = ext_call (Ssl SSL_set_renegotiate_explicit ssl) w;
                    w = ext_call (Ssl SSL_set_connect_state ssl) w;
                    w = (case sni of None \<Rightarrow> w | Some n \<Rightarrow> ext_call (Ssl (SSL_set_tlsext_host_name n) ssl) w);
                    (r, w) = lift_k (sys (Ssl SSL_CTX_get_verify_mode ctx)) w
                in (if r_ret r = 0 then
                      ext_call (Ssl SSL_set0_verify_cert_store ssl) (ext_call (Ssl SSL_set_verify_peer ssl) w)
                    else w)
              else
                let w = ext_call (Ssl SSL_set_accept_state ssl) w;
                    w = ext_call (Ssl SSL_set_renegotiate_never ssl) w
                in ext_call (Ssl (SSL_set_listener listener) ssl) w)
     in upd_s s (\<lambda>x. x\<lparr>s_ssl := Some ssl, s_ssl_handshake_state := HANDSHAKE_PENDING,
          s_ssl_write_wants_read := False, s_ssl_read_wants_write := False,
          s_ssl_fatal_error := False, s_ssl_raw_tap := False,
          s_ssl_is_server := \<not> is_client\<rparr>) w)"

subsection \<open>Events\<close>

definition gone_ptr :: "ptr \<Rightarrow> world \<Rightarrow> bool" where
  "gone_ptr p w = (case p of None \<Rightarrow> True | Some s \<Rightarrow> ssl_gone s w)"

definition us_internal_ssl_on_open ::
  "handler \<Rightarrow> addr \<Rightarrow> bool \<Rightarrow> u8 list \<Rightarrow> world \<Rightarrow> ptr \<times> world" where
  "us_internal_ssl_on_open h s is_client ip w =
    (let w = ssl_set_loop_data s w;
         (result, w) = dispatch h (Ev_open s is_client ip) w
     in if gone_ptr result w then (result, w)
        else (result, ssl_update_handshake h (the result) w))"

definition us_internal_ssl_on_end :: "handler \<Rightarrow> addr \<Rightarrow> world \<Rightarrow> ptr \<times> world" where
  "us_internal_ssl_on_end h s w = us_internal_ssl_close h s 0 None (ssl_set_loop_data s w)"

text \<open>
  How the reading loop of \<open>on_data\<close> ends: with a \<open>return\<close> of the function, or with a \<open>break\<close>
  to the code after it, with the socket the last callback returned.
\<close>

datatype read_end = Returned ptr | Broke addr

partial_function (option) ssl_read_loop ::
  "handler \<Rightarrow> addr \<Rightarrow> int \<Rightarrow> u8 list \<Rightarrow> world \<Rightarrow> (read_end \<times> world) option" where
  "ssl_read_loop h s read buf w =
    (let ssl = the (s_ssl (sockets w s));
         (r, w) = ssl_call (SSL_read (LIBUS_RECV_BUFFER_LENGTH - read)) ssl w;
         just_read = r_ret r
     in if just_read \<le> 0 then
       (let (err, w) = ssl_ret (SSL_get_error just_read) ssl w in
        if err \<noteq> SSL_ERROR_WANT_READ \<and> err \<noteq> SSL_ERROR_WANT_WRITE then
          (if err = SSL_ERROR_WANT_RENEGOTIATE then
             (let (ok, w) = ssl_renegotiate h s w in
              if ok then ssl_read_loop h s read buf w
              else if ssl_gone s w then Some (Returned None, w)
              else Some (Returned None, snd (us_internal_ssl_close h s 0 None
                           (upd_s s (s_ssl_fatal_error_update (\<lambda>_. True)) w))))
           else if err = SSL_ERROR_ZERO_RETURN then
             (let (s2, w) = (if read \<noteq> 0 then dispatch h (Ev_data s buf) w else (Some s, w)) in
              if read \<noteq> 0 \<and> gone_ptr s2 w then Some (Returned None, w)
              else Some (Returned None, snd (us_internal_ssl_close h (the s2) 0 None w)))
           else
             (let w = (if err = SSL_ERROR_SSL \<or> err = SSL_ERROR_SYSCALL
                       then upd_s s (s_ssl_fatal_error_update (\<lambda>_. True)) w else w)
              in Some (Returned None, snd (us_internal_ssl_close h s 0 None w))))
        else
          (let w = (if err = SSL_ERROR_WANT_WRITE
                    then upd_s s (s_ssl_read_wants_write_update (\<lambda>_. True)) w else w) in
           if ld_ssl_read_input_length (loop w) \<noteq> 0 then
             (let (p, w) = us_internal_ssl_close h s 0 None w in Some (Returned p, w))
           else let (fin, w) = (if s_ssl_handshake_state (sockets w s) = HANDSHAKE_PENDING
                                then ssl_ret SSL_is_init_finished ssl w else (0, w));
                    w = (if fin \<noteq> 0 then ssl_trigger_handshake h s True w else w) in
           if fin \<noteq> 0 \<and> ssl_gone s w then Some (Returned None, w)
           else let w = (if fin \<noteq> 0 then upd_loop (ld_ssl_socket_update (\<lambda>_. Some s)) w else w) in
           if read = 0 then Some (Broke s, w)
           else let (s2, w) = dispatch h (Ev_data s buf) w in
           if gone_ptr s2 w then Some (Returned None, w) else Some (Broke (the s2), w)))
     else
       (let finish = (s_ssl_handshake_state (sockets w s) \<noteq> HANDSHAKE_COMPLETED);
            saved = loop w;
            w = (if finish then ssl_trigger_handshake h s True w else w) in
        if finish \<and> ssl_gone s w then Some (Returned None, w)
        else let w = (if finish then upd_loop (\<lambda>l. l\<lparr>ld_ssl_read_input := ld_ssl_read_input saved,
                        ld_ssl_read_input_length := ld_ssl_read_input_length saved,
                        ld_ssl_read_input_offset := ld_ssl_read_input_offset saved,
                        ld_ssl_socket := Some s\<rparr>) w else w);
                 read = read + just_read; buf = buf @ r_bytes r in
        if read = LIBUS_RECV_BUFFER_LENGTH then
          (let (s2, w) = dispatch h (Ev_data s buf) w in
           if gone_ptr s2 w then Some (Returned None, w)
           else ssl_read_loop h (the s2) 0 [] w)
        else ssl_read_loop h s read buf w))"

text \<open>
  \<open>on_writable\<close> and \<open>on_data\<close> call each other: one function, \<open>None\<close> for the writable event
  and \<open>Some data\<close> for data.
\<close>

partial_function (option) ssl_pump ::
  "handler \<Rightarrow> u8 list option \<Rightarrow> addr \<Rightarrow> world \<Rightarrow> (ptr \<times> world) option" where
  "ssl_pump h ev s w = (case ev of
     None \<Rightarrow>
       (let w = ssl_set_loop_data s w;
            w = ssl_update_handshake h s w in
        if ssl_gone s w then Some (Some s, w)
        else let again = s_ssl_read_wants_write (sockets w s);
                 w = (if again then upd_s s (s_ssl_read_wants_write_update (\<lambda>_. False)) w else w) in
        Option.bind (if again then ssl_pump h (Some []) s w else Some (Some s, w)) (\<lambda>(p, w).
          if again \<and> gone_ptr p w then Some (p, w)
          else let s = the p; (sd, w) = us_internal_ssl_is_shut_down s w in
          if sd then Some (Some s, w)
          else if s_ssl_handshake_state (sockets w s) = HANDSHAKE_COMPLETED
               then Some (dispatch h (Ev_writable s) w)
               else Some (Some s, w)))
   | Some data \<Rightarrow>
       (let tap = (s_ssl_raw_tap (sockets w s) \<and> data \<noteq> []);
            (p, w) = (if tap then dispatch h (Ev_ssl_raw_tap s data) w else (Some s, w)) in
        if tap \<and> gone_ptr p w then Some (p, w)
        else let s = the p; w = ssl_set_loop_data s w;
                 w = upd_loop (\<lambda>l. l\<lparr>ld_ssl_read_input := data,
                       ld_ssl_read_input_length := int (length data)\<rparr>) w in
        if us_socket_is_closed s w then Some (None, w)
        else let (sd, w) = us_internal_ssl_is_shut_down s w in
        if sd then Some (None, snd (us_internal_ssl_close h s 0 None w))
        else Option.bind (ssl_read_loop h s 0 [] w) (\<lambda>(e, w). case e of
          Returned p \<Rightarrow> Some (p, w)
        | Broke s \<Rightarrow>
            if ssl_gone s w then Some (None, w)
            else if s_ssl_write_wants_read (sockets w s) \<and> \<not> s_ssl_read_wants_write (sockets w s) then
              Option.bind (ssl_pump h None s (upd_s s (s_ssl_write_wants_read_update (\<lambda>_. False)) w))
                (\<lambda>(p, w). if gone_ptr p w then Some (None, w) else Some (p, w))
            else Some (Some s, w))))"

definition us_internal_ssl_on_writable :: "handler \<Rightarrow> addr \<Rightarrow> world \<Rightarrow> (ptr \<times> world) option" where
  "us_internal_ssl_on_writable h s w = ssl_pump h None s w"

definition us_internal_ssl_on_data :: "handler \<Rightarrow> addr \<Rightarrow> u8 list \<Rightarrow> world \<Rightarrow> (ptr \<times> world) option" where
  "us_internal_ssl_on_data h s data w = ssl_pump h (Some data) s w"

definition us_internal_ssl_is_low_prio :: "addr \<Rightarrow> world \<Rightarrow> bool \<times> world" where
  "us_internal_ssl_is_low_prio s w =
     (let (r, w) = ssl_ret SSL_in_init (the (s_ssl (sockets w s))) w in (r \<noteq> 0, w))"

subsection \<open>Accessors, writing, shutting down\<close>

definition us_internal_ssl_is_handshake_finished :: "addr \<Rightarrow> world \<Rightarrow> int \<times> world" where
  "us_internal_ssl_is_handshake_finished s w = (case s_ssl (sockets w s) of
     None \<Rightarrow> (0, w) | Some ssl \<Rightarrow> ssl_ret SSL_is_init_finished ssl w)"

definition us_internal_ssl_handshake_callback_has_fired :: "addr \<Rightarrow> world \<Rightarrow> bool" where
  "us_internal_ssl_handshake_callback_has_fired s w =
     (s_ssl (sockets w s) \<noteq> None \<and> s_ssl_handshake_state (sockets w s) = HANDSHAKE_COMPLETED)"

definition us_internal_ssl_get_native_handle :: "addr \<Rightarrow> world \<Rightarrow> ptr" where
  "us_internal_ssl_get_native_handle s w = s_ssl (sockets w s)"

definition ssl_select :: "addr \<Rightarrow> world \<Rightarrow> world" where
  "ssl_select s w = upd_loop (\<lambda>l. l\<lparr>ld_ssl_read_input_length := 0, ld_ssl_socket := Some s\<rparr>) w"

definition us_internal_ssl_write :: "addr \<Rightarrow> u8 list \<Rightarrow> world \<Rightarrow> int \<times> world" where
  "us_internal_ssl_write s data w =
    (if us_socket_is_closed s w then (0, w)
     else let (sd, w) = us_internal_ssl_is_shut_down s w in
     if sd \<or> data = [] then (0, w)
     else let ssl = the (s_ssl (sockets w s)); w = ssl_select s w;
              (written, w) = ssl_ret (SSL_write data) ssl w in
     if written > 0 then (written, w)
     else let (err, w) = ssl_ret (SSL_get_error written) ssl w in
       (0, if err = SSL_ERROR_WANT_READ then upd_s s (s_ssl_write_wants_read_update (\<lambda>_. True)) w
           else if err = SSL_ERROR_SSL \<or> err = SSL_ERROR_SYSCALL
           then upd_s s (s_ssl_fatal_error_update (\<lambda>_. True)) w else w))"

definition us_internal_ssl_shutdown :: "addr \<Rightarrow> world \<Rightarrow> world" where
  "us_internal_ssl_shutdown s w =
    (if us_socket_is_closed s w then w
     else let (sd, w) = us_internal_ssl_is_shut_down s w in
     if sd then w
     else let ssl = the (s_ssl (sockets w s)); w = ssl_select s w;
              (ret, w) = ssl_ret SSL_shutdown ssl w;
              (init, w) = ssl_ret SSL_in_init ssl w;
              (quiet, w) = (if init \<noteq> 0 then (1, w) else ssl_ret SSL_get_quiet_shutdown ssl w) in
     if quiet \<noteq> 0 then us_internal_socket_raw_shutdown s w
     else if ret < 0 then
       (let (err, w) = ssl_ret (SSL_get_error ret) ssl w;
            w = (if err = SSL_ERROR_SSL \<or> err = SSL_ERROR_SYSCALL
                 then upd_s s (s_ssl_fatal_error_update (\<lambda>_. True)) w else w)
        in us_internal_socket_raw_shutdown s w)
     else w)"

definition us_internal_ssl_handshake_abort :: "handler \<Rightarrow> addr \<Rightarrow> world \<Rightarrow> world" where
  "us_internal_ssl_handshake_abort h s w =
     snd (us_internal_ssl_close h s 0 None (upd_s s (s_ssl_fatal_error_update (\<lambda>_. True)) w))"

definition us_socket_start_tls_handshake :: "handler \<Rightarrow> addr \<Rightarrow> world \<Rightarrow> world" where
  "us_socket_start_tls_handshake h s w =
    (if s_ssl (sockets w s) = None \<or> us_socket_is_closed s w then w
     else ssl_update_handshake h s (ssl_set_loop_data s w))"

subsection \<open>Freeing what a listener holds\<close>

text \<open>
  Sessions accepted by a listener point back to it; the reference is wiped in the sockets of the
  group and in those parked in the queue. The index the code tests is registered before the first
  session is created, so sockets with a session are only found when it is valid.
\<close>

definition wipe_listener :: "addr \<Rightarrow> addr \<Rightarrow> world \<Rightarrow> world" where
  "wipe_listener ls s w = (case s_ssl (sockets w s) of
     None \<Rightarrow> w
   | Some ssl \<Rightarrow> (let (r, w) = lift_k (sys (Ssl SSL_get_listener ssl)) w in
       if r_ptr r = Some ls then ext_call (Ssl (SSL_set_listener None) ssl) w else w))"

partial_function (option) wipe_listeners ::
  "addr \<Rightarrow> addr option \<Rightarrow> ptr \<Rightarrow> world \<Rightarrow> world option" where
  "wipe_listeners ls only p w = (case p of
     None \<Rightarrow> Some w
   | Some s \<Rightarrow> wipe_listeners ls only (s_next (sockets w s))
       (if only = None \<or> s_group (sockets w s) = only then wipe_listener ls s w else w))"

text \<open>The leaves of the tree of names are destroyed: each gives back its reference to a context.\<close>

definition sni_node_destructor :: "sni_node_t option \<Rightarrow> world \<Rightarrow> world" where
  "sni_node_destructor user w = (case user of None \<Rightarrow> w | Some node \<Rightarrow> ext_call (Ssl SSL_CTX_free (n_ctx node)) w)"

definition us_internal_listen_socket_ssl_free :: "addr \<Rightarrow> world \<Rightarrow> world option" where
  "us_internal_listen_socket_ssl_free ls w =
    (let grp = l_accept_group (listeners w ls) in
     Option.bind (wipe_listeners ls None (g_head_sockets (groups w grp)) w) (\<lambda>w.
     Option.bind (wipe_listeners ls (Some grp) (ld_low_prio_head (loop w)) w) (\<lambda>w.
       let w = us_internal_ssl_ctx_unref (l_ssl_ctx (listeners w ls)) w;
           w = (case l_sni (listeners w ls) of None \<Rightarrow> w
                | Some sni \<Rightarrow> fold (\<lambda>node. sni_node_destructor (Some node)) (sni_free sni) w)
       in Some (upd_ls ls (\<lambda>x. x\<lparr>l_ssl_ctx := None, l_sni := None\<rparr>) w))))"

end
