(* ===== verification/Us_Socket.thy ===== *)
theory Us_Socket imports
  Us_Tls
begin

section \<open>The operations of a socket (\<open>socket.c\<close>)\<close>

text \<open>
  The public operations on a connected socket and on a connecting one. Writing, shutting down and
  closing go to the TLS layer when the socket has a session. Out parameters are results: an address is
  \<open>(length, bytes)\<close>.
\<close>

subsection \<open>Addresses and ports\<close>

definition us_socket_local_port :: "addr \<Rightarrow> world \<Rightarrow> int \<times> world" where
  "us_socket_local_port s w =
    (let (a, w) = lift_k (bsd_local_addr (us_poll_fd s w)) w in
     (case a of None \<Rightarrow> -1 | Some x \<Rightarrow> bsd_addr_get_port x, w))"

definition us_socket_remote_port :: "addr \<Rightarrow> world \<Rightarrow> int \<times> world" where
  "us_socket_remote_port s w =
    (let (a, w) = lift_k (bsd_remote_addr (us_poll_fd s w)) w in
     (case a of None \<Rightarrow> -1 | Some x \<Rightarrow> bsd_addr_get_port x, w))"

definition address_into :: "int \<Rightarrow> bsd_addr_t option \<Rightarrow> int \<times> u8 list" where
  "address_into room a = (case a of
     None \<Rightarrow> (0, [])
   | Some x \<Rightarrow> if room < bsd_addr_get_ip_length x then (0, [])
       else (bsd_addr_get_ip_length x, take (nat (bsd_addr_get_ip_length x)) (bsd_addr_get_ip x)))"

definition us_socket_remote_address :: "addr \<Rightarrow> int \<Rightarrow> world \<Rightarrow> (int \<times> u8 list) \<times> world" where
  "us_socket_remote_address s room w =
    (let (a, w) = lift_k (bsd_remote_addr (us_poll_fd s w)) w in (address_into room a, w))"

definition us_socket_local_address :: "addr \<Rightarrow> int \<Rightarrow> world \<Rightarrow> (int \<times> u8 list) \<times> world" where
  "us_socket_local_address s room w =
    (let (a, w) = lift_k (bsd_local_addr (us_poll_fd s w)) w in (address_into room a, w))"

text \<open>\<open>us_get_*_address_info\<close>: the length, the bytes and the port, or a length of 0.\<close>

definition address_info :: "bsd_addr_t option \<Rightarrow> int \<times> u8 list \<times> int" where
  "address_info a = (case a of
     None \<Rightarrow> (0, [], 0)
   | Some x \<Rightarrow> if bsd_addr_get_ip_length x = 0 then (0, [], 0)
       else (bsd_addr_get_ip_length x, take (nat (bsd_addr_get_ip_length x)) (bsd_addr_get_ip x),
             bsd_addr_get_port x))"

definition us_get_remote_address_info :: "addr \<Rightarrow> world \<Rightarrow> (int \<times> u8 list \<times> int) \<times> world" where
  "us_get_remote_address_info s w =
    (let (a, w) = lift_k (bsd_remote_addr (us_poll_fd s w)) w in (address_info a, w))"

definition us_get_local_address_info :: "addr \<Rightarrow> world \<Rightarrow> (int \<times> u8 list \<times> int) \<times> world" where
  "us_get_local_address_info s w =
    (let (a, w) = lift_k (bsd_local_addr (us_poll_fd s w)) w in (address_info a, w))"

subsection \<open>Accessors\<close>

definition us_socket_group :: "addr \<Rightarrow> world \<Rightarrow> ptr" where
  "us_socket_group s w = s_group (sockets w s)"

definition us_socket_kind :: "addr \<Rightarrow> world \<Rightarrow> u8" where
  "us_socket_kind s w = s_kind (sockets w s)"

definition us_socket_set_kind :: "addr \<Rightarrow> u8 \<Rightarrow> world \<Rightarrow> world" where
  "us_socket_set_kind s kind w = upd_s s (s_kind_update (\<lambda>_. kind)) w"

definition us_socket_set_ssl_raw_tap :: "addr \<Rightarrow> int \<Rightarrow> world \<Rightarrow> world" where
  "us_socket_set_ssl_raw_tap s enabled w = upd_s s (s_ssl_raw_tap_update (\<lambda>_. enabled \<noteq> 0)) w"

definition us_socket_is_tls :: "addr \<Rightarrow> world \<Rightarrow> bool" where
  "us_socket_is_tls s w = (s_ssl (sockets w s) \<noteq> None)"

definition us_socket_is_established :: "addr \<Rightarrow> world \<Rightarrow> bool" where
  "us_socket_is_established s w = (us_internal_poll_type s w \<noteq> POLL_TYPE_SEMI_SOCKET)"

definition us_socket_is_ssl_handshake_finished :: "addr \<Rightarrow> world \<Rightarrow> int \<times> world" where
  "us_socket_is_ssl_handshake_finished s w =
    (if s_ssl (sockets w s) \<noteq> None then us_internal_ssl_is_handshake_finished s w else (1, w))"

definition us_socket_ssl_handshake_callback_has_fired :: "addr \<Rightarrow> world \<Rightarrow> bool" where
  "us_socket_ssl_handshake_callback_has_fired s w =
    (if s_ssl (sockets w s) \<noteq> None then us_internal_ssl_handshake_callback_has_fired s w else True)"

definition us_socket_get_native_handle :: "addr \<Rightarrow> world \<Rightarrow> int" where
  "us_socket_get_native_handle s w = (case us_internal_ssl_get_native_handle s w of
     Some ssl \<Rightarrow> int ssl | None \<Rightarrow> us_poll_fd s w)"

definition us_connecting_socket_group :: "addr \<Rightarrow> world \<Rightarrow> ptr" where
  "us_connecting_socket_group c w = c_group (conns w c)"

definition us_connecting_socket_kind :: "addr \<Rightarrow> world \<Rightarrow> u8" where
  "us_connecting_socket_kind c w = c_kind (conns w c)"

definition us_connecting_socket_is_closed :: "addr \<Rightarrow> world \<Rightarrow> bool" where
  "us_connecting_socket_is_closed c w = c_closed (conns w c)"

definition us_connecting_socket_is_shut_down :: "addr \<Rightarrow> world \<Rightarrow> bool" where
  "us_connecting_socket_is_shut_down c w = c_shutdown (conns w c)"

definition us_connecting_socket_get_error :: "addr \<Rightarrow> world \<Rightarrow> int" where
  "us_connecting_socket_get_error c w = c_error (conns w c)"

definition us_connecting_socket_shutdown :: "addr \<Rightarrow> world \<Rightarrow> world" where
  "us_connecting_socket_shutdown c w = upd_c c (c_shutdown_update (\<lambda>_. True)) w"

definition us_connecting_socket_shutdown_read :: "addr \<Rightarrow> world \<Rightarrow> world" where
  "us_connecting_socket_shutdown_read c w = upd_c c (c_shutdown_read_update (\<lambda>_. True)) w"

subsection \<open>Writing\<close>

definition us_socket_write :: "addr \<Rightarrow> u8 list \<Rightarrow> world \<Rightarrow> int \<times> world" where
  "us_socket_write s data w =
    (if s_ssl (sockets w s) \<noteq> None then us_internal_ssl_write s data w
     else if us_socket_is_closed s w then (0, w)
     else let (sd, w) = us_socket_is_shut_down s w in
     if sd then (0, w)
     else let (written, w) = lift_k (bsd_send (us_poll_fd s w) data) w;
              w = (if written \<noteq> int (length data)
                   then us_poll_change s (LIBUS_SOCKET_READABLE OR LIBUS_SOCKET_WRITABLE)
                          (upd_s s (s_last_write_failed_update (\<lambda>_. True)) w)
                   else w)
     in (if written < 0 then 0 else written, w))"

definition us_socket_write2 :: "addr \<Rightarrow> u8 list \<Rightarrow> u8 list \<Rightarrow> world \<Rightarrow> int \<times> world" where
  "us_socket_write2 s header payload w =
    (if us_socket_is_closed s w then (0, w)
     else let (sd, w) = us_socket_is_shut_down s w in
     if sd then (0, w)
     else let (written, w) = lift_k (bsd_write2 (us_poll_fd s w) header payload) w;
              w = (if written \<noteq> int (length header) + int (length payload)
                   then us_poll_change s (LIBUS_SOCKET_READABLE OR LIBUS_SOCKET_WRITABLE) w
                   else w)
     in (if written < 0 then 0 else written, w))"

definition us_socket_ipc_write_fd :: "addr \<Rightarrow> u8 list \<Rightarrow> int \<Rightarrow> world \<Rightarrow> int \<times> world" where
  "us_socket_ipc_write_fd s data fd w =
    (if us_socket_is_closed s w then (0, w)
     else let (sd, w) = us_socket_is_shut_down s w in
     if sd then (0, w)
     else let (sent, w) = lift_k (bsd_sendmsg (us_poll_fd s w) data fd) w;
              w = (if sent \<noteq> int (length data)
                   then us_poll_change s (LIBUS_SOCKET_READABLE OR LIBUS_SOCKET_WRITABLE)
                          (upd_s s (s_last_write_failed_update (\<lambda>_. True)) w)
                   else w)
     in (if sent < 0 then 0 else sent, w))"

subsection \<open>Options, pausing, shutting down\<close>

definition us_socket_flush :: "addr \<Rightarrow> world \<Rightarrow> world" where
  "us_socket_flush s w =
    (let (sd, w) = us_socket_is_shut_down s w in
     if \<not> sd then snd (lift_k (\<lambda>k. ((), bsd_socket_flush (us_poll_fd s w) k)) w) else w)"

definition us_socket_shutdown_read :: "addr \<Rightarrow> world \<Rightarrow> world" where
  "us_socket_shutdown_read s w = snd (lift_k (\<lambda>k. ((), bsd_shutdown_socket_read (us_poll_fd s w) k)) w)"

definition us_socket_nodelay :: "addr \<Rightarrow> int \<Rightarrow> world \<Rightarrow> world" where
  "us_socket_nodelay s enabled w =
    (let (sd, w) = us_socket_is_shut_down s w in
     if \<not> sd then snd (lift_k (\<lambda>k. ((), bsd_socket_nodelay (us_poll_fd s w) enabled k)) w) else w)"

definition us_socket_keepalive :: "addr \<Rightarrow> int \<Rightarrow> u32 \<Rightarrow> world \<Rightarrow> int \<times> world" where
  "us_socket_keepalive s enabled delay w =
    (let (sd, w) = us_socket_is_shut_down s w in
     if \<not> sd then lift_k (bsd_socket_keepalive (us_poll_fd s w) enabled delay) w else (0, w))"

definition us_socket_shutdown :: "addr \<Rightarrow> world \<Rightarrow> world" where
  "us_socket_shutdown s w =
    (if s_ssl (sockets w s) \<noteq> None then us_internal_ssl_shutdown s w
     else us_internal_socket_raw_shutdown s w)"

definition us_socket_pause :: "addr \<Rightarrow> world \<Rightarrow> world" where
  "us_socket_pause s w =
    (if s_is_paused (sockets w s) then w
     else if us_socket_is_closed s w then w
     else upd_s s (s_is_paused_update (\<lambda>_. True)) (us_poll_change s LIBUS_SOCKET_WRITABLE w))"

definition us_socket_resume :: "addr \<Rightarrow> world \<Rightarrow> world" where
  "us_socket_resume s w =
    (if \<not> s_is_paused (sockets w s) then w
     else let w = upd_s s (s_is_paused_update (\<lambda>_. False)) w in
     if us_socket_is_closed s w then w
     else let (sd, w) = us_socket_is_shut_down s w in
     if sd then us_poll_change s LIBUS_SOCKET_READABLE w
     else us_poll_change s (LIBUS_SOCKET_READABLE OR LIBUS_SOCKET_WRITABLE) w)"

definition us_socket_open :: "handler \<Rightarrow> addr \<Rightarrow> bool \<Rightarrow> u8 list \<Rightarrow> world \<Rightarrow> ptr \<times> world" where
  "us_socket_open h s is_client ip w =
    (if s_ssl (sockets w s) \<noteq> None then us_internal_ssl_on_open h s is_client ip w
     else dispatch h (Ev_open s is_client ip) w)"

subsection \<open>A socket from a descriptor\<close>

text \<open>Fields the code does not assign keep what \<open>malloc\<close> left there: the old map value.\<close>

definition us_socket_from_fd :: "addr \<Rightarrow> u8 \<Rightarrow> ptr \<Rightarrow> int \<Rightarrow> bool \<Rightarrow> world \<Rightarrow> ptr \<times> world" where
  "us_socket_from_fd grp kind ssl_ctx fd ipc w =
    (let (s, w) = us_create_poll T_socket False w;
         w = us_poll_init s fd POLL_TYPE_SOCKET w;
         (rc, w) = us_poll_start_rc s (LIBUS_SOCKET_READABLE OR LIBUS_SOCKET_WRITABLE) w in
     if rc \<noteq> 0 then (None, us_poll_free s w)
     else let w = upd_s s (\<lambda>x. x\<lparr>s_group := Some grp, s_kind := kind, s_ssl := None,
            s_timeout := 255, s_long_timeout := 255, s_low_prio_state := 0,
            s_allow_half_open := False, s_is_paused := False, s_is_ipc := ipc, s_is_closed := False,
            s_adopted := False, s_connect_state := None\<rparr>) w;
          w = snd (lift_k (\<lambda>k. ((), bsd_socket_nodelay fd 1 k)) w);
          (_, w) = lift_k (bsd_set_nonblocking fd) w;
          w = us_internal_socket_group_link_socket grp s w;
          w = (case ssl_ctx of None \<Rightarrow> w | Some ctx \<Rightarrow> us_internal_ssl_attach s ctx True None None w)
     in (Some s, w))"

definition us_socket_pair :: "addr \<Rightarrow> u8 \<Rightarrow> world \<Rightarrow> (ptr \<times> int \<times> int) \<times> world" where
  "us_socket_pair grp kind w =
    (let (r, w) = lift_k (sys Sys_socketpair) w in
     if r_ret r \<noteq> 0 then ((None, r_int r, r_int2 r), w)
     else let (s, w) = us_socket_from_fd grp kind None (r_int r) False w in ((s, r_int r, r_int2 r), w))"

subsection \<open>Connecting sockets\<close>

definition us_internal_connecting_socket_detach :: "addr \<Rightarrow> world \<Rightarrow> world" where
  "us_internal_connecting_socket_detach c w =
    (let w = (case c_group (conns w c) of
           None \<Rightarrow> w
         | Some grp \<Rightarrow> upd_c c (c_group_update (\<lambda>_. None))
             (us_internal_socket_group_unlink_connecting_socket grp c w))
     in if c_ssl_ctx (conns w c) \<noteq> None
        then upd_c c (c_ssl_ctx_update (\<lambda>_. None)) (us_internal_ssl_ctx_unref (c_ssl_ctx (conns w c)) w)
        else w)"

definition us_connecting_socket_free :: "addr \<Rightarrow> world \<Rightarrow> world" where
  "us_connecting_socket_free c w =
    (let w = us_internal_connecting_socket_detach c w;
         w = upd_c c (c_next_update (\<lambda>_. ld_closed_connecting_head (loop w))) w
     in upd_loop (ld_closed_connecting_head_update (\<lambda>_. Some c)) w)"

text \<open>One candidate of \<open>us_connecting_socket_close\<close>, and the loop over the candidates.\<close>

definition close_candidate :: "addr \<Rightarrow> world \<Rightarrow> world" where
  "close_candidate s w =
    (let w = us_internal_socket_group_unlink_socket (the (s_group (sockets w s))) s w;
         w = us_poll_stop s w;
         w = snd (lift_k (\<lambda>k. ((), bsd_close_socket (us_poll_fd s w) k)) w);
         w = push_closed s w
     in upd_s s (s_is_closed_update (\<lambda>_. True)) w)"

partial_function (option) close_candidates :: "ptr \<Rightarrow> world \<Rightarrow> world option" where
  "close_candidates p w = (case p of
     None \<Rightarrow> Some w
   | Some s \<Rightarrow> (let w = close_candidate s w in close_candidates (s_connect_next (sockets w s)) w))"

definition num_polls_dec :: "world \<Rightarrow> world" where
  "num_polls_dec w = upd_loop (lp_num_polls_update (\<lambda>n. n - 1)) w"

definition connecting_close_tail :: "handler \<Rightarrow> addr \<Rightarrow> world \<Rightarrow> world" where
  "connecting_close_tail h c w =
    (let w = (if c_error (conns w c) = 0 then upd_c c (c_error_update (\<lambda>_. ECONNABORTED)) w else w) in
     if c_pending_resolve_callback (conns w c) then
       (let (cancelled, w) = (case c_addrinfo_req (conns w c) of
              None \<Rightarrow> (False, w)
            | Some req \<Rightarrow> (let (r, w) = lift_k (sys (Dns_cancel req c)) w in (r_ret r \<noteq> 0, w))) in
        if cancelled then
          (let w = num_polls_dec w;
               w = upd_c c (c_pending_resolve_callback_update (\<lambda>_. False)) w;
               w = ext_call (Dns_free_request (the (c_addrinfo_req (conns w c))) 0) w;
               w = upd_c c (c_addrinfo_req_update (\<lambda>_. None)) w;
               (_, w) = dispatch h (Ev_connecting_error c (c_error (conns w c))) w
           in us_connecting_socket_free c w)
        else
          (let w = num_polls_dec w;
               (_, w) = dispatch h (Ev_connecting_error c (c_error (conns w c))) w
           in us_internal_connecting_socket_detach c w))
     else
       (let w = (case c_addrinfo_req (conns w c) of
              None \<Rightarrow> w
            | Some req \<Rightarrow> upd_c c (c_addrinfo_req_update (\<lambda>_. None))
                (ext_call (Dns_free_request req (if c_error (conns w c) = ECONNREFUSED then 1 else 0)) w));
            (_, w) = dispatch h (Ev_connecting_error c (c_error (conns w c))) w
        in us_connecting_socket_free c w))"

definition us_connecting_socket_close :: "handler \<Rightarrow> addr \<Rightarrow> world \<Rightarrow> world option" where
  "us_connecting_socket_close h c w =
    (if c_closed (conns w c) then Some w
     else let w = upd_c c (c_closed_update (\<lambda>_. True)) w in
       map_option (connecting_close_tail h c) (close_candidates (c_connecting_head (conns w c)) w))"

end
