(* ===== verification/Us_Connect.thy ===== *)
theory Us_Connect imports
  Us_Socket
begin

section \<open>Connecting, listening, adopting, closing a group (\<open>context.c\<close>)\<close>

text \<open>
  A connection starts from a resolved address, or from a connecting socket that waits for the
  resolver and then races at most four candidate sockets at a time; the first that opens wins and the
  others are closed. Listening creates a semi-socket whose poll accepts. Adopting moves a socket to
  another group and may move it to a larger allocation. Walks over lists that callbacks can change are
  partial functions.
\<close>

definition CONCURRENT_CONNECTIONS :: "nat" where "CONCURRENT_CONNECTIONS = 4"

subsection \<open>Sockets for an address that is known\<close>

definition us_internal_init_connect_socket :: "addr \<Rightarrow> addr \<Rightarrow> u8 \<Rightarrow> u32 \<Rightarrow> world \<Rightarrow> world" where
  "us_internal_init_connect_socket s grp kind options w =
     upd_s s (\<lambda>x. x\<lparr>s_group := Some grp, s_kind := kind, s_ssl := None, s_timeout := 255,
       s_long_timeout := 255, s_low_prio_state := 0,
       s_allow_half_open := options AND LIBUS_SOCKET_ALLOW_HALF_OPEN \<noteq> 0, s_is_paused := False,
       s_is_ipc := False, s_is_closed := False, s_adopted := False, s_last_write_failed := False,
       s_connect_state := None, s_connect_next := None\<rparr>) w"

definition connect_socket_of_fd :: "addr \<Rightarrow> u8 \<Rightarrow> ptr \<Rightarrow> u32 \<Rightarrow> int \<Rightarrow> world \<Rightarrow> addr \<times> world" where
  "connect_socket_of_fd grp kind ssl_ctx options fd w =
    (let (s, w) = us_create_poll T_socket False w;
         w = us_poll_init s fd POLL_TYPE_SEMI_SOCKET w;
         w = us_poll_start s LIBUS_SOCKET_WRITABLE w;
         w = us_internal_init_connect_socket s grp kind options w;
         w = (case ssl_ctx of None \<Rightarrow> w | Some ctx \<Rightarrow> us_internal_ssl_attach s ctx True None None w)
     in (s, us_internal_socket_group_link_socket grp s w))"

definition us_socket_group_connect_resolved_dns ::
  "addr \<Rightarrow> u8 \<Rightarrow> ptr \<Rightarrow> sockaddr \<Rightarrow> u32 \<Rightarrow> world \<Rightarrow> ptr \<times> world" where
  "us_socket_group_connect_resolved_dns grp kind ssl_ctx addr options w =
    (let (fd, w) = lift_k (bsd_create_connect_socket addr) w in
     if fd = LIBUS_SOCKET_ERROR then (None, w)
     else let w = snd (lift_k (\<lambda>k. ((), bsd_socket_nodelay fd 1 k)) w);
              (s, w) = connect_socket_of_fd grp kind ssl_ctx options fd w
     in (Some s, w))"

definition us_socket_group_connect_unix ::
  "addr \<Rightarrow> u8 \<Rightarrow> ptr \<Rightarrow> u8 list \<Rightarrow> u32 \<Rightarrow> world \<Rightarrow> ptr \<times> world" where
  "us_socket_group_connect_unix grp kind ssl_ctx server_path options w =
    (let (fd, w) = lift_k (bsd_create_connect_socket_unix server_path) w in
     if fd = LIBUS_SOCKET_ERROR then (None, w)
     else let (s, w) = connect_socket_of_fd grp kind ssl_ctx options fd w in (Some s, w))"

definition htons :: "int \<Rightarrow> u8 \<times> u8" where
  "htons port = (word_of_int (port div 256), word_of_int port)"

fun init_addr_with_port :: "sockaddr \<Rightarrow> int \<Rightarrow> sockaddr" where
  "init_addr_with_port (Sa_in _ ip) port = Sa_in (htons port) ip"
| "init_addr_with_port (Sa_in6 _ ip scope) port = Sa_in6 (htons port) ip scope"
| "init_addr_with_port a port = a"

text \<open>\<open>pton\<close> is the C library's \<open>inet_pton\<close>: the bytes of a numeric address of that family.\<close>

definition try_parse_ip ::
  "(family \<Rightarrow> char list \<Rightarrow> u8 list option) \<Rightarrow> char list \<Rightarrow> int \<Rightarrow> sockaddr option" where
  "try_parse_ip pton ip_str port = (case pton AF_INET ip_str of
     Some ip \<Rightarrow> Some (Sa_in (htons port) ip)
   | None \<Rightarrow> (case pton AF_INET6 ip_str of
       Some ip \<Rightarrow> Some (Sa_in6 (htons port) ip 0)
     | None \<Rightarrow> None))"

subsection \<open>Connecting by name\<close>

definition zero_connecting :: us_connecting_socket_t where
  "zero_connecting = \<lparr> c_addrinfo_req = None, c_group = None, c_ssl_ctx = None, c_next = None,
     c_connecting_head = None, c_options = 0, c_socket_ext_size = 0, c_closed = False,
     c_shutdown = False, c_shutdown_read = False, c_pending_resolve_callback = False, c_timeout = 0,
     c_long_timeout = 0, c_kind = 0, c_port = 0, c_error = 0, c_addrinfo_head = [],
     c_next_pending = None, c_prev_pending = None \<rparr>"

text \<open>
  The result is a socket or NULL with \<open>*has_dns_resolved\<close> set, or a connecting socket, or NULL
  after a failed lookup.
\<close>

datatype connect_result = Resolved ptr | Connecting addr | Lookup_failed

definition connect_pending ::
  "addr \<Rightarrow> u8 \<Rightarrow> ptr \<Rightarrow> int \<Rightarrow> u32 \<Rightarrow> int \<Rightarrow> ptr \<Rightarrow> world \<Rightarrow> addr \<times> world" where
  "connect_pending grp kind ssl_ctx port options socket_ext_size ai_req w =
    (let (c, w) = us_malloc T_connecting w;
         w = upd_c c (\<lambda>_. zero_connecting\<lparr>c_socket_ext_size := socket_ext_size, c_options := options,
               c_kind := kind, c_ssl_ctx := ssl_ctx\<rparr>) w;
         w = us_internal_ssl_ctx_up_ref ssl_ctx w;
         w = upd_c c (\<lambda>x. x\<lparr>c_timeout := 255, c_long_timeout := 255, c_pending_resolve_callback := True,
               c_addrinfo_req := ai_req, c_port := word_of_int port\<rparr>) w;
         w = us_internal_socket_group_link_connecting_socket grp c w;
         w = upd_loop (lp_num_polls_update (\<lambda>n. n + 1)) w
     in (c, ext_call (Dns_set (the ai_req) c) w))"

definition us_socket_group_connect ::
  "(family \<Rightarrow> char list \<Rightarrow> u8 list option) \<Rightarrow> addr \<Rightarrow> u8 \<Rightarrow> ptr \<Rightarrow> char list \<Rightarrow> int \<Rightarrow> u32 \<Rightarrow> int \<Rightarrow>
    world \<Rightarrow> connect_result \<times> world" where
  "us_socket_group_connect pton grp kind ssl_ctx host port options socket_ext_size w =
    (case try_parse_ip pton host port of
       Some a \<Rightarrow> (let (s, w) = us_socket_group_connect_resolved_dns grp kind ssl_ctx a options w
                  in (Resolved s, w))
     | None \<Rightarrow>
      (let (r, w) = lift_k (sys (Dns_get host (word_of_int port))) w; ai_req = r_ptr r;
           pending = (\<lambda>w. let (c, w) = connect_pending grp kind ssl_ctx port options socket_ext_size ai_req w
                          in (Connecting c, w))
       in if r_ret r = 0 then
         (let (result, w) = lift_k (sys (Dns_result (the ai_req))) w in
          if r_int result \<noteq> 0 then
            (Lookup_failed, ext_call (Dns_free_request (the ai_req) 1)
                              (upd_kern (set_errno (r_int result)) w))
          else (case r_addrs result of
            [e] \<Rightarrow>
              (let (s, w) = us_socket_group_connect_resolved_dns grp kind ssl_ctx
                     (init_addr_with_port (ai_addr e) port) options w
               in (Resolved s, ext_call (Dns_free_request (the ai_req) (if s = None then 1 else 0)) w))
          | _ \<Rightarrow> pending w))
       else pending w))"

subsection \<open>Racing the candidates\<close>

definition start_one :: "addr \<Rightarrow> int \<Rightarrow> world \<Rightarrow> world" where
  "start_one c fd w =
    (let grp = the (c_group (conns w c));
         w = snd (lift_k (\<lambda>k. ((), bsd_socket_nodelay fd 1 k)) w);
         (s, w) = us_create_poll T_socket False w;
         w = us_internal_init_connect_socket s grp (c_kind (conns w c)) (c_options (conns w c)) w;
         w = upd_s s (\<lambda>x. x\<lparr>s_timeout := c_timeout (conns w c), s_long_timeout := c_long_timeout (conns w c)\<rparr>) w;
         w = us_internal_socket_group_link_socket grp s w;
         w = upd_s s (s_connect_next_update (\<lambda>_. c_connecting_head (conns w c))) w;
         w = upd_c c (c_connecting_head_update (\<lambda>_. Some s)) w;
         w = upd_s s (s_connect_state_update (\<lambda>_. Some c)) w;
         w = us_poll_init s fd POLL_TYPE_SEMI_SOCKET w
     in us_poll_start s LIBUS_SOCKET_WRITABLE w)"

text \<open>\<open>addrs\<close> is what \<open>c->addrinfo_head\<close> points to.\<close>

fun start_loop :: "addr \<Rightarrow> nat \<Rightarrow> sockaddr list \<Rightarrow> world \<Rightarrow> nat \<times> world" where
  "start_loop c count [] w = (0, w)"
| "start_loop c 0 addrs w = (0, w)"
| "start_loop c (Suc count) (a # addrs) w =
    (let (fd, w) = lift_k (bsd_create_connect_socket
            (init_addr_with_port a (uint (c_port (conns w c))))) w in
     if fd = LIBUS_SOCKET_ERROR
     then start_loop c (Suc count) addrs (upd_c c (c_addrinfo_head_update (\<lambda>_. addrs)) w)
     else let w = upd_c c (c_addrinfo_head_update (\<lambda>_. addrs)) (start_one c fd w);
              (opened, w) = start_loop c count addrs w
     in (Suc opened, w))"

definition start_connections :: "addr \<Rightarrow> nat \<Rightarrow> world \<Rightarrow> nat \<times> world" where
  "start_connections c count w = start_loop c count (c_addrinfo_head (conns w c)) w"

definition us_internal_socket_after_resolve :: "handler \<Rightarrow> addr \<Rightarrow> world \<Rightarrow> world option" where
  "us_internal_socket_after_resolve h c w =
    (let w = upd_c c (c_pending_resolve_callback_update (\<lambda>_. False)) w in
     if c_closed (conns w c) then
       (let w = (case c_addrinfo_req (conns w c) of
              None \<Rightarrow> w
            | Some req \<Rightarrow> upd_c c (c_addrinfo_req_update (\<lambda>_. None)) (ext_call (Dns_free_request req 0) w))
        in Some (us_connecting_socket_free c w))
     else
       (let w = num_polls_dec w;
            (result, w) = lift_k (sys (Dns_result (the (c_addrinfo_req (conns w c))))) w in
        if r_int result \<noteq> 0 then us_connecting_socket_close h c w
        else let w = upd_c c (c_addrinfo_head_update (\<lambda>_. map ai_addr (r_addrs result))) w;
                 (opened, w) = start_connections c CONCURRENT_CONNECTIONS w in
        if opened = 0 then us_connecting_socket_close h c w else Some w))"

text \<open>The loop over \<open>&connecting_head\<close> that takes \<open>s\<close> out of the list of candidates.\<close>

partial_function (option) remove_candidate_after :: "addr \<Rightarrow> addr \<Rightarrow> world \<Rightarrow> world option" where
  "remove_candidate_after p s w = (case s_connect_next (sockets w p) of
     None \<Rightarrow> Some w
   | Some n \<Rightarrow> if n = s then Some (upd_s p (s_connect_next_update (\<lambda>_. s_connect_next (sockets w s))) w)
       else remove_candidate_after n s w)"

definition remove_candidate :: "addr \<Rightarrow> addr \<Rightarrow> world \<Rightarrow> world option" where
  "remove_candidate c s w = (case c_connecting_head (conns w c) of
     None \<Rightarrow> Some w
   | Some n \<Rightarrow> if n = s then Some (upd_c c (c_connecting_head_update (\<lambda>_. s_connect_next (sockets w s))) w)
       else remove_candidate_after n s w)"

partial_function (option) close_losers :: "handler \<Rightarrow> addr \<Rightarrow> ptr \<Rightarrow> world \<Rightarrow> world option" where
  "close_losers h s p w = (case p of
     None \<Rightarrow> Some w
   | Some n \<Rightarrow>
      (let w = (if n \<noteq> s then snd (us_socket_close h n LIBUS_SOCKET_CLOSE_CODE_CONNECTION_RESET None w)
                else w)
       in close_losers h s (s_connect_next (sockets w n)) w))"

definition last_candidate :: "addr \<Rightarrow> world \<Rightarrow> bool" where
  "last_candidate c w = (case c_connecting_head (conns w c) of
     None \<Rightarrow> True | Some x \<Rightarrow> s_connect_next (sockets w x) = None)"

definition after_open_failed :: "handler \<Rightarrow> addr \<Rightarrow> addr \<Rightarrow> world \<Rightarrow> world option" where
  "after_open_failed h s c w =
     Option.bind (remove_candidate c s w) (\<lambda>w.
       let (_, w) = us_socket_close h s LIBUS_SOCKET_CLOSE_CODE_CONNECTION_RESET None w in
       if last_candidate c w then
         (let (opened, w) = start_connections c
                (if c_connecting_head (conns w c) = None then CONCURRENT_CONNECTIONS else 1) w in
          if opened = 0 \<and> c_connecting_head (conns w c) = None then us_connecting_socket_close h c w
          else Some w)
       else Some w)"

definition after_open_won :: "handler \<Rightarrow> addr \<Rightarrow> addr \<Rightarrow> world \<Rightarrow> world option" where
  "after_open_won h s c w =
     map_option (\<lambda>w.
       let w = (case c_ssl_ctx (conns w c) of
              None \<Rightarrow> w | Some ctx \<Rightarrow> us_internal_ssl_attach s ctx True None None w);
           w = ext_call (Dns_free_request (the (c_addrinfo_req (conns w c))) 0) w;
           w = us_connecting_socket_free c w
       in upd_s s (s_connect_state_update (\<lambda>_. None)) w)
       (close_losers h s (c_connecting_head (conns w c)) w)"

definition us_internal_socket_after_open :: "handler \<Rightarrow> addr \<Rightarrow> bool \<Rightarrow> world \<Rightarrow> world option" where
  "us_internal_socket_after_open h s error w =
    (if error then
       (case s_connect_state (sockets w s) of
          Some c \<Rightarrow> after_open_failed h s c w
        | None \<Rightarrow> Some (snd (dispatch h (Ev_connect_error s 1) w)))
     else
       (let conn = s_connect_state (sockets w s);
            w = us_poll_change s LIBUS_SOCKET_READABLE w;
            w = snd (lift_k (\<lambda>k. ((), bsd_socket_nodelay (us_poll_fd s w) 1 k)) w);
            w = us_internal_poll_set_type s POLL_TYPE_SOCKET w;
            w = us_socket_timeout s 0 w
        in map_option (\<lambda>w.
             if s_ssl (sockets w s) \<noteq> None then snd (us_internal_ssl_on_open h s True [] w)
             else snd (dispatch h (Ev_open s True []) w))
           (case conn of None \<Rightarrow> Some w | Some c \<Rightarrow> after_open_won h s c w)))"

end
