(* ===== verification/Us_Listen.thy ===== *)
theory Us_Listen imports
  Us_Connect
begin

section \<open>Listening, adopting and closing whole groups (\<open>context.c\<close>, \<open>loop.c\<close>)\<close>

text \<open>
  A listen socket is a semi-socket on the group's singly linked list of listeners. Adopting moves a
  socket to another group; with a larger extension it moves to a new allocation and the old one goes
  to the closed list with a pointer to the new. Closing a group closes listeners, connecting sockets,
  sockets and the parked ones, whatever the callbacks do meanwhile. The socket embedded in a listener
  is the one at its address.
\<close>

subsection \<open>Listening\<close>

definition us_internal_init_listen_socket :: "addr \<Rightarrow> addr \<Rightarrow> u8 \<Rightarrow> ptr \<Rightarrow> u32 \<Rightarrow> int \<Rightarrow> world \<Rightarrow> world" where
  "us_internal_init_listen_socket ls grp kind ssl_ctx options socket_ext_size w =
    (let w = upd_s ls (\<lambda>x. x\<lparr>s_group := Some grp, s_kind := 0, s_ssl := None, s_timeout := 255,
           s_long_timeout := 255, s_low_prio_state := 0, s_is_paused := False, s_is_ipc := False,
           s_is_closed := False, s_adopted := False,
           s_allow_half_open := options AND LIBUS_SOCKET_ALLOW_HALF_OPEN \<noteq> 0,
           s_next := None, s_prev := None, s_connect_state := None, s_connect_next := None\<rparr>) w;
         w = us_internal_ssl_ctx_up_ref ssl_ctx w;
         w = upd_ls ls (\<lambda>x. x\<lparr>l_accept_group := grp, l_accept_kind := kind, l_ssl_ctx := ssl_ctx,
           l_sni := None, l_on_server_name := False, l_socket_ext_size := socket_ext_size,
           l_deferred_accept := False, l_next := g_head_listen_sockets (groups w grp)\<rparr>) w;
         w = upd_g grp (g_head_listen_sockets_update (\<lambda>_. Some ls)) w
     in us_internal_group_touched grp w)"

definition listen_socket_of_fd :: "addr \<Rightarrow> u8 \<Rightarrow> ptr \<Rightarrow> u32 \<Rightarrow> int \<Rightarrow> int \<Rightarrow> world \<Rightarrow> addr \<times> world" where
  "listen_socket_of_fd grp kind ssl_ctx options socket_ext_size fd w =
    (let (p, w) = us_create_poll T_listen False w;
         w = us_poll_init p fd POLL_TYPE_SEMI_SOCKET w;
         w = us_poll_start p LIBUS_SOCKET_READABLE w
     in (p, us_internal_init_listen_socket p grp kind ssl_ctx options socket_ext_size w))"

text \<open>\<open>err\<close> and the second result are the contents of \<open>*error\<close> before and after.\<close>

definition us_socket_group_listen ::
  "addr \<Rightarrow> u8 \<Rightarrow> ptr \<Rightarrow> char list \<Rightarrow> int \<Rightarrow> u32 \<Rightarrow> int \<Rightarrow> int \<Rightarrow> world \<Rightarrow> (ptr \<times> int) \<times> world" where
  "us_socket_group_listen grp kind ssl_ctx host port options socket_ext_size err w =
    (let ((fd, err), w) = lift_k (\<lambda>k. let (fd, err, k) = bsd_create_listen_socket host port options err k
                                     in ((fd, err), k)) w in
     if fd = LIBUS_SOCKET_ERROR then ((None, err), w)
     else let (ls, w) = listen_socket_of_fd grp kind ssl_ctx options socket_ext_size fd w;
              w = (if options AND LIBUS_LISTEN_DEFER_ACCEPT \<noteq> 0
                   then let (d, w) = lift_k (bsd_set_defer_accept fd) w
                        in upd_ls ls (l_deferred_accept_update (\<lambda>_. d)) w
                   else w)
     in ((Some ls, err), w))"

definition us_socket_group_listen_unix ::
  "addr \<Rightarrow> u8 \<Rightarrow> ptr \<Rightarrow> u8 list \<Rightarrow> u32 \<Rightarrow> int \<Rightarrow> int \<Rightarrow> world \<Rightarrow> (ptr \<times> int) \<times> world" where
  "us_socket_group_listen_unix grp kind ssl_ctx path options socket_ext_size err w =
    (let ((fd, err), w) = lift_k (\<lambda>k. let (fd, err, k) = bsd_create_listen_socket_unix path err k
                                     in ((fd, err), k)) w in
     if fd = LIBUS_SOCKET_ERROR then ((None, err), w)
     else let (ls, w) = listen_socket_of_fd grp kind ssl_ctx options socket_ext_size fd w
     in ((Some ls, err), w))"

text \<open>The loop over \<open>&head_listen_sockets\<close> that takes \<open>ls\<close> off the list.\<close>

partial_function (option) unlink_listener_after :: "addr \<Rightarrow> addr \<Rightarrow> world \<Rightarrow> world option" where
  "unlink_listener_after p ls w = (case l_next (listeners w p) of
     None \<Rightarrow> Some w
   | Some n \<Rightarrow> if n = ls then Some (upd_ls p (l_next_update (\<lambda>_. l_next (listeners w ls))) w)
       else unlink_listener_after n ls w)"

definition unlink_listener :: "addr \<Rightarrow> addr \<Rightarrow> world \<Rightarrow> world option" where
  "unlink_listener grp ls w = (case g_head_listen_sockets (groups w grp) of
     None \<Rightarrow> Some w
   | Some n \<Rightarrow> if n = ls then Some (upd_g grp (g_head_listen_sockets_update (\<lambda>_. l_next (listeners w ls))) w)
       else unlink_listener_after n ls w)"

definition us_listen_socket_close :: "addr \<Rightarrow> world \<Rightarrow> world option" where
  "us_listen_socket_close ls w =
    (if us_socket_is_closed ls w then Some w
     else let grp = l_accept_group (listeners w ls);
              w = us_poll_stop ls w;
              w = snd (lift_k (\<lambda>k. ((), bsd_close_socket (us_poll_fd ls w) k)) w) in
       Option.bind (us_internal_listen_socket_ssl_free ls w) (\<lambda>w.
       Option.bind (unlink_listener grp ls w) (\<lambda>w.
         let w = upd_ls ls (l_next_update (\<lambda>_. None)) w;
             w = us_internal_group_maybe_unlink grp w;
             w = push_closed ls w
         in Some (upd_s ls (s_is_closed_update (\<lambda>_. True)) w))))"

definition us_socket_group_head_listen_socket :: "addr \<Rightarrow> world \<Rightarrow> ptr" where
  "us_socket_group_head_listen_socket grp w = g_head_listen_sockets (groups w grp)"

definition us_listen_socket_next :: "addr \<Rightarrow> world \<Rightarrow> ptr" where
  "us_listen_socket_next ls w = l_next (listeners w ls)"

definition us_listen_socket_get_fd :: "addr \<Rightarrow> world \<Rightarrow> int" where
  "us_listen_socket_get_fd ls w = us_poll_fd ls w"

definition us_listen_socket_port :: "addr \<Rightarrow> world \<Rightarrow> int \<times> world" where
  "us_listen_socket_port ls w = us_socket_local_port ls w"

definition us_listen_socket_group :: "addr \<Rightarrow> world \<Rightarrow> addr" where
  "us_listen_socket_group ls w = l_accept_group (listeners w ls)"

subsection \<open>Adopting\<close>

text \<open>Leaving the old group: off its list, or from its parked count to the new group's.\<close>

definition adopt_leave :: "addr \<Rightarrow> addr \<Rightarrow> addr \<Rightarrow> world \<Rightarrow> world" where
  "adopt_leave s old_group grp w =
    (if s_low_prio_state (sockets w s) \<noteq> 1 then us_internal_socket_group_unlink_socket old_group s w
     else if old_group \<noteq> grp then
       (let w = upd_g old_group (g_low_prio_count_update (\<lambda>n. n - 1)) w;
            w = upd_g grp (g_low_prio_count_update (\<lambda>n. n + 1)) w;
            w = us_internal_group_touched grp w
        in us_internal_group_maybe_unlink old_group w)
     else w)"

definition adopt_resize :: "addr \<Rightarrow> addr \<Rightarrow> addr \<Rightarrow> u8 \<Rightarrow> int \<Rightarrow> int \<Rightarrow> world \<Rightarrow> addr \<times> world" where
  "adopt_resize s old_group grp kind old_ext_size ext_size w =
    (let conn = s_connect_state (sockets w s);
         (new_s, w) = us_poll_resize s old_ext_size ext_size w;
         w = (if new_s \<noteq> s then
                let w = upd_s s (s_is_closed_update (\<lambda>_. True)) w;
                    w = push_closed s w
                in upd_s s (\<lambda>x. x\<lparr>s_adopted := True, s_prev := Some new_s\<rparr>) w
              else w);
         w = (case conn of
                None \<Rightarrow> w
              | Some c \<Rightarrow>
                 (let w = upd_c c (\<lambda>x. x\<lparr>c_connecting_head := Some new_s, c_group := Some grp,
                            c_kind := kind\<rparr>) w;
                      w = us_internal_socket_group_unlink_connecting_socket old_group c w
                  in us_internal_socket_group_link_connecting_socket grp c w))
     in (new_s, w))"

text \<open>An \<open>ext_size\<close> of \<open>-1\<close> keeps the allocation.\<close>

definition us_socket_adopt :: "addr \<Rightarrow> addr \<Rightarrow> u8 \<Rightarrow> int \<Rightarrow> int \<Rightarrow> world \<Rightarrow> addr \<times> world" where
  "us_socket_adopt s grp kind old_ext_size ext_size w =
    (if us_socket_is_closed s w then (s, w)
     else let (sd, w) = us_socket_is_shut_down s w in
     if sd then (s, w)
     else let old_group = the (s_group (sockets w s));
       w = adopt_leave s old_group grp w;
       (new_s, w) = (if ext_size \<noteq> -1 then adopt_resize s old_group grp kind old_ext_size ext_size w
                     else (s, w));
       w = upd_s new_s (\<lambda>x. x\<lparr>s_group := Some grp, s_kind := kind, s_timeout := 255,
             s_long_timeout := 255\<rparr>) w;
       w = (if s_low_prio_state (sockets w new_s) = 1 then
              let w = (case s_prev (sockets w new_s) of
                    None \<Rightarrow> upd_loop (ld_low_prio_head_update (\<lambda>_. Some new_s)) w
                  | Some p \<Rightarrow> upd_s p (s_next_update (\<lambda>_. Some new_s)) w)
              in (case s_next (sockets w new_s) of
                    None \<Rightarrow> w | Some n \<Rightarrow> upd_s n (s_prev_update (\<lambda>_. Some new_s)) w)
            else us_internal_socket_group_link_socket grp new_s w)
     in (new_s, w))"

definition us_socket_adopt_tls ::
  "addr \<Rightarrow> addr \<Rightarrow> u8 \<Rightarrow> addr \<Rightarrow> char list option \<Rightarrow> int \<Rightarrow> int \<Rightarrow> world \<Rightarrow> ptr \<times> world" where
  "us_socket_adopt_tls s grp kind ssl_ctx sni old_ext_size ext_size w =
    (if us_socket_is_closed s w then (None, w)
     else let (new_s, w) = us_socket_adopt s grp kind old_ext_size ext_size w;
              w = us_internal_ssl_attach new_s ssl_ctx True sni None w
     in (Some new_s, us_socket_resume new_s w))"

subsection \<open>Closing a group\<close>

partial_function (option) close_listeners :: "addr \<Rightarrow> world \<Rightarrow> world option" where
  "close_listeners grp w = (case g_head_listen_sockets (groups w grp) of
     None \<Rightarrow> Some w
   | Some ls \<Rightarrow> Option.bind (us_listen_socket_close ls w) (close_listeners grp))"

partial_function (option) close_connecting :: "handler \<Rightarrow> ptr \<Rightarrow> world \<Rightarrow> world option" where
  "close_connecting h p w = (case p of
     None \<Rightarrow> Some w
   | Some c \<Rightarrow> (let nextC = c_next_pending (conns w c) in
       Option.bind (us_connecting_socket_close h c w) (close_connecting h nextC)))"

text \<open>One socket of \<open>close_all\<close>: an in-flight connect is told, an open one closed gracefully.\<close>

definition close_all_one :: "handler \<Rightarrow> addr \<Rightarrow> world \<Rightarrow> world" where
  "close_all_one h s w =
    (if us_internal_poll_type s w AND POLL_TYPE_SEMI_SOCKET \<noteq> 0 then
       (let (_, w) = dispatch h (Ev_connect_error s ECONNABORTED) w in
        if \<not> us_socket_is_closed s w
        then snd (us_internal_socket_close_raw h s LIBUS_SOCKET_CLOSE_CODE_CONNECTION_RESET None w)
        else w)
     else snd (us_socket_close h s LIBUS_SOCKET_CLOSE_CODE_CLEAN_SHUTDOWN None w))"

partial_function (option) close_sockets :: "handler \<Rightarrow> ptr \<Rightarrow> world \<Rightarrow> world option" where
  "close_sockets h p w = (case p of
     None \<Rightarrow> Some w
   | Some s \<Rightarrow> close_sockets h (s_next (sockets w s)) (close_all_one h s w))"

partial_function (option) force_drain :: "handler \<Rightarrow> addr \<Rightarrow> world \<Rightarrow> world option" where
  "force_drain h grp w = (case g_head_sockets (groups w grp) of
     None \<Rightarrow> Some w
   | Some s \<Rightarrow> force_drain h grp
       (snd (us_internal_socket_close_raw h s LIBUS_SOCKET_CLOSE_CODE_CONNECTION_RESET None w)))"

partial_function (option) close_parked :: "handler \<Rightarrow> addr \<Rightarrow> ptr \<Rightarrow> world \<Rightarrow> world option" where
  "close_parked h grp p w = (case p of
     None \<Rightarrow> Some w
   | Some q \<Rightarrow> close_parked h grp (s_next (sockets w q))
       (if s_group (sockets w q) = Some grp
        then snd (us_socket_close h q LIBUS_SOCKET_CLOSE_CODE_CLEAN_SHUTDOWN None w) else w))"

definition us_socket_group_close_all_ex :: "handler \<Rightarrow> addr \<Rightarrow> bool \<Rightarrow> world \<Rightarrow> world option" where
  "us_socket_group_close_all_ex h grp also_listeners w =
     Option.bind (if also_listeners then close_listeners grp w else Some w) (\<lambda>w.
     Option.bind (close_connecting h (g_head_connecting_sockets (groups w grp)) w) (\<lambda>w.
     Option.bind (close_sockets h (g_head_sockets (groups w grp)) w) (\<lambda>w.
     Option.bind (force_drain h grp w) (\<lambda>w.
       if g_low_prio_count (groups w grp) \<noteq> 0
       then close_parked h grp (ld_low_prio_head (loop w)) w else Some w))))"

definition us_socket_group_close_all :: "handler \<Rightarrow> addr \<Rightarrow> world \<Rightarrow> world option" where
  "us_socket_group_close_all h grp w = us_socket_group_close_all_ex h grp True w"

partial_function (option) close_all_groups_from :: "handler \<Rightarrow> bool \<Rightarrow> ptr \<Rightarrow> world \<Rightarrow> (bool \<times> world) option" where
  "close_all_groups_from h any p w = (case p of
     None \<Rightarrow> Some (any, w)
   | Some g \<Rightarrow>
      (let nxt = g_next (groups w g);
           busy = (g_head_sockets (groups w g) \<noteq> None \<or> g_head_connecting_sockets (groups w g) \<noteq> None
                   \<or> g_low_prio_count (groups w g) \<noteq> 0)
       in Option.bind (if busy then us_socket_group_close_all_ex h g False w else Some w) (\<lambda>w.
            close_all_groups_from h (any \<or> busy)
              (case nxt of None \<Rightarrow> None
               | Some n \<Rightarrow> if \<not> g_linked (groups w n) then ld_head (loop w) else Some n) w)))"

definition us_loop_close_all_groups :: "handler \<Rightarrow> world \<Rightarrow> (bool \<times> world) option" where
  "us_loop_close_all_groups h w = close_all_groups_from h False (ld_head (loop w)) w"

end
