(* ===== verification/Us_Udp.thy ===== *)
theory Us_Udp imports
  Us_Listen
begin

section \<open>UDP sockets (\<open>udp.c\<close>)\<close>

text \<open>
  Thin wrappers over the datagram functions of \<open>bsd.c\<close>, and the sending loop, which hands the
  kernel one buffer of messages at a time. The loop ends because every turn takes at least one message
  off the count. Callbacks are events; a NULL callback is a handler that does nothing.
\<close>

definition us_udp_packet_buffer_local_ip :: "mmsg list \<Rightarrow> nat \<Rightarrow> u8 list" where
  "us_udp_packet_buffer_local_ip buf index = bsd_udp_packet_buffer_local_ip buf index"

definition us_udp_packet_buffer_peer :: "mmsg list \<Rightarrow> nat \<Rightarrow> sockaddr" where
  "us_udp_packet_buffer_peer buf index = bsd_udp_packet_buffer_peer buf index"

definition us_udp_packet_buffer_payload :: "mmsg list \<Rightarrow> nat \<Rightarrow> u8 list" where
  "us_udp_packet_buffer_payload buf index = bsd_udp_packet_buffer_payload buf index"

definition us_udp_packet_buffer_payload_length :: "mmsg list \<Rightarrow> nat \<Rightarrow> int" where
  "us_udp_packet_buffer_payload_length buf index = bsd_udp_packet_buffer_payload_length buf index"

definition us_udp_packet_buffer_truncated :: "mmsg list \<Rightarrow> nat \<Rightarrow> int" where
  "us_udp_packet_buffer_truncated buf index = bsd_udp_packet_buffer_truncated buf index"

subsection \<open>Sending\<close>

lemma sendbuf_count_pos: "0 < num \<Longrightarrow> 1 \<le> sendbuf_count LIBUS_SEND_BUFFER_LENGTH num"
  by (simp add: sendbuf_count_def LIBUS_SEND_BUFFER_LENGTH_def Let_def)

lemma sendbuf_count_min: "0 \<le> num \<Longrightarrow> sendbuf_count LIBUS_SEND_BUFFER_LENGTH num = min 204 num"
  by (simp add: sendbuf_count_def LIBUS_SEND_BUFFER_LENGTH_def Let_def)

text \<open>The result is \<open>total_sent\<close>, or the negative result of the system call.\<close>

function udp_send_loop ::
  "addr \<Rightarrow> u8 list list \<Rightarrow> sockaddr option list \<Rightarrow> int \<Rightarrow> nat \<Rightarrow> world \<Rightarrow> int \<times> world" where
  "udp_send_loop s payloads addresses num total_sent w =
    (if int total_sent < num then
       (let buf = bsd_udp_setup_sendbuf LIBUS_SEND_BUFFER_LENGTH payloads addresses num;
            count = sendbuf_count LIBUS_SEND_BUFFER_LENGTH num;
            num' = num - count;
            (sent, w) = lift_k (bsd_sendmmsg (us_poll_fd s w) (sb_msgvec buf)) w
        in if sent < 0 then (sent, w)
           else udp_send_loop s (drop (nat count) payloads) (drop (nat count) addresses) num'
                  (total_sent + nat sent)
                  (if sent < num' then us_poll_change s (LIBUS_SOCKET_READABLE OR LIBUS_SOCKET_WRITABLE) w
                   else w))
     else (int total_sent, w))"
  by pat_completeness auto
termination
proof (relation "measure (\<lambda>(s, p, a, num, t, w). nat num)", goal_cases)
  case (2 s payloads addresses num total_sent w)
  with sendbuf_count_pos [of num] show ?case by simp
qed simp

declare udp_send_loop.simps [simp del]

definition us_udp_socket_send ::
  "addr \<Rightarrow> u8 list list \<Rightarrow> sockaddr option list \<Rightarrow> int \<Rightarrow> world \<Rightarrow> int \<times> world" where
  "us_udp_socket_send s payloads addresses num w =
    (if num = 0 then (0, w) else udp_send_loop s payloads addresses num 0 w)"

subsection \<open>Accessors and options\<close>

definition us_udp_socket_bound_port :: "addr \<Rightarrow> world \<Rightarrow> u16" where
  "us_udp_socket_bound_port s w = u_port (udps w s)"

definition us_udp_socket_bound_ip :: "addr \<Rightarrow> int \<Rightarrow> world \<Rightarrow> (int \<times> u8 list) \<times> world" where
  "us_udp_socket_bound_ip s room w =
    (let (a, w) = lift_k (bsd_local_addr (us_poll_fd s w)) w in (address_into room a, w))"

definition us_udp_socket_remote_ip :: "addr \<Rightarrow> int \<Rightarrow> world \<Rightarrow> (int \<times> u8 list) \<times> world" where
  "us_udp_socket_remote_ip s room w =
    (let (a, w) = lift_k (bsd_remote_addr (us_poll_fd s w)) w in (address_into room a, w))"

definition us_udp_socket_user :: "addr \<Rightarrow> world \<Rightarrow> ptr" where
  "us_udp_socket_user s w = u_user (udps w s)"

definition us_udp_socket_set_broadcast :: "addr \<Rightarrow> int \<Rightarrow> world \<Rightarrow> int \<times> world" where
  "us_udp_socket_set_broadcast s enabled w = lift_k (bsd_socket_broadcast (us_poll_fd s w) enabled) w"

definition us_udp_socket_set_ttl_unicast :: "addr \<Rightarrow> int \<Rightarrow> world \<Rightarrow> int \<times> world" where
  "us_udp_socket_set_ttl_unicast s ttl w = lift_k (bsd_socket_ttl_unicast (us_poll_fd s w) ttl) w"

definition us_udp_socket_set_ttl_multicast :: "addr \<Rightarrow> int \<Rightarrow> world \<Rightarrow> int \<times> world" where
  "us_udp_socket_set_ttl_multicast s ttl w = lift_k (bsd_socket_ttl_multicast (us_poll_fd s w) ttl) w"

definition us_udp_socket_connect :: "addr \<Rightarrow> char list \<Rightarrow> u16 \<Rightarrow> world \<Rightarrow> int \<times> world" where
  "us_udp_socket_connect s host port w =
     lift_k (bsd_connect_udp_socket (us_poll_fd s w) host (uint port)) w"

definition us_udp_socket_disconnect :: "addr \<Rightarrow> world \<Rightarrow> int \<times> world" where
  "us_udp_socket_disconnect s w = lift_k (bsd_disconnect_udp_socket (us_poll_fd s w)) w"

definition us_udp_socket_set_multicast_loopback :: "addr \<Rightarrow> int \<Rightarrow> world \<Rightarrow> int \<times> world" where
  "us_udp_socket_set_multicast_loopback s enabled w =
     lift_k (bsd_socket_multicast_loopback (us_poll_fd s w) enabled) w"

definition us_udp_socket_set_multicast_interface :: "addr \<Rightarrow> sockaddr \<Rightarrow> world \<Rightarrow> int \<times> world" where
  "us_udp_socket_set_multicast_interface s addr w =
     lift_k (bsd_socket_multicast_interface (us_poll_fd s w) addr) w"

definition us_udp_socket_set_membership ::
  "addr \<Rightarrow> sockaddr \<Rightarrow> sockaddr option \<Rightarrow> bool \<Rightarrow> world \<Rightarrow> int \<times> world" where
  "us_udp_socket_set_membership s addr iface drp w =
     lift_k (bsd_socket_set_membership (us_poll_fd s w) addr iface drp) w"

definition us_udp_socket_set_source_specific_membership ::
  "addr \<Rightarrow> sockaddr \<Rightarrow> sockaddr \<Rightarrow> sockaddr option \<Rightarrow> bool \<Rightarrow> world \<Rightarrow> int \<times> world" where
  "us_udp_socket_set_source_specific_membership s source grp iface drp w =
     lift_k (bsd_socket_set_source_specific_membership (us_poll_fd s w) source grp iface drp) w"

subsection \<open>Creating and closing\<close>

definition us_udp_socket_close :: "handler \<Rightarrow> addr \<Rightarrow> world \<Rightarrow> world" where
  "us_udp_socket_close h s w =
    (let w = us_poll_stop s w;
         w = snd (lift_k (\<lambda>k. ((), bsd_close_socket (us_poll_fd s w) k)) w);
         w = upd_u s (\<lambda>x. x\<lparr>u_closed := True, u_next := ld_closed_udp_head (loop w)\<rparr>) w;
         w = upd_loop (ld_closed_udp_head_update (\<lambda>_. Some s)) w
     in snd (dispatch h (Ev_udp_close s) w))"

text \<open>
  The second result is \<open>*err\<close>. When \<open>getsockname\<close> fails the port is that of a zeroed address.
\<close>

definition us_create_udp_socket :: "char list \<Rightarrow> u16 \<Rightarrow> u32 \<Rightarrow> ptr \<Rightarrow> world \<Rightarrow> (ptr \<times> int) \<times> world" where
  "us_create_udp_socket host port flags user w =
    (let ((fd, err), w) = lift_k (\<lambda>k. let (fd, err, k) = bsd_create_udp_socket host (uint port) flags k
                                     in ((fd, err), k)) w in
     if fd = LIBUS_SOCKET_ERROR then ((None, err), w)
     else let (udp, w) = us_create_poll T_udp False w;
              w = us_poll_init udp fd POLL_TYPE_UDP w;
              (tmp, w) = lift_k (bsd_local_addr fd) w;
              p = (case tmp of None \<Rightarrow> 0 | Some a \<Rightarrow> bsd_addr_get_port a);
              w = upd_u udp (\<lambda>_. \<lparr> u_port = word_of_int p, u_closed = False, u_connected = False,
                    u_next = None, u_user = user \<rparr>) w;
              w = us_poll_start udp (LIBUS_SOCKET_READABLE OR LIBUS_SOCKET_WRITABLE) w
     in ((Some udp, err), w))"

end
