(* ===== verification/Us_Loop.thy ===== *)
theory Us_Loop imports
  Us_Udp
begin

section \<open>The event loop (\<open>loop.c\<close>, \<open>eventing/epoll_kqueue.c\<close>)\<close>

text \<open>
  One iteration: take the answers of the resolver, let parked sockets back in, call \<open>pre\<close>, wait for
  events, dispatch them, and at the end free what was closed. Dispatching runs callbacks of the
  application, which may call anything, a nested tick included, so the loops are partial functions:
  \<open>None\<close> is a call that does not return (or stops at a NULL dereference or a panic).
  \<open>us_quic_loop_process\<close> is a parameter, the application is the handler.
\<close>

subsection \<open>Creation and destruction\<close>

definition us_internal_loop_data_init :: "world \<Rightarrow> world option" where
  "us_internal_loop_data_init w =
    (let (timer, w) = us_create_timer True w;
         w = upd_loop (\<lambda>l. l\<lparr>ld_sweep_timer := timer, ld_sweep_timer_count := 0\<rparr>) w;
         (async, w) = us_internal_create_async True w;
         w = upd_loop (ld_wakeup_async_update (\<lambda>_. async)) w
     in case async of None \<Rightarrow> None | Some a \<Rightarrow> Some (us_internal_async_set a Cb_wakeup w))"

definition us_internal_loop_data_free :: "world \<Rightarrow> world" where
  "us_internal_loop_data_free w =
    (let w = us_internal_free_loop_ssl_data w;
         w = us_timer_close (the (ld_sweep_timer (loop w))) False w
     in us_internal_async_close (the (ld_wakeup_async (loop w))) w)"

definition zero_loop :: us_loop_t where
  "zero_loop = \<lparr> ld_sweep_timer = None, ld_sweep_timer_count = 0, ld_wakeup_async = None,
     ld_head = None, ld_quic_head = None, ld_quic_next_tick_us = 0, ld_iterator = None,
     ld_closed_udp_head = None, ld_closed_head = None, ld_low_prio_head = None,
     ld_low_prio_budget = 0, ld_dns_ready_head = None, ld_closed_connecting_head = None,
     ld_iteration_nr = 0, ld_jsc_vm = None, ld_ssl_inited = False, ld_ssl_socket = None,
     ld_ssl_read_input = [], ld_ssl_read_input_offset = 0, ld_ssl_read_input_length = 0,
     ld_tick_depth = 0, lp_num_polls = 0, lp_num_ready_polls = 0, lp_current_ready_poll = 0,
     lp_fd = 0, lp_pending_wakeups = 0, lp_ready_polls = [], lp_has_epoll_pwait2 = -1 \<rparr>"

text \<open>
  \<open>has_epoll_pwait2\<close> is a static variable, so it survives; \<open>supported\<close> is what
  \<open>Bun__isEpollPwait2SupportedOnLinuxKernel\<close> says.
\<close>

definition us_create_loop :: "bool \<Rightarrow> world \<Rightarrow> world option" where
  "us_create_loop supported w =
    (let has = lp_has_epoll_pwait2 (loop w);
         w = upd_loop (\<lambda>_. zero_loop) w;
         (r, w) = lift_k (sys Sys_epoll_create) w;
         w = upd_loop (\<lambda>l. l\<lparr>lp_fd := r_ret r,
               lp_has_epoll_pwait2 := (if has = -1 \<and> \<not> supported then 0 else has)\<rparr>) w
     in us_internal_loop_data_init w)"

definition us_loop_free :: "world \<Rightarrow> world" where
  "us_loop_free w =
    (let w = us_internal_loop_data_free w
     in snd (lift_k (sys (Sys_close (lp_fd (loop w)))) w))"

definition us_wakeup_loop :: "world \<Rightarrow> world option" where
  "us_wakeup_loop w =
     us_internal_async_wakeup (the (ld_wakeup_async (loop w)))
       (upd_loop (lp_pending_wakeups_update (\<lambda>n. n + 1)) w)"

definition us_loop_iteration_number :: "world \<Rightarrow> int" where
  "us_loop_iteration_number w = sint (ld_iteration_nr (loop w))"

subsection \<open>Answers of the resolver\<close>

definition us_internal_dns_callback :: "addr \<Rightarrow> world \<Rightarrow> world" where
  "us_internal_dns_callback c w =
     upd_loop (ld_dns_ready_head_update (\<lambda>_. Some c))
       (upd_c c (c_next_update (\<lambda>_. ld_dns_ready_head (loop w))) w)"

definition us_internal_dns_callback_threadsafe :: "addr \<Rightarrow> world \<Rightarrow> world option" where
  "us_internal_dns_callback_threadsafe c w = us_wakeup_loop (us_internal_dns_callback c w)"

partial_function (option) us_internal_drain_pending_dns_resolve :: "handler \<Rightarrow> ptr \<Rightarrow> world \<Rightarrow> world option" where
  "us_internal_drain_pending_dns_resolve h p w = (case p of
     None \<Rightarrow> Some w
   | Some c \<Rightarrow> (let nxt = c_next (conns w c) in
       Option.bind (us_internal_socket_after_resolve h c w) (us_internal_drain_pending_dns_resolve h nxt)))"

definition us_internal_handle_dns_results :: "handler \<Rightarrow> world \<Rightarrow> (bool \<times> world) option" where
  "us_internal_handle_dns_results h w =
    (let s = ld_dns_ready_head (loop w);
         w = upd_loop (ld_dns_ready_head_update (\<lambda>_. None)) w
     in map_option (\<lambda>w. (s \<noteq> None, w)) (us_internal_drain_pending_dns_resolve h s w))"

subsection \<open>Parked sockets\<close>

definition MAX_LOW_PRIO_SOCKETS_PER_LOOP_ITERATION :: "nat" where "MAX_LOW_PRIO_SOCKETS_PER_LOOP_ITERATION = 5"

definition low_prio_resume :: "addr \<Rightarrow> world \<Rightarrow> world" where
  "low_prio_resume s w =
    (let w = upd_loop (ld_low_prio_head_update (\<lambda>_. s_next (sockets w s))) w;
         w = (case s_next (sockets w s) of
                None \<Rightarrow> w | Some n \<Rightarrow> upd_s n (s_prev_update (\<lambda>_. None)) w);
         w = upd_s s (s_next_update (\<lambda>_. None)) w;
         grp = the (s_group (sockets w s));
         w = upd_g grp (g_low_prio_count_update (\<lambda>n. n - 1)) w
     in if us_socket_is_closed s w then upd_s s (s_low_prio_state_update (\<lambda>_. 2)) w
        else let w = us_internal_socket_group_link_socket grp s w;
                 w = us_poll_change s (us_poll_events s w OR LIBUS_SOCKET_READABLE) w
        in upd_s s (s_low_prio_state_update (\<lambda>_. 2)) w)"

fun low_prio_loop :: "nat \<Rightarrow> world \<Rightarrow> world" where
  "low_prio_loop 0 w = w"
| "low_prio_loop (Suc n) w = (case ld_low_prio_head (loop w) of
     None \<Rightarrow> w
   | Some s \<Rightarrow> low_prio_loop n (upd_loop (ld_low_prio_budget_update (\<lambda>_. int n)) (low_prio_resume s w)))"

text \<open>The loop variable \<open>low_prio_budget\<close> counts down from 5; no callback runs in between.\<close>

definition us_internal_handle_low_priority_sockets :: "world \<Rightarrow> world" where
  "us_internal_handle_low_priority_sockets w =
     low_prio_loop MAX_LOW_PRIO_SOCKETS_PER_LOOP_ITERATION
       (upd_loop (ld_low_prio_budget_update (\<lambda>_. int MAX_LOW_PRIO_SOCKETS_PER_LOOP_ITERATION)) w)"

text \<open>How a readable socket that must wait is parked.\<close>

definition low_prio_park :: "addr \<Rightarrow> world \<Rightarrow> world" where
  "low_prio_park s w =
    (let w = us_poll_change s (us_poll_events s w AND LIBUS_SOCKET_WRITABLE) w;
         g = the (s_group (sockets w s));
         w = upd_g g (g_low_prio_count_update (\<lambda>n. n + 1)) w;
         w = us_internal_socket_group_unlink_socket g s w;
         w = low_prio_push s w
     in upd_s s (s_low_prio_state_update (\<lambda>_. 1)) w)"

subsection \<open>Freeing what was closed\<close>

partial_function (option) free_closed :: "ptr \<Rightarrow> world \<Rightarrow> world option" where
  "free_closed p w = (case p of
     None \<Rightarrow> Some w
   | Some s \<Rightarrow> free_closed (s_next (sockets w s))
       (us_poll_free s (upd_s s (\<lambda>x. x\<lparr>s_prev := None, s_next := None\<rparr>) w)))"

partial_function (option) free_closed_udp :: "ptr \<Rightarrow> world \<Rightarrow> world option" where
  "free_closed_udp p w = (case p of
     None \<Rightarrow> Some w
   | Some s \<Rightarrow> free_closed_udp (u_next (udps w s)) (us_poll_free s w))"

partial_function (option) free_closed_connecting :: "ptr \<Rightarrow> world \<Rightarrow> world option" where
  "free_closed_connecting p w = (case p of
     None \<Rightarrow> Some w
   | Some c \<Rightarrow> free_closed_connecting (c_next (conns w c)) (us_free c w))"

definition us_internal_free_closed_sockets :: "world \<Rightarrow> world option" where
  "us_internal_free_closed_sockets w =
     Option.bind (free_closed (ld_closed_head (loop w)) w) (\<lambda>w.
       let w = upd_loop (ld_closed_head_update (\<lambda>_. None)) w in
     Option.bind (free_closed_udp (ld_closed_udp_head (loop w)) w) (\<lambda>w.
       let w = upd_loop (ld_closed_udp_head_update (\<lambda>_. None)) w in
     Option.bind (free_closed_connecting (ld_closed_connecting_head (loop w)) w) (\<lambda>w.
       Some (upd_loop (ld_closed_connecting_head_update (\<lambda>_. None)) w))))"

end
