(* ===== verification/Us_Dispatch.thy ===== *)
theory Us_Dispatch imports
  Us_Loop
begin

section \<open>Dispatching events (\<open>loop.c\<close>, \<open>eventing/epoll_kqueue.c\<close>)\<close>

text \<open>
  What one ready poll leads to: timers and wakeups, connects and accepts, reading and writing of
  sockets with the end of the stream and errors, datagrams; then the loop over the ready polls of one
  wait, the draining of a saturated wait, and the two ways to run the loop. \<open>error\<close> is an integer,
  since it becomes the code of a close.
\<close>

definition MSG_DONTWAIT :: "int" where "MSG_DONTWAIT = 64"
definition MSG_ERRQUEUE :: "int" where "MSG_ERRQUEUE = 8192"
definition LOOP_ISNT_VERY_BUSY_THRESHOLD :: "int" where "LOOP_ISNT_VERY_BUSY_THRESHOLD = 25"

text \<open>After adoption the new socket is tracked through the old one.\<close>

definition follow_adopted :: "ptr \<Rightarrow> world \<Rightarrow> ptr" where
  "follow_adopted p w = (case p of
     None \<Rightarrow> None
   | Some s \<Rightarrow> if s_adopted (sockets w s) \<and> s_prev (sockets w s) \<noteq> None then s_prev (sockets w s) else Some s)"

definition closed_ptr :: "ptr \<Rightarrow> world \<Rightarrow> bool" where
  "closed_ptr p w = (case p of None \<Rightarrow> True | Some s \<Rightarrow> us_socket_is_closed s w)"

subsection \<open>Receiving\<close>

text \<open>
  Reading ends the dispatch (after a socket error), or goes on to the code after it with the socket
  and the \<open>eof\<close> flag.
\<close>

datatype recv_end = Recv_return | Recv_done ptr bool

definition read_again :: "int \<Rightarrow> int \<Rightarrow> ptr \<Rightarrow> world \<Rightarrow> bool" where
  "read_again len error p w =
    (p \<noteq> None \<and> len \<ge> LIBUS_RECV_BUFFER_LENGTH - 24 * 1024 \<and> len \<le> LIBUS_RECV_BUFFER_LENGTH
     \<and> (error \<noteq> 0 \<or> lp_num_ready_polls (loop w) < LOOP_ISNT_VERY_BUSY_THRESHOLD) \<and> \<not> closed_ptr p w)"

text \<open>
  One reception: the length and the bytes, and for an IPC socket the descriptor that came with them
  (the control message is present when \<open>r_ptr\<close> is, the descriptor is \<open>r_int\<close>).
\<close>

definition receive :: "addr \<Rightarrow> world \<Rightarrow> (int \<times> u8 list \<times> int option) \<times> world" where
  "receive s w =
    (if s_is_ipc (sockets w s) then
       (let (r, w) = lift_k (bsd_recvmsg (us_poll_fd s w) MSG_DONTWAIT) w
        in ((r_ret r, r_bytes r, if r_ret r > 0 \<and> r_ptr r \<noteq> None then Some (r_int r) else None), w))
     else
       (let ((n, bytes), w) = lift_k (\<lambda>k. let (n, bytes, k) =
               bsd_recv (us_poll_fd s w) LIBUS_RECV_BUFFER_LENGTH MSG_DONTWAIT k in ((n, bytes), k)) w
        in ((n, bytes, None), w)))"

partial_function (option) recv_loop ::
  "handler \<Rightarrow> addr \<Rightarrow> int \<Rightarrow> bool \<Rightarrow> nat \<Rightarrow> world \<Rightarrow> (recv_end \<times> world) option" where
  "recv_loop h s error eof repeat_recv_count w =
    (let ((len, bytes, fd), w) = receive s w;
         (p, w) = (case fd of None \<Rightarrow> (Some s, w) | Some f \<Rightarrow> dispatch h (Ev_fd s f) w)
     in if fd \<noteq> None \<and> closed_ptr p w then Some (Recv_done p eof, w)
     else let s = the p in
     if len > 0 then
       Option.bind (if s_ssl (sockets w s) \<noteq> None then us_internal_ssl_on_data h s bytes w
                    else Some (dispatch h (Ev_data s bytes) w)) (\<lambda>(p, w).
         let p = follow_adopted p w in
         if read_again len error p w then
           (let n = (if error = 0 then repeat_recv_count + 1 else repeat_recv_count) in
            if \<not> (n > 10 \<and> lp_num_ready_polls (loop w) > 2) then recv_loop h (the p) error eof n w
            else Some (Recv_done p eof, w))
         else Some (Recv_done p eof, w))
     else if len = 0 then Some (Recv_done (Some s) True, w)
     else if len = LIBUS_SOCKET_ERROR \<and> \<not> bsd_would_block (kern w) then
       Some (Recv_return, snd (us_internal_socket_close_raw h s (errno (kern w)) None w))
     else Some (Recv_done (Some s) eof, w))"

subsection \<open>A socket that is ready\<close>

text \<open>The writable part; \<open>None\<close> for \<open>return\<close>.\<close>

definition socket_writable :: "handler \<Rightarrow> addr \<Rightarrow> world \<Rightarrow> (ptr \<times> world) option" where
  "socket_writable h s w =
    (let w = upd_s s (s_last_write_failed_update (\<lambda>_. False)) w in
     map_option (\<lambda>(p, w). let p = follow_adopted p w in
       if closed_ptr p w then (None, w)
       else let s = the p;
                (stop, w) = (if \<not> s_last_write_failed (sockets w s) then (True, w)
                             else us_socket_is_shut_down s w)
       in (Some s, if stop then us_poll_change s (us_poll_events s w AND LIBUS_SOCKET_READABLE) w else w))
     (if s_ssl (sockets w s) \<noteq> None then us_internal_ssl_on_writable h s w
      else Some (dispatch h (Ev_writable s) w)))"

text \<open>The gate for TLS handshakes: \<open>False\<close> when the socket has been parked.\<close>

definition low_prio_gate :: "addr \<Rightarrow> world \<Rightarrow> bool \<times> world" where
  "low_prio_gate s w =
    (let (low, w) = (if s_ssl (sockets w s) \<noteq> None then us_internal_ssl_is_low_prio s w else (False, w)) in
     if low then
       (if s_low_prio_state (sockets w s) = 2 then (True, upd_s s (s_low_prio_state_update (\<lambda>_. 0)) w)
        else if ld_low_prio_budget (loop w) > 0
        then (True, upd_loop (ld_low_prio_budget_update (\<lambda>b. b - 1)) w)
        else (False, low_prio_park s w))
     else (True, w))"

text \<open>The end of the stream; \<open>None\<close> in the first result for \<open>return\<close>.\<close>

definition socket_end :: "handler \<Rightarrow> addr \<Rightarrow> world \<Rightarrow> ptr \<times> world" where
  "socket_end h s w =
    (if s_ssl (sockets w s) \<noteq> None then us_internal_ssl_on_end h s w else dispatch h (Ev_end s) w)"

definition socket_eof :: "handler \<Rightarrow> addr \<Rightarrow> world \<Rightarrow> (ptr \<times> world) option" where
  "socket_eof h s w =
    (if us_socket_is_closed s w then Some (None, w)
     else let (sd, w) = us_socket_is_shut_down s w in
     if sd then
       Some (None, snd (us_internal_socket_close_raw h s LIBUS_SOCKET_CLOSE_CODE_CLEAN_SHUTDOWN None w))
     else if s_allow_half_open (sockets w s) then
       Some (socket_end h s (us_poll_change s (us_poll_events s w AND LIBUS_SOCKET_WRITABLE) w))
     else (case socket_end h s w of
         (None, _) \<Rightarrow> None
       | (Some s, w) \<Rightarrow> Some (None,
           snd (us_internal_socket_close_raw h s LIBUS_SOCKET_CLOSE_CODE_CLEAN_SHUTDOWN None w))))"

definition dispatch_socket :: "handler \<Rightarrow> addr \<Rightarrow> int \<Rightarrow> bool \<Rightarrow> u32 \<Rightarrow> world \<Rightarrow> world option" where
  "dispatch_socket h q error eof events w =
    (let s = the (follow_adopted (Some q) w) in
     Option.bind (if events AND LIBUS_SOCKET_WRITABLE \<noteq> 0 \<and> error = 0 then socket_writable h s w
                  else Some (Some s, w)) (\<lambda>(p, w). case p of
       None \<Rightarrow> Some w
     | Some s \<Rightarrow>
       (let (go, w) = (if events AND LIBUS_SOCKET_READABLE \<noteq> 0 then low_prio_gate s w else (True, w)) in
        if \<not> go then Some w
        else Option.bind (if events AND LIBUS_SOCKET_READABLE \<noteq> 0 then recv_loop h s error eof 0 w
                          else Some (Recv_done (Some s) eof, w)) (\<lambda>(e, w). case e of
          Recv_return \<Rightarrow> Some w
        | Recv_done p eof \<Rightarrow>
          Option.bind (if eof \<and> p \<noteq> None then socket_eof h (the p) w
                       else Some (p, w)) (\<lambda>(p, w).
            if error \<noteq> 0 \<and> p \<noteq> None
            then Some (snd (us_internal_socket_close_raw h (the p) error None w))
            else Some w)))))"

subsection \<open>A UDP socket that is ready\<close>

definition le32 :: "u8 list \<Rightarrow> int" where
  "le32 bs = foldr (\<lambda>b n. uint b + 256 * n) (take 4 bs) 0"

text \<open>\<open>ee_errno\<close> is the first field of \<open>sock_extended_err\<close>.\<close>

fun queued_error :: "cmsg list \<Rightarrow> int" where
  "queued_error [] = 0"
| "queued_error (c # cs) =
    (if (cmsg_level c = IPPROTO_IP \<and> cmsg_type c = IP_RECVERR)
      \<or> (cmsg_level c = IPPROTO_IPV6 \<and> cmsg_type c = IPV6_RECVERR)
     then le32 (cmsg_data c) else queued_error cs)"

definition reply_control :: "reply \<Rightarrow> cmsg list" where
  "reply_control r = (case r_msgs r of [] \<Rightarrow> [] | m # _ \<Rightarrow> msg_control m)"

partial_function (option) udp_errors :: "handler \<Rightarrow> addr \<Rightarrow> bool \<Rightarrow> world \<Rightarrow> (bool \<times> world) option" where
  "udp_errors h u surfaced w =
    (if u_closed (udps w u) then Some (surfaced, w)
     else let (r, w) = lift_k (sys (Sys_recvmsg (us_poll_fd u w) MSG_ERRQUEUE)) w in
     if r_ret r < 0 then Some (surfaced, w)
     else let ee = queued_error (reply_control r);
              (_, w) = dispatch h (Ev_udp_recv_error u (if ee \<noteq> 0 then ee else ECONNREFUSED)) w
     in udp_errors h u True w)"

text \<open>The flags: an error was surfaced, the socket had nothing to read.\<close>

partial_function (option) udp_receive ::
  "handler \<Rightarrow> addr \<Rightarrow> bool \<Rightarrow> world \<Rightarrow> ((bool \<times> bool) \<times> world) option" where
  "udp_receive h u surfaced w =
    (let ((npackets, msgs), w) = lift_k (\<lambda>k. let (n, ms, k) = bsd_recvmmsg (us_poll_fd u w) MSG_DONTWAIT k
                                            in ((n, ms), k)) w
     in if npackets > 0 then
       (let (_, w) = dispatch h (Ev_udp_data u (take (nat npackets) msgs)) w in
        if \<not> u_closed (udps w u) then udp_receive h u surfaced w else Some ((surfaced, False), w))
     else if npackets = LIBUS_SOCKET_ERROR then
       (if \<not> bsd_would_block (kern w)
        then Some ((True, False), snd (dispatch h (Ev_udp_recv_error u (errno (kern w))) w))
        else Some ((surfaced, True), w))
     else Some ((surfaced, False), w))"

definition dispatch_udp :: "handler \<Rightarrow> addr \<Rightarrow> int \<Rightarrow> u32 \<Rightarrow> world \<Rightarrow> world option" where
  "dispatch_udp h u error events w =
    (if u_closed (udps w u) then Some w
     else Option.bind (if error \<noteq> 0 then udp_errors h u False w else Some (False, w)) (\<lambda>(surfaced, w).
       Option.bind (if events AND LIBUS_SOCKET_READABLE \<noteq> 0 \<and> \<not> u_closed (udps w u)
                    then udp_receive h u surfaced w else Some ((surfaced, False), w))
       (\<lambda>((surfaced, would_block), w).
         let w = (if events AND LIBUS_SOCKET_WRITABLE \<noteq> 0 \<and> \<not> u_closed (udps w u)
                  then snd (dispatch h (Ev_udp_drain u)
                         (us_poll_change u (us_poll_events u w AND LIBUS_SOCKET_READABLE) w))
                  else w)
         in Some (if error \<noteq> 0 \<and> \<not> surfaced \<and> \<not> would_block \<and> \<not> u_closed (udps w u)
                  then us_udp_socket_close h u w else w))))"

subsection \<open>Timers and wakeups\<close>

definition dispatch_callback :: "handler \<Rightarrow> addr \<Rightarrow> world \<Rightarrow> world option" where
  "dispatch_callback h p w =
    (let cb = callbacks w p;
         w = (if \<not> cb_leave_poll_ready cb then us_internal_accept_poll_event p w else w)
     in case cb_cb cb of
       None \<Rightarrow> None
     | Some Cb_sweep_timer \<Rightarrow> sweep_timer_cb h w
     | Some Cb_sweep_noop \<Rightarrow> Some (sweep_timer_noop w)
     | Some _ \<Rightarrow> Some (snd (dispatch h (Ev_callback p) w)))"

subsection \<open>A ready poll\<close>

definition accepted_socket :: "addr \<Rightarrow> int \<Rightarrow> world \<Rightarrow> addr \<times> world" where
  "accepted_socket ls client_fd w =
    (let grp = l_accept_group (listeners w ls);
         (s, w) = us_create_poll T_socket False w;
         w = us_poll_init s client_fd POLL_TYPE_SOCKET w;
         w = us_poll_start s LIBUS_SOCKET_READABLE w;
         w = upd_s s (\<lambda>x. x\<lparr>s_group := Some grp, s_kind := l_accept_kind (listeners w ls),
               s_ssl := None, s_connect_state := None, s_timeout := 255, s_long_timeout := 255,
               s_low_prio_state := 0, s_allow_half_open := s_allow_half_open (sockets w ls),
               s_is_paused := False, s_is_ipc := False, s_is_closed := False, s_adopted := False\<rparr>) w;
         w = snd (lift_k (\<lambda>k. ((), bsd_socket_nodelay client_fd 1 k)) w)
     in (s, us_internal_socket_group_link_socket grp s w))"

text \<open>One accepted connection up to the socket to go on with.\<close>

definition accept_one :: "handler \<Rightarrow> addr \<Rightarrow> int \<Rightarrow> bsd_addr_t \<Rightarrow> world \<Rightarrow> ptr \<times> world" where
  "accept_one h ls client_fd addr w =
    (let ip = take (nat (bsd_addr_get_ip_length addr)) (bsd_addr_get_ip addr);
         (s, w) = accepted_socket ls client_fd w;
         w = (case l_ssl_ctx (listeners w ls) of
                Some ctx \<Rightarrow> snd (us_internal_ssl_on_open h s False ip
                              (us_internal_ssl_attach s ctx False None (Some ls) w))
              | None \<Rightarrow> snd (dispatch h (Ev_open s False ip) w))
     in (follow_adopted (Some s) w, w))"

text \<open>A poll to dispatch, or a listener with a connection just accepted.\<close>

datatype ready_job = Job_poll addr int bool u32 | Job_accepted addr int bsd_addr_t

definition accept_k :: "addr \<Rightarrow> world \<Rightarrow> (int \<times> bsd_addr_t) \<times> world" where
  "accept_k ls w = lift_k (\<lambda>k. let (fd, a, k) = bsd_accept_socket (us_poll_fd ls w) k in ((fd, a), k)) w"

partial_function (option) ready_run :: "handler \<Rightarrow> ready_job \<Rightarrow> world \<Rightarrow> world option" where
  "ready_run h job w = (case job of
     Job_poll p error eof events \<Rightarrow>
      (if us_internal_poll_type p w = POLL_TYPE_CALLBACK then dispatch_callback h p w
       else if us_internal_poll_type p w = POLL_TYPE_SEMI_SOCKET then
         (if us_poll_events p w = LIBUS_SOCKET_WRITABLE
          then us_internal_socket_after_open h p (error \<noteq> 0 \<or> eof) w
          else let ((client_fd, addr), w) = accept_k p w in
               if client_fd = LIBUS_SOCKET_ERROR then Some w
               else ready_run h (Job_accepted p client_fd addr) w)
       else if us_internal_poll_type p w = POLL_TYPE_SOCKET_SHUT_DOWN
             \<or> us_internal_poll_type p w = POLL_TYPE_SOCKET
       then dispatch_socket h p error eof events w
       else if us_internal_poll_type p w = POLL_TYPE_UDP then dispatch_udp h p error events w
       else Some w)
   | Job_accepted ls client_fd addr \<Rightarrow>
      (let (p, w) = accept_one h ls client_fd addr w in
       Option.bind (if l_deferred_accept (listeners w ls) \<and> \<not> closed_ptr p w
                    then ready_run h (Job_poll (the p) 0 False LIBUS_SOCKET_READABLE) w
                    else Some w) (\<lambda>w.
         if us_socket_is_closed ls w then Some w
         else let ((client_fd, addr), w) = accept_k ls w in
              if client_fd = LIBUS_SOCKET_ERROR then Some w
              else ready_run h (Job_accepted ls client_fd addr) w)))"

definition us_internal_dispatch_ready_poll :: "handler \<Rightarrow> addr \<Rightarrow> int \<Rightarrow> bool \<Rightarrow> u32 \<Rightarrow> world \<Rightarrow> world option" where
  "us_internal_dispatch_ready_poll h p error eof events w = ready_run h (Job_poll p error eof events) w"

subsection \<open>The ready polls of one wait\<close>

text \<open>
  What the kernel reports is masked by what the poll asks for now; an error or a hangup is always
  passed on. The result is \<open>(error, eof, events)\<close>, or \<open>None\<close> when there is nothing to do.
\<close>

definition decode_ready :: "u32 \<Rightarrow> u32 \<Rightarrow> (int \<times> bool \<times> u32) option" where
  "decode_ready reported interest =
    (let error = uint (reported AND EPOLLERR); eof = (reported AND EPOLLHUP \<noteq> 0);
         events = reported AND interest
     in if events \<noteq> 0 \<or> error \<noteq> 0 \<or> eof then Some (error, eof, events) else None)"

definition dispatch_ready_one :: "handler \<Rightarrow> u32 \<times> pollref \<Rightarrow> world \<Rightarrow> world option" where
  "dispatch_ready_one h entry w = (case snd entry of
     Null_poll \<Rightarrow> Some w
   | Tagged n \<Rightarrow> Some (snd (dispatch h (Ev_bun_poll n) w))
   | Poll p \<Rightarrow> (case decode_ready (fst entry) (us_poll_events p w) of
       None \<Rightarrow> Some w
     | Some (error, eof, events) \<Rightarrow> us_internal_dispatch_ready_poll h p error eof events w))"

partial_function (option) dispatch_from :: "handler \<Rightarrow> world \<Rightarrow> world option" where
  "dispatch_from h w =
    (let i = lp_current_ready_poll (loop w) in
     if i < lp_num_ready_polls (loop w) then
       Option.bind (dispatch_ready_one h (lp_ready_polls (loop w) ! nat i) w) (\<lambda>w.
         dispatch_from h (upd_loop (lp_current_ready_poll_update (\<lambda>i. i + 1)) w))
     else Some w)"

definition us_internal_dispatch_ready_polls :: "handler \<Rightarrow> world \<Rightarrow> world option" where
  "us_internal_dispatch_ready_polls h w =
     dispatch_from h (upd_loop (lp_current_ready_poll_update (\<lambda>_. 0)) w)"

definition set_num_ready :: "int \<Rightarrow> world \<Rightarrow> world" where
  "set_num_ready n w = upd_loop (lp_num_ready_polls_update (\<lambda>_. n)) w"

text \<open>\<open>drain_count\<close> starts at 48 and is decremented before it is tested: at most 47 turns.\<close>

fun drain_loop :: "handler \<Rightarrow> nat \<Rightarrow> world \<Rightarrow> world option" where
  "drain_loop h 0 w = Some w"
| "drain_loop h (Suc n) w =
    (if lp_num_ready_polls (loop w) = LIBUS_MAX_READY_POLLS \<and> n \<noteq> 0 \<and> lp_num_polls (loop w) > 0 then
       (let (ready, w) = bun_epoll_pwait2 (Some (0, 0)) w; w = set_num_ready ready w in
        if ready \<le> 0 then Some (set_num_ready 0 w)
        else Option.bind (us_internal_dispatch_ready_polls h w) (drain_loop h n))
     else Some w)"

definition us_internal_drain_ready_polls :: "handler \<Rightarrow> world \<Rightarrow> world option" where
  "us_internal_drain_ready_polls h w = drain_loop h 48 w"

subsection \<open>Iterations\<close>

definition quic_process :: "(world \<Rightarrow> world) \<Rightarrow> world \<Rightarrow> world" where
  "quic_process quic w = (if ld_quic_head (loop w) \<noteq> None then quic w else w)"

definition us_internal_loop_pre :: "(world \<Rightarrow> world) \<Rightarrow> handler \<Rightarrow> world \<Rightarrow> world option" where
  "us_internal_loop_pre quic h w =
    (let w = upd_loop (ld_iteration_nr_update (\<lambda>n. n + 1)) w in
     map_option (\<lambda>(_, w).
       let w = us_internal_handle_low_priority_sockets w;
           (_, w) = dispatch h Ev_pre w
       in quic_process quic w)
     (us_internal_handle_dns_results h w))"

definition us_internal_loop_post :: "(world \<Rightarrow> world) \<Rightarrow> handler \<Rightarrow> world \<Rightarrow> world option" where
  "us_internal_loop_post quic h w =
     Option.bind (us_internal_handle_dns_results h w) (\<lambda>(_, w).
       let w = quic_process quic w in
       map_option (\<lambda>w. snd (dispatch h Ev_post w))
         (if ld_tick_depth (loop w) \<le> 1 then us_internal_free_closed_sockets w else Some w))"

definition tick_in :: "world \<Rightarrow> world" where
  "tick_in w = upd_loop (ld_tick_depth_update (\<lambda>d. d + 1)) w"

definition tick_out :: "world \<Rightarrow> world" where
  "tick_out w = upd_loop (ld_tick_depth_update (\<lambda>d. d - 1)) w"

text \<open>From the wait to the end of the iteration, the same in both loops.\<close>

definition wait_and_dispatch :: "(world \<Rightarrow> world) \<Rightarrow> handler \<Rightarrow> timespec option \<Rightarrow> world \<Rightarrow> world option" where
  "wait_and_dispatch quic h timeout w =
    (let (ready, w) = bun_epoll_pwait2 timeout w in
     Option.bind (us_internal_dispatch_ready_polls h (set_num_ready ready w)) (\<lambda>w.
     Option.bind (us_internal_drain_ready_polls h w) (\<lambda>w.
     map_option tick_out (us_internal_loop_post quic h w))))"

partial_function (option) us_loop_run :: "(world \<Rightarrow> world) \<Rightarrow> handler \<Rightarrow> world \<Rightarrow> world option" where
  "us_loop_run quic h w =
    (if lp_num_polls (loop w) \<noteq> 0 then
       Option.bind (us_internal_loop_pre quic h (tick_in w)) (\<lambda>w.
       Option.bind (wait_and_dispatch quic h None w) (us_loop_run quic h))
     else Some w)"

text \<open>The deadline of the QUIC engines, in microseconds, folded into the timeout of the caller.\<close>

definition fold_quic_timeout :: "world \<Rightarrow> timespec option \<Rightarrow> timespec option" where
  "fold_quic_timeout w timeout =
    (let us = ld_quic_next_tick_us (loop w) in
     if ld_quic_head (loop w) \<noteq> None \<and> us \<ge> 0 \<and>
        (case timeout of None \<Rightarrow> True | Some (sec, nsec) \<Rightarrow> sec * 1000000 + nsec sdiv 1000 > us)
     then Some (us sdiv 1000000, us smod 1000000 * 1000) else timeout)"

definition us_loop_run_bun_tick ::
  "(world \<Rightarrow> world) \<Rightarrow> handler \<Rightarrow> timespec option \<Rightarrow> world \<Rightarrow> world option" where
  "us_loop_run_bun_tick quic h timeout w =
    (if lp_num_polls (loop w) = 0 then Some w
     else Option.bind (us_internal_loop_pre quic h (tick_in w)) (\<lambda>w.
       let timeout = fold_quic_timeout w timeout;
           had_wakeups = lp_pending_wakeups (loop w);
           w = upd_loop (lp_pending_wakeups_update (\<lambda>_. 0)) w;
           will_idle = (had_wakeups = 0 \<and>
             (case timeout of None \<Rightarrow> True | Some (sec, nsec) \<Rightarrow> nsec \<noteq> 0 \<or> sec \<noteq> 0));
           w = (if will_idle \<and> ld_jsc_vm (loop w) \<noteq> None then snd (dispatch h Ev_before_wait w) else w)
       in wait_and_dispatch quic h timeout w))"

end
