(* ===== verification/Us_Client.thy ===== *)
theory Us_Client imports
  Us_Contract
  Us_Socket
  Us_Timeout
begin

section \<open>Applications, and the contract they meet\<close>

text \<open>
  An application reacts to an event by calling the public operations of sockets, from inside the
  callback. \<open>client app n\<close> is the handler of such an application, whose callbacks nest at most
  \<open>n\<close> deep: closing a socket calls \<open>on_close\<close>, which may close another one, and so on. It
  meets the contract \<open>dispatch_contract\<close> whatever \<open>app\<close> decides, so what is proved inside
  that locale holds for the code.
\<close>

datatype call =
    Call_close int ptr
  | Call_detach
  | Call_write "u8 list"
  | Call_write2 "u8 list" "u8 list"
  | Call_flush
  | Call_timeout u32
  | Call_long_timeout u32
  | Call_shutdown
  | Call_shutdown_read
  | Call_pause
  | Call_resume
  | Call_nodelay int
  | Call_keepalive int u32
  | Call_set_kind u8

type_synonym app = "event \<Rightarrow> world \<Rightarrow> ptr \<times> (addr \<times> call) list"

text \<open>An application only passes sockets it was given: allocated ones.\<close>

fun perform :: "handler \<Rightarrow> addr \<times> call \<Rightarrow> world \<Rightarrow> world" where
  "perform h (s, c) w = (if heap_tag w s \<noteq> Some T_socket then w else (case c of
     Call_close code reason \<Rightarrow> snd (us_socket_close h s code reason w)
   | Call_detach \<Rightarrow> us_socket_detach s w
   | Call_write data \<Rightarrow> snd (us_socket_write s data w)
   | Call_write2 header payload \<Rightarrow> snd (us_socket_write2 s header payload w)
   | Call_flush \<Rightarrow> us_socket_flush s w
   | Call_timeout n \<Rightarrow> us_socket_timeout s n w
   | Call_long_timeout n \<Rightarrow> us_socket_long_timeout s n w
   | Call_shutdown \<Rightarrow> us_socket_shutdown s w
   | Call_shutdown_read \<Rightarrow> us_socket_shutdown_read s w
   | Call_pause \<Rightarrow> us_socket_pause s w
   | Call_resume \<Rightarrow> us_socket_resume s w
   | Call_nodelay e \<Rightarrow> us_socket_nodelay s e w
   | Call_keepalive e d \<Rightarrow> snd (us_socket_keepalive s e d w)
   | Call_set_kind k \<Rightarrow> us_socket_set_kind s k w))"

fun client :: "app \<Rightarrow> nat \<Rightarrow> handler" where
  "client app 0 e w = (fst (app e w), w)"
| "client app (Suc n) e w = (fst (app e w), fold (perform (client app n)) (snd (app e w)) w)"

subsection \<open>Operations the invariant does not see\<close>

lemma quiet_struct_w:
  "quiet v (snd p) \<Longrightarrow> (\<And>a b. quiet v b \<Longrightarrow> quiet v (k a b)) \<Longrightarrow> quiet v (case p of (a, b) \<Rightarrow> k a b)"
  "quiet v W \<Longrightarrow> (\<And>w. quiet v w \<Longrightarrow> quiet v (l w)) \<Longrightarrow> quiet v (let w = W in l w)"
  "(b \<Longrightarrow> quiet v x) \<Longrightarrow> (\<not> b \<Longrightarrow> quiet v y) \<Longrightarrow> quiet v (if b then x else y)"
  "quiet v (snd p) \<Longrightarrow> (\<And>a b. quiet v b \<Longrightarrow> quiet v (snd (f a b))) \<Longrightarrow> quiet v (snd (let (a, b) = p in f a b))"
  "quiet v (snd p) \<Longrightarrow> (\<And>a b. quiet v b \<Longrightarrow> quiet v (k a b)) \<Longrightarrow> quiet v (let (a, b) = p in k a b)"
  by (auto simp: Let_def split: prod.splits)

lemma quiet_raw_shutdown [quiet_intro]: "quiet v w \<Longrightarrow> quiet v (us_internal_socket_raw_shutdown s w)"
  by (auto simp: us_internal_socket_raw_shutdown_def Let_def intro!: quiet_intro)

lemma quiet_ssl_select [quiet_intro]: "quiet v w \<Longrightarrow> quiet v (ssl_select s w)"
  by (auto simp: ssl_select_def intro!: quiet_intro)

lemma quiet_ssl_write [quiet_intro]: "quiet v w \<Longrightarrow> quiet v (snd (us_internal_ssl_write s data w))"
  unfolding us_internal_ssl_write_def Let_def [of "the _"]
  by (assumption | rule quiet_struct quiet_struct_w quiet_intro | simp)+

lemma quiet_ssl_shutdown [quiet_intro]: "quiet v w \<Longrightarrow> quiet v (us_internal_ssl_shutdown s w)"
  unfolding us_internal_ssl_shutdown_def Let_def [of "the _"]
  by (assumption | rule quiet_struct quiet_struct_w quiet_intro | simp)+

lemma quiet_writes [quiet_intro]:
  "quiet v w \<Longrightarrow> quiet v (snd (us_socket_write s data w))"
  "quiet v w \<Longrightarrow> quiet v (snd (us_socket_write2 s data payload w))"
  "quiet v w \<Longrightarrow> quiet v (us_socket_flush s w)"
  unfolding us_socket_write_def us_socket_write2_def us_socket_flush_def
  by (assumption | rule quiet_struct quiet_struct_w quiet_intro | simp)+

lemma quiet_shutdowns [quiet_intro]:
  "quiet v w \<Longrightarrow> quiet v (us_socket_shutdown s w)"
  "quiet v w \<Longrightarrow> quiet v (us_socket_shutdown_read s w)"
  "quiet v w \<Longrightarrow> quiet v (us_socket_pause s w)"
  "quiet v w \<Longrightarrow> quiet v (us_socket_resume s w)"
  unfolding us_socket_shutdown_def us_socket_shutdown_read_def us_socket_pause_def us_socket_resume_def
  by (assumption | rule quiet_struct quiet_struct_w quiet_intro | simp)+

lemma quiet_options [quiet_intro]:
  "quiet v w \<Longrightarrow> quiet v (us_socket_nodelay s e w)"
  "quiet v w \<Longrightarrow> quiet v (snd (us_socket_keepalive s e d w))"
  "quiet v w \<Longrightarrow> quiet v (us_socket_set_kind s kind w)"
  "quiet v w \<Longrightarrow> quiet v (us_socket_timeout s n w)"
  "quiet v w \<Longrightarrow> quiet v (us_socket_long_timeout s n w)"
  unfolding us_socket_nodelay_def us_socket_keepalive_def us_socket_set_kind_def us_socket_timeout_def
    us_socket_long_timeout_def
  by (assumption | rule quiet_struct quiet_struct_w quiet_intro | simp)+

subsection \<open>Every application meets the contract\<close>

text \<open>With the socket known to be allocated, the condition on it goes away.\<close>

lemma okw_allocated: "okw {s} v w \<Longrightarrow> heap_tag v s = Some T_socket \<Longrightarrow> okw {} v w"
  by (simp add: okw_def)

lemma perform_okw:
  assumes "dispatch_contract h"
  shows "okw {} w (perform h p w)"
proof (cases p)
  case (Pair s c)
  show ?thesis
  proof (cases "heap_tag w s = Some T_socket")
    case True
    have cl: "okw {} w (snd (us_socket_close h s code reason w))" for code reason
      by (rule okw_allocated [OF dispatch_contract.socket_close_ok [OF assms okw_refl] True])
    show ?thesis
      by (simp add: Pair True split: call.split)
        (intro allI conjI impI cl okw_allocated [OF detach_okw True] quiet_okw quiet_intro quiet_refl)
  qed (simp add: Pair)
qed

lemma fold_perform_okw:
  "dispatch_contract h \<Longrightarrow> okw {} v w \<Longrightarrow> okw {} v (fold (perform h) ps w)"
  by (induction ps arbitrary: w) (simp_all del: perform.simps add: okw_trans [OF _ perform_okw])

lemma client_contract: "dispatch_contract (client app n)"
proof (induction n)
  case (Suc n)
  then show ?case by unfold_locales (simp add: fold_perform_okw)
qed (unfold_locales, simp)

interpretation cl: dispatch_contract "client app n" for app n
  by (rule client_contract)

end
