(* ===== verification/Us_Kqueue.thy ===== *)
theory Us_Kqueue imports
  Us_Poll
begin

section \<open>The kqueue back end: filter changes and coalescing (\<open>eventing/epoll_kqueue.c\<close>)\<close>

text \<open>
  On macOS and FreeBSD a poll is registered as up to two filters, and the kernel reports each of them
  as an event of its own. \<open>kqueue_change\<close> computes the changes from the old to the new interest;
  a first pass over the reported events merges those of one poll into the flags of its first entry,
  so that a poll is dispatched once. The list of polls is what the events' \<open>udata\<close> hold.
\<close>

datatype filter = EVFILT_READ | EVFILT_WRITE | EVFILT_TIMER | EVFILT_USER | EVFILT_OTHER

datatype ev_action = EV_ADD | EV_ADD_ONESHOT | EV_DELETE

type_synonym kchange = "filter \<times> ev_action"

text \<open>The change list handed to \<open>kevent64\<close>.\<close>

definition kqueue_change_list :: "u32 \<Rightarrow> u32 \<Rightarrow> kchange list" where
  "kqueue_change_list old_events new_events = (let
     is_readable = new_events AND LIBUS_SOCKET_READABLE; is_writable = new_events AND LIBUS_SOCKET_WRITABLE
   in (if is_readable \<noteq> old_events AND LIBUS_SOCKET_READABLE
       then [(EVFILT_READ, if is_readable \<noteq> 0 then EV_ADD else EV_DELETE)] else [])
    @ (if is_readable = 0 \<and> is_writable = 0 then
         (if old_events AND LIBUS_SOCKET_WRITABLE = 0 then [(EVFILT_WRITE, EV_ADD_ONESHOT)] else [])
       else if is_writable \<noteq> old_events AND LIBUS_SOCKET_WRITABLE
       then [(EVFILT_WRITE, if is_writable \<noteq> 0 then EV_ADD_ONESHOT else EV_DELETE)] else []))"

text \<open>What the kernel has registered after a change list, starting from a set of filters.\<close>

fun apply_changes :: "kchange list \<Rightarrow> filter set \<Rightarrow> filter set" where
  "apply_changes [] F = F"
| "apply_changes ((f, EV_ADD) # cs) F = apply_changes cs (insert f F)"
| "apply_changes ((f, EV_ADD_ONESHOT) # cs) F = apply_changes cs (insert f F)"
| "apply_changes ((f, EV_DELETE) # cs) F = apply_changes cs (F - {f})"

definition filters_of :: "u32 \<Rightarrow> filter set" where
  "filters_of events = (if events AND LIBUS_SOCKET_READABLE \<noteq> 0 then {EVFILT_READ} else {})
                     \<union> (if events AND LIBUS_SOCKET_WRITABLE \<noteq> 0 then {EVFILT_WRITE} else {})"

subsection \<open>Coalescing\<close>

record kevent_flags =
  kf_readable :: bool
  kf_writable :: bool
  kf_error :: bool
  kf_eof :: bool
  kf_skip :: bool

record kevent =
  ke_poll :: pollref
  ke_filter :: filter
  ke_error :: bool
  ke_eof :: bool

definition kf_none :: kevent_flags where
  "kf_none = \<lparr> kf_readable = False, kf_writable = False, kf_error = False, kf_eof = False, kf_skip = True \<rparr>"

definition decode_kevent :: "kevent \<Rightarrow> kevent_flags" where
  "decode_kevent e = \<lparr> kf_readable = (ke_filter e = EVFILT_READ \<or> ke_filter e = EVFILT_TIMER \<or> ke_filter e = EVFILT_USER),
     kf_writable = (ke_filter e = EVFILT_WRITE), kf_error = ke_error e, kf_eof = ke_eof e, kf_skip = False \<rparr>"

definition merge_flags :: "kevent_flags \<Rightarrow> kevent_flags \<Rightarrow> kevent_flags" where
  "merge_flags a b = a\<lparr>kf_readable := kf_readable a \<or> kf_readable b, kf_writable := kf_writable a \<or> kf_writable b,
     kf_error := kf_error a \<or> kf_error b, kf_eof := kf_eof a \<or> kf_eof b\<rparr>"

text \<open>Backward from entry \<open>n - 1\<close>: the last entry of the same poll that is not skipped.\<close>

fun find_prior :: "pollref list \<Rightarrow> kevent_flags list \<Rightarrow> pollref \<Rightarrow> nat \<Rightarrow> nat option" where
  "find_prior ps fs p 0 = None"
| "find_prior ps fs p (Suc j) = (if \<not> kf_skip (fs ! j) \<and> ps ! j = p then Some j else find_prior ps fs p j)"

definition coalesce_step :: "kevent list \<Rightarrow> kevent_flags list \<Rightarrow> kevent \<Rightarrow> kevent_flags list" where
  "coalesce_step es fs e = (case ke_poll e of
     Poll p \<Rightarrow> (case find_prior (map ke_poll es) fs (Poll p) (length fs) of
         Some j \<Rightarrow> fs[j := merge_flags (fs ! j) (decode_kevent e)] @ [kf_none]
       | None \<Rightarrow> fs @ [decode_kevent e])
   | _ \<Rightarrow> fs @ [kf_none])"

definition coalesce :: "kevent list \<Rightarrow> kevent_flags list" where
  "coalesce es = foldl (coalesce_step es) [] es"

text \<open>The second pass: what is dispatched, with the interest of each poll as it is then.\<close>

definition kq_events :: "kevent_flags \<Rightarrow> u32 \<Rightarrow> u32" where
  "kq_events f interest = ((if kf_readable f then LIBUS_SOCKET_READABLE else 0)
     OR (if kf_writable f then LIBUS_SOCKET_WRITABLE else 0)) AND interest"

definition kq_job :: "kevent_flags \<Rightarrow> addr \<Rightarrow> world \<Rightarrow> (bool \<times> bool \<times> u32) option" where
  "kq_job f p w = (if kf_skip f then None
     else let events = kq_events f (us_poll_events p w) in
       if events \<noteq> 0 \<or> kf_error f \<or> kf_eof f then Some (kf_error f, kf_eof f, events) else None)"

subsection \<open>The change list is exact\<close>

lemma filters_bits:
  "(EVFILT_READ \<in> filters_of ev) = (ev AND LIBUS_SOCKET_READABLE \<noteq> 0)"
  "(EVFILT_WRITE \<in> filters_of ev) = (ev AND LIBUS_SOCKET_WRITABLE \<noteq> 0)"
  by (auto simp: filters_of_def)

lemma and_readable: "(ev :: u32) AND LIBUS_SOCKET_READABLE = (if bit ev 0 then LIBUS_SOCKET_READABLE else 0)"
proof (rule bit_word_eqI)
  fix n
  show "bit (ev AND EPOLLIN) n = bit (if bit ev 0 then EPOLLIN else 0) n"
    by (cases n) (auto simp: EPOLLIN_def bit_simps)
qed

lemma and_writable: "(ev :: u32) AND LIBUS_SOCKET_WRITABLE = (if bit ev 2 then LIBUS_SOCKET_WRITABLE else 0)"
proof (rule bit_word_eqI)
  fix n
  have "bit EPOLLOUT n = (n = 2)" using bit_exp_iff [of 2 n, where 'a = u32] by (auto simp: EPOLLOUT_def)
  then show "bit (ev AND EPOLLOUT) n = bit (if bit ev 2 then EPOLLOUT else 0) n"
    by (cases "n = 2") (auto simp: bit_simps)
qed

lemma epoll_nonzero [simp]: "EPOLLIN \<noteq> 0" "EPOLLOUT \<noteq> 0"
  by (simp_all add: epoll_defs)

text \<open>
  The change list that \<open>kqueue_change\<close> computes turns the filters registered for the old interest into
  exactly those of the new one, whatever the two are; with no interest left the write filter alone is
  registered, so that the end of the stream is still reported.
\<close>

theorem kqueue_change_exact:
  "apply_changes (kqueue_change_list old new) (filters_of old) =
     (if new AND LIBUS_SOCKET_READABLE = 0 \<and> new AND LIBUS_SOCKET_WRITABLE = 0 then {EVFILT_WRITE}
      else filters_of new)"
  by (cases "bit old 0"; cases "bit old 2"; cases "bit new 0"; cases "bit new 2")
    (auto simp: kqueue_change_list_def filters_of_def and_readable and_writable)

subsection \<open>Coalescing dispatches each poll once, with all its flags\<close>

text \<open>What the entry at index \<open>i\<close> should be: the first entry of a poll has the flags of all of them.\<close>

definition or_flags :: "kevent list \<Rightarrow> addr \<Rightarrow> kevent_flags" where
  "or_flags es p = (let mine = filter (\<lambda>e. ke_poll e = Poll p) es in
    \<lparr> kf_readable = list_ex (\<lambda>e. kf_readable (decode_kevent e)) mine,
      kf_writable = list_ex (\<lambda>e. kf_writable (decode_kevent e)) mine,
      kf_error = list_ex ke_error mine, kf_eof = list_ex ke_eof mine, kf_skip = False \<rparr>)"

definition coalesced_at :: "kevent list \<Rightarrow> nat \<Rightarrow> kevent_flags" where
  "coalesced_at es i = (case ke_poll (es ! i) of
     Poll p \<Rightarrow> if \<exists>j<i. ke_poll (es ! j) = Poll p then kf_none else or_flags es p
   | _ \<Rightarrow> kf_none)"

lemma find_prior_Some:
  assumes "j < n" "\<not> kf_skip (fs ! j)" "ps ! j = p" "\<And>k. k < n \<Longrightarrow> \<not> kf_skip (fs ! k) \<Longrightarrow> ps ! k = p \<Longrightarrow> k = j"
  shows "find_prior ps fs p n = Some j"
  using assms
proof (induction n)
  case (Suc n)
  show ?case
  proof (cases "n = j")
    case True
    with Suc.prems(2,3) show ?thesis by simp
  next
    case False
    then have "j < n" using Suc.prems(1) by simp
    then have "find_prior ps fs p n = Some j"
      by (rule Suc.IH [OF _ Suc.prems(2,3)]) (rule Suc.prems(4), simp_all)
    moreover have "\<not> (\<not> kf_skip (fs ! n) \<and> ps ! n = p)" using Suc.prems(4) [OF lessI] False by blast
    ultimately show ?thesis by auto
  qed
qed simp

lemma find_prior_None: "(\<And>k. k < n \<Longrightarrow> kf_skip (fs ! k) \<or> ps ! k \<noteq> p) \<Longrightarrow> find_prior ps fs p n = None"
  by (induction n) auto

lemma kf_none_skip [simp]: "kf_skip kf_none" "\<not> kf_skip (or_flags es p)"
  by (simp_all add: kf_none_def or_flags_def Let_def)

lemma or_flags_snoc:
  "or_flags (es @ [e]) p = (if ke_poll e = Poll p then merge_flags (or_flags es p) (decode_kevent e) else or_flags es p)"
  by (auto simp: or_flags_def merge_flags_def decode_kevent_def Let_def list_ex_iff)

lemma or_flags_fresh:
  "\<forall>e\<in>set es. ke_poll e \<noteq> Poll p \<Longrightarrow> ke_poll e = Poll p \<Longrightarrow> or_flags (es @ [e]) p = decode_kevent e"
  by (simp add: or_flags_def decode_kevent_def Let_def filter_empty_conv)

lemma coalesce_prefix:
  "n \<le> length es \<Longrightarrow>
    foldl (coalesce_step es) [] (take n es) = map (coalesced_at (take n es)) [0..<n]"
proof (induction n)
  case (Suc n)
  define pre where "pre = take n es"
  define e where "e = es ! n"
  have n: "n < length es" using Suc.prems by simp
  have tk: "take (Suc n) es = pre @ [e]" using n by (simp add: pre_def e_def take_Suc_conv_app_nth)
  have lp: "length pre = n" using n by (simp add: pre_def)
  define fs where "fs = map (coalesced_at pre) [0..<n]"
  have fold: "foldl (coalesce_step es) [] (take (Suc n) es) = coalesce_step es fs e"
    using Suc.IH n by (simp add: tk fs_def pre_def)
  have nth: "map ke_poll es ! j = ke_poll (pre ! j)" "es ! j = pre ! j" if "j < n" for j
    using that n by (simp_all add: pre_def)
  have fsn: "fs ! j = coalesced_at pre j" if "j < n" for j using that by (simp add: fs_def)
  have ext: "coalesced_at (pre @ [e]) j = (case ke_poll (pre ! j) of
      Poll p \<Rightarrow> if \<exists>i<j. ke_poll (pre ! i) = Poll p then kf_none else or_flags (pre @ [e]) p | _ \<Rightarrow> kf_none)"
    if "j < n" for j
    using that lp by (auto simp: coalesced_at_def nth_append split: pollref.splits)
  have last: "coalesced_at (pre @ [e]) n = (case ke_poll e of
      Poll p \<Rightarrow> if \<exists>j<n. ke_poll (pre ! j) = Poll p then kf_none else or_flags (pre @ [e]) p | _ \<Rightarrow> kf_none)"
    using lp by (auto simp: coalesced_at_def nth_append split: pollref.splits)
  have len: "length fs = n" by (simp add: fs_def)
  have goal: "coalesce_step es fs e = map (coalesced_at (pre @ [e])) [0..<Suc n]"
  proof (cases "\<exists>p. ke_poll e = Poll p")
    case False
    then have s: "coalesce_step es fs e = fs @ [kf_none]" "coalesced_at (pre @ [e]) n = kf_none"
      by (auto simp: coalesce_step_def last split: pollref.splits)
    have "coalesced_at (pre @ [e]) j = coalesced_at pre j" if "j < n" for j
      using that False by (auto simp: ext coalesced_at_def [of pre] or_flags_snoc split: pollref.splits)
    then have "map (coalesced_at (pre @ [e])) [0..<n] = fs" by (simp add: fs_def)
    then show ?thesis by (simp add: s)
  next
    case True
    then obtain p where p: "ke_poll e = Poll p" by blast
    have other: "coalesced_at (pre @ [e]) j = coalesced_at pre j"
      if "j < n" "ke_poll (pre ! j) \<noteq> Poll p \<or> (\<exists>i<j. ke_poll (pre ! i) = Poll p)" for j
      using that p by (auto simp: ext coalesced_at_def [of pre] or_flags_snoc split: pollref.splits)
    show ?thesis
    proof (cases "\<exists>j<n. ke_poll (pre ! j) = Poll p")
      case False
      then have "find_prior (map ke_poll es) fs (Poll p) n = None"
        by (intro find_prior_None) (simp add: nth)
      then have s: "coalesce_step es fs e = fs @ [decode_kevent e]"
        by (simp add: coalesce_step_def p len)
      have "\<forall>x\<in>set pre. ke_poll x \<noteq> Poll p" using False lp by (auto simp: in_set_conv_nth)
      with False p have "coalesced_at (pre @ [e]) n = decode_kevent e"
        by (simp only: last or_flags_fresh pollref.case if_False)
      moreover have "map (coalesced_at (pre @ [e])) [0..<n] = fs"
        using False by (simp add: fs_def other)
      ultimately show ?thesis by (simp add: s)
    next
      case True
      define i where "i = (LEAST j. j < n \<and> ke_poll (pre ! j) = Poll p)"
      have i: "i < n" "ke_poll (pre ! i) = Poll p" using LeastI_ex [OF True] by (simp_all add: i_def)
      have least: "ke_poll (pre ! j) \<noteq> Poll p" if "j < i" for j
        using that i(1) not_less_Least [of j "\<lambda>j. j < n \<and> ke_poll (pre ! j) = Poll p"] by (auto simp: i_def)
      have fi: "fs ! i = or_flags pre p" using i least by (auto simp: fsn coalesced_at_def)
      have "find_prior (map ke_poll es) fs (Poll p) n = Some i"
      proof (rule find_prior_Some)
        fix k
        assume k: "k < n" "\<not> kf_skip (fs ! k)" "map ke_poll es ! k = Poll p"
        then show "k = i"
          using i least by (auto simp: nth fsn coalesced_at_def split: if_splits) (meson linorder_neqE_nat)
      qed (use i fi in \<open>simp_all add: nth\<close>)
      then have s: "coalesce_step es fs e = fs[i := merge_flags (fs ! i) (decode_kevent e)] @ [kf_none]"
        by (simp add: coalesce_step_def p len)
      have ci: "coalesced_at (pre @ [e]) i = merge_flags (or_flags pre p) (decode_kevent e)"
        using i least p by (auto simp: ext or_flags_snoc)
      have cn: "coalesced_at (pre @ [e]) n = kf_none" using True p by (simp add: last)
      have "map (coalesced_at (pre @ [e])) [0..<n] = fs[i := merge_flags (fs ! i) (decode_kevent e)]"
      proof (rule nth_equalityI)
        fix j
        assume j: "j < length (map (coalesced_at (pre @ [e])) [0..<n])"
        have "coalesced_at (pre @ [e]) j = coalesced_at pre j" if "j \<noteq> i"
          using that j i least by (intro other) (auto dest: nat_neq_iff [THEN iffD1])
        then show "map (coalesced_at (pre @ [e])) [0..<n] ! j = fs[i := merge_flags (fs ! i) (decode_kevent e)] ! j"
          using j len by (cases "j = i") (simp_all add: ci fi fsn nth_list_update)
      qed (simp add: len)
      then show ?thesis by (simp add: s cn)
    qed
  qed
  show ?case by (simp only: fold goal) (simp add: tk)
qed simp

lemma coalesce_exact: "coalesce es = map (coalesced_at es) [0..<length es]"
  using coalesce_prefix [of "length es" es] by (simp add: coalesce_def)

end
