(* ===== verification/Us_Scene.thy ===== *)
theory Us_Scene imports
  Us_Dispatch
  Us_Client
  Us_Kqueue
begin

section \<open>A concrete loop\<close>

text \<open>
  A loop with one group (at address 5) and one open socket in it (at address 7, descriptor 9, polling
  for input), on which the theorems are applied. \<open>blank rs\<close> is a loop after \<open>us_create_loop\<close> with
  the answers \<open>rs\<close> still to come and one allocated socket outside every list.
\<close>

definition blank_socket :: us_socket_t where
  "blank_socket = \<lparr> s_timeout = 255, s_long_timeout = 255, s_is_paused = False, s_allow_half_open = False,
     s_low_prio_state = 0, s_is_ipc = False, s_is_closed = False, s_adopted = False,
     s_last_write_failed = False, s_kind = 0, s_ssl_handshake_state = 0, s_ssl_write_wants_read = False,
     s_ssl_read_wants_write = False, s_ssl_fatal_error = False, s_ssl_is_server = False,
     s_ssl_raw_tap = False, s_group = None, s_ssl = None, s_prev = None, s_next = None,
     s_connect_next = None, s_connect_state = None \<rparr>"

definition blank_conn :: us_connecting_socket_t where
  "blank_conn = \<lparr> c_addrinfo_req = None, c_group = None, c_ssl_ctx = None, c_next = None,
     c_connecting_head = None, c_options = 0, c_socket_ext_size = 0, c_closed = False, c_shutdown = False,
     c_shutdown_read = False, c_pending_resolve_callback = False, c_timeout = 255, c_long_timeout = 255,
     c_kind = 0, c_port = 0, c_error = 0, c_addrinfo_head = [], c_next_pending = None,
     c_prev_pending = None \<rparr>"

definition blank :: "reply list \<Rightarrow> world" where
  "blank rs = \<lparr> kern = \<lparr> errno = 0, replies = rs, trace = [] \<rparr>,
     polls = (\<lambda>_. \<lparr> p_fd = 9, p_poll_type = POLL_TYPE_POLLING_IN \<rparr>),
     sockets = (\<lambda>_. blank_socket), conns = (\<lambda>_. blank_conn),
     listeners = (\<lambda>_. \<lparr> l_accept_group = 5, l_next = None, l_ssl_ctx = None, l_sni = None,
       l_on_server_name = False, l_socket_ext_size = 0, l_accept_kind = 0, l_deferred_accept = False \<rparr>),
     groups = (\<lambda>_. zero_group),
     udps = (\<lambda>_. \<lparr> u_port = 0, u_closed = False, u_connected = False, u_next = None, u_user = None \<rparr>),
     callbacks = (\<lambda>_. \<lparr> cb_expects_the_loop = False, cb_leave_poll_ready = False, cb_cb = None,
       cb_has_added_timer = False \<rparr>),
     loop = zero_loop\<lparr>ld_sweep_timer := Some 3, ld_wakeup_async := Some 4\<rparr>,
     heap_tag = [7 \<mapsto> T_socket], next_addr = 8 \<rparr>"

definition scene :: "reply list \<Rightarrow> world" where
  "scene rs = us_internal_socket_group_link_socket 5 7 (upd_s 7 (s_group_update (\<lambda>_. Some 5)) (blank rs))"

definition a_blank :: absr where
  "a_blank = \<lparr> a_groups = [], a_socks = (\<lambda>_. []), a_conns = (\<lambda>_. []), a_low = [], a_closed = [],
     a_limbo = {}, a_loose = {7} \<rparr>"

lemma blank_wf: "wf_world a_blank (upd_s 7 (s_group_update (\<lambda>_. Some 5)) (blank rs))"
  by (simp add: wf_world_def wf_groups_def wf_nonempty_def wf_socks_def wf_conns_def wf_low_def wf_closed_def
      wf_count_def wf_iter_def wf_heap_def wf_loose_def sweep_sum_def on_list_def a_blank_def blank_def
      us_internal_group_is_empty_def zero_group_def zero_loop_def blank_socket_def)

lemma scene_wf: "wf_world (a_link 5 7 a_blank) (scene rs)"
  unfolding scene_def
  by (rule link_socket_wf [OF blank_wf]) (simp_all add: a_blank_def blank_def blank_socket_def)

lemma scene_inv: "inv {} (scene rs)"
  by (rule inv_intro [OF scene_wf]) (simp_all add: a_link_def a_blank_def)

lemma scene_heap: "heap_tag (scene rs) = [7 \<mapsto> T_socket]"
  by (simp add: scene_def blank_def)

end
