(* ===== verification/Us_Closing.thy ===== *)
theory Us_Closing imports
  Us_Scene
begin

section \<open>Properties of closing\<close>

subsection \<open>Operations that call no callback\<close>

text \<open>\<open>silent w w'\<close>: between \<open>w\<close> and \<open>w'\<close> there are calls into the kernel, no callbacks.\<close>

definition silent :: "world \<Rightarrow> world \<Rightarrow> bool" where
  "silent w w' \<longleftrightarrow> (\<exists>pre. trace (kern w') = pre @ trace (kern w) \<and> (\<forall>e. Dispatch e \<notin> set pre))"

lemma silent_same: "trace (kern w') = trace (kern w) \<Longrightarrow> silent w w'"
  by (auto simp: silent_def)

lemma silent_refl [simp]: "silent w w"
  by (rule silent_same) simp

lemma silent_trans: "silent u v \<Longrightarrow> silent v w \<Longrightarrow> silent u w"
  by (auto simp: silent_def)

lemma trace_sys [simp]: "trace (snd (sys c k)) = Sys c # trace k"
  by (simp add: sys_def Let_def)

lemma trace_retry: "\<exists>n. trace (snd (sys_retry c k)) = replicate (Suc n) (Sys c) @ trace k"
proof (induction c k rule: sys_retry.induct)
  case (1 c k)
  show ?case
  proof (cases "r_ret (fst (sys c k)) = -1 \<and> errno (snd (sys c k)) = EINTR")
    case True
    then have "sys_retry c k = sys_retry c (snd (sys c k))"
      by (subst sys_retry.simps) (simp add: case_prod_beta Let_def)
    moreover obtain n where "trace (snd (sys_retry c (snd (sys c k)))) = replicate (Suc n) (Sys c) @ Sys c # trace k"
      using 1 [of "sys c k" "fst (sys c k)" "snd (sys c k)"] True by auto
    ultimately have "trace (snd (sys_retry c k)) = replicate (Suc (Suc n)) (Sys c) @ trace k"
      by (simp add: replicate_append_same)
    then show ?thesis by blast
  next
    case False
    then have "sys_retry c k = sys c k"
      by (subst sys_retry.simps) (auto simp: case_prod_beta Let_def)
    then have "trace (snd (sys_retry c k)) = replicate (Suc 0) (Sys c) @ trace k" by simp
    then show ?thesis by blast
  qed
qed

lemma silent_sys: "silent w (snd (lift_k (sys c) w))"
  by (auto simp: silent_def)

lemma silent_retry: "silent w (snd (lift_k (sys_retry c) w))"
proof -
  obtain n where "trace (snd (sys_retry c (kern w))) = replicate (Suc n) (Sys c) @ trace (kern w)"
    using trace_retry by blast
  then show ?thesis by (auto simp: silent_def intro!: exI [of _ "replicate (Suc n) (Sys c)"])
qed

lemma silent_epoll_ctl: "silent w (snd (epoll_ctl opr fd ev p w))"
  using silent_retry by (simp add: epoll_ctl_def case_prod_beta Let_def)

lemma silent_poll_stop: "silent w (us_poll_stop p w)"
  by (rule silent_trans [OF silent_epoll_ctl [of w EPOLL_CTL_DEL "us_poll_fd p w" 0 Null_poll]])
    (rule silent_same, simp add: us_poll_stop_def case_prod_beta Let_def)

lemma silent_timer_set: "silent w (us_timer_set t cb ms rep w)"
proof -
  define v where "v = snd (lift_k (sys (Sys_timerfd_settime (us_poll_fd t (upd_cb t (cb_cb_update (\<lambda>_. Some cb)) w))
                    (ms sdiv 1000, (ms smod 1000) * 1000000)
                    (rep sdiv 1000, (rep smod 1000) * 1000000))) (upd_cb t (cb_cb_update (\<lambda>_. Some cb)) w))"
  have v: "silent w v" by (auto simp: silent_def v_def)
  have st: "silent u (us_poll_start p ev u)" for p ev u
    unfolding us_poll_start_def us_poll_start_rc_def Let_def
    by (rule silent_trans [OF silent_same silent_epoll_ctl]) simp
  show ?thesis
    by (rule silent_trans [OF v])
      (auto simp: us_timer_set_def case_prod_beta Let_def simp flip: v_def intro: silent_trans [OF silent_same st])
qed

lemma trace_group_ops [simp]:
  "trace (kern (us_internal_group_touched g w)) = trace (kern w)"
  "trace (kern (us_internal_group_maybe_unlink g w)) = trace (kern w)"
  "trace (kern (unlink_socket_chain g s w)) = trace (kern w)"
  "trace (kern (low_prio_chain s w)) = trace (kern w)"
  by (simp_all add: us_internal_group_touched_def us_internal_loop_link_group_def us_internal_group_maybe_unlink_def
      us_internal_loop_unlink_group_def unlink_socket_chain_def low_prio_chain_def Let_def split: option.split)

lemma silent_disable_sweep: "silent w (us_internal_disable_sweep_timer w)"
  unfolding us_internal_disable_sweep_timer_def Let_def
  by (auto intro: silent_same silent_trans [OF silent_same silent_timer_set])

lemma silent_unlink: "silent w (us_internal_socket_group_unlink_socket g s w)"
  unfolding us_internal_socket_group_unlink_socket_def Let_def
  by (rule silent_trans [OF _ silent_same], rule silent_trans [OF silent_same silent_disable_sweep]) simp_all

lemma silent_close_unlink: "silent w (close_unlink s w)"
  by (auto simp: close_unlink_def silent_unlink low_prio_unlink_def Let_def intro: silent_same)

text \<open>Stopping the sweep timer may touch the poll of the timer, no other.\<close>

lemma timer_set_poll: "x \<noteq> t \<Longrightarrow> polls (us_timer_set t cb ms rep w) x = polls w x"
  by (simp add: us_timer_set_def us_poll_start_def us_poll_start_rc_def case_prod_beta Let_def)

lemma disable_sweep_poll:
  "ld_sweep_timer (loop w) \<noteq> None \<Longrightarrow> ld_sweep_timer (loop w) \<noteq> Some x \<Longrightarrow>
   polls (us_internal_disable_sweep_timer w) x = polls w x"
  by (auto simp: us_internal_disable_sweep_timer_def Let_def timer_set_poll)

lemma close_unlink_frame:
  "s_ssl (sockets (close_unlink s w) x) = s_ssl (sockets w x)"
  "s_is_closed (sockets (close_unlink s w) x) = s_is_closed (sockets w x)"
  "heap_tag (close_unlink s w) = heap_tag w"
  by (auto simp: close_unlink_def low_prio_unlink_def Let_def)

lemma group_ops_poll:
  "polls (us_internal_group_maybe_unlink g w) = polls w"
  "polls (unlink_socket_chain g s w) = polls w"
  "polls (low_prio_chain s w) = polls w"
  "ld_sweep_timer (loop (unlink_socket_chain g s w)) = ld_sweep_timer (loop w)"
  by (simp_all add: us_internal_group_maybe_unlink_def us_internal_loop_unlink_group_def
      unlink_socket_chain_def low_prio_chain_def Let_def split: option.split)

lemma close_unlink_poll:
  "ld_sweep_timer (loop w) \<noteq> None \<Longrightarrow> ld_sweep_timer (loop w) \<noteq> Some s \<Longrightarrow>
   polls (close_unlink s w) s = polls w s"
  by (simp add: close_unlink_def low_prio_unlink_def us_internal_socket_group_unlink_socket_def Let_def
      group_ops_poll disable_sweep_poll)

lemma poll_stop_trace: "\<exists>pre. trace (kern (us_poll_stop p w)) =
    Sys (Sys_epoll_ctl (lp_fd (loop w)) EPOLL_CTL_DEL (us_poll_fd p w) 0 Null_poll) # pre @ trace (kern w)
  \<and> (\<forall>e. Dispatch e \<notin> set pre)"
proof -
  let ?c = "Sys_epoll_ctl (lp_fd (loop w)) EPOLL_CTL_DEL (us_poll_fd p w) 0 Null_poll"
  obtain n where "trace (snd (sys_retry ?c (kern w))) = replicate (Suc n) (Sys ?c) @ trace (kern w)"
    using trace_retry by blast
  then have "trace (kern (us_poll_stop p w)) = Sys ?c # replicate n (Sys ?c) @ trace (kern w)"
    by (simp add: us_poll_stop_def epoll_ctl_def case_prod_beta Let_def)
  then show ?thesis by (intro exI [of _ "replicate n (Sys ?c)"]) simp
qed

lemma close_unlink_epoll_fd: "lp_fd (loop (close_unlink s w)) = lp_fd (loop w)"
  by (simp add: close_unlink_def low_prio_unlink_def low_prio_chain_def Let_def split: option.split)

subsection \<open>The order of closing\<close>


lemma scene_facts:
  "\<not> s_is_closed (sockets (scene rs) 7)" "s_ssl (sockets (scene rs) 7) = None"
  "s_group (sockets (scene rs) 7) = Some 5" "s_low_prio_state (sockets (scene rs) 7) = 0"
  "ld_sweep_timer (loop (scene rs)) = Some 3" "heap_tag (scene rs) 7 = Some T_socket"
  "polls (scene rs) 7 = \<lparr> p_fd = 9, p_poll_type = POLL_TYPE_POLLING_IN \<rparr>"
  by (simp_all add: scene_def us_internal_socket_group_link_socket_def us_socket_is_closed_def Let_def blank_def
      blank_socket_def zero_group_def us_internal_group_touched_def us_internal_enable_sweep_timer_def
      timer_set_poll us_internal_loop_link_group_def zero_loop_def)


subsection \<open>The invariant through closing\<close>

text \<open>
  C2: Closing keeps the structure of the loop well formed, for every application: any code, with or without
  TLS, graceful or not, whatever sockets the callbacks close, detach or write to, however deeply they nest. No
  socket is freed or reopened on the way. Without a TLS session the socket is closed on return.
\<close>

theorem close_keeps_invariant:
  assumes "inv L w" "heap_tag w s = Some T_socket"
  shows "inv L (snd (us_socket_close (client app n) s code reason w))
    \<and> (\<forall>x. heap_tag w x = Some T_socket \<longrightarrow>
         heap_tag (snd (us_socket_close (client app n) s code reason w)) x = Some T_socket
         \<and> (s_is_closed (sockets w x) \<longrightarrow>
              s_is_closed (sockets (snd (us_socket_close (client app n) s code reason w)) x)))
    \<and> (s_ssl (sockets w s) = None \<longrightarrow>
         s_is_closed (sockets (snd (us_socket_close (client app n) s code reason w)) s))"
  using cl.socket_close_ok [where s = s and v = w and w = w and code = code and reason = reason and app = app and n = n, OF okw_refl]
    cl.close_raw_closed [OF assms] assms
  by (auto simp: okw_def us_socket_close_def)

theorem close_keeps_invariant_witness:
  "inv {} (snd (us_socket_close (client (\<lambda>e _. (None, [(7, Call_write [1]), (7, Call_close 0 None)])) 3) 7
     LIBUS_SOCKET_CLOSE_CODE_CONNECTION_RESET None (scene [])))"
  using close_keeps_invariant [OF scene_inv scene_facts(6)] by blast



end
