(* ===== verification/Us_Sweeping.thy ===== *)
theory Us_Sweeping imports
  Us_Closing
begin

section \<open>Properties of timeouts\<close>

text \<open>
  When a timeout fires: the clock of a group after \<open>k\<close> sweeps against the value that
  \<open>us_socket_timeout\<close> stored, and what one sweep over the whole loop emits.
\<close>

lemma tick_group_sel:
  "g_global_tick (tick_group g) = g_global_tick g + 1"
  "g_timestamp (tick_group g) = ucast ((g_global_tick g + 1) mod 240)"
  "g_long_timestamp (tick_group g) = ucast (((g_global_tick g + 1) div 15) mod 240)"
  by (simp_all add: tick_group_def Let_def)

text \<open>The clock of a group after \<open>k\<close> sweeps, as long as the 32-bit tick does not wrap.\<close>

lemma tick_pow:
  assumes "unat (g_global_tick g) + k < 2 ^ 32"
  shows "unat (g_global_tick ((tick_group ^^ k) g)) = unat (g_global_tick g) + k"
  using assms
proof (induction k)
  case (Suc k)
  then have "unat (g_global_tick ((tick_group ^^ k) g)) = unat (g_global_tick g) + k" by simp
  with Suc.prems show ?case by (simp add: tick_group_sel unat_word_ariths)
qed simp

lemma tick_clock:
  assumes "0 < k" "unat (g_global_tick g) + k < 2 ^ 32"
  shows "unat (g_timestamp ((tick_group ^^ k) g)) = (unat (g_global_tick g) + k) mod 240"
    "unat (g_long_timestamp ((tick_group ^^ k) g)) = ((unat (g_global_tick g) + k) div 15) mod 240"
proof -
  obtain j where k: "k = Suc j" using assms(1) by (cases k) auto
  let ?t = "g_global_tick ((tick_group ^^ j) g) + 1"
  have t: "unat ?t = unat (g_global_tick g) + k"
    using tick_pow [of g j] assms(2) k by (simp add: unat_word_ariths)
  have "unat (ucast (?t mod 240) :: u8) = unat (?t mod 240)" "unat (ucast ((?t div 15) mod 240) :: u8) = unat ((?t div 15) mod 240)"
    by (rule unat_ucast_lt, simp add: unat_mod unat_div mod_240_lt)+
  then show "unat (g_timestamp ((tick_group ^^ k) g)) = (unat (g_global_tick g) + k) mod 240"
    "unat (g_long_timestamp ((tick_group ^^ k) g)) = ((unat (g_global_tick g) + k) div 15) mod 240"
    unfolding k using t [unfolded k] by (simp_all add: tick_group_sel unat_mod unat_div)
qed

text \<open>
  C11: A timeout of \<open>seconds\<close>, at most 960, set on a socket is due at sweep number
  \<open>(seconds + 3) / 4\<close> after that, and at no other of the next 240 sweeps: the sweeps are four seconds
  apart, so it fires at most four seconds early and never later than its length rounded up to a sweep.
\<close>

theorem timeout_due_sweep:
  assumes "s_group (sockets w s) = Some grp" "g_timestamp (groups w grp) = ucast (g_global_tick (groups w grp) mod 240)"
    "unat (g_global_tick (groups w grp)) + 240 < 2 ^ 32"
    "1 \<le> unat seconds" "unat seconds \<le> 960" "1 \<le> k" "k \<le> 240"
  shows "(g_timestamp ((tick_group ^^ k) (groups w grp)) = s_timeout (sockets (us_socket_timeout s seconds w) s))
    = (k = (unat seconds + 3) div 4)"
proof -
  let ?g = "groups w grp"
  let ?t = "unat (g_global_tick ?g)"
  have nz: "seconds \<noteq> 0" using assms(4) by auto
  have ts: "unat (g_timestamp ?g) = ?t mod 240"
    unfolding assms(2) using mod_240_lt by (simp add: unat_ucast_lt unat_mod)
  have "unat (s_timeout (sockets (us_socket_timeout s seconds w) s)) = (?t mod 240 + sweeps (unat seconds)) mod 240"
    using timeout_ticks_nat [OF nz assms(5), of "g_timestamp ?g"] by (simp add: us_socket_timeout_def assms(1) ts)
  moreover have "unat (g_timestamp ((tick_group ^^ k) ?g)) = (?t + k) mod 240"
    using tick_clock [of k ?g] assms by simp
  moreover have "1 \<le> sweeps (unat seconds)" "sweeps (unat seconds) \<le> 240"
    using assms(4,5) by (auto simp: sweeps_def)
  ultimately show ?thesis
    using clock_meets [OF assms(6,7), of "sweeps (unat seconds)" ?t] by (simp add: word_unat_eq_iff sweeps_def)
qed

lemma long_ticks_nat:
  assumes "minutes \<noteq> 0" "unat minutes \<le> 240"
  shows "unat (long_timeout_ticks ts minutes) = (unat ts + unat minutes) mod 240"
proof -
  have ts: "unat ts < 256" using unsigned_less [of ts] by simp
  have c: "unat (ucast ts :: u32) = unat ts" using ts by (simp add: unat_ucast_lt)
  have "unat (ucast ts + minutes :: u32) = unat ts + unat minutes"
    using assms(2) ts by (simp add: unat_word_ariths(1) c del: unsigned_ucast_eq)
  then have "unat ((ucast ts + minutes) mod 240 :: u32) = (unat ts + unat minutes) mod 240"
    by (simp add: unat_mod)
  then show ?thesis
    using assms(1) mod_240_lt by (simp add: long_timeout_ticks_def unat_ucast_lt)
qed

lemma minute_steps:
  fixes t k m :: nat
  assumes "k \<le> 15 * m - t mod 15" "1 \<le> k"
  shows "(t + k) div 15 = t div 15 + (t mod 15 + k) div 15" "(t mod 15 + k) div 15 \<le> m"
    "((t mod 15 + k) div 15 = m) = (k = 15 * m - t mod 15)"
proof -
  have "(15 * (t div 15) + (t mod 15 + k)) div 15 = t div 15 + (t mod 15 + k) div 15"
    by (simp only: div_mult_self4)
  then show "(t + k) div 15 = t div 15 + (t mod 15 + k) div 15" by (simp flip: add.assoc)
  have le: "t mod 15 + k \<le> 15 * m" using assms by simp
  then show "(t mod 15 + k) div 15 \<le> m" using div_le_mono [OF le, of 15] by simp
  show "((t mod 15 + k) div 15 = m) = (k = 15 * m - t mod 15)"
  proof
    assume "(t mod 15 + k) div 15 = m"
    then have "15 * m \<le> t mod 15 + k" using times_div_less_eq_dividend [of 15 "t mod 15 + k"] by simp
    with le show "k = 15 * m - t mod 15" by simp
  next
    assume "k = 15 * m - t mod 15"
    with assms have "t mod 15 + k = 15 * m" by simp
    then show "(t mod 15 + k) div 15 = m" by simp
  qed
qed

lemma scene_clock:
  "g_timestamp (groups (scene rs) 5) = 0" "g_long_timestamp (groups (scene rs) 5) = 0"
  "g_global_tick (groups (scene rs) 5) = 0"
  by (simp_all add: scene_def us_internal_socket_group_link_socket_def us_socket_is_closed_def Let_def blank_def
      blank_socket_def zero_group_def us_internal_group_touched_def us_internal_loop_link_group_def zero_loop_def)

lemma scene_long: "s_long_timeout (sockets (scene rs) 7) = 255"
  by (simp add: scene_def us_internal_socket_group_link_socket_def us_socket_is_closed_def Let_def blank_def
      blank_socket_def zero_group_def us_internal_group_touched_def us_internal_loop_link_group_def zero_loop_def)

theorem timeout_due_sweep_witness:
  "g_timestamp ((tick_group ^^ 3) (groups (scene []) 5)) = s_timeout (sockets (us_socket_timeout 7 10 (scene [])) 7)
   \<and> g_timestamp ((tick_group ^^ 2) (groups (scene []) 5)) \<noteq> s_timeout (sockets (us_socket_timeout 7 10 (scene [])) 7)"
  using timeout_due_sweep [OF scene_facts(3), of "[]" 10 3] timeout_due_sweep [OF scene_facts(3), of "[]" 10 2]
  by (simp add: scene_clock del: funpow.simps)

text \<open>
  A long timeout of \<open>minutes\<close>, at most 239, is due when the group's minute clock (one step every
  fifteen sweeps) has advanced by \<open>minutes\<close>, and not at any sweep before: after at most \<open>15 * minutes\<close>
  sweeps, and at most one minute early.
\<close>

theorem long_timeout_due_sweep:
  assumes "s_group (sockets w s) = Some grp"
    "g_long_timestamp (groups w grp) = ucast ((g_global_tick (groups w grp) div 15) mod 240)"
    "unat (g_global_tick (groups w grp)) + 3600 < 2 ^ 32"
    "1 \<le> unat minutes" "unat minutes \<le> 239" "1 \<le> k"
    "k \<le> 15 * unat minutes - unat (g_global_tick (groups w grp)) mod 15"
  shows "(g_long_timestamp ((tick_group ^^ k) (groups w grp))
      = s_long_timeout (sockets (us_socket_long_timeout s minutes w) s))
    = (k = 15 * unat minutes - unat (g_global_tick (groups w grp)) mod 15)"
proof -
  let ?g = "groups w grp"
  let ?t = "unat (g_global_tick ?g)"
  let ?n = "(?t mod 15 + k) div 15"
  have nz: "minutes \<noteq> 0" using assms(4) by auto
  have ts: "unat (g_long_timestamp ?g) = (?t div 15) mod 240"
    unfolding assms(2) using mod_240_lt by (simp add: unat_ucast_lt unat_mod unat_div)
  have s: "unat (s_long_timeout (sockets (us_socket_long_timeout s minutes w) s))
      = ((?t div 15) mod 240 + unat minutes) mod 240"
    using long_ticks_nat [OF nz, of "g_long_timestamp ?g"] assms(5)
    by (simp add: us_socket_long_timeout_def assms(1) ts)
  note n = minute_steps [OF assms(7,6)]
  have k: "unat (g_long_timestamp ((tick_group ^^ k) ?g)) = (?t div 15 + ?n) mod 240"
    using tick_clock(2) [of k ?g] assms n(1) by simp
  have meets: "((?t div 15 + ?n) mod 240 = ((?t div 15) mod 240 + unat minutes) mod 240) = (?n = unat minutes)"
  proof (cases "?n = 0")
    case True
    have "(?t div 15) mod 240 \<noteq> (?t div 15 mod 240 + unat minutes) mod 240"
      using clock_meets [of 240 "unat minutes" "?t div 15"] assms(4,5) by simp
    moreover have "unat minutes \<noteq> 0" using assms(4) by simp
    ultimately show ?thesis unfolding True by simp
  next
    case False
    have "1 \<le> ?n" "?n \<le> 240" "unat minutes \<le> 240" using False n(2) assms(5) by simp_all
    then show ?thesis using assms(4) by (intro clock_meets)
  qed
  show ?thesis unfolding word_unat_eq_iff s k meets by (rule n(3))
qed

theorem long_timeout_due_sweep_witness:
  "g_long_timestamp ((tick_group ^^ 30) (groups (scene []) 5))
     = s_long_timeout (sockets (us_socket_long_timeout 7 2 (scene [])) 7)
   \<and> g_long_timestamp ((tick_group ^^ 16) (groups (scene []) 5))
     \<noteq> s_long_timeout (sockets (us_socket_long_timeout 7 2 (scene [])) 7)"
  using long_timeout_due_sweep [OF scene_facts(3), of "[]" 2 30] long_timeout_due_sweep [OF scene_facts(3), of "[]" 2 16]
  by (simp add: scene_clock)

subsection \<open>One sweep, on a concrete loop\<close>

theorem sweep_emits_witness:
  "\<exists>w'. us_internal_timer_sweep (client (\<lambda>_ _. (None, [])) 0) (us_socket_timeout 7 3 (scene [])) = Some w'
    \<and> trace (kern w') = Dispatch (Ev_timeout 7) # trace (kern (scene [])) \<and> s_timeout (sockets w' 7) = 255"
proof -
  let ?w = "us_socket_timeout 7 3 (scene [])" and ?A = "a_link 5 7 a_blank"
  have wf: "wf_world ?A ?w"
    using quiet_wf [OF quiet_options(4) [OF quiet_refl]] scene_wf by blast
  have "idle (client (\<lambda>_ _. (None, [])) 0)" by (simp add: idle_def)
  from sweep_emits [OF wf this] obtain w' where
    w': "us_internal_timer_sweep (client (\<lambda>_ _. (None, [])) 0) ?w = Some w'"
    "trace (kern w') = map Dispatch (rev (sweep_events ?w ?A)) @ trace (kern ?w)"
    "\<And>x s. x \<in> set (a_groups ?A) \<Longrightarrow> s \<in> set (a_socks ?A x) \<Longrightarrow>
            sockets w' s = expire (short_clock (groups ?w x)) (long_clock (groups ?w x)) (sockets ?w s)"
    by blast
  have c: "groups ?w = groups (scene [])" "s_timeout (sockets ?w 7) = 1" "s_long_timeout (sockets ?w 7) = 255"
    "short_clock (groups (scene []) 5) = 1" "long_clock (groups (scene []) 5) = 0" "kern ?w = kern (scene [])"
    by (simp_all add: us_socket_timeout_def scene_facts scene_clock timeout_ticks_def short_clock_def long_clock_def
        scene_long)
  have "sweep_events ?w ?A = [Ev_timeout 7]"
    by (simp add: sweep_events_def group_events_def a_link_def a_blank_def add_group_def fired_def c)
  moreover have "s_timeout (sockets w' 7) = 255"
    using w'(3) [of 5 7] by (simp add: a_link_def a_blank_def add_group_def expire_def c)
  ultimately show ?thesis using w'(1,2) c(6) by (intro exI [of _ w']) simp
qed

end
