(* ===== verification/Us_Ready.thy ===== *)
theory Us_Ready imports
  Us_Closing
begin

section \<open>Properties of polls and of the ready list\<close>

subsection \<open>Kind and interest share one field\<close>

definition interests :: "u32 set" where
  "interests = {0, LIBUS_SOCKET_READABLE, LIBUS_SOCKET_WRITABLE, LIBUS_SOCKET_READABLE OR LIBUS_SOCKET_WRITABLE}"

lemmas interest_defs = interests_def EPOLLIN_def EPOLLOUT_def

lemma mask_kind: "((t :: 5 word) AND 7) AND 7 = t AND 7" "((t :: 5 word) AND 7) AND 16 = 0" "((t :: 5 word) AND 7) AND 8 = 0"
  by (simp_all add: and.assoc)

lemma interest_roundtrip:
  assumes "ev \<in> interests"
  shows "events_of_type ((t AND POLL_TYPE_KIND_MASK) OR interest_bits ev) = ev"
    "((t AND POLL_TYPE_KIND_MASK) OR interest_bits ev) AND POLL_TYPE_KIND_MASK = t AND POLL_TYPE_KIND_MASK"
  using assms
  by (auto simp: interest_defs events_of_type_def interest_bits_def poll_type_defs bit.conj_disj_distrib2 mask_kind)

lemma replace_ready_self: "replace_ready n p p xs = xs"
proof (induction xs arbitrary: n)
  case (Cons x xs)
  then show ?case by (cases n; cases x) simp_all
qed (cases n; simp)

lemma update_pending_self: "us_internal_loop_update_pending_ready_polls p p w = w"
proof -
  have "take i rp @ take len (drop i rp) @ drop (i + len) rp = rp" for i len and rp :: "(u32 \<times> pollref) list"
    by (metis append_take_drop_id drop_drop add.commute)
  then show ?thesis
    by (simp add: us_internal_loop_update_pending_ready_polls_def replace_ready_self Let_def upd_loop_def)
qed

lemma interests_in [simp]:
  "0 \<in> interests" "LIBUS_SOCKET_READABLE \<in> interests" "LIBUS_SOCKET_WRITABLE \<in> interests"
  "LIBUS_SOCKET_READABLE OR LIBUS_SOCKET_WRITABLE \<in> interests"
  by (simp_all add: interests_def)

lemma poll_change_effect:
  "us_poll_change p ev w = (if us_poll_events p w = ev then w
     else snd (epoll_ctl EPOLL_CTL_MOD (us_poll_fd p w) (epoll_mask ev) (Poll p)
       (upd_p p (p_poll_type_update (\<lambda>_. us_internal_poll_type p w OR interest_bits ev)) w)))"
  by (simp add: us_poll_change_def update_pending_self case_prod_beta Let_def us_poll_fd_def)

lemma poll_change_events:
  assumes "ev \<in> interests"
  shows "us_poll_events p (us_poll_change p ev w) = ev"
    "us_internal_poll_type p (us_poll_change p ev w) = us_internal_poll_type p w"
    "us_poll_fd p (us_poll_change p ev w) = us_poll_fd p w"
    "q \<noteq> p \<Longrightarrow> polls (us_poll_change p ev w) q = polls w q"
    "loop (us_poll_change p ev w) = loop w"
  using interest_roundtrip [OF assms]
  by (auto simp: poll_change_effect us_poll_events_def us_internal_poll_type_def us_poll_fd_def)

text \<open>
  C14: Changing what a poll waits for makes the library and the kernel agree: when the interest really
  changes there is one \<open>EPOLL_CTL_MOD\<close> (repeated while it is interrupted) for the poll's descriptor
  with exactly the new interest, to which end of file and errors are added when the interest is empty; when
  it does not change there is no system call. The kind and the descriptor of the poll stay, every other poll
  and the pending events stay.
\<close>

theorem poll_change_registers:
  assumes "ev \<in> interests"
  shows "us_poll_events p (us_poll_change p ev w) = ev
    \<and> us_internal_poll_type p (us_poll_change p ev w) = us_internal_poll_type p w
    \<and> us_poll_fd p (us_poll_change p ev w) = us_poll_fd p w
    \<and> (\<forall>q. q \<noteq> p \<longrightarrow> polls (us_poll_change p ev w) q = polls w q)
    \<and> loop (us_poll_change p ev w) = loop w
    \<and> (if us_poll_events p w = ev then us_poll_change p ev w = w
       else \<exists>n. trace (kern (us_poll_change p ev w)) = replicate (Suc n)
           (Sys (Sys_epoll_ctl (lp_fd (loop w)) EPOLL_CTL_MOD (us_poll_fd p w)
              (if ev = 0 then EPOLLRDHUP OR EPOLLHUP OR EPOLLERR else ev) (Poll p))) @ trace (kern w))"
proof (cases "us_poll_events p w = ev")
  case True
  then show ?thesis by (simp add: us_poll_change_def)
next
  case False
  let ?c = "Sys_epoll_ctl (lp_fd (loop w)) EPOLL_CTL_MOD (us_poll_fd p w) (epoll_mask ev) (Poll p)"
  have m: "epoll_mask ev = (if ev = 0 then EPOLLRDHUP OR EPOLLHUP OR EPOLLERR else ev)"
    using assms by (auto simp: interest_defs epoll_mask_def)
  obtain n where "trace (snd (sys_retry ?c (kern w))) = replicate (Suc n) (Sys ?c) @ trace (kern w)"
    using trace_retry by blast
  then have "trace (kern (us_poll_change p ev w)) = replicate (Suc n) (Sys ?c) @ trace (kern w)"
    using False by (simp add: poll_change_effect epoll_ctl_def case_prod_beta Let_def)
  then show ?thesis
    using False m poll_change_events [OF assms, where p = p and w = w] by auto
qed

theorem poll_change_registers_witness:
  "us_poll_events 7 (us_poll_change 7 LIBUS_SOCKET_WRITABLE (scene [])) = LIBUS_SOCKET_WRITABLE
   \<and> us_internal_poll_type 7 (us_poll_change 7 LIBUS_SOCKET_WRITABLE (scene [])) = POLL_TYPE_SOCKET"
proof -
  have "LIBUS_SOCKET_WRITABLE \<in> interests" by (simp add: interests_def)
  moreover have "us_internal_poll_type 7 (scene []) = POLL_TYPE_SOCKET"
    by (simp add: us_internal_poll_type_def scene_facts poll_type_defs)
  ultimately show ?thesis using poll_change_registers [of LIBUS_SOCKET_WRITABLE 7 "scene []"] by presburger
qed

subsection \<open>A poll that stops\<close>

lemma length_replace_ready: "length (replace_ready n old new xs) = length xs"
  by (induction n old new xs rule: replace_ready.induct) auto

lemma replace_ready_one:
  assumes "\<forall>i j. i < length xs \<and> j < length xs \<and> snd (xs ! i) = old \<and> snd (xs ! j) = old \<longrightarrow> i = j" "k < length xs"
  shows "replace_ready 1 old new xs ! k = (if snd (xs ! k) = old then (fst (xs ! k), new) else xs ! k)"
  using assms
proof (induction xs arbitrary: k)
  case (Cons x xs)
  obtain e p where x: "x = (e, p)" by (cases x)
  have zero: "replace_ready 0 old new xs = xs" by (cases xs) simp_all
  show ?case
  proof (cases "p = old")
    case True
    have "snd (xs ! j) \<noteq> old" if "j < length xs" for j
      using Cons.prems(1) [rule_format, of 0 "Suc j"] that True x by auto
    with True x zero Cons.prems(2) show ?thesis by (cases k) auto
  next
    case False
    have "i = j" if "i < length xs" "j < length xs" "snd (xs ! i) = old" "snd (xs ! j) = old" for i j
      using Cons.prems(1) [rule_format, of "Suc i" "Suc j"] that by simp
    with Cons.IH Cons.prems(2) False x show ?thesis by (cases k) auto
  qed
qed simp



subsection \<open>The kqueue back end\<close>

text \<open>
  C15: The first pass over the events of a wait leaves one entry to dispatch per poll, the first one, which holds
  the union of the flags of all the poll's events; every other entry, and the entries without a poll of the
  library, are skipped.
\<close>

theorem coalesce_once_per_poll:
  "length (coalesce es) = length es \<and> (\<forall>i < length es. coalesce es ! i =
     (case ke_poll (es ! i) of
        Poll p \<Rightarrow> if \<exists>j<i. ke_poll (es ! j) = Poll p then kf_none
          else \<lparr> kf_readable = (\<exists>e\<in>set es. ke_poll e = Poll p \<and> kf_readable (decode_kevent e)),
                 kf_writable = (\<exists>e\<in>set es. ke_poll e = Poll p \<and> kf_writable (decode_kevent e)),
                 kf_error = (\<exists>e\<in>set es. ke_poll e = Poll p \<and> ke_error e),
                 kf_eof = (\<exists>e\<in>set es. ke_poll e = Poll p \<and> ke_eof e), kf_skip = False \<rparr>
      | _ \<Rightarrow> kf_none))"
  by (auto simp: coalesce_exact coalesced_at_def or_flags_def list_ex_iff Let_def split: pollref.split)

theorem coalesce_once_per_poll_witness:
  "coalesce [\<lparr> ke_poll = Poll 7, ke_filter = EVFILT_READ, ke_error = False, ke_eof = False \<rparr>,
     \<lparr> ke_poll = Poll 7, ke_filter = EVFILT_WRITE, ke_error = False, ke_eof = True \<rparr>] ! 0 =
   \<lparr> kf_readable = True, kf_writable = True, kf_error = False, kf_eof = True, kf_skip = False \<rparr>"
  using coalesce_once_per_poll [of "[\<lparr> ke_poll = Poll 7, ke_filter = EVFILT_READ, ke_error = False, ke_eof = False \<rparr>,
     \<lparr> ke_poll = Poll 7, ke_filter = EVFILT_WRITE, ke_error = False, ke_eof = True \<rparr>]"]
  by (simp add: decode_kevent_def)

end
