(* ===== verification/Us_Output.thy ===== *)
theory Us_Output imports
  Us_Ready
begin

section \<open>Properties of writing, shutting down and pausing\<close>

lemma poll_frame_kern [simp]:
  "us_poll_events p (upd_kern f w) = us_poll_events p w" "us_poll_events p (upd_s a g w) = us_poll_events p w"
  "us_internal_poll_type p (upd_kern f w) = us_internal_poll_type p w"
  "us_internal_poll_type p (upd_s a g w) = us_internal_poll_type p w"
  by (simp_all add: us_poll_events_def us_internal_poll_type_def)

subsection \<open>A short write\<close>

text \<open>
  C16: Writing to an open plain socket hands the bytes to the kernel once. When all of them are taken nothing
  else changes; when fewer are taken, or the call fails, the socket remembers that its last write failed and
  waits for both directions, so the application is told when it can go on. The result is the number of bytes
  taken, never negative.
\<close>

theorem write_short_arms_writable:
  assumes "s_ssl (sockets w s) = None" "\<not> s_is_closed (sockets w s)"
    "us_internal_poll_type s w \<noteq> POLL_TYPE_SOCKET_SHUT_DOWN"
    "bsd_send (us_poll_fd s w) data (kern w) = (r, k)"
  shows "fst (us_socket_write s data w) = max 0 r
    \<and> (if r = int (length data) then snd (us_socket_write s data w) = upd_kern (\<lambda>_. k) w
       else s_last_write_failed (sockets (snd (us_socket_write s data w)) s)
         \<and> us_poll_events s (snd (us_socket_write s data w)) = LIBUS_SOCKET_READABLE OR LIBUS_SOCKET_WRITABLE
         \<and> us_internal_poll_type s (snd (us_socket_write s data w)) = us_internal_poll_type s w)"
proof -
  define v where "v = upd_kern (\<lambda>_. k) w"
  have l: "lift_k (bsd_send (us_poll_fd s w) data) w = (r, v)"
    by (simp add: lift_k_def assms(4) v_def)
  have "us_socket_write s data w = (if r < 0 then 0 else r,
      if r \<noteq> int (length data) then us_poll_change s (LIBUS_SOCKET_READABLE OR LIBUS_SOCKET_WRITABLE)
        (upd_s s (s_last_write_failed_update (\<lambda>_. True)) v) else v)"
    using assms(1-3) by (simp add: us_socket_write_def us_socket_is_closed_def us_socket_is_shut_down_def l)
  then show ?thesis by (simp add: poll_change_events v_def)
qed

lemma sys_retry_default: "replies k = [] \<Longrightarrow> fst (sys_retry c k) = default_reply"
  by (subst sys_retry.simps) (simp add: sys_def pop_reply_def default_reply_def errno_defs Let_def)

lemma scene_replies: "replies (kern (scene [])) = []"
  using budget_link_socket [of 5 7 "upd_s 7 (s_group_update (\<lambda>_. Some 5)) (blank [])"]
  by (simp add: scene_def budget_def blank_def)

lemma scene_plain:
  "us_internal_poll_type 7 (scene rs) = POLL_TYPE_SOCKET" "us_poll_events 7 (scene rs) = LIBUS_SOCKET_READABLE"
  by (simp_all add: us_internal_poll_type_def us_poll_events_def scene_facts poll_type_defs events_of_type_def)

lemma send_default: "replies k = [] \<Longrightarrow> bsd_send fd data k = (-1, snd (bsd_send fd data k))"
  using sys_retry_default [of k "Sys_send fd data"]
  by (simp add: bsd_send_def case_prod_beta) (simp add: default_reply_def)

theorem write_short_arms_writable_witness:
  "s_last_write_failed (sockets (snd (us_socket_write 7 [1, 2] (scene []))) 7)
   \<and> us_poll_events 7 (snd (us_socket_write 7 [1, 2] (scene []))) = LIBUS_SOCKET_READABLE OR LIBUS_SOCKET_WRITABLE"
  using write_short_arms_writable [OF scene_facts(2,1) _ send_default [OF scene_replies], of "[1, 2]"]
  by (simp add: scene_plain poll_type_defs)

subsection \<open>Writing from \<open>on_writable\<close>\<close>

lemma interest_and [simp]:
  "LIBUS_SOCKET_READABLE AND LIBUS_SOCKET_READABLE = LIBUS_SOCKET_READABLE"
  "(LIBUS_SOCKET_READABLE OR LIBUS_SOCKET_WRITABLE) AND LIBUS_SOCKET_READABLE = LIBUS_SOCKET_READABLE"
  "ev AND LIBUS_SOCKET_READABLE \<in> interests" "ev AND LIBUS_SOCKET_WRITABLE \<in> interests"
  by (simp_all add: and_readable and_writable) (simp_all add: interest_defs)

lemma writable_step:
  assumes "s_ssl (sockets w s) = None"
    "dispatch h (Ev_writable s) (upd_s s (s_last_write_failed_update (\<lambda>_. False)) w) = (Some s, v)"
    "\<not> s_is_closed (sockets v s)" "\<not> s_adopted (sockets v s)" "s_ssl (sockets v s) = None"
  shows "socket_writable h s w = Some (Some s,
    if s_last_write_failed (sockets v s) \<and> us_internal_poll_type s v \<noteq> POLL_TYPE_SOCKET_SHUT_DOWN then v
    else us_poll_change s (us_poll_events s v AND LIBUS_SOCKET_READABLE) v)"
  using assms by (simp add: socket_writable_def follow_adopted_def closed_ptr_def us_socket_is_closed_def
      us_socket_is_shut_down_def Let_def)

text \<open>
  C17: An application that writes from \<open>on_writable\<close> is called again as long as its data does not fit: after
  the event, a socket whose write was cut short still waits for writability, and one whose write was complete no
  longer does.
\<close>

theorem writable_retry:
  assumes "s_ssl (sockets w s) = None" "\<not> s_is_closed (sockets w s)" "\<not> s_adopted (sockets w s)"
    "us_internal_poll_type s w \<noteq> POLL_TYPE_SOCKET_SHUT_DOWN"
    "bsd_send (us_poll_fd s w) data (kern (log_event (Ev_writable s) w)) = (r, k)"
  shows "\<exists>u. socket_writable (\<lambda>e v. (Some s, snd (us_socket_write s data v))) s w = Some (Some s, u)
    \<and> us_poll_events s u = (if r = int (length data) then us_poll_events s w AND LIBUS_SOCKET_READABLE
                             else LIBUS_SOCKET_READABLE OR LIBUS_SOCKET_WRITABLE)"
proof -
  let ?h = "\<lambda>e v. (Some s, snd (us_socket_write s data v))"
  let ?w = "log_event (Ev_writable s) (upd_s s (s_last_write_failed_update (\<lambda>_. False)) w)"
  define v where "v = snd (us_socket_write s data ?w)"
  have k: "kern ?w = kern (log_event (Ev_writable s) w)" by (simp add: log_event_def)
  have fr: "us_poll_fd s ?w = us_poll_fd s w" "us_internal_poll_type s ?w = us_internal_poll_type s w"
    "us_poll_events s ?w = us_poll_events s w"
    by (simp_all add: us_poll_fd_def us_internal_poll_type_def us_poll_events_def log_event_def)
  have v: "v = (if r \<noteq> int (length data) then us_poll_change s (LIBUS_SOCKET_READABLE OR LIBUS_SOCKET_WRITABLE)
        (upd_s s (s_last_write_failed_update (\<lambda>_. True)) (upd_kern (\<lambda>_. k) ?w)) else upd_kern (\<lambda>_. k) ?w)"
    using assms by (simp add: v_def us_socket_write_def us_socket_is_closed_def us_socket_is_shut_down_def
        lift_k_def fr k)
  have d: "dispatch ?h (Ev_writable s) (upd_s s (s_last_write_failed_update (\<lambda>_. False)) w) = (Some s, v)"
    by (simp add: dispatch_def v_def)
  have f: "\<not> s_is_closed (sockets v s)" "\<not> s_adopted (sockets v s)" "s_ssl (sockets v s) = None"
    "s_last_write_failed (sockets v s) = (r \<noteq> int (length data))"
    "us_internal_poll_type s v \<noteq> POLL_TYPE_SOCKET_SHUT_DOWN"
    using assms(1-4) by (auto simp: v poll_change_events fr)
  show ?thesis
    using writable_step [OF assms(1) d f(1-3)] f(4,5) by (simp add: poll_change_events v fr)
qed

lemma replies_log_event [simp]: "replies (kern (log_event e w)) = replies (kern w)"
  by (simp add: log_event_def)

lemma scene_adopted: "\<not> s_adopted (sockets (scene rs) 7)"
  by (simp add: scene_def us_internal_socket_group_link_socket_def us_socket_is_closed_def Let_def blank_def
      blank_socket_def zero_group_def us_internal_group_touched_def us_internal_loop_link_group_def zero_loop_def)

lemma scene_open_type: "us_internal_poll_type 7 (scene rs) \<noteq> POLL_TYPE_SOCKET_SHUT_DOWN"
  by (simp add: scene_plain poll_type_defs)

theorem writable_retry_witness:
  "\<exists>u. socket_writable (\<lambda>e v. (Some 7, snd (us_socket_write 7 [1, 2] v))) 7 (scene []) = Some (Some 7, u)
    \<and> us_poll_events 7 u = LIBUS_SOCKET_READABLE OR LIBUS_SOCKET_WRITABLE"
  using writable_retry [OF scene_facts(2,1) scene_adopted scene_open_type send_default, of "[]" "[1, 2]"]
  by (simp add: scene_replies)

text \<open>
  C18: \<open>us_socket_write2\<close> does not record that its write was cut short, so a socket whose application
  writes with it from \<open>on_writable\<close> stops waiting for writability right after the short write: the rest of the
  data is not asked for again.
\<close>

theorem write2_from_writable_stalls:
  assumes "s_ssl (sockets w s) = None" "\<not> s_is_closed (sockets w s)" "\<not> s_adopted (sockets w s)"
    "us_internal_poll_type s w \<noteq> POLL_TYPE_SOCKET_SHUT_DOWN"
    "bsd_write2 (us_poll_fd s w) header payload (kern (log_event (Ev_writable s) w)) = (r, k)"
    "r \<noteq> int (length header) + int (length payload)"
  shows "\<exists>u. socket_writable (\<lambda>e v. (Some s, snd (us_socket_write2 s header payload v))) s w = Some (Some s, u)
    \<and> us_poll_events s u = LIBUS_SOCKET_READABLE"
proof -
  let ?h = "\<lambda>e v. (Some s, snd (us_socket_write2 s header payload v))"
  let ?w = "log_event (Ev_writable s) (upd_s s (s_last_write_failed_update (\<lambda>_. False)) w)"
  define v where "v = snd (us_socket_write2 s header payload ?w)"
  have k: "kern ?w = kern (log_event (Ev_writable s) w)" by (simp add: log_event_def)
  have fr: "us_poll_fd s ?w = us_poll_fd s w" "us_internal_poll_type s ?w = us_internal_poll_type s w"
    by (simp_all add: us_poll_fd_def us_internal_poll_type_def log_event_def)
  have v: "v = us_poll_change s (LIBUS_SOCKET_READABLE OR LIBUS_SOCKET_WRITABLE) (upd_kern (\<lambda>_. k) ?w)"
    using assms by (simp add: v_def us_socket_write2_def us_socket_is_closed_def us_socket_is_shut_down_def
        lift_k_def fr k)
  have d: "dispatch ?h (Ev_writable s) (upd_s s (s_last_write_failed_update (\<lambda>_. False)) w) = (Some s, v)"
    by (simp add: dispatch_def v_def)
  have f: "\<not> s_is_closed (sockets v s)" "\<not> s_adopted (sockets v s)" "s_ssl (sockets v s) = None"
    "\<not> s_last_write_failed (sockets v s)"
    using assms(1-4) by (auto simp: v)
  show ?thesis
    using writable_step [OF assms(1) d f(1-3)] f(4) by (simp add: poll_change_events v)
qed

theorem write2_from_writable_stalls_witness:
  "\<exists>u. socket_writable (\<lambda>e v. (Some 7, snd (us_socket_write2 7 [1] [2] v))) 7 (scene []) = Some (Some 7, u)
    \<and> us_poll_events 7 u = LIBUS_SOCKET_READABLE"
proof -
  have "bsd_write2 fd [1] [2] k = (-1, snd (bsd_write2 fd [1] [2] k))" if "replies k = []" for fd k
    using sys_retry_default [OF that, of "Sys_writev fd [1] [2]"]
    by (simp add: bsd_write2_def case_prod_beta) (simp add: default_reply_def)
  from write2_from_writable_stalls [OF scene_facts(2,1) scene_adopted scene_open_type this, of "[]"]
  show ?thesis by (simp add: scene_replies)
qed

subsection \<open>Shutting down\<close>

lemma set_type_effect:
  "us_internal_poll_type p (us_internal_poll_set_type p POLL_TYPE_SOCKET_SHUT_DOWN w) = POLL_TYPE_SOCKET_SHUT_DOWN"
  "us_poll_events p (us_internal_poll_set_type p POLL_TYPE_SOCKET_SHUT_DOWN w) = us_poll_events p w"
  "us_poll_fd p (us_internal_poll_set_type p POLL_TYPE_SOCKET_SHUT_DOWN w) = us_poll_fd p w"
  "sockets (us_internal_poll_set_type p ty w) = sockets w"
  "kern (us_internal_poll_set_type p ty w) = kern w"
  by (simp_all add: us_internal_poll_type_def us_internal_poll_set_type_def us_poll_events_def us_poll_fd_def
      events_of_type_def poll_type_defs bit.conj_disj_distrib2 and.assoc)

text \<open>
  Shutting down the sending side of an open socket turns its poll into one that is shut down, drops the
  interest in writability and keeps the one in readability, and calls \<open>shutdown\<close> last. It happens once: shutting
  down again does nothing, and a plain socket then writes nothing.
\<close>

lemma shutdown_once:
  assumes "\<not> s_is_closed (sockets w s)" "us_internal_poll_type s w \<noteq> POLL_TYPE_SOCKET_SHUT_DOWN"
  shows "us_internal_poll_type s (us_internal_socket_raw_shutdown s w) = POLL_TYPE_SOCKET_SHUT_DOWN
    \<and> us_poll_events s (us_internal_socket_raw_shutdown s w) = us_poll_events s w AND LIBUS_SOCKET_READABLE
    \<and> hd (trace (kern (us_internal_socket_raw_shutdown s w))) = Sys (Sys_shutdown_wr (us_poll_fd s w))
    \<and> us_internal_socket_raw_shutdown s (us_internal_socket_raw_shutdown s w) = us_internal_socket_raw_shutdown s w
    \<and> (s_ssl (sockets w s) = None \<longrightarrow> us_socket_write s data (us_internal_socket_raw_shutdown s w)
         = (0, us_internal_socket_raw_shutdown s w))"
proof -
  define v where "v = us_poll_change s (us_poll_events s w AND LIBUS_SOCKET_READABLE)
      (us_internal_poll_set_type s POLL_TYPE_SOCKET_SHUT_DOWN w)"
  define u where "u = us_internal_socket_raw_shutdown s w"
  have u: "u = snd (lift_k (\<lambda>k. ((), bsd_shutdown_socket (us_poll_fd s w) k)) v)"
    using assms by (simp add: u_def us_internal_socket_raw_shutdown_def us_socket_is_closed_def Let_def
        set_type_effect v_def poll_change_events)
  have p: "polls u = polls v" "sockets u = sockets w" by (simp_all add: u v_def set_type_effect)
  have ty: "us_internal_poll_type s u = POLL_TYPE_SOCKET_SHUT_DOWN"
    "us_poll_events s u = us_poll_events s w AND LIBUS_SOCKET_READABLE"
    using poll_change_events(1,2) [where ev = "us_poll_events s w AND LIBUS_SOCKET_READABLE" and p = s
        and w = "us_internal_poll_set_type s POLL_TYPE_SOCKET_SHUT_DOWN w"]
    by (simp_all add: v_def [symmetric] us_internal_poll_type_def us_poll_events_def p)
      (simp_all add: v_def set_type_effect flip: us_internal_poll_type_def us_poll_events_def)
  have "hd (trace (kern u)) = Sys (Sys_shutdown_wr (us_poll_fd s w))"
    by (simp add: u bsd_shutdown_socket_def sys_do_def)
  moreover have "us_internal_socket_raw_shutdown s u = u"
    by (simp add: us_internal_socket_raw_shutdown_def ty)
  moreover have "us_socket_write s data u = (0, u)" if "s_ssl (sockets w s) = None"
    using that ty by (simp add: us_socket_write_def p us_socket_is_shut_down_def)
  ultimately show ?thesis using ty by (simp flip: u_def)
qed

subsection \<open>Pausing\<close>

text \<open>
  A paused socket waits for writability only, and pausing it again does nothing; resuming it waits for both
  directions again, or only for readability when its sending side was shut down meanwhile. Resuming a socket
  that is not paused does nothing.
\<close>

theorem pause_resume:
  assumes "\<not> s_is_closed (sockets w s)" "\<not> s_is_paused (sockets w s)" "s_ssl (sockets w s) = None"
  shows "us_poll_events s (us_socket_pause s w) = LIBUS_SOCKET_WRITABLE
    \<and> us_socket_pause s (us_socket_pause s w) = us_socket_pause s w
    \<and> us_poll_events s (us_socket_resume s (us_socket_pause s w)) =
        (if us_internal_poll_type s w = POLL_TYPE_SOCKET_SHUT_DOWN then LIBUS_SOCKET_READABLE
         else LIBUS_SOCKET_READABLE OR LIBUS_SOCKET_WRITABLE)
    \<and> \<not> s_is_paused (sockets (us_socket_resume s (us_socket_pause s w)) s)
    \<and> us_socket_resume s w = w"
  using assms
  by (simp add: us_socket_pause_def us_socket_resume_def us_socket_is_closed_def us_socket_is_shut_down_def
      poll_change_events Let_def)

theorem pause_resume_witness:
  "us_poll_events 7 (us_socket_resume 7 (us_socket_pause 7 (scene []))) = LIBUS_SOCKET_READABLE OR LIBUS_SOCKET_WRITABLE"
proof -
  have "\<not> s_is_paused (sockets (scene []) 7)"
    by (simp add: scene_def us_internal_socket_group_link_socket_def us_socket_is_closed_def Let_def blank_def
        blank_socket_def zero_group_def us_internal_group_touched_def us_internal_loop_link_group_def zero_loop_def)
  with pause_resume [OF scene_facts(1) this scene_facts(2)] show ?thesis by (simp add: scene_plain poll_type_defs)
qed

end
