(* ===== verification/Us_Parking.thy ===== *)
theory Us_Parking imports
  Us_Output
begin

section \<open>Properties of the queue of parked sockets\<close>

subsection \<open>Steps that commute with an update of a socket\<close>

lemma upd_s_poll:
  "us_poll_events p (upd_s s f w) = us_poll_events p w" "us_poll_fd p (upd_s s f w) = us_poll_fd p w"
  "us_internal_poll_type p (upd_s s f w) = us_internal_poll_type p w"
  by (simp_all add: us_poll_events_def us_poll_fd_def us_internal_poll_type_def)

lemma upd_s_epoll_ctl: "epoll_ctl opr fd ev p (upd_s s f w) = apsnd (upd_s s f) (epoll_ctl opr fd ev p w)"
  by (simp add: epoll_ctl_def lift_k_def case_prod_beta Let_def upd_s_def upd_kern_def)

lemma upd_s_upd_p: "upd_p p g (upd_s s f w) = upd_s s f (upd_p p g w)"
  by (simp add: upd_s_def upd_p_def)

lemma upd_s_upd_g: "upd_g p g (upd_s s f w) = upd_s s f (upd_g p g w)"
  by (simp add: upd_s_def upd_g_def)

lemma upd_s_upd_cb: "upd_cb p g (upd_s s f w) = upd_s s f (upd_cb p g w)"
  by (simp add: upd_s_def upd_cb_def)

lemma upd_s_upd_loop: "upd_loop g (upd_s s f w) = upd_s s f (upd_loop g w)"
  by (simp add: upd_s_def upd_loop_def)

lemma upd_s_lift: "snd (lift_k g (upd_s s f w)) = upd_s s f (snd (lift_k g w))"
  by (simp add: lift_k_def case_prod_beta Let_def upd_s_def upd_kern_def)

lemma upd_s_ext: "ext_call c (upd_s s f w) = upd_s s f (ext_call c w)"
  by (simp add: ext_call_def upd_s_def upd_kern_def)

lemmas upd_s_moves = upd_s_ext upd_s_poll upd_s_epoll_ctl upd_s_upd_p upd_s_upd_g upd_s_upd_cb upd_s_upd_loop upd_s_lift

lemma upd_s_pending: "us_internal_loop_update_pending_ready_polls a b (upd_s s f w)
    = upd_s s f (us_internal_loop_update_pending_ready_polls a b w)"
  by (simp add: us_internal_loop_update_pending_ready_polls_def Let_def upd_s_upd_loop)

lemma upd_s_poll_change: "us_poll_change p ev (upd_s s f w) = upd_s s f (us_poll_change p ev w)"
  by (simp add: us_poll_change_def upd_s_moves upd_s_pending case_prod_beta Let_def)

lemma upd_s_timer_set: "us_timer_set t cb ms rep (upd_s s f w) = upd_s s f (us_timer_set t cb ms rep w)"
  by (simp add: us_timer_set_def us_poll_start_def us_poll_start_rc_def upd_s_moves case_prod_beta Let_def)

lemma upd_s_enable: "us_internal_enable_sweep_timer (upd_s s f w) = upd_s s f (us_internal_enable_sweep_timer w)"
  by (simp add: us_internal_enable_sweep_timer_def upd_s_timer_set upd_s_moves Let_def)

lemma upd_s_touched: "us_internal_group_touched g (upd_s s f w) = upd_s s f (us_internal_group_touched g w)"
  by (simp add: us_internal_group_touched_def us_internal_loop_link_group_def upd_s_moves Let_def split: option.split)

lemma upd_s_upd_s:
  "(\<And>x. f (k x) = k (f x)) \<Longrightarrow> upd_s a k (upd_s s f w) = upd_s s f (upd_s a k w)"
  by (simp add: upd_s_def fun_upd_twist)

lemma upd_s_link:
  "us_internal_socket_group_link_socket g s (upd_s s (s_low_prio_state_update f) w)
    = upd_s s (s_low_prio_state_update f) (us_internal_socket_group_link_socket g s w)"
  by (simp add: us_internal_socket_group_link_socket_def us_socket_is_closed_def upd_s_upd_s upd_s_moves upd_s_enable upd_s_touched Let_def
      split: option.split)

subsection \<open>Resuming one socket\<close>

lemma events_in [simp]: "us_poll_events p w \<in> interests" "us_poll_events p w OR LIBUS_SOCKET_READABLE \<in> interests"
  "(us_poll_events p w OR LIBUS_SOCKET_READABLE) AND LIBUS_SOCKET_READABLE = LIBUS_SOCKET_READABLE"
  by (auto simp: us_poll_events_def events_of_type_def interest_defs)

lemma parked_head:
  assumes "wf_world A w" "a_low A = s # ls"
  obtains g where "s_group (sockets w s) = Some g" "ld_low_prio_head (loop w) = Some s" "s_prev (sockets w s) = None"
    "\<not> s_is_closed (sockets w s)" "s \<in> set (a_low A)" "remove1 s (a_low A) = ls"
  using assms by (auto simp: wf_world_def wf_low_def)

lemma resume_as_link:
  assumes "wf_world A w" "a_low A = s # ls" "s_group (sockets w s) = Some g"
  shows "low_prio_resume s w = (let v = us_internal_socket_group_link_socket g s (low_prio_out 2 g s w)
    in us_poll_change s (us_poll_events s v OR LIBUS_SOCKET_READABLE) v)"
proof -
  obtain h: "s_prev (sockets w s) = None" "\<not> s_is_closed (sockets w s)"
    using parked_head [OF assms(1,2)] by metis
  define u where "u = upd_g g (g_low_prio_count_update (\<lambda>n. n - 1))
     (upd_s s (\<lambda>x. x\<lparr>s_prev := None, s_next := None\<rparr>) (low_prio_chain s w))"
  have out: "low_prio_out 2 g s w = upd_s s (s_low_prio_state_update (\<lambda>_. 2)) u"
    by (simp add: low_prio_out_def u_def upd_s_def upd_g_def)
  have "dll (snx w) (spv w) (ld_low_prio_head (loop w)) (s # ls)"
    using assms(1,2) by (simp add: wf_world_def wf_low_def)
  then have n: "s_next (sockets w s) \<noteq> Some s" using dll_not_self [of "snx w" "spv w" _ "s # ls" s] by simp
  have p: "upd_s s (\<lambda>x. x\<lparr>s_prev := None, s_next := None\<rparr>) c = upd_s s (s_next_update (\<lambda>_. None)) c"
    if "s_prev (sockets c s) = None" for c
    using that by (cases "sockets c s") (simp add: upd_s_def)
  have c: "s_prev (sockets (low_prio_chain s w) s) = None" "s_group (sockets (low_prio_chain s w) s) = Some g"
    using h n assms(3) by (auto simp: low_prio_chain_def Let_def split: option.split)
  have u: "u = upd_g g (g_low_prio_count_update (\<lambda>n. n - 1))
     (upd_s s (s_next_update (\<lambda>_. None)) (low_prio_chain s w))" by (simp add: u_def p c)
  have "low_prio_resume s w = upd_s s (s_low_prio_state_update (\<lambda>_. 2))
     (let v = us_internal_socket_group_link_socket g s u in us_poll_change s (us_poll_events s v OR LIBUS_SOCKET_READABLE) v)"
    using h n assms(3) unfolding u
    by (cases "s_next (sockets w s)") (auto simp: low_prio_resume_def low_prio_chain_def us_socket_is_closed_def Let_def)
  then show ?thesis by (simp add: out upd_s_link upd_s_poll_change upd_s_poll Let_def)
qed

lemma resume_wf:
  assumes "wf_world A w" "a_low A = s # ls" "s_group (sockets w s) = Some g"
  shows "wf_world (a_link g s (A\<lparr>a_low := ls, a_loose := insert s (a_loose A)\<rparr>)) (low_prio_resume s w)"
proof -
  let ?A = "A\<lparr>a_low := ls, a_loose := insert s (a_loose A)\<rparr>"
  have "wf_but {g} ?A (low_prio_out 2 g s w)"
    using low_prio_out_wf [OF assms(1) _ assms(3), of 2] assms(2) by simp
  moreover have "s_low_prio_state (sockets (low_prio_out 2 g s w) s) \<noteq> 1" by (simp add: low_prio_out_def)
  ultimately have "wf_world (a_link g s ?A) (us_internal_socket_group_link_socket g s (low_prio_out 2 g s w))"
    using link_socket_but [of "{g}" ?A "low_prio_out 2 g s w" s g] by (simp add: wf_but_empty)
  then show ?thesis by (simp add: resume_as_link [OF assms] Let_def)
qed

lemma resume_effect:
  assumes "wf_world A w" "a_low A = s # ls"
  shows "\<exists>g. s_group (sockets w s) = Some g \<and> s_group (sockets (low_prio_resume s w) s) = Some g
    \<and> s_low_prio_state (sockets (low_prio_resume s w) s) = 2
    \<and> us_poll_events s (low_prio_resume s w) AND LIBUS_SOCKET_READABLE = LIBUS_SOCKET_READABLE"
proof -
  obtain g where g: "s_group (sockets w s) = Some g" "\<not> s_is_closed (sockets w s)"
    using parked_head [OF assms] by metis
  then have "us_socket_is_closed s (low_prio_out 2 g s w) = False"
    by (simp add: us_socket_is_closed_def low_prio_out_def)
  with g(1) show ?thesis
    by (simp add: resume_as_link [OF assms g(1)] Let_def poll_change_events link_socket_group low_prio_out_def)
qed

lemma link_socket_poll:
  "ld_sweep_timer (loop w) = Some t \<Longrightarrow> x \<noteq> t \<Longrightarrow> polls (us_internal_socket_group_link_socket g s w) x = polls w x"
  by (auto simp: us_internal_socket_group_link_socket_def us_internal_enable_sweep_timer_def Let_def timer_set_poll
      us_internal_group_touched_def us_internal_loop_link_group_def ext_call_def upd_kern_def split: option.split)

lemma resume_others:
  assumes "wf_world A w" "a_low A = s # ls" "ld_sweep_timer (loop w) = Some t"
  shows "x \<noteq> s \<Longrightarrow> s_low_prio_state (sockets (low_prio_resume s w) x) = s_low_prio_state (sockets w x)"
    "s_group (sockets (low_prio_resume s w) x) = s_group (sockets w x)"
    "x \<noteq> s \<Longrightarrow> x \<noteq> t \<Longrightarrow> polls (low_prio_resume s w) x = polls w x"
    "ld_sweep_timer (loop (low_prio_resume s w)) = Some t"
proof -
  obtain g where g: "s_group (sockets w s) = Some g" "\<not> s_is_closed (sockets w s)"
    using parked_head [OF assms(1,2)] by metis
  note eq = resume_as_link [OF assms(1,2) g(1)]
  have l: "ld_sweep_timer (loop (low_prio_out 2 g s w)) = Some t" using assms(3) by (simp add: low_prio_out_def)
  show "x \<noteq> s \<Longrightarrow> s_low_prio_state (sockets (low_prio_resume s w) x) = s_low_prio_state (sockets w x)"
    by (simp add: eq Let_def low_prio_out_def)
  show "s_group (sockets (low_prio_resume s w) x) = s_group (sockets w x)"
    using g by (auto simp: eq Let_def link_socket_group low_prio_out_def)
  show "x \<noteq> s \<Longrightarrow> x \<noteq> t \<Longrightarrow> polls (low_prio_resume s w) x = polls w x"
    using poll_change_events(4) link_socket_poll [OF l, of x g s]
    by (simp add: eq Let_def) (simp add: low_prio_out_def group_ops_poll)
  show "ld_sweep_timer (loop (low_prio_resume s w)) = Some t"
    using l by (simp add: eq Let_def)
qed

subsection \<open>One iteration\<close>

definition resumed :: "addr \<Rightarrow> world \<Rightarrow> bool" where
  "resumed s w \<longleftrightarrow> s_low_prio_state (sockets w s) = 2
     \<and> us_poll_events s w AND LIBUS_SOCKET_READABLE = LIBUS_SOCKET_READABLE"

lemma resumed_cong: "s_low_prio_state (sockets w' s) = s_low_prio_state (sockets w s) \<Longrightarrow> polls w' s = polls w s \<Longrightarrow>
    resumed s w' = resumed s w"
  by (simp add: resumed_def us_poll_events_def)

lemma low_prio_loop_wf:
  assumes "wf_world A w" "ld_sweep_timer (loop w) = Some t" "t \<notin> set (a_low A)"
  shows "\<exists>A'. wf_world A' (low_prio_loop n w) \<and> a_low A' = drop n (a_low A) \<and> a_loose A' = a_loose A
    \<and> a_limbo A' = a_limbo A \<and> a_closed A' = a_closed A
    \<and> (\<forall>g. set (a_socks A' g) = set (a_socks A g) \<union> {s \<in> set (take n (a_low A)). s_group (sockets w s) = Some g})
    \<and> (\<forall>s \<in> set (take n (a_low A)). resumed s (low_prio_loop n w))
    \<and> (\<forall>x. x \<notin> set (take n (a_low A)) \<and> x \<noteq> t \<longrightarrow> resumed x (low_prio_loop n w) = resumed x w)"
  using assms
proof (induction n arbitrary: A w)
  case (Suc n)
  show ?case
  proof (cases "a_low A")
    case Nil
    then have "ld_low_prio_head (loop w) = None" using Suc.prems(1) by (simp add: wf_world_def wf_low_def)
    with Suc.prems(1) Nil show ?thesis by (intro exI [of _ A]) simp
  next
    case (Cons s ls)
    obtain g where g: "s_group (sockets w s) = Some g" "ld_low_prio_head (loop w) = Some s"
      using parked_head [OF Suc.prems(1) Cons] by metis
    define v where "v = upd_loop (ld_low_prio_budget_update (\<lambda>_. int n)) (low_prio_resume s w)"
    define B where "B = a_link g s (A\<lparr>a_low := ls, a_loose := insert s (a_loose A)\<rparr>)"
    note other = resume_others [OF Suc.prems(1) Cons Suc.prems(2)]
    have step: "low_prio_loop (Suc n) w = low_prio_loop n v" by (simp add: g(2) v_def)
    have wv: "wf_world B v"
      using resume_wf [OF Suc.prems(1) Cons g(1)] by (simp add: v_def B_def wf_upd_loop)
    have "dll (snx w) (spv w) (ld_low_prio_head (loop w)) (s # ls)"
      using Suc.prems(1) Cons by (simp add: wf_world_def wf_low_def)
    then have dist: "distinct (s # ls)" "s \<notin> a_loose A"
      using Suc.prems(1) Cons dll_distinct by (blast, auto simp: wf_world_def wf_loose_def)
    have low: "a_low B = ls" "a_loose B = a_loose A" "a_limbo B = a_limbo A" "a_closed B = a_closed A"
      "a_socks B x = (if x = g then s # a_socks A g else a_socks A x)" for x
      using dist(2) by (auto simp: B_def a_link_def)
    have tm: "ld_sweep_timer (loop v) = Some t" "t \<notin> set (a_low B)"
      using other(4) Suc.prems(3) Cons by (simp_all add: v_def low)
    have grp: "s_group (sockets v x) = s_group (sockets w x)" for x using other(2) by (simp add: v_def)
    have rs: "resumed s v" using resume_effect [OF Suc.prems(1) Cons] by (auto simp: v_def resumed_def us_poll_events_def)
    have ro: "x \<noteq> s \<Longrightarrow> x \<noteq> t \<Longrightarrow> resumed x v = resumed x w" for x
      by (rule resumed_cong) (simp_all add: v_def other)
    obtain A' where A': "wf_world A' (low_prio_loop n v)" "a_low A' = drop n ls" "a_loose A' = a_loose A"
      "a_limbo A' = a_limbo A" "a_closed A' = a_closed A"
      "\<And>x. set (a_socks A' x) = set (a_socks B x) \<union> {s \<in> set (take n ls). s_group (sockets w s) = Some x}"
      "\<forall>s \<in> set (take n ls). resumed s (low_prio_loop n v)"
      "\<And>x. x \<notin> set (take n ls) \<Longrightarrow> x \<noteq> t \<Longrightarrow> resumed x (low_prio_loop n v) = resumed x v"
      using Suc.IH [OF wv tm] by (simp only: low(1-4) grp) blast
    have "s \<notin> set (take n ls)" "s \<noteq> t" using dist(1) Suc.prems(3) Cons by (auto dest: in_set_takeD)
    then have "resumed s (low_prio_loop n v)" using A'(8) rs by simp
    then have all: "\<forall>x \<in> set (take (Suc n) (a_low A)). resumed x (low_prio_loop n v)"
      using A'(7) Cons by simp
    have rest: "\<forall>x. x \<notin> set (take (Suc n) (a_low A)) \<and> x \<noteq> t \<longrightarrow> resumed x (low_prio_loop n v) = resumed x w"
      using A'(8) ro Cons by simp
    have "\<forall>x. set (a_socks A' x) = set (a_socks A x) \<union> {s \<in> set (take (Suc n) (a_low A)). s_group (sockets w s) = Some x}"
      using A'(6) g(1) Cons by (auto simp: low)
    with all rest A'(1-5) Cons show ?thesis unfolding step by (intro exI [of _ A']) simp
  qed
qed auto

text \<open>
  C19: One iteration lets at most five parked sockets back in, the first ones of the queue, whatever the length of
  the queue: each of them leaves the queue, is on its group's list again, waits for input again and is marked so
  that it is served the next time it is readable. The others stay parked in order, nothing else changes hands, and
  the loop stays well formed.
\<close>

theorem low_prio_iteration:
  assumes "wf_world A w" "ld_sweep_timer (loop w) = Some t" "t \<notin> set (a_low A)"
  shows "\<exists>A'. wf_world A' (us_internal_handle_low_priority_sockets w)
    \<and> a_low A' = drop 5 (a_low A) \<and> a_loose A' = a_loose A \<and> a_limbo A' = a_limbo A \<and> a_closed A' = a_closed A
    \<and> (\<forall>g. set (a_socks A' g) = set (a_socks A g) \<union> {s \<in> set (take 5 (a_low A)). s_group (sockets w s) = Some g})
    \<and> (\<forall>s \<in> set (take 5 (a_low A)). resumed s (us_internal_handle_low_priority_sockets w))"
proof -
  let ?w = "upd_loop (ld_low_prio_budget_update (\<lambda>_. int MAX_LOW_PRIO_SOCKETS_PER_LOOP_ITERATION)) w"
  have "wf_world A ?w" using assms(1) by (simp add: wf_upd_loop)
  from low_prio_loop_wf [OF this _ assms(3), of MAX_LOW_PRIO_SOCKETS_PER_LOOP_ITERATION] assms(2)
  show ?thesis
    by (auto simp: us_internal_handle_low_priority_sockets_def MAX_LOW_PRIO_SOCKETS_PER_LOOP_ITERATION_def)
qed

subsection \<open>Parking\<close>

definition park_in :: "addr \<Rightarrow> addr \<Rightarrow> world \<Rightarrow> world" where
  "park_in g s w = upd_s s (s_low_prio_state_update (\<lambda>_. 1))
     (low_prio_push s (upd_g g (g_low_prio_count_update (\<lambda>n. n + 1)) w))"

lemma push_lists:
  "s_next (sockets (low_prio_push s w) a) = ((snx w)(s := ld_low_prio_head (loop w))) a"
  "s_prev (sockets (low_prio_push s w) a) = link_pv (spv w) (ld_low_prio_head (loop w)) s a"
  "ld_low_prio_head (loop (low_prio_push s w)) = Some s"
  using gq.link_step [of s w] by (metis (no_types, lifting))+

lemma park_in_wf:
  assumes "wf_but {g} A w" "s \<in> a_loose A" "s_group (sockets w s) = Some g" "g_linked (groups w g)"
    "unat (g_low_prio_count (groups w g)) + 1 < 2 ^ 16"
  defines "v \<equiv> park_in g s w"
  shows "wf_world (A\<lparr>a_low := s # a_low A, a_loose := a_loose A - {s}\<rparr>) v"
proof -
  let ?A = "A\<lparr>a_low := s # a_low A, a_loose := a_loose A - {s}\<rparr>"
  have fr: "\<And>x. s \<notin> set (a_socks A x)" "s \<notin> set (a_low A)" "s \<notin> set (a_closed A)"
    and nc: "\<not> s_is_closed (sockets w s)"
    using assms(1,2) by (auto simp: wf_but_def wf_loose_def wf_closed_def)
  have dl: "dll (snx w) (spv w) (ld_low_prio_head (loop w)) (a_low A)"
    using assms(1) by (simp add: wf_but_def wf_low_def)
  have L: "s_next (sockets v x) = ((snx w)(s := ld_low_prio_head (loop w))) x"
    "s_prev (sockets v x) = link_pv (spv w) (ld_low_prio_head (loop w)) s x"
    "ld_low_prio_head (loop v) = Some s" for x
    using push_lists [of s "upd_g g (g_low_prio_count_update (\<lambda>n. n + 1)) w"] by (simp_all add: v_def park_in_def)
  have F: "s_is_closed (sockets v x) = s_is_closed (sockets w x)" "s_group (sockets v x) = s_group (sockets w x)"
    "s_low_prio_state (sockets v x) = (if x = s then 1 else s_low_prio_state (sockets w x))"
    "conns v = conns w" "heap_tag v = heap_tag w" "next_addr v = next_addr w"
    "g_head_sockets (groups v y) = g_head_sockets (groups w y)" "g_iterator (groups v y) = g_iterator (groups w y)"
    "g_head_connecting_sockets (groups v y) = g_head_connecting_sockets (groups w y)"
    "g_head_listen_sockets (groups v y) = g_head_listen_sockets (groups w y)"
    "g_linked (groups v y) = g_linked (groups w y)" "g_next (groups v y) = g_next (groups w y)"
    "g_prev (groups v y) = g_prev (groups w y)" "ld_head (loop v) = ld_head (loop w)"
    "ld_iterator (loop v) = ld_iterator (loop w)" "ld_closed_head (loop v) = ld_closed_head (loop w)"
    "ld_sweep_timer_count (loop v) = ld_sweep_timer_count (loop w)"
    "g_low_prio_count (groups v y) = (if y = g then g_low_prio_count (groups w g) + 1 else g_low_prio_count (groups w y))"
    for x y by (auto simp: v_def park_in_def low_prio_push_def Let_def split: option.split)
  have other: "dseg (snx v) (spv v) p h xs q = dseg (snx w) (spv w) p h xs q"
    if "s \<notin> set xs" "set xs \<inter> set (a_low A) = {}" for p h xs q
    using that by (intro dseg_frame) (auto simp: L disjoint_iff intro!: link_pv_other [OF dl])
  have disj: "set (a_socks A x) \<inter> set (a_low A) = {}" for x
    using assms(1) by (auto simp: wf_but_def dest: wf_socks_low)
  have socks: "wf_socks (a_socks A) v"
    unfolding wf_socks_def
  proof (intro conjI allI ballI)
    fix x
    show "dll (snx v) (spv v) (g_head_sockets (groups v x)) (a_socks A x)"
      using other [OF fr(1) disj] assms(1) by (simp add: F wf_but_def wf_socks_def)
  next
    fix x y
    assume "y \<in> set (a_socks A x)"
    with assms(1) fr(1) [of x] show "s_group (sockets v y) = Some x" "\<not> s_is_closed (sockets v y)"
      "s_low_prio_state (sockets v y) \<noteq> 1" by (auto simp: F wf_but_def wf_socks_def)
  qed
  have low: "wf_low (s # a_low A) v"
    unfolding wf_low_def
  proof (intro conjI ballI allI)
    show "dll (snx v) (spv v) (ld_low_prio_head (loop v)) (s # a_low A)"
      using dll_link [OF dl fr(2)] by (simp add: L fun_upd_def cong: if_cong)
  next
    fix x
    assume "x \<in> set (s # a_low A)"
    with assms(1,3) nc show "\<not> s_is_closed (sockets v x)" "s_low_prio_state (sockets v x) = 1"
      "s_group (sockets v x) \<noteq> None" by (auto simp: F wf_but_def wf_low_def)
  next
    fix x
    have "unat (g_low_prio_count (groups w g) + 1) = unat (g_low_prio_count (groups w g)) + 1"
      using assms(5) by (simp add: unat_word_ariths)
    moreover have "unat (g_low_prio_count (groups w y)) = length (filter (\<lambda>z. s_group (sockets w z) = Some y) (a_low A))" for y
      using assms(1) by (simp add: wf_but_def wf_low_def)
    ultimately show "unat (g_low_prio_count (groups v x)) = length (filter (\<lambda>y. s_group (sockets v y) = Some x) (s # a_low A))"
      using assms(3) by (auto simp: F)
  qed
  have "sll (snx v) h (a_closed A) = sll (snx w) h (a_closed A)" for h
    using fr(3) by (intro sll_frame) (auto simp: L)
  then have closed: "wf_closed (a_closed A) (a_limbo A) v" using assms(1) by (simp add: wf_but_def wf_closed_def F)
  have gr: "wf_groups (a_groups A) v" using assms(1) wf_groups_cong [of v w] by (simp add: F wf_but_def)
  have ne: "wf_nonempty v"
    unfolding wf_nonempty_def
  proof
    fix x
    have "g_low_prio_count (groups w g) + 1 \<noteq> 0"
    proof
      assume "g_low_prio_count (groups w g) + 1 = 0"
      then have "unat (g_low_prio_count (groups w g) + 1) = 0" by simp
      with assms(5) show False by (simp add: unat_word_ariths)
    qed
    moreover have "g_linked (groups w x) = (\<not> us_internal_group_is_empty x w) \<or> x = g \<and> g_linked (groups w x)"
      using assms(1) by (simp add: wf_but_def)
    ultimately show "g_linked (groups v x) = (\<not> us_internal_group_is_empty x v)"
      using assms(4) by (cases "x = g") (auto simp: us_internal_group_is_empty_def F)
  qed
  have rest: "wf_conns (a_conns A) v" "wf_count ?A v" "wf_iter ?A v"
    using assms(1) by (simp_all add: wf_but_def wf_conns_def wf_count_def wf_iter_def F)
  have "on_list ?A x = on_list A x" for x using assms(2) by (auto simp: on_list_def)
  then have hp: "wf_heap ?A v" using assms(1) by (simp add: wf_but_def wf_heap_def F)
  have lo: "wf_loose ?A v" using assms(1) by (auto simp: wf_but_def wf_loose_def F)
  show ?thesis unfolding wf_world_def using gr ne socks low closed rest hp lo by simp
qed

lemma upd_g_moves:
  "upd_p a k (upd_g g f w) = upd_g g f (upd_p a k w)" "upd_cb a m (upd_g g f w) = upd_g g f (upd_cb a m w)"
  "upd_loop l (upd_g g f w) = upd_g g f (upd_loop l w)" "upd_s a n (upd_g g f w) = upd_g g f (upd_s a n w)"
  "snd (lift_k o' (upd_g g f w)) = upd_g g f (snd (lift_k o' w))"
  "epoll_ctl opr fd ev p (upd_g g f w) = apsnd (upd_g g f) (epoll_ctl opr fd ev p w)"
  "ext_call c (upd_g g f w) = upd_g g f (ext_call c w)"
  "us_internal_poll_type a (upd_g g f w) = us_internal_poll_type a w" "us_poll_fd a (upd_g g f w) = us_poll_fd a w"
  by (simp_all add: upd_p_def upd_cb_def upd_loop_def upd_s_def upd_g_def lift_k_def epoll_ctl_def ext_call_def
      upd_kern_def case_prod_beta Let_def us_internal_poll_type_def us_poll_fd_def)

lemma upd_g_timer_set: "us_timer_set t cb ms rep (upd_g g f w) = upd_g g f (us_timer_set t cb ms rep w)"
  by (simp add: us_timer_set_def us_poll_start_def us_poll_start_rc_def upd_g_moves case_prod_beta Let_def)

lemma upd_g_disable: "us_internal_disable_sweep_timer (upd_g g f w) = upd_g g f (us_internal_disable_sweep_timer w)"
  by (simp add: us_internal_disable_sweep_timer_def upd_g_timer_set upd_g_moves Let_def)

lemma upd_g_upd_g: "(\<And>x. f (k x) = k (f x)) \<Longrightarrow> upd_g a k (upd_g g f w) = upd_g g f (upd_g a k w)"
  by (simp add: upd_g_def fun_upd_twist)

lemma count_field:
  "upd_g a (g_head_sockets_update k) (upd_g g (g_low_prio_count_update f) w)
    = upd_g g (g_low_prio_count_update f) (upd_g a (g_head_sockets_update k) w)"
  "upd_g a (g_iterator_update l) (upd_g g (g_low_prio_count_update f) w)
    = upd_g g (g_low_prio_count_update f) (upd_g a (g_iterator_update l) w)"
  by (rule upd_g_upd_g, simp)+

lemma count_chain: "unlink_socket_chain g s (upd_g g (g_low_prio_count_update f) w)
    = upd_g g (g_low_prio_count_update f) (unlink_socket_chain g s w)"
  by (cases "s_prev (sockets w s)"; cases "s_next (sockets w s)")
    (simp_all only: unlink_socket_chain_def Let_def upd_g_sel upd_g_moves count_field
      option.case if_distrib [of "upd_g g (g_low_prio_count_update f)"])

lemma count_core: "unlink_core g s (upd_g g (g_low_prio_count_update f) w)
    = upd_g g (g_low_prio_count_update f) (unlink_core g s w)"
  by (cases "g_iterator (groups w g) = Some s")
    (simp_all add: unlink_core_def count_field count_chain upd_g_disable)

lemma park_as_move:
  assumes "s_group (sockets w s) = Some g" "unat (g_low_prio_count (groups w g)) + 1 < 2 ^ 16"
  shows "low_prio_park s w = park_in g s (unlink_core g s (us_poll_change s (us_poll_events s w AND LIBUS_SOCKET_WRITABLE) w))"
proof -
  define u where "u = us_poll_change s (us_poll_events s w AND LIBUS_SOCKET_WRITABLE) w"
  have "g_low_prio_count (groups w g) + 1 \<noteq> 0"
  proof
    assume "g_low_prio_count (groups w g) + 1 = 0"
    then have "unat (g_low_prio_count (groups w g) + 1) = 0" by simp
    with assms(2) show False by (simp add: unat_word_ariths)
  qed
  then have "us_internal_group_maybe_unlink g (upd_g g (g_low_prio_count_update (\<lambda>n. n + 1)) (unlink_core g s u))
      = upd_g g (g_low_prio_count_update (\<lambda>n. n + 1)) (unlink_core g s u)"
    by (simp add: us_internal_group_maybe_unlink_def us_internal_group_is_empty_def unlink_core_frame) (simp add: u_def)
  then show ?thesis
    using assms(1) by (simp add: low_prio_park_def Let_def unlink_socket_core count_core park_in_def flip: u_def)
      (simp add: u_def)
qed

lemma low_prio_park_wf:
  assumes "wf_world A w" "s \<in> set (a_socks A g)" "unat (g_low_prio_count (groups w g)) + 1 < 2 ^ 16"
  shows "wf_world (A\<lparr>a_socks := (a_socks A)(g := remove1 s (a_socks A g)), a_low := s # a_low A,
      a_loose := a_loose A - {s}\<rparr>) (low_prio_park s w)
    \<and> g_linked (groups (low_prio_park s w) g)"
proof -
  define u where "u = us_poll_change s (us_poll_events s w AND LIBUS_SOCKET_WRITABLE) w"
  have g: "s_group (sockets w s) = Some g" using assms(1,2) by (auto simp: wf_world_def wf_socks_def)
  have lk: "g_linked (groups w g)"
    using wf_sock_group [OF assms(1,2)] assms(1) by (simp add: wf_world_def wf_groups_def)
  have wu: "wf_world A u" using assms(1) by (simp add: u_def)
  let ?B = "A\<lparr>a_socks := (a_socks A)(g := remove1 s (a_socks A g)), a_loose := insert s (a_loose A)\<rparr>"
  have "wf_world (?B\<lparr>a_low := s # a_low ?B, a_loose := a_loose ?B - {s}\<rparr>) (park_in g s (unlink_core g s u))"
    using g lk assms(3) by (intro park_in_wf [OF unlink_core_wf [OF wu assms(2)]])
      (simp_all add: unlink_core_frame u_def)
  moreover have "g_linked (groups (park_in g s (unlink_core g s u)) g)"
    using lk by (auto simp: park_in_def low_prio_push_def Let_def unlink_core_frame u_def split: option.split)
  moreover have "?B\<lparr>a_low := s # a_low ?B, a_loose := a_loose ?B - {s}\<rparr> =
      A\<lparr>a_socks := (a_socks A)(g := remove1 s (a_socks A g)), a_low := s # a_low A, a_loose := a_loose A - {s}\<rparr>"
    by simp
  ultimately show ?thesis by (simp only: park_as_move [OF g assms(3)] u_def)
qed

text \<open>
  Parking a socket that is readable but must wait keeps the loop well formed: it leaves its group's list and
  becomes the first of the queue, its group counts it and stays linked even if it holds nothing else, and the socket
  no longer waits for input. (The count has 16 bits: it must not be full.)
\<close>

theorem low_prio_park_keeps_invariant:
  assumes "wf_world A w" "s \<in> set (a_socks A g)" "unat (g_low_prio_count (groups w g)) + 1 < 2 ^ 16"
  shows "wf_world (A\<lparr>a_socks := (a_socks A)(g := remove1 s (a_socks A g)), a_low := s # a_low A,
      a_loose := a_loose A - {s}\<rparr>) (low_prio_park s w)
    \<and> g_linked (groups (low_prio_park s w) g)"
  by (rule low_prio_park_wf [OF assms])

subsection \<open>On a concrete loop\<close>

lemma scene_count: "g_low_prio_count (groups (scene rs) 5) = 0"
  by (simp add: scene_def us_internal_socket_group_link_socket_def us_socket_is_closed_def Let_def blank_def
      blank_socket_def zero_group_def us_internal_group_touched_def us_internal_loop_link_group_def zero_loop_def)

lemma scene_in: "7 \<in> set (a_socks (a_link 5 7 a_blank) 5)"
  by (simp add: a_link_def)

theorem low_prio_park_keeps_invariant_witness:
  "\<exists>A. wf_world A (low_prio_park 7 (scene [])) \<and> a_low A = [7] \<and> g_linked (groups (low_prio_park 7 (scene [])) 5)"
  using low_prio_park_keeps_invariant [OF scene_wf scene_in, of "[]"]
  by (intro exI conjI) (auto simp: scene_count a_link_def a_blank_def)

definition a_parked :: absr where
  "a_parked = a_blank\<lparr>a_groups := [5], a_low := [7], a_loose := {}\<rparr>"

lemma parked_wf: "wf_world a_parked (low_prio_park 7 (scene []))"
proof -
  define u where "u = us_poll_change 7 (us_poll_events 7 (scene []) AND LIBUS_SOCKET_WRITABLE) (scene [])"
  let ?A = "a_link 5 7 a_blank"
  let ?B = "?A\<lparr>a_socks := (a_socks ?A)(5 := remove1 7 (a_socks ?A 5)), a_loose := insert 7 (a_loose ?A)\<rparr>"
  have wu: "wf_world ?A u" using scene_wf by (simp add: u_def)
  have g: "s_group (sockets (scene []) 7) = Some 5" by (rule scene_facts)
  have "g_linked (groups (scene []) 5)"
    using wf_sock_group [OF scene_wf scene_in] scene_wf [of "[]"] by (simp add: wf_world_def wf_groups_def)
  then have "wf_world (?B\<lparr>a_low := 7 # a_low ?B, a_loose := a_loose ?B - {7}\<rparr>) (park_in 5 7 (unlink_core 5 7 u))"
    using g scene_count by (intro park_in_wf [OF unlink_core_wf [OF wu scene_in]])
      (simp_all add: unlink_core_frame u_def)
  moreover have "?B\<lparr>a_low := 7 # a_low ?B, a_loose := a_loose ?B - {7}\<rparr> = a_parked"
    by (simp add: a_parked_def a_link_def a_blank_def add_group_def fun_eq_iff)
  moreover have "low_prio_park 7 (scene []) = park_in 5 7 (unlink_core 5 7 u)"
    unfolding u_def by (rule park_as_move [OF g]) (simp add: scene_count)
  ultimately show ?thesis by simp
qed

theorem low_prio_iteration_witness:
  "resumed 7 (us_internal_handle_low_priority_sockets (low_prio_park 7 (scene [])))"
proof -
  have "ld_sweep_timer (loop (low_prio_park 7 (scene []))) = Some 3"
    by (simp add: low_prio_park_def Let_def scene_facts)
  from low_prio_iteration [OF parked_wf this] show ?thesis by (auto simp: a_parked_def)
qed

end
