(* ===== verification/Us_Reclaim.thy ===== *)
theory Us_Reclaim imports
  Us_Output
begin

section \<open>Properties of freeing and of ticks\<close>

text \<open>Walking a list and freeing it is a fold over the abstract list.\<close>

definition free_one :: "addr \<Rightarrow> world \<Rightarrow> world" where
  "free_one s w = us_poll_free s (upd_s s (\<lambda>x. x\<lparr>s_prev := None, s_next := None\<rparr>) w)"

lemma free_closed_fold:
  "sll (snx w) p xs \<Longrightarrow> distinct xs \<Longrightarrow> free_closed p w = Some (fold free_one xs w)"
proof (induction xs arbitrary: p w)
  case Nil
  then show ?case by (subst free_closed.simps) simp
next
  case (Cons s xs)
  then have p: "p = Some s" "sll (snx w) (s_next (sockets w s)) xs" by simp_all
  have "sll (snx (free_one s w)) (s_next (sockets w s)) xs = sll (snx w) (s_next (sockets w s)) xs"
    using Cons.prems(2) by (intro sll_frame) (auto simp: free_one_def us_poll_free_def)
  with Cons p show ?case by (subst free_closed.simps) (simp flip: free_one_def)
qed

lemma free_closed_udp_fold:
  "sll (\<lambda>u. u_next (udps w u)) p xs \<Longrightarrow> free_closed_udp p w = Some (fold us_poll_free xs w)"
proof (induction xs arbitrary: p w)
  case Nil
  then show ?case by (subst free_closed_udp.simps) simp
next
  case (Cons s xs)
  moreover have "udps (us_poll_free s w) = udps w" by (simp add: us_poll_free_def)
  ultimately show ?case by (subst free_closed_udp.simps) simp
qed

lemma free_closed_connecting_fold:
  "sll (\<lambda>c. c_next (conns w c)) p xs \<Longrightarrow> free_closed_connecting p w = Some (fold us_free xs w)"
proof (induction xs arbitrary: p w)
  case Nil
  then show ?case by (subst free_closed_connecting.simps) simp
next
  case (Cons s xs)
  then show ?case by (subst free_closed_connecting.simps) simp
qed

lemma fold_free_one:
  "heap_tag (fold free_one xs w) = (\<lambda>a. if a \<in> set xs then None else heap_tag w a)"
  "sockets (fold free_one xs w) a = (if a \<in> set xs then (sockets w a)\<lparr>s_prev := None, s_next := None\<rparr> else sockets w a)"
  "conns (fold free_one xs w) = conns w" "udps (fold free_one xs w) = udps w" "groups (fold free_one xs w) = groups w"
  "kern (fold free_one xs w) = kern w" "next_addr (fold free_one xs w) = next_addr w"
  "loop (fold free_one xs w) = (loop w)\<lparr>lp_num_polls := lp_num_polls (loop w) - int (length xs)\<rparr>"
  by (induction xs arbitrary: w) (auto simp: free_one_def us_poll_free_def fun_eq_iff)

lemma fold_poll_free:
  "heap_tag (fold us_poll_free xs w) = (\<lambda>a. if a \<in> set xs then None else heap_tag w a)"
  "sockets (fold us_poll_free xs w) = sockets w" "groups (fold us_poll_free xs w) = groups w"
  "conns (fold us_poll_free xs w) = conns w" "udps (fold us_poll_free xs w) = udps w"
  "kern (fold us_poll_free xs w) = kern w" "next_addr (fold us_poll_free xs w) = next_addr w"
  "loop (fold us_poll_free xs w) = (loop w)\<lparr>lp_num_polls := lp_num_polls (loop w) - int (length xs)\<rparr>"
  by (induction xs arbitrary: w) (auto simp: us_poll_free_def fun_eq_iff)

lemma fold_us_free:
  "heap_tag (fold us_free xs w) = (\<lambda>a. if a \<in> set xs then None else heap_tag w a)"
  "sockets (fold us_free xs w) = sockets w" "groups (fold us_free xs w) = groups w"
  "conns (fold us_free xs w) = conns w" "udps (fold us_free xs w) = udps w"
  "kern (fold us_free xs w) = kern w" "next_addr (fold us_free xs w) = next_addr w" "loop (fold us_free xs w) = loop w"
  by (induction xs arbitrary: w) (auto simp: fun_eq_iff)

text \<open>
  C20: At the end of an iteration everything that was closed in it is freed, and nothing else: the sockets of the
  closed list, the closed datagram sockets and the closed connecting sockets. The walk returns, the three lists are
  empty, the polls that are freed are no longer counted, and the loop stays well formed.
\<close>

theorem free_closed_exact:
  assumes "wf_world A w" "a_closed A = ss"
    "sll (\<lambda>u. u_next (udps w u)) (ld_closed_udp_head (loop w)) us" "\<forall>u\<in>set us. heap_tag w u = Some T_udp"
    "sll (\<lambda>c. c_next (conns w c)) (ld_closed_connecting_head (loop w)) cs" "\<forall>c\<in>set cs. heap_tag w c = Some T_connecting"
  shows "\<exists>w'. us_internal_free_closed_sockets w = Some w'
    \<and> heap_tag w' = (\<lambda>a. if a \<in> set ss \<union> set us \<union> set cs then None else heap_tag w a)
    \<and> ld_closed_head (loop w') = None \<and> ld_closed_udp_head (loop w') = None \<and> ld_closed_connecting_head (loop w') = None
    \<and> lp_num_polls (loop w') = lp_num_polls (loop w) - int (length ss) - int (length us)
    \<and> kern w' = kern w \<and> wf_world (A\<lparr>a_closed := []\<rparr>) w'"
proof -
  define w1 where "w1 = upd_loop (ld_closed_head_update (\<lambda>_. None)) (fold free_one ss w)"
  define w2 where "w2 = upd_loop (ld_closed_udp_head_update (\<lambda>_. None)) (fold us_poll_free us w1)"
  define w3 where "w3 = upd_loop (ld_closed_connecting_head_update (\<lambda>_. None)) (fold us_free cs w2)"
  have sl: "sll (snx w) (ld_closed_head (loop w)) ss" using assms(1,2) by (simp add: wf_world_def wf_closed_def)
  have r1: "free_closed (ld_closed_head (loop w)) w = Some (fold free_one ss w)"
    by (rule free_closed_fold [OF sl sll_distinct [OF sl]])
  have r2: "free_closed_udp (ld_closed_udp_head (loop w1)) w1 = Some (fold us_poll_free us w1)"
    using assms(3) by (intro free_closed_udp_fold) (simp add: w1_def fold_free_one)
  have r3: "free_closed_connecting (ld_closed_connecting_head (loop w2)) w2 = Some (fold us_free cs w2)"
    using assms(5) by (intro free_closed_connecting_fold) (simp add: w2_def w1_def fold_poll_free fold_free_one)
  have res: "us_internal_free_closed_sockets w = Some w3"
    using r1 r2 r3 by (simp add: us_internal_free_closed_sockets_def w1_def w2_def w3_def Let_def)
  note F = w3_def w2_def w1_def fold_us_free fold_poll_free fold_free_one
  have hp: "heap_tag w3 = (\<lambda>a. if a \<in> set ss \<union> set us \<union> set cs then None else heap_tag w a)"
    by (auto simp: F fun_eq_iff)
  have cl: "s_is_closed (sockets w s)" if "s \<in> set ss" for s
    using that assms(1,2) by (simp add: wf_world_def wf_closed_def)
  have ns: "s \<in> set (a_socks A g) \<Longrightarrow> s \<notin> set ss" "s \<in> set (a_low A) \<Longrightarrow> s \<notin> set ss"
    "s \<in> a_loose A \<Longrightarrow> s \<notin> set ss" "s \<in> a_limbo A \<Longrightarrow> s \<notin> set ss" for s g
    using cl assms(1,2) unfolding wf_world_def wf_socks_def wf_low_def wf_loose_def wf_closed_def by blast+
  have other: "dseg (snx w3) (spv w3) p h xs q = dseg (snx w) (spv w) p h xs q" if "set xs \<inter> set ss = {}" for p h xs q
    using that by (intro dseg_frame) (auto simp: F disjoint_iff)
  have v: "s_group (sockets w3 x) = s_group (sockets w x)" "s_is_closed (sockets w3 x) = s_is_closed (sockets w x)"
    "s_low_prio_state (sockets w3 x) = s_low_prio_state (sockets w x)" for x by (auto simp: F)
  have g: "groups w3 = groups w" "conns w3 = conns w" "next_addr w3 = next_addr w" "kern w3 = kern w"
    "ld_head (loop w3) = ld_head (loop w)" "ld_iterator (loop w3) = ld_iterator (loop w)"
    "ld_sweep_timer_count (loop w3) = ld_sweep_timer_count (loop w)"
    "ld_low_prio_head (loop w3) = ld_low_prio_head (loop w)" "ld_closed_head (loop w3) = None"
    by (simp_all add: F)
  have l: "wf_socks (a_socks A) w3" "wf_low (a_low A) w3"
    using assms(1) other ns by (auto simp: wf_world_def wf_socks_def wf_low_def disjoint_iff v g)
  have "wf_closed [] (a_limbo A) w3" using assms(1) by (simp add: wf_world_def wf_closed_def v g)
  moreover have "wf_heap (A\<lparr>a_closed := []\<rparr>) w3"
  proof -
    have on: "on_list (A\<lparr>a_closed := []\<rparr>) s = (on_list A s \<and> s \<notin> set ss)" for s
      using ns assms(2) unfolding on_list_def by auto
    have wh: "wf_heap A w" using assms(1) by (simp add: wf_world_def)
    have "heap_tag w3 s = Some T_socket" if "on_list A s" "s \<notin> set ss" for s
    proof -
      have "heap_tag w s = Some T_socket" using wh that assms(2) by (simp add: wf_heap_def)
      moreover from this have "s \<notin> set us" "s \<notin> set cs" using assms(4,6) by auto
      ultimately show ?thesis using that(2) by (simp add: hp)
    qed
    moreover have "on_list A s \<and> s \<notin> set ss" if "heap_tag w3 s = Some T_socket" for s
    proof -
      have ni: "s \<notin> set ss" and "heap_tag w s = Some T_socket" using that by (auto simp: hp split: if_splits)
      with wh show ?thesis unfolding wf_heap_def by blast
    qed
    moreover have "heap_tag w3 a = None" if "next_addr w3 \<le> a" for a
      using wh that by (simp add: wf_heap_def hp g(3))
    ultimately show ?thesis unfolding wf_heap_def on by (intro conjI allI impI ballI) simp_all
  qed
  moreover have "wf_loose (A\<lparr>a_closed := []\<rparr>) w3" using assms(1) by (simp add: wf_world_def wf_loose_def v)
  ultimately have "wf_world (A\<lparr>a_closed := []\<rparr>) w3"
    using assms(1) l by (simp add: wf_world_def wf_frame_sockets [OF g(1,2,5,6,7)])
      (simp add: wf_count_def wf_iter_def)
  then show ?thesis using res hp by (intro exI [of _ w3]) (simp add: F)
qed

theorem free_closed_exact_witness:
  "\<exists>w'. us_internal_free_closed_sockets (us_socket_detach 7 (scene [])) = Some w'
    \<and> heap_tag (us_socket_detach 7 (scene [])) 7 = Some T_socket \<and> heap_tag w' 7 = None \<and> ld_closed_head (loop w') = None"
proof -
  let ?w = "us_socket_detach 7 (scene [])"
  have i: "inv {} ?w" "heap_tag ?w 7 = Some T_socket"
    using detach_okw [of 7 "scene []"] scene_inv [of "[]"] scene_facts(6) [of "[]"] by (auto simp: okw_def)
  then obtain A where A: "wf_world A ?w" by (auto simp: inv_def)
  have "ld_closed_head (loop ?w) = Some 7"
    by (simp add: us_socket_detach_def us_socket_is_closed_def scene_facts Let_def push_closed_def)
  then have "7 \<in> set (a_closed A)"
    using A by (cases "a_closed A") (auto simp: wf_world_def wf_closed_def)
  moreover have "ld_closed_udp_head (loop (scene [])) = None" "ld_closed_connecting_head (loop (scene [])) = None"
    by (simp_all add: scene_def blank_def zero_loop_def)
  then have "ld_closed_udp_head (loop ?w) = None" "ld_closed_connecting_head (loop ?w) = None"
    by (simp_all add: us_socket_detach_def us_socket_is_closed_def scene_facts Let_def push_closed_def
        us_internal_ssl_detach_def close_unlink_def)
  ultimately show ?thesis
    using free_closed_exact [OF A refl, of "[]" "[]"] i(2) by auto
qed

subsection \<open>The deadline of the QUIC engines\<close>

text \<open>Deadlines in microseconds; no deadline is \<open>None\<close>.\<close>

definition deadline :: "timespec option \<Rightarrow> int option" where
  "deadline t = map_option (\<lambda>(sec, nsec). sec * 1000000 + nsec div 1000) t"

definition earlier :: "int option \<Rightarrow> int option \<Rightarrow> int option" where
  "earlier a b = (case (a, b) of (None, _) \<Rightarrow> b | (_, None) \<Rightarrow> a | (Some x, Some y) \<Rightarrow> Some (min x y))"

text \<open>
  The wait of a tick lasts until the earlier of the caller's timeout and the next deadline of the QUIC engines,
  to the microsecond, whichever of the two exist, and the timeout handed to the kernel is normalised.
\<close>

lemma quic_timeout_is_earliest:
  assumes "\<And>sec nsec. timeout = Some (sec, nsec) \<Longrightarrow> 0 \<le> sec \<and> 0 \<le> nsec \<and> nsec < 1000000000"
  shows "deadline (fold_quic_timeout w timeout) = earlier (deadline timeout)
      (if ld_quic_head (loop w) \<noteq> None \<and> 0 \<le> ld_quic_next_tick_us (loop w) then Some (ld_quic_next_tick_us (loop w)) else None)
    \<and> (\<forall>sec nsec. fold_quic_timeout w timeout = Some (sec, nsec) \<longrightarrow> 0 \<le> sec \<and> 0 \<le> nsec \<and> nsec < 1000000000)"
proof -
  have d: "x sdiv 1000000 = x div 1000000" "x smod 1000000 = x mod 1000000" "x sdiv 1000 = x div 1000" if "0 \<le> x" for x :: int
    using that by (simp_all add: signed_divide_int_def signed_modulo_int_def sgn_if)
  have m: "x div 1000000 * 1000000 + x mod 1000000 * 1000 div 1000 = x" "x mod 1000000 * 1000 < 1000000000" for x :: int
    by simp_all
  show ?thesis
  proof (cases timeout)
    case None
    then show ?thesis using d m by (auto simp: fold_quic_timeout_def deadline_def earlier_def Let_def)
  next
    case (Some t)
    obtain sec nsec where t: "t = (sec, nsec)" by (cases t)
    with assms Some have b: "0 \<le> sec" "0 \<le> nsec" "nsec < 1000000000" by auto
    show ?thesis using d m b by (auto simp: fold_quic_timeout_def deadline_def earlier_def Let_def Some t min_def)
  qed
qed

end
