(* ===== verification/Us_Descriptors.thy ===== *)
theory Us_Descriptors imports
  "Us_Connect"
  "HOL-Library.Multiset"
begin

section \<open>Descriptors: what a system call wrapper leaves open\<close>

text \<open>
  \<open>steps k h k'\<close> says that a wrapper went from \<open>k\<close> to \<open>k'\<close> by the calls of the history
  \<open>h\<close>, each with the answer it got. \<open>held h\<close> is what the history has opened and not closed: the
  descriptors, as a multiset, and whether a list of addresses of the resolver is still to be freed.
\<close>

type_synonym history = "(syscall \<times> reply) list"

definition steps :: "kernel \<Rightarrow> history \<Rightarrow> kernel \<Rightarrow> bool" where
  "steps k h k' \<longleftrightarrow> replies k' = drop (length h) (replies k)
     \<and> trace k' = rev (map (\<lambda>(c, r). Sys c) h) @ trace k
     \<and> (\<forall>i<length h. snd (h ! i) = (if i < length (replies k) then replies k ! i else default_reply))"

fun held_step :: "int multiset \<times> bool \<Rightarrow> syscall \<times> reply \<Rightarrow> int multiset \<times> bool" where
  "held_step (fds, info) (c, r) = (case c of
     Sys_socket _ _ \<Rightarrow> (if r_ret r \<noteq> -1 then add_mset (r_ret r) fds else fds, info)
   | Sys_open_dir _ \<Rightarrow> (if r_ret r \<noteq> -1 then add_mset (r_ret r) fds else fds, info)
   | Sys_close fd \<Rightarrow> (fds - {#fd#}, info)
   | Sys_getaddrinfo _ _ \<Rightarrow> (fds, info \<or> r_ret r = 0 \<and> r_addrs r \<noteq> [])
   | Sys_freeaddrinfo \<Rightarrow> (fds, False)
   | _ \<Rightarrow> (fds, info))"

definition held :: "history \<Rightarrow> int multiset \<times> bool" where
  "held h = foldl held_step ({#}, False) h"

subsection \<open>Histories\<close>

lemma steps_refl: "steps k [] k"
  by (simp add: steps_def)

lemma steps_append:
  assumes "steps a g b" "steps b h c"
  shows "steps a (g @ h) c"
proof -
  have "snd ((g @ h) ! i) = (if i < length (replies a) then replies a ! i else default_reply)"
    if "i < length (g @ h)" for i
  proof (cases "i < length g")
    case True
    then show ?thesis using assms(1) by (simp add: steps_def nth_append)
  next
    case False
    then have i: "i - length g < length h" "length g + (i - length g) = i" using that by auto
    then have "snd (h ! (i - length g)) =
        (if i - length g < length (replies b) then replies b ! (i - length g) else default_reply)"
      using assms(2) by (simp add: steps_def)
    then show ?thesis using False i(2) assms(1) by (auto simp: steps_def nth_append)
  qed
  then show ?thesis using assms by (simp add: steps_def add.commute)
qed

lemma steps_sys: "steps k [(c, fst (sys c k))] (snd (sys c k))"
  by (cases "replies k") (simp_all add: steps_def sys_def pop_reply_def Let_def)

lemma steps_errno: "steps a h (set_errno e b) \<longleftrightarrow> steps a h b" "steps (set_errno e a) h b \<longleftrightarrow> steps a h b"
  by (simp_all add: steps_def set_errno_def)

text \<open>
  \<open>runs p k h k'\<close>: from what \<open>p\<close> holds, the calls from \<open>k\<close> to \<open>k'\<close> lead to what is
  held in the end. Composing two wrappers composes their facts.
\<close>

definition goes :: "kernel \<Rightarrow> int multiset \<times> bool \<Rightarrow> kernel \<Rightarrow> int multiset \<times> bool \<Rightarrow> bool" where
  "goes k a k' b \<longleftrightarrow> (\<exists>h. steps k h k' \<and> foldl held_step a h = b)"

lemma goes_refl: "goes k a k a"
  unfolding goes_def using steps_refl by fastforce

lemma goes_trans: "goes k a l b \<Longrightarrow> goes l b m c \<Longrightarrow> goes k a m c"
  unfolding goes_def using steps_append by fastforce

lemma goes_sys: "held_step a (c, fst (sys c k)) = b \<Longrightarrow> goes k a (snd (sys c k)) b"
  unfolding goes_def using steps_sys [of k c] by (intro exI [of _ "[(c, fst (sys c k))]"]) simp

lemma goes_errno: "goes k a k' b \<Longrightarrow> goes k a (set_errno e k') b" "goes k a k' b \<Longrightarrow> goes (set_errno e k) a k' b"
  unfolding goes_def by (simp_all add: steps_errno)

text \<open>A call that opens or closes nothing.\<close>

fun neutral :: "syscall \<Rightarrow> bool" where
  "neutral (Sys_socket _ _) = False"
| "neutral (Sys_open_dir _) = False"
| "neutral (Sys_close _) = False"
| "neutral (Sys_getaddrinfo _ _) = False"
| "neutral Sys_freeaddrinfo = False"
| "neutral _ = True"

lemma held_step_neutral: "neutral c \<Longrightarrow> held_step a (c, r) = a"
  by (cases a) (cases c; simp)

lemma goes_sys_neutral: "goes k a k' b \<Longrightarrow> neutral c \<Longrightarrow> goes k a (snd (sys c k')) b"
  by (rule goes_trans, assumption) (rule goes_sys [OF held_step_neutral])

lemma goes_retry:
  assumes "\<And>r. r_ret r = -1 \<Longrightarrow> held_step b (c, r) = b"
  shows "goes k a k' b \<Longrightarrow> goes k a (snd (sys_retry c k')) (held_step b (c, fst (sys_retry c k')))"
  using assms
proof (induction c k' rule: sys_retry.induct)
  case (1 c k')
  obtain r l where s: "sys c k' = (r, l)" by (cases "sys c k'")
  show ?case
  proof (cases "r_ret r = -1 \<and> errno l = EINTR")
    case True
    have "goes k' b l b" using goes_sys [OF refl, of k' b c] 1(3) True by (simp add: s)
    then have "goes k a l b" by (rule goes_trans [OF 1(2)])
    moreover have "sys_retry c k' = sys_retry c l" using True by (subst sys_retry.simps) (simp add: s)
    ultimately show ?thesis using 1(1) [OF s [symmetric] refl True _ 1(3)] by simp
  next
    case False
    then have "sys_retry c k' = (r, l)" by (subst sys_retry.simps) (auto simp: s)
    then show ?thesis using goes_trans [OF 1(2) goes_sys [OF refl, of k' b c]] by (simp add: s)
  qed
qed

lemma goes_retry_neutral: "goes k a k' b \<Longrightarrow> neutral c \<Longrightarrow> goes k a (snd (sys_retry c k')) b"
  using goes_retry [of b c k a k'] by (simp add: held_step_neutral)

subsection \<open>Wrappers that open and close nothing\<close>

named_theorems goes_intro \<open>wrappers that keep what is held\<close>

lemmas [goes_intro] = goes_errno(1) goes_sys_neutral goes_retry_neutral

lemma goes_sys_ret [goes_intro]: "goes k a k' b \<Longrightarrow> neutral c \<Longrightarrow> goes k a (snd (sys_ret c k')) b"
  by (simp add: sys_ret_def case_prod_beta goes_sys_neutral)

lemma goes_sys_do [goes_intro]: "goes k a k' b \<Longrightarrow> neutral c \<Longrightarrow> goes k a (sys_do c k') b"
  by (simp add: sys_do_def goes_sys_neutral)

lemma goes_set_reuse [goes_intro]: "goes k a k' b \<Longrightarrow> goes k a (snd (bsd_set_reuse fd options k')) b"
  by (auto simp: bsd_set_reuse_def bsd_set_reuseaddr_def bsd_set_reuseport_def case_prod_beta Let_def
      intro!: goes_intro)

lemma goes_bind_and_listen [goes_intro]:
  "goes k a k' b \<Longrightarrow> goes k a (snd (snd (us_internal_bind_and_listen fd addr backlog err k'))) b"
  by (auto simp: us_internal_bind_and_listen_def case_prod_beta Let_def intro!: goes_intro)

lemma goes_6_or_4 [goes_intro]: "goes k a k' b \<Longrightarrow> goes k a (set_6_or_4_ignore fd x y k') b"
  by (auto simp: set_6_or_4_ignore_def case_prod_beta Let_def intro!: goes_intro)

lemma goes_bind_listen_fd [goes_intro]:
  "goes k a k' b \<Longrightarrow> goes k a (snd (snd (bsd_bind_listen_fd fd ai options err k'))) b"
  by (auto simp: bsd_bind_listen_fd_def case_prod_beta Let_def intro!: goes_intro)

lemma goes_connect_retry:
  "goes k a k' b \<Longrightarrow> goes k a (snd (connect_retry fd addr k')) b"
proof (induction fd addr k' rule: connect_retry.induct)
  case (1 fd addr k')
  obtain r l where s: "sys_ret (Sys_connect fd addr) (set_errno 0 k') = (r, l)" by fastforce
  have "goes k a l b"
    using goes_sys_ret [of k a "set_errno 0 k'" b "Sys_connect fd addr"] goes_errno(1) [OF 1(2)] by (simp add: s)
  with 1(1) [OF s [symmetric] refl] show ?case by (subst connect_retry.simps) (simp add: s)
qed

lemma goes_connect_raw [goes_intro]: "goes k a k' b \<Longrightarrow> goes k a (snd (bsd_do_connect_raw fd addr k')) b"
  by (simp add: bsd_do_connect_raw_def case_prod_beta Let_def goes_connect_retry)

subsection \<open>Opening and closing\<close>

text \<open>What is held with a descriptor that was returned, or with none.\<close>

definition hold :: "int \<Rightarrow> int multiset \<times> bool \<Rightarrow> int multiset \<times> bool" where
  "hold fd a = (if fd = LIBUS_SOCKET_ERROR then a else (add_mset fd (fst a), snd a))"

lemma goes_create_socket:
  "goes k a k' b \<Longrightarrow> goes k a (snd (snd (bsd_create_socket domain typ k'))) (hold (fst (bsd_create_socket domain typ k')) b)"
  using goes_retry [of b "Sys_socket domain typ" k a k']
  by (cases b) (auto simp: bsd_create_socket_def case_prod_beta Let_def hold_def LIBUS_SOCKET_ERROR_def
      apple_no_sigpipe_def)

lemma goes_close:
  "goes k a k' (hold fd b) \<Longrightarrow> fd \<noteq> LIBUS_SOCKET_ERROR \<Longrightarrow> goes k a (bsd_close_socket fd k') b"
  unfolding bsd_close_socket_def sys_do_def by (erule goes_trans, rule goes_sys) (simp add: hold_def)

text \<open>A UNIX socket path too long for an address is reached through its directory's descriptor.\<close>

lemma goes_unix_address:
  assumes "bsd_create_unix_socket_address path k' = (r, dirfd, sa, k'')" "goes k a k' b"
  shows "goes k a k'' (if r = 0 then hold dirfd b else b)"
proof -
  define o' where "o' = sys_ret (Sys_open_dir (take (dirname_len path (length path)) path)) k'"
  have o: "goes k a (snd o') (hold (fst o') b)"
    using goes_trans [OF assms(2) goes_sys [OF refl, of k' b "Sys_open_dir (take (dirname_len path (length path)) path)"]]
    by (cases b) (simp add: o'_def sys_ret_def case_prod_beta hold_def LIBUS_SOCKET_ERROR_def split: if_splits)
  have e: "goes k a (snd o') b" if "fst o' = -1"
    using o that by (simp add: hold_def LIBUS_SOCKET_ERROR_def)
  have c: "goes k a (sys_do (Sys_close (fst o')) (snd o')) b" if "fst o' \<noteq> -1"
    using goes_close [OF o] that by (simp add: bsd_close_socket_def LIBUS_SOCKET_ERROR_def)
  show ?thesis
    using assms o e c unfolding bsd_create_unix_socket_address_def Let_def case_prod_beta o'_def [symmetric]
    by (auto simp: hold_def LIBUS_SOCKET_ERROR_def split: if_splits intro!: goes_errno(1))
qed

lemma goes_listen_first:
  "goes k a k' b \<Longrightarrow> goes k a (snd (snd (listen_first fam options as err k')))
     (case fst (listen_first fam options as err k') of None \<Rightarrow> b | Some fd \<Rightarrow> hold fd b)"
proof (induction as arbitrary: err k')
  case (Cons ai as)
  obtain fd er kk where sk: "bsd_create_socket fam SOCK_STREAM k' = (fd, er, kk)" by (metis surj_pair)
  obtain r er' kk' where bd: "bsd_bind_listen_fd fd ai options err kk = (r, er', kk')" by (metis surj_pair)
  have c: "goes k a kk (hold fd b)" using goes_create_socket [OF Cons(2), of fam SOCK_STREAM] by (simp add: sk)
  have d: "goes k a kk' (hold fd b)" using goes_bind_listen_fd [OF c, of fd ai options err] by (simp add: bd)
  have e: "goes k a kk b" if "fd = LIBUS_SOCKET_ERROR" using c that by (simp add: hold_def)
  have x: "goes k a (bsd_close_socket fd kk') b" if "fd \<noteq> LIBUS_SOCKET_ERROR" by (rule goes_close [OF d that])
  show ?case using Cons.IH [OF Cons(2)] Cons.IH [OF e] Cons.IH [OF x] d by (simp add: sk bd)
qed simp

lemma listen_first_fd: "fst (listen_first fam options as err k) = Some fd \<Longrightarrow> fd \<noteq> LIBUS_SOCKET_ERROR"
  by (induction as arbitrary: err k) (auto simp: case_prod_beta Let_def split: if_splits)

lemma hold_commute: "hold x (hold y b) = hold y (hold x b)"
  by (simp add: hold_def add_mset_commute)

lemma hold_error: "hold LIBUS_SOCKET_ERROR b = b"
  by (simp add: hold_def)

lemma goes_listen_unix:
  assumes "internal_bsd_create_listen_socket_unix sa err k' = (fd, err', k'')" "goes k a k' b"
  shows "goes k a k'' (hold fd b)"
proof -
  obtain f er l where sk: "bsd_create_socket AF_UNIX SOCK_STREAM k' = (f, er, l)" by (metis surj_pair)
  obtain r er' l' where bd: "us_internal_bind_and_listen f sa 512 err l = (r, er', l')" by (metis surj_pair)
  have c: "goes k a l (hold f b)" using goes_create_socket [OF assms(2), of AF_UNIX SOCK_STREAM] by (simp add: sk)
  have d: "goes k a l' (hold f b)" using goes_bind_and_listen [OF c, of f sa 512 err] by (simp add: bd)
  show ?thesis
    using assms(1) c d goes_close [OF d]
    by (auto simp: internal_bsd_create_listen_socket_unix_def sk bd hold_error split: if_splits)
qed

lemma goes_connect:
  assumes "bsd_create_socket domain SOCK_STREAM k' = (f, er, l)" "goes k a k' b"
    "(fd, k'') = (if f = LIBUS_SOCKET_ERROR then (LIBUS_SOCKET_ERROR, l)
       else let (rc, k) = bsd_do_connect_raw f sa l in
         if rc \<noteq> 0 then (LIBUS_SOCKET_ERROR, bsd_close_socket f k) else (f, k))"
  shows "goes k a k'' (hold fd b)"
proof -
  obtain r l' where co: "bsd_do_connect_raw f sa l = (r, l')" by (metis surj_pair)
  have c: "goes k a l (hold f b)" using goes_create_socket [OF assms(2), of domain SOCK_STREAM] by (simp add: assms(1))
  have d: "goes k a l' (hold f b)" using goes_connect_raw [OF c, of f sa] by (simp add: co)
  show ?thesis using assms(3) c d goes_close [OF d] by (auto simp: co hold_error split: if_splits)
qed

lemma goes_close_dir:
  "goes k a k' (hold fd (hold dirfd b)) \<Longrightarrow> goes k a (if dirfd \<noteq> -1 then sys_do (Sys_close dirfd) k' else k') (hold fd b)"
  using goes_close [of k a k' dirfd "hold fd b"]
  by (auto simp: hold_commute [of fd] bsd_close_socket_def LIBUS_SOCKET_ERROR_def hold_error [unfolded LIBUS_SOCKET_ERROR_def])

lemma goes_udp_first:
  assumes "udp_first fam as f la err k' = (f', la', err', k'')" "goes k a k' (hold f b)" "f \<noteq> LIBUS_SOCKET_ERROR \<Longrightarrow> err = 0"
  shows "goes k a k'' (hold f' b) \<and> (f' \<noteq> LIBUS_SOCKET_ERROR \<longrightarrow> err' = 0 \<and> (f \<noteq> LIBUS_SOCKET_ERROR \<or> as \<noteq> []))"
  using assms
proof (induction as arbitrary: f la err k')
  case (Cons ai as)
  obtain fd er kk where sk: "bsd_create_socket fam SOCK_DGRAM k' = (fd, er, kk)" by (metis surj_pair)
  have c: "goes k a kk (hold fd b)" if "f = LIBUS_SOCKET_ERROR"
    using goes_create_socket [of k a k' b fam SOCK_DGRAM] Cons.prems(2) that by (simp add: sk hold_error)
  have z: "er = 0" if "fd \<noteq> LIBUS_SOCKET_ERROR"
    using sk that by (auto simp: bsd_create_socket_def case_prod_beta Let_def split: if_splits)
  show ?case
    using Cons.prems Cons.IH [of fd "Some ai" er kk] Cons.IH [of f la err k'] c z by (auto simp: sk split: if_splits)
qed simp

lemma goes_getaddrinfo:
  "goes k (b, False) (snd (sys (Sys_getaddrinfo host port) k))
     (b, r_ret (fst (sys (Sys_getaddrinfo host port) k)) = 0 \<and> r_addrs (fst (sys (Sys_getaddrinfo host port) k)) \<noteq> [])"
  by (rule goes_sys) simp

lemma goes_freeaddrinfo: "goes k a k' b \<Longrightarrow> goes k a (sys_do Sys_freeaddrinfo k') (fst b, False)"
  unfolding sys_do_def by (erule goes_trans, rule goes_sys) (cases b, simp)

lemma goes_held: "goes k ({#}, False) k' b \<Longrightarrow> \<exists>h. steps k h k' \<and> held h = b"
  by (simp add: goes_def held_def)

lemma held_zero: "(if fd = LIBUS_SOCKET_ERROR then {#} else {#fd#}, False) = hold fd ({#}, False)"
  by (simp add: hold_def)

text \<open>
  C22: Whatever the system calls answer, creating a listening socket leaves open the descriptor it returns and
  nothing else: every candidate that could not be bound is closed, and the resolver's list of addresses is freed.
\<close>

theorem listen_socket_leaks_nothing:
  assumes "bsd_create_listen_socket host port options err k = (fd, err', k')"
  shows "\<exists>h. steps k h k' \<and> held h = (if fd = LIBUS_SOCKET_ERROR then {#} else {#fd#}, False)"
proof -
  obtain r l where g: "sys (Sys_getaddrinfo host port) k = (r, l)" by fastforce
  have start: "goes k ({#}, False) l ({#}, r_ret r = 0 \<and> r_addrs r \<noteq> [])"
    using goes_getaddrinfo [of k "{#}" host port] by (simp add: g)
  obtain f1 e1 l1 where l1: "listen_first AF_INET6 options (r_addrs r) err l = (f1, e1, l1)" by (metis surj_pair)
  obtain f2 e2 l2 where l2: "listen_first AF_INET options (r_addrs r) e1 l1 = (f2, e2, l2)" by (metis surj_pair)
  note s1 = goes_listen_first [OF start, of AF_INET6 options "r_addrs r" err, unfolded l1]
  note s2 = goes_listen_first [of k "({#}, False)" l1 "({#}, r_ret r = 0 \<and> r_addrs r \<noteq> [])" AF_INET options "r_addrs r" e1, unfolded l2]
  have n: "fd \<noteq> LIBUS_SOCKET_ERROR" if "f1 = Some fd \<or> f1 = None \<and> f2 = Some fd" for fd
    using that listen_first_fd [of AF_INET6 options "r_addrs r" err l fd]
      listen_first_fd [of AF_INET options "r_addrs r" e1 l1 fd] by (auto simp: l1 l2)
  show ?thesis
    using assms start s1 s2 n
    by (intro goes_held) (auto simp: bsd_create_listen_socket_def g l1 l2 hold_def split: if_splits option.splits
      dest: goes_freeaddrinfo)
qed

text \<open>
  The same holds for a listening UNIX socket: with a path too long for an address, the descriptor of its
  directory, which the shortened path goes through, is closed as well.
\<close>

lemma listen_unix_leaks_nothing:
  assumes "bsd_create_listen_socket_unix path err k = (fd, err', k')"
  shows "\<exists>h. steps k h k' \<and> held h = (if fd = LIBUS_SOCKET_ERROR then {#} else {#fd#}, False)"
proof -
  obtain r dirfd sa l where u: "bsd_create_unix_socket_address path k = (r, dirfd, sa, l)" by (metis surj_pair)
  obtain f e l' where i: "internal_bsd_create_listen_socket_unix sa err l = (f, e, l')" by (metis surj_pair)
  note g = goes_unix_address [OF u goes_refl]
  show ?thesis
    using assms g goes_close_dir [OF goes_listen_unix [OF i, of k "({#}, False)" "hold dirfd ({#}, False)"]]
    unfolding held_zero by (intro goes_held) (auto simp: bsd_create_listen_socket_unix_def u i hold_error split: if_splits)
qed

text \<open>
  C21: Connecting leaves open the descriptor that is returned and nothing else, whatever the calls answer, over IP
  and over UNIX sockets: a socket whose connection is refused at once is closed.
\<close>

theorem connect_leaks_nothing:
  "(\<exists>h. steps k h (snd (bsd_create_connect_socket sa k))
     \<and> held h = (if fst (bsd_create_connect_socket sa k) = LIBUS_SOCKET_ERROR then {#}
                 else {#fst (bsd_create_connect_socket sa k)#}, False))
   \<and> (\<exists>h. steps k h (snd (bsd_create_connect_socket_unix path k))
     \<and> held h = (if fst (bsd_create_connect_socket_unix path k) = LIBUS_SOCKET_ERROR then {#}
                 else {#fst (bsd_create_connect_socket_unix path k)#}, False))"
proof -
  obtain f er l where sk: "bsd_create_socket (sa_family sa) SOCK_STREAM k = (f, er, l)" by (metis surj_pair)
  have t: "goes k a (snd (bsd_create_connect_socket sa k)) (hold (fst (bsd_create_connect_socket sa k)) a)" for a
    by (rule goes_connect [OF sk goes_refl]) (simp add: bsd_create_connect_socket_def sk)
  have i: "goes k' a (snd (internal_bsd_create_connect_socket_unix x l)) (hold (fst (internal_bsd_create_connect_socket_unix x l)) b)"
    if "goes k' a l b" for k' l x a b
  proof -
    obtain f er m where sk: "bsd_create_socket AF_UNIX SOCK_STREAM l = (f, er, m)" by (metis surj_pair)
    show ?thesis by (rule goes_connect [OF sk that]) (simp add: internal_bsd_create_connect_socket_unix_def sk)
  qed
  obtain r dirfd x l where u: "bsd_create_unix_socket_address path k = (r, dirfd, x, l)" by (metis surj_pair)
  have "goes k ({#}, False) (snd (bsd_create_connect_socket_unix path k))
      (hold (fst (bsd_create_connect_socket_unix path k)) ({#}, False))"
    using goes_unix_address [OF u goes_refl] goes_close_dir [OF i [of k "({#}, False)" l "hold dirfd ({#}, False)" x]]
    by (auto simp: bsd_create_connect_socket_unix_def u hold_error case_prod_beta Let_def split: if_splits)
  with goes_held [OF t] show ?thesis unfolding held_zero by (blast intro: goes_held)
qed


subsection \<open>Witnesses\<close>

definition answers :: "reply list \<Rightarrow> kernel" where
  "answers rs = \<lparr> errno = 0, replies = rs, trace = [] \<rparr>"

definition ok :: "int \<Rightarrow> reply" where
  "ok n = default_reply\<lparr>r_ret := n\<rparr>"

definition found :: "family \<Rightarrow> reply" where
  "found f = (ok 0)\<lparr>r_addrs := [\<lparr>ai_family = f, ai_addr = Sa_in (31, 144) [127, 0, 0, 1]\<rparr>]\<rparr>"

text \<open>A host with one IPv4 address: the socket is bound and listens.\<close>

theorem listen_socket_leaks_nothing_witness:
  "\<exists>h k' err'. bsd_create_listen_socket ''h'' 8080 0 0 (answers [found AF_INET, ok 9, ok 0, ok 0, ok 0]) = (9, err', k')
     \<and> held h = ({#9#}, False)"
proof -
  have f: "fst (bsd_create_listen_socket ''h'' 8080 0 0 (answers [found AF_INET, ok 9, ok 0, ok 0, ok 0])) = 9"
    by code_simp
  obtain fd err' k' where l:
    "bsd_create_listen_socket ''h'' 8080 0 0 (answers [found AF_INET, ok 9, ok 0, ok 0, ok 0]) = (fd, err', k')"
    by (metis surj_pair)
  with f listen_socket_leaks_nothing [OF l] show ?thesis by (auto simp: LIBUS_SOCKET_ERROR_def)
qed

lemma steps_det:
  assumes "steps k h k'" "steps k h' k'"
  shows "h = h'"
proof -
  have m: "map (\<lambda>(c, r). Sys c) h = map (\<lambda>(c, r). Sys c) h'"
    using assms by (simp add: steps_def)
  then have len: "length h = length h'" by (metis length_map)
  have "h ! i = h' ! i" if "i < length h" for i
  proof -
    have "fst (h ! i) = fst (h' ! i)" using arg_cong [OF m, of "\<lambda>l. l ! i"] that len by (simp add: case_prod_beta)
    moreover have "snd (h ! i) = snd (h' ! i)" using assms that len by (simp add: steps_def)
    ultimately show ?thesis by (rule prod_eqI)
  qed
  then show ?thesis using len by (simp add: list_eq_iff_nth_eq)
qed

definition v6_leak :: history where
  "v6_leak = [(Sys_getaddrinfo ''h'' 53, found AF_INET6), (Sys_socket AF_INET6 SOCK_DGRAM, ok 9),
     (Sys_setsockopt 9 IPPROTO_IPV6 IPV6_V6ONLY (Ov_int 0), ok (-1))]"


end
