(* ===== verification/Us_Names.thy ===== *)
theory Us_Names imports
  "Us_Output"
begin

section \<open>Properties of addresses and options\<close>

subsection \<open>Ports\<close>

lemma ntohs_htons: "0 \<le> port \<Longrightarrow> port < 65536 \<Longrightarrow> ntohs (htons port) = port"
  by (simp add: ntohs_def htons_def unsigned_of_int take_bit_eq_mod pos_imp_zdiv_nonneg_iff)

text \<open>
  C32: A literal address is read back as it was given: the port that is stored in network order and the bytes of the
  address come out of the accessors again, with the length of the family.
\<close>

theorem literal_address_roundtrip:
  assumes "try_parse_ip pton host port = Some sa" "0 \<le> port" "port < 65536"
  shows "bsd_addr_get_port (internal_finalize_bsd_addr sa) = port
    \<and> (case pton AF_INET host of
         Some ip \<Rightarrow> sa_family sa = AF_INET \<and> bsd_addr_get_ip (internal_finalize_bsd_addr sa) = ip
           \<and> bsd_addr_get_ip_length (internal_finalize_bsd_addr sa) = 4
       | None \<Rightarrow> sa_family sa = AF_INET6 \<and> pton AF_INET6 host = Some (bsd_addr_get_ip (internal_finalize_bsd_addr sa))
           \<and> bsd_addr_get_ip_length (internal_finalize_bsd_addr sa) = 16)
    \<and> internal_finalize_bsd_addr (init_addr_with_port sa port) = internal_finalize_bsd_addr sa"
  using assms
  by (auto simp: try_parse_ip_def internal_finalize_bsd_addr_def bsd_addr_get_port_def bsd_addr_get_ip_def
      bsd_addr_get_ip_length_def ntohs_htons split: option.splits)

text \<open>A resolver of numeric addresses that knows one.\<close>

definition localhost_pton :: "family \<Rightarrow> char list \<Rightarrow> u8 list option" where
  "localhost_pton f h = (if f = AF_INET \<and> h = ''127.0.0.1'' then Some [127, 0, 0, 1] else None)"

theorem literal_address_roundtrip_witness:
  "bsd_addr_get_port (internal_finalize_bsd_addr (Sa_in (31, 144) [127, 0, 0, 1])) = 8080"
  using literal_address_roundtrip [of localhost_pton "''127.0.0.1''" 8080 "Sa_in (31, 144) [127, 0, 0, 1]"]
  by (simp add: try_parse_ip_def localhost_pton_def htons_def)

subsection \<open>Paths of UNIX sockets\<close>

lemma decimal_nz: "0 \<notin> set (decimal n)"
proof (induction n rule: decimal.induct)
  case (1 n)
  have z: "(of_nat (48 + m) :: u8) \<noteq> 0" if "m < 10" for m
  proof
    assume "(of_nat (48 + m) :: u8) = 0"
    then have "unat (of_nat (48 + m) :: u8) = 0" by simp
    with that show False by (simp add: unsigned_of_nat take_bit_eq_mod del: unat_eq_zero of_nat_add)
  qed
  have "n mod 10 < 10" by simp
  with 1 z show ?case by (subst decimal.simps) (auto split: if_splits)
qed

lemma proc_self_fd_nz: "0 \<notin> set proc_self_fd"
  by (simp add: proc_self_fd_def)

definition c_string :: "u8 list \<Rightarrow> u8 list" where
  "c_string p = takeWhile (\<lambda>b. b \<noteq> 0) p"

lemma c_string_padded: "length p < SUN_PATH_SIZE \<Longrightarrow> c_string (padded_sun_path p) = c_string p"
  by (auto simp: c_string_def padded_sun_path_def takeWhile_append takeWhile_eq_all_conv [THEN iffD2] intro!: sym [OF takeWhile_eq_all_conv [THEN iffD2]])

lemma padded_shape:
  "length p < SUN_PATH_SIZE \<Longrightarrow> length (padded_sun_path p) = SUN_PATH_SIZE \<and> last (padded_sun_path p) = 0 \<and> padded_sun_path p \<noteq> []"
  by (simp add: padded_sun_path_def last_append)

lemma c_string_proc:
  "c_string (proc_self_fd @ decimal n @ [slash] @ takeWhile (\<lambda>b. b \<noteq> 0) q) = proc_self_fd @ decimal n @ [slash] @ c_string q"
proof -
  have "takeWhile (\<lambda>b. b \<noteq> 0) (x @ y) = x @ takeWhile (\<lambda>b. b \<noteq> 0) y" if "0 \<notin> set x" for x y :: "u8 list"
    using that by (intro takeWhile_append2) auto
  then show ?thesis using decimal_nz [of n] proc_self_fd_nz by (simp add: c_string_def slash_def)
qed

text \<open>
  C33: An address for a UNIX path never overruns its 108 bytes. A path that is short enough is stored whole and
  ends in a zero byte, an abstract name exactly; a longer one is replaced by one through the descriptor of its
  directory, again ended by a zero byte, with the same last component. Every refusal sets \<open>errno\<close>.
\<close>

theorem unix_address_fits:
  assumes "bsd_create_unix_socket_address path k = (r, dirfd, sa, k')"
  shows "(r = 0 \<longrightarrow> (\<exists>p. sa = Sa_un p \<and> p \<noteq> [] \<and> length p \<le> SUN_PATH_SIZE
       \<and> (path ! 0 = 0 \<longrightarrow> p = path \<and> dirfd = -1)
       \<and> (path ! 0 \<noteq> 0 \<longrightarrow> length p = SUN_PATH_SIZE \<and> last p = 0)
       \<and> (path ! 0 \<noteq> 0 \<and> length path < SUN_PATH_SIZE \<longrightarrow> c_string p = c_string path \<and> dirfd = -1)
       \<and> (path ! 0 \<noteq> 0 \<and> SUN_PATH_SIZE \<le> length path \<longrightarrow> dirfd \<noteq> -1 \<and>
            c_string p = proc_self_fd @ decimal (nat dirfd) @ [slash] @ c_string (drop (dirname_len path (length path)) path))))
     \<and> (r \<noteq> 0 \<longrightarrow> r = LIBUS_SOCKET_ERROR \<and> dirfd = -1
          \<and> errno k' = (if path = [] then ENOENT else ENAMETOOLONG))
     \<and> (path \<noteq> [] \<and> length path < SUN_PATH_SIZE \<longrightarrow> r = 0 \<and> k' = k)"
proof -
  define dl where "dl = dirname_len path (length path)"
  obtain d l where o: "sys_ret (Sys_open_dir (take dl path)) k = (d, l)" by fastforce
  define sp where "sp = proc_self_fd @ decimal (nat d) @ [slash] @ takeWhile (\<lambda>b. b \<noteq> 0) (drop dl path)"
  have n: "SUN_PATH_SIZE \<noteq> 0" by (simp add: SUN_PATH_SIZE_def)
  show ?thesis
  proof (cases "path = [] \<or> SUN_PATH_SIZE \<le> length path \<and> path ! 0 = 0")
    case True
    then show ?thesis using assms n by (auto simp: bsd_create_unix_socket_address_def LIBUS_SOCKET_ERROR_def set_errno_def)
  next
    case False
    show ?thesis
    proof (cases "SUN_PATH_SIZE \<le> length path")
      case True
      with False assms have "(r, dirfd, sa, k') = 
         (if dl < 2 \<or> length path - dl + 1 \<ge> SUN_PATH_SIZE \<or> dl + 1 > DIRNAME_BUF_SIZE
          then (LIBUS_SOCKET_ERROR, -1, Sa_unspec, set_errno ENAMETOOLONG k)
          else if d = -1 then (LIBUS_SOCKET_ERROR, -1, Sa_unspec, set_errno ENAMETOOLONG l)
          else if length sp \<ge> SUN_PATH_SIZE
          then (LIBUS_SOCKET_ERROR, -1, Sa_unspec, set_errno ENAMETOOLONG (sys_do (Sys_close d) l))
          else (0, d, Sa_un (padded_sun_path sp), l))"
        unfolding assms [symmetric] bsd_create_unix_socket_address_def sp_def dl_def [symmetric]
        by (simp add: dl_def [symmetric] o Let_def)
      moreover have "length sp < SUN_PATH_SIZE \<Longrightarrow> c_string (padded_sun_path sp) = proc_self_fd @ decimal (nat d) @ [slash] @ c_string (drop dl path)"
        by (simp only: c_string_padded) (simp add: sp_def c_string_proc [simplified])
      ultimately show ?thesis using True False padded_shape [of sp]
        by (auto simp: LIBUS_SOCKET_ERROR_def set_errno_def dl_def [symmetric] split: if_splits)
    next
      case short: False
      with False assms show ?thesis using padded_shape [of path]
        by (auto simp: bsd_create_unix_socket_address_def c_string_padded split: if_splits)
    qed
  qed
qed

lemma long_path_answer:
  "fst (bsd_create_unix_socket_address (slash # replicate 60 97 @ slash # replicate 60 98) \<lparr>errno = 0, replies = [default_reply\<lparr>r_ret := 12\<rparr>], trace = []\<rparr>) = 0"
  by code_simp

theorem unix_address_fits_witness:
  "\<exists>dirfd p k'. bsd_create_unix_socket_address (slash # replicate 60 97 @ slash # replicate 60 98)
      \<lparr>errno = 0, replies = [default_reply\<lparr>r_ret := 12\<rparr>], trace = []\<rparr> = (0, dirfd, Sa_un p, k') \<and> length p = 108 \<and> last p = 0"
proof -
  obtain r dirfd sa k' where l: "bsd_create_unix_socket_address (slash # replicate 60 97 @ slash # replicate 60 98)
      \<lparr>errno = 0, replies = [default_reply\<lparr>r_ret := 12\<rparr>], trace = []\<rparr> = (r, dirfd, sa, k')" by (metis surj_pair)
  then show ?thesis using unix_address_fits [OF l] long_path_answer by (auto simp: slash_def SUN_PATH_SIZE_def)
qed

subsection \<open>Options\<close>

text \<open>
  Options are checked before the kernel is asked: a time to live outside 1 to 255, addresses of different
  families in a membership, a source and a group that are not both IPv4 or both IPv6, and an interface address
  that is itself a multicast address are refused with \<open>EINVAL\<close>, and no system call is made.
\<close>

theorem options_checked:
  "(ttl < 1 \<or> 255 < ttl \<longrightarrow> bsd_socket_ttl_unicast fd ttl k = (-1, set_errno EINVAL k)
      \<and> bsd_socket_ttl_multicast fd ttl k = (-1, set_errno EINVAL k))
   \<and> (sa_family addr \<noteq> sa_family i \<longrightarrow> bsd_socket_set_membership fd addr (Some i) drp k = (-1, set_errno EINVAL k))
   \<and> (sa_family source \<noteq> sa_family grp \<or> sa_family source \<notin> {AF_INET, AF_INET6} \<longrightarrow>
        bsd_socket_set_source_specific_membership fd source grp iface drp k = (-1, set_errno EINVAL k))
   \<and> (224 \<le> b \<and> b \<le> 239 \<longrightarrow>
        bsd_socket_multicast_interface fd (Sa_in port (b # ip)) k = (-1, set_errno EINVAL k))"
  by (auto simp: bsd_socket_ttl_unicast_def bsd_socket_ttl_multicast_def bsd_socket_ttl_any_def bsd_socket_set_membership_def
      bsd_socket_set_source_specific_membership_def bsd_socket_multicast_interface_def word_le_def)

theorem options_checked_witness:
  "bsd_socket_ttl_unicast 9 256 (kern (scene [])) = (-1, set_errno EINVAL (kern (scene [])))
   \<and> bsd_socket_multicast_interface 9 (Sa_in (0, 0) [224, 0, 0, 1]) (kern (scene [])) = (-1, set_errno EINVAL (kern (scene [])))"
  using options_checked [of 256 9 "kern (scene [])" _ _ _ _ _ _ 224 "(0, 0)" "[0, 0, 1]"] by simp

end
