(* ===== verification/Us_Datagrams.thy ===== *)
theory Us_Datagrams imports
  "Us_Output"
begin

section \<open>Properties of datagram sockets\<close>

subsection \<open>Sending\<close>

definition datagram :: "u8 list \<Rightarrow> sockaddr option \<Rightarrow> mmsg" where
  "datagram p a = \<lparr> msg_name = (if has_inet_addr a then the a else Sa_unspec), msg_payload = p, msg_len = 0,
     msg_flags = 0, msg_control = [] \<rparr>"

lemma sendbuf_datagrams:
  assumes "0 < num" "nat num \<le> length payloads" "length addresses = length payloads"
  shows "sb_msgvec (bsd_udp_setup_sendbuf LIBUS_SEND_BUFFER_LENGTH payloads addresses num) =
    map2 datagram (take (nat (min 204 num)) payloads) (take (nat (min 204 num)) addresses)"
  using assms sendbuf_count_min [of num]
  by (auto simp: bsd_udp_setup_sendbuf_def datagram_def addr_msg_def has_inet_addr_def Let_def split: option.splits)

lemma udp_send_step:
  assumes "0 < num" "nat num \<le> length payloads" "length addresses = length payloads"
    "bsd_sendmmsg (us_poll_fd s w) (map2 datagram (take (nat (min 204 num)) payloads) (take (nat (min 204 num)) addresses))
       (kern w) = (sent, k)"
  shows "us_udp_socket_send s payloads addresses num w =
    (if sent < 0 then (sent, upd_kern (\<lambda>_. k) w)
     else udp_send_loop s (drop (nat (min 204 num)) payloads) (drop (nat (min 204 num)) addresses) (num - min 204 num) (nat sent)
            (if sent < num - min 204 num then us_poll_change s (LIBUS_SOCKET_READABLE OR LIBUS_SOCKET_WRITABLE) (upd_kern (\<lambda>_. k) w)
             else upd_kern (\<lambda>_. k) w))"
proof -
  have "lift_k (bsd_sendmmsg (us_poll_fd s w) (sb_msgvec (bsd_udp_setup_sendbuf LIBUS_SEND_BUFFER_LENGTH payloads addresses num))) w
      = (sent, upd_kern (\<lambda>_. k) w)"
    by (simp add: lift_k_def sendbuf_datagrams [OF assms(1-3)] assms(4))
  with assms(1) sendbuf_count_min [of num] show ?thesis
    by (simp add: us_udp_socket_send_def udp_send_loop.simps [of s payloads addresses num 0 w] Let_def)
qed

text \<open>
  Up to 204 datagrams are sent with one system call, in the order given, each with its payload and with its
  address when that is an IPv4 or IPv6 one; the result is the number the kernel took, or its error.
\<close>

theorem udp_send_one_call:
  assumes "0 < num" "num \<le> 204" "nat num = length payloads" "length addresses = length payloads"
    "bsd_sendmmsg (us_poll_fd s w) (map2 datagram payloads addresses) (kern w) = (sent, k)"
  shows "us_udp_socket_send s payloads addresses num w = (sent, upd_kern (\<lambda>_. k) w)"
  using assms udp_send_step [of num payloads addresses s w sent k] by (simp add: udp_send_loop.simps)


definition accepts :: "int \<Rightarrow> reply" where
  "accepts n = default_reply\<lparr>r_ret := n\<rparr>"

lemma sendmmsg_answer:
  "0 \<le> n \<Longrightarrow> bsd_sendmmsg fd ms (kern (blank [accepts n])) = (n, snd (bsd_sendmmsg fd ms (kern (blank [accepts n]))))"
  by (simp add: bsd_sendmmsg_def sys_retry.simps [of "Sys_sendmmsg fd ms"] sys_def pop_reply_def blank_def accepts_def
      default_reply_def Let_def case_prod_beta)

theorem udp_send_one_call_witness:
  "fst (us_udp_socket_send 7 [[1], [2]] [None, None] 2 (blank [accepts 2])) = 2"
  using udp_send_one_call [OF _ _ _ _ sendmmsg_answer, of 2 "[[1], [2]]" "[None, None]" 2 7] by simp


subsection \<open>Errors\<close>

definition queued_code :: "reply \<Rightarrow> int" where
  "queued_code r = (let ee = queued_error (reply_control r) in if ee \<noteq> 0 then ee else ECONNREFUSED)"

lemma udp_errors_trace:
  assumes "idle h"
  shows "\<not> u_closed (udps w u) \<Longrightarrow> replies (kern w) = rs @ e # rest \<Longrightarrow> \<forall>r\<in>set rs. 0 \<le> r_ret r \<Longrightarrow> r_ret e < 0 \<Longrightarrow>
    \<exists>w'. udp_errors h u b w = Some (b \<or> rs \<noteq> [], w') \<and> udps w' = udps w \<and> replies (kern w') = rest
      \<and> trace (kern w') = Sys (Sys_recvmsg (us_poll_fd u w) MSG_ERRQUEUE) #
          concat (rev (map (\<lambda>r. [Dispatch (Ev_udp_recv_error u (queued_code r)), Sys (Sys_recvmsg (us_poll_fd u w) MSG_ERRQUEUE)]) rs))
          @ trace (kern w)"
proof (induction rs arbitrary: b w)
  case Nil
  then show ?case
    by (subst udp_errors.simps) (simp add: lift_k_def sys_def pop_reply_def Let_def)
next
  case (Cons r rs)
  define v where "v = log_event (Ev_udp_recv_error u (queued_code r))
      (upd_kern (\<lambda>_. snd (sys (Sys_recvmsg (us_poll_fd u w) MSG_ERRQUEUE) (kern w))) w)"
  have st: "udp_errors h u b w = udp_errors h u True v"
    using Cons.prems dispatch_idle [OF assms]
    by (subst udp_errors.simps) (simp add: lift_k_def sys_def pop_reply_def Let_def v_def queued_code_def case_prod_beta)
  have v: "udps v = udps w" "us_poll_fd u v = us_poll_fd u w" "replies (kern v) = rs @ e # rest"
    "trace (kern v) = Dispatch (Ev_udp_recv_error u (queued_code r)) # Sys (Sys_recvmsg (us_poll_fd u w) MSG_ERRQUEUE) # trace (kern w)"
    using Cons.prems(2) by (simp_all add: v_def log_event_def sys_def us_poll_fd_def Let_def)
  from Cons.IH [of v True] Cons.prems v st show ?case by simp
qed



subsection \<open>Receiving\<close>

text \<open>
  The slots that datagrams are received into lie one after the other in the receive buffer, without overlap,
  eight of them filling it exactly, and the length reported for a datagram never exceeds its slot.
\<close>

lemma recv_slots_fit:
  "length (bsd_udp_setup_recvbuf buf) = nat LIBUS_UDP_RECV_COUNT
   \<and> (\<forall>i < nat LIBUS_UDP_RECV_COUNT. iov_base (bsd_udp_setup_recvbuf buf ! i) = buf + int i * LIBUS_UDP_MAX_SIZE
       \<and> buf \<le> iov_base (bsd_udp_setup_recvbuf buf ! i)
       \<and> iov_base (bsd_udp_setup_recvbuf buf ! i) + iov_len (bsd_udp_setup_recvbuf buf ! i) \<le> buf + LIBUS_RECV_BUFFER_LENGTH
       \<and> (\<forall>j < i. iov_base (bsd_udp_setup_recvbuf buf ! j) + iov_len (bsd_udp_setup_recvbuf buf ! j)
                   \<le> iov_base (bsd_udp_setup_recvbuf buf ! i))
       \<and> us_udp_packet_buffer_payload_length ms i \<le> iov_len (bsd_udp_setup_recvbuf buf ! i))"
  by (auto simp: bsd_udp_setup_recvbuf_def LIBUS_UDP_RECV_COUNT_def LIBUS_UDP_MAX_SIZE_def LIBUS_RECV_BUFFER_LENGTH_def
      us_udp_packet_buffer_payload_length_def bsd_udp_packet_buffer_payload_length_def Let_def)

end
