(* ===== verification/Us_Receiving.thy ===== *)
theory Us_Receiving imports
  "Us_Parking"
  "Us_Dispatch"
begin

section \<open>Serving a ready socket keeps the invariant\<close>

text \<open>
  The reading and writing of one ready socket, plain or with TLS, over an application that calls back
  into the library from every event (\<open>event_contract\<close>: it also returns the socket it was given, or
  none). Reading, the two mutually recursive TLS events, the end of the stream and the gate for
  handshakes are followed through all their branches.
\<close>

subsection \<open>The contract\<close>

fun about :: "event \<Rightarrow> ptr" where
  "about (Ev_open s _ _) = Some s"
| "about (Ev_data s _) = Some s"
| "about (Ev_fd s _) = Some s"
| "about (Ev_writable s) = Some s"
| "about (Ev_close s _ _) = Some s"
| "about (Ev_timeout s) = Some s"
| "about (Ev_long_timeout s) = Some s"
| "about (Ev_end s) = Some s"
| "about (Ev_connect_error s _) = Some s"
| "about (Ev_handshake s _ _) = Some s"
| "about (Ev_ssl_raw_tap s _) = Some s"
| "about _ = None"

locale event_contract = dispatch_contract +
  assumes returns: "fst (h e w) = None \<or> fst (h e w) = about e"
begin

lemma dispatch_ptr: "fst (dispatch h e w) = None \<or> fst (dispatch h e w) = about e"
  by (simp add: dispatch_def returns)

lemma ssl_on_close_ptr: "fst (us_internal_ssl_on_close h s code reason w) \<in> {None, Some s}"
  using dispatch_ptr [of "Ev_close s code reason"]
  by (auto simp: us_internal_ssl_on_close_def Let_def case_prod_beta)

lemma close_raw_ptr: "fst (us_internal_socket_close_raw h s code reason w) \<in> {None, Some s}"
  using dispatch_ptr [of "Ev_close s code reason"] ssl_on_close_ptr [of s code reason]
  by (auto simp: us_internal_socket_close_raw_def Let_def case_prod_beta)

lemma ssl_close_ptr: "fst (us_internal_ssl_close h s code reason w) \<in> {None, Some s}"
  using close_raw_ptr
  by (subst us_internal_ssl_close.simps) (simp add: Let_def case_prod_beta)

end

subsection \<open>Results of partial functions\<close>

definition okp :: "addr set \<Rightarrow> world \<Rightarrow> ('a \<Rightarrow> bool) \<Rightarrow> ('a \<times> world) option \<Rightarrow> bool" where
  "okp S v P r \<longleftrightarrow> (\<forall>p w. r = Some (p, w) \<longrightarrow> P p \<and> okw S v w)"

lemma okp_intro:
  "P (fst x) \<Longrightarrow> okw S v (snd x) \<Longrightarrow> okp S v P (Some x)"
  "P a \<Longrightarrow> okw S v w \<Longrightarrow> okp S v P (Some (a, w))"
  "okp S v P None"
  "(b \<Longrightarrow> okp S v P r1) \<Longrightarrow> (\<not> b \<Longrightarrow> okp S v P r2) \<Longrightarrow> okp S v P (if b then r1 else r2)"
  by (simp_all add: okp_def) auto

lemma okp_pair: "okw S v (snd q) \<Longrightarrow> (\<And>a b. q = (a, b) \<Longrightarrow> okw S v b \<Longrightarrow> okp S v P (k a b)) \<Longrightarrow>
    okp S v P (case q of (a, b) \<Rightarrow> k a b)"
  by (cases q) simp

lemma okp_let: "okw S v W \<Longrightarrow> (\<And>w. okw S v w \<Longrightarrow> okp S v P (k w)) \<Longrightarrow> okp S v P (let w = W in k w)"
  by simp

lemma okp_let_pair: "okw S v (snd q) \<Longrightarrow> (\<And>a b. q = (a, b) \<Longrightarrow> okw S v b \<Longrightarrow> okp S v P (k a b)) \<Longrightarrow>
    okp S v P (let (a, b) = q in k a b)"
  by (cases q) simp

lemma okp_bind: "okp S v Q r \<Longrightarrow> (\<And>a w. Q a \<Longrightarrow> okw S v w \<Longrightarrow> okp S v P (f (a, w))) \<Longrightarrow> okp S v P (Option.bind r f)"
  by (auto simp: okp_def split: bind_splits)

lemma okp_trans: "okw S u v \<Longrightarrow> okp S v P r \<Longrightarrow> okp S u P r"
  by (auto simp: okp_def intro: okw_trans)

lemma okp_SomeD: "okp S v P (Some (a, w)) \<Longrightarrow> P a \<and> okw S v w"
  by (simp add: okp_def)

text \<open>The pointers that come back, and a socket that was not moved, so that following it leads back to it.\<close>

definition read_result :: "addr \<Rightarrow> read_end \<Rightarrow> bool" where
  "read_result s e \<longleftrightarrow> (case e of Returned p \<Rightarrow> p \<in> {None, Some s} | Broke x \<Rightarrow> x = s)"

definition sock_result :: "addr \<Rightarrow> ptr \<Rightarrow> bool" where
  "sock_result s p \<longleftrightarrow> p \<in> {None, Some s}"

definition okn :: "addr \<Rightarrow> world \<Rightarrow> bool" where
  "okn s w \<longleftrightarrow> (\<exists>L. inv L w) \<and> heap_tag w s = Some T_socket \<and> \<not> s_adopted (sockets w s)"

definition recv_result :: "addr \<Rightarrow> recv_end \<Rightarrow> bool" where
  "recv_result s e \<longleftrightarrow> (case e of Recv_return \<Rightarrow> True | Recv_done p _ \<Rightarrow> sock_result s p)"

lemma okw_okn: "okw {s} v w \<Longrightarrow> okn s v \<Longrightarrow> okn s w"
  by (auto simp: okw_def okn_def)

lemma follow_okn: "sock_result s p \<Longrightarrow> okn s w \<Longrightarrow> follow_adopted p w = p"
  by (auto simp: sock_result_def follow_adopted_def okn_def)

subsection \<open>TLS: the reading loop\<close>

context event_contract begin

lemma renegotiate_ok: "okw S v w \<Longrightarrow> okw S v (snd (ssl_renegotiate h s w))"
  unfolding ssl_renegotiate_def Let_def [of "the _"]
  by (assumption | rule okw_struct okw_quiet_ops trigger_handshake_ok okw_upd_s | simp)+

lemma ssl_call_okw: "okw S v w \<Longrightarrow> okw S v (snd (ssl_call opr ssl w))"
  by (simp add: ssl_call_def case_prod_beta Let_def okw_quiet [OF _ quiet_bio_steps] quiet_lift_k quiet_intro)

lemma upd_loop_okw:
  assumes "okw S v w" "\<And>l. ld_head (f l) = ld_head l" "\<And>l. ld_iterator (f l) = ld_iterator l"
    "\<And>l. ld_low_prio_head (f l) = ld_low_prio_head l" "\<And>l. ld_closed_head (f l) = ld_closed_head l"
    "\<And>l. ld_sweep_timer_count (f l) = ld_sweep_timer_count l"
  shows "okw S v (upd_loop f w)"
  by (rule okw_quiet [OF assms(1)], rule quiet_upd_loop) (simp_all add: assms)

lemma data_ptr: "dispatch h (Ev_data s buf) w = (p, w') \<Longrightarrow> \<not> gone_ptr p w' \<Longrightarrow> the p = s"
  using dispatch_ptr [of "Ev_data s buf" w] by (auto simp: gone_ptr_def)

lemma data_ptr': "(if b then dispatch h (Ev_data s buf) w else (Some s, w)) = (p, w') \<Longrightarrow> \<not> (b \<and> gone_ptr p w') \<Longrightarrow> the p = s"
  by (cases b) (auto dest: data_ptr)

lemma ssl_close_eq: "okw {s} v w \<Longrightarrow> x = s \<Longrightarrow> okw {s} v (snd (us_internal_ssl_close h x code reason w))"
  by (simp add: ssl_close_ok)

lemma read_result_intro:
  "read_result s (Returned None)" "x = s \<Longrightarrow> read_result s (Broke x)"
  by (simp_all add: read_result_def)

lemma close_result: "us_internal_ssl_close h s code reason w = (p, w') \<Longrightarrow> read_result s (Returned p)"
  using ssl_close_ptr [of s code reason w] by (auto simp: read_result_def)

lemmas read_rules = okw_struct okw_quiet_ops trigger_handshake_ok okw_upd_s renegotiate_ok ssl_close_eq dispatch_okw
  okw_refl upd_loop_okw ssl_call_okw

lemma read_loop_step: "ssl_read_loop h' s read buf w = Some y \<Longrightarrow> h' = h \<longrightarrow> okp {s} w (read_result s) (Some y)"
proof (induction rule: ssl_read_loop.raw_induct [rotated, consumes 1, case_names 1])
  case (1 f h' s read buf w y)
  show ?case
  proof
    assume e: "h' = h"
    have IH: "okp {s} w (read_result s) (f h s read buf w)" for s read buf w
      using 1(1) [of h s read buf w] by (cases "f h s read buf w") (auto simp: okp_intro(3))
    have rec: "okp {s} v (read_result s) (f h x read buf w)" if "okw {s} v w" "x = s" for s x read buf v w
      using okp_trans [OF that(1) IH] that(2) by simp
    show "okp {s} w (read_result s) (Some y)"
      unfolding 1(2) [symmetric] e Let_def [where 'a = int] Let_def [where 'a = bool] Let_def [where 'a = nat]
        Let_def [where 'a = "u8 list"] Let_def [where 'a = us_loop_t]
      by (assumption | rule okp_intro(2-4) okp_let_pair okp_let read_rules rec read_result_intro refl | erule close_result
          | erule (1) data_ptr data_ptr' | (simp; fail))+
  qed
qed

lemma read_loop_ok: "okp {s} w (read_result s) (ssl_read_loop h s read buf w)"
  using read_loop_step [of h s read buf w] by (cases "ssl_read_loop h s read buf w") (auto simp: okp_intro(3))

subsection \<open>TLS: the two events\<close>

lemma sock_result_intro: "sock_result s None" "sock_result s (Some s)"
  by (simp_all add: sock_result_def)

lemma dispatch_result: "dispatch h e w = (p, w') \<Longrightarrow> about e = Some s \<Longrightarrow> sock_result s p"
  using dispatch_ptr [of e w] by (auto simp: sock_result_def)

lemma dispatch_result_fst: "about e = Some s \<Longrightarrow> sock_result s (fst (dispatch h e w))"
  using dispatch_ptr [of e w] by (auto simp: sock_result_def)

lemma tap_the: "(if b then dispatch h (Ev_ssl_raw_tap s data) w else (Some s, w)) = (p, w') \<Longrightarrow> \<not> (b \<and> gone_ptr p w') \<Longrightarrow> the p = s"
  using dispatch_ptr [of "Ev_ssl_raw_tap s data" w] by (cases b) (auto simp: gone_ptr_def)

lemma tap_result: "(if b then dispatch h (Ev_ssl_raw_tap s data) w else (Some s, w)) = (p, w') \<Longrightarrow> sock_result s p"
  using dispatch_ptr [of "Ev_ssl_raw_tap s data" w] by (cases b) (auto simp: sock_result_def)

lemma result_the: "sock_result s p \<Longrightarrow> \<not> gone_ptr p w \<Longrightarrow> the p = s"
  by (auto simp: sock_result_def gone_ptr_def)

lemmas pump_rules = read_rules update_handshake_ok sock_result_intro

lemma pump_step: "ssl_pump h' ev s w = Some y \<Longrightarrow> h' = h \<longrightarrow> okp {s} w (sock_result s) (Some y)"
proof (induction rule: ssl_pump.raw_induct [rotated, consumes 1, case_names 1])
  case (1 f h' ev s w y)
  show ?case
  proof
    assume e: "h' = h"
    have IH: "okp {s} w (sock_result s) (f h ev s w)" for ev s w
      using 1(1) [of h ev s w] by (cases "f h ev s w") (auto simp: okp_intro(3))
    have rec: "okp {s} v (sock_result s) (f h ev s w)" if "okw {s} v w" for s ev v w
      using okp_trans [OF that(1) IH] .
    have rl: "okp {s} v (read_result s) (ssl_read_loop h s 0 [] w)" if "okw {s} v w" for s v w
      using okp_trans [OF that(1) read_loop_ok] .
    have writable: "okp {s} w (sock_result s) (if again \<and> gone_ptr p u then Some (p, u)
          else let s = the p; (sd, w) = us_internal_ssl_is_shut_down s u in
          if sd then Some (Some s, w)
          else if s_ssl_handshake_state (sockets w s) = HANDSHAKE_COMPLETED
               then Some (dispatch h (Ev_writable s) w)
               else Some (Some s, w))"
      if "again \<longrightarrow> sock_result s p" "\<not> again \<longrightarrow> p = Some s" "okw {s} w u" for again p u
    proof (cases "again \<and> gone_ptr p u")
      case True
      then show ?thesis using that by (simp add: okp_def)
    next
      case False
      then have "the p = s" using that by (cases again) (auto dest: result_the)
      note t = this
      show ?thesis unfolding if_not_P [OF False] Let_def [where 'a = nat] t
        by (assumption | rule okp_intro(2-4) okp_let_pair pump_rules that(3) okp_intro(1) dispatch_result_fst
            | (simp; fail))+
    qed
    have retry: "okp {s} w (\<lambda>p. (again \<longrightarrow> sock_result s p) \<and> (\<not> again \<longrightarrow> p = Some s))
        (if again then f h (Some []) s u else Some (Some s, u))" if "okw {s} w u" for again u
      using rec [OF that, of "Some []"] that by (auto simp: okp_def)
    have broke: "okp {s} w (sock_result s) (case r of
          Returned p \<Rightarrow> Some (p, u)
        | Broke s \<Rightarrow>
            if ssl_gone s u then Some (None, u)
            else if s_ssl_write_wants_read (sockets u s) \<and> \<not> s_ssl_read_wants_write (sockets u s) then
              Option.bind (f h None s (upd_s s (s_ssl_write_wants_read_update (\<lambda>_. False)) u))
                (\<lambda>(p, w). if gone_ptr p w then Some (None, w) else Some (p, w))
            else Some (Some s, u))" if "read_result s r" "okw {s} w u" for r u
    proof (cases r)
      case (Returned p)
      then show ?thesis using that by (simp add: okp_def read_result_def sock_result_def)
    next
      case (Broke x)
      then have t: "r = Broke s" using that(1) by (simp add: read_result_def)
      show ?thesis unfolding t read_end.case
        by (assumption | rule okp_intro(2-4) okp_bind rec okp_pair pump_rules that(2) | (simp; fail))+
    qed
    show "okp {s} w (sock_result s) (Some y)"
    proof (cases ev)
      case None
      show ?thesis
        unfolding 1(2) [symmetric] e None option.case Let_def [where 'a = bool]
        apply (assumption | rule okp_intro(2-4) okp_let pump_rules | (simp; fail))+
        apply (rule okp_bind [OF retry], assumption)
        apply (unfold prod.case)
        apply (rule writable)
        by simp_all
    next
      case (Some data)
      show ?thesis
        unfolding 1(2) [symmetric] e Some option.case Let_def [where 'a = bool]
      proof (rule okp_let_pair, goal_cases)
        case 1
        show ?case by (assumption | rule pump_rules)+
      next
        case (2 p u)
        show ?case
        proof (rule okp_intro(4), goal_cases)
          case 1
          show ?case using tap_result [OF 2(1)] 2(2) by (simp add: okp_def)
        next
          case 3: 2
          have t: "the p = s" by (rule tap_the [OF 2(1) 3])
          show ?case unfolding Let_def [where 'a = nat] t
            apply (assumption | rule okp_intro(2-4) okp_let okp_let_pair pump_rules 2(2) | (simp; fail))+
            apply (rule okp_bind [OF rl], assumption)
            apply (unfold prod.case)
            apply (rule broke)
            by assumption+
        qed
      qed
    qed
  qed
qed

lemma pump_ok: "okw {s} v w \<Longrightarrow> okp {s} v (sock_result s) (ssl_pump h ev s w)"
  using pump_step [of h ev s w] by (cases "ssl_pump h ev s w") (auto simp: okp_intro(3) intro: okp_trans)

subsection \<open>A plain or TLS socket that is ready\<close>

lemma receive_okw: "okw S v w \<Longrightarrow> okw S v (snd (receive s w))"
  by (simp add: receive_def case_prod_beta Let_def okw_quiet_ops frugal_io frugal_recv [unfolded case_prod_beta Let_def])

lemma recv_result_intro: "recv_result s Recv_return" "sock_result s p \<Longrightarrow> recv_result s (Recv_done p b)"
  by (simp_all add: recv_result_def)

lemma fd_result: "(case fd of None \<Rightarrow> (Some s, w) | Some f \<Rightarrow> dispatch h (Ev_fd s f) w) = (p, w') \<Longrightarrow> sock_result s p"
  using dispatch_ptr [of "Ev_fd s (the fd)" w] by (cases fd) (auto simp: sock_result_def)

lemma fd_the: "(case fd of None \<Rightarrow> (Some s, w) | Some f \<Rightarrow> dispatch h (Ev_fd s f) w) = (p, w') \<Longrightarrow>
    \<not> (fd \<noteq> None \<and> closed_ptr p w') \<Longrightarrow> the p = s"
  using dispatch_ptr [of "Ev_fd s (the fd)" w] by (cases fd) (auto simp: closed_ptr_def)

lemma data_event_ok:
  "okw {s} v w \<Longrightarrow> okp {s} v (sock_result s) (if b then us_internal_ssl_on_data h s bytes w else Some (dispatch h (Ev_data s bytes) w))"
  using pump_ok [of s v w "Some bytes"] dispatch_okw [of "{s}" v w "Ev_data s bytes"] dispatch_ptr [of "Ev_data s bytes" w]
  by (auto simp: us_internal_ssl_on_data_def okp_def sock_result_def prod_eq_iff)

lemma close_raw_eq: "okw {s} v w \<Longrightarrow> x = s \<Longrightarrow> okw {s} v (snd (us_internal_socket_close_raw h x code reason w))"
  by (simp add: close_raw_ok)

lemma recv_loop_step: "recv_loop h' s error eof n w = Some y \<Longrightarrow> h' = h \<and> okn s w \<longrightarrow> okp {s} w (recv_result s) (Some y)"
proof (induction rule: recv_loop.raw_induct [rotated, consumes 1, case_names 1])
  case (1 f h' s error eof n w y)
  show ?case
  proof
    assume e: "h' = h \<and> okn s w"
    have rec: "okp {s} w (recv_result s) (f h s error eof n u)" if "okw {s} w u" for eof n u
    proof -
      have "okp {s} u (recv_result s) (f h s error eof n u)"
        using 1(1) [of h s error eof n u] okw_okn [OF that] e by (cases "f h s error eof n u") (auto simp: okp_intro(3))
      then show ?thesis by (rule okp_trans [OF that])
    qed
    have again: "okp {s} w (recv_result s) (let p = follow_adopted p u in
          if read_again len error p u then
            (let n = (if error = 0 then n + 1 else n) in
             if \<not> (n > 10 \<and> lp_num_ready_polls (loop u) > 2) then f h (the p) error eof n u
             else Some (Recv_done p eof, u))
          else Some (Recv_done p eof, u))" if "sock_result s p" "okw {s} w u" for p u len
    proof -
      have p: "follow_adopted p u = p" using follow_okn [OF that(1)] okw_okn [OF that(2)] e by simp
      have t: "read_again len error p u \<Longrightarrow> the p = s" using that(1) by (auto simp: read_again_def sock_result_def)
      show ?thesis unfolding p Let_def [where 'a = ptr] Let_def [where 'a = nat]
        by (assumption | rule okp_intro(2-4) rec recv_result_intro that | (simp add: t rec that; fail))+
    qed
    show "okp {s} w (recv_result s) (Some y)"
      unfolding 1(2) [symmetric] conjunct1 [OF e]
    proof (rule okp_let_pair, rule receive_okw, rule okw_refl, unfold split_paired_all prod.case, rule okp_let_pair, goal_cases)
      case (1 len bytes fd u)
      then show ?case by (cases fd) (simp_all add: dispatch_okw)
    next
      case (2 len bytes fd u p v)
      show ?case
      proof (rule okp_intro(4), goal_cases)
        case 1
        show ?case using fd_result [OF 2(3)] 2(4) by (simp add: okp_def recv_result_def)
      next
        case 3: 2
        have t: "the p = s" by (rule fd_the [OF 2(3) 3])
        show ?case unfolding Let_def [where 'a = nat] t
          by (assumption | rule okp_intro(2-4) okp_bind [OF data_event_ok] recv_result_intro sock_result_intro 2(4) close_raw_eq refl
             | (simp only: prod.case, rule again [unfolded Let_def [where 'a = nat]]))+
      qed
    qed
  qed
qed

lemma recv_loop_ok: "okw {s} v w \<Longrightarrow> okn s v \<Longrightarrow> okp {s} v (recv_result s) (recv_loop h s error eof n w)"
  using recv_loop_step [of h s error eof n w] okw_okn [of s v w]
  by (cases "recv_loop h s error eof n w") (auto simp: okp_intro(3) intro: okp_trans)

lemma writable_event_ok:
  "okw {s} v w \<Longrightarrow> okp {s} v (sock_result s) (if b then us_internal_ssl_on_writable h s w else Some (dispatch h (Ev_writable s) w))"
  using pump_ok [of s v w None] dispatch_okw [of "{s}" v w "Ev_writable s"] dispatch_ptr [of "Ev_writable s" w]
  by (auto simp: us_internal_ssl_on_writable_def okp_def sock_result_def prod_eq_iff)

lemma okp_map: "okp S v Q r \<Longrightarrow> (\<And>a w. Q a \<Longrightarrow> okw S v w \<Longrightarrow> P (fst (f (a, w))) \<and> okw S v (snd (f (a, w)))) \<Longrightarrow> okp S v P (map_option f r)"
  by (cases r) (auto simp: okp_def prod_eq_iff)

lemma socket_writable_ok:
  assumes "okn s w"
  shows "okp {s} w (sock_result s) (socket_writable h s w)"
proof -
  define v where "v = upd_s s (s_last_write_failed_update (\<lambda>_. False)) w"
  have v: "okw {s} w v" unfolding v_def by (rule okw_upd_s) simp_all
  have fin: "okw {s} w (if (\<not> s_last_write_failed (sockets u s) \<or> fst (us_socket_is_shut_down s u)) \<or> b
        then us_poll_change s ev x else x)" if "okw {s} w x" for u b ev x
    using that by (auto intro: okw_quiet_ops)
  show ?thesis
    unfolding socket_writable_def v_def [symmetric] Let_def [where 'a = world]
  proof (rule okp_map [OF writable_event_ok [OF v]])
    fix p u
    assume r: "sock_result s p" "okw {s} w u"
    then have p: "follow_adopted p u = p" using follow_okn okw_okn assms by blast
    have sd: "okw {s} w (snd (us_socket_is_shut_down s u))" by (rule okw_quiet [OF r(2) quiet_shut_down]) simp
    from r sd show "sock_result s (fst (case (p, u) of (p, w) \<Rightarrow> let p = follow_adopted p w in
          if closed_ptr p w then (None, w)
          else let s = the p; (stop, w) = (if \<not> s_last_write_failed (sockets w s) then (True, w) else us_socket_is_shut_down s w)
            in (Some s, if stop then us_poll_change s (us_poll_events s w AND LIBUS_SOCKET_READABLE) w else w)))
      \<and> okw {s} w (snd (case (p, u) of (p, w) \<Rightarrow> let p = follow_adopted p w in
          if closed_ptr p w then (None, w)
          else let s = the p; (stop, w) = (if \<not> s_last_write_failed (sockets w s) then (True, w) else us_socket_is_shut_down s w)
            in (Some s, if stop then us_poll_change s (us_poll_events s w AND LIBUS_SOCKET_READABLE) w else w)))"
      by (auto simp: p Let_def case_prod_beta closed_ptr_def sock_result_def okw_quiet_ops)
  qed
qed

lemma socket_end_ok:
  assumes "okw {s} v w"
  shows "okw {s} v (snd (socket_end h s w))" "sock_result s (fst (socket_end h s w))"
proof -
  have "okw {s} v (ssl_set_loop_data s w)" by (rule okw_quiet_ops(2) [OF assms])
  note c = ssl_close_ok [OF this, of 0 None]
  show "okw {s} v (snd (socket_end h s w))" "sock_result s (fst (socket_end h s w))"
    using c ssl_close_ptr [of s 0 None "ssl_set_loop_data s w"] dispatch_okw [OF assms] dispatch_ptr [of "Ev_end s" w]
    by (auto simp: socket_end_def us_internal_ssl_on_end_def sock_result_def)
qed

lemma socket_eof_ok:
  assumes "okw {s} v w"
  shows "okp {s} v (sock_result s) (socket_eof h s w)"
proof -
  obtain sd u where sd: "us_socket_is_shut_down s w = (sd, u)" by fastforce
  have u: "okw {s} v u" using okw_quiet [OF assms quiet_shut_down, OF quiet_refl, of s] by (simp add: sd)
  obtain p z where e: "socket_end h s u = (p, z)" by fastforce
  have z: "okw {s} v z" "sock_result s p" using socket_end_ok [OF u] by (simp_all add: e)
  have c: "okw {s} v (snd (us_internal_socket_close_raw h s code reason x))" if "okw {s} v x" for code reason x
    by (rule close_raw_ok [OF that])
  have h: "okp {s} v (sock_result s) (Some (socket_end h s (us_poll_change s ev u)))" for ev
    using socket_end_ok [OF okw_quiet_ops(7) [OF u]] by (simp add: okp_def prod_eq_iff)
  show ?thesis
    using assms u z c h by (cases p) (auto simp: socket_eof_def sd e sock_result_def okp_def)
qed

end

subsection \<open>The gate for handshakes\<close>

text \<open>
  What is left of the contract when a socket has been parked. The count of a group's parked sockets has
  16 bits, so the sockets must be fewer than 65536.
\<close>

definition served :: "world \<Rightarrow> world \<Rightarrow> bool" where
  "served v w \<longleftrightarrow> budget w \<le> budget v \<and> (\<forall>L. inv L v \<longrightarrow> inv L w)
     \<and> (\<forall>x. (heap_tag w x = Some T_socket \<longleftrightarrow> heap_tag v x = Some T_socket)
          \<and> (heap_tag v x = Some T_socket \<and> s_is_closed (sockets v x) \<longrightarrow> s_is_closed (sockets w x)))"

definition few :: "world \<Rightarrow> bool" where
  "few w \<longleftrightarrow> card {x. heap_tag w x = Some T_socket} < 2 ^ 16"

lemma okw_served: "okw {s} v w \<Longrightarrow> okn s v \<Longrightarrow> served v w"
  unfolding okw_def served_def okn_def by blast

lemma served_trans: "served u v \<Longrightarrow> served v w \<Longrightarrow> served u w"
  unfolding served_def by auto

lemma okw_few: "okw {s} v w \<Longrightarrow> okn s v \<Longrightarrow> few v \<Longrightarrow> few w"
  by (auto simp: okw_def okn_def few_def)

lemma parked_count:
  assumes "wf_world A w" "s \<in> set (a_socks A g)" "few w"
  shows "unat (g_low_prio_count (groups w g)) + 1 < 2 ^ 16"
proof -
  let ?ls = "filter (\<lambda>s. s_group (sockets w s) = Some g) (a_low A)"
  have l: "unat (g_low_prio_count (groups w g)) = length ?ls" "distinct (a_low A)" "s \<notin> set (a_low A)"
    using assms(1,2) by (auto simp: wf_world_def wf_low_def dest: dll_distinct wf_socks_low)
  have nc: "x \<notin> set (a_closed A)" if "x \<in> insert s (set (a_low A))" for x
  proof
    assume "x \<in> set (a_closed A)"
    then have "s_is_closed (sockets w x)" using assms(1) by (simp add: wf_world_def wf_closed_def)
    moreover have "\<not> s_is_closed (sockets w x)"
      using assms(1,2) that by (auto simp: wf_world_def wf_low_def wf_socks_def)
    ultimately show False by simp
  qed
  have al: "insert s (set ?ls) \<subseteq> {x. heap_tag w x = Some T_socket}"
  proof
    fix x
    assume x: "x \<in> insert s (set ?ls)"
    then have "on_list A x" "x \<notin> set (a_closed A)" using assms(2) nc [of x] by (auto simp: on_list_def)
    with assms(1) show "x \<in> {x. heap_tag w x = Some T_socket}" by (auto simp: wf_world_def wf_heap_def)
  qed
  have "{x. heap_tag w x = Some T_socket} \<subseteq> {..<next_addr w}"
    using assms(1) by (auto simp: wf_world_def wf_heap_def not_le [symmetric])
  then have "finite {x. heap_tag w x = Some T_socket}" by (rule finite_subset) simp
  from card_mono [OF this al] have "card (insert s (set ?ls)) \<le> card {x. heap_tag w x = Some T_socket}" .
  moreover have "card (insert s (set ?ls)) = Suc (length ?ls)"
    using l(2,3) distinct_card [OF distinct_filter [OF l(2)], of "\<lambda>s. s_group (sockets w s) = Some g"] by simp
  ultimately show ?thesis using assms(3) l(1) by (simp add: few_def)
qed

lemma park_served:
  assumes "okn s w" "\<not> s_is_closed (sockets w s)" "s_low_prio_state (sockets w s) \<noteq> 1" "few w"
  shows "served w (low_prio_park s w)"
proof -
  have i: "inv L (low_prio_park s w)" if "inv L w" for L
  proof -
    from that obtain A where A: "wf_world A w" "a_limbo A = L" "a_loose A = {}" by (auto simp: inv_def)
    have "on_list A s" using A(1) assms(1) by (simp add: wf_world_def wf_heap_def okn_def)
    moreover have "s \<notin> set (a_closed A)" "s \<notin> a_limbo A" "s \<notin> set (a_low A)"
      using A(1) assms(2,3) by (auto simp: wf_world_def wf_closed_def wf_low_def)
    ultimately obtain g where g: "s \<in> set (a_socks A g)" using A(3) by (auto simp: on_list_def)
    show ?thesis
      by (rule inv_intro [OF conjunct1 [OF low_prio_park_wf [OF A(1) g parked_count [OF A(1) g assms(4)]]]]) (simp_all add: A)
  qed
  have b: "budget (low_prio_park s w) \<le> budget w"
    by (auto simp: low_prio_park_def Let_def intro!: order.trans [OF budget_unlink_socket] order.trans [OF budget_poll_change])
  have "heap_tag (low_prio_park s w) x = heap_tag w x" "s_is_closed (sockets (low_prio_park s w) x) = s_is_closed (sockets w x)" for x
    by (auto simp: low_prio_park_def low_prio_push_def Let_def split: option.split)
  with i b show ?thesis by (simp add: served_def)
qed

lemma gate_ok:
  assumes "low_prio_gate s w = (go, u)" "okw {s} v w" "okn s v" "few v"
    "\<not> s_is_closed (sockets w s)" "s_low_prio_state (sockets w s) \<noteq> 1"
  shows "(go \<longrightarrow> okw {s} v u) \<and> served v u"
proof -
  obtain low x where l: "(if s_ssl (sockets w s) \<noteq> None then us_internal_ssl_is_low_prio s w else (False, w)) = (low, x)"
    by (cases "if s_ssl (sockets w s) \<noteq> None then us_internal_ssl_is_low_prio s w else (False, w)")
  have q: "quiet w x" using l quiet_ssl_ret [OF quiet_refl, of w SSL_in_init "the (s_ssl (sockets w s))"]
    by (auto simp: us_internal_ssl_is_low_prio_def case_prod_beta Let_def split: if_splits)
  have x: "okw {s} v x" by (rule okw_quiet [OF assms(2) q])
  have st: "\<not> s_is_closed (sockets x s)" "s_low_prio_state (sockets x s) \<noteq> 1" using assms(5,6) q by (simp_all add: quiet_def)
  have u: "(go, u) = (if low then
       (if s_low_prio_state (sockets x s) = 2 then (True, upd_s s (s_low_prio_state_update (\<lambda>_. 0)) x)
        else if ld_low_prio_budget (loop x) > 0 then (True, upd_loop (ld_low_prio_budget_update (\<lambda>b. b - 1)) x)
        else (False, low_prio_park s x)) else (True, x))"
    unfolding assms(1) [symmetric] low_prio_gate_def l by (simp add: Let_def)
  have p: "served x (low_prio_park s x)"
    by (rule park_served [OF okw_okn [OF x assms(3)] st okw_few [OF x assms(3,4)]])
  have a: "okw {s} v (upd_loop (ld_low_prio_budget_update (\<lambda>b. b - 1)) x)"
    by (rule okw_quiet [OF x], rule quiet_upd_loop) simp_all
  have b: "okw {s} v (upd_s s (s_low_prio_state_update (\<lambda>_. 0)) x)" if "s_low_prio_state (sockets x s) = 2"
  proof (rule okw_trans [OF x])
    have "wf_world A (upd_s s (s_low_prio_state_update (\<lambda>_. 0)) x) = wf_world A x" for A
      using that by (intro wf_cong) auto
    then show "okw {s} x (upd_s s (s_low_prio_state_update (\<lambda>_. 0)) x)" by (simp add: okw_def inv_def)
  qed
  show ?thesis
    using u x a b served_trans [OF okw_served [OF x assms(3)] p] okw_served [OF _ assms(3)] by (auto split: if_splits)
qed

end
