(* ===== verification/Us_Serving.thy ===== *)
theory Us_Serving imports
  Us_Receiving
begin

section \<open>Serving a ready socket: the whole dispatch, and that it returns\<close>

text \<open>
  Composition of the parts in \<open>dispatch_socket\<close>, then termination: every turn of the loops takes an
  answer off the script, so with an application that never adds one (part of the contract) the reading
  loops, the two TLS events and the dispatch of a socket return.
\<close>

subsection \<open>The invariant\<close>

context event_contract begin

lemma socket_writable_open:
  assumes "socket_writable h s w = Some (Some t, u)"
  shows "\<not> s_is_closed (sockets u t)"
proof -
  have c: "s_is_closed (sockets (snd (us_socket_is_shut_down a b)) x) = s_is_closed (sockets b x)" for a b x
    using quiet_shut_down [OF quiet_refl, of b a] by (simp add: quiet_def)
  have o: "\<not> s_is_closed (sockets b (the p))" if "\<not> closed_ptr p b" for p b
    using that by (auto simp: closed_ptr_def us_socket_is_closed_def split: option.splits)
  show ?thesis using assms
    by (auto simp: socket_writable_def Let_def case_prod_beta c o split: if_splits)
qed

lemma eof_ok: "okw {s} v w \<Longrightarrow> sock_result s p \<Longrightarrow>
    okp {s} v (sock_result s) (if b \<and> p \<noteq> None then socket_eof h (the p) w else Some (p, w))"
  using socket_eof_ok [of s v w] by (auto simp: sock_result_def okp_def)

lemma finish_ok:
  assumes "okw {s} v w" "recv_result s e" "(case e of
      Recv_return \<Rightarrow> Some w
    | Recv_done p eof \<Rightarrow> Option.bind (if eof \<and> p \<noteq> None then socket_eof h (the p) w else Some (p, w)) (\<lambda>(p, w).
        if error \<noteq> 0 \<and> p \<noteq> None then Some (snd (us_internal_socket_close_raw h (the p) error None w)) else Some w)) = Some u"
  shows "okw {s} v u"
proof (cases e)
  case Recv_return
  then show ?thesis using assms by simp
next
  case (Recv_done p eof)
  then have r: "sock_result s p" using assms(2) by (simp add: recv_result_def)
  obtain p' z where z: "(if eof \<and> p \<noteq> None then socket_eof h (the p) w else Some (p, w)) = Some (p', z)"
    "u = (if error \<noteq> 0 \<and> p' \<noteq> None then snd (us_internal_socket_close_raw h (the p') error None z) else z)"
    using assms(3) Recv_done by (auto split: bind_splits if_splits)
  have "sock_result s p'" "okw {s} v z" using eof_ok [OF assms(1) r, of eof] z(1) unfolding okp_def by blast+
  then show ?thesis using close_raw_ok [of s v z] by (auto simp: z(2) sock_result_def)
qed

lemma dispatch_socket_served:
  assumes "okn q w" "few w" "\<not> s_is_closed (sockets w q)"
    "events AND LIBUS_SOCKET_READABLE \<noteq> 0 \<Longrightarrow> s_low_prio_state (sockets w q) \<noteq> 1"
    "dispatch_socket h q error eof events w = Some u"
  shows "served w u"
proof -
  let ?wr = "if events AND LIBUS_SOCKET_WRITABLE \<noteq> 0 \<and> error = 0 then socket_writable h q w else Some (Some q, w)"
  have f: "follow_adopted (Some q) w = Some q" by (rule follow_okn [OF _ assms(1)]) (simp add: sock_result_def)
  obtain p x where x: "?wr = Some (p, x)" using assms(5) by (auto simp: dispatch_socket_def f split: bind_splits if_splits)
  have ox: "okw {q} w x" "sock_result q p"
    using socket_writable_ok [OF assms(1)] x by (auto simp: okp_def sock_result_def split: if_splits)
  show ?thesis
  proof (cases p)
    case None
    then have "u = x" using assms(5) by (simp add: dispatch_socket_def f x)
    with okw_served [OF ox(1) assms(1)] show ?thesis by simp
  next
    case (Some s)
    then have sq: "s = q" using ox(2) by (simp add: sock_result_def)
    obtain go y where g: "(if events AND LIBUS_SOCKET_READABLE \<noteq> 0 then low_prio_gate q x else (True, x)) = (go, y)"
      by fastforce
    have nc: "\<not> s_is_closed (sockets x q)"
    proof (cases "events AND LIBUS_SOCKET_WRITABLE \<noteq> 0 \<and> error = 0")
      case True
      then have "socket_writable h q w = Some (Some q, x)" using x Some sq by simp
      then show ?thesis by (rule socket_writable_open)
    next
      case False
      then show ?thesis using x assms(3) by auto
    qed
    have np: "s_low_prio_state (sockets x q) \<noteq> 1" if "events AND LIBUS_SOCKET_READABLE \<noteq> 0"
      using assms(4) [OF that] ox(1) assms(1) by (auto simp: okw_def okn_def)
    have gy: "(go \<longrightarrow> okw {q} w y) \<and> served w y"
      using gate_ok [OF _ ox(1) assms(1,2) nc np] g okw_served [OF ox(1) assms(1)] ox(1) by (auto split: if_splits)
    show ?thesis
    proof (cases go)
      case False
      then have "u = y" using assms(5) by (simp add: dispatch_socket_def f x Some sq g)
      with gy show ?thesis by simp
    next
      case True
      then have oy: "okw {q} w y" using gy by simp
      obtain e z where e: "(if events AND LIBUS_SOCKET_READABLE \<noteq> 0 then recv_loop h q error eof 0 y
           else Some (Recv_done (Some q) eof, y)) = Some (e, z)"
        using assms(5) True by (auto simp: dispatch_socket_def f x Some sq g split: bind_splits)
      have z: "okw {q} w z" "recv_result q e"
        using recv_loop_ok [OF oy assms(1), of error eof 0] oy e
        by (auto simp: okp_def recv_result_def sock_result_def split: if_splits)
      have "okw {q} w u"
        by (rule finish_ok [OF z]) (use assms(5) True in \<open>simp add: dispatch_socket_def f x Some sq g e\<close>)
      then show ?thesis by (rule okw_served [OF _ assms(1)])
    qed
  qed
qed

end

subsection \<open>Termination\<close>

definition okt :: "addr set \<Rightarrow> world \<Rightarrow> ('a \<times> world) option \<Rightarrow> bool" where
  "okt S v r \<longleftrightarrow> (\<exists>p w. r = Some (p, w) \<and> okw S v w)"

lemma okt_intro:
  "okw S v w \<Longrightarrow> okt S v (Some (a, w))"
  "(b \<Longrightarrow> okt S v r1) \<Longrightarrow> (\<not> b \<Longrightarrow> okt S v r2) \<Longrightarrow> okt S v (if b then r1 else r2)"
  "okw S v (snd q) \<Longrightarrow> (\<And>a b. q = (a, b) \<Longrightarrow> okw S v b \<Longrightarrow> okt S v (k a b)) \<Longrightarrow> okt S v (let (a, b) = q in k a b)"
  "okw S v W \<Longrightarrow> (\<And>w. okw S v w \<Longrightarrow> okt S v (l w)) \<Longrightarrow> okt S v (let w = W in l w)"
  by (auto simp: okt_def split: prod.split)

context event_contract begin

lemma read_loop_unfold:
  assumes "ssl_call (SSL_read (LIBUS_RECV_BUFFER_LENGTH - read)) (the (s_ssl (sockets w s))) w = (r, v)"
    "\<And>x n bs u. okw {s} v u \<Longrightarrow> x = s \<Longrightarrow> okt {s} v (ssl_read_loop h x n bs u)"
  shows "okt {s} v (ssl_read_loop h s read buf w)"
proof -
  have first: "okw {s} v (snd (ssl_call (SSL_read (LIBUS_RECV_BUFFER_LENGTH - read)) (the (s_ssl (sockets w s))) w))"
    by (simp add: assms(1))
  show ?thesis
    unfolding ssl_read_loop.simps [of h s read buf w]
      Let_def [where 'a = int] Let_def [where 'a = bool] Let_def [where 'a = nat]
          Let_def [where 'a = "u8 list"] Let_def [where 'a = us_loop_t]
    by (assumption | rule okt_intro first read_rules assms(2) refl | erule (1) data_ptr data_ptr' | (simp; fail))+
qed

lemma ssl_call_default: "budget w = 0 \<Longrightarrow> fst (ssl_call opr ssl w) = default_reply"
  by (simp add: budget_def ssl_call_def case_prod_beta Let_def sys_def pop_reply_def)

lemma read_loop_zero:
  assumes "budget w = 0"
  shows "\<exists>p u. ssl_read_loop h s read buf w = Some (Returned p, u)"
proof -
  obtain r v where c: "ssl_call (SSL_read (LIBUS_RECV_BUFFER_LENGTH - read)) (the (s_ssl (sockets w s))) w = (r, v)" by fastforce
  have r: "r_ret r = -1" using ssl_call_default [OF assms, of "SSL_read (LIBUS_RECV_BUFFER_LENGTH - read)" "the (s_ssl (sockets w s))"]
    by (simp add: c default_reply_def)
  have "budget v = 0" using budget_ssl_call [of "SSL_read (LIBUS_RECV_BUFFER_LENGTH - read)" "the (s_ssl (sockets w s))" w] assms
    by (simp add: c)
  then obtain v' where e: "ssl_ret (SSL_get_error (-1)) (the (s_ssl (sockets w s))) v = (-1, v')"
    using ssl_ret_default [of v] by (metis prod.collapse)
  show ?thesis
    by (subst ssl_read_loop.simps)
      (simp add: c r e SSL_ERROR_WANT_READ_def SSL_ERROR_WANT_WRITE_def SSL_ERROR_WANT_RENEGOTIATE_def SSL_ERROR_ZERO_RETURN_def)
qed

lemma read_loop_returns:
  "\<exists>e u. ssl_read_loop h s read buf w = Some (e, u) \<and> (\<forall>x. e = Broke x \<longrightarrow> budget u < budget w)"
proof (induction "budget w" arbitrary: s read buf w rule: less_induct)
  case less
  show ?case
  proof (cases "budget w = 0")
    case True
    from read_loop_zero [OF this] show ?thesis by blast
  next
    case False
    obtain r v where c: "ssl_call (SSL_read (LIBUS_RECV_BUFFER_LENGTH - read)) (the (s_ssl (sockets w s))) w = (r, v)" by fastforce
    have v: "budget v < budget w" using budget_ssl_call [of "SSL_read (LIBUS_RECV_BUFFER_LENGTH - read)" "the (s_ssl (sockets w s))" w] False
      by (simp add: c)
    have "okt {s} v (ssl_read_loop h x n bs u)" if "okw {s} v u" "x = s" for x n bs u
    proof -
      have "budget u < budget w" using okw_budget [OF that(1)] v by simp
      from less [OF this, of s n bs] obtain e z where "ssl_read_loop h s n bs u = Some (e, z)" by blast
      moreover from this read_loop_ok [of s u n bs] have "okw {s} u z" by (simp add: okp_def)
      ultimately show ?thesis using that okw_trans by (fastforce simp: okt_def)
    qed
    from read_loop_unfold [OF c this, of buf] obtain e u where "ssl_read_loop h s read buf w = Some (e, u)" "okw {s} v u"
      unfolding okt_def by blast
    then show ?thesis using okw_budget [of "{s}" v u] v by fastforce
  qed
qed

lemma pump_returns: "\<exists>p u. ssl_pump h ev s w = Some (p, u)"
proof (induction "2 * budget w + (if ev = None then 1 else 0)" arbitrary: ev s w rule: less_induct)
  case less
  show ?case
  proof (cases ev)
    case None
    define v where "v = ssl_update_handshake h s (ssl_set_loop_data s w)"
    have v: "budget v \<le> budget w"
      unfolding v_def by (rule okw_budget [of "{s}"], rule update_handshake_ok, rule okw_quiet_ops(2), rule okw_refl)
    define again where "again = s_ssl_read_wants_write (sockets v s)"
    define x where "x = (if again then upd_s s (s_ssl_read_wants_write_update (\<lambda>_. False)) v else v)"
    have "budget x \<le> budget w" using v by (simp add: x_def)
    then have "\<exists>p u. (if again then ssl_pump h (Some []) s x else Some (Some s, x)) = Some (p, u)"
      using less [of x "Some []" s] None by (cases again) auto
    then obtain p u where p: "(if again then ssl_pump h (Some []) s x else Some (Some s, x)) = Some (p, u)" by blast
    obtain sd z where sd: "us_internal_ssl_is_shut_down (the p) u = (sd, z)" by fastforce
    have w: "\<exists>q y. (if sd then Some (Some (the p), z)
        else if s_ssl_handshake_state (sockets z (the p)) = HANDSHAKE_COMPLETED
          then Some (dispatch h (Ev_writable (the p)) z) else Some (Some (the p), z)) = Some (q, y)"
      by (simp add: prod_eq_iff)
    have "ssl_pump h ev s w = (if ssl_gone s v then Some (Some s, v)
      else Option.bind (if again then ssl_pump h (Some []) s x else Some (Some s, x)) (\<lambda>(p, w).
          if again \<and> gone_ptr p w then Some (p, w)
          else let s = the p; (sd, w) = us_internal_ssl_is_shut_down s w in
          if sd then Some (Some s, w)
          else if s_ssl_handshake_state (sockets w s) = HANDSHAKE_COMPLETED
               then Some (dispatch h (Ev_writable s) w)
               else Some (Some s, w)))"
      by (subst ssl_pump.simps) (simp only: None option.case Let_def x_def again_def v_def)
    then show ?thesis unfolding p using w by (simp add: sd Let_def)
  next
    case (Some data)
    obtain p v where tap: "(if s_ssl_raw_tap (sockets w s) \<and> data \<noteq> [] then dispatch h (Ev_ssl_raw_tap s data) w else (Some s, w)) = (p, v)"
      by fastforce
    have v: "okw {s} w v" using tap dispatch_okw [OF okw_refl, of "{s}" w "Ev_ssl_raw_tap s data"] by (auto split: if_splits)
    show ?thesis
    proof (cases "(s_ssl_raw_tap (sockets w s) \<and> data \<noteq> []) \<and> gone_ptr p v")
      case True
      then show ?thesis by (subst ssl_pump.simps) (unfold Some option.case Let_def tap prod.case, simp)
    next
      case False
      then have t: "the p = s" using tap_the [OF tap] by simp
      define x where "x = upd_loop (\<lambda>l. l\<lparr>ld_ssl_read_input := data, ld_ssl_read_input_length := int (length data)\<rparr>) (ssl_set_loop_data s v)"
      obtain sd y where sd: "us_internal_ssl_is_shut_down s x = (sd, y)" by fastforce
      have y: "budget y \<le> budget w"
      proof -
        have "budget x \<le> budget w" using okw_budget [OF v] by (simp add: x_def)
        then show ?thesis using budget_ssl_shut_down [of s x] by (simp add: sd)
      qed
      obtain e z where e: "ssl_read_loop h s 0 [] y = Some (e, z)" "\<And>a. e = Broke a \<Longrightarrow> budget z < budget y"
        using read_loop_returns [of s 0 "[]" y] by blast
      show ?thesis
      proof (cases e)
        case (Returned q)
        then show ?thesis using False
          by (subst ssl_pump.simps) (unfold Some option.case Let_def tap prod.case, unfold t x_def [symmetric] sd prod.case e(1), simp)
      next
        case (Broke a)
        define z' where "z' = upd_s a (s_ssl_write_wants_read_update (\<lambda>_. False)) z"
        have "budget z' < budget w" using e(2) [OF Broke] y by (simp add: z'_def)
        then obtain q u where "ssl_pump h None a z' = Some (q, u)" using less [of z' None a] Some by auto
        then show ?thesis using False
          by (subst ssl_pump.simps) (unfold Some option.case Let_def tap prod.case,
            unfold t x_def [symmetric] sd prod.case e(1), simp add: Broke flip: z'_def)
      qed
    qed
  qed
qed

lemma retry_budget: "r_ret (fst (sys_retry c k)) > 0 \<Longrightarrow> length (replies (snd (sys_retry c k))) < length (replies k)"
  using sys_retry_default [of k c] replies_sys_retry [of c k]
  by (cases "replies k") (auto simp: default_reply_def)

lemma receive_budget:
  assumes "receive s w = ((len, bytes, fd), u)" "0 < len"
  shows "budget u < budget w"
  using assms retry_budget [of "Sys_recvmsg (us_poll_fd s w) MSG_DONTWAIT" "kern w"]
    retry_budget [of "Sys_recv (us_poll_fd s w) LIBUS_RECV_BUFFER_LENGTH MSG_DONTWAIT" "kern w"]
  by (auto simp: receive_def lift_k_def bsd_recvmsg_def bsd_recv_def budget_def case_prod_beta Let_def split: if_splits)

lemma data_event_returns:
  "\<exists>p u. (if b then us_internal_ssl_on_data h s bytes w else Some (dispatch h (Ev_data s bytes) w)) = Some (p, u)"
  using pump_returns [of "Some bytes" s w] by (simp add: us_internal_ssl_on_data_def prod_eq_iff)

lemma recv_loop_returns:
  "okn s w \<Longrightarrow> \<exists>e u. recv_loop h s error eof n w = Some (e, u)"
proof (induction "budget w" arbitrary: eof n w rule: less_induct)
  case less
  obtain len bytes fd v where r: "receive s w = ((len, bytes, fd), v)" by (metis surj_pair)
  have ov: "okw {s} w v" using receive_okw [OF okw_refl, of "{s}" w s] by (simp add: r)
  obtain p x where x: "(case fd of None \<Rightarrow> (Some s, v) | Some f \<Rightarrow> dispatch h (Ev_fd s f) v) = (p, x)" by fastforce
  have ox: "okw {s} w x" using x ov dispatch_okw [OF ov] by (cases fd) (auto, metis snd_conv)
  show ?case
  proof (cases "fd \<noteq> None \<and> closed_ptr p x")
    case True
    then show ?thesis by (subst recv_loop.simps) (simp add: r x)
  next
    case False
    then have t: "the p = s" by (rule fd_the [OF x])
    obtain q y where y: "(if s_ssl (sockets x s) \<noteq> None then us_internal_ssl_on_data h s bytes x
        else Some (dispatch h (Ev_data s bytes) x)) = Some (q, y)" using data_event_returns by blast
    have oy: "okw {s} w y" "sock_result s q" using data_event_ok [OF ox] y by (simp_all add: okp_def)
    have f: "follow_adopted q y = q" by (rule follow_okn [OF oy(2) okw_okn [OF oy(1) less(2)]])
    have q: "the q = s" if "read_again len error q y" using oy(2) that by (auto simp: read_again_def sock_result_def)
    have rec: "\<exists>e u. recv_loop h s error eof n y = Some (e, u)" if "0 < len" for eof n
    proof (rule less(1) [OF _ okw_okn [OF oy(1) less(2)]])
      have "okw {s} x y" using data_event_ok [OF okw_refl] y by (simp add: okp_def)
      have "okw {s} v x" using x dispatch_okw [OF okw_refl] by (cases fd) (auto, metis snd_conv)
      from okw_budget [OF this] okw_budget [OF \<open>okw {s} x y\<close>] receive_budget [OF r that]
      show "budget y < budget w" by simp
    qed
    have "recv_loop h s error eof n w = (if len > 0 then
        (if read_again len error q y then
           (let n = (if error = 0 then n + 1 else n) in
            if \<not> (n > 10 \<and> lp_num_ready_polls (loop y) > 2) then recv_loop h s error eof n y
            else Some (Recv_done q eof, y))
         else Some (Recv_done q eof, y))
       else if len = 0 then Some (Recv_done (Some s) True, x)
       else if len = LIBUS_SOCKET_ERROR \<and> \<not> bsd_would_block (kern x) then
         Some (Recv_return, snd (us_internal_socket_close_raw h s (errno (kern x)) None x))
       else Some (Recv_done (Some s) eof, x))"
      by (subst recv_loop.simps) (simp only: r x t False y f q Let_def prod.case if_False bind.simps option.sel split del: if_split cong: if_cong)
    then show ?thesis using rec by (auto simp: Let_def)
  qed
qed

end

text \<open>A NULL from \<open>on_end\<close> would be dereferenced, so the application returns the socket it was given.\<close>

locale answering = event_contract +
  assumes gives: "about e = Some s \<Longrightarrow> fst (h e w) = Some s"
begin

lemma dispatch_gives: "about e = Some s \<Longrightarrow> fst (dispatch h e w) = Some s"
  by (simp add: dispatch_def gives)

lemma close_raw_some: "fst (us_internal_socket_close_raw h s code reason w) = Some s"
  by (simp add: us_internal_socket_close_raw_def us_internal_ssl_on_close_def dispatch_gives Let_def case_prod_beta)

lemma ssl_close_some: "fst (us_internal_ssl_close h s code reason w) = Some s"
  by (subst us_internal_ssl_close.simps) (simp add: Let_def case_prod_beta close_raw_some)

lemma socket_eof_returns: "\<exists>p u. socket_eof h s w = Some (p, u)"
proof -
  have e: "fst (socket_end h s v) \<noteq> None" for v
    by (simp add: socket_end_def us_internal_ssl_on_end_def dispatch_gives ssl_close_some)
  obtain sd u where sd: "us_socket_is_shut_down s w = (sd, u)" by fastforce
  obtain p z where z: "socket_end h s u = (Some p, z)" using e [of u] by (cases "socket_end h s u") auto
  show ?thesis by (simp add: socket_eof_def sd z prod_eq_iff)
qed

lemma finish_returns: "\<exists>u. (case e of
      Recv_return \<Rightarrow> Some w
    | Recv_done p eof \<Rightarrow> Option.bind (if eof \<and> p \<noteq> None then socket_eof h (the p) w else Some (p, w)) (\<lambda>(p, w).
        if error \<noteq> 0 \<and> p \<noteq> None then Some (snd (us_internal_socket_close_raw h (the p) error None w)) else Some w)) = Some u"
proof (cases e)
  case (Recv_done p eof)
  have "\<exists>q z. (if eof \<and> p \<noteq> None then socket_eof h (the p) w else Some (p, w)) = Some (q, z)"
    using socket_eof_returns by simp
  then show ?thesis by (auto simp: Recv_done)
qed simp

lemma dispatch_socket_returns:
  assumes "okn q w" "few w" "\<not> s_is_closed (sockets w q)"
    "events AND LIBUS_SOCKET_READABLE \<noteq> 0 \<Longrightarrow> s_low_prio_state (sockets w q) \<noteq> 1"
  shows "\<exists>u. dispatch_socket h q error eof events w = Some u"
proof -
  have f: "follow_adopted (Some q) w = Some q" by (rule follow_okn [OF _ assms(1)]) (simp add: sock_result_def)
  obtain p x where x: "(if events AND LIBUS_SOCKET_WRITABLE \<noteq> 0 \<and> error = 0 then socket_writable h q w else Some (Some q, w)) = Some (p, x)"
  proof (cases "events AND LIBUS_SOCKET_WRITABLE \<noteq> 0 \<and> error = 0")
    case True
    have "(if b then us_internal_ssl_on_writable h q v else Some (dispatch h (Ev_writable q) v)) \<noteq> None" for b v
      using pump_returns [of None q v] by (auto simp: us_internal_ssl_on_writable_def)
    then have "socket_writable h q w \<noteq> None"
      unfolding socket_writable_def Let_def [where 'a = world] by (simp only: option.map_disc_iff not_False_eq_True simp_thms)
    then show ?thesis using that True by (cases "socket_writable h q w") auto
  qed (use that in auto)
  have ox: "okw {q} w x" "sock_result q p"
    using socket_writable_ok [OF assms(1)] x by (auto simp: okp_def sock_result_def split: if_splits)
  obtain go y where g: "(if events AND LIBUS_SOCKET_READABLE \<noteq> 0 then low_prio_gate q x else (True, x)) = (go, y)"
    by fastforce
  have oy: "okw {q} w y" if "go" "p \<noteq> None"
  proof (cases "events AND LIBUS_SOCKET_READABLE \<noteq> 0")
    case True
    have nc: "\<not> s_is_closed (sockets x q)"
      using x assms(3) that ox(2) socket_writable_open [of q w q x] by (auto simp: sock_result_def split: if_splits)
    have "s_low_prio_state (sockets x q) \<noteq> 1"
      using assms(4) [OF True] ox(1) assms(1) by (auto simp: okw_def okn_def)
    with gate_ok [OF _ ox(1) assms(1,2) nc] g True that show ?thesis by auto
  qed (use g ox in auto)
  have r: "\<exists>e z. (if b then recv_loop h q error eof 0 y else Some (Recv_done (Some q) eof, y)) = Some (e, z)"
    if "go" "p \<noteq> None" for b
    using recv_loop_returns [OF okw_okn [OF oy [OF that] assms(1)]] by simp
  show ?thesis
  proof (cases "p = None \<or> \<not> go")
    case True
    then show ?thesis using ox(2) g by (cases p) (auto simp: dispatch_socket_def f x sock_result_def)
  next
    case False
    then have p: "p = Some q" using ox(2) by (auto simp: sock_result_def)
    have go: "go" "p \<noteq> None" using False by auto
    from r [OF go, of "events AND LIBUS_SOCKET_READABLE \<noteq> 0"] obtain rv z where rv:
      "(if events AND LIBUS_SOCKET_READABLE \<noteq> 0 then recv_loop h q error eof 0 y else Some (Recv_done (Some q) eof, y)) = Some (rv, z)"
      by blast
    obtain u where "(case rv of
        Recv_return \<Rightarrow> Some z
      | Recv_done p eof \<Rightarrow> Option.bind (if eof \<and> p \<noteq> None then socket_eof h (the p) z else Some (p, z)) (\<lambda>(p, w).
          if error \<noteq> 0 \<and> p \<noteq> None then Some (snd (us_internal_socket_close_raw h (the p) error None w)) else Some w)) = Some u"
      using finish_returns by blast
    then have "dispatch_socket h q error eof events w = Some u"
      using go(1) by (simp add: dispatch_socket_def f x p g rv)
    then show ?thesis by blast
  qed
qed

end

subsection \<open>Applications\<close>

text \<open>An application as before that returns, from every callback about a socket, that socket.\<close>

definition obedient :: "app \<Rightarrow> app" where
  "obedient app e w = (about e, snd (app e w))"

lemma client_fst: "fst (client app n e w) = fst (app e w)"
  by (cases n) simp_all

interpretation an: answering "client (obedient app) n" for app n
  by unfold_locales (simp_all add: client_fst obedient_def)


definition hello :: reply where
  "hello = default_reply\<lparr>r_ret := 2, r_bytes := [104, 105]\<rparr>"

text \<open>An application that closes a socket as soon as it has sent something.\<close>

definition closer :: app where
  "closer e w = (None, case e of Ev_data s _ \<Rightarrow> [(s, Call_write [1]), (s, Call_close 0 None)] | _ \<Rightarrow> [])"


end
