(* ===== verification/Us_Reparking.thy ===== *)
theory Us_Reparking imports
  Us_Serving
begin

section \<open>A parked socket that becomes readable\<close>

text \<open>
  Parking turns off the interest in input, and only the loop turns it on again. But other operations arm
  both directions whatever the state: \<open>us_socket_resume\<close> after a pause, a short write. Then the gate for
  handshakes may park a second time a socket that is already in the queue.
\<close>


definition tls_parked :: world where
  "tls_parked = upd_kern (\<lambda>k. k\<lparr>replies := [default_reply\<lparr>r_ret := 1\<rparr>]\<rparr>)
     (upd_s 7 (s_ssl_update (\<lambda>_. Some 20)) (low_prio_park 7 (scene [])))"


end
