(* ===== verification/Us_Sni_Values.thy ===== *)
theory Us_Sni_Values imports
  Us_Sni_Tree
  "HOL-Library.Multiset"
begin

section \<open>What a tree of server names holds, and what its operations do to it\<close>

text \<open>
  The values stored anywhere in a tree as a multiset: adding a name adds one, removing a name takes
  out the one it returns, and the destructor reports all but the root's.
\<close>

fun users :: "'u sni_node \<Rightarrow> 'u multiset" where
  "users (Sni_node u ch) = (case u of None \<Rightarrow> {#} | Some x \<Rightarrow> {#x#}) + (\<Sum>c \<leftarrow> map snd ch. users c)"


lemma users_new [simp]: "users sni_new = {#}"
  by (simp add: sni_new_def)

lemma users_node:
  "users t = (case sni_user t of None \<Rightarrow> {#} | Some x \<Rightarrow> {#x#}) + (\<Sum>c \<leftarrow> map snd (sni_children t). users c)"
  by (cases t) simp



lemma sum_put:
  "ordered xs \<Longrightarrow> (\<Sum>c \<leftarrow> map snd (put k v xs). f c) + (case map_of xs k of None \<Rightarrow> 0 | Some c \<Rightarrow> f c)
     = (\<Sum>c \<leftarrow> map snd xs. f c) + (f v :: 'a multiset)"
proof (induction k v xs rule: put.induct)
  case (2 k v a b xs)
  then have "k < a \<Longrightarrow> k \<notin> fst ` set xs" by (auto simp: ordered_def dest: less_trans)
  then have "k < a \<Longrightarrow> map_of xs k = None" by (simp add: map_of_eq_None_iff)
  with 2 show ?case by (auto simp: ordered_def ac_simps)
qed simp

lemma sum_erase:
  "ordered xs \<Longrightarrow> (\<Sum>c \<leftarrow> map snd (erase k xs). f c) + (case map_of xs k of None \<Rightarrow> 0 | Some c \<Rightarrow> f c)
     = ((\<Sum>c \<leftarrow> map snd xs. f c) :: 'a multiset)"
proof (induction xs)
  case (Cons e xs)
  have "k \<notin> fst ` set xs \<Longrightarrow> erase k xs = xs" by (auto simp: erase_def filter_id_conv)
  moreover have "fst e \<notin> fst ` set xs" using ordered_distinct [OF Cons.prems] by simp
  ultimately show ?case using Cons by (cases e) (auto simp: ordered_def erase_def ac_simps)
qed (simp add: erase_def)

lemma users_add:
  "wf_sni t \<Longrightarrow> add_labels t ls u = (r, t') \<Longrightarrow> users t' = (if r = 0 then add_mset u (users t) else users t)"
proof (induction t ls u arbitrary: r t' rule: add_labels.induct)
  case (1 root user)
  show ?case
  proof (cases "sni_user root")
    case None
    with 1 have "r = 0" "t' = Sni_node (Some user) (sni_children root)" by simp_all
    with None show ?thesis by (simp add: users_node [of root] users_node [of "Sni_node _ _"])
  qed (use 1 in auto)
next
  case (2 root l ls user)
  obtain c where c: "c = (case map_of (sni_children root) l of None \<Rightarrow> sni_new | Some it \<Rightarrow> it)" by simp
  obtain q c' where a: "add_labels c ls user = (q, c')" by fastforce
  have t': "r = q" "t' = Sni_node (sni_user root) (put l c' (sni_children root))" using 2(3) a c by auto
  have "wf_sni c" using wf_childI [OF 2(2), of l] unfolding c by (cases "map_of (sni_children root) l") simp_all
  from 2(1) [OF c this a] have IH: "users c' = (if r = 0 then add_mset user (users c) else users c)"
    by (simp add: t'(1))
  have o: "ordered (sni_children root)" using 2(2) by (cases root) simp
  have "users c = (case map_of (sni_children root) l of None \<Rightarrow> 0 | Some c \<Rightarrow> users c)"
    by (simp add: c split: option.split)
  with sum_put [OF o, where k = l and v = c' and f = users] IH
  have "(\<Sum>c \<leftarrow> map snd (put l c' (sni_children root)). users c)
    = (\<Sum>c \<leftarrow> map snd (sni_children root). users c) + (if r = 0 then {#user#} else {#})"
    by (auto split: if_splits)
  then show ?case by (simp add: users_node [of root] t'(2))
qed

lemma users_remove:
  "wf_sni t \<Longrightarrow> removeUser t ls = (r, t') \<Longrightarrow>
    users t = users t' + (case r of None \<Rightarrow> {#} | Some u \<Rightarrow> {#u#})"
proof (induction t ls arbitrary: r t' rule: removeUser.induct)
  case (1 root)
  then show ?case by (auto simp: users_node [of root] users_node [of "Sni_node _ _"] split: option.splits)
next
  case (2 root l ls)
  show ?case
  proof (cases "map_of (sni_children root) l")
    case (Some c)
    obtain q c' where a: "removeUser c ls = (q, c')" by fastforce
    have "wf_sni c" using wf_childI [OF 2(2) Some] by simp
    then have IH: "users c = users c' + (case r of None \<Rightarrow> {#} | Some u \<Rightarrow> {#u#})"
      using 2(1) [OF Some _ a] 2(3) Some a by auto
    have t': "t' = Sni_node (sni_user root)
        (if dead c' then erase l (sni_children root) else put l c' (sni_children root))"
      using 2(3) Some a by (auto simp: dead_def)
    have o: "ordered (sni_children root)" using 2(2) by (cases root) simp
    have "dead c' \<Longrightarrow> users c' = {#}" by (simp add: users_node [of c'] dead_def)
    with IH Some sum_put [OF o, where k = l and v = c' and f = users] sum_erase [OF o, where k = l and f = users] show ?thesis
      by (auto simp: users_node [of root] t' ac_simps)
  qed (use 2 in simp)
qed

text \<open>The destructor reports everything but what the root itself holds.\<close>

lemma mset_map_filter: "mset (List.map_filter f xs) = (\<Sum>x \<leftarrow> xs. case f x of None \<Rightarrow> {#} | Some y \<Rightarrow> {#y#})"
  by (induction xs) (auto simp: map_filter_simps split: option.split)

lemma mset_concat_map: "mset (concat (map f xs)) = (\<Sum>x \<leftarrow> xs. mset (f x))"
  by (induction xs) simp_all

lemma sum_list_add: "(\<Sum>x \<leftarrow> xs. f x) + (\<Sum>x \<leftarrow> xs. g x) = (\<Sum>x \<leftarrow> xs. f x + g x :: 'a multiset)"
  by (induction xs) (simp_all add: ac_simps)

lemma users_free:
  "users t = mset (sni_free t) + (case sni_user t of None \<Rightarrow> {#} | Some u \<Rightarrow> {#u#})"
proof (induction t rule: sni_free.induct)
  case (1 u ch)
  have "mset (sni_free (Sni_node u ch))
    = (\<Sum>p \<leftarrow> ch. (case sni_user (snd p) of None \<Rightarrow> {#} | Some u \<Rightarrow> {#u#}) + mset (sni_free (snd p)))"
    by (simp add: mset_map_filter mset_concat_map sum_list_add o_def)
  also have "\<dots> = (\<Sum>c \<leftarrow> map snd ch. users c)"
  proof -
    have "users (snd p) = (case sni_user (snd p) of None \<Rightarrow> {#} | Some u \<Rightarrow> {#u#}) + mset (sni_free (snd p))"
      if "p \<in> set ch" for p
      using 1 [of "snd p"] that by (simp add: ac_simps)
    then show ?thesis by (simp add: o_def cong: map_cong)
  qed
  finally show ?case by (simp add: users_node [of "Sni_node u ch"])
qed


end
