(* ===== verification/Us_Server_Names.thy ===== *)
theory Us_Server_Names imports
  "Us_Tls"
begin

section \<open>Server names of a listener (\<open>crypto/openssl.c\<close>)\<close>

text \<open>
  A TLS listener may have contexts of its own for some server names. They are kept in the tree of
  \<open>Us_Sni_Tree\<close>, each with a reference to its context; while it shakes hands with a client
  BoringSSL calls \<open>sni_cb\<close>, which selects the context for the name the client asked for, after
  giving the application a chance to add it. \<open>sni_cb\<close> is an entry point of its own here: the answers
  of the handshake do not say when it is called.
\<close>

definition SSL_TLSEXT_ERR_OK :: "int" where "SSL_TLSEXT_ERR_OK = 0"
definition SSL_TLSEXT_ERR_NOACK :: "int" where "SSL_TLSEXT_ERR_NOACK = 3"

text \<open>A C string that BoringSSL answers with.\<close>

definition c_chars :: "u8 list \<Rightarrow> char list" where
  "c_chars bs = map (\<lambda>b. char_of (unat b)) bs"

definition set_sni :: "addr \<Rightarrow> sni_node_t sni_node \<Rightarrow> world \<Rightarrow> world" where
  "set_sni ls t w = upd_ls ls (l_sni_update (\<lambda>_. Some t)) w"

text \<open>\<open>None\<close> is a crash: the tree may be gone when the application has returned.\<close>

definition resolve_listener_ctx ::
  "handler \<Rightarrow> addr \<Rightarrow> char list \<Rightarrow> world \<Rightarrow> (sni_node_t option \<times> world) option" where
  "resolve_listener_ctx h ls hostname w = (case l_sni (listeners w ls) of
     None \<Rightarrow> Some (None, w)
   | Some sni \<Rightarrow> (case sni_find sni hostname of
       Some node \<Rightarrow> Some (Some node, w)
     | None \<Rightarrow>
        if \<not> l_on_server_name (listeners w ls) then Some (None, w)
        else let (_, w) = dispatch h (Ev_server_name ls hostname) w in
          (case l_sni (listeners w ls) of
             None \<Rightarrow> None
           | Some sni \<Rightarrow> Some (sni_find sni hostname, w))))"

definition sni_cb :: "handler \<Rightarrow> ptr \<Rightarrow> world \<Rightarrow> (int \<times> world) option" where
  "sni_cb h p w = (case p of
     None \<Rightarrow> Some (SSL_TLSEXT_ERR_NOACK, w)
   | Some ssl \<Rightarrow>
      (let (r, w) = lift_k (sys (Ssl SSL_get_listener ssl)) w in
       case r_ptr r of
         None \<Rightarrow> Some (SSL_TLSEXT_ERR_OK, w)
       | Some ls \<Rightarrow>
          (let (r, w) = lift_k (sys (Ssl SSL_get_servername ssl)) w;
               hostname = (if r_ptr r = None then [] else c_chars (r_bytes r))
           in if hostname \<noteq> [] then
                map_option (\<lambda>(node, w). (SSL_TLSEXT_ERR_OK, case node of
                    None \<Rightarrow> w
                  | Some node \<Rightarrow> ext_call (Ssl (SSL_set_SSL_CTX (n_ctx node)) ssl) w))
                  (resolve_listener_ctx h ls hostname w)
              else Some (SSL_TLSEXT_ERR_OK, w))))"

definition us_listen_socket_add_server_name ::
  "addr \<Rightarrow> char list \<Rightarrow> addr \<Rightarrow> ptr \<Rightarrow> world \<Rightarrow> int \<times> world" where
  "us_listen_socket_add_server_name ls hostname_pattern ctx user w = (case l_ssl_ctx (listeners w ls) of
     None \<Rightarrow> (-1, w)
   | Some default_ctx \<Rightarrow>
      (let (sni, w) = (case l_sni (listeners w ls) of
             None \<Rightarrow> (sni_new, ext_call (Ssl SSL_CTX_set_servername_callback default_ctx) (set_sni ls sni_new w))
           | Some sni \<Rightarrow> (sni, w));
           node = \<lparr>n_ctx = ctx, n_user = user\<rparr>;
           w = ext_call (Ssl SSL_CTX_up_ref ctx) w;
           w = ext_call (Ssl (SSL_CTX_set_sni_userdata user) ctx) w;
           (r, sni) = sni_add sni hostname_pattern node;
           w = set_sni ls sni w
       in if r \<noteq> 0 then (1, sni_node_destructor (Some node) w) else (0, w)))"

definition us_listen_socket_remove_server_name :: "addr \<Rightarrow> char list \<Rightarrow> world \<Rightarrow> world" where
  "us_listen_socket_remove_server_name ls hostname_pattern w = (case l_sni (listeners w ls) of
     None \<Rightarrow> w
   | Some sni \<Rightarrow> (let (node, sni) = sni_remove sni hostname_pattern
       in sni_node_destructor node (set_sni ls sni w)))"

definition us_listen_socket_find_server_name_userdata :: "addr \<Rightarrow> char list \<Rightarrow> world \<Rightarrow> ptr" where
  "us_listen_socket_find_server_name_userdata ls hostname_pattern w = (case l_sni (listeners w ls) of
     None \<Rightarrow> None
   | Some sni \<Rightarrow> (case sni_find sni hostname_pattern of None \<Rightarrow> None | Some node \<Rightarrow> n_user node))"

definition us_listen_socket_on_server_name :: "addr \<Rightarrow> bool \<Rightarrow> world \<Rightarrow> world" where
  "us_listen_socket_on_server_name ls cb w = upd_ls ls (l_on_server_name_update (\<lambda>_. cb)) w"

definition us_socket_server_name_userdata :: "addr \<Rightarrow> world \<Rightarrow> ptr \<times> world" where
  "us_socket_server_name_userdata s w = (case s_ssl (sockets w s) of
     None \<Rightarrow> (None, w)
   | Some ssl \<Rightarrow> (let (r, w) = lift_k (sys (Ssl SSL_get_SSL_CTX ssl)) w;
                      (r, w) = lift_k (sys (Ssl SSL_CTX_get_sni_userdata (case r_ptr r of None \<Rightarrow> 0 | Some c \<Rightarrow> c))) w
       in (r_ptr r, w)))"

definition us_internal_ssl_sni_userdata :: "addr \<Rightarrow> world \<Rightarrow> ptr \<times> world" where
  "us_internal_ssl_sni_userdata s w = us_socket_server_name_userdata s w"

end
