(* ===== verification/Us_Naming.thy ===== *)
theory Us_Naming imports
  "Us_Scene"
  "Us_Sni_Values"
  Us_Server_Names
begin

section \<open>Properties of server names\<close>

text \<open>
  Which name a lookup finds, what adding and removing do, and that the references to TLS contexts a
  listener takes are given back.
\<close>

subsection \<open>The tree\<close>

text \<open>
  C24: Looking up a name finds the best of the stored names that match it: \<open>patterns\<close> lists what matches, the
  label itself before the wildcard at every position from the left, and the result is what the first of them that
  is stored holds, backtracking included. A name of more than ten labels is never found.
\<close>

theorem sni_find_is_best_match:
  "sni_find t hostname = (if length (labels hostname) \<le> 10 then first_stored t (patterns (labels hostname)) else None)"
  by (simp add: sni_find_def getUser_first MAX_LABELS_def Let_def)

lemma patterns_head: "\<exists>ps. patterns ls = ls # ps"
  by (induction ls) auto

lemma first_stored_head: "names t p = Some u \<Longrightarrow> first_stored t (p # ps) = Some u"
  by (simp add: first_stored_def)

text \<open>
  C25: Adding a name that is not stored stores it and nothing else, and adding it again is refused without a change.
  Up to ten labels it is then found, whatever wildcards there are, and removing it returns what was stored and
  restores the very tree there was before, the nodes created for it included. A name of more labels is stored all the
  same, and can then be neither found nor removed.
\<close>

theorem sni_add_remove:
  assumes "wf_sni t" "names t (labels hostname) = None"
  shows "\<exists>t'. sni_add t hostname u = (0, t') \<and> wf_sni t' \<and> names t' = (names t)(labels hostname \<mapsto> u)
    \<and> sni_add t' hostname v = (1, t')
    \<and> (if length (labels hostname) \<le> 10
       then sni_find t' hostname = Some u \<and> sni_remove t' hostname = (Some u, t)
       else sni_find t' hostname = None \<and> sni_remove t' hostname = (None, t'))"
proof -
  let ?ls = "labels hostname"
  obtain r t' where a: "add_labels t ?ls u = (r, t')" by fastforce
  have t': "r = 0" "names t' = (names t)(?ls \<mapsto> u)" "wf_sni t'"
    using names_add [OF a] assms(2) add_labels_wf [OF assms(1) a] by simp_all
  obtain q t'' where b: "add_labels t' ?ls v = (q, t'')" by fastforce
  have "q = 1" "names t'' = names t'" using names_add [OF b] t'(2) by simp_all
  moreover from this have "t'' = t'" using names_unique add_labels_wf [OF t'(3) b] t'(3) by blast
  ultimately have again: "sni_add t' hostname v = (1, t')" using b by (simp add: sni_add_def)
  obtain p s where c: "removeUser t' ?ls = (p, s)" by fastforce
  have s: "p = Some u" "names s = names t" "wf_sni s"
    using names_remove [OF t'(3) c] t'(2) assms(2) by (auto simp: fun_eq_iff)
  then have "s = t" using names_unique assms(1) by blast
  with s(1) c have rem: "removeUser t' ?ls = (Some u, t)" by simp
  obtain ps where "patterns ?ls = ?ls # ps" using patterns_head by blast
  then have "getUser t' ?ls = Some u" using t'(2) by (simp add: getUser_first first_stored_head)
  with again rem t' a show ?thesis
    by (simp add: sni_add_def sni_find_def sni_remove_def MAX_LABELS_def Let_def)
qed

theorem sni_add_remove_witness:
  "\<exists>t'. sni_add (sni_new :: nat sni_node) ''a.b'' 3 = (0, t') \<and> sni_find t' ''a.b'' = Some 3
     \<and> sni_remove t' ''a.b'' = (Some 3, sni_new)"
proof -
  have "length (labels ''a.b'') \<le> 10" by (simp add: labels.simps)
  with sni_add_remove [of "sni_new :: nat sni_node" "''a.b''" 3 3] show ?thesis by auto
qed

subsection \<open>References to contexts\<close>

text \<open>References taken and given back, as far as the trace shows them; and what a listener's tree holds.\<close>

definition refs :: "addr \<Rightarrow> world \<Rightarrow> int" where
  "refs c w = int (length (filter (\<lambda>x. x = Sys (Ssl SSL_CTX_up_ref c)) (trace (kern w))))
     - int (length (filter (\<lambda>x. x = Sys (Ssl SSL_CTX_free c)) (trace (kern w))))"

definition stored :: "addr \<Rightarrow> world \<Rightarrow> addr multiset" where
  "stored ls w = (case l_sni (listeners w ls) of None \<Rightarrow> {#} | Some t \<Rightarrow> image_mset n_ctx (users t))"

definition names_ok :: "addr \<Rightarrow> world \<Rightarrow> bool" where
  "names_ok ls w = (case l_sni (listeners w ls) of None \<Rightarrow> True | Some t \<Rightarrow> wf_sni t)"

definition balanced :: "addr \<Rightarrow> world \<Rightarrow> world \<Rightarrow> bool" where
  "balanced ls w u \<longleftrightarrow> names_ok ls u \<and> l_ssl_ctx (listeners u ls) = l_ssl_ctx (listeners w ls)
     \<and> (\<forall>c. refs c u - int (count (stored ls u) c) = refs c w - int (count (stored ls w) c))"

lemma refs_ext: "refs c (ext_call x w) = refs c w + (if x = Ssl SSL_CTX_up_ref c then 1 else 0)
    - (if x = Ssl SSL_CTX_free c then 1 else 0)"
  by (simp add: refs_def ext_call_def upd_kern_def)

lemma refs_sys: "\<forall>c. x \<noteq> Ssl SSL_CTX_up_ref c \<and> x \<noteq> Ssl SSL_CTX_free c \<Longrightarrow> refs c (snd (lift_k (sys x) w)) = refs c w"
  by (simp add: refs_def sys_def Let_def)

lemma refs_upd_ls [simp]: "refs c (upd_ls ls f w) = refs c w"
  by (simp add: refs_def upd_ls_def)

lemma refs_destructor:
  "refs c (sni_node_destructor n w) = refs c w - (case n of None \<Rightarrow> 0 | Some n \<Rightarrow> if n_ctx n = c then 1 else 0)"
  by (auto simp: sni_node_destructor_def refs_ext split: option.split)

lemma destructor_listeners [simp]: "listeners (sni_node_destructor n w) = listeners w"
  by (simp add: sni_node_destructor_def split: option.split)

lemma upd_ls_same [simp]: "listeners (upd_ls ls f w) ls = f (listeners w ls)"
  by (simp add: upd_ls_def)

lemma add_balanced:
  assumes "names_ok ls w"
  shows "balanced ls w (snd (us_listen_socket_add_server_name ls hostname ctx user w))"
proof (cases "l_ssl_ctx (listeners w ls)")
  case None
  with assms show ?thesis by (simp add: us_listen_socket_add_server_name_def balanced_def)
next
  case (Some d)
  define t where "t = (case l_sni (listeners w ls) of None \<Rightarrow> sni_new | Some t \<Rightarrow> t)"
  obtain r t' where a: "sni_add t hostname \<lparr>n_ctx = ctx, n_user = user\<rparr> = (r, t')" by fastforce
  have wf: "wf_sni t" using assms by (simp add: t_def names_ok_def split: option.splits)
  have s: "stored ls w = image_mset n_ctx (users t)" by (simp add: stored_def t_def split: option.split)
  have u: "wf_sni t'"
    "users t' = (if r = 0 then add_mset \<lparr>n_ctx = ctx, n_user = user\<rparr> (users t) else users t)"
    using a add_labels_wf [OF wf] users_add [OF wf] by (auto simp: sni_add_def)
  show ?thesis
    using Some a u s unfolding us_listen_socket_add_server_name_def t_def
    by (auto simp: balanced_def names_ok_def stored_def set_sni_def refs_ext refs_destructor Let_def split: option.splits)
qed

lemma remove_balanced:
  assumes "names_ok ls w"
  shows "balanced ls w (us_listen_socket_remove_server_name ls hostname w)"
proof (cases "l_sni (listeners w ls)")
  case None
  with assms show ?thesis by (simp add: us_listen_socket_remove_server_name_def balanced_def)
next
  case (Some t)
  obtain n t' where a: "sni_remove t hostname = (n, t')" by fastforce
  have "wf_sni t" using assms Some by (simp add: names_ok_def)
  then have "wf_sni t' \<and> users t = users t' + (case n of None \<Rightarrow> {#} | Some u \<Rightarrow> {#u#})"
    using a names_remove [of t] users_remove [of t] by (auto simp: sni_remove_def Let_def split: if_splits)
  then show ?thesis using Some a
    by (auto simp: us_listen_socket_remove_server_name_def balanced_def names_ok_def stored_def set_sni_def
        refs_destructor split: option.split)
qed

datatype naming = Add_name "char list" addr ptr | Remove_name "char list"

fun name_step :: "addr \<Rightarrow> naming \<Rightarrow> world \<Rightarrow> world" where
  "name_step ls (Add_name hostname ctx user) w = snd (us_listen_socket_add_server_name ls hostname ctx user w)"
| "name_step ls (Remove_name hostname) w = us_listen_socket_remove_server_name ls hostname w"

lemma steps_balanced: "names_ok ls w \<Longrightarrow> balanced ls w (fold (name_step ls) ops w)"
proof (induction ops arbitrary: w)
  case Nil
  then show ?case by (simp add: balanced_def)
next
  case (Cons p ops)
  have "balanced ls w (name_step ls p w)"
    using Cons.prems add_balanced remove_balanced by (cases p) simp_all
  moreover from this have "balanced ls (name_step ls p w) (fold (name_step ls) ops (name_step ls p w))"
    by (intro Cons.IH) (simp add: balanced_def)
  ultimately show ?case by (simp add: balanced_def)
qed

lemma steps_frame:
  "sockets (fold (name_step ls) ops w) = sockets w \<and> groups (fold (name_step ls) ops w) = groups w
    \<and> loop (fold (name_step ls) ops w) = loop w \<and> l_accept_group (listeners (fold (name_step ls) ops w) ls) = l_accept_group (listeners w ls)"
proof (induction ops arbitrary: w)
  case (Cons p ops)
  have "sockets (name_step ls p w) = sockets w \<and> groups (name_step ls p w) = groups w \<and> loop (name_step ls p w) = loop w
    \<and> l_accept_group (listeners (name_step ls p w) ls) = l_accept_group (listeners w ls)"
    by (cases p) (simp_all add: us_listen_socket_add_server_name_def us_listen_socket_remove_server_name_def
        sni_node_destructor_def set_sni_def Let_def case_prod_beta split: option.split)
  with Cons show ?case by simp
qed simp

subsection \<open>Freeing them\<close>

lemma wipe_returns:
  "sll (snx w) p xs \<Longrightarrow> \<exists>u. wipe_listeners ls only p w = Some u \<and> sockets u = sockets w
     \<and> listeners u = listeners w \<and> groups u = groups w \<and> loop u = loop w \<and> (\<forall>c. refs c u = refs c w)"
proof (induction xs arbitrary: p w)
  case (Cons s xs)
  let ?v = "if only = None \<or> s_group (sockets w s) = only then wipe_listener ls s w else w"
  have v: "sockets ?v = sockets w" "listeners ?v = listeners w" "groups ?v = groups w" "loop ?v = loop w"
    "refs c ?v = refs c w" for c
    by (simp_all add: wipe_listener_def Let_def case_prod_beta refs_ext refs_sys split: option.split)
  have "sll (snx ?v) (s_next (sockets w s)) xs" using Cons.prems by (simp add: v(1))
  from Cons.IH [OF this] obtain u where
    "wipe_listeners ls only (s_next (sockets w s)) ?v = Some u \<and> sockets u = sockets ?v
     \<and> listeners u = listeners ?v \<and> groups u = groups ?v \<and> loop u = loop ?v \<and> (\<forall>c. refs c u = refs c ?v)"
    by blast
  moreover have "p = Some s" using Cons.prems by simp
  ultimately show ?case unfolding v by (subst wipe_listeners.simps) simp
qed (simp add: wipe_listeners.simps)

lemma refs_destructors:
  "refs c (fold (\<lambda>n. sni_node_destructor (Some n)) ns w) = refs c w - int (count (image_mset n_ctx (mset ns)) c)
   \<and> listeners (fold (\<lambda>n. sni_node_destructor (Some n)) ns w) = listeners w"
  by (induction ns arbitrary: w) (simp_all add: refs_destructor)

lemma refs_unref:
  "refs c (us_internal_ssl_ctx_unref p w) = refs c w - (if p = Some c then 1 else 0)"
  "listeners (us_internal_ssl_ctx_unref p w) = listeners w"
  by (auto simp: us_internal_ssl_ctx_unref_def refs_ext split: option.split)

text \<open>The context of the empty name, which the destructor of the tree does not report.\<close>

definition unreported :: "addr \<Rightarrow> addr \<Rightarrow> world \<Rightarrow> int" where
  "unreported ls c w = (case l_sni (listeners w ls) of None \<Rightarrow> 0
   | Some t \<Rightarrow> (case names t [] of None \<Rightarrow> 0 | Some n \<Rightarrow> if n_ctx n = c then 1 else 0))"

lemma ssl_free_refs:
  assumes "sll (snx w) (g_head_sockets (groups w (l_accept_group (listeners w ls)))) xs"
    "sll (snx w) (ld_low_prio_head (loop w)) ys"
  shows "\<exists>u. us_internal_listen_socket_ssl_free ls w = Some u \<and> l_sni (listeners u ls) = None
    \<and> (\<forall>c. refs c u = refs c w - int (count (stored ls w) c) + unreported ls c w
          - (if l_ssl_ctx (listeners w ls) = Some c then 1 else 0))"
proof -
  let ?g = "l_accept_group (listeners w ls)"
  obtain v where v: "wipe_listeners ls None (g_head_sockets (groups w ?g)) w = Some v" "sockets v = sockets w"
    "listeners v = listeners w" "loop v = loop w" "\<And>c. refs c v = refs c w"
    using wipe_returns [OF assms(1), of ls None] by blast
  obtain u where u: "wipe_listeners ls (Some ?g) (ld_low_prio_head (loop w)) v = Some u"
    "listeners u = listeners w" "\<And>c. refs c u = refs c w"
    using wipe_returns [of v "ld_low_prio_head (loop w)" ys ls "Some ?g"] assms(2) v by auto
  have f: "image_mset n_ctx (users t) = image_mset n_ctx (mset (sni_free t))
    + (case sni_user t of None \<Rightarrow> {#} | Some n \<Rightarrow> {#n_ctx n#})" for t :: "sni_node_t sni_node"
    using users_free [of t] by (simp split: option.split)
  show ?thesis
    by (auto simp: us_internal_listen_socket_ssl_free_def v u Let_def refs_destructors refs_unref
        stored_def unreported_def f split: option.splits)
qed

text \<open>
  C26: A listener gives back the references to TLS contexts that it takes: however names are added to a listener and
  removed from it, once its TLS state is freed every context has as many references as before the first name, and
  the listener's own context one fewer. The exception is a context stored under the empty name, which the tree's
  destructor does not report.
\<close>

theorem server_names_give_back_references:
  assumes "wf_world A w" "l_sni (listeners w ls) = None"
  shows "\<exists>u. us_internal_listen_socket_ssl_free ls (fold (name_step ls) ops w) = Some u
    \<and> (\<forall>c. refs c u = refs c w - (if l_ssl_ctx (listeners w ls) = Some c then 1 else 0)
           + unreported ls c (fold (name_step ls) ops w))"
proof -
  let ?v = "fold (name_step ls) ops w"
  have b: "balanced ls w ?v" using assms(2) by (intro steps_balanced) (simp add: names_ok_def)
  have "dll (snx w) (spv w) (g_head_sockets (groups w g)) (a_socks A g)" "dll (snx w) (spv w) (ld_low_prio_head (loop w)) (a_low A)" for g
    using assms(1) by (simp_all add: wf_world_def wf_socks_def wf_low_def)
  then have "sll (snx ?v) (g_head_sockets (groups ?v g)) (a_socks A g)" "sll (snx ?v) (ld_low_prio_head (loop ?v)) (a_low A)" for g
    using steps_frame [of ls ops w] by (auto dest: dll_sll)
  from ssl_free_refs [OF this] obtain u where "us_internal_listen_socket_ssl_free ls ?v = Some u"
    "\<And>c. refs c u = refs c ?v - int (count (stored ls ?v) c) + unreported ls c ?v
          - (if l_ssl_ctx (listeners ?v ls) = Some c then 1 else 0)" by blast
  moreover have "refs c ?v - int (count (stored ls ?v) c) = refs c w" "l_ssl_ctx (listeners ?v ls) = l_ssl_ctx (listeners w ls)" for c
    using b assms(2) by (simp_all add: balanced_def stored_def)
  ultimately show ?thesis by auto
qed

theorem server_names_give_back_references_witness:
  "\<exists>u. us_internal_listen_socket_ssl_free 6
      (fold (name_step 6) [Add_name ''a.b'' 30 None, Add_name '''' 31 None] (upd_ls 6 (l_ssl_ctx_update (\<lambda>_. Some 32)) (scene []))) = Some u
    \<and> refs 30 u = refs 30 (scene []) \<and> refs 31 u = refs 31 (scene []) + 1 \<and> refs 32 u = refs 32 (scene []) - 1"
proof -
  let ?w = "upd_ls 6 (l_ssl_ctx_update (\<lambda>_. Some 32)) (scene [])"
  have "wf_world (a_link 5 7 a_blank) ?w = wf_world (a_link 5 7 a_blank) (scene [])"
    by (rule wf_cong) simp_all
  with scene_wf have w: "wf_world (a_link 5 7 a_blank) ?w" by simp
  have l: "listeners (scene []) 6 = \<lparr> l_accept_group = 5, l_next = None, l_ssl_ctx = None, l_sni = None,
       l_on_server_name = False, l_socket_ext_size = 0, l_accept_kind = 0, l_deferred_accept = False \<rparr>"
    by (simp_all add: scene_def blank_def)
  have "l_sni (listeners ?w 6) = None" by (simp add: l)
  from server_names_give_back_references [OF w this, of "[Add_name ''a.b'' 30 None, Add_name '''' 31 None]"]
  obtain u where u: "us_internal_listen_socket_ssl_free 6
      (fold (name_step 6) [Add_name ''a.b'' 30 None, Add_name '''' 31 None] ?w) = Some u"
    and r: "refs c u = refs c ?w - (if l_ssl_ctx (listeners ?w 6) = Some c then 1 else 0)
       + unreported 6 c (fold (name_step 6) [Add_name ''a.b'' 30 None, Add_name '''' 31 None] ?w)" for c
    by blast
  have "refs c u = refs c (scene []) - (if c = 32 then 1 else 0) + (if c = 31 then 1 else 0)" for c
    unfolding r by (simp add: l unreported_def us_listen_socket_add_server_name_def sni_add_def labels.simps sni_new_def
        set_sni_def)
  with u show ?thesis by simp
qed

end
