(* ===== verification/Uws_Chunked.thy ===== *)
theory Uws_Chunked imports
  "Us_Prelude"
begin

section \<open>The parser of chunked transfer encoding (\<open>ChunkedEncoding.h\<close>)\<close>

text \<open>
  The body of a request in chunked encoding arrives in segments cut anywhere. What the parser knows
  between two of them is one 64 bit word: five flags at the top and a size below. \<open>data\<close> is the
  rest of the segment; \<open>getNextChunk\<close> takes bytes off it and returns a piece of the body, an empty
  one at the end of the body, or nothing when it needs more data, when it has seen the whole encoding
  (the word is 0) or when the encoding is malformed (the word is all ones).
\<close>

subsection \<open>The word\<close>

definition STATE_HAS_SIZE :: "u64" where "STATE_HAS_SIZE = push_bit (8 * 8 - 1) 1"
definition STATE_IS_CHUNKED :: "u64" where "STATE_IS_CHUNKED = push_bit (8 * 8 - 2) 1"
definition STATE_IS_CHUNKED_EXTENSION :: "u64" where "STATE_IS_CHUNKED_EXTENSION = push_bit (8 * 8 - 3) 1"
definition STATE_WAITING_FOR_LF :: "u64" where "STATE_WAITING_FOR_LF = push_bit (8 * 8 - 4) 1"
definition STATE_HAS_HEXDIG :: "u64" where "STATE_HAS_HEXDIG = push_bit (8 * 8 - 5) 1"
definition STATE_SIZE_MASK :: "u64" where
  "STATE_SIZE_MASK = NOT (STATE_HAS_SIZE OR STATE_IS_CHUNKED OR STATE_IS_CHUNKED_EXTENSION
  OR STATE_WAITING_FOR_LF OR STATE_HAS_HEXDIG)"
definition STATE_IS_ERROR :: "u64" where "STATE_IS_ERROR = NOT 0"
definition STATE_SIZE_OVERFLOW :: "u64" where "STATE_SIZE_OVERFLOW = push_bit (8 * 8 - 10) 0x1F"

definition chunkSize :: "u64 \<Rightarrow> u64" where
  "chunkSize state = state AND STATE_SIZE_MASK"

definition decChunkSize :: "u64 \<Rightarrow> u64 \<Rightarrow> u64" where
  "decChunkSize state by = (state AND NOT STATE_SIZE_MASK) OR (chunkSize state - by)"

definition hasChunkSize :: "u64 \<Rightarrow> bool" where
  "hasChunkSize state \<longleftrightarrow> state AND STATE_HAS_SIZE \<noteq> 0"

definition isParsingChunkedEncoding :: "u64 \<Rightarrow> bool" where
  "isParsingChunkedEncoding state \<longleftrightarrow> state AND NOT STATE_SIZE_MASK \<noteq> 0"

definition isParsingInvalidChunkedEncoding :: "u64 \<Rightarrow> bool" where
  "isParsingInvalidChunkedEncoding state \<longleftrightarrow> state = STATE_IS_ERROR"

subsection \<open>The line with the size\<close>

definition char_LF :: "u8" where "char_LF = 10"
definition char_CR :: "u8" where "char_CR = 13"
definition char_semicolon :: "u8" where "char_semicolon = 59"

text \<open>The digit loop; \<open>None\<close> for \<open>return STATE_IS_ERROR\<close>.\<close>

definition hex_digit :: "u8 \<Rightarrow> u32 option" where
  "hex_digit c = (let d = ucast c OR 0x20 :: u32 in
     if d - 48 < 10 then Some (d - 48) else if d - 97 < 6 then Some (d - 97 + 10) else None)"

fun hex_loop :: "u8 list \<Rightarrow> u64 \<Rightarrow> (u8 list \<times> u64) option" where
  "hex_loop [] state = Some ([], state)"
| "hex_loop (c # p) state =
    (if c \<le> 32 \<or> c = char_semicolon then Some (c # p, state)
     else case hex_digit c of
       None \<Rightarrow> None
     | Some n \<Rightarrow>
        if chunkSize state AND STATE_SIZE_OVERFLOW \<noteq> 0 then None
        else hex_loop p (((state AND STATE_SIZE_MASK) * 16 + ucast n) OR STATE_IS_CHUNKED OR STATE_HAS_HEXDIG))"

text \<open>The loop that drains extensions and the end of the line.\<close>

definition line_done :: "u64 \<Rightarrow> u64 \<Rightarrow> u64" where
  "line_done flags state = ((state AND NOT flags) + 2) OR STATE_HAS_SIZE OR STATE_IS_CHUNKED"

fun drain_line :: "u8 list \<Rightarrow> u64 \<Rightarrow> (u8 list \<times> u64) option" where
  "drain_line [] state = Some ([], state)"
| "drain_line (c # p) state =
    (if c = char_LF then None
     else if c = char_CR then
       (case p of
         [] \<Rightarrow> Some ([], state OR STATE_WAITING_FOR_LF)
       | x # q \<Rightarrow> if x \<noteq> char_LF then None
                  else if state AND STATE_HAS_HEXDIG = 0 then None
                  else Some (q, line_done (STATE_IS_CHUNKED_EXTENSION OR STATE_HAS_HEXDIG) state))
     else if c \<le> 32 then None
     else drain_line p (state OR STATE_IS_CHUNKED_EXTENSION))"

text \<open>On an error the rest of the segment is not written back.\<close>

definition consumeHexNumber :: "u8 list \<Rightarrow> u64 \<Rightarrow> u8 list \<times> u64" where
  "consumeHexNumber data state =
    (if state AND STATE_WAITING_FOR_LF \<noteq> 0 then
       (case data of
         [] \<Rightarrow> (data, state)
       | x # p \<Rightarrow> if x \<noteq> char_LF then (data, STATE_IS_ERROR)
                  else if state AND STATE_HAS_HEXDIG = 0 then (data, STATE_IS_ERROR)
                  else (p, line_done (STATE_WAITING_FOR_LF OR STATE_IS_CHUNKED_EXTENSION OR STATE_HAS_HEXDIG) state))
     else case (if state AND STATE_IS_CHUNKED_EXTENSION = 0 then hex_loop data state else Some (data, state)) of
       None \<Rightarrow> (data, STATE_IS_ERROR)
     | Some (p, state) \<Rightarrow> (case drain_line p state of None \<Rightarrow> (data, STATE_IS_ERROR) | Some r \<Rightarrow> r))"

subsection \<open>Chunks\<close>

text \<open>The inner loop of the mode that drops the terminator; the flag says that it has returned.\<close>

fun drop_terminator :: "u8 list \<Rightarrow> u64 \<Rightarrow> bool \<times> u8 list \<times> u64" where
  "drop_terminator [] state = (False, [], state)"
| "drop_terminator (c # data) state =
    (if chunkSize state = 0 then (False, c # data, state)
     else let expected = (if chunkSize state AND 1 \<noteq> 0 then char_LF else char_CR) in
       if c \<noteq> expected then (True, c # data, STATE_IS_ERROR)
       else let state = decChunkSize state 1 in
         if chunkSize state = 0 then (True, data, 0) else drop_terminator data state)"

text \<open>The two ways to take bytes of the chunk itself: all that is left of it, or all that is there.\<close>

definition bad_terminator :: "u8 list \<Rightarrow> u64 \<Rightarrow> bool" where
  "bad_terminator data remaining \<longleftrightarrow>
    (if remaining = 0 then False
     else if remaining = 1 then data ! 0 \<noteq> char_LF
     else data ! (unat remaining - 2) \<noteq> char_CR \<or> data ! (unat remaining - 1) \<noteq> char_LF)"

definition partial_emit :: "u8 list \<Rightarrow> u64 \<Rightarrow> u8 list option" where
  "partial_emit data sz =
    (let len = length data in
     if sz > 2 then
       let maximalAppEmit = unat (sz - 2) in
       if len > maximalAppEmit then
         (let terminatorBytesConsumed = len - maximalAppEmit in
          if terminatorBytesConsumed \<ge> 1 \<and> data ! maximalAppEmit \<noteq> char_CR then None
          else if terminatorBytesConsumed \<ge> 2 \<and> data ! (maximalAppEmit + 1) \<noteq> char_LF then None
          else Some (take maximalAppEmit data))
       else Some data
     else if sz = 2 then
       (if len \<ge> 1 \<and> data ! 0 \<noteq> char_CR then None
        else if len \<ge> 2 \<and> data ! 1 \<noteq> char_LF then None else Some [])
     else if sz = 1 then (if data ! 0 \<noteq> char_LF then None else Some [])
     else Some [])"

lemma drop_terminator_length:
  "drop_terminator data state = (r, data', state') \<Longrightarrow> length data' \<le> length data
    \<and> (data \<noteq> [] \<and> chunkSize state \<noteq> 0 \<and> \<not> r \<longrightarrow> length data' < length data)"
  by (induction data state rule: drop_terminator.induct)
    (auto simp: Let_def less_Suc_eq_le split: if_splits dest: le_SucI)

lemma hex_loop_length: "hex_loop data state = Some (p, state') \<Longrightarrow> length p \<le> length data"
  by (induction data state rule: hex_loop.induct) (auto split: if_splits option.splits dest: le_SucI)

lemma drain_line_length:
  "drain_line data state = Some (p, state') \<Longrightarrow> length p \<le> length data \<and> (data \<noteq> [] \<longrightarrow> length p < length data)"
  by (induction data state rule: drain_line.induct) (auto split: if_splits list.splits)

text \<open>
  A finished line has taken bytes off the segment. This is what makes the outer loop end; together
  with the flag that a chunk of no remaining bytes clears.
\<close>

lemma consumeHexNumber_length:
  assumes "consumeHexNumber data state = (data', state')" "\<not> hasChunkSize state" "hasChunkSize state'"
    "state' \<noteq> STATE_IS_ERROR" "data \<noteq> []"
  shows "length data' < length data"
proof -
  have n: "state AND STATE_HAS_SIZE = 0" using assms(2) by (simp add: hasChunkSize_def)
  show ?thesis
  proof (cases "state AND STATE_WAITING_FOR_LF \<noteq> 0")
    case True
    with assms show ?thesis by (auto simp: consumeHexNumber_def split: list.splits if_splits)
  next
    case False
    define q where "q = (if state AND STATE_IS_CHUNKED_EXTENSION = 0 then hex_loop data state else Some (data, state))"
    with False assms(1,4) obtain p s where q: "q = Some (p, s)" "drain_line p s = Some (data', state')"
      by (auto simp: consumeHexNumber_def split: option.splits prod.splits)
    have "length p \<le> length data" using q(1) hex_loop_length by (auto simp: q_def split: if_splits)
    moreover have "length data' \<le> length p" using drain_line_length [OF q(2)] by simp
    moreover have "p \<noteq> [] \<Longrightarrow> length data' < length p" using drain_line_length [OF q(2)] by simp
    ultimately show ?thesis using assms(5) by (cases "p = []") auto
  qed
qed

lemma chunked_no_size: "\<not> hasChunkSize STATE_IS_CHUNKED"
  by (simp add: hasChunkSize_def STATE_IS_CHUNKED_def STATE_HAS_SIZE_def)

function getNextChunk :: "u8 list \<Rightarrow> u64 \<Rightarrow> bool \<Rightarrow> u8 list option \<times> u8 list \<times> u64" where
  "getNextChunk data state trailer =
    (if data = [] then (None, data, state)
     else if state AND STATE_IS_CHUNKED = 0 \<and> hasChunkSize state \<and> chunkSize state \<noteq> 0 then
       (let (returned, data, state) = drop_terminator data state in
        if returned then (None, data, state)
        else getNextChunk data state trailer)
     else if \<not> hasChunkSize state then
       (let (data, state) = consumeHexNumber data state in
        if isParsingInvalidChunkedEncoding state then (None, data, state)
        else if hasChunkSize state \<and> chunkSize state = 2 then
          (Some [], data, (if trailer then 4 else 2) OR STATE_HAS_SIZE)
        else if \<not> hasChunkSize state then (None, data, state)
        else getNextChunk data state trailer)
     else
       (let remaining = chunkSize state in
        if length data \<ge> unat remaining then
          (if bad_terminator data remaining then (None, data, STATE_IS_ERROR)
           else let emitSoon = take (unat remaining - 2) data;
                    data = drop (unat remaining) data;
                    state = STATE_IS_CHUNKED
             in if remaining > 2 then (Some emitSoon, data, state) else getNextChunk data state trailer)
        else case partial_emit data remaining of
            None \<Rightarrow> (None, data, STATE_IS_ERROR)
          | Some emitSoon \<Rightarrow>
              (if emitSoon \<noteq> [] then Some emitSoon else None, [],
               decChunkSize state (of_nat (length data)) OR STATE_IS_CHUNKED)))"
  by pat_completeness auto

termination
proof (relation "measures [\<lambda>(data, state, t). length data, \<lambda>(data, state, t). if hasChunkSize state then 1 else 0]",
    goal_cases)
  case (2 data state trailer x returned y data' state')
  then show ?case using drop_terminator_length [of data state returned data' state'] by auto
next
  case (3 data state trailer x data' state')
  then show ?case using consumeHexNumber_length [of data state data' state']
    by (auto simp: isParsingInvalidChunkedEncoding_def)
next
  case (4 data state trailer remaining emitSoon data' state')
  then show ?case using chunked_no_size by (auto simp: unat_gt_0)
qed simp

declare getNextChunk.simps [simp del]


lemma consumeHexNumber_le:
  "consumeHexNumber data state = (data', state') \<Longrightarrow> length data' \<le> length data"
  by (auto simp: consumeHexNumber_def split: if_splits list.splits option.splits
      dest!: hex_loop_length drain_line_length)

text \<open>One turn of the outer loop, by what the word says.\<close>

definition last_mode :: "u64 \<Rightarrow> bool" where
  "last_mode state \<longleftrightarrow> state AND STATE_IS_CHUNKED = 0 \<and> hasChunkSize state \<and> chunkSize state \<noteq> 0"

lemma next_nil [simp]: "getNextChunk [] state trailer = (None, [], state)"
  by (simp add: getNextChunk.simps)

lemma next_last:
  "data \<noteq> [] \<Longrightarrow> last_mode state \<Longrightarrow> drop_terminator data state = (returned, d, s) \<Longrightarrow>
    getNextChunk data state trailer = (if returned then (None, d, s) else getNextChunk d s trailer)"
  by (subst getNextChunk.simps) (simp add: last_mode_def)

lemma next_line:
  "data \<noteq> [] \<Longrightarrow> \<not> hasChunkSize state \<Longrightarrow> consumeHexNumber data state = (d, s) \<Longrightarrow>
    getNextChunk data state trailer =
      (if s = STATE_IS_ERROR then (None, d, s)
       else if hasChunkSize s \<and> chunkSize s = 2 then (Some [], d, (if trailer then 4 else 2) OR STATE_HAS_SIZE)
       else if \<not> hasChunkSize s then (None, d, s) else getNextChunk d s trailer)"
  by (subst getNextChunk.simps) (simp add: isParsingInvalidChunkedEncoding_def)

lemma next_body:
  "data \<noteq> [] \<Longrightarrow> \<not> last_mode state \<Longrightarrow> hasChunkSize state \<Longrightarrow>
    getNextChunk data state trailer =
      (if length data \<ge> unat (chunkSize state) then
         (if bad_terminator data (chunkSize state) then (None, data, STATE_IS_ERROR)
          else if chunkSize state > 2
          then (Some (take (unat (chunkSize state) - 2) data), drop (unat (chunkSize state)) data, STATE_IS_CHUNKED)
          else getNextChunk (drop (unat (chunkSize state)) data) STATE_IS_CHUNKED trailer)
       else case partial_emit data (chunkSize state) of
           None \<Rightarrow> (None, data, STATE_IS_ERROR)
         | Some emitSoon \<Rightarrow> (if emitSoon \<noteq> [] then Some emitSoon else None, [],
              decChunkSize state (of_nat (length data)) OR STATE_IS_CHUNKED))"
  by (subst getNextChunk.simps, fold last_mode_def) (simp add: Let_def)

lemma getNextChunk_length:
  "getNextChunk data state trailer = (r, data', state') \<Longrightarrow>
    length data' \<le> length data \<and> (r \<noteq> None \<longrightarrow> length data' < length data)"
proof (induction data state trailer rule: getNextChunk.induct)
  case (1 data state trailer)
  note last_mode_def [simp]
  consider (none) "data = []" | (last) "data \<noteq> []" "last_mode state"
    | (line) "data \<noteq> []" "\<not> last_mode state" "\<not> hasChunkSize state"
    | (body) "data \<noteq> []" "\<not> last_mode state" "\<not> \<not> hasChunkSize state"
    by blast
  then show ?case
  proof cases
    case none
    with 1(4) show ?thesis by simp
  next
    case last
    obtain b d s where d: "drop_terminator data state = (b, d, s)" by (metis prod_cases3)
    with last 1(1) [OF last [unfolded last_mode_def] d [symmetric] refl] 1(4) drop_terminator_length [OF d] show ?thesis
      by (auto simp add: next_last [OF last d] simp del: last_mode_def split: if_splits)
  next
    case line
    obtain d s where d: "consumeHexNumber data state = (d, s)" by fastforce
    with 1(2) [OF line [unfolded last_mode_def] d [symmetric]] 1(4)
      consumeHexNumber_length [OF d line(3)] consumeHexNumber_le [OF d] line(1)
    show ?thesis
      by (auto simp: next_line [OF line(1,3) d] isParsingInvalidChunkedEncoding_def split: if_splits)
  next
    case body
    let ?n = "unat (chunkSize state)"
    have IH: "length data' \<le> length (drop ?n data) \<and> (r \<noteq> None \<longrightarrow> length data' < length (drop ?n data))"
      if "?n \<le> length data" "\<not> bad_terminator data (chunkSize state)" "\<not> 2 < chunkSize state"
        "getNextChunk (drop ?n data) STATE_IS_CHUNKED trailer = (r, data', state')"
      using 1(3) [OF body [unfolded last_mode_def] refl that(1,2) refl refl refl that(3,4)] .
    have "2 < chunkSize state \<Longrightarrow> ?n \<noteq> 0" by (simp add: word_less_nat_alt)
    with 1(4) body IH show ?thesis
      by (auto simp add: next_body simp del: last_mode_def split: if_splits option.splits)
  qed
qed

text \<open>The loop over a \<open>ChunkIterator\<close>: all the pieces that a segment gives.\<close>

function chunks :: "u8 list \<Rightarrow> u64 \<Rightarrow> bool \<Rightarrow> u8 list list \<times> u8 list \<times> u64" where
  "chunks data state trailer = (case getNextChunk data state trailer of
     (None, data, state) \<Rightarrow> ([], data, state)
   | (Some chunk, data, state) \<Rightarrow>
       (let (cs, data, state) = chunks data state trailer in (chunk # cs, data, state)))"
  by pat_completeness auto
termination
  by (relation "measure (\<lambda>(data, state, t). length data)")
    (auto dest!: getNextChunk_length [OF sym])

declare chunks.simps [simp del]

end
