(* ===== verification/Uws_Chunked_Spec.thy ===== *)
theory Uws_Chunked_Spec imports
  Uws_Chunked
begin

section \<open>Chunked encoding as a machine that reads one byte at a time\<close>

subsection \<open>The word read as flags and a size\<close>

abbreviation sz :: "u64 \<Rightarrow> nat" where
  "sz st \<equiv> unat (chunkSize st)"

lemma size_mask: "STATE_SIZE_MASK = mask 59"
  by (simp add: STATE_SIZE_MASK_def STATE_HAS_SIZE_def STATE_IS_CHUNKED_def STATE_IS_CHUNKED_EXTENSION_def
      STATE_WAITING_FOR_LF_def STATE_HAS_HEXDIG_def mask_eq_exp_minus_1)

lemma flags:
  "STATE_HAS_SIZE = 2 ^ 63" "STATE_IS_CHUNKED = 2 ^ 62" "STATE_IS_CHUNKED_EXTENSION = 2 ^ 61"
  "STATE_WAITING_FOR_LF = 2 ^ 60" "STATE_HAS_HEXDIG = 2 ^ 59"
  by (simp_all add: STATE_HAS_SIZE_def STATE_IS_CHUNKED_def STATE_IS_CHUNKED_EXTENSION_def
      STATE_WAITING_FOR_LF_def STATE_HAS_HEXDIG_def)

lemma chunkSize_take: "chunkSize st = take_bit 59 st"
  by (simp add: chunkSize_def size_mask take_bit_eq_mask)

lemma flag_test: "(st AND 2 ^ n = 0) = (\<not> bit (st::u64) n)"
  by (rule and_exp_eq_0_iff_not_bit)

lemma bit_flag: "bit (2 ^ m :: u64) n \<longleftrightarrow> n = m \<and> m < 64"
  by (auto simp: bit_simps)

lemma has_size: "hasChunkSize st = bit st 63"
  unfolding hasChunkSize_def flags flag_test by simp

lemma low_take: "unat (x::u64) < 2 ^ k \<Longrightarrow> take_bit k x = x"
  by (simp add: word_unat_eq_iff unsigned_take_bit_eq take_bit_nat_eq_self)

lemma low_bit: "unat (x::u64) < 2 ^ k \<Longrightarrow> n \<ge> k \<Longrightarrow> \<not> bit x n"
  using low_take [of x k] bit_take_bit_iff [of k x n] by simp

lemma take_less: "unat (take_bit k (x::u64)) < 2 ^ k"
  by (simp add: unsigned_take_bit_eq)

lemma low_or:
  assumes "unat (x::u64) < 2 ^ k" "take_bit k f = 0"
  shows "take_bit k (x OR f) = x" "n \<ge> k \<Longrightarrow> bit (x OR f) n = bit f n"
  using assms by (simp_all add: low_take low_bit bit_or_iff)

lemma flag_low: "m \<ge> k \<Longrightarrow> take_bit k (2 ^ m :: u64) = 0"
  by (rule bit_word_eqI) (auto simp: bit_simps)

lemma add_low:
  assumes "unat (take_bit k (st::u64)) + j < 2 ^ k" "k \<le> 64"
  shows "take_bit k (st + of_nat j) = take_bit k st + of_nat j" "n \<ge> k \<Longrightarrow> bit (st + of_nat j) n = bit st n"
    "unat (take_bit k (st + of_nat j)) = unat (take_bit k st) + j"
proof -
  let ?h = "st AND NOT (mask k)" and ?t = "take_bit k st"
  have j: "unat ?t + j < 2 ^ 64" using assms(1) power_increasing [OF assms(2), of "2::nat"] by simp
  have s: "unat (?t + of_nat j) = unat ?t + j"
    using j by (simp add: unat_word_ariths unat_of_nat mod_add_right_eq)
  then have u: "unat (?t + of_nat j) < 2 ^ k" using assms by simp
  have d1: "?h AND ?t = 0" by (rule bit_word_eqI) (auto simp: bit_simps)
  have d2: "?h AND (?t + of_nat j) = 0"
    using low_bit [OF u] by (intro bit_word_eqI) (auto simp: bit_simps)
  have "st = ?h OR ?t" by (rule bit_word_eqI) (auto simp: bit_simps)
  also have "\<dots> = ?h + ?t" using d1 by (simp add: disjunctive_add_eq_or)
  finally have "st + of_nat j = (?h + ?t) + of_nat j" by (rule arg_cong [where f = "\<lambda>x. x + of_nat j"])
  also have "\<dots> = ?h + (?t + of_nat j)" by (rule add.assoc)
  also have "\<dots> = (?t + of_nat j) OR ?h" using d2 by (simp add: disjunctive_add_eq_or or.commute)
  finally have e: "st + of_nat j = (?t + of_nat j) OR ?h" .
  have z: "take_bit k ?h = 0" by (rule bit_word_eqI) (auto simp: bit_simps)
  show t: "take_bit k (st + of_nat j) = ?t + of_nat j" unfolding e by (rule low_or [OF u z])
  show "n \<ge> k \<Longrightarrow> bit (st + of_nat j) n = bit st n" unfolding e
    using low_or(2) [OF u z, of n] bit_imp_le_length [of st n] by (auto simp add: bit_simps)
  show "unat (take_bit k (st + of_nat j)) = unat (take_bit k st) + j" by (simp add: t s)
qed
subsection \<open>The machine\<close>

text \<open>
  Where in the encoding the parser is: in the line with the size (the value so far, whether a digit
  was seen, and in which part of the line), in a chunk (bytes left, its line end included), in the
  terminator after the last chunk, at the end, or nowhere because the encoding is malformed.
\<close>

datatype part = Digits | Extension | After_CR

datatype mode = Line nat bool part | Body nat | Last nat | Done | Bad

datatype piece = Byte u8 | End

definition digit_value :: "u8 \<Rightarrow> nat option" where
  "digit_value c = (let n = unat c in
     if 48 \<le> n \<and> n \<le> 57 then Some (n - 48) else if 97 \<le> n \<and> n \<le> 102 then Some (n - 87)
     else if 65 \<le> n \<and> n \<le> 70 then Some (n - 55)
     else None)"

definition after_digits :: "nat \<Rightarrow> bool \<Rightarrow> u8 \<Rightarrow> mode" where
  "after_digits n seen c = (if c = char_CR then Line n seen After_CR
     else if c \<le> 32 then Bad else Line n seen Extension)"

definition line_end :: "bool \<Rightarrow> nat \<Rightarrow> mode \<times> piece list" where
  "line_end trailer n = (if n = 0 then (Last (if trailer then 4 else 2), [End]) else (Body (n + 2), []))"

fun bstep :: "bool \<Rightarrow> mode \<Rightarrow> u8 \<Rightarrow> mode \<times> piece list" where
  "bstep t (Line n seen Digits) c =
    (if c \<le> 32 \<or> c = char_semicolon then (after_digits n seen c, [])
     else case digit_value c of
       None \<Rightarrow> (Bad, [])
     | Some d \<Rightarrow> (if n \<ge> 2 ^ 54 then Bad else Line (n * 16 + d) True Digits, []))"
| "bstep t (Line n seen Extension) c = (after_digits n seen c, [])"
| "bstep t (Line n seen After_CR) c = (if c = char_LF \<and> seen then line_end t n else (Bad, []))"
| "bstep t (Body r) c =
    (if r > 2 then (Body (r - 1), [Byte c])
     else if r = 2 then (if c = char_CR then Body 1 else Bad, [])
     else (if c = char_LF then Line 0 False Digits else Bad, []))"
| "bstep t (Last r) c =
    (if c = (if odd r then char_LF else char_CR) then (if r = 1 then Done else Last (r - 1), []) else (Bad, []))"
| "bstep t m c = (m, [])"

text \<open>It stops at the end of the encoding, and leaves what follows.\<close>

fun decode :: "bool \<Rightarrow> mode \<Rightarrow> u8 list \<Rightarrow> mode \<times> piece list \<times> u8 list" where
  "decode t m [] = (m, [], [])"
| "decode t m (c # cs) =
    (if m = Done \<or> m = Bad then (m, [], c # cs)
     else let (m, ps) = bstep t m c; (m, qs, rest) = decode t m cs in (m, ps @ qs, rest))"

lemma decode_stuck [simp]: "decode t Done cs = (Done, [], cs)" "decode t Bad cs = (Bad, [], cs)"
  by (cases cs; simp)+

lemma decode_append:
  "decode t m (as @ bs) = (let (m, ps, rest) = decode t m as; (m, qs, rest) = decode t m (rest @ bs) in (m, ps @ qs, rest))"
proof (induction as arbitrary: m)
  case (Cons a as)
  then show ?case by (cases "m = Done \<or> m = Bad") (auto simp: Let_def split: prod.splits)
qed simp

lemma decode_before: "decode t m before = (m', ps, []) \<Longrightarrow>
    decode t m (before @ cs) = (let (m'', qs, rest) = decode t m' cs in (m'', ps @ qs, rest))"
  by (subst decode_append) simp

lemma decode_silent: "decode t m before = (m', [], []) \<Longrightarrow> decode t m (before @ cs) = decode t m' cs"
  by (simp add: decode_before)

lemma decode_rest: "decode t m cs = (m', ps, rest) \<Longrightarrow> m' \<noteq> Done \<Longrightarrow> m' \<noteq> Bad \<Longrightarrow> rest = []"
  by (induction cs arbitrary: m ps) (auto simp: Let_def split: if_splits prod.splits)

subsection \<open>Which point of the encoding a word stands for\<close>

definition mode_of :: "u64 \<Rightarrow> mode" where
  "mode_of st = (if st = STATE_IS_ERROR then Bad else if st = 0 then Done
     else if bit st 63 then (if bit st 62 then Body (sz st) else Last (sz st))
     else Line (sz st) (bit st 59) (if bit st 60 then After_CR else if bit st 61 then Extension else Digits))"

definition in_line :: "u64 \<Rightarrow> bool" where
  "in_line st \<longleftrightarrow> \<not> bit st 63 \<and> bit st 62 \<and> sz st < 2 ^ 58"

definition in_chunk :: "u64 \<Rightarrow> bool" where
  "in_chunk st \<longleftrightarrow> bit st 63 \<and> \<not> bit st 59 \<and> sz st \<noteq> 0"

definition wf_state :: "u64 \<Rightarrow> bool" where
  "wf_state st \<longleftrightarrow> st = STATE_IS_ERROR \<or> st = 0 \<or> in_line st \<or> in_chunk st"

lemma error_bit: "n < 64 \<Longrightarrow> bit STATE_IS_ERROR n"
  by (simp add: STATE_IS_ERROR_def bit_simps)

lemma mode_line:
  "in_line st \<Longrightarrow> mode_of st = Line (sz st) (bit st 59) (if bit st 60 then After_CR else if bit st 61 then Extension else Digits)"
  "in_line st \<Longrightarrow> st \<noteq> STATE_IS_ERROR \<and> st \<noteq> 0 \<and> \<not> hasChunkSize st"
  using error_bit [of 63] by (auto simp: mode_of_def in_line_def has_size)

lemma mode_chunk:
  "in_chunk st \<Longrightarrow> mode_of st = (if bit st 62 then Body (sz st) else Last (sz st))"
  "in_chunk st \<Longrightarrow> st \<noteq> STATE_IS_ERROR \<and> st \<noteq> 0 \<and> hasChunkSize st"
  using error_bit [of 59] by (auto simp: mode_of_def in_chunk_def has_size)

lemma last_chunk: "in_chunk st \<Longrightarrow> last_mode st = (\<not> bit st 62)"
  unfolding last_mode_def flags flag_test has_size by (auto simp: in_chunk_def)


subsection \<open>What the operations on the word do\<close>

lemma overflow_test: "(chunkSize st AND STATE_SIZE_OVERFLOW = 0) = (sz st < 2 ^ 54)"
proof -
  have o: "STATE_SIZE_OVERFLOW = mask 59 AND NOT (mask 54)"
    by (simp add: STATE_SIZE_OVERFLOW_def mask_eq_exp_minus_1)
  have "chunkSize st AND STATE_SIZE_OVERFLOW = chunkSize st AND NOT (mask 54)"
    unfolding o chunkSize_take by (rule bit_word_eqI) (auto simp: bit_simps)
  also have "\<dots> = 0 \<longleftrightarrow> take_bit 54 (chunkSize st) = chunkSize st"
    by (auto simp: bit_eq_iff bit_simps)
  also have "\<dots> \<longleftrightarrow> sz st < 2 ^ 54"
    using low_take [of "chunkSize st" 54] take_less [of 54 "chunkSize st"] by metis
  finally show ?thesis .
qed

lemma digit_word:
  assumes "sz st < 2 ^ 54" "unat n < 16"
  defines "st' \<equiv> ((st AND STATE_SIZE_MASK) * 16 + ucast (n::u32)) OR STATE_IS_CHUNKED OR STATE_HAS_HEXDIG"
  shows "in_line st'" "mode_of st' = Line (sz st * 16 + unat n) True Digits" "\<not> bit st' 60" "\<not> bit st' 61"
proof -
  let ?x = "(st AND STATE_SIZE_MASK) * 16 + ucast n :: u64"
  have u: "unat ?x = sz st * 16 + unat n"
    using assms(1,2) by (simp add: chunkSize_def unat_word_ariths unsigned_ucast_eq take_bit_nat_eq_self)
  then have l: "unat ?x < 2 ^ 59" "unat ?x < 2 ^ 58" using assms(1,2) by simp_all
  have f: "take_bit 59 (STATE_IS_CHUNKED OR STATE_HAS_HEXDIG) = 0" by (simp add: flags flag_low del: power_numeral)
  have st': "st' = ?x OR (STATE_IS_CHUNKED OR STATE_HAS_HEXDIG)" by (simp add: st'_def or.assoc)
  have b: "bit st' k \<longleftrightarrow> k = 62 \<or> k = 59" if "k \<ge> 59" for k
  proof -
    have "bit st' k = bit (STATE_IS_CHUNKED OR STATE_HAS_HEXDIG) k" unfolding st' by (rule low_or(2) [OF l(1) f that])
    then show ?thesis unfolding flags by (auto simp: bit_or_iff bit_flag simp del: power_numeral)
  qed
  have "take_bit 59 st' = ?x" unfolding st' by (rule low_or(1) [OF l(1) f])
  then have z: "sz st' = sz st * 16 + unat n" using u by (simp add: chunkSize_take [of st'])
  show i: "in_line st'" using z l(2) u b by (simp add: in_line_def)
  show "\<not> bit st' 60" "\<not> bit st' 61" using b by simp_all
  then show "mode_of st' = Line (sz st * 16 + unat n) True Digits" using b i by (simp add: mode_line z)
qed

lemma flag_word:
  assumes "in_line st" "m = 60 \<or> m = 61"
  shows "in_line (st OR 2 ^ m)" "bit (st OR 2 ^ m) n \<longleftrightarrow> bit st n \<or> n = m" "sz (st OR 2 ^ m) = sz st"
proof -
  show b: "bit (st OR 2 ^ m) n \<longleftrightarrow> bit st n \<or> n = m" for n using assms(2) by (auto simp: bit_or_iff bit_flag)
  have "take_bit 59 (st OR 2 ^ m) = take_bit 59 st" using assms(2) flag_low [of 59 m] by auto
  then show z: "sz (st OR 2 ^ m) = sz st" by (simp add: chunkSize_take)
  show "in_line (st OR 2 ^ m)" using assms b z by (auto simp: in_line_def)
qed

lemma done_word:
  assumes "in_line st" "flags = STATE_IS_CHUNKED_EXTENSION OR STATE_HAS_HEXDIG \<and> \<not> bit st 60
    \<or> flags = STATE_WAITING_FOR_LF OR STATE_IS_CHUNKED_EXTENSION OR STATE_HAS_HEXDIG"
  shows "in_chunk (line_done flags st)" "bit (line_done flags st) 62" "sz (line_done flags st) = sz st + 2"
proof -
  let ?y = "st AND NOT flags"
  have f: "take_bit 59 flags = 0" using assms(2) by (auto simp: flags flag_low simp del: power_numeral)
  have "take_bit 59 ?y = take_bit 59 st"
    using f by (auto simp: bit_eq_iff bit_simps)
  then have z: "sz ?y = sz st" by (simp add: chunkSize_take)
  then have s: "unat (take_bit 59 ?y) + 2 < 2 ^ 59" using assms(1) by (simp add: in_line_def chunkSize_take)
  have a: "unat (take_bit 59 (?y + 2)) = sz st + 2" "\<And>n. n \<ge> 59 \<Longrightarrow> bit (?y + 2) n = bit ?y n"
    using add_low [OF s] z by (simp_all add: chunkSize_take)
  have d: "line_done flags st = (?y + 2) OR 2 ^ 63 OR 2 ^ 62" unfolding line_done_def flags ..
  have "take_bit 59 (line_done flags st) = take_bit 59 (?y + 2)" unfolding d by (simp add: flag_low del: power_numeral)
  then show z': "sz (line_done flags st) = sz st + 2" using a(1) by (simp add: chunkSize_take)
  have b: "bit (line_done flags st) n \<longleftrightarrow> n = 62 \<or> n = 63 \<or> bit ?y n" if "n \<ge> 59" for n
    unfolding d bit_or_iff bit_flag a(2) [OF that] by auto
  show "bit (line_done flags st) 62" using b by simp
  have "\<not> bit ?y 59" using assms(2) by (auto simp: flags bit_simps)
  with b z' show "in_chunk (line_done flags st)" by (simp add: in_chunk_def)
qed

lemma dec_word:
  assumes "unat by \<le> sz st"
  shows "sz (decChunkSize st by) = sz st - unat by" "n \<ge> 59 \<Longrightarrow> bit (decChunkSize st by) n = bit st n"
proof -
  let ?x = "chunkSize st - by"
  have u: "unat ?x = sz st - unat by" using assms by (simp add: unat_sub word_le_nat_alt)
  have l: "unat ?x < 2 ^ 59" using u take_less [of 59 st] by (simp add: chunkSize_take)
  have f: "take_bit 59 (st AND NOT STATE_SIZE_MASK) = 0"
    unfolding size_mask by (rule bit_word_eqI) (auto simp: bit_simps)
  have d: "decChunkSize st by = ?x OR (st AND NOT STATE_SIZE_MASK)" by (simp add: decChunkSize_def or.commute)
  have "take_bit 59 (decChunkSize st by) = ?x" unfolding d by (rule low_or(1) [OF l f])
  then show "sz (decChunkSize st by) = sz st - unat by" using u by (simp add: chunkSize_take [of "decChunkSize st by"])
  show "n \<ge> 59 \<Longrightarrow> bit (decChunkSize st by) n = bit st n" unfolding d
    using low_or(2) [OF l f, of n] bit_imp_le_length [of st n] by (auto simp: size_mask bit_simps)
qed


lemma fold_case: "unat (ucast (c::u8) OR 0x20 :: u32) = unat c + (if odd (unat c div 32) then 0 else 32)"
proof -
  let ?c = "ucast c :: u32"
  have c8: "unat c < 2 ^ 8" using unsigned_less [of c] by simp
  then have "take_bit 32 (unat c) = unat c" by (intro take_bit_nat_eq_self) simp
  then have u: "unat ?c = unat c" by (simp add: unsigned_ucast_eq)
  have b: "bit ?c 5 \<longleftrightarrow> odd (unat c div 32)"
  proof -
    have "bit ?c 5 = bit (unat ?c) 5" by (rule bit_unsigned_iff [where 'a = nat, symmetric, simplified])
    then show ?thesis unfolding u by (simp add: bit_iff_odd)
  qed
  show ?thesis
  proof (cases "bit ?c 5")
    case True
    have "?c OR 2 ^ m = ?c" if "bit ?c m" for m using that by (intro bit_word_eqI) (auto simp: bit_or_iff bit_exp_iff)
    from this [OF True] True b u show ?thesis by simp
  next
    case False
    then have "?c AND 2 ^ 5 = 0" by (simp add: and_exp_eq_0_iff_not_bit del: power_numeral)
    then have "?c OR 2 ^ 5 = ?c + 2 ^ 5" by (rule disjunctive_add_eq_or [symmetric])
    moreover have "unat (?c + 2 ^ 5) = unat c + 32" using c8 u by (simp add: unat_word_ariths)
    ultimately show ?thesis using False b by simp
  qed
qed

lemma digit_cases:
  fixes u d a b :: nat
  assumes "32 < u" "u < 256" "d = u + (if odd (u div 32) then 0 else 32)"
    "a = (if 48 \<le> d then d - 48 else d + 2 ^ 32 - 48)" "b = (if 97 \<le> d then d - 97 else d + 2 ^ 32 - 97)"
  shows "(if a < 10 then Some a else if b < 6 then Some (b + 10) else None)
    = (if 48 \<le> u \<and> u \<le> 57 then Some (u - 48) else if 97 \<le> u \<and> u \<le> 102 then Some (u - 87)
       else if 65 \<le> u \<and> u \<le> 70 then Some (u - 55) else None)"
proof -
  consider "u < 64" | "64 \<le> u" "u < 96" | "96 \<le> u" "u < 128" | "128 \<le> u" by linarith
  then show ?thesis
  proof cases
    case 1
    then have "u div 32 = 1" using assms(1) by simp
    with 1 assms show ?thesis by auto
  next
    case 2
    then have "u div 32 = 2" by simp
    with 2 assms show ?thesis by auto
  next
    case 3
    then have "u div 32 = 3" by simp
    with 3 assms show ?thesis by auto
  next
    case 4
    with assms(3) have "128 \<le> d" by simp
    with 4 assms(4,5) show ?thesis by auto
  qed
qed

lemma hex_digit_value:
  "\<not> c \<le> 32 \<Longrightarrow> digit_value c = map_option unat (hex_digit c)"
  "hex_digit c = Some n \<Longrightarrow> unat n < 16"
proof -
  define d where "d = (ucast c OR 0x20 :: u32)"
  have d: "unat d = unat c + (if odd (unat c div 32) then 0 else 32)" unfolding d_def by (rule fold_case)
  have c: "unat c < 256" using unsigned_less [of c] by simp
  have s: "unat (d - 48) = (if 48 \<le> unat d then unat d - 48 else unat d + 2 ^ 32 - 48)"
    "unat (d - 97) = (if 97 \<le> unat d then unat d - 97 else unat d + 2 ^ 32 - 97)"
    by (simp_all add: unat_sub_if' )
  have p: "unat (d - 97) < 6 \<Longrightarrow> unat (d - 97 + 10) = unat (d - 97) + 10"
    using unat_word_ariths(1) [of "d - 97" 10] by simp
  have h: "hex_digit c = (if unat (d - 48) < 10 then Some (d - 48) else if unat (d - 97) < 6 then Some (d - 97 + 10) else None)"
    by (simp add: hex_digit_def d_def word_less_nat_alt Let_def)
  show "hex_digit c = Some n \<Longrightarrow> unat n < 16" using p by (auto simp: h simp del: add_diff_eq diff_add_eq split: if_splits)
  show "\<not> c \<le> 32 \<Longrightarrow> digit_value c = map_option unat (hex_digit c)"
  proof -
    assume "\<not> c \<le> 32"
    then have u: "32 < unat c" by (simp add: word_le_nat_alt)
    have "map_option unat (hex_digit c) = (if unat (d - 48) < 10 then Some (unat (d - 48))
      else if unat (d - 97) < 6 then Some (unat (d - 97) + 10) else None)"
      unfolding h using p by (simp del: add_diff_eq diff_add_eq)
    also have "\<dots> = digit_value c" unfolding digit_value_def Let_def by (rule digit_cases [OF u c d s])
    finally show ?thesis ..
  qed
qed

subsection \<open>The line\<close>

lemma hex_loop_decodes:
  assumes "in_line st" "\<not> bit st 60" "\<not> bit st 61"
  shows "case hex_loop data st of
      None \<Rightarrow> fst (decode t (mode_of st) data) = Bad
    | Some (p, st') \<Rightarrow> in_line st' \<and> \<not> bit st' 60 \<and> \<not> bit st' 61 \<and> (p = [] \<or> hd p \<le> 32 \<or> hd p = char_semicolon)
        \<and> (\<exists>used. data = used @ p \<and> decode t (mode_of st) used = (mode_of st', [], []))"
  using assms
proof (induction data st rule: hex_loop.induct)
  case (2 c p st)
  have m: "mode_of st = Line (sz st) (bit st 59) Digits" using 2(2-4) by (simp add: mode_line)
  show ?case
  proof (cases "c \<le> 32 \<or> c = char_semicolon")
    case True
    with 2 m show ?thesis by auto
  next
    case False
    then have v: "digit_value c = map_option unat (hex_digit c)" using hex_digit_value(1) by simp
    show ?thesis
    proof (cases "hex_digit c")
      case None
      with False v m show ?thesis by auto
    next
      case (Some n)
      show ?thesis
      proof (cases "sz st < 2 ^ 54")
        case True
        note w = digit_word [OF True hex_digit_value(2) [OF Some]]
        let ?st = "((st AND STATE_SIZE_MASK) * 16 + ucast n) OR STATE_IS_CHUNKED OR STATE_HAS_HEXDIG"
        have o: "chunkSize st AND STATE_SIZE_OVERFLOW = 0" using True overflow_test by simp
        have e: "bstep t (mode_of st) c = (mode_of ?st, [])" using m False v Some True w(2) by simp
        have d: "decode t (mode_of st) (c # cs) = decode t (mode_of ?st) cs" for cs
          using e m by simp
        have "hex_loop (c # p) st = hex_loop p ?st" using False Some o by simp
        moreover note 2(1) [OF False Some _ w(1,3,4)] o d
        ultimately show ?thesis
          by (auto split: option.splits)
      next
        case False
        then have "chunkSize st AND STATE_SIZE_OVERFLOW \<noteq> 0" using overflow_test by blast
        moreover from False have "bstep t (mode_of st) c = (Bad, [])"
          using m v Some \<open>\<not> (c \<le> 32 \<or> c = char_semicolon)\<close> by simp
        ultimately show ?thesis using m Some \<open>\<not> (c \<le> 32 \<or> c = char_semicolon)\<close> by auto
      qed
    qed
  qed
qed (auto intro: exI [of _ "[]"])


text \<open>A line that has been read: the chunk it announces.\<close>

definition line_read :: "bool \<Rightarrow> u8 list \<Rightarrow> u64 \<Rightarrow> u8 list \<Rightarrow> u64 \<Rightarrow> bool" where
  "line_read t data st p st' \<longleftrightarrow> in_chunk st' \<and> bit st' 62 \<and> (\<exists>used n. sz st' = n + 2 \<and> data = used @ p
     \<and> decode t (mode_of st) used = (fst (line_end t n), snd (line_end t n), []))"

definition line_open :: "bool \<Rightarrow> u8 list \<Rightarrow> u64 \<Rightarrow> u8 list \<Rightarrow> u64 \<Rightarrow> bool" where
  "line_open t data st p st' \<longleftrightarrow> in_line st' \<and> p = [] \<and> decode t (mode_of st) data = (mode_of st', [], [])"

lemma line_read_not_Bad: "fst (line_end t n) \<noteq> Bad" "fst (line_end t n) \<noteq> Done"
  by (simp_all add: line_end_def)

lemma line_prefix:
  assumes "decode t (mode_of st) before = (mode_of s, [], [])"
  shows "line_open t data s p st' \<Longrightarrow> line_open t (before @ data) st p st'"
    "line_read t data s p st' \<Longrightarrow> line_read t (before @ data) st p st'"
proof -
  have e: "decode t (mode_of st) (before @ cs) = decode t (mode_of s) cs" for cs
    by (rule decode_silent [OF assms])
  show "line_open t data s p st' \<Longrightarrow> line_open t (before @ data) st p st'" by (simp add: line_open_def e)
  assume "line_read t data s p st'"
  then obtain used n where r: "in_chunk st'" "bit st' 62" "sz st' = n + 2" "data = used @ p"
    "decode t (mode_of s) used = (fst (line_end t n), snd (line_end t n), [])" by (auto simp: line_read_def)
  then have "decode t (mode_of st) (before @ used) = (fst (line_end t n), snd (line_end t n), [])" by (simp add: e)
  with r show "line_read t (before @ data) st p st'" unfolding line_read_def by (metis append_assoc)
qed

lemma drain_line_decodes:
  assumes "in_line st" "\<not> bit st 60" "bit st 61 \<or> data = [] \<or> hd data \<le> 32 \<or> hd data = char_semicolon"
  shows "case drain_line data st of
      None \<Rightarrow> fst (decode t (mode_of st) data) = Bad
    | Some (p, st') \<Rightarrow> line_open t data st p st' \<or> line_read t data st p st'"
  using assms
proof (induction data st rule: drain_line.induct)
  case (1 st)
  then show ?case by (simp add: line_open_def)
next
  case (2 c p st)
  have nd: "mode_of st \<noteq> Done" "mode_of st \<noteq> Bad" using 2(2) by (simp_all add: mode_line)
  have step: "bstep t (mode_of st) c = (after_digits (sz st) (bit st 59) c, [])"
    using 2(2-4) by (auto simp: mode_line)
  have d: "decode t (mode_of st) (c # cs) = decode t (after_digits (sz st) (bit st 59) c) cs" for cs
    using nd step by simp
  consider (bad) "c = char_LF \<or> c \<noteq> char_CR \<and> c \<le> 32" | (cr) "c = char_CR" | (ext) "c \<noteq> char_LF" "c \<noteq> char_CR" "\<not> c \<le> 32"
    by blast
  then show ?case
  proof cases
    case bad
    then have "after_digits (sz st) (bit st 59) c = Bad" by (auto simp: after_digits_def char_LF_def char_CR_def)
    with bad d show ?thesis by (auto simp: char_LF_def char_CR_def)
  next
    case cr
    then have a: "after_digits (sz st) (bit st 59) c = Line (sz st) (bit st 59) After_CR" by (simp add: after_digits_def)
    have lf: "c \<noteq> char_LF" using cr by (simp add: char_LF_def char_CR_def)
    show ?thesis
    proof (cases p)
      case Nil
      note w = flag_word [OF 2(2), of 60, simplified]
      have "mode_of (st OR STATE_WAITING_FOR_LF) = Line (sz st) (bit st 59) After_CR"
        "in_line (st OR STATE_WAITING_FOR_LF)"
        using flag_word [OF 2(2), of 60] unfolding flags by (simp_all add: mode_line)
      with cr lf Nil d a show ?thesis by (simp add: line_open_def)
    next
      case (Cons x q)
      have h: "st AND STATE_HAS_HEXDIG = 0 \<longleftrightarrow> \<not> bit st 59" unfolding flags by (rule flag_test)
      show ?thesis
      proof (cases "x = char_LF \<and> bit st 59")
        case True
        let ?e = "line_done (STATE_IS_CHUNKED_EXTENSION OR STATE_HAS_HEXDIG) st"
        have "decode t (mode_of st) [c, x] = (fst (line_end t (sz st)), snd (line_end t (sz st)), [])"
          using True unfolding d a by (simp add: line_end_def)
        moreover have "in_chunk ?e" "bit ?e 62" "sz ?e = sz st + 2" using done_word [OF 2(2)] 2(3) by blast+
        ultimately have "line_read t (c # x # q) st q ?e"
          unfolding line_read_def by (metis append_Cons append_Nil)
        with True cr lf Cons h show ?thesis by simp
      next
        case False
        with cr lf Cons h d a show ?thesis by auto
      qed
    qed
  next
    case ext
    then have a: "after_digits (sz st) (bit st 59) c = Line (sz st) (bit st 59) Extension" by (simp add: after_digits_def)
    let ?e = "st OR STATE_IS_CHUNKED_EXTENSION"
    have w: "in_line ?e" "\<not> bit ?e 60" "bit ?e 61" "mode_of ?e = Line (sz st) (bit st 59) Extension"
      using flag_word [OF 2(2), of 61] 2(3) unfolding flags by (simp_all add: mode_line)
    have e: "decode t (mode_of st) (c # cs) = decode t (mode_of ?e) cs" for cs unfolding d a w(4) ..
    have "decode t (mode_of st) [c] = (mode_of ?e, [], [])" using e [of "[]"] by simp
    from line_prefix [OF this, where data = p] have
      "line_open t p ?e r st' \<Longrightarrow> line_open t (c # p) st r st'" "line_read t p ?e r st' \<Longrightarrow> line_read t (c # p) st r st'" for r st'
      by simp_all
    with 2(1) [OF ext w(1,2)] w(3) ext e show ?thesis by (auto split: option.splits)
  qed
qed

lemma consumeHexNumber_decodes:
  assumes "in_line st" "data \<noteq> []" "consumeHexNumber data st = (p, st')"
  shows "st' = STATE_IS_ERROR \<and> fst (decode t (mode_of st) data) = Bad \<or> line_open t data st p st' \<or> line_read t data st p st'"
proof (cases "bit st 60")
  case True
  have m: "mode_of st = Line (sz st) (bit st 59) After_CR" using True assms(1) by (simp add: mode_line)
  have w: "st AND STATE_WAITING_FOR_LF \<noteq> 0" "st AND STATE_HAS_HEXDIG = 0 \<longleftrightarrow> \<not> bit st 59"
    using True unfolding flags flag_test by simp_all
  obtain x q where data: "data = x # q" using assms(2) by (cases data) auto
  let ?e = "line_done (STATE_WAITING_FOR_LF OR STATE_IS_CHUNKED_EXTENSION OR STATE_HAS_HEXDIG) st"
  show ?thesis
  proof (cases "x = char_LF \<and> bit st 59")
    case True
    have "decode t (mode_of st) [x] = (fst (line_end t (sz st)), snd (line_end t (sz st)), [])"
      using True m by (simp add: line_end_def)
    moreover have "in_chunk ?e" "bit ?e 62" "sz ?e = sz st + 2" using done_word [OF assms(1)] by blast+
    ultimately have "line_read t (x # q) st q ?e"
      unfolding line_read_def by (metis append_Cons append_Nil)
    then show ?thesis using True assms(3) w data by (simp add: consumeHexNumber_def)
  next
    case False
    then show ?thesis using assms(3) w data m by (auto simp: consumeHexNumber_def split: if_splits)
  qed
next
  case False
  have w: "st AND STATE_WAITING_FOR_LF = 0" "st AND STATE_IS_CHUNKED_EXTENSION = 0 \<longleftrightarrow> \<not> bit st 61"
    using False unfolding flags flag_test by simp_all
  show ?thesis
  proof (cases "bit st 61")
    case True
    with drain_line_decodes [OF assms(1) False, where data = data and t = t] assms(3) w show ?thesis
      by (auto simp: consumeHexNumber_def split: option.splits)
  next
    case nx: False
    note hex = hex_loop_decodes [OF assms(1) False nx, where data = data and t = t]
    show ?thesis
    proof (cases "hex_loop data st")
      case None
      with hex assms(3) w nx show ?thesis by (auto simp: consumeHexNumber_def)
    next
      case (Some r)
      obtain q s where r: "r = (q, s)" by fastforce
      with hex Some obtain used where h: "in_line s" "\<not> bit s 60" "q = [] \<or> hd q \<le> 32 \<or> hd q = char_semicolon"
        "data = used @ q" "decode t (mode_of st) used = (mode_of s, [], [])" by auto
      have e: "decode t (mode_of st) (used @ cs) = decode t (mode_of s) cs" for cs
        by (rule decode_silent [OF h(5)])
      from line_prefix [OF h(5), where data = q]
      have "line_open t q s p' s' \<Longrightarrow> line_open t data st p' s'" "line_read t q s p' s' \<Longrightarrow> line_read t data st p' s'" for p' s'
        unfolding h(4) by simp_all
      with drain_line_decodes [OF h(1,2), where data = q and t = t] h(3,4) e Some r nx w assms(3) show ?thesis
        by (auto simp: consumeHexNumber_def split: option.splits)
    qed
  qed
qed

end
