(* ===== verification/Uws_Writing.thy ===== *)
theory Uws_Writing imports
  "Uws_Chunked"
begin

section \<open>Numbers and chunks in what is written (\<open>Utilities.h\<close>, \<open>HttpResponse.h\<close>)\<close>

text \<open>
  \<open>u32toaHex\<close> and \<open>u64toa\<close> fill a buffer with the digits of a number, least significant first, and
  copy it out backwards. \<open>write_chunked\<close> is what \<open>HttpResponse::write\<close> hands to the socket for the
  body of a response in chunked encoding, once the headers are out.
\<close>

definition palette :: "u8 list" where
  "palette = [48, 49, 50, 51, 52, 53, 54, 55, 56, 57, 97, 98, 99, 100, 101, 102]"

lemma unat_div_less: "v div k > 0 \<Longrightarrow> unat k > 1 \<Longrightarrow> unat ((v :: 'a::len word) div k) < unat v"
  by (auto simp: unat_div word_less_nat_alt intro!: div_less_dividend gr0I)

function hex_temp :: "u32 \<Rightarrow> u8 list" where
  "hex_temp v = (let c = palette ! unat (v mod 16); v = v div 16 in
     c # (if v > 0 then hex_temp v else []))"
  by pat_completeness auto

termination by (relation "measure unat") (auto intro: unat_div_less)

declare hex_temp.simps [simp del]

definition u32toaHex :: "u32 \<Rightarrow> u8 list" where
  "u32toaHex v = rev (hex_temp v)"

function decimal_temp :: "u64 \<Rightarrow> u8 list" where
  "decimal_temp v = (let c = ucast (v mod 10) + 48; v = v div 10 in
     c # (if v > 0 then decimal_temp v else []))"
  by pat_completeness auto

termination by (relation "measure unat") (auto intro: unat_div_less)

declare decimal_temp.simps [simp del]

definition u64toa :: "u64 \<Rightarrow> u8 list" where
  "u64toa v = rev (decimal_temp v)"

definition UINT_MAX :: nat where
  "UINT_MAX = 2 ^ 32 - 1"

definition crlf :: "u8 list" where
  "crlf = [char_CR, char_LF]"

text \<open>\<open>write\<close>: nothing for no data, and data too long for one chunk goes out in several.\<close>

function write_chunked :: "u8 list \<Rightarrow> u8 list" where
  "write_chunked data =
    (if data = [] then []
     else if length data > UINT_MAX
     then write_chunked (take UINT_MAX data) @ write_chunked (drop UINT_MAX data)
     else u32toaHex (of_nat (length data)) @ crlf @ data @ crlf)"
  by pat_completeness auto

termination by (relation "measure length") (auto simp: UINT_MAX_def)

declare write_chunked.simps [simp del]

text \<open>The end of the body: \<open>internalEnd\<close> writes the last data and the chunk of no bytes.\<close>

definition end_chunked :: "u8 list \<Rightarrow> u8 list" where
  "end_chunked data = write_chunked data @ [48] @ crlf @ crlf"

end
