(* ===== verification/Uws_Chunking.thy ===== *)
theory Uws_Chunking imports
  "Uws_Chunked_Spec"
  Uws_Writing
begin

section \<open>The parser of chunked encoding against the machine\<close>

text \<open>
  The parser, which takes whole pieces of a segment at a time, does what the machine does byte by
  byte. So what it delivers does not depend on how the bytes were cut into segments, and what a
  sender encodes comes out.
\<close>

subsection \<open>Chunks\<close>

lemma decode_body:
  "length bs + 2 \<le> r \<Longrightarrow> decode t (Body r) bs = (Body (r - length bs), map Byte bs, [])"
  by (induction bs arbitrary: r) auto

lemma decode_body_append:
  "length bs + 2 \<le> r \<Longrightarrow> decode t (Body r) (bs @ cs)
    = (let (m, ps, rest) = decode t (Body (r - length bs)) cs in (m, map Byte bs @ ps, rest))"
  by (rule decode_before [OF decode_body])

lemma chunked_word: "in_line STATE_IS_CHUNKED" "mode_of STATE_IS_CHUNKED = Line 0 False Digits"
proof -
  have z: "chunkSize STATE_IS_CHUNKED = 0" unfolding chunkSize_take flags by (rule flag_low) simp
  then show i: "in_line STATE_IS_CHUNKED" unfolding in_line_def flags bit_flag by (simp add: flags [symmetric])
  have b: "\<not> bit STATE_IS_CHUNKED 59" "\<not> bit STATE_IS_CHUNKED 60" "\<not> bit STATE_IS_CHUNKED 61"
    unfolding flags bit_flag by simp_all
  show "mode_of STATE_IS_CHUNKED = Line 0 False Digits" unfolding mode_line(1) [OF i] using z b by simp
qed

lemma last_word:
  assumes "n = 2 \<or> n = 4"
  shows "in_chunk (of_nat n OR STATE_HAS_SIZE)" "mode_of (of_nat n OR STATE_HAS_SIZE) = Last n"
proof -
  have u: "unat (of_nat n :: u64) = n" using assms by auto
  then have l: "unat (of_nat n :: u64) < 2 ^ 59" using assms by auto
  have f: "take_bit 59 STATE_HAS_SIZE = 0" unfolding flags by (rule flag_low) simp
  have "take_bit 59 (of_nat n OR STATE_HAS_SIZE) = of_nat n" by (rule low_or(1) [OF l f])
  then have z: "sz (of_nat n OR STATE_HAS_SIZE) = n" using u by (simp only: chunkSize_take)
  have b: "bit (of_nat n OR STATE_HAS_SIZE) k \<longleftrightarrow> k = 63" if "k \<ge> 59" for k
    unfolding low_or(2) [OF l f that] unfolding flags bit_flag by auto
  show i: "in_chunk (of_nat n OR STATE_HAS_SIZE)" using z b assms by (auto simp: in_chunk_def)
  show "mode_of (of_nat n OR STATE_HAS_SIZE) = Last n" unfolding mode_chunk(1) [OF i] using z b by simp
qed

subsection \<open>The terminator\<close>

lemma odd_test: "(chunkSize st AND 1 \<noteq> 0) = odd (sz st)"
proof -
  have "(chunkSize st AND 1 \<noteq> 0) = bit (chunkSize st) 0" using flag_test [of "chunkSize st" 0] by simp
  also have "\<dots> = bit (sz st) 0" by (rule bit_unsigned_iff [where 'a = nat, symmetric, simplified])
  finally show ?thesis by (simp add: bit_0)
qed

lemma drop_terminator_decodes:
  assumes "in_chunk st" "\<not> bit st 62" "drop_terminator data st = (returned, data', st')"
  shows "if returned then st' = STATE_IS_ERROR \<and> fst (decode t (mode_of st) data) = Bad
        \<or> st' = 0 \<and> decode t (mode_of st) data = (Done, [], data')
      else data' = [] \<and> in_chunk st' \<and> decode t (mode_of st) data = (mode_of st', [], [])"
  using assms
proof (induction data st rule: drop_terminator.induct)
  case (2 c data st)
  have m: "mode_of st = Last (sz st)" using 2(2,3) by (simp add: mode_chunk)
  have nz: "sz st \<noteq> 0" using 2(2) by (simp add: in_chunk_def)
  let ?x = "if odd (sz st) then char_LF else char_CR" and ?d = "decChunkSize st 1"
  have d: "sz ?d = sz st - 1" "\<And>n. n \<ge> 59 \<Longrightarrow> bit ?d n = bit st n"
    using dec_word [of 1 st] nz by simp_all
  have dz: "chunkSize ?d = 0 \<longleftrightarrow> sz st = 1"
    using d(1) nz unat_eq_0 [of "chunkSize ?d"] by linarith
  have cz: "chunkSize st \<noteq> 0" using nz by auto
  show ?case
  proof (cases "c = ?x")
    case False
    with 2(4) cz have "returned" "st' = STATE_IS_ERROR" by (auto simp: odd_test Let_def split: if_splits)
    then show ?thesis using False m by auto
  next
    case True
    show ?thesis
    proof (cases "sz st = 1")
      case one: True
      with 2(4) True cz dz have "returned" "st' = 0" "data' = data" by (auto simp: odd_test Let_def split: if_splits)
      then show ?thesis using True m one by auto
    next
      case False
      have i: "in_chunk ?d" "\<not> bit ?d 62" using d nz False 2(2,3) by (auto simp: in_chunk_def)
      have st: "bstep t (mode_of st) c = (mode_of ?d, [])" using True m False i d(1) by (simp add: mode_chunk)
      have e: "decode t (mode_of st) (c # cs) = decode t (mode_of ?d) cs" for cs using st m by simp
      have r: "drop_terminator data ?d = (returned, data', st')"
        using 2(4) True cz dz False by (auto simp: odd_test Let_def split: if_splits)
      have "(if chunkSize st AND 1 \<noteq> 0 then char_LF else char_CR) = ?x" by (simp only: odd_test)
      with 2(1) [OF cz refl _ refl _ i r] True dz False show ?thesis unfolding e by auto
    qed
  qed
qed simp

subsection \<open>A chunk\<close>

text \<open>What a call returns, as what the machine delivers.\<close>

fun pieces :: "u8 list option \<Rightarrow> piece list" where
  "pieces None = []"
| "pieces (Some []) = [End]"
| "pieces (Some bs) = map Byte bs"

lemma pieces_bytes: "bs \<noteq> [] \<Longrightarrow> pieces (Some bs) = map Byte bs"
  by (cases bs) auto

lemma drop_cons: "n < length data \<Longrightarrow> drop n data = data ! n # drop (Suc n) data"
  by (rule Cons_nth_drop_Suc [symmetric])

lemma decode_from_end:
  assumes "r \<ge> 2" "r - 2 \<le> length data"
  shows "decode t (Body r) data
    = (let (m, ps, rest) = decode t (Body 2) (drop (r - 2) data) in (m, map Byte (take (r - 2) data) @ ps, rest))"
proof -
  have "length (take (r - 2) data) + 2 \<le> r" "r - length (take (r - 2) data) = 2" using assms by auto
  from decode_body_append [OF this(1), of t "drop (r - 2) data"] this(2) show ?thesis by simp
qed

definition bad_end :: "nat \<Rightarrow> u8 list \<Rightarrow> bool" where
  "bad_end r data \<longleftrightarrow> (if r = 1 then data ! 0 \<noteq> char_LF else data ! (r - 2) \<noteq> char_CR \<or> data ! (r - 1) \<noteq> char_LF)"

lemma whole_chunk_decodes:
  assumes "r \<le> length data" "r \<noteq> 0"
  shows "bad_end r data \<Longrightarrow> fst (decode t (Body r) data) = Bad"
    "\<not> bad_end r data \<Longrightarrow> decode t (Body r) (take r data) = (Line 0 False Digits, map Byte (take (r - 2) data), [])"
proof -
  consider "r = 1" | "r \<ge> 2" using assms(2) by linarith
  then have "(bad_end r data \<longrightarrow> fst (decode t (Body r) data) = Bad)
    \<and> (\<not> bad_end r data \<longrightarrow> decode t (Body r) (take r data) = (Line 0 False Digits, map Byte (take (r - 2) data), []))"
  proof cases
    case 1
    with assms(1) obtain x ys where "data = x # ys" by (cases data) auto
    with 1 show ?thesis by (simp add: bad_end_def)
  next
    case 2
    have d: "drop (r - 2) data = data ! (r - 2) # data ! (r - 1) # drop r data"
    proof -
      have "Suc (r - 2) = r - 1" "Suc (r - 1) = r" using 2 by simp_all
      then show ?thesis using 2 assms(1) drop_cons [of "r - 2" data] drop_cons [of "r - 1" data] by simp
    qed
    have "take r data = take (r - 2) data @ [data ! (r - 2), data ! (r - 1)]"
    proof -
      have "r - 2 + 2 = r" using 2 by simp
      then show ?thesis using arg_cong [OF d, of "take 2"] take_add [of "r - 2" 2 data] by (simp add: numeral_2_eq_2)
    qed
    then have t: "take (r - 2) (take r data) = take (r - 2) data"
      "drop (r - 2) (take r data) = [data ! (r - 2), data ! (r - 1)]" using assms(1) by auto
    from 2 show ?thesis
      using decode_from_end [OF 2, of data t] decode_from_end [OF 2, of "take r data" t] assms(1) d t
      by (auto simp: bad_end_def case_prod_beta Let_def)
  qed
  then show "bad_end r data \<Longrightarrow> fst (decode t (Body r) data) = Bad"
    "\<not> bad_end r data \<Longrightarrow> decode t (Body r) (take r data) = (Line 0 False Digits, map Byte (take (r - 2) data), [])"
    by blast+
qed

lemma part_of_chunk_decodes:
  assumes "length data < unat r" "data \<noteq> []"
  shows "case partial_emit data r of
      None \<Rightarrow> fst (decode t (Body (unat r)) data) = Bad
    | Some e \<Rightarrow> decode t (Body (unat r)) data = (Body (unat r - length data), map Byte e, [])"
proof (cases "unat r - 2 < length data")
  case False
  then have "length data + 2 \<le> unat r" using assms by (cases data) auto
  moreover from this have "r > 2" "unat (r - 2) = unat r - 2" using assms(2)
    by (cases data; simp add: word_less_nat_alt unat_sub word_le_nat_alt)+
  ultimately show ?thesis using False by (simp add: partial_emit_def decode_body Let_def)
next
  case True
  have l: "length data = unat r - 1" "unat r \<ge> 2" using True assms by (cases data; simp; arith)+
  then have d: "drop (unat r - 2) data = [data ! (unat r - 2)]"
    using drop_cons [of "unat r - 2" data] True by (simp add: Suc_diff_le numeral_2_eq_2)
  have m: "decode t (Body (unat r)) data = (if data ! (unat r - 2) = char_CR then Body 1 else Bad, map Byte (take (unat r - 2) data), [])"
    using decode_from_end [OF l(2), of data t] d True by simp
  show ?thesis
  proof (cases "r = 2")
    case True
    with l m show ?thesis by (simp add: partial_emit_def Let_def)
  next
    case False
    then have "unat r \<noteq> 2" by (simp add: word_unat_eq_iff)
    then have "r > 2" "unat (r - 2) = unat r - 2" using l by (simp_all add: word_less_nat_alt unat_sub word_le_nat_alt)
    moreover obtain k where "unat r = k + 2" using l(2) le_Suc_ex by (metis add.commute)
    ultimately show ?thesis using m l(1) by (simp add: partial_emit_def Let_def)
  qed
qed


subsection \<open>A call of \<open>getNextChunk\<close>\<close>

definition running :: "u64 \<Rightarrow> bool" where
  "running st \<longleftrightarrow> in_line st \<or> in_chunk st"

text \<open>
  The three ways a call may end: malformed; at the end of the encoding, leaving what follows; or
  somewhere in it, and then with nothing left of the segment unless a piece is returned.
\<close>

definition agrees :: "bool \<Rightarrow> u8 list \<Rightarrow> u64 \<Rightarrow> u8 list option \<Rightarrow> u8 list \<Rightarrow> u64 \<Rightarrow> bool" where
  "agrees t data st r data' st' \<longleftrightarrow>
     st' = STATE_IS_ERROR \<and> r = None \<and> fst (decode t (mode_of st) data) = Bad
   \<or> st' = 0 \<and> r = None \<and> decode t (mode_of st) data = (Done, [], data')
   \<or> running st' \<and> (r = None \<longrightarrow> data' = [])
     \<and> (\<exists>used. data = used @ data' \<and> decode t (mode_of st) used = (mode_of st', pieces r, []))"

lemma agrees_error: "fst (decode t (mode_of st) data) = Bad \<Longrightarrow> agrees t data st None d STATE_IS_ERROR"
  by (simp add: agrees_def)

lemma agrees_running:
  "running st' \<Longrightarrow> (r = None \<Longrightarrow> data' = []) \<Longrightarrow> decode t (mode_of st) used = (mode_of st', pieces r, []) \<Longrightarrow>
    agrees t (used @ data') st r data' st'"
  by (auto simp: agrees_def)

lemma agrees_prefix:
  assumes "decode t (mode_of st) before = (mode_of s, [], [])" "agrees t data s r data' st'"
  shows "agrees t (before @ data) st r data' st'"
proof -
  have e: "decode t (mode_of st) (before @ cs) = decode t (mode_of s) cs" for cs
    by (rule decode_silent [OF assms(1)])
  show ?thesis using assms(2) unfolding agrees_def e by (auto simp: e intro: exI [of _ "before @ _"])
qed

lemma bad_terminator_end: "chunkSize st \<noteq> 0 \<Longrightarrow> bad_terminator data (chunkSize st) = bad_end (sz st) data"
  by (simp add: bad_terminator_def bad_end_def word_unat_eq_iff)

lemma getNextChunk_agrees:
  "running st \<Longrightarrow> getNextChunk data st t = (r, data', st') \<Longrightarrow> agrees t data st r data' st'"
proof (induction data st t rule: getNextChunk.induct)
  case (1 data st t)
  consider (none) "data = []" | (last) "data \<noteq> []" "in_chunk st" "\<not> bit st 62"
    | (line) "data \<noteq> []" "in_line st" | (body) "data \<noteq> []" "in_chunk st" "bit st 62"
    using 1(4) running_def by blast
  then show ?case
  proof cases
    case none
    with 1(4,5) show ?thesis using agrees_running [of st None "[]" t st "[]"] by auto
  next
    case last
    then have lm: "last_mode st" by (simp add: last_chunk)
    obtain b d s where d: "drop_terminator data st = (b, d, s)" by (metis prod_cases3)
    note n = next_last [OF last(1) lm d]
    show ?thesis
    proof (cases b)
      case True
      with drop_terminator_decodes [OF last(2,3) d, of t] 1(5) n show ?thesis by (auto simp: agrees_def)
    next
      case False
      with drop_terminator_decodes [OF last(2,3) d, of t] have
        s: "d = []" "in_chunk s" "decode t (mode_of st) data = (mode_of s, [], [])" by simp_all
      with 1(5) n False have "r = None" "data' = []" "st' = s" by simp_all
      with s agrees_running [of s None "[]" t st data] show ?thesis by (simp add: running_def)
    qed
  next
    case line
    then have ns: "\<not> hasChunkSize st" using mode_line(2) by blast
    then have lm: "\<not> last_mode st" by (simp add: last_mode_def)
    obtain d s where d: "consumeHexNumber data st = (d, s)" by fastforce
    note n = next_line [OF line(1) ns d]
    from consumeHexNumber_decodes [OF line(2,1) d, of t] consider
      (bad) "s = STATE_IS_ERROR" "fst (decode t (mode_of st) data) = Bad"
      | (unfinished) "line_open t data st d s" | (read) "line_read t data st d s" by blast
    then show ?thesis
    proof cases
      case bad
      with 1(5) n have "r = None" "st' = STATE_IS_ERROR" by simp_all
      with agrees_error [OF bad(2)] show ?thesis by simp
    next
      case unfinished
      then have s: "in_line s" "d = []" "decode t (mode_of st) data = (mode_of s, [], [])" by (simp_all add: line_open_def)
      from mode_line(2) [OF s(1)] 1(5) n s(2) have "r = None" "data' = []" "st' = s" by simp_all
      with s agrees_running [of s None "[]" t st data] show ?thesis by (simp add: running_def)
    next
      case read
      then obtain used k where s: "in_chunk s" "bit s 62" "sz s = k + 2" "data = used @ d"
        "decode t (mode_of st) used = (fst (line_end t k), snd (line_end t k), [])" by (auto simp: line_read_def)
      from mode_chunk(2) [OF s(1)] have ne: "s \<noteq> STATE_IS_ERROR" "hasChunkSize s" by simp_all
      show ?thesis
      proof (cases "k = 0")
        case True
        then have "chunkSize s = 2" using s(3) by (simp add: word_unat_eq_iff)
        with 1(5) n ne have "r = Some []" "data' = d" "st' = (if t then 4 else 2) OR STATE_HAS_SIZE" by simp_all
        moreover have "running st' \<and> mode_of st' = Last (if t then 4 else 2)"
          using last_word [of 2] last_word [of 4] calculation(3) by (simp add: running_def)
        ultimately show ?thesis using agrees_running [of st' r data' t st used] s(4,5) True by (simp add: line_end_def)
      next
        case False
        then have "chunkSize s \<noteq> 2" using s(3) by (auto simp: word_unat_eq_iff)
        with 1(5) n ne have g: "getNextChunk d s t = (r, data', st')" by simp
        have "\<not> isParsingInvalidChunkedEncoding s" using ne by (simp add: isParsingInvalidChunkedEncoding_def)
        with 1(2) [OF line(1) lm [unfolded last_mode_def] ns d [symmetric] refl] \<open>chunkSize s \<noteq> 2\<close> ne g s(1)
        have "agrees t d s r data' st'" by (simp add: running_def)
        moreover have "decode t (mode_of st) used = (mode_of s, [], [])"
          using s False by (simp add: line_end_def mode_chunk)
        ultimately show ?thesis unfolding s(4) by (rule agrees_prefix [rotated])
      qed
    qed
  next
    case body
    have lm: "\<not> last_mode st" using body by (simp add: last_chunk)
    have hs: "hasChunkSize st" using mode_chunk(2) [OF body(2)] by simp
    have m: "mode_of st = Body (sz st)" using body by (simp add: mode_chunk)
    have nz: "sz st \<noteq> 0" "chunkSize st \<noteq> 0" using body(2) by (auto simp: in_chunk_def)
    note n = next_body [OF body(1) lm hs, of t]
    show ?thesis
    proof (cases "sz st \<le> length data")
      case True
      note w = whole_chunk_decodes [OF True nz(1), of t]
      show ?thesis
      proof (cases "bad_end (sz st) data")
        case bad: True
        with True 1(5) n nz have "r = None" "st' = STATE_IS_ERROR" by (simp_all add: bad_terminator_end)
        with agrees_error [of t st data] w(1) [OF bad] m show ?thesis by simp
      next
        case ok: False
        have u: "decode t (mode_of st) (take (sz st) data) = (mode_of STATE_IS_CHUNKED, map Byte (take (sz st - 2) data), [])"
          using w(2) [OF ok] m chunked_word by simp
        have rc: "running STATE_IS_CHUNKED" using chunked_word by (simp add: running_def)
        show ?thesis
        proof (cases "chunkSize st > 2")
          case big: True
          then have "take (sz st - 2) data \<noteq> []" using body(1) by (simp add: word_less_nat_alt)
          moreover from big True 1(5) n nz ok
          have "r = Some (take (sz st - 2) data)" "data' = drop (sz st) data" "st' = STATE_IS_CHUNKED"
            by (simp_all add: bad_terminator_end)
          ultimately show ?thesis using agrees_running [OF rc, of r data' t st "take (sz st) data"] u
            by (simp add: pieces_bytes)
        next
          case small: False
          then have z: "sz st - 2 = 0" by (simp add: word_less_nat_alt)
          have g: "getNextChunk (drop (sz st) data) STATE_IS_CHUNKED t = (r, data', st')"
            using small True 1(5) n nz ok by (simp add: bad_terminator_end)
          have "\<not> bad_terminator data (chunkSize st)" using ok nz by (simp add: bad_terminator_end)
          from 1(3) [OF body(1) lm [unfolded last_mode_def] _ refl True this refl refl refl small rc g] hs
          have "agrees t (drop (sz st) data) STATE_IS_CHUNKED r data' st'" by simp
          from agrees_prefix [OF _ this, of st "take (sz st) data"] u z show ?thesis by simp
        qed
      qed
    next
      case False
      note p = part_of_chunk_decodes [of data "chunkSize st" t]
      show ?thesis
      proof (cases "partial_emit data (chunkSize st)")
        case None
        with False 1(5) n have "r = None" "st' = STATE_IS_ERROR" by simp_all
        with agrees_error [of t st data] p None False body(1) m show ?thesis by simp
      next
        case (Some e)
        let ?d = "decChunkSize st (of_nat (length data))"
        have l: "unat (of_nat (length data) :: u64) = length data"
          using False take_less [of 59 st] by (simp add: unat_of_nat chunkSize_take)
        have w: "sz ?d = sz st - length data" "\<And>k. k \<ge> 59 \<Longrightarrow> bit ?d k = bit st k"
          using dec_word [of "of_nat (length data)" st] False l by simp_all
        have o: "?d OR STATE_IS_CHUNKED = ?d"
        proof (rule bit_word_eqI)
          fix k
          show "bit (?d OR STATE_IS_CHUNKED) k = bit ?d k"
            unfolding flags bit_or_iff bit_flag using w(2) [of 62] body(3) by auto
        qed
        have i: "in_chunk ?d" "bit ?d 62" using w body(2,3) False by (simp_all add: in_chunk_def)
        have "r = (if e \<noteq> [] then Some e else None)" "data' = []" "st' = ?d"
          using False 1(5) n Some o by simp_all
        moreover have "decode t (mode_of st) data = (mode_of ?d, map Byte e, [])"
          using p Some False body(1) m i w(1) by (simp add: mode_chunk)
        moreover have "pieces (if e \<noteq> [] then Some e else None) = map Byte e" by (simp add: pieces_bytes)
        ultimately show ?thesis using agrees_running [of st' r "[]" t st data] i(1) by (simp add: running_def)
      qed
    qed
  qed
qed


subsection \<open>All the pieces of a segment, and of many\<close>

lemma pieces_Some: "pieces (Some c) = (if c = [] then [End] else map Byte c)"
  by (cases c) auto

lemma chunks_agree:
  "running st \<Longrightarrow> chunks data st t = (cs, left, st') \<Longrightarrow>
    (if st' = STATE_IS_ERROR then fst (decode t (mode_of st) data) = Bad
     else decode t (mode_of st) data = (mode_of st', concat (map (\<lambda>c. pieces (Some c)) cs), left)
       \<and> (st' = 0 \<or> running st' \<and> left = []))"
proof (induction data st t arbitrary: cs rule: chunks.induct)
  case (1 data st t)
  obtain r d s where g: "getNextChunk data st t = (r, d, s)" by (metis prod_cases3)
  have ag: "agrees t data st r d s" by (rule getNextChunk_agrees [OF 1(2) g])
  have not_error: "running u \<Longrightarrow> u \<noteq> STATE_IS_ERROR" for u using mode_line(2) mode_chunk(2) by (auto simp: running_def)
  show ?case
  proof (cases r)
    case None
    with 1(3) g have "cs = []" "left = d" "st' = s" by (auto simp: chunks.simps [of data])
    moreover have "(0::u64) \<noteq> STATE_IS_ERROR" by (simp add: STATE_IS_ERROR_def)
    ultimately show ?thesis using ag None by (auto simp: agrees_def mode_of_def [of 0] dest: not_error)
  next
    case (Some c)
    obtain ds l u where n: "chunks d s t = (ds, l, u)" by (metis prod_cases3)
    with 1(3) g Some have r: "cs = c # ds" "left = l" "st' = u" by (auto simp: chunks.simps [of data])
    from ag Some obtain used where s: "running s" "data = used @ d"
      "decode t (mode_of st) used = (mode_of s, pieces (Some c), [])" by (auto simp: agrees_def)
    have dd: "decode t (mode_of st) data = (let (m, qs, rest) = decode t (mode_of s) d in (m, pieces (Some c) @ qs, rest))"
      unfolding s(2) by (rule decode_before [OF s(3)])
    have "chunks d s t = (ds, left, st')" using n r by simp
    with 1(1) [OF g [symmetric] Some refl s(1)] r dd show ?thesis
      by (auto simp: case_prod_beta Let_def split: if_splits)
  qed
qed



text \<open>A body in several segments, as the parser of requests feeds them.\<close>

fun feed :: "bool \<Rightarrow> u64 \<Rightarrow> u8 list list \<Rightarrow> u8 list list \<times> u8 list \<times> u64" where
  "feed t st [] = ([], [], st)"
| "feed t st (seg # segs) =
    (let (cs, left, st) = chunks seg st t in
     if st = 0 \<or> st = STATE_IS_ERROR then (cs, left @ concat segs, st)
     else let (ds, left, st) = feed t st segs in (cs @ ds, left, st))"

lemma feed_agrees:
  "running st \<Longrightarrow> feed t st segs = (cs, left, st') \<Longrightarrow>
    (if st' = STATE_IS_ERROR then fst (decode t (mode_of st) (concat segs)) = Bad
     else decode t (mode_of st) (concat segs) = (mode_of st', concat (map (\<lambda>c. pieces (Some c)) cs), left)
       \<and> (st' = 0 \<or> running st' \<and> left = []))"
proof (induction segs arbitrary: st cs left st')
  case Nil
  then show ?case using mode_line(2) mode_chunk(2) by (auto simp: running_def)
next
  case (Cons seg segs)
  obtain ds l u where c: "chunks seg st t = (ds, l, u)" by (metis prod_cases3)
  note a = chunks_agree [OF Cons.prems(1) c]
  have d: "decode t (mode_of st) (concat (seg # segs))
    = (let (m, ps, rest) = decode t (mode_of st) seg; (m, qs, rest) = decode t m (rest @ concat segs) in (m, ps @ qs, rest))"
    unfolding concat.simps by (rule decode_append)
  have z: "mode_of 0 = Done" "(0::u64) \<noteq> STATE_IS_ERROR" by (simp_all add: mode_of_def STATE_IS_ERROR_def)
  consider "u = STATE_IS_ERROR" | "u = 0" | "u \<noteq> 0" "u \<noteq> STATE_IS_ERROR" by blast
  then show ?case
  proof cases
    case 1
    with a d Cons.prems(2) c show ?thesis by (auto simp: case_prod_beta Let_def)
  next
    case 2
    with a d Cons.prems(2) c z show ?thesis by (auto simp: case_prod_beta Let_def)
  next
    case 3
    obtain es k v where f: "feed t u segs = (es, k, v)" by (metis prod_cases3)
    from 3 a have u: "running u" "l = []" "decode t (mode_of st) seg = (mode_of u, concat (map (\<lambda>c. pieces (Some c)) ds), [])"
      by auto
    from 3 f c Cons.prems(2) have r: "cs = ds @ es" "left = k" "st' = v" by auto
    from Cons.IH [OF u(1) f] d u(3) r show ?thesis by (auto simp: case_prod_beta Let_def split: if_splits)
  qed
qed

subsection \<open>What a sender writes\<close>

lemma palette_digit:
  assumes "n < 16"
  shows "digit_value (palette ! n) = Some n \<and> \<not> palette ! n \<le> 32 \<and> palette ! n \<noteq> char_semicolon"
proof -
  have "list_all (\<lambda>i. digit_value (palette ! i) = Some i \<and> \<not> palette ! i \<le> 32 \<and> palette ! i \<noteq> char_semicolon) [0..<16]"
    by (simp add: upt_rec palette_def digit_value_def char_semicolon_def)
  with assms show ?thesis by (simp add: list_all_iff)
qed

lemma decode_hex: "decode t (Line 0 seen Digits) (u32toaHex v) = (Line (unat v) True Digits, [], [])"
proof (induction v arbitrary: seen rule: hex_temp.induct)
  case (1 v)
  let ?c = "palette ! unat (v mod 16)"
  have m: "unat (v mod 16) = unat v mod 16" "unat (v div 16) = unat v div 16" by (simp_all add: unat_mod unat_div)
  have c: "digit_value ?c = Some (unat v mod 16)" "\<not> ?c \<le> 32" "?c \<noteq> char_semicolon"
    using palette_digit [of "unat v mod 16"] by (simp_all add: m)
  have small: "unat v div 16 < 2 ^ 54" 
  proof -
    have "unat v < 2 ^ 32" using unsigned_less [of v] by simp
    then show ?thesis using div_le_dividend [of "unat v" 16] by simp
  qed
  have step: "decode t (Line n b Digits) [?c] = (Line (n * 16 + unat v mod 16) True Digits, [], [])" if "n < 2 ^ 54" for n b
    using c that by simp
  show ?case
  proof (cases "v div 16 > 0")
    case True
    have "u32toaHex v = u32toaHex (v div 16) @ [?c]" using True by (simp add: u32toaHex_def hex_temp.simps [of v] Let_def)
    then show ?thesis
      using decode_silent [OF 1 [OF refl refl True, of seen], of "[?c]"] step [OF small, of True] m(2) by simp
  next
    case False
    then have "unat v div 16 = 0" using m(2) by (metis word_gt_0 unat_0)
    moreover have "u32toaHex v = [?c]" using False by (simp add: u32toaHex_def hex_temp.simps [of v] Let_def)
    ultimately show ?thesis using step [of 0 seen] by (simp del: decode.simps)
  qed
qed


lemma decode_write_chunked:
  "decode t (Line 0 False Digits) (write_chunked data) = (Line 0 False Digits, map Byte data, [])"
proof (induction data rule: write_chunked.induct)
  case (1 data)
  consider "data = []" | "data \<noteq> []" "length data > UINT_MAX" | "data \<noteq> []" "length data \<le> UINT_MAX" by linarith
  then show ?case
  proof cases
    case 1
    then show ?thesis by (simp add: write_chunked.simps)
  next
    case 2
    with 1 show ?thesis
      by (simp add: write_chunked.simps [of data] decode_before del: map_append flip: map_append)
  next
    case 3
    let ?v = "of_nat (length data) :: u32" and ?r = "length data + 2"
    have l: "unat ?v = length data" using 3(2) by (simp add: unat_of_nat UINT_MAX_def)
    have w: "write_chunked data = u32toaHex ?v @ crlf @ data @ crlf" using 3 by (simp add: write_chunked.simps [of data])
    have "decode t (Line (length data) True Digits) crlf = (Body ?r, [], [])"
      using 3(1) by (simp add: crlf_def char_CR_def char_LF_def char_semicolon_def after_digits_def line_end_def)
    moreover have "decode t (Body ?r) (data @ crlf) = (Line 0 False Digits, map Byte data, [])"
      using decode_body_append [of data ?r t crlf] by (simp add: crlf_def)
    ultimately show ?thesis
      unfolding w by (simp only: decode_silent [OF decode_hex] l decode_silent)
  qed
qed

lemma decode_writes:
  "decode t (Line 0 False Digits) (concat (map write_chunked ds)) = (Line 0 False Digits, map Byte (concat ds), [])"
  by (induction ds) (simp_all add: decode_before [OF decode_write_chunked])

lemma decode_end: "decode False (Line 0 False Digits) ([48] @ crlf @ crlf @ rest) = (Done, [End], rest)"
proof -
  have "digit_value 48 = Some 0" by (simp add: digit_value_def)
  then show ?thesis
    by (simp add: crlf_def char_CR_def char_LF_def char_semicolon_def after_digits_def line_end_def)
qed

text \<open>
  C28: What a response writes in chunked encoding is what the parser hands on: however the body is cut into writes,
  however the bytes on the wire are cut into segments, and whatever follows them, the pieces put together are the body,
  followed by exactly one end; the parser is then done and has left what follows alone.
\<close>

theorem chunked_roundtrip:
  assumes "concat segs = concat (map write_chunked ds) @ end_chunked d @ rest"
  shows "\<exists>cs. feed False STATE_IS_CHUNKED segs = (cs, rest, 0)
    \<and> concat (map (\<lambda>c. pieces (Some c)) cs) = map Byte (concat ds @ d) @ [End]"
proof -
  obtain cs left st where f: "feed False STATE_IS_CHUNKED segs = (cs, left, st)" by (metis prod_cases3)
  have e: "decode False (Line 0 False Digits) (end_chunked d @ rest) = (Done, map Byte d @ [End], rest)"
    unfolding end_chunked_def append_assoc decode_before [OF decode_write_chunked] decode_end by simp
  have d: "decode False (mode_of STATE_IS_CHUNKED) (concat segs) = (Done, map Byte (concat ds @ d) @ [End], rest)"
    unfolding assms chunked_word(2) decode_before [OF decode_writes] e by simp
  have "running STATE_IS_CHUNKED" using chunked_word by (simp add: running_def)
  from feed_agrees [OF this f] d have "st \<noteq> STATE_IS_ERROR" "mode_of st = Done" "left = rest"
    "concat (map (\<lambda>c. pieces (Some c)) cs) = map Byte (concat ds @ d) @ [End]" "st = 0 \<or> running st"
    by (auto split: if_splits)
  moreover have "running st \<Longrightarrow> mode_of st \<noteq> Done" using mode_line(1) mode_chunk(1) by (auto simp: running_def split: if_splits)
  ultimately show ?thesis using f by auto
qed

theorem chunked_roundtrip_witness:
  "\<exists>cs. feed False STATE_IS_CHUNKED [take 3 (write_chunked [65, 66]), drop 3 (write_chunked [65, 66]) @ end_chunked [67] @ [71]]
      = (cs, [71], 0)
    \<and> concat (map (\<lambda>c. pieces (Some c)) cs) = [Byte 65, Byte 66, Byte 67, End]"
  using chunked_roundtrip [of "[take 3 (write_chunked [65, 66]), drop 3 (write_chunked [65, 66]) @ end_chunked [67] @ [71]]"
      "[[65, 66]]" "[67]" "[71]"] by simp


end
