(* ===== verification/Uws_Async.thy ===== *)
theory Uws_Async imports
  "Us_Socket"
begin

section \<open>Buffered writing (\<open>AsyncSocketData.h\<close>, \<open>LoopData.h\<close>, \<open>AsyncSocket.h\<close>)\<close>

text \<open>
  A socket of the upper layer has a buffer for what the system did not take (\<open>BackPressure\<close>), and the loop
  has two cork buffers that sockets borrow to collect small writes. \<open>uws\<close> is the state of one loop: the
  state of the library below, the buffers of the sockets (their \<open>ext\<close>) and the two cork slots. \<open>sent\<close> is
  not in the code: it collects, for each socket, the bytes the library below has taken, so that what reaches
  the peer can be stated. Lengths are numbers without bound here; the code's \<open>int\<close> lengths are cut at
  \<open>INT_MAX\<close> where it cuts them.
\<close>

subsection \<open>\<open>BackPressure\<close>\<close>

record BackPressure =
  bp_buffer :: "u8 list"
  pendingRemoval :: nat

definition bp_append :: "u8 list \<Rightarrow> BackPressure \<Rightarrow> BackPressure" where
  "bp_append data b = b\<lparr>bp_buffer := bp_buffer b @ data\<rparr>"

definition bp_erase :: "nat \<Rightarrow> BackPressure \<Rightarrow> BackPressure" where
  "bp_erase n b =
    (let b = b\<lparr>pendingRemoval := pendingRemoval b + n\<rparr> in
     if pendingRemoval b > drop_bit 5 (length (bp_buffer b))
     then b\<lparr>bp_buffer := drop (pendingRemoval b) (bp_buffer b), pendingRemoval := 0\<rparr>
     else b)"

definition bp_length :: "BackPressure \<Rightarrow> nat" where
  "bp_length b = length (bp_buffer b) - pendingRemoval b"

definition bp_clear :: "BackPressure \<Rightarrow> BackPressure" where
  "bp_clear b = b\<lparr>pendingRemoval := 0, bp_buffer := []\<rparr>"

definition bp_resize :: "nat \<Rightarrow> BackPressure \<Rightarrow> BackPressure" where
  "bp_resize n b =
    (let size = n + pendingRemoval b in
     b\<lparr>bp_buffer := take size (bp_buffer b) @ replicate (size - length (bp_buffer b)) 0\<rparr>)"

definition bp_data :: "BackPressure \<Rightarrow> u8 list" where
  "bp_data b = drop (pendingRemoval b) (bp_buffer b)"

definition bp_totalLength :: "BackPressure \<Rightarrow> nat" where
  "bp_totalLength b = length (bp_buffer b)"

subsection \<open>The cork slots of the loop\<close>

text \<open>\<open>slot_bytes\<close> are the first \<open>offset\<close> bytes of the slot's buffer.\<close>

record CorkSlot =
  slot_socket :: ptr
  slot_bytes :: "u8 list"
  slot_ssl :: bool

record uws =
  us :: world
  sent :: "addr \<Rightarrow> u8 list"
  async :: "addr \<Rightarrow> BackPressure"
  slot0 :: CorkSlot
  slot1 :: CorkSlot
  lastTouchedSlot1 :: bool

definition CORK_BUFFER_SIZE :: nat where "CORK_BUFFER_SIZE = 16 * 1024"
definition INT_MAX :: nat where "INT_MAX = 2147483647"

text \<open>A slot is named by its index; \<open>INVALID_CORK_SLOT\<close> is None.\<close>

datatype slot = Slot0 | Slot1

definition getCorkSlot :: "slot \<Rightarrow> uws \<Rightarrow> CorkSlot" where
  "getCorkSlot i u = (case i of Slot0 \<Rightarrow> slot0 u | Slot1 \<Rightarrow> slot1 u)"

definition set_slot :: "slot \<Rightarrow> (CorkSlot \<Rightarrow> CorkSlot) \<Rightarrow> uws \<Rightarrow> uws" where
  "set_slot i f u = (case i of Slot0 \<Rightarrow> u\<lparr>slot0 := f (slot0 u)\<rparr> | Slot1 \<Rightarrow> u\<lparr>slot1 := f (slot1 u)\<rparr>)"

definition findCorkSlot :: "addr \<Rightarrow> uws \<Rightarrow> slot option" where
  "findCorkSlot s u = (if slot_socket (slot0 u) = Some s then Some Slot0
     else if slot_socket (slot1 u) = Some s then Some Slot1 else None)"

definition findBorrowableCorkSlot :: "uws \<Rightarrow> slot option" where
  "findBorrowableCorkSlot u =
    (if slot_socket (slot0 u) = None then Some Slot0
     else if slot_socket (slot1 u) = None then Some Slot1
     else if slot_bytes (slot0 u) = [] then Some Slot0
     else if slot_bytes (slot1 u) = [] then Some Slot1
     else None)"

definition touchCorkSlot :: "slot \<Rightarrow> uws \<Rightarrow> uws" where
  "touchCorkSlot i u = u\<lparr>lastTouchedSlot1 := (i = Slot1)\<rparr>"

definition acquireCorkSlot :: "addr \<Rightarrow> bool \<Rightarrow> uws \<Rightarrow> slot option \<times> uws" where
  "acquireCorkSlot s ssl u =
    (case findBorrowableCorkSlot u of
       None \<Rightarrow> (None, u)
     | Some i \<Rightarrow> (Some i, touchCorkSlot i
         (set_slot i (\<lambda>c. c\<lparr>slot_socket := Some s, slot_ssl := ssl, slot_bytes := []\<rparr>) u)))"

definition getLRUCorkSlot :: "uws \<Rightarrow> slot" where
  "getLRUCorkSlot u = (if lastTouchedSlot1 u then Slot0 else Slot1)"

definition releaseCorkSlot :: "slot \<Rightarrow> uws \<Rightarrow> uws" where
  "releaseCorkSlot i = set_slot i (\<lambda>c. c\<lparr>slot_socket := None, slot_bytes := []\<rparr>)"

definition transferCorkSlot :: "slot \<Rightarrow> addr \<Rightarrow> bool \<Rightarrow> uws \<Rightarrow> uws" where
  "transferCorkSlot i s ssl = set_slot i (\<lambda>c. c\<lparr>slot_socket := Some s, slot_ssl := ssl\<rparr>)"

definition canCork :: "uws \<Rightarrow> bool" where
  "canCork u = (findBorrowableCorkSlot u \<noteq> None)"

definition unborrowCorkSlot :: "addr \<Rightarrow> uws \<Rightarrow> uws" where
  "unborrowCorkSlot s u =
    (let u = (if slot_socket (slot0 u) = Some s then releaseCorkSlot Slot0 u else u)
     in if slot_socket (slot1 u) = Some s then releaseCorkSlot Slot1 u else u)"

definition getAnyCorkedSocket :: "uws \<Rightarrow> (addr \<times> bool) option" where
  "getAnyCorkedSocket u =
    (case slot_socket (slot0 u) of
       Some s \<Rightarrow> Some (s, slot_ssl (slot0 u))
     | None \<Rightarrow> map_option (\<lambda>s. (s, slot_ssl (slot1 u))) (slot_socket (slot1 u)))"

subsection \<open>Calls into the library below\<close>

definition upd_async :: "addr \<Rightarrow> (BackPressure \<Rightarrow> BackPressure) \<Rightarrow> uws \<Rightarrow> uws" where
  "upd_async s f u = u\<lparr>async := (async u)(s := f (async u s))\<rparr>"

definition upd_us :: "(world \<Rightarrow> world) \<Rightarrow> uws \<Rightarrow> uws" where
  "upd_us f u = u\<lparr>us := f (us u)\<rparr>"

definition socket_write :: "addr \<Rightarrow> u8 list \<Rightarrow> uws \<Rightarrow> nat \<times> uws" where
  "socket_write s data u =
    (let (n, w) = us_socket_write s data (us u)
     in (nat n, u\<lparr>us := w, sent := (sent u)(s := sent u s @ take (nat n) data)\<rparr>))"

definition is_closed :: "addr \<Rightarrow> uws \<Rightarrow> bool" where
  "is_closed s u = us_socket_is_closed s (us u)"

subsection \<open>Writing\<close>

definition getBufferedAmount :: "addr \<Rightarrow> uws \<Rightarrow> nat" where
  "getBufferedAmount s u = bp_totalLength (async u s)"

text \<open>\<open>flush\<close>: the loop writes \<open>INT_MAX\<close> bytes at a time.\<close>

partial_function (option) flush_loop :: "addr \<Rightarrow> nat \<Rightarrow> uws \<Rightarrow> (nat \<times> uws) option" where
  "flush_loop s total_written u =
    (let buffer_len = bp_length (async u s) in
     if buffer_len = 0 then Some (total_written, u)
     else let max_flush_len = min buffer_len INT_MAX;
              (written, u) = socket_write s (take max_flush_len (bp_data (async u s))) u;
              total_written = total_written + written
     in if written < buffer_len
        then let u = upd_async s (bp_erase written) u in
          if written < max_flush_len then Some (total_written, u) else flush_loop s total_written u
        else flush_loop s total_written (upd_async s bp_clear u))"

definition flush :: "addr \<Rightarrow> uws \<Rightarrow> (nat \<times> uws) option" where
  "flush s u = (if is_closed s u then Some (0, u) else flush_loop s 0 u)"

text \<open>
  \<open>write\<close> and \<open>uncork\<close> call each other: a write that does not fit the cork buffer uncorks, and an uncork
  writes what was corked. \<open>write_body\<close> is \<open>write\<close> over the \<open>uncork\<close> it calls; \<open>uncork_depth\<close> is \<open>uncork\<close>
  to a depth of such calls. Each releases a slot of the socket, and there are two.
\<close>

definition write_rest ::
  "(u8 list \<Rightarrow> bool \<Rightarrow> uws \<Rightarrow> (nat \<times> bool) \<times> uws) \<Rightarrow> addr \<Rightarrow> u8 list \<Rightarrow> bool \<Rightarrow> uws \<Rightarrow> (nat \<times> bool) \<times> uws" where
  "write_rest unc s src optionally u =
    (if src = [] then ((0, False), u)
     else case findCorkSlot s u of
         Some i \<Rightarrow>
           (if CORK_BUFFER_SIZE - length (slot_bytes (getCorkSlot i u)) \<ge> length src
            then ((length src, False), touchCorkSlot i (set_slot i (\<lambda>c. c\<lparr>slot_bytes := slot_bytes c @ src\<rparr>) u))
            else unc src optionally u)
       | None \<Rightarrow>
           (let (written, u) = socket_write s src u in
            if written < length src
            then if optionally then ((written, True), u)
                 else ((length src, True), upd_async s (bp_append (drop written src)) u)
            else ((length src, False), u)))"

definition write_body ::
  "(u8 list \<Rightarrow> bool \<Rightarrow> uws \<Rightarrow> (nat \<times> bool) \<times> uws) \<Rightarrow> addr \<Rightarrow> u8 list \<Rightarrow> bool \<Rightarrow> uws \<Rightarrow> (nat \<times> bool) \<times> uws" where
  "write_body unc s src optionally u =
    (if is_closed s u then ((length src, False), u)
     else let buffer_len = bp_length (async u s) in
     if buffer_len = 0 then write_rest unc s src optionally u
     else let max_flush_len = min buffer_len INT_MAX;
              (written, u) = socket_write s (take max_flush_len (bp_data (async u s))) u
     in if written < buffer_len
        then let u = upd_async s (bp_erase written) u in
          if optionally then ((0, True), u)
          else ((length src, True), upd_async s (bp_append src) u)
        else write_rest unc s src optionally (upd_async s bp_clear u))"

primrec uncork_depth :: "nat \<Rightarrow> addr \<Rightarrow> u8 list \<Rightarrow> bool \<Rightarrow> uws \<Rightarrow> (nat \<times> bool) \<times> uws" where
  "uncork_depth 0 s src optionally u = ((0, False), u)"
| "uncork_depth (Suc n) s src optionally u =
    (case findCorkSlot s u of
       None \<Rightarrow> ((0, False), u)
     | Some i \<Rightarrow>
       (let buffer = slot_bytes (getCorkSlot i u); u = releaseCorkSlot i u in
        if buffer \<noteq> []
        then let ((written, failed), u) = write_body (uncork_depth n s) s buffer False u in
          if failed \<and> optionally then ((0, True), u)
          else if src = [] then ((written, failed), u)
          else write_body (uncork_depth n s) s src optionally u
        else write_body (uncork_depth n s) s src optionally u))"

definition uncork :: "addr \<Rightarrow> u8 list \<Rightarrow> bool \<Rightarrow> uws \<Rightarrow> (nat \<times> bool) \<times> uws" where
  "uncork = uncork_depth 2"

definition async_write :: "addr \<Rightarrow> u8 list \<Rightarrow> bool \<Rightarrow> uws \<Rightarrow> (nat \<times> bool) \<times> uws" where
  "async_write s = write_body (uncork s) s"

definition uncorkWithoutSending :: "addr \<Rightarrow> uws \<Rightarrow> uws" where
  "uncorkWithoutSending = unborrowCorkSlot"

definition isCorked :: "addr \<Rightarrow> uws \<Rightarrow> bool" where
  "isCorked s u = (findCorkSlot s u \<noteq> None)"

text \<open>A full pair of slots is relieved of the one that was written least recently.\<close>

definition cork :: "addr \<Rightarrow> bool \<Rightarrow> uws \<Rightarrow> uws" where
  "cork s ssl u =
    (if findCorkSlot s u \<noteq> None then u
     else case acquireCorkSlot s ssl u of
         (Some _, u) \<Rightarrow> u
       | (None, u) \<Rightarrow>
         (let victim = the (slot_socket (getCorkSlot (getLRUCorkSlot u) u));
              (_, u) = uncork victim [] False u
          in snd (acquireCorkSlot s ssl u)))"

definition async_close :: "handler \<Rightarrow> addr \<Rightarrow> uws \<Rightarrow> ptr \<times> uws" where
  "async_close h s u =
    (let (_, u) = uncork s [] False u; (r, w) = us_socket_close h s 0 None (us u) in (r, u\<lparr>us := w\<rparr>))"

datatype SendBufferAttribute = NEEDS_NOTHING | NEEDS_DRAIN | NEEDS_UNCORK

text \<open>The place \<open>getSendBuffer\<close> hands out: an offset into a cork slot, or into the socket's own buffer.\<close>

datatype place = In_cork slot nat | In_buffer nat

definition getSendBuffer :: "addr \<Rightarrow> bool \<Rightarrow> nat \<Rightarrow> uws \<Rightarrow> (place \<times> SendBufferAttribute) \<times> uws" where
  "getSendBuffer s ssl n u =
    (let existingBackpressure = bp_length (async u s);
         slot = findCorkSlot s u;
         currentOffset = (case slot of None \<Rightarrow> 0 | Some i \<Rightarrow> length (slot_bytes (getCorkSlot i u)))
     in if existingBackpressure = 0 \<and> (slot \<noteq> None \<or> canCork u) \<and> currentOffset + n \<le> CORK_BUFFER_SIZE
     then let (i, u) = (case slot of Some i \<Rightarrow> (i, u) | None \<Rightarrow> (let (i, u) = acquireCorkSlot s ssl u in (the i, u)));
              offset = length (slot_bytes (getCorkSlot i u));
              u = touchCorkSlot i (set_slot i (\<lambda>c. c\<lparr>slot_bytes := slot_bytes c @ replicate n 0\<rparr>) u)
          in ((In_cork i offset, if slot \<noteq> None then NEEDS_NOTHING else NEEDS_UNCORK), u)
     else let ourCork = (case slot of None \<Rightarrow> [] | Some i \<Rightarrow> slot_bytes (getCorkSlot i u));
              u = (case slot of None \<Rightarrow> u | Some i \<Rightarrow> set_slot i (\<lambda>c. c\<lparr>slot_bytes := []\<rparr>) u);
              u = upd_async s (bp_resize (length ourCork + existingBackpressure + n)) u;
              u = upd_async s (\<lambda>b. b\<lparr>bp_buffer := take (pendingRemoval b + existingBackpressure) (bp_buffer b) @ ourCork
                    @ drop (pendingRemoval b + existingBackpressure + length ourCork) (bp_buffer b)\<rparr>) u
          in ((In_buffer (length ourCork + existingBackpressure), NEEDS_DRAIN), u))"

text \<open>Laying bytes down at such a place.\<close>

definition lay :: "nat \<Rightarrow> u8 list \<Rightarrow> u8 list \<Rightarrow> u8 list" where
  "lay i bytes xs = take i xs @ bytes @ drop (i + length bytes) xs"

definition put :: "addr \<Rightarrow> place \<Rightarrow> u8 list \<Rightarrow> uws \<Rightarrow> uws" where
  "put s p bytes u = (case p of
     In_cork i offset \<Rightarrow> set_slot i (\<lambda>c. c\<lparr>slot_bytes := lay offset bytes (slot_bytes c)\<rparr>) u
   | In_buffer offset \<Rightarrow> upd_async s (\<lambda>b. b\<lparr>bp_buffer := lay (pendingRemoval b + offset) bytes (bp_buffer b)\<rparr>) u)"

definition async_timeout :: "addr \<Rightarrow> u32 \<Rightarrow> uws \<Rightarrow> uws" where
  "async_timeout s seconds = upd_us (us_socket_timeout s seconds)"

definition async_shutdown :: "addr \<Rightarrow> uws \<Rightarrow> uws" where
  "async_shutdown s = upd_us (us_socket_shutdown s)"

end
