(* ===== verification/Uws_Stream.thy ===== *)
theory Uws_Stream imports
  "Uws_Async"
  "Us_Client"
begin

section \<open>What a socket was given is what it sends, in order\<close>

subsection \<open>The stream of a socket\<close>

definition corked :: "addr \<Rightarrow> uws \<Rightarrow> u8 list" where
  "corked s u = (case findCorkSlot s u of None \<Rightarrow> [] | Some i \<Rightarrow> slot_bytes (getCorkSlot i u))"

definition pending :: "addr \<Rightarrow> uws \<Rightarrow> u8 list" where
  "pending s u = bp_data (async u s)"

text \<open>What the system has taken, what waits in the socket's buffer, what waits in the cork.\<close>

definition stream :: "addr \<Rightarrow> uws \<Rightarrow> u8 list" where
  "stream s u = sent u s @ pending s u @ corked s u"

definition slots_ok :: "uws \<Rightarrow> bool" where
  "slots_ok u \<longleftrightarrow> (slot_socket (slot0 u) \<noteq> None \<longrightarrow> slot_socket (slot0 u) \<noteq> slot_socket (slot1 u))
     \<and> length (slot_bytes (slot0 u)) \<le> CORK_BUFFER_SIZE \<and> length (slot_bytes (slot1 u)) \<le> CORK_BUFFER_SIZE"

definition async_ok :: "uws \<Rightarrow> bool" where
  "async_ok u \<longleftrightarrow> slots_ok u \<and> (\<forall>s. pendingRemoval (async u s) \<le> length (bp_buffer (async u s)))
     \<and> (\<forall>s. corked s u \<noteq> [] \<longrightarrow> pending s u = [])"

text \<open>\<open>roomy\<close>: less is buffered than one call to the system may be asked to write.\<close>

definition roomy :: "uws \<Rightarrow> bool" where
  "roomy u \<longleftrightarrow> (\<forall>s. length (pending s u) + CORK_BUFFER_SIZE \<le> INT_MAX)"

text \<open>\<open>u'\<close> is \<open>u\<close> after \<open>s\<close> was given \<open>acc\<close>.\<close>

definition gave :: "addr \<Rightarrow> u8 list \<Rightarrow> uws \<Rightarrow> uws \<Rightarrow> bool" where
  "gave s acc u u' \<longleftrightarrow> async_ok u' \<and> stream s u' = stream s u @ acc \<and> (\<forall>t. t \<noteq> s \<longrightarrow> stream t u' = stream t u)
     \<and> (\<forall>t. is_closed t u' = is_closed t u) \<and> (\<forall>t. length (sent u t) \<le> length (sent u' t))
     \<and> (\<forall>t. t \<noteq> s \<longrightarrow> findCorkSlot t u' \<in> {None, findCorkSlot t u})"

lemma gave_trans: "gave s a u v \<Longrightarrow> gave s b v w \<Longrightarrow> gave s (a @ b) u w"
  by (auto simp: gave_def intro: le_trans) metis

lemma gaveD:
  assumes "gave s acc u v"
  shows "async_ok v" "stream t v = stream t u @ (if t = s then acc else [])" "is_closed t v = is_closed t u"
    "length (sent u t) \<le> length (sent v t)" "t \<noteq> s \<Longrightarrow> findCorkSlot t v \<in> {None, findCorkSlot t u}"
  using assms by (auto simp: gave_def)

lemma gaveI:
  assumes "async_ok v" "\<And>t. stream t v = stream t u @ (if t = s then acc else [])" "\<And>t. is_closed t v = is_closed t u"
    "\<And>t. length (sent u t) \<le> length (sent v t)" "\<And>t. t \<noteq> s \<Longrightarrow> findCorkSlot t v \<in> {None, findCorkSlot t u}"
  shows "gave s acc u v"
  using assms by (simp add: gave_def)

lemma gave_pending: "gave s acc u v \<Longrightarrow> length (pending s v) \<le> length (pending s u) + length (corked s u) + length acc"
proof -
  assume g: "gave s acc u v"
  then have "length (stream s v) = length (stream s u @ acc)" by (simp only: gave_def)
  moreover have "length (sent u s) \<le> length (sent v s)" using g by (simp add: gave_def)
  ultimately show ?thesis by (simp add: stream_def)
qed

subsection \<open>The parts\<close>

lemma bp_length_data: "bp_length b = length (bp_data b)"
  by (simp add: bp_length_def bp_data_def)

lemma bp_data_simps [simp]:
  "pendingRemoval b \<le> length (bp_buffer b) \<Longrightarrow> bp_data (bp_append d b) = bp_data b @ d"
  "bp_data (bp_erase n b) = drop n (bp_data b)"
  "bp_data (bp_clear b) = []"
  by (simp_all add: bp_data_def bp_append_def bp_erase_def bp_clear_def Let_def add.commute)

lemma bp_ok_simps [simp]:
  "pendingRemoval b \<le> length (bp_buffer b) \<Longrightarrow> pendingRemoval (bp_append d b) \<le> length (bp_buffer (bp_append d b))"
  "pendingRemoval (bp_clear b) \<le> length (bp_buffer (bp_clear b))"
  by (simp_all add: bp_append_def bp_clear_def)

lemma bp_ok_erase [simp]: "pendingRemoval (bp_erase n b) \<le> length (bp_buffer (bp_erase n b))"
proof (cases "pendingRemoval b + n > drop_bit 5 (length (bp_buffer b))")
  case False
  have "drop_bit 5 (length (bp_buffer b)) \<le> length (bp_buffer b)" by (simp add: drop_bit_nat_def)
  with False show ?thesis by (simp add: bp_erase_def Let_def)
qed (simp add: bp_erase_def Let_def)

lemma upd_async_simps [simp]:
  "sent (upd_async s f u) = sent u" "slot0 (upd_async s f u) = slot0 u" "slot1 (upd_async s f u) = slot1 u"
  "us (upd_async s f u) = us u" "async (upd_async s f u) t = (if t = s then f (async u s) else async u t)"
  "findCorkSlot t (upd_async s f u) = findCorkSlot t u" "getCorkSlot i (upd_async s f u) = getCorkSlot i u"
  "slots_ok (upd_async s f u) = slots_ok u" "corked t (upd_async s f u) = corked t u"
  "is_closed t (upd_async s f u) = is_closed t u"
  "pending t (upd_async s f u) = (if t = s then bp_data (f (async u s)) else pending t u)"
  by (auto simp: upd_async_def findCorkSlot_def getCorkSlot_def slots_ok_def corked_def is_closed_def pending_def
      split: slot.splits option.splits)

lemma write_keeps_closed: "us_socket_is_closed t (snd (us_socket_write s d w)) = us_socket_is_closed t w"
  using quiet_writes(1) [OF quiet_refl [of w], of s d] by (simp add: quiet_def us_socket_is_closed_def)

lemma socket_write_simps:
  assumes "socket_write s d u = (n, u')"
  shows "sent u' t = (if t = s then sent u s @ take n d else sent u t)" "slot0 u' = slot0 u" "slot1 u' = slot1 u"
    "async u' = async u" "findCorkSlot t u' = findCorkSlot t u" "getCorkSlot i u' = getCorkSlot i u"
    "slots_ok u' = slots_ok u" "corked t u' = corked t u" "is_closed t u' = is_closed t u" "pending t u' = pending t u"
    "async_ok u' = async_ok u"
  using assms write_keeps_closed [of t s d "us u"]
  by (auto simp: socket_write_def is_closed_def findCorkSlot_def getCorkSlot_def slots_ok_def corked_def pending_def
      async_ok_def split: prod.splits slot.splits option.splits)

lemma found_slot: "findCorkSlot s u = Some i \<Longrightarrow> slot_socket (getCorkSlot i u) = Some s"
  by (auto simp: findCorkSlot_def getCorkSlot_def split: if_splits)

lemma found_other: "slots_ok u \<Longrightarrow> findCorkSlot s u = Some i \<Longrightarrow> t \<noteq> s \<Longrightarrow> findCorkSlot t u \<noteq> Some i"
  by (auto simp: findCorkSlot_def split: if_splits)

subsection \<open>Writing with the slot released\<close>

lemma async_okD: "async_ok u \<Longrightarrow> slots_ok u" "async_ok u \<Longrightarrow> pendingRemoval (async u s) \<le> length (bp_buffer (async u s))"
  "async_ok u \<Longrightarrow> corked s u \<noteq> [] \<Longrightarrow> pending s u = []"
  by (auto simp: async_ok_def)

lemma gave_written:
  assumes w: "socket_write s d u = (k, v)" and "corked s u = []" "pending s u = []" "async_ok u"
  shows "gave s (take k d) u v" "gave s d u (upd_async s (bp_append (drop k d)) v)"
proof -
  note sw = socket_write_simps [OF w]
  have p: "pendingRemoval (async v s) \<le> length (bp_buffer (async v s))" using async_okD(2) [OF assms(4)] by (simp add: sw)
  have e: "bp_data (async u s) = []" using assms(3) by (simp add: pending_def)
  show "gave s (take k d) u v" using assms(2-4) by (simp add: gave_def stream_def sw)
  have "async_ok (upd_async s (bp_append (drop k d)) v)" using assms(2,4) p by (auto simp: async_ok_def sw)
  then show "gave s d u (upd_async s (bp_append (drop k d)) v)"
    using assms(2-4) p by (simp add: gave_def stream_def sw e)
qed

lemma write_rest_free:
  assumes "write_rest unc s d opt u = ((n, failed), u')" "findCorkSlot s u = None" "async_ok u" "pending s u = []"
  shows "gave s (take n d) u u' \<and> (\<not> opt \<longrightarrow> n = length d) \<and> findCorkSlot t u' = findCorkSlot t u"
proof (cases "d = []")
  case True
  then show ?thesis using assms by (simp add: write_rest_def gave_def)
next
  case False
  have c: "corked s u = []" using assms(2) by (simp add: corked_def)
  obtain k v where w: "socket_write s d u = (k, v)" by fastforce
  note sw = socket_write_simps [OF w] and g = gave_written [OF w c assms(4,3)]
  have "write_rest unc s d opt u = (if k < length d then if opt then ((k, True), v)
      else ((length d, True), upd_async s (bp_append (drop k d)) v) else ((length d, False), v))"
    using False by (simp add: write_rest_def assms(2) w)
  then show ?thesis using assms(1) g sw(5) by (auto split: if_splits)
qed

text \<open>What was buffered goes first; while some of it stays, new bytes queue behind it.\<close>

lemma gave_flushed:
  assumes w: "socket_write s (take (min (bp_length (async u s)) INT_MAX) (bp_data (async u s))) u = (k, v)"
    and "corked s u = []" "async_ok u" "length (pending s u) \<le> INT_MAX"
  shows "gave s d u (upd_async s (bp_append d) (upd_async s (bp_erase k) v))" "gave s [] u (upd_async s (bp_erase k) v)"
    "\<not> k < bp_length (async u s) \<Longrightarrow> gave s [] u (upd_async s bp_clear v)"
proof -
  note sw = socket_write_simps [OF w]
  have l: "bp_length (async u s) \<le> INT_MAX" using assms(4) by (simp add: pending_def bp_length_data)
  have ok: "slots_ok u" "\<And>t. pendingRemoval (async u t) \<le> length (bp_buffer (async u t))"
    "\<And>t. corked t u \<noteq> [] \<Longrightarrow> pending t u = []" using assms(3) by (auto simp: async_ok_def)
  have t: "take (min (bp_length (async u s)) INT_MAX) (bp_data (async u s)) = pending s u"
    using l by (simp add: bp_length_data pending_def)
  have "async_ok (upd_async s (bp_append d) (upd_async s (bp_erase k) v))" "async_ok (upd_async s (bp_erase k) v)"
    "async_ok (upd_async s bp_clear v)"
    using ok assms(2) by (auto simp: async_ok_def sw)
  moreover have "bp_data (async u s) = pending s u" by (simp add: pending_def)
  moreover have "min (length (pending s u)) INT_MAX = length (pending s u)" using l by (simp add: bp_length_data pending_def)
  ultimately show "gave s d u (upd_async s (bp_append d) (upd_async s (bp_erase k) v))" "gave s [] u (upd_async s (bp_erase k) v)"
    "\<not> k < bp_length (async u s) \<Longrightarrow> gave s [] u (upd_async s bp_clear v)"
    using assms(2) by (simp_all add: gave_def stream_def sw t bp_length_data)
qed

lemma write_body_free:
  assumes r: "write_body unc s d opt u = ((n, failed), u')" and f: "findCorkSlot s u = None"
    and ok: "async_ok u" "length (pending s u) \<le> INT_MAX" "\<not> is_closed s u"
  shows "gave s (take n d) u u' \<and> (\<not> opt \<longrightarrow> n = length d) \<and> findCorkSlot t u' = findCorkSlot t u"
proof (cases "bp_length (async u s) = 0")
  case True
  then have "pending s u = []" by (simp add: pending_def bp_length_data)
  then show ?thesis using write_rest_free [of unc s d opt u n failed u' t] r f ok True by (simp add: write_body_def)
next
  case False
  have c: "corked s u = []" using f by (simp add: corked_def)
  obtain k v where w: "socket_write s (take (min (bp_length (async u s)) INT_MAX) (bp_data (async u s))) u = (k, v)" by fastforce
  note sw = socket_write_simps [OF w] and g = gave_flushed [OF w c ok(1,2)]
  have e: "write_body unc s d opt u =
      (if k < bp_length (async u s) then let u = upd_async s (bp_erase k) v in
          if opt then ((0, True), u) else ((length d, True), upd_async s (bp_append d) u)
       else write_rest unc s d opt (upd_async s bp_clear v))"
    using False ok(3) by (simp add: write_body_def w)
  show ?thesis
  proof (cases "k < bp_length (async u s)")
    case True
    then show ?thesis using r e g(1) [of d] g(2) sw(5) by (auto simp: Let_def split: if_splits)
  next
    case k: False
    let ?v = "upd_async s bp_clear v"
    have "gave s [] u ?v" "findCorkSlot s ?v = None" "pending s ?v = []" using g(3) k f by (simp_all add: sw)
    then show ?thesis using write_rest_free [of unc s d opt ?v n failed u' t] r e k sw(5) gave_trans [of s "[]" u ?v]
      by (simp add: gave_def)
  qed
qed


subsection \<open>Uncorking, writing, corking\<close>

lemma set_slot_simps [simp]:
  "sent (set_slot i f u) = sent u" "async (set_slot i f u) = async u" "us (set_slot i f u) = us u"
  "getCorkSlot j (set_slot i f u) = (if i = j then f (getCorkSlot i u) else getCorkSlot j u)"
  "is_closed t (set_slot i f u) = is_closed t u" "pending t (set_slot i f u) = pending t u"
  by (auto simp: set_slot_def getCorkSlot_def is_closed_def pending_def split: slot.splits)

lemma touch_simps [simp]:
  "sent (touchCorkSlot i u) = sent u" "async (touchCorkSlot i u) = async u" "us (touchCorkSlot i u) = us u"
  "getCorkSlot j (touchCorkSlot i u) = getCorkSlot j u" "slots_ok (touchCorkSlot i u) = slots_ok u"
  "findCorkSlot t (touchCorkSlot i u) = findCorkSlot t u" "corked t (touchCorkSlot i u) = corked t u"
  "is_closed t (touchCorkSlot i u) = is_closed t u" "pending t (touchCorkSlot i u) = pending t u"
  "slot0 (touchCorkSlot i u) = slot0 u" "slot1 (touchCorkSlot i u) = slot1 u"
  by (auto simp: touchCorkSlot_def getCorkSlot_def slots_ok_def findCorkSlot_def corked_def is_closed_def pending_def
      split: slot.splits option.splits)

text \<open>Which socket a slot belongs to, and what the slots hold, slot by slot.\<close>

lemma corked_slots:
  "slots_ok u \<Longrightarrow> slot_socket (getCorkSlot i u) = Some s \<Longrightarrow> findCorkSlot s u = Some i"
  by (auto simp: findCorkSlot_def getCorkSlot_def slots_ok_def split: slot.splits)

lemma slots_ok_iff:
  "slots_ok u \<longleftrightarrow> (\<forall>i j s. slot_socket (getCorkSlot i u) = Some s \<and> slot_socket (getCorkSlot j u) = Some s \<longrightarrow> i = j)
     \<and> (\<forall>i. length (slot_bytes (getCorkSlot i u)) \<le> CORK_BUFFER_SIZE)"
  unfolding slots_ok_def getCorkSlot_def
  by (auto split: slot.splits)

lemma find_iff: "slots_ok u \<Longrightarrow> findCorkSlot s u = Some i \<longleftrightarrow> slot_socket (getCorkSlot i u) = Some s"
  using corked_slots found_slot by blast

lemma find_None: "findCorkSlot s u = None \<longleftrightarrow> (\<forall>i. slot_socket (getCorkSlot i u) \<noteq> Some s)"
  by (auto simp: findCorkSlot_def getCorkSlot_def split: if_splits slot.splits)

text \<open>A slot rewritten for the same socket, or given up.\<close>

lemma rewritten:
  assumes "slots_ok u" "findCorkSlot s u = Some i" "\<And>c. slot_socket (f c) = slot_socket c"
    "length (slot_bytes (f (getCorkSlot i u))) \<le> CORK_BUFFER_SIZE"
  shows "slots_ok (set_slot i f u)" "findCorkSlot t (set_slot i f u) = findCorkSlot t u"
    "corked t (set_slot i f u) = (if t = s then slot_bytes (f (getCorkSlot i u)) else corked t u)"
proof -
  show ok: "slots_ok (set_slot i f u)" using assms(1,3,4) unfolding slots_ok_iff by auto
  show f: "findCorkSlot t (set_slot i f u) = findCorkSlot t u" for t
  proof -
    have "findCorkSlot t (set_slot i f u) = Some j \<longleftrightarrow> findCorkSlot t u = Some j" for j
      unfolding find_iff [OF ok] find_iff [OF assms(1)] by (simp add: assms(3))
    then show ?thesis by (metis not_Some_eq)
  qed
  show "corked t (set_slot i f u) = (if t = s then slot_bytes (f (getCorkSlot i u)) else corked t u)"
    using found_other [OF assms(1,2), of t] assms(2) by (auto simp: corked_def f split: option.splits)
qed

lemma released:
  assumes "slots_ok u" "findCorkSlot s u = Some i"
  shows "slots_ok (releaseCorkSlot i u)" "findCorkSlot s (releaseCorkSlot i u) = None"
    "corked t (releaseCorkSlot i u) = (if t = s then [] else corked t u)"
    "t \<noteq> s \<Longrightarrow> findCorkSlot t (releaseCorkSlot i u) = findCorkSlot t u"
proof -
  show ok: "slots_ok (releaseCorkSlot i u)" using assms(1) unfolding slots_ok_iff releaseCorkSlot_def by auto
  show n: "findCorkSlot s (releaseCorkSlot i u) = None"
    using assms unfolding find_None slots_ok_iff find_iff [OF assms(1)] by (auto simp: releaseCorkSlot_def)
  show f: "t \<noteq> s \<Longrightarrow> findCorkSlot t (releaseCorkSlot i u) = findCorkSlot t u" for t
  proof -
    assume t: "t \<noteq> s"
    have "findCorkSlot t (releaseCorkSlot i u) = Some j \<longleftrightarrow> findCorkSlot t u = Some j" for j
      unfolding find_iff [OF ok] find_iff [OF assms(1)] using assms(2) [unfolded find_iff [OF assms(1)]] t
      by (auto simp: releaseCorkSlot_def)
    then show ?thesis by (metis not_Some_eq)
  qed
  show "corked t (releaseCorkSlot i u) = (if t = s then [] else corked t u)"
    using found_other [OF assms, of t] n f [of t] by (auto simp: corked_def releaseCorkSlot_def split: option.splits)
qed


lemma uncork_gave:
  assumes r: "uncork_depth (Suc n) s d opt u = ((k, failed), u')" and f: "findCorkSlot s u = Some i"
    and ok: "async_ok u" "length (pending s u) + CORK_BUFFER_SIZE \<le> INT_MAX" "\<not> is_closed s u"
  shows "gave s (take k d) u u' \<and> (\<not> opt \<and> d \<noteq> [] \<longrightarrow> k = length d)
     \<and> findCorkSlot t u' = (if t = s then None else findCorkSlot t u)"
proof -
  let ?b = "slot_bytes (getCorkSlot i u)" and ?v = "releaseCorkSlot i u"
  note so = async_okD(1) [OF ok(1)] and rel = released [OF async_okD(1) [OF ok(1)] f]
  have c: "corked s u = ?b" using f by (simp add: corked_def)
  have lb: "length ?b \<le> CORK_BUFFER_SIZE" using so unfolding slots_ok_iff by blast
  have v: "async_ok ?v" "sent ?v = sent u" "pending t ?v = pending t u" "is_closed t ?v = is_closed t u" for t
    using ok(1) rel(1,3) by (auto simp: async_ok_def releaseCorkSlot_def) 
  have str: "stream t ?v @ (if t = s then ?b else []) = stream t u" for t
    using rel(3) [of t] c by (simp add: stream_def v)
  have pv: "length (pending s ?v) \<le> INT_MAX" "\<not> is_closed s ?v" using ok(2,3) by (simp_all add: v)
  show ?thesis
  proof (cases "?b = []")
    case True
    have "stream t ?v = stream t u" for t using str [of t] True by (simp split: if_splits)
    then have g: "gave s [] u ?v" using v(1,2,4) rel(4) by (simp add: gave_def)
    have "write_body (uncork_depth n s) s d opt ?v = ((k, failed), u')" using r f True by simp
    from write_body_free [OF this rel(2) v(1) pv, of t] show ?thesis
      using gave_trans [OF g, of "take k d" u'] rel(2) rel(4) [of t] by (cases "t = s") auto
  next
    case False
    obtain k1 f1 w where w: "write_body (uncork_depth n s) s ?b False ?v = ((k1, f1), w)" by (metis (no_types) surj_pair)
    note wb = write_body_free [OF this rel(2) v(1) pv]
    have "k1 = length ?b" "gave s (take k1 ?b) ?v w" using wb [of s] by blast+
    then have w1: "gave s ?b ?v w" by simp
    have w2: "findCorkSlot t w = findCorkSlot t ?v" "findCorkSlot s w = None" using wb [of t] wb [of s] rel(2) by simp_all
    have "stream s w = stream s u" "t \<noteq> s \<Longrightarrow> stream t w = stream t u" for t
      using w1 str [of s] str [of t] by (simp_all add: gave_def)
    moreover have "t \<noteq> s \<Longrightarrow> findCorkSlot t w \<in> {None, findCorkSlot t u}" for t
      using w1 rel(4) [of t] by (auto simp: gave_def)
    ultimately have g: "gave s [] u w" using w1 v(2,4) unfolding gave_def by simp
    have cw: "async_ok w" "\<not> is_closed s w" using g ok(3) by (auto simp: gave_def)
    have "length (pending s w) \<le> length (pending s ?v) + length (corked s ?v) + length ?b" by (rule gave_pending [OF w1])
    then have pw: "length (pending s w) \<le> INT_MAX" using ok(2) lb rel(3) [of s] v(3) by simp
    have e: "uncork_depth (Suc n) s d opt u = (if f1 \<and> opt then ((0, True), w) else if d = [] then ((k1, f1), w)
        else write_body (uncork_depth n s) s d opt w)"
      using f False w by simp
    show ?thesis
    proof (cases "f1 \<and> opt \<or> d = []")
      case True
      then show ?thesis using r e g w2 rel(2) rel(4) [of t] by (cases "t = s") (auto split: if_splits)
    next
      case go: False
      then have "write_body (uncork_depth n s) s d opt w = ((k, failed), u')" using r e by auto
      from write_body_free [OF this w2(2) cw(1) pw cw(2), of t] show ?thesis
        using gave_trans [OF g, of "take k d" u'] w2 rel(2) rel(4) [of t] by (cases "t = s") auto
    qed
  qed
qed

lemma write_gave:
  assumes r: "write_body (uncork_depth (Suc n) s) s d opt u = ((k, failed), u')"
    and ok: "async_ok u" "length (pending s u) + CORK_BUFFER_SIZE \<le> INT_MAX" "\<not> is_closed s u"
  shows "gave s (take k d) u u' \<and> (\<not> opt \<longrightarrow> k = length d)"
proof (cases "findCorkSlot s u")
  case None
  then show ?thesis using write_body_free [OF r None ok(1) _ ok(3)] ok(2) by simp
next
  case (Some i)
  have rest: "gave s (take k d) v u' \<and> (\<not> opt \<longrightarrow> k = length d)"
    if v: "write_rest (uncork_depth (Suc n) s) s d opt v = ((k, failed), u')" "async_ok v" "pending s v = []"
      "\<not> is_closed s v" "findCorkSlot s v = Some i" for v
  proof (cases "d = []")
    case True
    then show ?thesis using v by (auto simp: write_rest_def gave_def)
  next
    case d: False
    let ?b = "slot_bytes (getCorkSlot i v)"
    show ?thesis
    proof (cases "CORK_BUFFER_SIZE - length ?b \<ge> length d")
      case True
      have "length ?b \<le> CORK_BUFFER_SIZE" using async_okD(1) [OF v(2)] unfolding slots_ok_iff by blast
      then have l: "length (?b @ d) \<le> CORK_BUFFER_SIZE" using True by simp
      let ?f = "\<lambda>c. c\<lparr>slot_bytes := slot_bytes c @ d\<rparr>"
      note rw = rewritten [OF async_okD(1) [OF v(2)] v(5), of ?f]
      have u': "u' = touchCorkSlot i (set_slot i ?f v)" "k = length d"
        using v(1) d True by (auto simp: write_rest_def v(5))
      have "async_ok u'" using v(2,3) l rw by (auto simp: async_ok_def u')
      moreover have "corked s v = ?b" using v(5) by (simp add: corked_def)
      ultimately show ?thesis using l rw by (auto simp: gave_def stream_def u')
    next
      case False
      then have "uncork_depth (Suc n) s d opt v = ((k, failed), u')" using v(1) d by (simp add: write_rest_def v(5))
      from uncork_gave [OF this v(5,2) _ v(4)] show ?thesis using ok(2) d by (auto simp: v(3))
    qed
  qed
  show ?thesis
  proof (cases "bp_length (async u s) = 0")
    case True
    then have "pending s u = []" by (simp add: pending_def bp_length_data)
    then show ?thesis using rest [of u] r ok True Some by (simp add: write_body_def)
  next
    case False
    then have "pending s u \<noteq> []" by (simp add: pending_def bp_length_data)
    then have c: "corked s u = []" using async_okD(3) [OF ok(1)] by blast
    obtain j v where w: "socket_write s (take (min (bp_length (async u s)) INT_MAX) (bp_data (async u s))) u = (j, v)" by fastforce
    have l: "length (pending s u) \<le> INT_MAX" using ok(2) by simp
    note sw = socket_write_simps [OF w] and g = gave_flushed [OF w c ok(1) l]
    have e: "write_body (uncork_depth (Suc n) s) s d opt u =
        (if j < bp_length (async u s) then let u = upd_async s (bp_erase j) v in
            if opt then ((0, True), u) else ((length d, True), upd_async s (bp_append d) u)
         else write_rest (uncork_depth (Suc n) s) s d opt (upd_async s bp_clear v))"
      using False ok(3) by (simp add: write_body_def w del: uncork_depth.simps)
    show ?thesis
    proof (cases "j < bp_length (async u s)")
      case True
      then show ?thesis using r e g(1) [of d] g(2) by (auto simp: Let_def split: if_splits)
    next
      case k: False
      let ?v = "upd_async s bp_clear v"
      have "gave s [] u ?v" "findCorkSlot s ?v = Some i" "pending s ?v = []" using g(3) k Some by (simp_all add: sw)
      moreover from this have "async_ok ?v" "\<not> is_closed s ?v" using ok(3) by (auto simp: gave_def)
      moreover have "write_rest (uncork_depth (Suc n) s) s d opt ?v = ((k, failed), u')" using r e \<open>\<not> j < _\<close> by simp
      ultimately show ?thesis using rest [of ?v] gave_trans [of s "[]" u ?v] by auto
    qed
  qed
qed


lemma gave_nothing: "async_ok u \<Longrightarrow> gave s [] u u"
  by (simp add: gave_def)

lemma uncork_stream:
  assumes r: "uncork s d opt u = ((k, failed), u')"
    and ok: "async_ok u" "length (pending s u) + CORK_BUFFER_SIZE \<le> INT_MAX" "\<not> is_closed s u"
  shows "gave s (take k d) u u' \<and> findCorkSlot s u' = None"
proof (cases "findCorkSlot s u")
  case None
  then show ?thesis using r ok(1) by (simp add: uncork_def numeral_2_eq_2 gave_nothing)
next
  case (Some i)
  from uncork_gave [OF r [unfolded uncork_def numeral_2_eq_2] Some ok, of s] show ?thesis by simp
qed

lemma write_stream:
  assumes r: "async_write s d opt u = ((k, failed), u')"
    and ok: "async_ok u" "length (pending s u) + CORK_BUFFER_SIZE \<le> INT_MAX" "\<not> is_closed s u"
  shows "gave s (take k d) u u' \<and> (\<not> opt \<longrightarrow> k = length d)"
  by (rule write_gave [OF r [unfolded async_write_def uncork_def numeral_2_eq_2] ok])

text \<open>A borrowed slot holds nothing of anyone.\<close>

lemma acquired:
  assumes ok: "async_ok u" and n: "findCorkSlot s u = None" and b: "findBorrowableCorkSlot u = Some i"
    and a: "acquireCorkSlot s ssl u = (r, u')"
  shows "r = Some i \<and> gave s [] u u' \<and> findCorkSlot s u' = Some i \<and> slot_bytes (getCorkSlot i u') = []
     \<and> async u' = async u"
proof -
  let ?f = "\<lambda>c. c\<lparr>slot_socket := Some s, slot_ssl := ssl, slot_bytes := []\<rparr>"
  have r: "r = Some i" "u' = touchCorkSlot i (set_slot i ?f u)" using a b by (auto simp: acquireCorkSlot_def)
  note so = async_okD(1) [OF ok]
  have e: "slot_socket (getCorkSlot i u) = Some t \<Longrightarrow> slot_bytes (getCorkSlot i u) = []" for t
    using b by (auto simp: findBorrowableCorkSlot_def getCorkSlot_def split: if_splits)
  have so': "slots_ok u'" unfolding slots_ok_iff r using so [unfolded slots_ok_iff] n [unfolded find_None] by (simp split: if_splits)
  have f: "findCorkSlot s u' = Some i" unfolding find_iff [OF so'] by (simp add: r)
  have g: "findCorkSlot t u' = Some j \<longleftrightarrow> findCorkSlot t u = Some j \<and> j \<noteq> i" if "t \<noteq> s" for t j
    unfolding find_iff [OF so'] find_iff [OF so] using that by (simp add: r)
  have fo: "findCorkSlot t u' \<in> {None, findCorkSlot t u}" if "t \<noteq> s" for t
  proof (cases "findCorkSlot t u'")
    case (Some j)
    then show ?thesis using g [OF that, of j] by simp
  qed simp
  have c: "corked t u' = corked t u" for t
  proof (cases "t = s")
    case True
    then show ?thesis using f n by (simp add: corked_def r)
  next
    case False
    show ?thesis
    proof (cases "findCorkSlot t u = Some i")
      case True
      then have "slot_bytes (getCorkSlot i u) = []" using e found_slot by metis
      moreover have "findCorkSlot t u' = None" using fo [OF False] g [OF False, of i] True by auto
      ultimately show ?thesis using True by (simp add: corked_def)
    next
      case o: False
      then have "findCorkSlot t u' = findCorkSlot t u"
        using fo [OF False] g [OF False] by (cases "findCorkSlot t u") auto
      then show ?thesis using o by (auto simp: corked_def r split: option.split)
    qed
  qed
  have "async_ok u'" using ok so' c by (simp add: async_ok_def r)
  then have "gave s [] u u'" using fo c by (simp add: gave_def stream_def r)
  then show ?thesis using r f by simp
qed

text \<open>Only open sockets have a slot: closing gives it back.\<close>

definition open_corks :: "uws \<Rightarrow> bool" where
  "open_corks u \<longleftrightarrow> (\<forall>s. findCorkSlot s u \<noteq> None \<longrightarrow> \<not> is_closed s u)"

lemma gave_open: "gave s acc u v \<Longrightarrow> open_corks u \<Longrightarrow> \<not> is_closed s u \<Longrightarrow> open_corks v"
  by (auto simp: open_corks_def gave_def)

lemma cork_stream:
  assumes ok: "async_ok u" "roomy u" "open_corks u" "\<not> is_closed s u"
  shows "gave s [] u (cork s ssl u) \<and> isCorked s (cork s ssl u)"
proof (cases "findCorkSlot s u")
  case (Some i)
  then show ?thesis using ok(1) by (simp add: cork_def isCorked_def gave_nothing)
next
  case n: None
  obtain r u1 where a: "acquireCorkSlot s ssl u = (r, u1)" by fastforce
  show ?thesis
  proof (cases "findBorrowableCorkSlot u")
    case (Some i)
    from acquired [OF ok(1) n Some a] show ?thesis using n a by (simp add: cork_def isCorked_def)
  next
    case None
    then have u1: "r = None" "u1 = u" using a by (simp_all add: acquireCorkSlot_def)
    let ?i = "getLRUCorkSlot u"
    obtain v where v: "slot_socket (getCorkSlot ?i u) = Some v"
      using None by (cases ?i) (auto simp: findBorrowableCorkSlot_def getCorkSlot_def split: if_splits)
    then have fv: "findCorkSlot v u = Some ?i" using find_iff [OF async_okD(1) [OF ok(1)]] by blast
    then have nv: "v \<noteq> s" "\<not> is_closed v u" using n ok(3) by (auto simp: open_corks_def)
    obtain k f w where w: "uncork v [] False u = ((k, f), w)" by (metis (no_types) surj_pair)
    have pv: "length (pending v u) + CORK_BUFFER_SIZE \<le> INT_MAX" using ok(2) by (simp add: roomy_def)
    have g: "gave v [] u w" "findCorkSlot v w = None" using uncork_stream [OF w ok(1) pv nv(2)] by simp_all
    have fs: "findCorkSlot s w = None" using gaveD(5) [OF g(1), of s] nv(1) n by auto
    have okw: "async_ok w" by (rule gaveD(1) [OF g(1)])
    have "slot_socket (getCorkSlot ?i w) = None"
    proof (rule ccontr)
      assume "slot_socket (getCorkSlot ?i w) \<noteq> None"
      then obtain t where t: "findCorkSlot t w = Some ?i" using find_iff [OF async_okD(1) [OF okw]] by auto
      then have "t \<noteq> v" using g(2) by auto
      then have "findCorkSlot t u = Some ?i" using gaveD(5) [OF g(1), of t] t by auto
      then show False using found_other [OF async_okD(1) [OF ok(1)] fv \<open>t \<noteq> v\<close>] by simp
    qed
    then obtain j where b: "findBorrowableCorkSlot w = Some j"
      by (cases "findBorrowableCorkSlot w"; cases ?i) (auto simp: findBorrowableCorkSlot_def getCorkSlot_def split: if_splits)
    obtain r' w' where a': "acquireCorkSlot s ssl w = (r', w')" by fastforce
    have c: "cork s ssl u = w'" using n a u1 v w a' by (simp add: cork_def)
    from acquired [OF okw fs b a'] have w': "gave s [] w w'" "findCorkSlot s w' = Some j" by simp_all
    have "gave s [] u w'"
    proof -
      have "t \<noteq> s \<Longrightarrow> findCorkSlot t w' \<in> {None, findCorkSlot t u}" for t
        using gaveD(5) [OF w'(1), of t] gaveD(5) [OF g(1), of t] g(2) by (cases "t = v") auto
      then show ?thesis using gaveD [OF g(1)] gaveD [OF w'(1)] le_trans [OF gaveD(4) [OF g(1)] gaveD(4) [OF w'(1)]]
        by (intro gaveI) auto
    qed
    then show ?thesis using w'(2) by (simp add: c isCorked_def)
  qed
qed


subsection \<open>Assembling in place, flushing\<close>

lemma lay_at: "lay (length xs) bytes (xs @ replicate (length bytes) z) = xs @ bytes"
  by (simp add: lay_def)

lemma bp_room:
  assumes "pendingRemoval b \<le> length (bp_buffer b)" "length c + length bytes = n" "b1 = bp_resize (length (bp_data b) + n) b"
    "b2 = b1\<lparr>bp_buffer := take (pendingRemoval b1 + length (bp_data b)) (bp_buffer b1) @ c
        @ drop (pendingRemoval b1 + length (bp_data b) + length c) (bp_buffer b1)\<rparr>"
    "b3 = b2\<lparr>bp_buffer := lay (pendingRemoval b2 + (length c + length (bp_data b))) bytes (bp_buffer b2)\<rparr>"
  shows "bp_data b3 = bp_data b @ c @ bytes" "pendingRemoval b3 \<le> length (bp_buffer b3)"
proof -
  have l: "length (bp_buffer b) = pendingRemoval b + length (bp_data b)" using assms(1) by (simp add: bp_data_def)
  have b1: "bp_buffer b1 = bp_buffer b @ replicate n 0" "pendingRemoval b1 = pendingRemoval b"
    unfolding assms(3) bp_resize_def Let_def using l by (simp_all)
  have b2: "bp_buffer b2 = bp_buffer b @ c @ replicate (length bytes) 0" "pendingRemoval b2 = pendingRemoval b"
    unfolding assms(4) using l assms(2) by (simp_all add: b1 drop_replicate)
  have q: "pendingRemoval b2 + (length c + length (bp_data b)) = length (bp_buffer b @ c)"
    "bp_buffer b2 = (bp_buffer b @ c) @ replicate (length bytes) 0" using l b2 by simp_all
  have "bp_buffer b3 = (bp_buffer b @ c) @ bytes" "pendingRemoval b3 = pendingRemoval b"
    unfolding assms(5) q by (simp_all add: lay_at b2(2) del: append_assoc length_append)
  then show "bp_data b3 = bp_data b @ c @ bytes" "pendingRemoval b3 \<le> length (bp_buffer b3)"
    using assms(1) by (simp_all add: bp_data_def)
qed

lemma in_cork:
  assumes ok: "async_ok u" and f: "findCorkSlot s u = Some i" and p: "pending s u = []"
    and l: "length (slot_bytes (getCorkSlot i u)) + length bytes \<le> CORK_BUFFER_SIZE"
  shows "gave s bytes u (put s (In_cork i (length (slot_bytes (getCorkSlot i u)))) bytes
     (touchCorkSlot i (set_slot i (\<lambda>c. c\<lparr>slot_bytes := slot_bytes c @ replicate (length bytes) 0\<rparr>) u)))"
proof -
  let ?o = "length (slot_bytes (getCorkSlot i u))"
  let ?f = "\<lambda>c. c\<lparr>slot_bytes := slot_bytes c @ replicate (length bytes) 0\<rparr>"
  let ?g = "\<lambda>c. c\<lparr>slot_bytes := lay ?o bytes (slot_bytes c)\<rparr>"
  let ?v = "touchCorkSlot i (set_slot i ?f u)"
  note rw = rewritten [OF async_okD(1) [OF ok] f, of ?f]
  have v: "slots_ok ?v" "findCorkSlot s ?v = Some i" "slot_bytes (?g (getCorkSlot i ?v)) = slot_bytes (getCorkSlot i u) @ bytes"
    using rw f l by (simp_all add: lay_def)
  have c: "corked s u = slot_bytes (getCorkSlot i u)" using f by (simp add: corked_def)
  note rw2 = rewritten [OF v(1,2), of ?g]
  have l2: "length (slot_bytes (?g (getCorkSlot i ?v))) \<le> CORK_BUFFER_SIZE" unfolding v(3) using l by simp
  have co: "corked t (set_slot i ?g ?v) = corked t u @ (if t = s then bytes else [])" for t
    using rw2(3) [OF _ l2] rw(3) l c v(3) by simp
  have so: "slots_ok (set_slot i ?g ?v)" using rw2(1) [OF _ l2] by simp
  have fi: "findCorkSlot t (set_slot i ?g ?v) = findCorkSlot t u" for t using rw2(2) [OF _ l2] rw(2) l by simp
  have "async_ok (set_slot i ?g ?v)" using ok co so p by (simp add: async_ok_def)
  then show ?thesis using co fi p by (intro gaveI) (auto simp: put_def stream_def)
qed

lemma upd_twice: "upd_async s f (upd_async s g u) = upd_async s (\<lambda>b. f (g b)) u"
  by (simp add: upd_async_def)

lemma upd_const: "upd_async s f u = upd_async s (\<lambda>_. f (async u s)) u"
  by (simp add: upd_async_def)

lemma send_buffer_stream:
  assumes r: "getSendBuffer s ssl (length bytes) u = ((p, attr), v)" and ok: "async_ok u"
  shows "gave s bytes u (put s p bytes v)"
proof (cases "bp_length (async u s) = 0 \<and> (findCorkSlot s u \<noteq> None \<or> canCork u)
    \<and> (case findCorkSlot s u of None \<Rightarrow> 0 | Some i \<Rightarrow> length (slot_bytes (getCorkSlot i u))) + length bytes \<le> CORK_BUFFER_SIZE")
  case True
  then have p0: "pending s u = []" by (simp add: pending_def bp_length_data)
  show ?thesis
  proof (cases "findCorkSlot s u")
    case (Some i)
    then have "p = In_cork i (length (slot_bytes (getCorkSlot i u)))"
      "v = touchCorkSlot i (set_slot i (\<lambda>c. c\<lparr>slot_bytes := slot_bytes c @ replicate (length bytes) 0\<rparr>) u)"
      using r True by (simp_all add: getSendBuffer_def Let_def)
    then show ?thesis using in_cork [OF ok Some p0] True Some by simp
  next
    case None
    with True obtain i where b: "findBorrowableCorkSlot u = Some i" by (auto simp: canCork_def)
    obtain j u1 where a: "acquireCorkSlot s ssl u = (j, u1)" by fastforce
    from acquired [OF ok None b a] have u1: "j = Some i" "gave s [] u u1" "findCorkSlot s u1 = Some i"
      "slot_bytes (getCorkSlot i u1) = []" "async u1 = async u" by simp_all
    then have "p = In_cork i (length (slot_bytes (getCorkSlot i u1)))"
      "v = touchCorkSlot i (set_slot i (\<lambda>c. c\<lparr>slot_bytes := slot_bytes c @ replicate (length bytes) 0\<rparr>) u1)"
      using r True None a by (simp_all add: getSendBuffer_def Let_def)
    moreover have "pending s u1 = []" using p0 u1(5) by (simp add: pending_def)
    ultimately have "gave s bytes u1 (put s p bytes v)"
      using in_cork [OF gaveD(1) [OF u1(2)] u1(3)] True None u1(4) by simp
    then show ?thesis using gave_trans [OF u1(2)] by simp
  qed
next
  case False
  let ?c = "case findCorkSlot s u of None \<Rightarrow> [] | Some i \<Rightarrow> slot_bytes (getCorkSlot i u)"
  define u1 where "u1 = (case findCorkSlot s u of None \<Rightarrow> u | Some i \<Rightarrow> set_slot i (\<lambda>c. c\<lparr>slot_bytes := []\<rparr>) u)"
  note so = async_okD(1) [OF ok]
  have c: "?c = corked s u" by (simp add: corked_def)
  have u1: "slots_ok u1" "findCorkSlot t u1 = findCorkSlot t u" "corked t u1 = (if t = s then [] else corked t u)"
    "sent u1 = sent u" "async u1 = async u" "is_closed t u1 = is_closed t u" "pending t u1 = pending t u" for t
    using so rewritten [OF so, of s _ "\<lambda>c. c\<lparr>slot_bytes := []\<rparr>"]
    by (cases "findCorkSlot s u"; simp add: u1_def corked_def)+
  let ?b = "async u s"
  define b1 where "b1 = bp_resize (length (bp_data ?b) + length (corked s u @ bytes)) ?b"
  define b2 where "b2 = b1\<lparr>bp_buffer := take (pendingRemoval b1 + length (bp_data ?b)) (bp_buffer b1) @ corked s u
        @ drop (pendingRemoval b1 + length (bp_data ?b) + length (corked s u)) (bp_buffer b1)\<rparr>"
  define b3 where "b3 = b2\<lparr>bp_buffer := lay (pendingRemoval b2 + (length (corked s u) + length (bp_data ?b))) bytes (bp_buffer b2)\<rparr>"
  have b3: "bp_data b3 = pending s u @ corked s u @ bytes" "pendingRemoval b3 \<le> length (bp_buffer b3)"
    using bp_room [OF async_okD(2) [OF ok] _ _ b2_def b3_def] b1_def by (simp_all add: pending_def)
  have gs: "getSendBuffer s ssl (length bytes) u = ((In_buffer (length (corked s u) + bp_length ?b), NEEDS_DRAIN),
     upd_async s (\<lambda>b. b\<lparr>bp_buffer := take (pendingRemoval b + bp_length ?b) (bp_buffer b) @ corked s u
                    @ drop (pendingRemoval b + bp_length ?b + length (corked s u)) (bp_buffer b)\<rparr>)
       (upd_async s (bp_resize (length (corked s u) + bp_length ?b + length bytes)) u1))"
    unfolding getSendBuffer_def Let_def if_not_P [OF False] c u1_def [symmetric] by (rule refl)
  have b1': "b1 = bp_resize (length (corked s u) + length (bp_data ?b) + length bytes) ?b"
    by (simp add: b1_def add.commute add.left_commute)
  have pv: "p = fst (fst (getSendBuffer s ssl (length bytes) u))" "v = snd (getSendBuffer s ssl (length bytes) u)"
    using r by simp_all
  have v: "put s p bytes v = upd_async s (\<lambda>_. b3) u1"
    unfolding pv gs fst_conv snd_conv put_def place.case upd_twice
    by (subst upd_const) (simp only: u1(5) b3_def b2_def b1' bp_length_data add.assoc BackPressure.simps)
  have "async_ok (upd_async s (\<lambda>_. b3) u1)" using ok b3(2) by (auto simp: async_ok_def u1)
  then show ?thesis unfolding v by (intro gaveI) (auto simp: stream_def u1 b3(1))
qed

text \<open>The loop of \<open>flush\<close> ends: a round that goes on has taken something off the buffer.\<close>

lemma flush_loop_returns: "\<exists>k v. flush_loop s n u = Some (k, v)"
proof (induction "bp_length (async u s)" arbitrary: n u rule: less_induct)
  case less
  let ?l = "bp_length (async u s)"
  obtain k v where w: "socket_write s (take (min ?l INT_MAX) (bp_data (async u s))) u = (k, v)" by fastforce
  note sw = socket_write_simps [OF w]
  note fl = flush_loop.simps [of s n u, unfolded Let_def w prod.case]
  consider "?l = 0" | "?l \<noteq> 0" "k < ?l" "k < min ?l INT_MAX" | "?l \<noteq> 0" "k < ?l" "\<not> k < min ?l INT_MAX" | "?l \<noteq> 0" "\<not> k < ?l" by blast
  then show ?case
  proof cases
    case 3
    then have "bp_length (async (upd_async s (bp_erase k) v) s) < ?l" by (simp add: bp_length_data sw INT_MAX_def)
    then show ?thesis using less 3 by (simp add: fl)
  next
    case 4
    then have "bp_length (async (upd_async s bp_clear v) s) < ?l" by (simp add: bp_length_data sw)
    then show ?thesis using less 4 by (simp add: fl)
  qed (simp_all add: fl)
qed

lemma flush_stream:
  assumes r: "flush s u = Some (k, v)" and ok: "async_ok u" "length (pending s u) \<le> INT_MAX" "\<not> is_closed s u"
  shows "gave s [] u v"
proof (cases "bp_length (async u s) = 0")
  case True
  then show ?thesis using r ok(1,3) by (simp add: flush_def flush_loop.simps gave_nothing)
next
  case False
  then have "corked s u = []" using async_okD(3) [OF ok(1)] by (auto simp: pending_def bp_length_data)
  obtain j w where w: "socket_write s (take (min (bp_length (async u s)) INT_MAX) (bp_data (async u s))) u = (j, w)" by fastforce
  note g = gave_flushed [OF w \<open>corked s u = []\<close> ok(1,2)]
  have m: "min (bp_length (async u s)) INT_MAX = bp_length (async u s)" using ok(2) by (simp add: pending_def bp_length_data)
  show ?thesis
  proof (cases "j < bp_length (async u s)")
    case True
    then show ?thesis using r ok(3) False g(2) w m by (auto simp: flush_def flush_loop.simps)
  next
    case c: False
    have "flush_loop s n (upd_async s bp_clear w) = Some (n, upd_async s bp_clear w)" for n
      by (simp add: flush_loop.simps bp_length_data)
    then show ?thesis using r ok(3) False g(3) [OF c] w c by (auto simp: flush_def flush_loop.simps [of s 0 u])
  qed
qed

end
