(* ===== verification/Uws_Buffering.thy ===== *)
theory Uws_Buffering imports
  Uws_Stream
  "Us_Ready"
begin

section \<open>Properties of buffered writing\<close>

subsection \<open>Sequences of calls\<close>

text \<open>
  The calls the upper layer makes on its sockets. \<open>Assemble\<close> is a frame laid down in the buffer that
  \<open>getSendBuffer\<close> hands out. The result is what the call reported as accepted.
\<close>

datatype async_call =
    Write "u8 list" bool
  | Uncork "u8 list" bool
  | Cork bool
  | Assemble bool "u8 list"
  | Flush

fun call :: "addr \<Rightarrow> async_call \<Rightarrow> uws \<Rightarrow> u8 list \<times> uws" where
  "call s (Write d opt) u = (let ((k, _), u) = async_write s d opt u in (take k d, u))"
| "call s (Uncork d opt) u = (let ((k, _), u) = uncork s d opt u in (take k d, u))"
| "call s (Cork ssl) u = ([], cork s ssl u)"
| "call s (Assemble ssl bytes) u = (let ((p, _), u) = getSendBuffer s ssl (length bytes) u in (bytes, put s p bytes u))"
| "call s Flush u = ([], case flush s u of None \<Rightarrow> u | Some (_, u) \<Rightarrow> u)"

fun calls :: "(addr \<times> async_call) list \<Rightarrow> uws \<Rightarrow> (addr \<Rightarrow> u8 list) \<times> uws" where
  "calls [] u = (\<lambda>_. [], u)"
| "calls ((s, c) # cs) u =
    (let (acc, u) = call s c u; (more, u) = calls cs u in (\<lambda>t. (if t = s then acc else []) @ more t, u))"

fun offered :: "async_call \<Rightarrow> nat" where
  "offered (Write d opt) = length d"
| "offered (Uncork d opt) = length d"
| "offered (Assemble ssl bytes) = length bytes"
| "offered _ = 0"

text \<open>There is room for \<open>n\<close> more bytes before a buffer outgrows what one call can ask the system to write.\<close>

definition room :: "nat \<Rightarrow> uws \<Rightarrow> bool" where
  "room n u \<longleftrightarrow> (\<forall>s. length (pending s u) + length (corked s u) + n + CORK_BUFFER_SIZE \<le> INT_MAX)"

lemma gave_room:
  assumes "gave s acc u v" "room (length acc + n) u"
  shows "room n v"
  unfolding room_def
proof
  fix t
  have "length (stream t v) = length (stream t u @ (if t = s then acc else []))" using gaveD(2) [OF assms(1)] by simp
  then have "length (pending t v) + length (corked t v) \<le> length (pending t u) + length (corked t u) + length acc"
    using gaveD(4) [OF assms(1), of t] by (simp add: stream_def split: if_splits)
  then show "length (pending t v) + length (corked t v) + n + CORK_BUFFER_SIZE \<le> INT_MAX"
    using spec [OF assms(2) [unfolded room_def], of t] by linarith
qed

lemma call_gave:
  assumes "async_ok u" "open_corks u" "room (offered c) u" "\<not> is_closed s u" "call s c u = (acc, v)"
  shows "gave s acc u v \<and> length acc \<le> offered c"
proof -
  have r: "roomy u" unfolding roomy_def
  proof
    fix t show "length (pending t u) + CORK_BUFFER_SIZE \<le> INT_MAX"
      using spec [OF assms(3) [unfolded room_def], of t] by linarith
  qed
  then have r': "length (pending s u) + CORK_BUFFER_SIZE \<le> INT_MAX" "length (pending s u) \<le> INT_MAX"
    by (auto simp: roomy_def dest: spec [of _ s])
  show ?thesis
  proof (cases c)
    case (Write d opt)
    obtain k f w where w: "async_write s d opt u = ((k, f), w)" by (metis (no_types) surj_pair)
    from write_stream [OF w assms(1) r'(1) assms(4)] show ?thesis using assms(5) w Write by auto
  next
    case (Uncork d opt)
    obtain k f w where w: "uncork s d opt u = ((k, f), w)" by (metis (no_types) surj_pair)
    from uncork_stream [OF w assms(1) r'(1) assms(4)] show ?thesis using assms(5) w Uncork by auto
  next
    case (Cork ssl)
    from cork_stream [OF assms(1) r assms(2,4)] show ?thesis using assms(5) Cork by auto
  next
    case (Assemble ssl bytes)
    obtain p a w where w: "getSendBuffer s ssl (length bytes) u = ((p, a), w)" by (metis (no_types) surj_pair)
    from send_buffer_stream [OF w assms(1)] show ?thesis using assms(5) w Assemble by auto
  next
    case Flush
    obtain k w where w: "flush s u = Some (k, w)"
      using flush_loop_returns [of s 0 u] assms(4) by (auto simp: flush_def)
    from flush_stream [OF w assms(1) r'(2) assms(4)] show ?thesis using assms(5) w Flush by auto
  qed
qed

lemma room_mono: "room n u \<Longrightarrow> m \<le> n \<Longrightarrow> room m u"
  unfolding room_def by (meson add_le_cancel_left add_le_cancel_right le_trans)

text \<open>
  C36: What the sockets of a loop are given is what they send, each in its own order, however writes,
  corks, uncorks, frames assembled in place and flushes are interleaved, whatever the system takes of each
  write, and whichever corked socket has to make room for another: what the system took, followed by what is
  buffered, followed by what is corked, only ever grows by the bytes that the calls on that socket
  accepted, none of them lost, doubled or overtaken. (The sockets are open, and not so much is
  buffered that a single call could not ask the system to write it all.)
\<close>

theorem streams_in_order:
  assumes "async_ok u" "open_corks u" "room (sum_list (map (offered \<circ> snd) cs)) u"
    "\<forall>(s, c) \<in> set cs. \<not> is_closed s u" "calls cs u = (acc, v)"
  shows "async_ok v \<and> (\<forall>t. stream t v = stream t u @ acc t)"
  using assms
proof (induction cs arbitrary: u acc)
  case Nil
  then show ?case by auto
next
  case (Cons x cs)
  obtain s c where x: "x = (s, c)" by fastforce
  obtain a w where w: "call s c u = (a, w)" by fastforce
  obtain more v' where m: "calls cs w = (more, v')" by fastforce
  have e: "acc = (\<lambda>t. (if t = s then a else []) @ more t)" "v = v'" using Cons.prems(5) x w m by simp_all
  have nc: "\<not> is_closed s u" using Cons.prems(4) x by auto
  have r: "room (offered c) u" using room_mono [OF Cons.prems(3)] x by simp
  from call_gave [OF Cons.prems(1,2) r nc w] have g: "gave s a u w" "length a \<le> offered c" by simp_all
  have "async_ok w \<and> open_corks w" using gaveD(1) [OF g(1)] gave_open [OF g(1) Cons.prems(2) nc] by simp
  moreover have "room (sum_list (map (offered \<circ> snd) cs)) w"
    by (rule gave_room [OF g(1)]) (rule room_mono [OF Cons.prems(3)], use g(2) x in \<open>simp add: comp_def\<close>)
  moreover have "\<forall>(s, c) \<in> set cs. \<not> is_closed s w" using Cons.prems(4) gaveD(3) [OF g(1)] by auto
  ultimately have "async_ok v \<and> (\<forall>t. stream t v = stream t w @ more t)" using Cons.IH m e(2) by blast
  then show ?case using gaveD(2) [OF g(1)] e(1) by simp
qed

definition fresh_uws :: "world \<Rightarrow> uws" where
  "fresh_uws w = \<lparr>us = w, sent = \<lambda>_. [], async = \<lambda>_. \<lparr>bp_buffer = [], pendingRemoval = 0\<rparr>,
     slot0 = \<lparr>slot_socket = None, slot_bytes = [], slot_ssl = False\<rparr>,
     slot1 = \<lparr>slot_socket = None, slot_bytes = [], slot_ssl = False\<rparr>, lastTouchedSlot1 = False\<rparr>"

lemma fresh_uws_facts [simp]:
  "corked s (fresh_uws w) = []" "pending s (fresh_uws w) = []" "stream s (fresh_uws w) = []"
  "async_ok (fresh_uws w)" "open_corks (fresh_uws w)" "is_closed s (fresh_uws w) = us_socket_is_closed s w"
  by (simp_all add: fresh_uws_def corked_def pending_def stream_def async_ok_def slots_ok_def open_corks_def is_closed_def
      findCorkSlot_def bp_data_def)

theorem streams_in_order_witness:
  "\<exists>acc v. calls [(7, Cork False), (7, Write [1, 2] False), (7, Assemble False [3]), (7, Uncork [] False)] (fresh_uws (scene [])) = (acc, v)
     \<and> stream 7 v = [] @ acc 7"
proof -
  let ?cs = "[(7, Cork False), (7, Write [1, 2] False), (7, Assemble False [3]), (7, Uncork [] False)]"
  obtain acc v where c: "calls ?cs (fresh_uws (scene [])) = (acc, v)" by fastforce
  from streams_in_order [OF _ _ _ _ c] have "stream 7 v = [] @ acc 7"
    by (simp add: room_def CORK_BUFFER_SIZE_def INT_MAX_def us_socket_is_closed_def scene_facts)
  with c show ?thesis by blast
qed

end
