(* ===== verification/Uws_Frames.thy ===== *)
theory Uws_Frames imports
  "Us_State"
begin

section \<open>WebSocket frames (\<open>WebSocketProtocol.h\<close>)\<close>

text \<open>
  The parser works in place: a segment lies in the loop's receive buffer with some room before and
  after it, the bytes an earlier segment left over (its \<open>spill\<close>) are copied in front of it, and a
  payload is unmasked over its own frame. So a run of the parser is a memory, the cursor \<open>src\<close> into it,
  the \<open>length\<close> that is left, the parser's state between segments, and the object that takes the
  payloads. The template parameter \<open>isServer\<close> is the argument \<open>srv\<close>; the class \<open>Impl\<close> is a record of
  its four functions, given by the code's \<open>WebSocketContext\<close>.
\<close>

subsection \<open>Memory and bytes\<close>

type_synonym memory = "addr \<Rightarrow> u8"

definition load :: "memory \<Rightarrow> addr \<Rightarrow> nat \<Rightarrow> u8 list" where
  "load m a n = map m [a ..< a + n]"

definition memcpy :: "addr \<Rightarrow> u8 list \<Rightarrow> memory \<Rightarrow> memory" where
  "memcpy dst bs m = (\<lambda>a. if dst \<le> a \<and> a < dst + length bs then bs ! (a - dst) else m a)"

text \<open>The bytes of a word as a little endian machine lays them out.\<close>

fun le_word :: "u8 list \<Rightarrow> 'a::len word" where
  "le_word [] = 0"
| "le_word (b # bs) = ucast b + push_bit 8 (le_word bs)"

fun le_bytes :: "nat \<Rightarrow> 'a::len word \<Rightarrow> u8 list" where
  "le_bytes 0 v = []"
| "le_bytes (Suc n) v = ucast v # le_bytes n (drop_bit 8 v)"

definition bit_cast :: "memory \<Rightarrow> addr \<Rightarrow> nat \<Rightarrow> 'a::len word" where
  "bit_cast m a n = le_word (load m a n)"

definition cond_byte_swap :: "nat \<Rightarrow> 'a::len word \<Rightarrow> 'a word" where
  "cond_byte_swap n v = le_word (rev (le_bytes n v))"

subsection \<open>Opcodes, headers, errors\<close>

definition CONTINUATION :: "u8" where "CONTINUATION = 0"
definition TEXT :: "u8" where "TEXT = 1"
definition BINARY :: "u8" where "BINARY = 2"
definition CLOSE :: "u8" where "CLOSE = 8"
definition PING :: "u8" where "PING = 9"
definition PONG :: "u8" where "PONG = 10"

definition SND_COMPRESSED :: "u8" where "SND_COMPRESSED = 64"

definition SHORT_MESSAGE_HEADER :: "bool \<Rightarrow> u32" where "SHORT_MESSAGE_HEADER srv = (if srv then 6 else 2)"
definition MEDIUM_MESSAGE_HEADER :: "bool \<Rightarrow> u32" where "MEDIUM_MESSAGE_HEADER srv = (if srv then 8 else 4)"
definition LONG_MESSAGE_HEADER :: "bool \<Rightarrow> u32" where "LONG_MESSAGE_HEADER srv = (if srv then 14 else 10)"

datatype ws_error = ERR_NONE | ERR_TOO_BIG_MESSAGE | ERR_WEBSOCKET_TIMEOUT | ERR_INVALID_TEXT
  | ERR_TOO_BIG_MESSAGE_INFLATION | ERR_INVALID_CLOSE_PAYLOAD

definition CONSUME_POST_PADDING :: "nat" where "CONSUME_POST_PADDING = 4"
definition CONSUME_PRE_PADDING :: "bool \<Rightarrow> nat" where "CONSUME_PRE_PADDING srv = unat (LONG_MESSAGE_HEADER srv) - 1"

subsection \<open>State\<close>

text \<open>\<open>opStack\<close> is a signed bit field of two bits.\<close>

record ws_state =
  wantsHead :: bool
  spillLength :: "4 word"
  opStack :: "2 word"
  lastFin :: bool
  spill :: "u8 list"
  opCode :: "u8 list"
  remainingBytes :: u32
  mask_bytes :: "u8 list"

definition WebSocketState :: "bool \<Rightarrow> ws_state" where
  "WebSocketState srv = \<lparr>wantsHead = True, spillLength = 0, opStack = - 1, lastFin = True,
     spill = replicate (CONSUME_PRE_PADDING srv) 0, opCode = [0, 0], remainingBytes = 0,
     mask_bytes = replicate (if srv then 4 else 1) 0\<rparr>"

record 'u ws_impl =
  impl_setCompressed :: "'u \<Rightarrow> bool \<times> 'u"
  impl_forceClose :: "ws_error \<Rightarrow> 'u \<Rightarrow> 'u"
  impl_handleFragment :: "u8 list \<Rightarrow> u32 \<Rightarrow> u8 \<Rightarrow> bool \<Rightarrow> 'u \<Rightarrow> bool \<times> 'u"
  impl_refusePayloadLength :: "u64 \<Rightarrow> 'u \<Rightarrow> bool"

subsection \<open>Close payloads and writing frames\<close>

definition parseClosePayload :: "(u8 list \<Rightarrow> bool) \<Rightarrow> u8 list \<Rightarrow> u16 \<times> u8 list" where
  "parseClosePayload isValidUtf8 payload =
    (if length payload \<ge> 2
     then let code = cond_byte_swap 2 (le_word (take 2 payload)); message = drop 2 payload in
       if code < 1000 \<or> code > 4999 \<or> (code > 1011 \<and> code < 4000) \<or> (code \<ge> 1004 \<and> code \<le> 1006)
          \<or> \<not> isValidUtf8 message
       then (1006, []) else (code, message)
     else (1005, []))"

definition formatClosePayload :: "u16 \<Rightarrow> u8 list \<Rightarrow> u8 list" where
  "formatClosePayload code message =
    (if code \<noteq> 0 \<and> code \<noteq> 1005 \<and> code \<noteq> 1006 then le_bytes 2 (cond_byte_swap 2 code) @ message else [])"

definition messageFrameSize :: "u64 \<Rightarrow> u64" where
  "messageFrameSize messageSize =
    (if messageSize < 126 then 2 + messageSize
     else if messageSize \<le> 65535 then 4 + messageSize
     else 10 + messageSize)"

text \<open>
  The bytes \<open>formatMessage\<close> lays down from \<open>dst\<close>. \<open>random\<close> is the number the client's side draws for the
  key; \<open>dst[1]\<close> gets its top bit after the length was written there.
\<close>

fun mask_from :: "nat \<Rightarrow> u8 list \<Rightarrow> u8 list \<Rightarrow> u8 list" where
  "mask_from i key [] = []"
| "mask_from i key (b # bs) = (b XOR key ! (i mod 4)) # mask_from (i + 1) key bs"

definition formatMessage :: "bool \<Rightarrow> u8 list \<Rightarrow> u8 \<Rightarrow> u64 \<Rightarrow> bool \<Rightarrow> bool \<Rightarrow> u32 \<Rightarrow> u8 list" where
  "formatMessage srv message op reportedLength compressed fin random =
    (let (dst1, extended) =
           (if reportedLength < 126 then (ucast reportedLength, [])
            else if reportedLength \<le> 65535 then (126, le_bytes 2 (cond_byte_swap 2 (ucast reportedLength :: u16)))
            else (127, le_bytes 8 (cond_byte_swap 8 reportedLength)));
         dst0 = (if fin then 128 else 0) OR (if compressed \<and> op \<noteq> 0 then SND_COMPRESSED else 0) OR op
     in if srv then [dst0, dst1] @ extended @ message
        else let key = le_bytes 4 random in
          [dst0, dst1 OR 0x80] @ extended @ key @ mask_from 0 key message)"

subsection \<open>Reading a header\<close>

definition isFin :: "memory \<Rightarrow> addr \<Rightarrow> bool" where "isFin m frame = (m frame AND 128 \<noteq> 0)"
definition getOpCode :: "memory \<Rightarrow> addr \<Rightarrow> u8" where "getOpCode m frame = m frame AND 15"
definition payloadLength :: "memory \<Rightarrow> addr \<Rightarrow> u8" where "payloadLength m frame = m (frame + 1) AND 127"
definition rsv23 :: "memory \<Rightarrow> addr \<Rightarrow> bool" where "rsv23 m frame = (m frame AND 48 \<noteq> 0)"
definition rsv1 :: "memory \<Rightarrow> addr \<Rightarrow> bool" where "rsv1 m frame = (m frame AND 64 \<noteq> 0)"

subsection \<open>Unmasking in place\<close>

definition xor_byte :: "addr \<Rightarrow> addr \<Rightarrow> u8 \<Rightarrow> memory \<Rightarrow> memory" where
  "xor_byte dst src k m = m(dst := m src XOR k)"

fun xor_quads :: "nat \<Rightarrow> addr \<Rightarrow> addr \<Rightarrow> u8 list \<Rightarrow> memory \<Rightarrow> memory" where
  "xor_quads 0 dst src key m = m"
| "xor_quads (Suc n) dst src key m =
    xor_quads n (dst + 4) (src + 4) key
      (xor_byte (dst + 3) (src + 3) (key ! 3) (xor_byte (dst + 2) (src + 2) (key ! 2)
        (xor_byte (dst + 1) (src + 1) (key ! 1) (xor_byte dst src (key ! 0) m))))"

definition unmaskImprecise :: "addr \<Rightarrow> addr \<Rightarrow> u8 list \<Rightarrow> u32 \<Rightarrow> memory \<Rightarrow> memory" where
  "unmaskImprecise dst src key n = xor_quads (unat (drop_bit 2 n + 1)) dst src key"

definition unmaskImpreciseCopyMask :: "addr \<Rightarrow> u32 \<Rightarrow> memory \<Rightarrow> memory" where
  "unmaskImpreciseCopyMask src n m = unmaskImprecise (src - 4) src (load m (src - 4) 4) n m"

definition rotateMask :: "u32 \<Rightarrow> u8 list \<Rightarrow> u8 list" where
  "rotateMask offset key =
    key[unat ((0 + offset) mod 4) := key ! 0, unat ((1 + offset) mod 4) := key ! 1,
         unat ((2 + offset) mod 4) := key ! 2, unat ((3 + offset) mod 4) := key ! 3]"

function unmaskInplace :: "addr \<Rightarrow> addr \<Rightarrow> u8 list \<Rightarrow> memory \<Rightarrow> memory" where
  "unmaskInplace data stop key m =
    (if data < stop
     then unmaskInplace (data + 4) stop key
       (xor_byte (data + 3) (data + 3) (key ! 3) (xor_byte (data + 2) (data + 2) (key ! 2)
         (xor_byte (data + 1) (data + 1) (key ! 1) (xor_byte data data (key ! 0) m))))
     else m)"
  by pat_completeness auto

termination by (relation "measure (\<lambda>(data, stop, key, m). stop - data)") auto

declare unmaskInplace.simps [simp del]

fun UnrolledXor :: "nat \<Rightarrow> addr \<Rightarrow> u8 list \<Rightarrow> memory \<Rightarrow> memory" where
  "UnrolledXor 0 data key m = m"
| "UnrolledXor (Suc n) data key m =
    xor_byte (data + n) (data + n) (key ! (n mod 4)) (UnrolledXor n data key m)"

text \<open>The loop of \<open>unmaskAll\<close> from index \<open>16 * i\<close> on, with \<open>n\<close> rounds to go.\<close>

fun unmask_rounds :: "nat \<Rightarrow> nat \<Rightarrow> addr \<Rightarrow> u8 list \<Rightarrow> memory \<Rightarrow> memory" where
  "unmask_rounds 0 i data key m = m"
| "unmask_rounds (Suc n) i data key m =
    unmask_rounds n (i + 16) data key (UnrolledXor 16 (data + i) key m)"

definition unmaskAll :: "addr \<Rightarrow> u8 list \<Rightarrow> memory \<Rightarrow> memory" where
  "unmaskAll = unmask_rounds (nat LIBUS_RECV_BUFFER_LENGTH div 16) 0"

subsection \<open>Consuming a frame\<close>

record 'u ws_run =
  src :: addr
  len :: u32
  mem :: memory
  wState :: ws_state
  user :: 'u

text \<open>
  \<open>handle\<close> calls \<open>Impl::handleFragment\<close> on \<open>n\<close> bytes from \<open>data\<close>, with the opcode on top of the stack.
\<close>

definition handle :: "'u ws_impl \<Rightarrow> addr \<Rightarrow> nat \<Rightarrow> u32 \<Rightarrow> bool \<Rightarrow> 'u ws_run \<Rightarrow> bool \<times> 'u ws_run" where
  "handle impl data n remaining fin r =
    (let (broken, u) = impl_handleFragment impl (load (mem r) data n) remaining
           (opCode (wState r) ! unat (opStack (wState r))) fin (user r)
     in (broken, r\<lparr>user := u\<rparr>))"

text \<open>\<open>opened\<close> is the state after the opcode of the frame at \<open>src\<close> was accepted, if it was.\<close>

definition opened :: "u8 \<Rightarrow> ws_state \<Rightarrow> ws_state option" where
  "opened op st =
    (if op \<noteq> 0
     then if opStack st = 1 \<or> (\<not> lastFin st \<and> op < 2) then None
          else Some (st\<lparr>opStack := opStack st + 1, opCode := (opCode st)[unat (opStack st + 1) := op]\<rparr>)
     else if opStack st = - 1 then None else Some st)"

definition consumeMessage :: "bool \<Rightarrow> 'u ws_impl \<Rightarrow> u32 \<Rightarrow> u64 \<Rightarrow> 'u ws_run \<Rightarrow> bool \<times> 'u ws_run" where
  "consumeMessage srv impl MESSAGE_HEADER payLength r =
    (case opened (getOpCode (mem r) (src r)) (wState r) of
       None \<Rightarrow> (True, r\<lparr>user := impl_forceClose impl ERR_NONE (user r)\<rparr>)
     | Some st \<Rightarrow>
       (let r = r\<lparr>wState := st\<lparr>lastFin := isFin (mem r) (src r)\<rparr>\<rparr> in
        if impl_refusePayloadLength impl payLength (user r)
        then (True, r\<lparr>user := impl_forceClose impl ERR_TOO_BIG_MESSAGE (user r)\<rparr>)
        else if payLength + ucast MESSAGE_HEADER \<le> ucast (len r)
        then
          let r = (if srv then r\<lparr>mem := unmaskImpreciseCopyMask (src r + unat MESSAGE_HEADER) (ucast payLength) (mem r)\<rparr>
                   else r);
              data = (if srv then src r + unat MESSAGE_HEADER - 4 else src r + unat MESSAGE_HEADER);
              (broken, r) = handle impl data (unat payLength) 0 (isFin (mem r) (src r)) r
          in if broken then (True, r)
          else
            let st = wState r;
                st = (if isFin (mem r) (src r) then st\<lparr>opStack := opStack st - 1\<rparr> else st)
            in (False, r\<lparr>src := src r + unat (payLength + ucast MESSAGE_HEADER),
                         len := len r - ucast (payLength + ucast MESSAGE_HEADER),
                         wState := st\<lparr>spillLength := 0\<rparr>\<rparr>)
        else
          let st = (wState r)\<lparr>spillLength := 0, wantsHead := False,
                remainingBytes := ucast (payLength - ucast (len r) + ucast MESSAGE_HEADER)\<rparr>;
              fin = isFin (mem r) (src r);
              r = (if srv
                   then let k = load (mem r) (src r + unat MESSAGE_HEADER - 4) 4 in
                     r\<lparr>wState := st\<lparr>mask_bytes := rotateMask (4 - (len r - MESSAGE_HEADER) mod 4) k\<rparr>,
                       mem := unmaskImprecise (src r) (src r + unat MESSAGE_HEADER) k (len r - MESSAGE_HEADER) (mem r)\<rparr>
                   else r\<lparr>wState := st, src := src r + unat MESSAGE_HEADER\<rparr>);
              (_, r) = handle impl (src r) (unat (len r - MESSAGE_HEADER)) (remainingBytes (wState r)) fin r
          in (True, r)))"

text \<open>The rest of a payload whose frame an earlier segment began; True when a header may follow.\<close>

fun xor_tail :: "nat \<Rightarrow> addr \<Rightarrow> nat \<Rightarrow> u8 list \<Rightarrow> memory \<Rightarrow> memory" where
  "xor_tail 0 data i key m = m"
| "xor_tail (Suc s) data i key m = xor_tail s data (i + 1) key (xor_byte (data + i) (data + i) (key ! i) m)"

definition consumeContinuation :: "bool \<Rightarrow> 'u ws_impl \<Rightarrow> 'u ws_run \<Rightarrow> bool \<times> 'u ws_run" where
  "consumeContinuation srv impl r =
    (let remaining = remainingBytes (wState r); key = mask_bytes (wState r) in
     if remaining \<le> len r
     then
       let r = (if srv
                then let n = unat (drop_bit 2 remaining) in
                  r\<lparr>mem := xor_tail (unat (remaining mod 4)) (src r + n * 4) 0 key
                             (unmaskInplace (src r) (src r + n * 4) key (mem r))\<rparr>
                else r);
           (broken, r) = handle impl (src r) (unat remaining) 0 (lastFin (wState r)) r
       in if broken then (False, r)
       else
         let st = wState r; st = (if lastFin st then st\<lparr>opStack := opStack st - 1\<rparr> else st)
         in (True, r\<lparr>src := src r + unat remaining, len := len r - remaining, wState := st\<lparr>wantsHead := True\<rparr>\<rparr>)
     else
       let r = (if srv \<and> key \<noteq> [0, 0, 0, 0]
                then r\<lparr>mem := (if LIBUS_RECV_BUFFER_LENGTH = uint (len r) then unmaskAll (src r) key (mem r)
                            else unmaskInplace (src r) (src r + (unat (drop_bit 2 (len r)) + 1) * 4) key (mem r))\<rparr>
                else r);
           r = r\<lparr>wState := (wState r)\<lparr>remainingBytes := remaining - len r\<rparr>\<rparr>;
           (broken, r) = handle impl (src r) (unat (len r)) (remaining - len r) (lastFin (wState r)) r
       in if broken then (False, r)
       else (False, if srv \<and> len r mod 4 \<noteq> 0
                    then r\<lparr>wState := (wState r)\<lparr>mask_bytes := rotateMask (4 - len r mod 4) (mask_bytes (wState r))\<rparr>\<rparr>
                    else r))"

subsection \<open>Consuming a segment\<close>

text \<open>What is left of the segment when it holds no whole header is kept.\<close>

definition spill_over :: "'u ws_run \<Rightarrow> 'u ws_run" where
  "spill_over r =
    (if len r \<noteq> 0
     then let n = unat (len r) in
       r\<lparr>wState := (wState r)\<lparr>spill := load (mem r) (src r) n @ drop n (spill (wState r)),
                             spillLength := ucast (len r AND 0xf)\<rparr>\<rparr>
     else r)"

text \<open>The condition at the head of the loop: True when the frame at \<open>src\<close> is refused.\<close>

definition refused :: "'u ws_impl \<Rightarrow> 'u ws_run \<Rightarrow> bool \<times> 'u ws_run" where
  "refused impl r =
    (let m = mem r; a = src r;
         (compressed, u) = (if rsv1 m a then impl_setCompressed impl (user r) else (True, user r))
     in (\<not> compressed \<or> rsv23 m a \<or> (getOpCode m a > 2 \<and> getOpCode m a < 8) \<or> getOpCode m a > 10
         \<or> (getOpCode m a > 2 \<and> (\<not> isFin m a \<or> payloadLength m a > 125)), r\<lparr>user := u\<rparr>))"

text \<open>The length of the header at \<open>src\<close> and of the payload it announces; None when the header is cut short.\<close>

definition announced :: "bool \<Rightarrow> 'u ws_run \<Rightarrow> (u32 \<times> u64) option" where
  "announced srv r =
    (let p = payloadLength (mem r) (src r) in
     if p < 126 then Some (SHORT_MESSAGE_HEADER srv, ucast p)
     else if p = 126
     then if len r < MEDIUM_MESSAGE_HEADER srv then None
          else Some (MEDIUM_MESSAGE_HEADER srv, ucast (cond_byte_swap 2 (bit_cast (mem r) (src r + 2) 2) :: u16))
     else if len r < LONG_MESSAGE_HEADER srv then None
     else Some (LONG_MESSAGE_HEADER srv, cond_byte_swap 8 (bit_cast (mem r) (src r + 2) 8)))"

text \<open>
  The loop at \<open>parseNext\<close>. It is not structurally bounded: a frame whose announced length wraps around
  does not move the cursor, unless \<open>Impl\<close> refuses such lengths. None is the loop that does not return.
\<close>

partial_function (option) parseNext :: "bool \<Rightarrow> 'u ws_impl \<Rightarrow> 'u ws_run \<Rightarrow> 'u ws_run option" where
  "parseNext srv impl r =
    (if len r < SHORT_MESSAGE_HEADER srv then Some (spill_over r)
     else
       let (bad, r) = refused impl r in
       if bad then Some (r\<lparr>user := impl_forceClose impl ERR_NONE (user r)\<rparr>)
       else case announced srv r of
           None \<Rightarrow> Some (spill_over r)
         | Some (MESSAGE_HEADER, payLength) \<Rightarrow>
           (let (stop, r) = consumeMessage srv impl MESSAGE_HEADER payLength r in
            if stop then Some r else parseNext srv impl r))"

definition consume :: "bool \<Rightarrow> 'u ws_impl \<Rightarrow> 'u ws_run \<Rightarrow> 'u ws_run option" where
  "consume srv impl r =
    (let st = wState r; n = unat (spillLength st);
         r = (if n \<noteq> 0
              then r\<lparr>src := src r - n, len := len r + of_nat n,
                     mem := memcpy (src r - n) (take n (spill st)) (mem r)\<rparr>
              else r)
     in if wantsHead st then parseNext srv impl r
     else let (go_on, r) = consumeContinuation srv impl r in
       if go_on then parseNext srv impl r else Some r)"

end
