(* ===== verification/Uws_WebSocket.thy ===== *)
theory Uws_WebSocket imports
  "Uws_Async"
  "Uws_Frames"
begin

section \<open>WebSocket connections (\<open>WebSocket.h\<close>, \<open>WebSocketContext.h\<close>, \<open>WebSocketContextData.h\<close>)\<close>

text \<open>
  One connection \<open>s\<close> of a loop. Its \<open>WebSocketData\<close> is split in two by who can write it: \<open>websocket\<close> has what
  only the receiving side of the connection touches, \<open>ws_outer\<close> what the operations of the interface touch as
  well, so that a handler of the application, which may call any of them, is a function on \<open>ws_outer\<close>. The parser's part
  (\<open>WebSocketState\<close>) is beside them, as in \<open>Uws_Frames\<close>. \<open>application\<close> is the application's own state.

  The code compresses with zlib or libdeflate: \<open>inflate\<close> and \<open>deflate\<close> are parameters, over a state \<open>zlib\<close> of their own, as
  is the check of UTF-8 (simdutf). The connection has no subscriber: publishing and the topic tree are left out.
\<close>

subsection \<open>State and context\<close>

datatype CompressionStatus = DISABLED | ENABLED | COMPRESSED_FRAME
datatype SendStatus = BACKPRESSURE | SUCCESS | DROPPED

record ('a, 'z) ws_outer =
  net :: uws
  isShuttingDown :: bool
  hasTimedOut :: bool
  deflationStream :: bool
  inflationStream :: bool
  zlib :: 'z
  application :: 'a

record ('a, 'z) websocket =
  fragmentBuffer :: "u8 list"
  controlTipLength :: u32
  compressionStatus :: CompressionStatus
  outer :: "('a, 'z) ws_outer"

text \<open>
  Handlers are called with the connection's compression status, which the operations they may call look at. The
  streams are dedicated ones when the flags \<open>deflationStream\<close> and \<open>inflationStream\<close> say so, else the loop's, which are reset after each use.
\<close>

type_synonym ('a, 'z) effect = "CompressionStatus \<Rightarrow> ('a, 'z) ws_outer \<Rightarrow> ('a, 'z) ws_outer"

record ('a, 'z) ws_context =
  SSL :: bool
  maxPayloadLength :: u64
  maxBackpressure :: nat
  closeOnBackpressureLimit :: bool
  resetIdleTimeoutOnSend :: bool
  sendPingsAutomatically :: bool
  idleTimeoutComponents :: "u16 \<times> u16"
  messageHandler :: "(u8 list \<Rightarrow> u8 \<Rightarrow> ('a, 'z) effect) option"
  drainHandler :: "('a, 'z) effect option"
  closeHandler :: "(int \<Rightarrow> u8 list \<Rightarrow> ('a, 'z) effect) option"
  pingHandler :: "(u8 list \<Rightarrow> ('a, 'z) effect) option"
  pongHandler :: "(u8 list \<Rightarrow> ('a, 'z) effect) option"
  onSocketClosed :: "('a, 'z) effect option"
  inflate :: "bool \<Rightarrow> u8 list \<Rightarrow> u64 \<Rightarrow> 'z \<Rightarrow> u8 list option \<times> 'z"
  deflate :: "bool \<Rightarrow> u8 list \<Rightarrow> 'z \<Rightarrow> u8 list \<times> 'z"
  isValidUtf8 :: "u8 list \<Rightarrow> bool"

text \<open>The constructor \<open>WebSocketData\<close>, over what the socket and the application have at the upgrade.\<close>

definition WebSocketData :: "bool \<Rightarrow> bool \<Rightarrow> bool \<Rightarrow> uws \<Rightarrow> 'z \<Rightarrow> 'a \<Rightarrow> ('a, 'z) websocket" where
  "WebSocketData perMessageDeflate dedicatedCompressor dedicatedDecompressor u z a =
    \<lparr>fragmentBuffer = [], controlTipLength = 0, compressionStatus = (if perMessageDeflate then ENABLED else DISABLED),
     outer = \<lparr>net = u, isShuttingDown = False, hasTimedOut = False,
       deflationStream = (perMessageDeflate \<and> dedicatedCompressor),
       inflationStream = (perMessageDeflate \<and> dedicatedDecompressor), zlib = z, application = a\<rparr>\<rparr>"

definition upd_net :: "(uws \<Rightarrow> uws) \<Rightarrow> ('a, 'z) ws_outer \<Rightarrow> ('a, 'z) ws_outer" where
  "upd_net f w = w\<lparr>net := f (net w)\<rparr>"

definition ws_closed :: "addr \<Rightarrow> ('a, 'z) ws_outer \<Rightarrow> bool" where
  "ws_closed s w = is_closed s (net w)"

text \<open>\<open>calculateIdleTimeoutComponents\<close>; the code starts from a margin of 4.\<close>

function grow_margin :: "int \<Rightarrow> int \<Rightarrow> int" where
  "grow_margin idleTimeout margin =
    (if 0 < margin \<and> idleTimeout - margin * 2 \<ge> margin * 2 \<and> margin < 16 then grow_margin idleTimeout (margin * 2) else margin)"
  by pat_completeness auto
termination by (relation "measure (\<lambda>(idleTimeout, margin). nat (16 - margin))") auto

declare grow_margin.simps [simp del]

definition calculateIdleTimeoutComponents :: "u16 \<Rightarrow> ('a, 'z) ws_context \<Rightarrow> ('a, 'z) ws_context" where
  "calculateIdleTimeoutComponents idleTimeout ctx =
    (let margin = of_int (grow_margin (uint idleTimeout) 4) in
     ctx\<lparr>idleTimeoutComponents := (idleTimeout - (if sendPingsAutomatically ctx then margin else 0), margin)\<rparr>)"

subsection \<open>Sending\<close>

text \<open>\<open>us_socket_write2\<close>, with what it took collected.\<close>

definition socket_write2 :: "addr \<Rightarrow> u8 list \<Rightarrow> u8 list \<Rightarrow> uws \<Rightarrow> nat \<times> uws" where
  "socket_write2 s header payload u =
    (let (n, w) = us_socket_write2 s header payload (us u)
     in (nat n, u\<lparr>us := w, sent := (sent u)(s := sent u s @ take (nat n) (header @ payload))\<rparr>))"

definition corkBufferEmpty :: "addr \<Rightarrow> uws \<Rightarrow> bool" where
  "corkBufferEmpty s u = (case findCorkSlot s u of None \<Rightarrow> True | Some i \<Rightarrow> slot_bytes (getCorkSlot i u) = [])"

text \<open>The path for long messages; True when a part of the frame had to be buffered.\<close>

definition send_long :: "addr \<Rightarrow> u8 list \<Rightarrow> u8 \<Rightarrow> bool \<Rightarrow> uws \<Rightarrow> bool \<times> uws" where
  "send_long s message op fin u =
    (let header = formatMessage True [] op (of_nat (length message)) False fin 0;
         (written, u) = socket_write2 s header message u
     in if written \<noteq> length header + length message
     then let u = (if written > length header
                   then upd_async s (bp_append (drop (written - length header) message)) u
                   else upd_async s (bp_append message) (upd_async s (bp_append (drop written header)) u))
       in (True, uncorkWithoutSending s u)
     else (False, u))"

definition compress_message :: "('a, 'z) ws_context \<Rightarrow> CompressionStatus \<Rightarrow> u8 list \<Rightarrow> u8 \<Rightarrow> bool \<Rightarrow>
    ('a, 'z) ws_outer \<Rightarrow> (u8 list \<times> bool) \<times> ('a, 'z) ws_outer" where
  "compress_message ctx c message op compress w =
    (if compress
     then if message \<noteq> [] \<and> op < 3 \<and> c = ENABLED
       then let (message, z) = deflate ctx (\<not> deflationStream w) message (zlib w) in ((message, True), w\<lparr>zlib := z\<rparr>)
       else ((message, False), w)
     else ((message, False), w))"

text \<open>The path for the others, which assembles the frame where it will be sent from.\<close>

definition send_frame :: "addr \<Rightarrow> bool \<Rightarrow> u8 list \<Rightarrow> u8 \<Rightarrow> bool \<Rightarrow> bool \<Rightarrow> uws \<Rightarrow> bool \<times> uws" where
  "send_frame s ssl message op compress fin u =
    (let n = of_nat (length message);
         ((place, attribute), u) = getSendBuffer s ssl (unat (messageFrameSize n)) u;
         u = put s place (formatMessage True message op n compress fin 0) u
     in case attribute of
          NEEDS_DRAIN \<Rightarrow> (let ((_, failed), u) = async_write s [] False u in (failed, u))
        | NEEDS_UNCORK \<Rightarrow> (let ((_, failed), u) = uncork s [] False u in (failed, u))
        | NEEDS_NOTHING \<Rightarrow> (False, u))"

definition reset_timeout_on_send :: "('a, 'z) ws_context \<Rightarrow> addr \<Rightarrow> ('a, 'z) ws_outer \<Rightarrow> ('a, 'z) ws_outer" where
  "reset_timeout_on_send ctx s w =
    (if resetIdleTimeoutOnSend ctx
     then (upd_net (async_timeout s (ucast (fst (idleTimeoutComponents ctx)))) w)\<lparr>hasTimedOut := False\<rparr> else w)"

definition send :: "('a, 'z) ws_context \<Rightarrow> addr \<Rightarrow> CompressionStatus \<Rightarrow> u8 list \<Rightarrow> u8 \<Rightarrow> bool \<Rightarrow> bool \<Rightarrow>
    ('a, 'z) ws_outer \<Rightarrow> SendStatus \<times> ('a, 'z) ws_outer" where
  "send ctx s c message op compress fin w =
    (if maxBackpressure ctx \<noteq> 0 \<and> maxBackpressure ctx < getBufferedAmount s (net w)
     then (DROPPED, if closeOnBackpressureLimit ctx then upd_net (upd_us (us_socket_shutdown_read s)) w else w)
     else
       let (failed, w) =
         (if length message \<ge> 16 * 1024 \<and> \<not> compress \<and> \<not> SSL ctx \<and> getBufferedAmount s (net w) = 0
             \<and> corkBufferEmpty s (net w)
          then let (failed, u) = send_long s message op fin (net w) in (failed, w\<lparr>net := u\<rparr>)
          else let ((message, compress), w) = compress_message ctx c message op compress w;
                   (failed, u) = send_frame s (SSL ctx) message op compress fin (net w)
            in (failed, w\<lparr>net := u\<rparr>))
       in if failed then (BACKPRESSURE, w) else (SUCCESS, reset_timeout_on_send ctx s w))"

definition sendFirstFragment :: "('a, 'z) ws_context \<Rightarrow> addr \<Rightarrow> CompressionStatus \<Rightarrow> u8 list \<Rightarrow> u8 \<Rightarrow> bool \<Rightarrow>
    ('a, 'z) ws_outer \<Rightarrow> SendStatus \<times> ('a, 'z) ws_outer" where
  "sendFirstFragment ctx s c message op compress = send ctx s c message op compress False"

definition sendFragment :: "('a, 'z) ws_context \<Rightarrow> addr \<Rightarrow> CompressionStatus \<Rightarrow> u8 list \<Rightarrow> bool \<Rightarrow>
    ('a, 'z) ws_outer \<Rightarrow> SendStatus \<times> ('a, 'z) ws_outer" where
  "sendFragment ctx s c message compress = send ctx s c message CONTINUATION compress False"

definition sendLastFragment :: "('a, 'z) ws_context \<Rightarrow> addr \<Rightarrow> CompressionStatus \<Rightarrow> u8 list \<Rightarrow> bool \<Rightarrow>
    ('a, 'z) ws_outer \<Rightarrow> SendStatus \<times> ('a, 'z) ws_outer" where
  "sendLastFragment ctx s c message compress = send ctx s c message CONTINUATION compress True"

subsection \<open>Ending and closing\<close>

definition call_closeHandler :: "('a, 'z) ws_context \<Rightarrow> int \<Rightarrow> u8 list \<Rightarrow> ('a, 'z) effect" where
  "call_closeHandler ctx code message c w = (case closeHandler ctx of None \<Rightarrow> w | Some h \<Rightarrow> h code message c w)"

text \<open>\<open>bool ok = send(...)\<close>: every status but \<open>BACKPRESSURE\<close>, which is 0, counts as sent.\<close>

definition ws_end :: "('a, 'z) ws_context \<Rightarrow> addr \<Rightarrow> int \<Rightarrow> u8 list \<Rightarrow> ('a, 'z) effect" where
  "ws_end ctx s code message c w =
    (if isShuttingDown w then w
     else
       let w = w\<lparr>isShuttingDown := True\<rparr>;
           (status, w) = send ctx s c (formatClosePayload (of_int code) (take 123 message)) CLOSE False True w;
           w = (if \<not> isCorked s (net w) \<and> status \<noteq> BACKPRESSURE then upd_net (async_shutdown s) w else w);
           w = upd_net (async_timeout s (ucast (snd (idleTimeoutComponents ctx)))) w
       in call_closeHandler ctx code message c w)"

definition bytes_of :: "string \<Rightarrow> u8 list" where "bytes_of = map of_char"

definition reason_of :: "ws_error \<Rightarrow> u8 list" where
  "reason_of err = (case err of
     ERR_NONE \<Rightarrow> []
   | ERR_TOO_BIG_MESSAGE \<Rightarrow> bytes_of ''Received too big message''
   | ERR_WEBSOCKET_TIMEOUT \<Rightarrow> bytes_of ''WebSocket timed out from inactivity''
   | ERR_INVALID_TEXT \<Rightarrow> bytes_of ''Received invalid UTF-8''
   | ERR_TOO_BIG_MESSAGE_INFLATION \<Rightarrow> bytes_of ''Received too big message, or other inflation error''
   | ERR_INVALID_CLOSE_PAYLOAD \<Rightarrow> bytes_of ''Received invalid close payload'')"

definition onClose :: "('a, 'z) ws_context \<Rightarrow> addr \<Rightarrow> u8 list \<Rightarrow> ('a, 'z) effect" where
  "onClose ctx s reason c w =
    (let w = upd_net (uncorkWithoutSending s) w;
         w = (case onSocketClosed ctx of None \<Rightarrow> w | Some h \<Rightarrow> h c w)
     in if isShuttingDown w then w else call_closeHandler ctx 1006 reason c w)"

text \<open>
  \<open>us_socket_close\<close> on the connection. The library calls \<open>onClose\<close> when the socket has been closed by it, just before it
  puts the socket on the list of those to free; here \<open>onClose\<close> runs just after that. A TLS session may put the closing
  off: then \<open>onClose\<close> is not called yet.
\<close>

definition close_socket :: "('a, 'z) ws_context \<Rightarrow> addr \<Rightarrow> u8 list \<Rightarrow> ('a, 'z) effect" where
  "close_socket ctx s reason c w =
    (if ws_closed s w then w
     else let w = upd_net (upd_us (\<lambda>v. snd (us_socket_close (\<lambda>e v. (Some s, v)) s (int (length reason)) None v))) w
       in if ws_closed s w then onClose ctx s reason c w else w)"

definition ws_close :: "('a, 'z) ws_context \<Rightarrow> addr \<Rightarrow> ('a, 'z) effect" where
  "ws_close ctx s c w =
    (if ws_closed s w then w else if isShuttingDown w then w else close_socket ctx s [] c w)"

definition ws_cork :: "('a, 'z) ws_context \<Rightarrow> addr \<Rightarrow> ('a, 'z) effect \<Rightarrow> ('a, 'z) effect" where
  "ws_cork ctx s handler c w =
    (if \<not> isCorked s (net w)
     then upd_net (\<lambda>u. snd (uncork s [] False u)) (handler c (upd_net (cork s (SSL ctx)) w))
     else handler c w)"

subsection \<open>Receiving\<close>

definition on_outer :: "(CompressionStatus \<Rightarrow> ('a, 'z) ws_outer \<Rightarrow> ('a, 'z) ws_outer) \<Rightarrow> ('a, 'z) websocket \<Rightarrow> ('a, 'z) websocket" where
  "on_outer f d = d\<lparr>outer := f (compressionStatus d) (outer d)\<rparr>"

definition gone :: "addr \<Rightarrow> ('a, 'z) websocket \<Rightarrow> bool" where
  "gone s d \<longleftrightarrow> ws_closed s (outer d) \<or> isShuttingDown (outer d)"

definition setCompressed :: "('a, 'z) websocket \<Rightarrow> bool \<times> ('a, 'z) websocket" where
  "setCompressed d =
    (if compressionStatus d = ENABLED then (True, d\<lparr>compressionStatus := COMPRESSED_FRAME\<rparr>) else (False, d))"

definition forceClose :: "('a, 'z) ws_context \<Rightarrow> addr \<Rightarrow> ws_error \<Rightarrow> ('a, 'z) websocket \<Rightarrow> ('a, 'z) websocket" where
  "forceClose ctx s err = on_outer (close_socket ctx s (reason_of err))"

definition refusePayloadLength :: "('a, 'z) ws_context \<Rightarrow> u64 \<Rightarrow> bool" where
  "refusePayloadLength ctx n = (maxPayloadLength ctx < n)"

definition inflate_message :: "('a, 'z) ws_context \<Rightarrow> u8 list \<Rightarrow> ('a, 'z) websocket \<Rightarrow> u8 list option \<times> ('a, 'z) websocket" where
  "inflate_message ctx data d =
    (let d = d\<lparr>compressionStatus := ENABLED\<rparr>; w = outer d;
         (inflated, z) = inflate ctx (\<not> inflationStream w) data (maxPayloadLength ctx) (zlib w)
     in (inflated, d\<lparr>outer := w\<lparr>zlib := z\<rparr>\<rparr>))"

text \<open>A complete message: \<open>handleFragment\<close> has these steps in both of its branches. True when the connection is gone.\<close>

definition whole_message :: "('a, 'z) ws_context \<Rightarrow> addr \<Rightarrow> u8 list \<Rightarrow> u8 \<Rightarrow> ('a, 'z) websocket \<Rightarrow> bool \<times> ('a, 'z) websocket" where
  "whole_message ctx s data op d =
    (let (data, d) = (if compressionStatus d = COMPRESSED_FRAME then inflate_message ctx data d else (Some data, d))
     in case data of
          None \<Rightarrow> (True, forceClose ctx s ERR_TOO_BIG_MESSAGE_INFLATION d)
        | Some data \<Rightarrow>
          (if op = 1 \<and> \<not> isValidUtf8 ctx data then (True, forceClose ctx s ERR_INVALID_TEXT d)
           else case messageHandler ctx of
               None \<Rightarrow> (False, d)
             | Some h \<Rightarrow> (let d = on_outer (h data op) d in (gone s d, d))))"

text \<open>A complete control frame, likewise.\<close>

definition call_control :: "addr \<Rightarrow> (u8 list \<Rightarrow> ('a, 'z) effect) option \<Rightarrow> u8 list \<Rightarrow> ('a, 'z) websocket \<Rightarrow> bool \<times> ('a, 'z) websocket" where
  "call_control s h data d =
    (case h of None \<Rightarrow> (False, d) | Some h \<Rightarrow> (let d = on_outer (h data) d in (gone s d, d)))"

definition whole_control :: "('a, 'z) ws_context \<Rightarrow> addr \<Rightarrow> u8 list \<Rightarrow> u8 \<Rightarrow> ('a, 'z) websocket \<Rightarrow> bool \<times> ('a, 'z) websocket" where
  "whole_control ctx s data op d =
    (if op = CLOSE
     then let (code, message) = parseClosePayload (isValidUtf8 ctx) data
       in (True, on_outer (ws_end ctx s (uint code) message) d)
     else if op = PING
     then call_control s (pingHandler ctx) data (on_outer (\<lambda>c w. snd (send ctx s c data PONG False True w)) d)
     else if op = PONG then call_control s (pongHandler ctx) data d
     else (False, d))"

definition handleFragment :: "('a, 'z) ws_context \<Rightarrow> addr \<Rightarrow> u8 list \<Rightarrow> u32 \<Rightarrow> u8 \<Rightarrow> bool \<Rightarrow>
    ('a, 'z) websocket \<Rightarrow> bool \<times> ('a, 'z) websocket" where
  "handleFragment ctx s data remaining op fin d =
    (if op < 3
     then if remaining = 0 \<and> fin \<and> fragmentBuffer d = [] then whole_message ctx s data op d
       else if refusePayloadLength ctx (of_nat (length data) + of_nat (length (fragmentBuffer d)))
       then (True, forceClose ctx s ERR_TOO_BIG_MESSAGE d)
       else
         let d = d\<lparr>fragmentBuffer := fragmentBuffer d @ data\<rparr> in
         if remaining = 0 \<and> fin
         then let (broken, d) = whole_message ctx s (fragmentBuffer d) op d
           in if broken then (True, d) else (False, d\<lparr>fragmentBuffer := []\<rparr>)
         else (False, d)
     else if remaining = 0 \<and> fin \<and> controlTipLength d = 0 then whole_control ctx s data op d
     else
       let d = d\<lparr>fragmentBuffer := fragmentBuffer d @ data, controlTipLength := controlTipLength d + of_nat (length data)\<rparr> in
       if remaining = 0 \<and> fin
       then
         let controlBuffer = drop (length (fragmentBuffer d) - unat (controlTipLength d)) (fragmentBuffer d);
             (broken, d) = whole_control ctx s controlBuffer op d
         in if broken then (True, d)
         else (False, d\<lparr>fragmentBuffer := take (unat (of_nat (length (fragmentBuffer d)) - controlTipLength d)) (fragmentBuffer d),
                        controlTipLength := 0\<rparr>)
       else (False, d))"

definition Impl :: "('a, 'z) ws_context \<Rightarrow> addr \<Rightarrow> ('a, 'z) websocket ws_impl" where
  "Impl ctx s = \<lparr>impl_setCompressed = setCompressed, impl_forceClose = forceClose ctx s,
     impl_handleFragment = handleFragment ctx s, impl_refusePayloadLength = (\<lambda>n d. refusePayloadLength ctx n)\<rparr>"

subsection \<open>The events of the connection\<close>

definition timeout_reset :: "('a, 'z) ws_context \<Rightarrow> addr \<Rightarrow> ('a, 'z) ws_outer \<Rightarrow> ('a, 'z) ws_outer" where
  "timeout_reset ctx s w =
    (upd_net (async_timeout s (ucast (fst (idleTimeoutComponents ctx)))) w)\<lparr>hasTimedOut := False\<rparr>"

text \<open>\<open>onData\<close> on \<open>n\<close> bytes at \<open>data\<close> of the memory; None when the parser does not return.\<close>

definition onData :: "('a, 'z) ws_context \<Rightarrow> addr \<Rightarrow> addr \<Rightarrow> nat \<Rightarrow> memory \<times> ws_state \<times> ('a, 'z) websocket \<Rightarrow>
    (memory \<times> ws_state \<times> ('a, 'z) websocket) option" where
  "onData ctx s data n = (\<lambda>(m, st, d).
    if isShuttingDown (outer d) then Some (m, st, d)
    else
      let d = on_outer (\<lambda>c w. upd_net (cork s (SSL ctx)) (timeout_reset ctx s w)) d
      in case consume True (Impl ctx s) \<lparr>src = data, len = of_nat n, mem = m, wState = st, user = d\<rparr> of
           None \<Rightarrow> None
         | Some r \<Rightarrow>
           (let d = on_outer (\<lambda>c. upd_net (\<lambda>u. snd (uncork s [] False u))) (user r);
                d = (if getBufferedAmount s (net (outer d)) = 0 \<and> isShuttingDown (outer d)
                     then on_outer (\<lambda>c. upd_net (async_shutdown s)) d else d)
            in Some (mem r, wState r, d)))"

definition onWritable :: "('a, 'z) ws_context \<Rightarrow> addr \<Rightarrow> ('a, 'z) effect" where
  "onWritable ctx s c w =
    (let (sd, v) = us_socket_is_shut_down s (us (net w)); w = upd_net (upd_us (\<lambda>_. v)) w in
     if sd then w
     else
       let backpressure = getBufferedAmount s (net w);
           w = upd_net (\<lambda>u. snd (async_write s [] False u)) w;
           drained = (backpressure = 0 \<or> backpressure > getBufferedAmount s (net w));
           w = (if drained then timeout_reset ctx s w else w)
       in if isShuttingDown w
       then if getBufferedAmount s (net w) = 0 then upd_net (async_shutdown s) w else w
       else if drained then (case drainHandler ctx of None \<Rightarrow> w | Some h \<Rightarrow> h c w)
       else w)"

definition onEnd :: "('a, 'z) ws_context \<Rightarrow> addr \<Rightarrow> ('a, 'z) effect" where
  "onEnd ctx s c w = close_socket ctx s [] c (upd_net (uncorkWithoutSending s) w)"

definition onLongTimeout :: "('a, 'z) ws_context \<Rightarrow> addr \<Rightarrow> ('a, 'z) effect" where
  "onLongTimeout ctx s = ws_end ctx s 1000 (bytes_of ''please reconnect'')"

definition onTimeout :: "('a, 'z) ws_context \<Rightarrow> addr \<Rightarrow> ('a, 'z) effect" where
  "onTimeout ctx s c w =
    (if sendPingsAutomatically ctx \<and> \<not> isShuttingDown w \<and> \<not> hasTimedOut w
     then
       let w = w\<lparr>hasTimedOut := True\<rparr>;
           w = upd_net (upd_us (us_socket_timeout s (ucast (snd (idleTimeoutComponents ctx))))) w
       in upd_net (\<lambda>u. snd (async_write s [0x89, 0x00] False u)) w
     else close_socket ctx s (reason_of ERR_WEBSOCKET_TIMEOUT) c w)"

end
