(* ===== verification/Uws_Connection.thy ===== *)
theory Uws_Connection imports
  "Uws_WebSocket"
  "Uws_Stream"
begin

section \<open>What the operations of a connection leave alone\<close>

text \<open>
  On a socket without a TLS session: sending neither closes the socket nor changes whether it is shutting
  down, ending makes it shut down, closing closes it.
\<close>

subsection \<open>The layers below\<close>

definition no_tls :: "addr \<Rightarrow> world \<Rightarrow> bool" where
  "no_tls s w \<longleftrightarrow> s_ssl (sockets w s) = None"

text \<open>A step that leaves the socket open or closed as it is, and without a session.\<close>

definition calm_us :: "addr \<Rightarrow> world \<Rightarrow> world \<Rightarrow> bool" where
  "calm_us s v w \<longleftrightarrow> us_socket_is_closed s w = us_socket_is_closed s v \<and> no_tls s w"

definition calm :: "addr \<Rightarrow> uws \<Rightarrow> uws \<Rightarrow> bool" where
  "calm s u v \<longleftrightarrow> calm_us s (us u) (us v)"

lemma calm_refl: "no_tls s (us u) \<Longrightarrow> calm s u u"
  by (simp add: calm_def calm_us_def)

lemma calm_trans: "calm s u v \<Longrightarrow> (no_tls s (us v) \<Longrightarrow> calm s v w) \<Longrightarrow> calm s u w"
  by (simp add: calm_def calm_us_def)

lemma same_us [simp]:
  "us (upd_async t f u) = us u" "us (set_slot i g u) = us u" "us (touchCorkSlot i u) = us u" "us (releaseCorkSlot i u) = us u"
  "us (unborrowCorkSlot t u) = us u"
  by (simp_all add: upd_async_def set_slot_def touchCorkSlot_def releaseCorkSlot_def unborrowCorkSlot_def Let_def split: slot.split)

lemma calm_same [simp]:
  "calm s u (upd_async t f v) = calm s u v" "calm s u (set_slot i g v) = calm s u v" "calm s u (touchCorkSlot i v) = calm s u v"
  "calm s u (releaseCorkSlot i v) = calm s u v" "calm s u (unborrowCorkSlot t v) = calm s u v"
  by (simp_all add: calm_def)

text \<open>A TLS session writes through its socket: the sockets keep their sessions.\<close>

lemma bio_keeps_ssl: "s_ssl (sockets (bio_step b w) s) = s_ssl (sockets w s)"
  by (auto simp: bio_step_def BIO_s_custom_write_def BIO_s_custom_read_def us_socket_raw_write_def Let_def case_prod_beta
      split: bio_op.split option.split)

lemma bios_keep_ssl: "s_ssl (sockets (fold bio_step bs w) s) = s_ssl (sockets w s)"
  by (induction bs arbitrary: w) (simp_all add: bio_keeps_ssl)

lemma ssl_ret_keeps_ssl: "s_ssl (sockets (snd (ssl_ret opr ssl w)) s) = s_ssl (sockets w s)"
  by (simp add: ssl_ret_def ssl_call_def case_prod_beta Let_def bios_keep_ssl)

lemma shut_down_keeps_ssl: "s_ssl (sockets (snd (us_internal_ssl_is_shut_down t w)) s) = s_ssl (sockets w s)"
  by (simp add: us_internal_ssl_is_shut_down_def case_prod_beta Let_def ssl_ret_keeps_ssl split: option.split)

lemma ssl_write_keeps_ssl: "s_ssl (sockets (snd (us_internal_ssl_write t d w)) s) = s_ssl (sockets w s)"
  by (simp add: us_internal_ssl_write_def Let_def case_prod_beta ssl_ret_keeps_ssl shut_down_keeps_ssl ssl_select_def)

lemma calm_writes:
  assumes "no_tls s w"
  shows "calm_us s w (snd (us_socket_write t d w))" "calm_us s w (snd (us_socket_write2 s d e w))"
    "calm_us s w (us_socket_timeout s n w)" "calm_us s w (us_socket_shutdown s w)" "calm_us s w (us_socket_shutdown_read s w)"
    "calm_us s w (snd (us_socket_is_shut_down s w))"
proof -
  have "no_tls s (snd (us_socket_write t d w))"
    using assms by (simp add: no_tls_def us_socket_write_def us_socket_is_shut_down_def ssl_write_keeps_ssl Let_def case_prod_beta)
  then show "calm_us s w (snd (us_socket_write t d w))" by (simp add: calm_us_def write_keeps_closed)
qed (use assms in \<open>auto simp: calm_us_def no_tls_def us_socket_write2_def us_socket_timeout_def us_socket_shutdown_def
      us_socket_shutdown_read_def us_internal_socket_raw_shutdown_def us_socket_is_shut_down_def us_socket_is_closed_def
      us_internal_poll_set_type_def Let_def case_prod_beta\<close>)

lemma unlink_no_tls [simp]: "s_ssl (sockets (close_unlink s w) s) = s_ssl (sockets w s)"
  by (simp add: close_unlink_def low_prio_unlink_def low_prio_chain_def us_internal_socket_group_unlink_socket_def
      unlink_socket_chain_def Let_def split: option.split)

lemma close_closes:
  assumes "no_tls s w"
  shows "us_socket_is_closed s (snd (us_socket_close (\<lambda>e v. (Some s, v)) s code reason w))"
    "no_tls s (snd (us_socket_close (\<lambda>e v. (Some s, v)) s code reason w))"
  using assms
  by (simp_all add: no_tls_def us_socket_is_closed_def us_socket_close_def us_internal_socket_close_raw_def
      us_internal_ssl_detach_def push_closed_def dispatch_def log_event_def Let_def case_prod_beta)

subsection \<open>Buffered writing\<close>

lemma calm_socket_write:
  assumes "no_tls s (us u)"
  shows "calm s u (snd (socket_write t d u))" "calm s u (snd (socket_write2 s d e u))"
  using calm_writes [OF assms]
  by (simp_all add: socket_write_def socket_write2_def calm_def case_prod_beta Let_def)

text \<open>An uncork that \<open>write\<close> may call, known to be calm.\<close>

definition calm_call :: "addr \<Rightarrow> (u8 list \<Rightarrow> bool \<Rightarrow> uws \<Rightarrow> (nat \<times> bool) \<times> uws) \<Rightarrow> bool" where
  "calm_call s f \<longleftrightarrow> (\<forall>d opt u. no_tls s (us u) \<longrightarrow> calm s u (snd (f d opt u)))"

lemma calm_write_rest:
  assumes "calm_call s unc" "no_tls s (us u)"
  shows "calm s u (snd (write_rest unc t d opt u))"
  using assms calm_socket_write(1) [OF assms(2), of t d]
  by (auto simp: write_rest_def calm_call_def calm_refl Let_def case_prod_beta split: option.split)

lemma calm_write_body:
  assumes "calm_call s unc"
  shows "calm_call s (write_body unc t)"
  unfolding calm_call_def
proof (intro allI impI)
  fix d opt and u :: uws assume n: "no_tls s (us u)"
  let ?w = "\<lambda>d. snd (socket_write t d (u :: uws))"
  have "calm s u (?w x)" for x by (rule calm_socket_write(1) [OF n])
  moreover have "calm s u (snd (write_rest unc t d opt (upd_async t f (?w x))))" for x f
  proof (rule calm_trans)
    show "calm s u (upd_async t f (?w x))" using calm_socket_write(1) [OF n] by simp
  qed (rule calm_write_rest [OF assms])
  ultimately show "calm s u (snd (write_body unc t d opt u))"
    using calm_write_rest [OF assms n] n
    by (auto simp: write_body_def calm_refl Let_def case_prod_beta)
qed

lemma calm_uncork_depth: "calm_call s (uncork_depth n t)"
proof (induction n)
  case 0
  then show ?case by (simp add: calm_call_def calm_refl)
next
  case (Suc n)
  have w: "calm s u (snd (write_body (uncork_depth n t) t d opt u))" if "no_tls s (us u)" for d opt and u :: uws
    using calm_write_body [OF Suc.IH] that by (simp add: calm_call_def)
  show ?case unfolding calm_call_def
  proof (intro allI impI)
    fix d opt and u :: uws assume n: "no_tls s (us u)"
    have "calm s u (snd (write_body (uncork_depth n t) t x y (releaseCorkSlot i u)))" for x y i
      by (rule calm_trans [of _ _ "releaseCorkSlot i u"]) (use n w in \<open>simp_all add: calm_refl\<close>)
    moreover from this have "calm s u (snd (write_body (uncork_depth n t) t d opt
        (snd (write_body (uncork_depth n t) t x y (releaseCorkSlot i u)))))" for x y i
      by (rule calm_trans) (rule w)
    ultimately show "calm s u (snd (uncork_depth (Suc n) t d opt u))"
      using n by (auto simp: calm_refl Let_def case_prod_beta split: option.split)
  qed
qed

lemma calm_async:
  assumes "no_tls s (us u)"
  shows "calm s u (snd (async_write t d opt u))" "calm s u (snd (uncork t d opt u))"
    "calm s u (snd (getSendBuffer t ssl n u))" "calm s u (put t p bytes u)"
  using calm_write_body [OF calm_uncork_depth [of s 2 t], of t] calm_uncork_depth [of s 2 t] assms
  by (auto simp: async_write_def uncork_def calm_call_def calm_refl getSendBuffer_def put_def
      acquireCorkSlot_def Let_def case_prod_beta split: option.splits place.splits)

lemma acquire_us [simp]: "us (snd (acquireCorkSlot t ssl u)) = us u"
  by (simp add: acquireCorkSlot_def split: option.split)

lemma calm_cork:
  assumes "no_tls s (us u)"
  shows "calm s u (cork t ssl u)"
proof -
  have "calm s u v" if "us v = us u" for v using that assms by (simp add: calm_def calm_us_def)
  moreover have "calm s u (snd (acquireCorkSlot t ssl (snd (uncork x [] False (snd (acquireCorkSlot t ssl u))))))" for x
    using calm_async(2) [of s "snd (acquireCorkSlot t ssl u)" x "[]" False] assms by (simp add: calm_def)
  ultimately show ?thesis by (auto simp: cork_def Let_def case_prod_beta split: option.split prod.splits dest: arg_cong [of _ _ snd])
qed

subsection \<open>Sending, ending and closing\<close>

definition plain :: "addr \<Rightarrow> ('a, 'z) ws_outer \<Rightarrow> bool" where
  "plain s w \<longleftrightarrow> no_tls s (us (net w))"

definition closing :: "addr \<Rightarrow> ('a, 'z) ws_outer \<Rightarrow> bool" where
  "closing s w \<longleftrightarrow> ws_closed s w \<or> isShuttingDown w"

lemma upd_net_simps [simp]:
  "net (upd_net f w) = f (net w)" "isShuttingDown (upd_net f w) = isShuttingDown w" "zlib (upd_net f w) = zlib w"
  "application (upd_net f w) = application w" "hasTimedOut (upd_net f w) = hasTimedOut w"
  by (simp_all add: upd_net_def)

lemma calm_keeps: "calm s u v \<Longrightarrow> is_closed s v = is_closed s u" "calm s u v \<Longrightarrow> no_tls s (us v)"
  by (simp_all add: calm_def calm_us_def is_closed_def)

lemma calm_upd_us: "calm_us s (us u) (f (us u)) \<Longrightarrow> calm s u (upd_us f u)"
  by (simp add: calm_def upd_us_def)

lemma calm_send_long:
  assumes "no_tls s (us u)"
  shows "calm s u (snd (send_long s message op fin u))"
  using calm_socket_write(2) [OF assms]
  by (simp add: send_long_def uncorkWithoutSending_def Let_def case_prod_beta)

lemma calm_send_frame:
  assumes "no_tls s (us u)"
  shows "calm s u (snd (send_frame s ssl message op compress fin u))"
proof -
  obtain p a v where g: "getSendBuffer s ssl (unat (messageFrameSize (of_nat (length message)))) u = ((p, a), v)"
    by (metis (no_types) surj_pair)
  let ?v = "put s p (formatMessage True message op (of_nat (length message)) compress fin 0) v"
  have "calm s u v" using calm_async(3) [OF assms, of s ssl "unat (messageFrameSize (of_nat (length message)))"]
    unfolding g snd_conv .
  then have v: "calm s u ?v" by (rule calm_trans) (rule calm_async(4))
  have "calm s u (snd (async_write s [] False ?v))" "calm s u (snd (uncork s [] False ?v))"
    by (rule calm_trans [OF v], rule calm_async, assumption)+
  with v show ?thesis using g
    by (simp add: send_frame_def Let_def case_prod_beta split: SendBufferAttribute.split)
qed

text \<open>Sending leaves the connection as open, and as much shutting down, as it was.\<close>

lemma send_steady:
  assumes "plain s w"
  shows "plain s (snd (send ctx s c message op compress fin w))"
    "ws_closed s (snd (send ctx s c message op compress fin w)) = ws_closed s w"
    "isShuttingDown (snd (send ctx s c message op compress fin w)) = isShuttingDown w"
proof -
  have n: "no_tls s (us (net w))" using assms by (simp add: plain_def)
  have z: "net (snd (compress_message ctx c message op compress w)) = net w"
    "isShuttingDown (snd (compress_message ctx c message op compress w)) = isShuttingDown w"
    by (auto simp: compress_message_def split: prod.split)
  have t: "calm s (net w) (async_timeout s k v)" if "calm s (net w) v" for k v
    using that by (rule calm_trans) (simp add: async_timeout_def calm_upd_us calm_writes)
  have r: "calm s (net w) (upd_us (us_socket_shutdown_read s) (net w))" by (simp add: calm_upd_us calm_writes n)
  have "calm s (net w) (net (snd (send ctx s c message op compress fin w)))"
    using calm_send_long [OF n] calm_send_frame [OF n] t r
    by (simp add: send_def reset_timeout_on_send_def z calm_refl n Let_def case_prod_beta)
  then show "plain s (snd (send ctx s c message op compress fin w))"
    "ws_closed s (snd (send ctx s c message op compress fin w)) = ws_closed s w"
    using calm_keeps by (simp_all add: plain_def ws_closed_def)
  show "isShuttingDown (snd (send ctx s c message op compress fin w)) = isShuttingDown w"
    by (simp add: send_def reset_timeout_on_send_def z Let_def case_prod_beta)
qed

text \<open>Up to the call of the handler, ending makes the connection shut down and closing closes the socket.\<close>

lemma end_calls:
  assumes "plain s w" "\<not> isShuttingDown w"
  shows "\<exists>v. ws_end ctx s code message c w = call_closeHandler ctx code message c v \<and> plain s v \<and> closing s v
    \<and> ws_closed s v = ws_closed s w"
proof -
  let ?p = "formatClosePayload (of_int code) (take 123 message)"
  let ?w = "w\<lparr>isShuttingDown := True\<rparr>"
  obtain status v where v: "send ctx s c ?p CLOSE False True ?w = (status, v)" by fastforce
  have p: "plain s ?w" using assms(1) by (simp add: plain_def)
  have pv: "plain s v" "ws_closed s v = ws_closed s w" "isShuttingDown v"
    using send_steady [OF p, of ctx c ?p CLOSE False True] v by (simp_all add: ws_closed_def)
  let ?v = "if \<not> isCorked s (net v) \<and> status \<noteq> BACKPRESSURE then upd_net (async_shutdown s) v else v"
  have "calm s (net v) (net ?v)" using pv(1)
    by (simp add: plain_def calm_refl async_shutdown_def calm_upd_us calm_writes)
  then have "calm s (net v) (async_timeout s k (net ?v))" for k
    by (rule calm_trans) (simp add: async_timeout_def calm_upd_us calm_writes)
  then have k: "is_closed s (async_timeout s k (net ?v)) = is_closed s (net v)" "no_tls s (us (async_timeout s k (net ?v)))" for k
    using calm_keeps by blast+
  let ?u = "upd_net (async_timeout s (ucast (snd (idleTimeoutComponents ctx)))) ?v"
  have "isShuttingDown ?v" using pv(3) by simp
  then have "plain s ?u" "closing s ?u" "ws_closed s ?u = ws_closed s w"
    using k pv(2) by (simp_all only: plain_def closing_def ws_closed_def upd_net_simps simp_thms)
  moreover have "ws_end ctx s code message c w = call_closeHandler ctx code message c ?u"
    using assms(2) v by (simp add: ws_end_def Let_def)
  ultimately show ?thesis by blast
qed

lemma close_calls:
  assumes "plain s w" "\<not> ws_closed s w"
  shows "\<exists>v. close_socket ctx s reason c w = onClose ctx s reason c v \<and> plain s v \<and> ws_closed s v"
proof -
  let ?f = "\<lambda>v. snd (us_socket_close (\<lambda>e v. (Some s, v)) s (int (length reason)) None v)"
  from close_closes [of s "us (net w)" "int (length reason)" None] assms
  have "plain s (upd_net (upd_us ?f) w)" "ws_closed s (upd_net (upd_us ?f) w)"
    by (simp_all add: plain_def ws_closed_def is_closed_def upd_us_def)
  then show ?thesis using assms(2) by (auto simp: close_socket_def Let_def)
qed

end
