(* ===== verification/Uws_Frames_Spec.thy ===== *)
theory Uws_Frames_Spec imports
  "Uws_Frames"
begin

section \<open>Frames read one byte at a time\<close>

subsection \<open>Memory\<close>

lemma length_load [simp]: "length (load m a n) = n"
  by (simp add: load_def)

lemma nth_load [simp]: "i < n \<Longrightarrow> load m a n ! i = m (a + i)"
  by (simp add: load_def)

lemma load_0 [simp]: "load m a 0 = []"
  by (simp add: load_def)

lemma load_cong: "(\<And>x. a \<le> x \<Longrightarrow> x < a + n \<Longrightarrow> m x = m' x) \<Longrightarrow> load m a n = load m' a n"
  by (simp add: load_def)

lemma take_load [simp]: "take k (load m a n) = load m a (min k n)"
  by (rule nth_equalityI) auto

lemma drop_load [simp]: "drop k (load m a n) = load m (a + k) (n - k)"
  by (rule nth_equalityI) (auto simp: add.assoc)

lemma load_memcpy [simp]: "load (memcpy a bs m) a (length bs) = bs"
  by (rule nth_equalityI) (auto simp: memcpy_def)

lemma load_memcpy_before [simp]: "a + n \<le> b \<Longrightarrow> load (memcpy b bs m) a n = load m a n"
  by (rule load_cong) (auto simp: memcpy_def)

lemma load_memcpy_after [simp]: "b + length bs \<le> a \<Longrightarrow> load (memcpy b bs m) a n = load m a n"
  by (rule load_cong) (auto simp: memcpy_def)

lemma load_append: "load m a (n + k) = load m a n @ load m (a + n) k"
  by (rule nth_equalityI) (auto simp: nth_append)

subsection \<open>The unmasking loops in closed form\<close>

text \<open>The loop moves bytes to the left or not at all, so it never reads what it has written.\<close>

lemma xor_quads_closed:
  assumes "d \<le> s"
  shows "xor_quads n d s k m =
    (\<lambda>a. if d \<le> a \<and> a < d + 4 * n then m (s + (a - d)) XOR k ! ((a - d) mod 4) else m a)"
  using assms
proof (induction n arbitrary: d s m)
  case 0
  show ?case by (rule ext) auto
next
  case (Suc n)
  define q where "q = xor_byte (d + 3) (s + 3) (k ! 3) (xor_byte (d + 2) (s + 2) (k ! 2)
        (xor_byte (d + 1) (s + 1) (k ! 1) (xor_byte d s (k ! 0) m)))"
  have q: "q a = (if d \<le> a \<and> a < d + 4 then m (s + (a - d)) XOR k ! (a - d) else m a)" for a
  proof -
    consider "a = d" | "a = d + 1" | "a = d + 2" | "a = d + 3" | "a < d" | "a \<ge> d + 4" by linarith
    then show ?thesis using Suc.prems by cases (auto simp: q_def xor_byte_def)
  qed
  have rest: "xor_quads n (d + 4) (s + 4) k q a =
    (if d \<le> a \<and> a < d + 4 * Suc n then m (s + (a - d)) XOR k ! ((a - d) mod 4) else m a)" for a
  proof -
    consider "a < d" | "d \<le> a" "a < d + 4" | "d + 4 \<le> a" by linarith
    then show ?thesis
    proof cases
      case 3
      have "a - d = a - (d + 4) + 4" using 3 by simp
      then have e: "s + 4 + (a - (d + 4)) = s + (a - d)" "(a - (d + 4)) mod 4 = (a - d) mod 4"
        by (linarith, simp only: mod_add_self2)
      have v: "q (s + (a - d)) = m (s + (a - d))" "q a = m a"
        unfolding q using 3 Suc.prems by (intro if_not_P; linarith)+
      have c: "d + 4 \<le> a \<longleftrightarrow> True" "d \<le> a \<longleftrightarrow> True" "d + 4 * Suc n = d + 4 + 4 * n" using 3 by simp_all
      show ?thesis by (simp only: Suc.IH [OF add_right_mono [OF Suc.prems]] e v c)
    qed (use Suc in \<open>simp_all add: q\<close>)
  qed
  show ?case unfolding xor_quads.simps q_def [symmetric] using rest by (rule ext)
qed

lemma unmaskInplace_quads: "unmaskInplace d (d + n * 4) k m = xor_quads n d d k m"
proof (induction n arbitrary: d m)
  case 0
  then show ?case by (simp add: unmaskInplace.simps)
next
  case (Suc n)
  have d: "d + Suc n * 4 = (d + 4) + n * 4" by simp
  show ?case by (subst unmaskInplace.simps, subst (2) d, subst Suc) simp
qed

lemma unmaskInplace_closed: "unmaskInplace d (d + n * 4) k m =
    (\<lambda>a. if d \<le> a \<and> a < d + n * 4 then m a XOR k ! ((a - d) mod 4) else m a)"
  by (auto simp: unmaskInplace_quads xor_quads_closed fun_eq_iff)

lemma xor_tail_closed: "xor_tail n d i k m =
    (\<lambda>a. if d + i \<le> a \<and> a < d + i + n then m a XOR k ! (a - d) else m a)"
proof (induction n arbitrary: i m)
  case 0
  show ?case by (rule ext) auto
next
  case (Suc n)
  show ?case unfolding xor_tail.simps Suc.IH by (auto simp: xor_byte_def fun_eq_iff)
qed

lemma UnrolledXor_closed: "UnrolledXor n d k m =
    (\<lambda>a. if d \<le> a \<and> a < d + n then m a XOR k ! ((a - d) mod 4) else m a)"
  by (induction n) (auto simp: xor_byte_def fun_eq_iff less_Suc_eq)

lemma unmask_rounds_closed: "i mod 4 = 0 \<Longrightarrow> unmask_rounds n i d k m =
    (\<lambda>a. if d + i \<le> a \<and> a < d + i + 16 * n then m a XOR k ! ((a - d) mod 4) else m a)"
proof (induction n arbitrary: i m)
  case 0
  show ?case by (rule ext) auto
next
  case (Suc n)
  have i: "(i + 16) mod 4 = 0" using Suc.prems by (simp add: mod_add_left_eq [symmetric])
  show ?case
  proof
    fix a
    consider "a < d + i" | "d + i \<le> a" "a < d + i + 16" | "d + i + 16 \<le> a" by linarith
    then show "unmask_rounds (Suc n) i d k m a =
        (if d + i \<le> a \<and> a < d + i + 16 * Suc n then m a XOR k ! ((a - d) mod 4) else m a)"
    proof cases
      case 2
      have "4 * (i div 4) = i" using Suc.prems by auto
      then have "a - d = a - (d + i) + 4 * (i div 4)" using 2 by simp
      then have e: "(a - (d + i)) mod 4 = (a - d) mod 4" by (simp only: mod_mult_self2)
      have c: "a < d + i + 16 * Suc n \<longleftrightarrow> True" "d + (i + 16) \<le> a \<longleftrightarrow> False" "d + i \<le> a \<longleftrightarrow> True"
        "a < d + i + 16 \<longleftrightarrow> True" using 2 by simp_all
      show ?thesis by (simp only: unmask_rounds.simps Suc.IH [OF i] UnrolledXor_closed e c simp_thms if_True if_False)
    next
      case 1
      then show ?thesis by (simp add: Suc.IH [OF i] UnrolledXor_closed)
    next
      case 3
      have c: "a < d + i + 16 * Suc n \<longleftrightarrow> a < d + (i + 16) + 16 * n" "d + (i + 16) \<le> a \<longleftrightarrow> True" "d + i \<le> a \<longleftrightarrow> True"
        "a < d + i + 16 \<longleftrightarrow> False" using 3 by auto
      show ?thesis by (simp only: unmask_rounds.simps Suc.IH [OF i] UnrolledXor_closed c simp_thms if_True if_False)
    qed
  qed
qed

lemma unmaskAll_closed: "unmaskAll d k m =
    (\<lambda>a. if d \<le> a \<and> a < d + nat LIBUS_RECV_BUFFER_LENGTH then m a XOR k ! ((a - d) mod 4) else m a)"
  by (simp add: unmaskAll_def unmask_rounds_closed LIBUS_RECV_BUFFER_LENGTH_def)

subsection \<open>Masked bytes\<close>

lemma length_mask_from [simp]: "length (mask_from i k bs) = length bs"
  by (induction i k bs rule: mask_from.induct) auto

lemma nth_mask_from: "j < length bs \<Longrightarrow> mask_from i k bs ! j = bs ! j XOR k ! ((i + j) mod 4)"
  by (induction i k bs arbitrary: j rule: mask_from.induct) (auto simp: nth_Cons' split: nat.split)

lemma mask_from_append: "mask_from i k (as @ bs) = mask_from i k as @ mask_from (i + length as) k bs"
  by (induction i k as rule: mask_from.induct) auto

lemma mask_from_mask_from [simp]: "mask_from i k (mask_from i k bs) = bs"
  by (rule nth_equalityI) (auto simp: nth_mask_from xor.assoc)

text \<open>Any of the loops leaves a payload unmasked where it wrote it.\<close>

lemma load_xored:
  assumes "\<And>j. j < n \<Longrightarrow> m' (d + j) = m (s + j) XOR k ! ((i + j) mod 4)"
  shows "load m' d n = mask_from i k (load m s n)"
  using assms by (intro nth_equalityI) (auto simp: nth_mask_from)

lemma rotateMask_rotate:
  assumes "length k = 4" "i < 4"
  shows "rotateMask (4 - of_nat i) k = rotate i k"
proof -
  from assms(1) obtain a b c d where k: "k = [a, b, c, d]" by (auto simp: length_Suc_conv eval_nat_numeral)
  from assms(2) consider "i = 0" | "i = 1" | "i = 2" | "i = 3" by linarith
  then show ?thesis by cases (simp_all add: rotateMask_def k rotate_drop_take)
qed

lemma mask_from_rotate: "length k = 4 \<Longrightarrow> mask_from i (rotate n k) bs = mask_from (i + n) k bs"
  by (rule nth_equalityI) (auto simp: nth_mask_from nth_rotate add.commute add.left_commute mod_simps)


subsection \<open>Numbers in a header\<close>

fun le_nat :: "u8 list \<Rightarrow> nat" where
  "le_nat [] = 0"
| "le_nat (b # bs) = unat b + 256 * le_nat bs"

definition be_nat :: "u8 list \<Rightarrow> nat" where "be_nat bs = le_nat (rev bs)"

lemma byte_less [simp]: "unat (b :: u8) < 256"
  using unsigned_less [of b] by simp

lemma le_nat_less: "le_nat bs < 256 ^ length bs"
proof (induction bs)
  case (Cons b bs)
  have "unat b < 256" by simp
  moreover have "le_nat bs + 1 \<le> 256 ^ length bs" using Cons by simp
  ultimately have "unat b + 256 * le_nat bs < 256 * 256 ^ length bs" by linarith
  then show ?case by simp
qed simp

lemma unat_le_word:
  assumes "8 * length bs \<le> LENGTH('a::len)"
  shows "unat (le_word bs :: 'a word) = le_nat bs"
  using assms
proof (induction bs)
  case (Cons b bs)
  have w: "unat (le_word bs :: 'a word) = le_nat bs" using Cons by simp
  have "le_nat (b # bs) < 2 ^ (8 * length (b # bs))" using le_nat_less [of "b # bs"] by (simp add: power_mult power_add)
  also have "\<dots> \<le> 2 ^ LENGTH('a)" using Cons.prems by (intro power_increasing) auto
  finally have l: "unat b + 256 * le_nat bs < 2 ^ LENGTH('a)" by simp
  have "unat (ucast b :: 'a word) = unat b" using Cons.prems
    by (simp add: unsigned_ucast_eq take_bit_nat_eq_self_iff less_le_trans [OF byte_less] power_increasing [of 8 "LENGTH('a)" "2::nat", simplified])
  moreover have "unat (push_bit 8 (le_word bs) :: 'a word) = 256 * le_nat bs"
    unfolding unsigned_push_bit_eq w using l by (simp add: push_bit_nat_def take_bit_nat_eq_self)
  ultimately show ?case using l by (simp add: unat_word_ariths)
qed simp

lemma length_le_bytes [simp]: "length (le_bytes n v) = n"
  by (induction n v rule: le_bytes.induct) auto

lemma le_bytes_0: "le_bytes n (0 :: 'a::len word) = replicate n 0"
  by (induction n) simp_all

lemma le_bytes_le_word:
  assumes "8 * length bs \<le> LENGTH('a::len)"
  shows "le_bytes (length bs) (le_word bs :: 'a word) = bs"
  using assms
proof (induction bs)
  case (Cons b bs)
  let ?v = "le_word (b # bs) :: 'a word"
  have v: "unat ?v = unat b + 256 * le_nat bs" using unat_le_word [of "b # bs", where 'a = 'a] Cons.prems by simp
  have "unat (ucast ?v :: u8) = unat ?v mod 256" by (simp only: unsigned_ucast_eq take_bit_nat_def) simp
  then have "ucast ?v = b" unfolding v by (simp add: word_unat_eq_iff)
  moreover have "unat (drop_bit 8 ?v) = unat ?v div 256" 
    using unsigned_less [of ?v] unfolding unsigned_drop_bit_eq
    by (simp add: drop_bit_nat_def take_bit_nat_eq_self del: le_word.simps)
  then have "unat (drop_bit 8 ?v) = unat (le_word bs :: 'a word)" unfolding v using Cons.prems
    by (simp add: unat_le_word del: le_word.simps)
  then have "drop_bit 8 ?v = le_word bs" by (simp only: word_unat_eq_iff)
  ultimately show ?case using Cons by simp
qed simp

lemma unat_big_endian:
  assumes "8 * length bs \<le> LENGTH('a::len)"
  shows "unat (cond_byte_swap (length bs) (le_word bs :: 'a word)) = be_nat bs"
  using assms by (simp add: cond_byte_swap_def le_bytes_le_word unat_le_word be_nat_def)

end
