(* ===== verification/Uws_Reader.thy ===== *)
theory Uws_Reader imports
  "Uws_Frames_Spec"
begin

section \<open>A reader of frames that takes one byte at a time\<close>

text \<open>
  What the parser in \<open>WebSocketProtocol.h\<close> is to do for a server, said without segments, spills and unmasking in
  place: a byte either belongs to a header or is the next masked byte of a payload. \<open>frame_handler\<close>
  is what the parser asks of the class that takes the payloads; under it \<open>consume\<close> on any segment leaves
  parser and receiver in the state that the reader reaches on the bytes of the segment.
\<close>

subsection \<open>The reader\<close>

datatype phase =
    Header "u8 list"
  | Body (body_op: u8) (body_fin: bool) (body_key: "u8 list") (body_read: "u8 list") (body_left: nat)
  | Dead

record 'u reader =
  phase :: phase
  stack :: "u8 list"
  fin_seen :: bool
  receiver :: 'u

definition head_op :: "u8 list \<Rightarrow> u8" where "head_op hs = hs ! 0 AND 15"
definition head_fin :: "u8 list \<Rightarrow> bool" where "head_fin hs = bit (hs ! 0) 7"
definition head_len :: "u8 list \<Rightarrow> nat" where "head_len hs = unat (hs ! 1 AND 127)"

definition head_size :: "u8 list \<Rightarrow> nat" where
  "head_size hs = (if head_len hs < 126 then 6 else if head_len hs = 126 then 8 else 14)"

definition payload_size :: "u8 list \<Rightarrow> nat" where
  "payload_size hs = (if head_len hs < 126 then head_len hs
     else if head_len hs = 126 then be_nat (take 2 (drop 2 hs)) else be_nat (take 8 (drop 2 hs)))"

definition head_key :: "u8 list \<Rightarrow> u8 list" where "head_key hs = take 4 (drop (head_size hs - 4) hs)"

text \<open>No extension is in force, so the three reserved bits are zero.\<close>

definition head_ok :: "u8 list \<Rightarrow> bool" where
  "head_ok hs \<longleftrightarrow> hs ! 0 AND 112 = 0 \<and> head_op hs \<in> {CONTINUATION, TEXT, BINARY, CLOSE, PING, PONG}
     \<and> (head_op hs \<in> {CLOSE, PING, PONG} \<longrightarrow> head_fin hs \<and> head_len hs \<le> 125)"

definition broken_off :: "'u \<Rightarrow> 'u reader \<Rightarrow> 'u reader" where
  "broken_off u a = a\<lparr>phase := Dead, receiver := u\<rparr>"

definition progress :: "'u ws_impl \<Rightarrow> u8 \<Rightarrow> bool \<Rightarrow> u8 list \<Rightarrow> u8 list \<Rightarrow> nat \<Rightarrow> 'u reader \<Rightarrow> 'u reader" where
  "progress impl op fin key pay n a =
    (let (broken, u) = impl_handleFragment impl pay (of_nat n) op fin (receiver a) in
     if broken then broken_off u a
     else if n = 0 then a\<lparr>phase := Header [], receiver := u, stack := (if fin then tl (stack a) else stack a)\<rparr>
     else a\<lparr>phase := Body op fin key pay n\<rparr>)"

text \<open>
  A message may begin inside a fragmented one only as the source allows it: by any opcode that is not a
  text, or after a frame that was final.
\<close>

definition begin_frame :: "'u ws_impl \<Rightarrow> u8 list \<Rightarrow> 'u reader \<Rightarrow> 'u reader" where
  "begin_frame impl hs a =
    (let op = head_op hs; n = payload_size hs in
     if (op \<noteq> 0 \<and> (length (stack a) = 2 \<or> (\<not> fin_seen a \<and> op < 2))) \<or> (op = 0 \<and> stack a = [])
     then broken_off (impl_forceClose impl ERR_NONE (receiver a)) a
     else
       let a = a\<lparr>stack := (if op \<noteq> 0 then op # stack a else stack a), fin_seen := head_fin hs\<rparr> in
       if impl_refusePayloadLength impl (of_nat n) (receiver a)
       then broken_off (impl_forceClose impl ERR_TOO_BIG_MESSAGE (receiver a)) a
       else progress impl (hd (stack a)) (head_fin hs) (head_key hs) [] n a)"

definition read_header :: "'u ws_impl \<Rightarrow> u8 list \<Rightarrow> 'u reader \<Rightarrow> 'u reader" where
  "read_header impl hs a =
    (if length hs = 6 \<and> \<not> head_ok hs then broken_off (impl_forceClose impl ERR_NONE (receiver a)) a
     else if length hs \<ge> 6 \<and> length hs = head_size hs then begin_frame impl hs a
     else a\<lparr>phase := Header hs\<rparr>)"

definition read_byte :: "'u ws_impl \<Rightarrow> u8 \<Rightarrow> 'u reader \<Rightarrow> 'u reader" where
  "read_byte impl b a =
    (case phase a of
       Header hs \<Rightarrow> read_header impl (hs @ [b]) a
     | Body op fin key pay n \<Rightarrow>
         progress impl op fin key (pay @ [b XOR key ! (length pay mod 4)]) (n - 1) a
     | Dead \<Rightarrow> a)"

definition read_bytes :: "'u ws_impl \<Rightarrow> u8 list \<Rightarrow> 'u reader \<Rightarrow> 'u reader" where
  "read_bytes impl = fold (read_byte impl)"

text \<open>What the receiver has been given so far, the payload being read included.\<close>

definition shown :: "'u ws_impl \<Rightarrow> 'u reader \<Rightarrow> 'u" where
  "shown impl a = (case phase a of
       Body op fin key pay n \<Rightarrow> snd (impl_handleFragment impl pay (of_nat n) op fin (receiver a))
     | _ \<Rightarrow> receiver a)"

definition new_reader :: "'u \<Rightarrow> 'u reader" where
  "new_reader u = \<lparr>phase = Header [], stack = [], fin_seen = True, receiver = u\<rparr>"

lemma read_bytes_simps [simp]:
  "read_bytes impl [] a = a"
  "read_bytes impl (b # bs) a = read_bytes impl bs (read_byte impl b a)"
  "read_bytes impl (xs @ ys) a = read_bytes impl ys (read_bytes impl xs a)"
  by (simp_all add: read_bytes_def)

lemma read_byte_Dead [simp]: "phase a = Dead \<Longrightarrow> read_byte impl b a = a"
  by (simp add: read_byte_def)

lemma read_bytes_Dead: "phase a = Dead \<Longrightarrow> read_bytes impl bs a = a"
  by (induction bs) simp_all

lemma progress_phase [simp]: "progress impl op fin key pay n (a\<lparr>phase := p\<rparr>) = progress impl op fin key pay n a"
  by (cases a) (auto simp: progress_def broken_off_def split: prod.splits)

lemma begin_frame_phase [simp]: "begin_frame impl hs (a\<lparr>phase := p\<rparr>) = begin_frame impl hs a"
  by (cases a) (simp add: begin_frame_def Let_def broken_off_def progress_def split: prod.splits)

subsection \<open>Reading a header\<close>

lemma head_append [simp]:
  assumes "length hs \<ge> 2"
  shows "head_op (hs @ ys) = head_op hs" "head_fin (hs @ ys) = head_fin hs" "head_len (hs @ ys) = head_len hs"
    "head_size (hs @ ys) = head_size hs" "head_ok (hs @ ys) = head_ok hs"
proof -
  from assms obtain x y zs where "hs = x # y # zs" by (cases hs rule: remdups_adj.cases) auto
  then show "head_op (hs @ ys) = head_op hs" "head_fin (hs @ ys) = head_fin hs" "head_len (hs @ ys) = head_len hs"
    "head_size (hs @ ys) = head_size hs" "head_ok (hs @ ys) = head_ok hs"
    by (simp_all add: head_op_def head_fin_def head_len_def head_size_def head_ok_def)
qed

lemma header_pending:
  assumes "phase a = Header []" "length hs < 6 \<or> head_ok hs \<and> length hs < head_size hs"
  shows "read_bytes impl hs a = a\<lparr>phase := Header hs\<rparr>"
  using assms(2)
proof (induction hs rule: rev_induct)
  case Nil
  then show ?case using assms(1) by simp
next
  case (snoc b hs)
  then have "length hs < 6 \<or> head_ok hs \<and> length hs < head_size hs" by (cases "length hs < 6") auto
  with snoc have "read_bytes impl hs a = a\<lparr>phase := Header hs\<rparr>" by simp
  then show ?case using snoc.prems by (auto simp: read_byte_def read_header_def)
qed

lemma header_done:
  assumes "phase a = Header []" "head_ok hs" "length hs = head_size hs"
  shows "read_bytes impl hs a = begin_frame impl hs a"
proof -
  have "length hs \<ge> 6" using assms(3) by (simp add: head_size_def)
  then obtain gs b where hs: "hs = gs @ [b]" and g: "length gs \<ge> 5" by (cases hs rule: rev_cases) auto
  then have "read_bytes impl gs a = a\<lparr>phase := Header gs\<rparr>"
    using assms by (intro header_pending) (cases "length gs < 6"; auto)+
  then show ?thesis using assms g by (simp add: hs read_byte_def read_header_def)
qed

lemma header_bad:
  assumes "phase a = Header []" "length hs = 6" "\<not> head_ok hs"
  shows "read_bytes impl hs a = broken_off (impl_forceClose impl ERR_NONE (receiver a)) a"
proof -
  obtain gs b where hs: "hs = gs @ [b]" and g: "length gs = 5" using assms(2) by (cases hs rule: rev_cases) auto
  have "read_bytes impl gs a = a\<lparr>phase := Header gs\<rparr>" using assms g by (intro header_pending) auto
  then show ?thesis using assms g by (simp add: hs read_byte_def read_header_def broken_off_def)
qed

subsection \<open>What the parser asks of the receiver\<close>

text \<open>\<open>fits\<close>: a frame that the parser hands to the receiver, \<open>n\<close> bytes of payload in all.\<close>

definition fits :: "'u ws_impl \<Rightarrow> u8 \<Rightarrow> bool \<Rightarrow> nat \<Rightarrow> 'u \<Rightarrow> bool" where
  "fits impl op fin n u \<longleftrightarrow> n < 2 ^ 32 \<and> \<not> impl_refusePayloadLength impl (of_nat n) u
     \<and> op \<in> {TEXT, BINARY, CLOSE, PING, PONG} \<and> (op \<in> {CLOSE, PING, PONG} \<longrightarrow> fin \<and> n \<le> 125)"

text \<open>
  \<open>fresh\<close> holds between frames. The laws on fragments: a payload may be delivered in two pieces, and what
  breaks on the first piece breaks on the whole; only what is visible afterwards (\<open>view\<close>) has to agree then.
\<close>

locale frame_handler =
  fixes impl :: "'u ws_impl" and view :: "'u \<Rightarrow> 'v" and dead :: "'u \<Rightarrow> bool" and fresh :: "'u \<Rightarrow> bool"
  assumes no_compression: "fresh u \<Longrightarrow> impl_setCompressed impl u = (False, u)"
    and close_kills: "fresh u \<Longrightarrow> dead (impl_forceClose impl err u)"
    and refuse_long: "fresh u \<Longrightarrow> v \<ge> 2 ^ 32 \<Longrightarrow> impl_refusePayloadLength impl v u"
    and fresh_alive: "fresh u \<Longrightarrow> \<not> dead u"
    and dead_view: "view u = view u' \<Longrightarrow> dead u = dead u'"
    and broken_dead: "fresh u \<Longrightarrow> fits impl op fin (length d + n) u \<Longrightarrow>
      impl_handleFragment impl d (of_nat n) op fin u = (b, u') \<Longrightarrow> dead u' = b"
    and whole_fresh: "fresh u \<Longrightarrow> fits impl op fin (length d) u \<Longrightarrow>
      impl_handleFragment impl d 0 op fin u = (False, u') \<Longrightarrow> fresh u'"
    and break_early: "fresh u \<Longrightarrow> fits impl op fin (length d + length e + n) u \<Longrightarrow> e \<noteq> [] \<Longrightarrow>
      impl_handleFragment impl d (of_nat (length e + n)) op fin u = (True, u') \<Longrightarrow>
      \<exists>u''. impl_handleFragment impl (d @ e) (of_nat n) op fin u = (True, u'') \<and> view u'' = view u'"
    and in_two: "fresh u \<Longrightarrow> fits impl op fin (length d + length e + n) u \<Longrightarrow> e \<noteq> [] \<Longrightarrow>
      impl_handleFragment impl d (of_nat (length e + n)) op fin u = (False, u') \<Longrightarrow>
      impl_handleFragment impl e (of_nat n) op fin u' = (b, w) \<Longrightarrow>
      \<exists>w'. impl_handleFragment impl (d @ e) (of_nat n) op fin u = (b, w') \<and> view w' = view w \<and> (b \<or> w' = w)"
begin

text \<open>Two readers agree when they are equal, or both broken off with the same visible receiver.\<close>

definition agree :: "'u reader \<Rightarrow> 'u reader \<Rightarrow> bool" where
  "agree a b \<longleftrightarrow> a = b \<or> phase a = Dead \<and> phase b = Dead \<and> view (receiver a) = view (receiver b)"

lemma agree_refl [simp]: "agree a a"
  by (simp add: agree_def)

lemma agree_sym: "agree a b \<Longrightarrow> agree b a"
  by (auto simp: agree_def)

lemma agree_trans: "agree a b \<Longrightarrow> agree b c \<Longrightarrow> agree a c"
  by (auto simp: agree_def)

lemma agree_read: "agree a b \<Longrightarrow> agree (read_bytes impl bs a) (read_bytes impl bs b)"
  by (auto simp: agree_def read_bytes_Dead)

text \<open>The bytes of a payload one at a time amount to delivering them together.\<close>

lemma read_payload:
  assumes "fresh (receiver a)" "fits impl op fin (length pay + n) (receiver a)" "length ys \<le> n"
  shows "agree (read_bytes impl ys (progress impl op fin key pay n a))
    (progress impl op fin key (pay @ mask_from (length pay) key ys) (n - length ys) a)"
  using assms(2,3)
proof (induction ys arbitrary: pay n)
  case Nil
  then show ?case by simp
next
  case (Cons y ys)
  let ?y = "y XOR key ! (length pay mod 4)"
  let ?h = "impl_handleFragment impl"
  obtain b u where h: "?h pay (of_nat n) op fin (receiver a) = (b, u)" by fastforce
  have n: "n > 0" "n = Suc (n - 1)" using Cons.prems by auto
  have IH: "agree (read_bytes impl ys (progress impl op fin key (pay @ [?y]) (n - 1) a))
    (progress impl op fin key ((pay @ [?y]) @ mask_from (length (pay @ [?y])) key ys) (n - 1 - length ys) a)"
    using Cons.prems n by (intro Cons.IH) auto
  show ?case
  proof (cases b)
    case False
    then have "progress impl op fin key pay n a = a\<lparr>phase := Body op fin key pay n\<rparr>"
      using h n by (simp add: progress_def)
    moreover have "read_byte impl y (a\<lparr>phase := Body op fin key pay n\<rparr>)
        = progress impl op fin key (pay @ [?y]) (n - 1) (a\<lparr>phase := Body op fin key pay n\<rparr>)"
      by (simp add: read_byte_def)
    ultimately show ?thesis using IH by simp
  next
    case True
    let ?e = "mask_from (length pay) key (y # ys)" and ?m = "n - length (y # ys)"
    have k: "length ?e + ?m = n" using Cons.prems by simp
    obtain u'' where "?h (pay @ ?e) (of_nat ?m) op fin (receiver a) = (True, u'')" "view u'' = view u"
      using break_early [of "receiver a" op fin pay ?e ?m u] assms(1) Cons.prems h True unfolding add.assoc k by auto
    then show ?thesis using h True by (auto simp: progress_def broken_off_def agree_def read_bytes_Dead)
  qed
qed

end

end
