(* ===== verification/Uws_Reading.thy ===== *)
theory Uws_Reading imports
  Uws_Reader
begin

section \<open>The parser of frames refines the reader\<close>

subsection \<open>The tests of a header\<close>

lemma reserved_bits: "(x :: u8) AND 112 = 0 \<longleftrightarrow> x AND 64 = 0 \<and> x AND 48 = 0"
proof -
  have "x AND 112 = (x AND 64) OR (x AND 48)" by (simp flip: bit.conj_disj_distrib)
  then show ?thesis by (auto simp: bit_eq_iff bit_or_iff)
qed

lemma opcode_range:
  fixes op :: u8
  assumes "op \<le> 15"
  shows "(op > 2 \<and> op < 8) \<or> op > 10 \<longleftrightarrow> op \<notin> {CONTINUATION, TEXT, BINARY, CLOSE, PING, PONG}"
    "op \<in> {CONTINUATION, TEXT, BINARY, CLOSE, PING, PONG} \<Longrightarrow> op > 2 \<longleftrightarrow> op \<in> {CLOSE, PING, PONG}"
  using assms by (auto simp: CONTINUATION_def TEXT_def BINARY_def CLOSE_def PING_def PONG_def
      word_less_nat_alt word_le_nat_alt word_unat_eq_iff)

lemma and_le: "(x :: u8) AND 15 \<le> 15"
  by (rule word_and_le1)

lemma isFin_bit: "isFin m a = bit (m a) 7"
  unfolding isFin_def using and_exp_eq_0_iff_not_bit [of "m a" 7] by simp

context frame_handler begin

lemma refused_head:
  assumes "fresh (user r)" "len r \<ge> 6"
  shows "refused impl r = (\<not> head_ok (load (mem r) (src r) (unat (len r))), r)"
proof -
  have n: "unat (len r) \<ge> 6" using assms(2) by (simp add: word_le_nat_alt)
  let ?hs = "load (mem r) (src r) (unat (len r))"
  have h: "?hs ! 0 = mem r (src r)" "?hs ! 1 = mem r (src r + 1)" using n by simp_all
  let ?x = "mem r (src r)"
  have op: "getOpCode (mem r) (src r) = head_op ?hs" by (simp add: getOpCode_def head_op_def h)
  have f: "isFin (mem r) (src r) = head_fin ?hs" unfolding isFin_bit head_fin_def h ..
  have l: "(payloadLength (mem r) (src r) > 125) = (head_len ?hs > 125)"
    unfolding head_len_def h payloadLength_def by (simp add: word_less_nat_alt)
  have le: "head_op ?hs \<le> 15" unfolding head_op_def by (rule and_le)
  have z: "rsv1 (mem r) (src r) = (?x AND 64 \<noteq> 0)" "rsv23 (mem r) (src r) = (?x AND 48 \<noteq> 0)"
    by (simp_all add: rsv1_def rsv23_def)
  have "head_ok ?hs \<longleftrightarrow> \<not> rsv1 (mem r) (src r) \<and> \<not> rsv23 (mem r) (src r)
     \<and> \<not> (head_op ?hs > 2 \<and> head_op ?hs < 8 \<or> head_op ?hs > 10)
     \<and> \<not> (head_op ?hs > 2 \<and> (\<not> head_fin ?hs \<or> head_len ?hs > 125))"
    unfolding head_ok_def h reserved_bits z not_less [symmetric]
    using opcode_range [OF le] by blast
  then show ?thesis
    unfolding refused_def Let_def op f l using assms(1) by (auto simp: no_compression split: prod.splits)
qed

end

lemma announced_head:
  assumes "len r \<ge> 6"
  defines "hs \<equiv> load (mem r) (src r) (unat (len r))"
  shows "announced True r = (if head_size hs \<le> length hs then Some (of_nat (head_size hs), of_nat (payload_size hs)) else None)"
    "payload_size hs < 2 ^ 64"
proof -
  have n: "unat (len r) \<ge> 6" using assms(1) by (simp add: word_le_nat_alt)
  have p: "payloadLength (mem r) (src r) = hs ! 1 AND 127" using n by (simp add: payloadLength_def hs_def)
  have be: "be_nat bs < 256 ^ length bs" for bs using le_nat_less [of "rev bs"] by (simp add: be_nat_def)
  show "payload_size hs < 2 ^ 64"
    using less_le_trans [OF be power_increasing [of "length (take 2 (drop 2 hs))" 8 "256::nat"]]
      less_le_trans [OF be power_increasing [of "length (take 8 (drop 2 hs))" 8 "256::nat"]]
    by (auto simp: payload_size_def head_len_def)
  show "announced True r = (if head_size hs \<le> length hs then Some (of_nat (head_size hs), of_nat (payload_size hs)) else None)"
  proof -
    consider (s) "head_len hs < 126" | (m) "head_len hs = 126" | (l) "head_len hs > 126" by linarith
    then show ?thesis
    proof cases
      case s
      then show ?thesis using n unfolding announced_def p head_size_def payload_size_def SHORT_MESSAGE_HEADER_def
        by (simp add: head_len_def word_less_nat_alt hs_def word_unat_eq_iff unsigned_ucast_eq)
    next
      case m
      then have w: "hs ! 1 AND 127 = 126" by (simp add: head_len_def word_unat_eq_iff)
      have "ucast (cond_byte_swap 2 (bit_cast (mem r) (src r + 2) 2) :: u16) = (of_nat (be_nat (take 2 (drop 2 hs))) :: u64)"
        if k: "unat (len r) \<ge> 8"
        using unat_big_endian [of "take 2 (drop 2 hs)", where 'a = 16] k
        by (simp add: bit_cast_def hs_def) (metis of_nat_unat)
      then show ?thesis using m w unfolding announced_def p head_size_def payload_size_def MEDIUM_MESSAGE_HEADER_def
        by (auto simp: word_less_nat_alt hs_def)
    next
      case l
      then have w: "\<not> hs ! 1 AND 127 < 126" "hs ! 1 AND 127 \<noteq> 126" by (auto simp: head_len_def word_less_nat_alt)
      have "cond_byte_swap 8 (bit_cast (mem r) (src r + 2) 8) = (of_nat (be_nat (take 8 (drop 2 hs))) :: u64)"
        if k: "unat (len r) \<ge> 14"
        using unat_big_endian [of "take 8 (drop 2 hs)", where 'a = 64] k
        by (simp add: bit_cast_def hs_def) (metis of_nat_unat ucast_id)
      then show ?thesis using l w unfolding announced_def p head_size_def payload_size_def LONG_MESSAGE_HEADER_def
        by (auto simp: word_less_nat_alt hs_def)
    qed
  qed
qed


subsection \<open>How the state between segments mirrors the reader\<close>

definition stack_of :: "ws_state \<Rightarrow> u8 list" where
  "stack_of st = map (\<lambda>i. opCode st ! i) (rev [0 ..< unat (opStack st + 1)])"

definition keeps :: "ws_state \<Rightarrow> 'u reader \<Rightarrow> bool" where
  "keeps st a \<longleftrightarrow> length (opCode st) = 2 \<and> length (spill st) = 13 \<and> length (mask_bytes st) = 4
     \<and> unat (opStack st + 1) \<le> 2 \<and> stack a = stack_of st \<and> fin_seen a = lastFin st"

text \<open>The signed bit field of two bits only takes the values -1, 0 and 1.\<close>

lemma two_bits:
  assumes "unat ((v :: 2 word) + 1) \<le> 2"
  obtains "v = - 1" | "v = 0" | "v = 1"
proof -
  have v: "v = of_nat (unat (v + 1)) - 1" by simp
  from assms consider "unat (v + 1) = 0" | "unat (v + 1) = 1" | "unat (v + 1) = 2" by linarith
  then have "v = of_nat 0 - 1 \<or> v = of_nat 1 - 1 \<or> v = of_nat 2 - 1" by cases (use v in \<open>simp_all only: disj_ac simp_thms\<close>)
  then show thesis using that by auto
qed

lemma stack_of_cases:
  "opStack st = - 1 \<Longrightarrow> stack_of st = []"
  "opStack st = 0 \<Longrightarrow> stack_of st = [opCode st ! 0]"
  "opStack st = 1 \<Longrightarrow> stack_of st = [opCode st ! 1, opCode st ! 0]"
  by (simp_all add: stack_of_def upt_rec)

lemma stack_length: "keeps st a \<Longrightarrow> length (stack a) = unat (opStack st + 1)"
  by (simp add: keeps_def stack_of_def)

lemma opened_keeps:
  assumes "keeps st a"
  shows "opened op st = None \<longleftrightarrow> (op \<noteq> 0 \<and> (length (stack a) = 2 \<or> (\<not> fin_seen a \<and> op < 2))) \<or> (op = 0 \<and> stack a = [])"
    "opened op st = Some st' \<Longrightarrow> keeps (st'\<lparr>lastFin := f\<rparr>) (a\<lparr>stack := (if op \<noteq> 0 then op # stack a else stack a), fin_seen := f\<rparr>)"
proof -
  have u: "unat (opStack st + 1) \<le> 2" using assms by (simp add: keeps_def)
  show "opened op st = None \<longleftrightarrow> (op \<noteq> 0 \<and> (length (stack a) = 2 \<or> (\<not> fin_seen a \<and> op < 2))) \<or> (op = 0 \<and> stack a = [])"
    using u by (cases rule: two_bits) (use assms in \<open>simp_all add: opened_def keeps_def stack_of_cases\<close>)
  have o: "length (opCode st) = 2" using assms by (simp add: keeps_def)
  show "opened op st = Some st' \<Longrightarrow> keeps (st'\<lparr>lastFin := f\<rparr>) (a\<lparr>stack := (if op \<noteq> 0 then op # stack a else stack a), fin_seen := f\<rparr>)"
    using u by (cases rule: two_bits)
      (use assms o in \<open>auto simp: opened_def keeps_def stack_of_cases split: if_splits\<close>)
qed

lemma pop_keeps:
  assumes "keeps st a" "stack a \<noteq> []"
  shows "keeps (st\<lparr>opStack := opStack st - 1\<rparr>) (a\<lparr>stack := tl (stack a)\<rparr>)" "opCode st ! unat (opStack st) = hd (stack a)"
proof -
  have u: "unat (opStack st + 1) \<le> 2" using assms by (simp add: keeps_def)
  show "keeps (st\<lparr>opStack := opStack st - 1\<rparr>) (a\<lparr>stack := tl (stack a)\<rparr>)"
    using u by (cases rule: two_bits) (use assms in \<open>simp_all add: keeps_def stack_of_cases\<close>)
  show "opCode st ! unat (opStack st) = hd (stack a)"
    using u by (cases rule: two_bits) (use assms in \<open>simp_all add: keeps_def stack_of_cases\<close>)
qed


subsection \<open>Unmasking a payload over its own header\<close>

lemma unat_quads: "n < 2 ^ 32 \<Longrightarrow> unat (drop_bit 2 (of_nat n :: u32) + 1) = n div 4 + 1"
proof -
  assume n: "n < 2 ^ 32"
  then have "unat (drop_bit 2 (of_nat n :: u32)) = n div 4"
    by (simp add: unsigned_drop_bit_eq unsigned_of_nat drop_bit_nat_def take_bit_nat_eq_self)
  moreover have "n div 4 + 1 < 2 ^ 32" using n by simp
  ultimately show ?thesis by (simp add: unat_word_ariths)
qed

lemma unmaskImprecise_closed:
  assumes "d \<le> s" "n < 2 ^ 32"
  shows "unmaskImprecise d s k (of_nat n) m =
    (\<lambda>a. if d \<le> a \<and> a < d + 4 * (n div 4 + 1) then m (s + (a - d)) XOR k ! ((a - d) mod 4) else m a)"
  unfolding unmaskImprecise_def unat_quads [OF assms(2)] by (rule xor_quads_closed [OF assms(1)])

lemma unmaskImprecise_load:
  assumes "d \<le> s" "n < 2 ^ 32"
  shows "load (unmaskImprecise d s k (of_nat n) m) d n = mask_from 0 k (load m s n)"
    "x < d \<or> x \<ge> d + 4 * (n div 4 + 1) \<Longrightarrow> unmaskImprecise d s k (of_nat n) m x = m x"
proof -
  have "j < 4 * (n div 4 + 1)" if "j < n" for j using that by simp
  then show "load (unmaskImprecise d s k (of_nat n) m) d n = mask_from 0 k (load m s n)"
    by (intro load_xored) (simp add: unmaskImprecise_closed [OF assms])
  show "x < d \<or> x \<ge> d + 4 * (n div 4 + 1) \<Longrightarrow> unmaskImprecise d s k (of_nat n) m x = m x"
    by (auto simp: unmaskImprecise_closed [OF assms])
qed

subsection \<open>Lengths\<close>

lemma message_lengths:
  fixes l :: u32 and p H :: nat
  assumes "p < 2 ^ 32" "H \<le> 14"
  defines "whole \<equiv> (of_nat p :: u64) + ucast (of_nat H :: u32)"
  shows "unat whole = p + H" "whole \<le> ucast l \<longleftrightarrow> p + H \<le> unat l"
    "p + H \<le> unat l \<Longrightarrow> unat (l - ucast whole) = unat l - (p + H)"
    "H \<le> unat l \<Longrightarrow> \<not> p + H \<le> unat l \<Longrightarrow>
      ucast ((of_nat p :: u64) - ucast l + ucast (of_nat H :: u32)) = (of_nat (p + H - unat l) :: u32)"
    "H \<le> unat l \<Longrightarrow> l - of_nat H = of_nat (unat l - H)"
proof -
  have H: "ucast (of_nat H :: u32) = (of_nat H :: u64)"
    using assms(2) by (simp add: word_unat_eq_iff unsigned_ucast_eq unat_of_nat take_bit_nat_eq_self)
  have w: "whole = of_nat (p + H)" by (simp add: whole_def H)
  show u: "unat whole = p + H" unfolding w using assms(1,2) by (simp add: unat_of_nat del: of_nat_add)
  have l: "unat (ucast l :: u64) = unat l"
    using unsigned_less [of l, where 'a = nat] by (simp add: unsigned_ucast_eq take_bit_nat_eq_self)
  show "whole \<le> ucast l \<longleftrightarrow> p + H \<le> unat l" by (simp add: word_le_nat_alt u l)
  show "unat (l - ucast whole) = unat l - (p + H)" if k: "p + H \<le> unat l"
  proof -
    have e: "unat (ucast whole :: u32) = p + H"
      using k unsigned_less [of l, where 'a = nat] by (simp add: unsigned_ucast_eq u take_bit_nat_eq_self)
    show ?thesis by (subst unat_sub) (simp_all add: word_le_nat_alt e k)
  qed
  show "ucast ((of_nat p :: u64) - ucast l + ucast (of_nat H :: u32)) = (of_nat (p + H - unat l) :: u32)"
    if k: "H \<le> unat l" "\<not> p + H \<le> unat l"
  proof -
    have "(ucast l :: u64) = of_nat (unat l)" by simp
    then have "(of_nat p :: u64) - ucast l + ucast (of_nat H :: u32) = of_nat p + of_nat H - of_nat (unat l)" by (simp add: H)
    also have "\<dots> = of_nat (p + H - unat l)" using k by (simp add: of_nat_diff)
    finally show ?thesis by (simp add: word_unat_eq_iff unsigned_ucast_eq unat_of_nat take_bit_nat_def mod_mod_cancel)
  qed
  show "l - of_nat H = of_nat (unat l - H)" if "H \<le> unat l"
    using that by (simp add: of_nat_diff)
qed

lemma take_head:
  assumes "head_size xs \<le> length xs"
  shows "head_op (take (head_size xs) xs) = head_op xs" "head_fin (take (head_size xs) xs) = head_fin xs"
    "head_size (take (head_size xs) xs) = head_size xs" "head_ok (take (head_size xs) xs) = head_ok xs"
    "head_key (take (head_size xs) xs) = head_key xs" "payload_size (take (head_size xs) xs) = payload_size xs"
proof -
  have h: "head_size xs \<ge> 6" by (simp add: head_size_def)
  then have l: "length (take (head_size xs) xs) \<ge> 2" using assms by simp
  have e: "xs = take (head_size xs) xs @ drop (head_size xs) xs" by simp
  show a: "head_op (take (head_size xs) xs) = head_op xs" "head_fin (take (head_size xs) xs) = head_fin xs"
    "head_size (take (head_size xs) xs) = head_size xs" "head_ok (take (head_size xs) xs) = head_ok xs"
    using head_append [OF l, of "drop (head_size xs) xs"] by simp_all
  have n: "head_len (take (head_size xs) xs) = head_len xs"
    using head_append(3) [OF l, of "drop (head_size xs) xs"] by simp
  show "head_key (take (head_size xs) xs) = head_key xs" using h by (simp add: head_key_def a drop_take)
  show "payload_size (take (head_size xs) xs) = payload_size xs"
    by (simp add: payload_size_def n drop_take) (simp add: head_size_def)
qed

subsection \<open>One frame\<close>

context frame_handler begin

definition at_head :: "ws_state \<Rightarrow> 'u \<Rightarrow> 'u reader \<Rightarrow> bool" where
  "at_head st u a \<longleftrightarrow> keeps st a \<and> set (stack a) \<subseteq> {TEXT, BINARY} \<and> fresh u \<and> receiver a = u \<and> wantsHead st"

definition in_body :: "ws_state \<Rightarrow> 'u \<Rightarrow> 'u reader \<Rightarrow> u8 \<Rightarrow> bool \<Rightarrow> u8 list \<Rightarrow> u8 list \<Rightarrow> nat \<Rightarrow> bool" where
  "in_body st u a op fin key pay n \<longleftrightarrow> keeps st a \<and> \<not> wantsHead st \<and> spillLength st = 0
     \<and> remainingBytes st = of_nat n \<and> 0 < n \<and> length key = 4 \<and> mask_bytes st = rotate (length pay mod 4) key
     \<and> stack a \<noteq> [] \<and> op = hd (stack a) \<and> set (tl (stack a)) \<subseteq> {TEXT, BINARY}
     \<and> (op \<notin> {TEXT, BINARY} \<longrightarrow> fin) \<and> fin = lastFin st
     \<and> fresh (receiver a) \<and> fits impl op fin (length pay + n) (receiver a)
     \<and> impl_handleFragment impl pay (of_nat n) op fin (receiver a) = (False, u)"

definition mirrors :: "ws_state \<Rightarrow> 'u \<Rightarrow> 'u reader \<Rightarrow> bool" where
  "mirrors st u a = (case phase a of
     Header hs \<Rightarrow> at_head st u a \<and> hs = take (unat (spillLength st)) (spill st) \<and> unat (spillLength st) \<le> 13
       \<and> (length hs < 6 \<or> head_ok hs \<and> length hs < head_size hs)
   | Body op fin key pay n \<Rightarrow> in_body st u a op fin key pay n
   | Dead \<Rightarrow> dead u \<and> view u = view (receiver a))"

lemma mirrors_agree: "agree a b \<Longrightarrow> mirrors st u a \<Longrightarrow> mirrors st u b"
  by (auto simp: agree_def mirrors_def)

lemma mirrors_broken: "dead u \<Longrightarrow> view u = view v \<Longrightarrow> mirrors st u (broken_off v a)"
  by (simp add: mirrors_def broken_off_def)

text \<open>The reader after an accepted opcode.\<close>

definition pushed :: "u8 list \<Rightarrow> 'u reader \<Rightarrow> 'u reader" where
  "pushed hs a = a\<lparr>stack := (if head_op hs \<noteq> 0 then head_op hs # stack a else stack a), fin_seen := head_fin hs\<rparr>"

lemma begin_frame_pushed:
  assumes "keeps st a"
  shows "begin_frame impl hs a =
    (if opened (head_op hs) st = None then broken_off (impl_forceClose impl ERR_NONE (receiver a)) a
     else if impl_refusePayloadLength impl (of_nat (payload_size hs)) (receiver a)
     then broken_off (impl_forceClose impl ERR_TOO_BIG_MESSAGE (receiver a)) (pushed hs a)
     else progress impl (hd (stack (pushed hs a))) (head_fin hs) (head_key hs) [] (payload_size hs) (pushed hs a))"
  unfolding begin_frame_def opened_keeps(1) [OF assms] by (auto simp: Let_def pushed_def)

lemma pushed_frame:
  assumes "at_head st u a" "head_ok hs" "opened (head_op hs) st = Some st'"
    "\<not> impl_refusePayloadLength impl (of_nat (payload_size hs)) u"
    "payload_size hs < 2 ^ 64"
  shows "stack (pushed hs a) \<noteq> []" "set (tl (stack (pushed hs a))) \<subseteq> {TEXT, BINARY}"
    "hd (stack (pushed hs a)) \<notin> {TEXT, BINARY} \<longrightarrow> head_fin hs"
    "fits impl (hd (stack (pushed hs a))) (head_fin hs) (payload_size hs) u"
    "set (if head_fin hs then tl (stack (pushed hs a)) else stack (pushed hs a)) \<subseteq> {TEXT, BINARY}"
proof -
  have k: "keeps st a" and f: "fresh u" and t: "set (stack a) \<subseteq> {TEXT, BINARY}"
    using assms(1) by (auto simp: at_head_def)
  have n: "\<not> (head_op hs = 0 \<and> stack a = [])" using opened_keeps(1) [OF k, of "head_op hs"] assms(3) by auto
  then show s: "stack (pushed hs a) \<noteq> []" "set (tl (stack (pushed hs a))) \<subseteq> {TEXT, BINARY}"
    using t by (auto simp: pushed_def dest: list.set_sel(2))
  have top: "hd (stack (pushed hs a)) = (if head_op hs \<noteq> 0 then head_op hs else hd (stack a))"
    by (simp add: pushed_def)
  have a: "stack a \<noteq> [] \<Longrightarrow> hd (stack a) \<in> {TEXT, BINARY}" using t by (cases "stack a") auto
  have ops: "head_op hs \<in> {CONTINUATION, TEXT, BINARY, CLOSE, PING, PONG}" using assms(2) by (simp add: head_ok_def)
  show c: "hd (stack (pushed hs a)) \<notin> {TEXT, BINARY} \<longrightarrow> head_fin hs"
    using a n ops assms(2) by (auto simp: top head_ok_def CONTINUATION_def)
  have l: "payload_size hs < 2 ^ 32"
  proof (rule ccontr)
    assume "\<not> payload_size hs < 2 ^ 32"
    then have "(of_nat (payload_size hs) :: u64) \<ge> 2 ^ 32"
      using assms(5) by (simp add: word_le_nat_alt unat_of_nat)
    with refuse_long [OF f] assms(4) show False by blast
  qed
  have z: "hd (stack (pushed hs a)) \<in> {CLOSE, PING, PONG} \<Longrightarrow> payload_size hs \<le> 125 \<and> head_fin hs"
    using a n assms(2) by (auto simp: top head_ok_def payload_size_def TEXT_def BINARY_def CLOSE_def PING_def PONG_def split: if_splits)
  show "fits impl (hd (stack (pushed hs a))) (head_fin hs) (payload_size hs) u"
    using l assms(4) z a n ops by (auto simp: fits_def top CONTINUATION_def split: if_splits)
  show "set (if head_fin hs then tl (stack (pushed hs a)) else stack (pushed hs a)) \<subseteq> {TEXT, BINARY}"
    using s c by (cases "stack (pushed hs a)") auto
qed


text \<open>A frame that lies in the segment as a whole.\<close>

lemma whole_frame:
  fixes r :: "'u ws_run" and a :: "'u reader"
  defines "xs \<equiv> load (mem r) (src r) (unat (len r))"
  defines "H \<equiv> head_size xs" and "p \<equiv> payload_size xs" and "q \<equiv> pushed xs a"
  assumes h: "at_head (wState r) (user r) a" and ok: "head_ok xs" and op: "opened (head_op xs) (wState r) = Some st'"
    and ref: "\<not> impl_refusePayloadLength impl (of_nat p) (user r)" and p: "p < 2 ^ 64" and size: "p + H \<le> length xs"
    and hf: "impl_handleFragment impl (mask_from 0 (head_key xs) (take p (drop H xs))) 0 (hd (stack q)) (head_fin xs) (user r) = (b, u)"
  obtains r' where "consumeMessage True impl (of_nat H) (of_nat p) r = (b, r')" "user r' = u"
    "\<not> b \<Longrightarrow> at_head (wState r') u (q\<lparr>phase := Header [], receiver := u, stack := (if head_fin xs then tl (stack q) else stack q)\<rparr>)
       \<and> spillLength (wState r') = 0 \<and> load (mem r') (src r') (unat (len r')) = drop (p + H) xs
       \<and> unat (len r') = length xs - (p + H)"
proof -
  have k: "keeps (wState r) a" and f: "fresh (user r)" and w: "wantsHead (wState r)" using h by (auto simp: at_head_def)
  note fr = pushed_frame [OF h ok op ref [unfolded p_def] p [unfolded p_def], folded p_def q_def]
  have p32: "p < 2 ^ 32" using fr(4) by (simp add: fits_def)
  have H: "H \<le> 14" "H \<ge> 6" by (simp_all add: H_def head_size_def)
  note ls = message_lengths [OF p32 H(1)]
  have size': "p + H \<le> unat (len r)" using size by (simp add: xs_def)
  define s where "s = src r + H"
  define m where "m = unmaskImpreciseCopyMask s (of_nat p) (mem r)"
  have hk: "head_key xs = take 4 (drop (H - 4) xs)" by (simp add: head_key_def H_def)
  have key: "load (mem r) (s - 4) 4 = head_key xs" unfolding hk using H size' by (simp add: s_def xs_def)
  have le: "s - 4 \<le> s" by simp
  have data: "load (mem r) s p = take p (drop H xs)" using size' by (simp add: s_def xs_def)
  have pay: "load m (s - 4) p = mask_from 0 (head_key xs) (take p (drop H xs))"
    unfolding m_def unmaskImpreciseCopyMask_def key unmaskImprecise_load(1) [OF le p32] data ..
  have out: "m x = mem r x" if "x < s - 4 \<or> x \<ge> s + p" for x
    unfolding m_def unmaskImpreciseCopyMask_def using that H(2)
    by (intro unmaskImprecise_load(2) [OF le p32]) (auto simp: s_def)
  have m0: "m (src r) = mem r (src r)" using H by (intro out) (simp add: s_def)
  have x0: "xs ! 0 = mem r (src r)" using size' H by (simp add: xs_def)
  have opc: "getOpCode (mem r) (src r) = head_op xs" by (simp add: getOpCode_def head_op_def x0)
  have fin: "isFin (mem r) (src r) = head_fin xs" "isFin m (src r) = head_fin xs"
    by (simp_all add: isFin_bit head_fin_def x0 m0)
  define st where "st = st'\<lparr>lastFin := head_fin xs\<rparr>"
  have kq: "keeps st q" using opened_keeps(2) [OF k op, of "head_fin xs"] by (simp add: st_def q_def pushed_def)
  have top: "opCode st ! unat (opStack st) = hd (stack q)" by (rule pop_keeps(2) [OF kq fr(1)])
  define r' where "r' = r\<lparr>mem := m, user := u, wState := st\<rparr>"
  define r'' where "r'' = r'\<lparr>src := src r + (p + H), len := len r - ucast (of_nat p + ucast (of_nat H :: u32) :: u64),
      wState := (if head_fin xs then st\<lparr>opStack := opStack st - 1\<rparr> else st)\<lparr>spillLength := 0\<rparr>\<rparr>"
  have ucp: "ucast (of_nat p :: u64) = (of_nat p :: u32)" 
    by (simp add: word_unat_eq_iff unsigned_ucast_eq unat_of_nat take_bit_nat_def mod_mod_cancel)
  have sH: "src r + unat (of_nat H :: u32) = s" "unat (of_nat p :: u64) = p"
    using H p32 by (simp_all add: s_def unat_of_nat)
  have c: "consumeMessage True impl (of_nat H) (of_nat p) r = (b, if b then r' else r'')"
    using ref size' ls(1,2) hf
    by (simp add: consumeMessage_def opc op fin(1) Let_def sH ucp handle_def m_def [symmetric] pay st_def [symmetric] top fin(2) r'_def r''_def)
  show thesis
  proof (rule that [OF c], goal_cases)
    case 1
    show ?case by (simp add: r'_def r''_def)
  next
    case 2
    have st': "keeps ((if head_fin xs then st\<lparr>opStack := opStack st - 1\<rparr> else st)\<lparr>spillLength := 0\<rparr>)
      (q\<lparr>phase := Header [], receiver := u, stack := (if head_fin xs then tl (stack q) else stack q)\<rparr>)"
      using kq pop_keeps(1) [OF kq fr(1)] by (simp add: keeps_def stack_of_def)
    have w': "wantsHead st" using op w by (auto simp: st_def opened_def split: if_splits)
    have "length (mask_from 0 (head_key xs) (take p (drop H xs))) = p" using size by simp
    then have fu: "fresh u" using whole_fresh [OF f] hf 2 fr(4) by (metis (full_types))
    have "load m (src r + (p + H)) (unat (len r) - (p + H)) = load (mem r) (src r + (p + H)) (unat (len r) - (p + H))"
      by (intro load_cong out) (simp add: s_def)
    then show ?case using 2 st' fr(5) w' fu ls(3) size'
      by (simp add: r''_def r'_def at_head_def xs_def)
  qed
qed


text \<open>A frame that the segment cuts short.\<close>

lemma cut_frame:
  fixes r :: "'u ws_run" and a :: "'u reader"
  defines "xs \<equiv> load (mem r) (src r) (unat (len r))"
  defines "H \<equiv> head_size xs" and "p \<equiv> payload_size xs" and "q \<equiv> pushed xs a"
  assumes h: "at_head (wState r) (user r) a" and ok: "head_ok xs" and op: "opened (head_op xs) (wState r) = Some st'"
    and ref: "\<not> impl_refusePayloadLength impl (of_nat p) (user r)" and p: "p < 2 ^ 64"
    and size: "H \<le> length xs" "\<not> p + H \<le> length xs"
  obtains r' where "consumeMessage True impl (of_nat H) (of_nat p) r = (True, r')"
    "mirrors (wState r') (user r')
       (progress impl (hd (stack q)) (head_fin xs) (head_key xs) (mask_from 0 (head_key xs) (drop H xs)) (p - (length xs - H)) q)"
proof -
  have k: "keeps (wState r) a" and f: "fresh (user r)" and rc: "receiver a = user r" using h by (auto simp: at_head_def)
  note fr = pushed_frame [OF h ok op ref [unfolded p_def] p [unfolded p_def], folded p_def q_def]
  have p32: "p < 2 ^ 32" using fr(4) by (simp add: fits_def)
  have H: "H \<le> 14" "H \<ge> 6" by (simp_all add: H_def head_size_def)
  note ls = message_lengths [OF p32 H(1)]
  have size': "H \<le> unat (len r)" "\<not> p + H \<le> unat (len r)" using size by (simp_all add: xs_def)
  define n where "n = unat (len r) - H"
  define rest where "rest = p + H - unat (len r)"
  have n: "n < 2 ^ 32" "len r - of_nat H = of_nat n" "n \<le> p" "n + rest = p" "0 < rest"
    using size' ls(5) [OF size'(1)] p32 unsigned_less [of "len r", where 'a = nat] by (simp_all add: n_def rest_def)
  define s where "s = src r + H"
  define m where "m = unmaskImprecise (src r) s (head_key xs) (of_nat n) (mem r)"
  have hk: "head_key xs = take 4 (drop (H - 4) xs)" by (simp add: head_key_def H_def)
  have key: "load (mem r) (s - 4) 4 = head_key xs" unfolding hk using H size' by (simp add: s_def xs_def)
  have lk: "length (head_key xs) = 4" using arg_cong [OF key, of length] by simp
  have data: "load (mem r) s n = drop H xs" by (simp add: s_def xs_def n_def)
  have pay: "load m (src r) n = mask_from 0 (head_key xs) (drop H xs)"
    unfolding m_def by (subst unmaskImprecise_load(1) [OF _ n(1)]) (simp_all add: s_def flip: data)
  have x0: "xs ! 0 = mem r (src r)" using size' H by (simp add: xs_def)
  have opc: "getOpCode (mem r) (src r) = head_op xs" by (simp add: getOpCode_def head_op_def x0)
  have fin: "isFin (mem r) (src r) = head_fin xs" by (simp add: isFin_bit head_fin_def x0)
  define st where "st = st'\<lparr>lastFin := head_fin xs\<rparr>"
  have kq: "keeps st q" using opened_keeps(2) [OF k op, of "head_fin xs"] by (simp add: st_def q_def pushed_def)
  have top: "opCode st ! unat (opStack st) = hd (stack q)" by (rule pop_keeps(2) [OF kq fr(1)])
  have nm: "unat (of_nat n mod 4 :: u32) = n mod 4" using n(1) by (simp add: unat_mod unat_of_nat)
  then have rot: "rotateMask (4 - of_nat n mod 4) (head_key xs) = rotate (n mod 4) (head_key xs)"
    using rotateMask_rotate [OF lk, of "n mod 4"] by (metis mod_less_divisor of_nat_unat ucast_id zero_less_numeral)
  define st2 where "st2 = st\<lparr>spillLength := 0, wantsHead := False, remainingBytes := of_nat rest,
      mask_bytes := rotate (n mod 4) (head_key xs)\<rparr>"
  obtain b u where hf: "impl_handleFragment impl (mask_from 0 (head_key xs) (drop H xs)) (of_nat rest) (hd (stack q)) (head_fin xs) (user r) = (b, u)"
    by fastforce
  have sH: "src r + unat (of_nat H :: u32) = s" "unat (of_nat n :: u32) = n"
    using H n(1) by (simp_all add: s_def unat_of_nat)
  have c: "consumeMessage True impl (of_nat H) (of_nat p) r = (True, r\<lparr>mem := m, user := u, wState := st2\<rparr>)"
    using ref size' ls(2) [of "len r"] hf
    by (simp add: consumeMessage_def opc op fin Let_def sH n(2) key handle_def m_def [symmetric] pay top
      ls(4) [OF size'] rest_def [symmetric] st_def [symmetric] rot st2_def)
  have l: "length (mask_from 0 (head_key xs) (drop H xs)) = n" by (simp add: n_def xs_def)
  have fits: "fits impl (hd (stack q)) (head_fin xs) (length (mask_from 0 (head_key xs) (drop H xs)) + rest) (user r)"
    using fr(4) n(4) unfolding l by simp
  have d: "dead u = b" by (rule broken_dead [OF f fits hf])
  have k2: "keeps st2 (q\<lparr>phase := ph\<rparr>)" for ph using kq lk by (simp add: st2_def keeps_def stack_of_def)
  have "mirrors st2 u (progress impl (hd (stack q)) (head_fin xs) (head_key xs) (mask_from 0 (head_key xs) (drop H xs)) rest q)"
  proof (cases b)
    case True
    then show ?thesis using hf d rc by (simp add: progress_def q_def pushed_def mirrors_broken)
  next
    case False
    have rq: "receiver q = user r" by (simp add: q_def pushed_def rc)
    then have "progress impl (hd (stack q)) (head_fin xs) (head_key xs) (mask_from 0 (head_key xs) (drop H xs)) rest q
      = q\<lparr>phase := Body (hd (stack q)) (head_fin xs) (head_key xs) (mask_from 0 (head_key xs) (drop H xs)) rest\<rparr>"
      using False hf n(5) by (simp add: progress_def)
    then show ?thesis using k2 n(5) lk fr rq fits hf f False l
      by (simp add: mirrors_def in_body_def) (simp add: st2_def st_def)
  qed
  moreover have "rest = p - (length xs - H)" using size' by (simp add: rest_def xs_def)
  ultimately show thesis using that [OF c] by simp
qed


subsection \<open>The loop over the frames of a segment\<close>

lemma spilled:
  fixes r :: "'u ws_run" and a :: "'u reader"
  defines "xs \<equiv> load (mem r) (src r) (unat (len r))"
  assumes h: "at_head (wState r) (user r) a" and z: "len r = 0 \<Longrightarrow> spillLength (wState r) = 0"
    and l: "length xs < 6 \<or> head_ok xs \<and> length xs < head_size xs"
  shows "mirrors (wState (spill_over r)) (user (spill_over r)) (a\<lparr>phase := Header xs\<rparr>)"
proof (cases "len r = 0")
  case True
  then show ?thesis using h z by (auto simp: mirrors_def spill_over_def xs_def at_head_def keeps_def)
next
  case False
  let ?n = "unat (len r)"
  have n: "?n < 14" using l by (auto simp: xs_def head_size_def split: if_splits)
  have "unat (ucast (len r AND 0xf) :: 4 word) = ?n"
  proof -
    have "len r AND 0xf = take_bit 4 (len r)" by (simp add: take_bit_eq_mask mask_eq_exp_minus_1)
    then show ?thesis using n by (simp add: unsigned_ucast_eq unsigned_take_bit_eq take_bit_nat_eq_self)
  qed
  moreover have "keeps (wState (spill_over r)) (a\<lparr>phase := Header xs\<rparr>)" using False h n
    by (simp add: spill_over_def xs_def at_head_def keeps_def stack_of_def Let_def)
  ultimately show ?thesis using False h l n
    by (simp add: mirrors_def at_head_def) (simp add: spill_over_def xs_def Let_def)
qed

text \<open>
  One turn of the loop on a whole header: it stops in the state the reader reaches on all that is left, or
  goes on behind the frame.
\<close>

lemma one_frame:
  fixes r :: "'u ws_run" and a :: "'u reader"
  defines "xs \<equiv> load (mem r) (src r) (unat (len r))"
  defines "H \<equiv> head_size xs" and "p \<equiv> payload_size xs" and "q \<equiv> pushed xs a"
  assumes h: "at_head (wState r) (user r) a" and ph: "phase a = Header []" and ok: "head_ok xs"
    and l6: "len r \<ge> 6" and full: "H \<le> length xs"
  obtains (stops) r' where "consumeMessage True impl (of_nat H) (of_nat p) r = (True, r')"
      "mirrors (wState r') (user r') (read_bytes impl xs a)"
    | (goes) r' a' where "consumeMessage True impl (of_nat H) (of_nat p) r = (False, r')"
      "at_head (wState r') (user r') a'" "phase a' = Header []" "spillLength (wState r') = 0"
      "unat (len r') < unat (len r)"
      "agree (read_bytes impl (load (mem r') (src r') (unat (len r'))) a') (read_bytes impl xs a)"
proof -
  have k: "keeps (wState r) a" and f: "fresh (user r)" and rc: "receiver a = user r" using h by (auto simp: at_head_def)
  have lx: "length xs = unat (len r)" by (simp add: xs_def)
  have l6': "length xs \<ge> 6" using l6 by (simp add: lx word_le_nat_alt)
  note an = announced_head [OF l6, folded xs_def p_def]
  let ?fin = "head_fin xs" and ?key = "head_key xs" and ?top = "hd (stack q)"
  let ?ps = "\<lambda>ys n. progress impl ?top ?fin ?key (mask_from 0 ?key ys) n q"
  have th: "length (take H xs) = head_size (take H xs)" "head_ok (take H xs)"
    using full ok by (simp_all add: take_head H_def)
  have pq: "pushed (take H xs) a = q" by (simp add: pushed_def q_def H_def take_head [OF full [unfolded H_def]])
  have rb: "read_bytes impl xs a = read_bytes impl (drop H xs) (begin_frame impl (take H xs) a)"
    using header_done [OF ph th(2,1)] by (metis append_take_drop_id read_bytes_simps(3))
  note bf = begin_frame_pushed [OF k, of "take H xs", unfolded pq take_head [OF full [unfolded H_def], folded H_def] rc, folded p_def]
  have opc: "getOpCode (mem r) (src r) = head_op xs" using l6' by (simp add: getOpCode_def head_op_def xs_def)
  consider "opened (head_op xs) (wState r) = None"
    | st' where "opened (head_op xs) (wState r) = Some st'" "impl_refusePayloadLength impl (of_nat p) (user r)"
    | (ok) st' where "opened (head_op xs) (wState r) = Some st'" "\<not> impl_refusePayloadLength impl (of_nat p) (user r)"
    by (cases "opened (head_op xs) (wState r)") auto
  then show thesis
  proof cases
    case 1
    then have "consumeMessage True impl (of_nat H) (of_nat p) r = (True, r\<lparr>user := impl_forceClose impl ERR_NONE (user r)\<rparr>)"
      by (simp add: consumeMessage_def opc)
    then show thesis by (rule stops) (use 1 bf close_kills [OF f] in \<open>simp add: rb read_bytes_Dead broken_off_def mirrors_def\<close>)
  next
    case 2
    then obtain st where "consumeMessage True impl (of_nat H) (of_nat p) r
        = (True, r\<lparr>wState := st, user := impl_forceClose impl ERR_TOO_BIG_MESSAGE (user r)\<rparr>)"
      by (simp add: consumeMessage_def opc)
    then show thesis by (rule stops) (use 2 bf close_kills [OF f] in \<open>simp add: rb read_bytes_Dead broken_off_def mirrors_def\<close>)
  next
    case (ok st')
    note fr = pushed_frame [OF h \<open>head_ok xs\<close> ok [unfolded p_def] an(2) [unfolded p_def], folded p_def q_def]
    have rq: "receiver q = user r" by (simp add: q_def pushed_def rc)
    have rb': "read_bytes impl xs a = read_bytes impl (drop H xs) (?ps [] p)" using rb bf ok by simp
    have pl: "length ys \<le> p \<Longrightarrow> agree (read_bytes impl ys (?ps [] p)) (?ps ys (p - length ys))" for ys
      using read_payload [of q ?top ?fin "[]" p ys ?key] f fr(4) by (simp add: rq)
    show thesis
    proof (cases "p + H \<le> length xs")
      case cut: False
      obtain r' where r': "consumeMessage True impl (of_nat H) (of_nat p) r = (True, r')"
        "mirrors (wState r') (user r') (?ps (drop H xs) (p - (length xs - H)))"
        using cut_frame [OF h, folded xs_def, folded H_def p_def q_def, OF \<open>head_ok xs\<close> ok an(2) full cut] by blast
      from r'(1) show thesis
        by (rule stops) (use mirrors_agree [OF agree_sym [OF pl [of "drop H xs"]]] r'(2) cut in \<open>simp add: rb'\<close>)
    next
      case whole: True
      let ?ys = "take p (drop H xs)"
      obtain b u where hf: "impl_handleFragment impl (mask_from 0 ?key ?ys) 0 ?top ?fin (user r) = (b, u)" by fastforce
      let ?a = "q\<lparr>phase := Header [], receiver := u, stack := (if ?fin then tl (stack q) else stack q)\<rparr>"
      obtain r' where r': "consumeMessage True impl (of_nat H) (of_nat p) r = (b, r')" "user r' = u"
        "\<not> b \<Longrightarrow> at_head (wState r') u ?a \<and> spillLength (wState r') = 0
          \<and> load (mem r') (src r') (unat (len r')) = drop (p + H) xs \<and> unat (len r') = length xs - (p + H)"
        using whole_frame [OF h, folded xs_def, folded H_def p_def q_def, OF \<open>head_ok xs\<close> ok an(2) whole hf] by blast
      have l: "length ?ys = p" using whole by simp
      have "drop H xs = ?ys @ drop (p + H) xs" using append_take_drop_id [of p "drop H xs"] by (simp only: drop_drop)
      then have ag: "agree (read_bytes impl (drop (p + H) xs) (?ps ?ys 0)) (read_bytes impl xs a)"
        unfolding rb' using pl [of ?ys] l by (metis agree_read agree_sym diff_self_eq_0 order_refl read_bytes_simps(3))
      have fits: "fits impl ?top ?fin (length (mask_from 0 ?key ?ys) + 0) (user r)" using fr(4) l by simp
      have d: "dead u = b" using broken_dead [OF f fits] hf by simp
      show thesis
      proof (cases b)
        case True
        have "mirrors (wState r') u (read_bytes impl (drop (p + H) xs) (?ps ?ys 0))"
          using True hf d rq by (simp add: progress_def broken_off_def read_bytes_Dead mirrors_def)
        then show thesis using stops [of r'] r'(1,2) True mirrors_agree [OF ag] by simp
      next
        case False
        have "unat (len r') < unat (len r)" using r'(3) [OF False] whole l6' by (simp add: lx H_def head_size_def split: if_splits)
        moreover have "?ps ?ys 0 = ?a" using hf False rq by (simp add: progress_def)
        moreover from r'(3) [OF False] have "at_head (wState r') u ?a" "spillLength (wState r') = 0"
          "load (mem r') (src r') (unat (len r')) = drop (p + H) xs" by blast+
        ultimately show thesis using goes [of r' ?a] r'(1,2) False ag by simp
      qed
    qed
  qed
qed

lemma parse_loop:
  fixes r :: "'u ws_run" and a :: "'u reader"
  assumes "at_head (wState r) (user r) a" "phase a = Header []" "len r = 0 \<Longrightarrow> spillLength (wState r) = 0"
  shows "\<exists>r'. parseNext True impl r = Some r'
     \<and> mirrors (wState r') (user r') (read_bytes impl (load (mem r) (src r) (unat (len r))) a)"
  using assms
proof (induction "unat (len r)" arbitrary: r a rule: less_induct)
  case less
  define xs where "xs = load (mem r) (src r) (unat (len r))"
  note h = less.prems(1) and ph = less.prems(2)
  have f: "fresh (user r)" and rc: "receiver a = user r" using h by (auto simp: at_head_def)
  have lx: "length xs = unat (len r)" by (simp add: xs_def)
  note sp = spilled [OF h less.prems(3), folded xs_def]
  note unfold = parseNext.simps [of True impl r] SHORT_MESSAGE_HEADER_def
  show ?case
  proof (cases "len r < 6")
    case True
    then have "length xs < 6" by (simp add: lx word_less_nat_alt)
    then show ?thesis using True sp header_pending [OF ph, of xs] by (simp add: unfold xs_def)
  next
    case False
    then have l6: "len r \<ge> 6" "length xs \<ge> 6" by (simp_all add: lx word_le_nat_alt word_less_nat_alt)
    note rf = refused_head [OF f l6(1), folded xs_def] and an = announced_head [OF l6(1), folded xs_def]
    consider (bad) "\<not> head_ok xs" | (short) "head_ok xs" "\<not> head_size xs \<le> length xs"
      | (full) "head_ok xs" "head_size xs \<le> length xs" by blast
    then show ?thesis
    proof cases
      case bad
      have xs: "xs = take 6 xs @ drop 6 xs" by simp
      have "length (take 6 xs) = 6" "\<not> head_ok (take 6 xs)" using l6 bad head_append(5) [of "take 6 xs" "drop 6 xs"] by auto
      then have "read_bytes impl xs a = broken_off (impl_forceClose impl ERR_NONE (user r)) a"
        by (subst xs, simp only: read_bytes_simps header_bad [OF ph]) (simp add: rc read_bytes_Dead broken_off_def)
      then show ?thesis using False bad rf close_kills [OF f] by (simp add: unfold xs_def mirrors_broken)
    next
      case short
      then show ?thesis using False rf an sp header_pending [OF ph, of xs] by (simp add: unfold xs_def)
    next
      case full
      then have step: "parseNext True impl r = (let (stop, r) =
            consumeMessage True impl (of_nat (head_size xs)) (of_nat (payload_size xs)) r
          in if stop then Some r else parseNext True impl r)"
        using False rf an by (subst parseNext.simps) (simp add: SHORT_MESSAGE_HEADER_def)
      show ?thesis
      proof (cases rule: one_frame [OF h ph full(1) [unfolded xs_def] l6(1) full(2) [unfolded xs_def], folded xs_def])
        case (1 r')
        then show ?thesis by (auto simp: step xs_def)
      next
        case (2 r' a')
        then obtain r'' where "parseNext True impl r' = Some r''"
          "mirrors (wState r'') (user r'') (read_bytes impl (load (mem r') (src r') (unat (len r'))) a')"
          using less.hyps [of r' a'] by auto
        then show ?thesis using 2 mirrors_agree by (auto simp: step xs_def)
      qed
    qed
  qed
qed

end

end
