(* ===== verification/Uws_Consume.thy ===== *)
theory Uws_Consume imports
  Uws_Reading
begin

section \<open>Consuming a segment refines the reader\<close>

text \<open>
  The segments of a connection, one after the other in the same receive buffer. A receiver that is \<open>gone\<close>
  (closed, or shutting down) is given no further data.
\<close>

definition consume_segment :: "'u ws_impl \<Rightarrow> addr \<Rightarrow> u8 list \<Rightarrow> memory \<times> ws_state \<times> 'u \<Rightarrow> (memory \<times> ws_state \<times> 'u) option" where
  "consume_segment impl base seg = (\<lambda>(m, st, u). map_option (\<lambda>r. (mem r, wState r, user r))
     (consume True impl \<lparr>src = base, len = of_nat (length seg), mem = memcpy base seg m, wState = st, user = u\<rparr>))"

fun consume_all :: "'u ws_impl \<Rightarrow> ('u \<Rightarrow> bool) \<Rightarrow> addr \<Rightarrow> u8 list list \<Rightarrow> memory \<times> ws_state \<times> 'u \<Rightarrow> (memory \<times> ws_state \<times> 'u) option" where
  "consume_all impl gone base [] s = Some s"
| "consume_all impl gone base (seg # segs) s =
    (if gone (snd (snd s)) then Some s
     else case consume_segment impl base seg s of None \<Rightarrow> None | Some s \<Rightarrow> consume_all impl gone base segs s)"

definition segment_ok :: "u8 list \<Rightarrow> bool" where
  "segment_ok seg \<longleftrightarrow> seg \<noteq> [] \<and> length seg + CONSUME_PRE_PADDING True < 2 ^ 32"

subsection \<open>Unmasking the rest of a payload\<close>

lemma unat_quarter: "unat (drop_bit 2 (n :: u32)) = unat n div 4"
  using unsigned_less [of n, where 'a = nat]
  by (simp add: unsigned_drop_bit_eq drop_bit_nat_def take_bit_nat_eq_self)

lemma unmask_rest:
  fixes n :: u32 and s :: addr and k :: "u8 list" and m :: memory
  defines "q \<equiv> unat (drop_bit 2 n)"
  defines "m' \<equiv> xor_tail (unat (n mod 4)) (s + q * 4) 0 k (unmaskInplace s (s + q * 4) k m)"
  shows "load m' s (unat n) = mask_from 0 k (load m s (unat n))" "x < s \<or> x \<ge> s + unat n \<Longrightarrow> m' x = m x"
proof -
  have q: "q = unat n div 4" by (simp add: q_def unat_quarter)
  have t: "unat (n mod 4) = unat n mod 4" by (simp add: unat_mod)
  have d: "4 * (unat n div 4) + unat n mod 4 = unat n" by simp
  show "x < s \<or> x \<ge> s + unat n \<Longrightarrow> m' x = m x"
    unfolding m'_def xor_tail_closed unmaskInplace_closed t q using d by auto
  show "load m' s (unat n) = mask_from 0 k (load m s (unat n))"
  proof (rule load_xored)
    fix j assume j: "j < unat n"
    show "m' (s + j) = m (s + j) XOR k ! ((0 + j) mod 4)"
    proof (cases "j < q * 4")
      case True
      then show ?thesis by (simp add: m'_def xor_tail_closed unmaskInplace_closed)
    next
      case False
      then have "j div 4 = q" using j unfolding q by (intro div_nat_eqI) auto
      then have e: "s + j - (s + q * 4) = j mod 4" "j < q * 4 + unat n mod 4"
        using j d False minus_div_mult_eq_mod [of j 4] unfolding q by simp_all
      then show ?thesis using False by (simp add: m'_def xor_tail_closed unmaskInplace_closed t)
    qed
  qed
qed

lemma unmask_segment:
  fixes n :: u32 and s :: addr and k :: "u8 list" and m :: memory
  assumes "length k = 4"
  defines "m' \<equiv> (if k \<noteq> [0, 0, 0, 0]
     then if LIBUS_RECV_BUFFER_LENGTH = uint n then unmaskAll s k m
          else unmaskInplace s (s + (unat (drop_bit 2 n) + 1) * 4) k m
     else m)"
  shows "load m' s (unat n) = mask_from 0 k (load m s (unat n))"
proof (rule load_xored)
  fix j assume j: "j < unat n"
  have l: "j < (unat n div 4 + 1) * 4" using j by simp
  have i: "unmaskInplace s (s + (unat (drop_bit 2 n) + 1) * 4) k m (s + j) = m (s + j) XOR k ! (j mod 4)"
    unfolding unmaskInplace_closed unat_quarter using l by simp
  have z: "k = [0, 0, 0, 0] \<Longrightarrow> k ! (j mod 4) = 0"
    using nth_mem [of "j mod 4" k] assms(1) by auto
  have a: "LIBUS_RECV_BUFFER_LENGTH = uint n \<Longrightarrow> unmaskAll s k m (s + j) = m (s + j) XOR k ! (j mod 4)"
    using j by (simp add: unmaskAll_closed unat_eq_nat_uint del: nat_uint_eq)
  show "m' (s + j) = m (s + j) XOR k ! ((0 + j) mod 4)"
    unfolding m'_def using i z a by auto
qed


subsection \<open>The rest of a payload\<close>

context frame_handler begin

lemma load_spilled: "b + length hs = s \<Longrightarrow> load (memcpy b hs m) b (length hs + n) = hs @ load m s n"
  by (auto simp: load_append)

lemma mask_rest: "length key = 4 \<Longrightarrow> mask_from 0 (rotate (i mod 4) key) ys = mask_from i key ys"
  by (rule nth_equalityI) (auto simp: nth_mask_from nth_rotate mod_simps add.commute)

lemma body_progress:
  assumes "in_body st u a op fin key pay n" "phase a = Body op fin key pay n"
  shows "a = progress impl op fin key pay n a"
proof -
  have "progress impl op fin key pay n a = a\<lparr>phase := Body op fin key pay n\<rparr>"
    using assms(1) unfolding in_body_def progress_def by (elim conjE) simp
  then show ?thesis using assms(2) by (cases a) simp
qed

lemma finish_payload:
  fixes r :: "'u ws_run" and a :: "'u reader"
  defines "xs \<equiv> load (mem r) (src r) (unat (len r))"
  assumes b: "in_body (wState r) (user r) a op fin key pay n" and ph: "phase a = Body op fin key pay n" and le: "n \<le> length xs"
  obtains (stops) r' where "consumeContinuation True impl r = (False, r')" "mirrors (wState r') (user r') (read_bytes impl xs a)"
    | (goes) r' a' where "consumeContinuation True impl r = (True, r')"
      "at_head (wState r') (user r') a'" "phase a' = Header []" "spillLength (wState r') = 0"
      "agree (read_bytes impl (load (mem r') (src r') (unat (len r'))) a') (read_bytes impl xs a)"
proof -
  let ?st = "wState r" and ?u = "user r"
  have k: "keeps ?st a" and f: "fresh (receiver a)" and fits: "fits impl op fin (length pay + n) (receiver a)"
    and hf: "impl_handleFragment impl pay (of_nat n) op fin (receiver a) = (False, ?u)"
    and st: "spillLength ?st = 0" "remainingBytes ?st = of_nat n" "0 < n" "mask_bytes ?st = rotate (length pay mod 4) key"
      "length key = 4" "stack a \<noteq> []" "op = hd (stack a)" "set (tl (stack a)) \<subseteq> {TEXT, BINARY}"
      "op \<notin> {TEXT, BINARY} \<longrightarrow> fin" "fin = lastFin ?st"
    using b by (auto simp: in_body_def)
  have n32: "n < 2 ^ 32" using fits by (simp add: fits_def)
  then have un: "unat (of_nat n :: u32) = n" by (simp add: unat_of_nat)
  have lx: "length xs = unat (len r)" by (simp add: xs_def)
  let ?ys = "take n xs" and ?zs = "drop n xs"
  define ps where "ps = mask_from (length pay) key ?ys"
  have lp: "length ps = n" using le by (simp add: ps_def)
  then have np: "ps \<noteq> []" using st(3) by auto
  have fits': "fits impl op fin (length pay + length ps + 0) (receiver a)" using fits lp by simp
  define m where "m = xor_tail (unat ((of_nat n :: u32) mod 4)) (src r + unat (drop_bit 2 (of_nat n :: u32)) * 4) 0 (mask_bytes ?st)
      (unmaskInplace (src r) (src r + unat (drop_bit 2 (of_nat n :: u32)) * 4) (mask_bytes ?st) (mem r))"
  note um = unmask_rest [where n = "of_nat n" and s = "src r" and k = "mask_bytes ?st" and m = "mem r", folded m_def, unfolded un]
  have ys: "load (mem r) (src r) n = ?ys" using le lx by (simp add: xs_def)
  have data: "load m (src r) n = ps" unfolding um(1) st(4) mask_rest [OF st(5)] ys ps_def ..
  obtain c w where hw: "impl_handleFragment impl ps 0 op fin ?u = (c, w)" by fastforce
  obtain w' where w': "impl_handleFragment impl (pay @ ps) 0 op fin (receiver a) = (c, w')" "view w' = view w" "c \<or> w' = w"
    using in_two [OF f fits' np, of ?u c w] hf hw lp by auto
  have d: "dead w = c"
    using broken_dead [OF f, of op fin "pay @ ps" 0 c w'] fits lp w'(1) dead_view [OF w'(2)] by simp
  have top: "opCode ?st ! unat (opStack ?st) = op" using pop_keeps(2) [OF k st(6)] st(7) by simp
  define r' where "r' = r\<lparr>mem := m, user := w\<rparr>"
  define r'' where "r'' = r'\<lparr>src := src r + n, len := len r - of_nat n,
      wState := (if fin then ?st\<lparr>opStack := opStack ?st - 1\<rparr> else ?st)\<lparr>wantsHead := True\<rparr>\<rparr>"
  have ln: "of_nat n \<le> len r" using le lx un by (simp add: word_le_nat_alt)
  have cc: "consumeContinuation True impl r = (\<not> c, if c then r' else r'')"
    using st(2,10) ln hw
    by (simp add: consumeContinuation_def Let_def un m_def [symmetric] handle_def data top r'_def r''_def)
  have xs: "read_bytes impl xs a = read_bytes impl ?zs (read_bytes impl ?ys a)"
    by (metis append_take_drop_id read_bytes_simps(3))
  have ag: "agree (read_bytes impl ?zs (progress impl op fin key (pay @ ps) 0 a)) (read_bytes impl xs a)"
  proof -
    have "agree (read_bytes impl ?ys a) (progress impl op fin key (pay @ ps) 0 a)"
      using read_payload [OF f fits, of ?ys key] body_progress [OF b ph] le by (simp add: ps_def)
    then show ?thesis unfolding xs by (simp add: agree_read agree_sym)
  qed
  show thesis
  proof (cases c)
    case True
    have "mirrors ?st w (read_bytes impl ?zs (progress impl op fin key (pay @ ps) 0 a))"
      using True w' d by (simp add: progress_def broken_off_def read_bytes_Dead mirrors_def)
    then show thesis using stops [of r'] cc True mirrors_agree [OF ag] by (simp add: r'_def)
  next
    case False
    let ?a = "a\<lparr>phase := Header [], receiver := w, stack := (if fin then tl (stack a) else stack a)\<rparr>"
    have e: "progress impl op fin key (pay @ ps) 0 a = ?a" using False w' by (simp add: progress_def)
    have "fresh w" using whole_fresh [OF f, of op fin "pay @ ps" w'] fits lp w' False by simp
    moreover have "set (stack ?a) \<subseteq> {TEXT, BINARY}" using st(6-9) by (cases "stack a") auto
    moreover have "keeps (wState r'') ?a" using k pop_keeps(1) [OF k st(6)] by (simp add: r''_def keeps_def stack_of_def)
    ultimately have h: "at_head (wState r'') (user r'') ?a" by (simp add: at_head_def r''_def r'_def)
    have "unat (len r - of_nat n) = unat (len r) - n" using ln un by (simp add: unat_sub)
    then have "load (mem r'') (src r'') (unat (len r'')) = ?zs"
      using um(2) by (simp add: r''_def r'_def xs_def) (intro load_cong; simp)
    then show thesis using goes [of r'' ?a] cc False h ag e st(1) by (simp add: r''_def)
  qed
qed


lemma continue_payload:
  fixes r :: "'u ws_run" and a :: "'u reader"
  defines "xs \<equiv> load (mem r) (src r) (unat (len r))"
  assumes b: "in_body (wState r) (user r) a op fin key pay n" and ph: "phase a = Body op fin key pay n"
    and le: "\<not> n \<le> length xs" and ne: "xs \<noteq> []"
  obtains r' where "consumeContinuation True impl r = (False, r')" "mirrors (wState r') (user r') (read_bytes impl xs a)"
proof -
  let ?st = "wState r" and ?u = "user r" and ?l = "length xs"
  have k: "keeps ?st a" and f: "fresh (receiver a)" and fits: "fits impl op fin (length pay + n) (receiver a)"
    and hf: "impl_handleFragment impl pay (of_nat n) op fin (receiver a) = (False, ?u)"
    and st: "spillLength ?st = 0" "remainingBytes ?st = of_nat n" "0 < n" "mask_bytes ?st = rotate (length pay mod 4) key"
      "length key = 4" "stack a \<noteq> []" "op = hd (stack a)" "set (tl (stack a)) \<subseteq> {TEXT, BINARY}"
      "op \<notin> {TEXT, BINARY} \<longrightarrow> fin" "fin = lastFin ?st" "\<not> wantsHead ?st"
    using b by (auto simp: in_body_def)
  have n32: "n < 2 ^ 32" using fits by (simp add: fits_def)
  then have un: "unat (of_nat n :: u32) = n" by (simp add: unat_of_nat)
  have lx: "?l = unat (len r)" by (simp add: xs_def)
  define ps where "ps = mask_from (length pay) key xs"
  define m where "m = (if mask_bytes ?st \<noteq> [0, 0, 0, 0]
     then if LIBUS_RECV_BUFFER_LENGTH = uint (len r) then unmaskAll (src r) (mask_bytes ?st) (mem r)
          else unmaskInplace (src r) (src r + (unat (drop_bit 2 (len r)) + 1) * 4) (mask_bytes ?st) (mem r)
     else mem r)"
  have lm: "length (mask_bytes ?st) = 4" using st(4,5) by simp
  have "load m (src r) ?l = mask_from 0 (mask_bytes ?st) xs"
    unfolding m_def lx using unmask_segment [OF lm, of "len r" "src r" "mem r"] by (simp add: xs_def)
  then have data: "load m (src r) ?l = ps" unfolding st(4) mask_rest [OF st(5)] by (simp add: ps_def)
  have lp: "length ps = ?l" "length ps + (n - ?l) = n" using le by (simp_all add: ps_def)
  have np: "ps \<noteq> []" using lp(1) ne by auto
  have fits': "fits impl op fin (length pay + length ps + (n - ?l)) (receiver a)" using fits lp by (simp add: add.assoc)
  have ln: "\<not> of_nat n \<le> len r" using le lx un by (simp add: word_le_nat_alt)
  have rm: "of_nat n - len r = of_nat (n - ?l)" using le lx by (simp add: of_nat_diff)
  obtain c w where hw: "impl_handleFragment impl ps (of_nat (n - ?l)) op fin ?u = (c, w)" by fastforce
  obtain w' where w': "impl_handleFragment impl (pay @ ps) (of_nat (n - ?l)) op fin (receiver a) = (c, w')" "view w' = view w" "c \<or> w' = w"
    using in_two [OF f fits' np, of ?u c w] hf hw lp by auto
  have d: "dead w = c"
    using broken_dead [OF f, of op fin "pay @ ps" "n - ?l" c w'] fits lp w'(1) dead_view [OF w'(2)] le by (simp add: add.assoc)
  have top: "opCode ?st ! unat (opStack ?st) = op" using pop_keeps(2) [OF k st(6)] st(7) by simp
  define st' where "st' = ?st\<lparr>remainingBytes := of_nat (n - ?l),
      mask_bytes := (if \<not> c \<and> len r mod 4 \<noteq> 0 then rotateMask (4 - len r mod 4) (mask_bytes ?st) else mask_bytes ?st)\<rparr>"
  have me: "(if True \<and> mask_bytes ?st \<noteq> [0, 0, 0, 0]
      then r\<lparr>mem := (if LIBUS_RECV_BUFFER_LENGTH = uint (len r) then unmaskAll (src r) (mask_bytes ?st) (mem r)
                  else unmaskInplace (src r) (src r + (unat (drop_bit 2 (len r)) + 1) * 4) (mask_bytes ?st) (mem r))\<rparr>
      else r) = r\<lparr>mem := m\<rparr>"
    by (simp add: m_def)
  let ?r = "r\<lparr>mem := m, wState := ?st\<lparr>remainingBytes := of_nat (n - ?l)\<rparr>\<rparr>"
  have hd: "handle impl (src r) (unat (len r)) (of_nat (n - ?l)) (lastFin ?st) ?r = (c, ?r\<lparr>user := w\<rparr>)"
    using data hw st(10) by (simp add: handle_def top lx)
  have cc: "consumeContinuation True impl r = (False, r\<lparr>mem := m, user := w, wState := st'\<rparr>)"
    unfolding consumeContinuation_def Let_def me st(2) using ln hd by (simp add: rm st'_def)
  have ag: "agree (progress impl op fin key (pay @ ps) (n - ?l) a) (read_bytes impl xs a)"
    using read_payload [OF f fits, of xs key] body_progress [OF b ph] le by (simp add: ps_def agree_sym)
  have "mirrors st' w (progress impl op fin key (pay @ ps) (n - ?l) a)"
  proof (cases c)
    case True
    then show ?thesis using w' d by (simp add: progress_def broken_off_def mirrors_def)
  next
    case False
    have rot: "mask_bytes st' = rotate (length (pay @ ps) mod 4) key"
    proof -
      have m4: "unat (len r mod 4) = ?l mod 4" by (simp add: unat_mod lx)
      then have "len r mod 4 = of_nat (?l mod 4)" by (metis of_nat_unat ucast_id)
      then have "mask_bytes st' = rotate (?l mod 4) (mask_bytes ?st)"
        using False rotateMask_rotate [OF lm, of "?l mod 4"] m4 by (auto simp: st'_def)
      also have "\<dots> = rotate ((?l mod 4 + length pay mod 4) mod length key) key"
        by (simp add: st(4) rotate_rotate flip: rotate_conv_mod)
      finally show ?thesis by (simp add: st(5) lp(1) mod_simps add.commute)
    qed
    have "progress impl op fin key (pay @ ps) (n - ?l) a = a\<lparr>phase := Body op fin key (pay @ ps) (n - ?l)\<rparr>"
      using w' False le by (simp add: progress_def)
    moreover have "keeps st' (a\<lparr>phase := Body op fin key (pay @ ps) (n - ?l)\<rparr>)"
      using k rot st(5) by (simp add: keeps_def stack_of_def) (simp add: st'_def)
    ultimately show ?thesis using rot st f fits' w' False le lp
      by (simp add: mirrors_def in_body_def) (simp add: st'_def)
  qed
  then show thesis using that [OF cc] mirrors_agree [OF ag] by simp
qed


subsection \<open>A segment, and all segments\<close>

theorem consume_refines:
  fixes r :: "'u ws_run" and a :: "'u reader"
  defines "xs \<equiv> load (mem r) (src r) (unat (len r))"
  assumes mi: "mirrors (wState r) (user r) a" and ph: "phase a \<noteq> Dead"
    and pre: "13 \<le> src r" "unat (len r) + 13 < 2 ^ 32" "len r \<noteq> 0"
  shows "\<exists>r'. consume True impl r = Some r' \<and> mirrors (wState r') (user r') (read_bytes impl xs a)"
proof (cases "phase a")
  case (Header hs)
  let ?st = "wState r" and ?a = "a\<lparr>phase := Header []\<rparr>" and ?n = "unat (spillLength (wState r))"
  from mi Header have h: "at_head ?st (user r) ?a" and hs: "hs = take ?n (spill ?st)" "?n \<le> 13"
    "length hs < 6 \<or> head_ok hs \<and> length hs < head_size hs" and k: "length (spill ?st) = 13" and w: "wantsHead ?st"
    by (auto simp: mirrors_def at_head_def keeps_def)
  have lh: "length hs = ?n" using hs k by simp
  have a: "a = a\<lparr>phase := Header hs\<rparr>" using Header by (cases a) simp
  have rb: "read_bytes impl xs a = read_bytes impl (hs @ xs) ?a"
    using header_pending [of ?a hs impl] hs(3) a by simp
  show ?thesis
  proof (cases "?n = 0")
    case True
    then have "spillLength ?st = 0" "hs = []" using lh by (simp_all add: unat_eq_0)
    then show ?thesis using parse_loop [OF h] w rb by (simp add: consume_def xs_def)
  next
    case False
    let ?r = "r\<lparr>src := src r - ?n, len := len r + of_nat ?n, mem := memcpy (src r - ?n) hs (mem r)\<rparr>"
    have l: "unat (len r + ucast (spillLength ?st)) = ?n + unat (len r)"
      using pre(2) hs(2) by (simp add: unat_word_ariths unsigned_ucast_eq take_bit_nat_eq_self)
    have "load (memcpy (src r - ?n) hs (mem r)) (src r - ?n) (?n + unat (len r)) = hs @ xs"
      using load_spilled [of "src r - ?n" hs "src r" "mem r" "unat (len r)"] pre(1) hs(2) by (simp add: lh xs_def)
    then have ld: "load (mem ?r) (src ?r) (unat (len ?r)) = hs @ xs" by (simp add: l)
    have "len ?r = 0 \<Longrightarrow> spillLength (wState ?r) = 0" using l False by simp
    then obtain r' where "parseNext True impl ?r = Some r'" "mirrors (wState r') (user r') (read_bytes impl (hs @ xs) ?a)"
      using parse_loop [of ?r ?a] h ld by auto
    then show ?thesis using False w rb hs(1) by (simp add: consume_def)
  qed
next
  case (Body op fin key pay n)
  with mi have b: "in_body (wState r) (user r) a op fin key pay n" by (simp add: mirrors_def)
  then have st: "spillLength (wState r) = 0" "\<not> wantsHead (wState r)" by (auto simp: in_body_def)
  have ne: "xs \<noteq> []" using pre(3) by (auto simp: xs_def load_def unat_eq_0)
  show ?thesis
  proof (cases "n \<le> length xs")
    case True
    show ?thesis
    proof (cases rule: finish_payload [OF b Body True [unfolded xs_def], folded xs_def])
      case (1 r')
      then show ?thesis using st by (simp add: consume_def)
    next
      case (2 r' a')
      then obtain r'' where "parseNext True impl r' = Some r''"
        "mirrors (wState r'') (user r'') (read_bytes impl (load (mem r') (src r') (unat (len r'))) a')"
        using parse_loop [of r' a'] by auto
      then show ?thesis using 2 st mirrors_agree by (auto simp: consume_def)
    qed
  next
    case False
    then obtain r' where "consumeContinuation True impl r = (False, r')" "mirrors (wState r') (user r') (read_bytes impl xs a)"
      using continue_payload [OF b Body _ ne [unfolded xs_def], folded xs_def] by blast
    then show ?thesis using st by (simp add: consume_def)
  qed
qed (use ph in simp)

lemma mirrors_dead: "mirrors st u a \<Longrightarrow> dead u \<longleftrightarrow> phase a = Dead"
  by (auto simp: mirrors_def at_head_def in_body_def fresh_alive dest: broken_dead split: phase.splits)

lemma mirrors_shown: "mirrors st u a \<Longrightarrow> view u = view (shown impl a)"
  by (auto simp: mirrors_def shown_def at_head_def in_body_def split: phase.splits)

lemma mirrors_new: "fresh u \<Longrightarrow> mirrors (WebSocketState True) u (new_reader u)"
  by (simp add: mirrors_def new_reader_def WebSocketState_def at_head_def keeps_def stack_of_def
      CONSUME_PRE_PADDING_def LONG_MESSAGE_HEADER_def)

lemma all_mirror:
  assumes "mirrors st u a" "\<forall>seg \<in> set segs. segment_ok seg" "13 \<le> base"
  shows "\<exists>m' st' u'. consume_all impl dead base segs (m, st, u) = Some (m', st', u')
     \<and> mirrors st' u' (read_bytes impl (concat segs) a)"
  using assms(1,2)
proof (induction segs arbitrary: m st u a)
  case Nil
  then show ?case by simp
next
  case (Cons seg segs)
  show ?case
  proof (cases "dead u")
    case True
    then have "phase a = Dead" using mirrors_dead [OF Cons.prems(1)] by simp
    then show ?thesis using True Cons.prems by (simp add: read_bytes_Dead)
  next
    case False
    then have ph: "phase a \<noteq> Dead" using mirrors_dead [OF Cons.prems(1)] by simp
    let ?r = "\<lparr>src = base, len = of_nat (length seg), mem = memcpy base seg m, wState = st, user = u\<rparr>"
    from Cons.prems(2) have s: "seg \<noteq> []" "length seg + 13 < 2 ^ 32"
      by (auto simp: segment_ok_def CONSUME_PRE_PADDING_def LONG_MESSAGE_HEADER_def)
    then have l: "unat (len ?r) = length seg" by (simp add: unat_of_nat)
    have "len ?r \<noteq> 0" using l s(1) by (auto simp flip: unat_eq_0)
    then obtain r' where "consume True impl ?r = Some r'" "mirrors (wState r') (user r') (read_bytes impl seg a)"
      using consume_refines [of ?r a] Cons.prems(1) ph assms(3) s l by auto
    then show ?thesis using Cons.IH [of "wState r'" "user r'" "read_bytes impl seg a" "mem r'"] Cons.prems(2) False
      by (simp add: consume_segment_def)
  qed
qed

theorem segments_read:
  assumes "fresh u" "\<forall>seg \<in> set segs. segment_ok seg" "13 \<le> base"
  shows "\<exists>m' st' u'. consume_all impl dead base segs (m, WebSocketState True, u) = Some (m', st', u')
     \<and> view u' = view (shown impl (read_bytes impl (concat segs) (new_reader u)))
     \<and> (dead u' \<longleftrightarrow> phase (read_bytes impl (concat segs) (new_reader u)) = Dead)"
  using all_mirror [OF mirrors_new [OF assms(1)] assms(2,3), of m] mirrors_dead mirrors_shown by blast

end

end
