(* ===== verification/Uws_Receiver.thy ===== *)
theory Uws_Receiver imports
  Uws_Connection
  Uws_Consume
begin

section \<open>The receiving side of a connection is a receiver of frames\<close>

text \<open>
  \<open>ws_connection\<close> is what is asked of the context: lengths below 4 GiB, as the setting has 32 bits, and handlers
  that do not give the socket a TLS session, nor revive a connection that is closed or shutting down. Without compression
  \<open>handleFragment\<close> then obeys the laws of \<open>frame_handler\<close>, so what the parser makes of any segments is what
  the reader makes of their bytes. Every application that uses the connection through its interface meets this.
\<close>

locale ws_connection =
  fixes ctx :: "('a, 'z) ws_context" and s :: addr
  assumes small_max: "maxPayloadLength ctx < 2 ^ 32"
    and close_keeps: "closeHandler ctx = Some h \<Longrightarrow> plain s w \<Longrightarrow> closing s w \<Longrightarrow> closing s (h code message c w)"
    and socket_closed_keeps: "onSocketClosed ctx = Some h' \<Longrightarrow> plain s w \<Longrightarrow> closing s w \<Longrightarrow>
      plain s (h' c w) \<and> closing s (h' c w)"
    and message_plain: "messageHandler ctx = Some hm \<Longrightarrow> plain s w \<Longrightarrow> \<not> closing s w \<Longrightarrow> \<not> closing s (hm data op c w)
      \<Longrightarrow> plain s (hm data op c w)"
    and ping_plain: "pingHandler ctx = Some hp \<Longrightarrow> plain s w \<Longrightarrow> \<not> closing s w \<Longrightarrow> \<not> closing s (hp data c w) \<Longrightarrow> plain s (hp data c w)"
    and pong_plain: "pongHandler ctx = Some hp \<Longrightarrow> plain s w \<Longrightarrow> \<not> closing s w \<Longrightarrow> \<not> closing s (hp data c w) \<Longrightarrow> plain s (hp data c w)"
begin

definition ready :: "('a, 'z) websocket \<Rightarrow> bool" where
  "ready d \<longleftrightarrow> plain s (outer d) \<and> \<not> gone s d \<and> compressionStatus d = DISABLED \<and> controlTipLength d = 0
     \<and> length (fragmentBuffer d) \<le> unat (maxPayloadLength ctx)"

lemma call_close_closing: "plain s w \<Longrightarrow> closing s w \<Longrightarrow> closing s (call_closeHandler ctx code message c w)"
  using close_keeps by (auto simp: call_closeHandler_def split: option.split)

lemma onClose_closing:
  assumes "plain s w" "ws_closed s w"
  shows "closing s (onClose ctx s reason c w)"
proof -
  let ?w = "upd_net (uncorkWithoutSending s) w"
  let ?v = "case onSocketClosed ctx of None \<Rightarrow> ?w | Some h \<Rightarrow> h c ?w"
  have "plain s ?w \<and> closing s ?w"
    using assms by (simp add: closing_def ws_closed_def is_closed_def uncorkWithoutSending_def plain_def)
  then have "plain s ?v \<and> closing s ?v" by (cases "onSocketClosed ctx") (simp_all add: socket_closed_keeps)
  then show ?thesis by (simp add: onClose_def Let_def call_close_closing)
qed

lemma end_closing:
  assumes "plain s w"
  shows "closing s (ws_end ctx s code message c w)"
proof (cases "isShuttingDown w")
  case True
  then show ?thesis by (simp add: ws_end_def closing_def)
next
  case False
  from end_calls [OF assms False, of ctx code message c] show ?thesis by (metis call_close_closing)
qed

lemma gone_closing: "gone s d = closing s (outer d)"
  by (simp add: gone_def closing_def)

lemma force_closes:
  assumes "plain s (outer d)" "\<not> gone s d"
  shows "gone s (forceClose ctx s err d)"
proof -
  have "\<not> ws_closed s (outer d)" using assms(2) by (simp add: gone_def)
  from close_calls [OF assms(1) this, of ctx "reason_of err" "compressionStatus d"]
  show ?thesis by (auto simp: gone_closing forceClose_def on_outer_def onClose_closing)
qed

text \<open>What a complete message or control frame does to a connection that is ready.\<close>

lemma whole_message_ready:
  assumes "plain s (outer d)" "\<not> gone s d" "compressionStatus d = DISABLED" "whole_message ctx s data op d = (b, d')"
  shows "gone s d' = b" "fragmentBuffer d' = fragmentBuffer d" "controlTipLength d' = controlTipLength d"
    "compressionStatus d' = DISABLED" "\<not> b \<Longrightarrow> plain s (outer d')"
    "\<And>f k. whole_message ctx s data op (d\<lparr>fragmentBuffer := f, controlTipLength := k\<rparr>) = (b, d'\<lparr>fragmentBuffer := f, controlTipLength := k\<rparr>)"
proof -
  show "gone s d' = b" using assms force_closes
    by (auto simp: whole_message_def Let_def gone_def split: if_splits option.splits)
  show "\<not> b \<Longrightarrow> plain s (outer d')" using assms message_plain
    by (auto simp: whole_message_def Let_def gone_closing on_outer_def split: if_splits option.splits)
qed (use assms in \<open>auto simp: whole_message_def Let_def forceClose_def on_outer_def gone_def split: if_splits option.splits\<close>)

lemma whole_control_ready:
  assumes "plain s (outer d)" "\<not> gone s d" "compressionStatus d = DISABLED" "whole_control ctx s data op d = (b, d')"
  shows "gone s d' = b" "fragmentBuffer d' = fragmentBuffer d" "controlTipLength d' = controlTipLength d"
    "compressionStatus d' = DISABLED" "\<not> b \<Longrightarrow> plain s (outer d')"
    "\<And>f k. whole_control ctx s data op (d\<lparr>fragmentBuffer := f, controlTipLength := k\<rparr>) = (b, d'\<lparr>fragmentBuffer := f, controlTipLength := k\<rparr>)"
proof -
  let ?w = "snd (send ctx s (compressionStatus d) data PONG False True (outer d))"
  have st: "plain s ?w" "closing s ?w = closing s (outer d)"
    using send_steady [OF assms(1)] by (simp_all add: closing_def)
  show "gone s d' = b" using assms st end_closing [OF assms(1)]
    by (auto simp: whole_control_def call_control_def Let_def gone_closing on_outer_def case_prod_beta
        split: if_splits option.splits)
  show "\<not> b \<Longrightarrow> plain s (outer d')" using assms st ping_plain pong_plain
    by (auto simp: whole_control_def call_control_def Let_def gone_closing on_outer_def case_prod_beta
        split: if_splits option.splits)
qed (use assms in \<open>auto simp: whole_control_def call_control_def Let_def on_outer_def gone_def case_prod_beta
      split: if_splits option.splits\<close>)

lemma refuse_sum:
  assumes "a + b < 2 ^ 64"
  shows "refusePayloadLength ctx (of_nat a + of_nat b) \<longleftrightarrow> unat (maxPayloadLength ctx) < a + b"
  using assms by (simp add: refusePayloadLength_def word_less_nat_alt unat_of_nat flip: of_nat_add)

lemma fits_size:
  assumes "fits (Impl ctx s) op fin n d"
  shows "n \<le> unat (maxPayloadLength ctx)" "n < 2 ^ 32"
proof -
  show n: "n < 2 ^ 32" using assms by (simp add: fits_def)
  have "\<not> refusePayloadLength ctx (of_nat n)" using assms by (simp add: fits_def Impl_def)
  then show "n \<le> unat (maxPayloadLength ctx)" using refuse_sum [of n 0] n by simp
qed

lemma max_nat: "unat (maxPayloadLength ctx) < 2 ^ 32"
  using small_max by (simp add: word_less_nat_alt)

subsection \<open>The pieces of a message\<close>

definition view :: "('a, 'z) websocket \<Rightarrow> ('a, 'z) ws_outer \<times> CompressionStatus" where
  "view d = (outer d, compressionStatus d)"

lemma force_view: "view d = view e \<Longrightarrow> view (forceClose ctx s err d) = view (forceClose ctx s err e)"
  by (simp add: view_def forceClose_def on_outer_def)

lemma message_too_long:
  assumes "op < 3" "length data < 2 ^ 32" "length (fragmentBuffer d) < 2 ^ 32" "fragmentBuffer d \<noteq> [] \<or> \<not> (remaining = 0 \<and> fin)"
    "unat (maxPayloadLength ctx) < length (fragmentBuffer d) + length data"
  shows "handleFragment ctx s data remaining op fin d = (True, forceClose ctx s ERR_TOO_BIG_MESSAGE d)"
  using assms refuse_sum [of "length data" "length (fragmentBuffer d)"] by (auto simp: handleFragment_def)

lemma message_piece:
  assumes "op < 3" "length (fragmentBuffer d) + length data \<le> unat (maxPayloadLength ctx)" "\<not> (remaining = 0 \<and> fin)"
  shows "handleFragment ctx s data remaining op fin d = (False, d\<lparr>fragmentBuffer := fragmentBuffer d @ data\<rparr>)"
  using assms refuse_sum [of "length data" "length (fragmentBuffer d)"] max_nat by (auto simp: handleFragment_def)

lemma message_last:
  assumes "op < 3" "length (fragmentBuffer d) + length data \<le> unat (maxPayloadLength ctx)"
    "plain s (outer d)" "\<not> gone s d" "compressionStatus d = DISABLED"
    "whole_message ctx s (fragmentBuffer d @ data) op d = (b, d')"
  shows "\<exists>d''. handleFragment ctx s data 0 op True d = (b, d'') \<and> view d'' = view d'
    \<and> (\<not> b \<longrightarrow> d'' = d'\<lparr>fragmentBuffer := []\<rparr>)"
proof (cases "fragmentBuffer d = []")
  case True
  then show ?thesis using assms whole_message_ready(2) [OF assms(3-6)]
    by (cases d') (simp add: handleFragment_def)
next
  case False
  let ?f = "fragmentBuffer d @ data"
  have "whole_message ctx s ?f op (d\<lparr>fragmentBuffer := ?f\<rparr>) = (b, d'\<lparr>fragmentBuffer := ?f\<rparr>)"
    using whole_message_ready(6) [OF assms(3-6), of "controlTipLength d" ?f] whole_message_ready(3) [OF assms(3-6)]
    by (cases d, cases d') simp
  then show ?thesis using assms False refuse_sum [of "length data" "length (fragmentBuffer d)"] max_nat
    by (auto simp: handleFragment_def view_def)
qed

lemma control_piece:
  assumes "\<not> op < 3" "remaining \<noteq> 0"
  shows "handleFragment ctx s data remaining op fin d = (False, d\<lparr>fragmentBuffer := fragmentBuffer d @ data,
    controlTipLength := controlTipLength d + of_nat (length data)\<rparr>)"
  using assms by (simp add: handleFragment_def)

lemma control_last:
  assumes "\<not> op < 3" "fragmentBuffer d = f @ g" "controlTipLength d = of_nat (length g)"
    "length g + length data \<le> 125" "length f < 2 ^ 32"
    "plain s (outer d)" "\<not> gone s d" "compressionStatus d = DISABLED"
    "whole_control ctx s (g @ data) op d = (b, d')"
  shows "\<exists>d''. handleFragment ctx s data 0 op True d = (b, d'') \<and> view d'' = view d'
    \<and> (\<not> b \<longrightarrow> d'' = d'\<lparr>fragmentBuffer := f, controlTipLength := 0\<rparr>)"
proof (cases "g = []")
  case True
  then show ?thesis using assms whole_control_ready(2,3) [OF assms(6-9)]
    by (cases d') (simp add: handleFragment_def)
next
  case False
  let ?f = "f @ g @ data" and ?k = "of_nat (length g) + of_nat (length data) :: u32"
  have k: "unat ?k = length g + length data" using assms(4) by (simp add: unat_of_nat flip: of_nat_add)
  have nz: "controlTipLength d \<noteq> 0" using False assms(3,4) by (auto simp: unat_of_nat simp flip: unat_eq_0)
  have f: "unat (of_nat (length ?f) - ?k) = length f" using assms(5) by (simp add: unat_of_nat)
  have "whole_control ctx s (g @ data) op (d\<lparr>fragmentBuffer := ?f, controlTipLength := ?k\<rparr>)
      = (b, d'\<lparr>fragmentBuffer := ?f, controlTipLength := ?k\<rparr>)"
    by (rule whole_control_ready(6) [OF assms(6-9)])
  then show ?thesis using assms nz f k
    by (auto simp: handleFragment_def view_def Let_def simp del: of_nat_add)
qed

subsection \<open>The laws of \<open>frame_handler\<close>\<close>

lemma readyD:
  assumes "ready d"
  shows "plain s (outer d)" "\<not> gone s d" "compressionStatus d = DISABLED" "controlTipLength d = 0"
    "length (fragmentBuffer d) \<le> unat (maxPayloadLength ctx)"
  using assms by (auto simp: ready_def)

lemma zero_left: "n < 2 ^ 32 \<Longrightarrow> (of_nat n :: u32) = 0 \<longleftrightarrow> n = 0"
  by (auto simp: unat_of_nat simp flip: unat_eq_0)

lemma fits_op:
  assumes "fits (Impl ctx s) op fin n d"
  shows "\<not> op < 3 \<Longrightarrow> fin \<and> n \<le> 125"
  using assms by (auto simp: fits_def TEXT_def BINARY_def CLOSE_def PING_def PONG_def)

text \<open>The last piece, of a message or of a control frame that began on \<open>d\<close>.\<close>

definition whole :: "u8 list \<Rightarrow> u8 \<Rightarrow> ('a, 'z) websocket \<Rightarrow> bool \<times> ('a, 'z) websocket" where
  "whole data op d =
    (if op < 3 then whole_message ctx s (fragmentBuffer d @ data) op d else whole_control ctx s data op d)"

lemma whole_ready:
  assumes "ready d" "whole data op d = (b, d')"
  shows "gone s d' = b" "compressionStatus d' = DISABLED" "\<not> b \<Longrightarrow> plain s (outer d')"
    "fragmentBuffer d' = fragmentBuffer d" "controlTipLength d' = controlTipLength d"
    "whole_message ctx s x op (d\<lparr>fragmentBuffer := f\<rparr>)
      = (let (b, e) = whole_message ctx s x op d in (b, e\<lparr>fragmentBuffer := f\<rparr>))"
proof -
  note r = readyD(1-3) [OF assms(1)]
  show "gone s d' = b" "compressionStatus d' = DISABLED" "\<not> b \<Longrightarrow> plain s (outer d')"
    "fragmentBuffer d' = fragmentBuffer d" "controlTipLength d' = controlTipLength d"
    using assms(2) whole_message_ready [OF r] whole_control_ready [OF r] by (auto simp: whole_def split: if_splits)
  obtain c e where w: "whole_message ctx s x op d = (c, e)" by fastforce
  from whole_message_ready(6) [OF r w, of "controlTipLength d" f] whole_message_ready(3) [OF r w]
  show "whole_message ctx s x op (d\<lparr>fragmentBuffer := f\<rparr>)
      = (let (b, e) = whole_message ctx s x op d in (b, e\<lparr>fragmentBuffer := f\<rparr>))"
    unfolding w by (cases d, cases e) simp
qed

text \<open>The state after a piece \<open>data\<close> of a frame, when more is to come or the frame is not final.\<close>

definition with_piece :: "u8 list \<Rightarrow> u8 \<Rightarrow> ('a, 'z) websocket \<Rightarrow> ('a, 'z) websocket" where
  "with_piece data op d = d\<lparr>fragmentBuffer := fragmentBuffer d @ data,
     controlTipLength := (if op < 3 then controlTipLength d else of_nat (length data))\<rparr>"

text \<open>What \<open>handleFragment\<close> does with a first piece.\<close>

lemma first_piece:
  assumes "ready d" "fits (Impl ctx s) op fin (length data + n) d"
  shows "op < 3 \<Longrightarrow> fragmentBuffer d \<noteq> [] \<or> \<not> (n = 0 \<and> fin) \<Longrightarrow>
      unat (maxPayloadLength ctx) < length (fragmentBuffer d) + length data \<Longrightarrow>
      handleFragment ctx s data (of_nat n) op fin d = (True, forceClose ctx s ERR_TOO_BIG_MESSAGE d)"
    "(op < 3 \<Longrightarrow> length (fragmentBuffer d) + length data \<le> unat (maxPayloadLength ctx)) \<Longrightarrow> \<not> (n = 0 \<and> fin) \<Longrightarrow>
      handleFragment ctx s data (of_nat n) op fin d = (False, with_piece data op d)"
    "(op < 3 \<Longrightarrow> length (fragmentBuffer d) + length data \<le> unat (maxPayloadLength ctx)) \<Longrightarrow> n = 0 \<Longrightarrow> fin \<Longrightarrow>
      whole data op d = (b, d') \<Longrightarrow> \<exists>d''. handleFragment ctx s data (of_nat n) op fin d = (b, d'') \<and> view d'' = view d'
      \<and> (\<not> b \<longrightarrow> d'' = d'\<lparr>fragmentBuffer := (if op < 3 then [] else fragmentBuffer d)\<rparr>)"
proof -
  note r = readyD [OF assms(1)] and z = fits_size [OF assms(2)] and c = fits_op [OF assms(2)]
  have n: "n < 2 ^ 32" "length data < 2 ^ 32" "length (fragmentBuffer d) < 2 ^ 32" using z(2) r(5) max_nat by linarith+
  note nz = zero_left [OF n(1)]
  show "handleFragment ctx s data (of_nat n) op fin d = (True, forceClose ctx s ERR_TOO_BIG_MESSAGE d)"
    if "op < 3" "fragmentBuffer d \<noteq> [] \<or> \<not> (n = 0 \<and> fin)"
      "unat (maxPayloadLength ctx) < length (fragmentBuffer d) + length data"
    using message_too_long [of op data d "of_nat n" fin] that n nz by blast
  show "handleFragment ctx s data (of_nat n) op fin d = (False, with_piece data op d)"
    if "op < 3 \<Longrightarrow> length (fragmentBuffer d) + length data \<le> unat (maxPayloadLength ctx)" "\<not> (n = 0 \<and> fin)"
  proof (cases "op < 3")
    case True
    then show ?thesis using message_piece [of op d data "of_nat n" fin] that nz
      by (cases d) (simp add: with_piece_def)
  next
    case False
    then show ?thesis using control_piece [of op "of_nat n"] that nz c r(4) by (simp add: with_piece_def)
  qed
  show "\<exists>d''. handleFragment ctx s data (of_nat n) op fin d = (b, d'') \<and> view d'' = view d'
      \<and> (\<not> b \<longrightarrow> d'' = d'\<lparr>fragmentBuffer := (if op < 3 then [] else fragmentBuffer d)\<rparr>)"
    if "op < 3 \<Longrightarrow> length (fragmentBuffer d) + length data \<le> unat (maxPayloadLength ctx)" "n = 0" "fin"
      "whole data op d = (b, d')"
  proof (cases "op < 3")
    case True
    then show ?thesis using message_last [OF True that(1) [OF True] r(1-3)] that by (simp add: whole_def)
  next
    case False
    then have w: "whole_control ctx s ([] @ data) op d = (b, d')" using that(4) by (simp add: whole_def)
    have "controlTipLength d' = 0" using whole_control_ready(3) [OF r(1-3) w] r(4) by simp
    then have "d'\<lparr>fragmentBuffer := f, controlTipLength := 0\<rparr> = d'\<lparr>fragmentBuffer := f\<rparr>" for f by (cases d') simp
    then show ?thesis
      using control_last [OF False _ _ _ n(3) r(1-3) w] False that(2,3) c r(4) by simp
  qed
qed

text \<open>What it does with the next one.\<close>

lemma next_piece:
  assumes "ready d" "fits (Impl ctx s) op fin (length data + length xs + n) d"
    and le: "op < 3 \<Longrightarrow> length (fragmentBuffer d) + length data \<le> unat (maxPayloadLength ctx)"
  defines "u \<equiv> with_piece data op d"
  shows "op < 3 \<Longrightarrow> fragmentBuffer d @ data \<noteq> [] \<or> \<not> (n = 0 \<and> fin) \<Longrightarrow>
      unat (maxPayloadLength ctx) < length (fragmentBuffer d) + length (data @ xs) \<Longrightarrow>
      handleFragment ctx s xs (of_nat n) op fin u = (True, forceClose ctx s ERR_TOO_BIG_MESSAGE u)"
    "(op < 3 \<Longrightarrow> length (fragmentBuffer d) + length (data @ xs) \<le> unat (maxPayloadLength ctx)) \<Longrightarrow> \<not> (n = 0 \<and> fin) \<Longrightarrow>
      handleFragment ctx s xs (of_nat n) op fin u = (False, with_piece (data @ xs) op d)"
    "(op < 3 \<Longrightarrow> length (fragmentBuffer d) + length (data @ xs) \<le> unat (maxPayloadLength ctx)) \<Longrightarrow> n = 0 \<Longrightarrow> fin \<Longrightarrow>
      whole (data @ xs) op d = (b, d') \<Longrightarrow> \<exists>d''. handleFragment ctx s xs (of_nat n) op fin u = (b, d'') \<and> view d'' = view d'
      \<and> (\<not> b \<longrightarrow> d'' = d'\<lparr>fragmentBuffer := (if op < 3 then [] else fragmentBuffer d)\<rparr>)"
proof -
  note r = readyD [OF assms(1)] and z = fits_size [OF assms(2)] and c = fits_op [OF assms(2)]
  have n: "n < 2 ^ 32" "length xs < 2 ^ 32" "length (fragmentBuffer d) < 2 ^ 32" using z(2) r(5) max_nat by linarith+
  note nz = zero_left [OF n(1)]
  have u: "fragmentBuffer u = fragmentBuffer d @ data" "plain s (outer u)" "\<not> gone s u" "compressionStatus u = DISABLED"
    using r by (simp_all add: u_def with_piece_def gone_def)
  have lu: "op < 3 \<Longrightarrow> length (fragmentBuffer u) < 2 ^ 32" using le max_nat u(1) by simp
  have u3: "op < 3 \<Longrightarrow> u = d\<lparr>fragmentBuffer := fragmentBuffer d @ data\<rparr>" by (cases d) (simp add: u_def with_piece_def)
  show "handleFragment ctx s xs (of_nat n) op fin u = (True, forceClose ctx s ERR_TOO_BIG_MESSAGE u)"
    if "op < 3" "fragmentBuffer d @ data \<noteq> [] \<or> \<not> (n = 0 \<and> fin)"
      "unat (maxPayloadLength ctx) < length (fragmentBuffer d) + length (data @ xs)"
    using message_too_long [of op xs u "of_nat n" fin] that n nz lu u(1) by simp
  show "handleFragment ctx s xs (of_nat n) op fin u = (False, with_piece (data @ xs) op d)"
    if "op < 3 \<Longrightarrow> length (fragmentBuffer d) + length (data @ xs) \<le> unat (maxPayloadLength ctx)" "\<not> (n = 0 \<and> fin)"
  proof (cases "op < 3")
    case True
    then show ?thesis using message_piece [of op u xs "of_nat n" fin] that nz u(1)
      by (cases d) (simp add: u_def with_piece_def)
  next
    case False
    then show ?thesis using control_piece [of op "of_nat n"] that nz c by (simp add: with_piece_def u_def)
  qed
  show "\<exists>d''. handleFragment ctx s xs (of_nat n) op fin u = (b, d'') \<and> view d'' = view d'
      \<and> (\<not> b \<longrightarrow> d'' = d'\<lparr>fragmentBuffer := (if op < 3 then [] else fragmentBuffer d)\<rparr>)"
    if "op < 3 \<Longrightarrow> length (fragmentBuffer d) + length (data @ xs) \<le> unat (maxPayloadLength ctx)" "n = 0" "fin"
      and w: "whole (data @ xs) op d = (b, d')"
  proof (cases "op < 3")
    case True
    have "whole_message ctx s (fragmentBuffer u @ xs) op u = (b, d'\<lparr>fragmentBuffer := fragmentBuffer u\<rparr>)"
      using w True whole_ready(6) [OF assms(1) w, of "fragmentBuffer u @ xs" "fragmentBuffer u"] u(1)
      by (simp add: whole_def u3)
    from message_last [OF True _ u(2-4) this] show ?thesis using that u(1) True
      by (simp add: view_def)
  next
    case False
    let ?k = "of_nat (length data) :: u32"
    have u': "u = d\<lparr>fragmentBuffer := fragmentBuffer d @ data, controlTipLength := ?k\<rparr>" using False by (simp add: u_def with_piece_def)
    have w': "whole_control ctx s (data @ xs) op d = (b, d')" using w False by (simp add: whole_def)
    have "whole_control ctx s (data @ xs) op u = (b, d'\<lparr>fragmentBuffer := fragmentBuffer d @ data, controlTipLength := ?k\<rparr>)"
      unfolding u' by (rule whole_control_ready(6) [OF r(1-3) w'])
    moreover have "controlTipLength d' = 0" using whole_ready(5) [OF assms(1) w] r(4) by simp
    then have "d'\<lparr>fragmentBuffer := f, controlTipLength := 0\<rparr> = d'\<lparr>fragmentBuffer := f\<rparr>" for f by (cases d') simp
    moreover have "controlTipLength u = ?k" "fin" "length data + length xs \<le> 125" using u' c False by simp_all
    ultimately show ?thesis
      using control_last [OF False u(1) _ _ n(3) u(2-4), of xs b "d'\<lparr>fragmentBuffer := fragmentBuffer d @ data, controlTipLength := ?k\<rparr>"]
        False that(2) by (auto simp: view_def)
  qed
qed

lemma handler: "frame_handler (Impl ctx s) view (gone s) ready"
proof
  fix u :: "('a, 'z) websocket" and d e :: "u8 list" and v :: u64 and op :: u8 and fin n b u' w err
  show "ready u \<Longrightarrow> impl_setCompressed (Impl ctx s) u = (False, u)"
    by (simp add: Impl_def setCompressed_def ready_def)
  show "ready u \<Longrightarrow> gone s (impl_forceClose (Impl ctx s) err u)"
    using force_closes by (simp add: Impl_def ready_def)
  show "ready u \<Longrightarrow> v \<ge> 2 ^ 32 \<Longrightarrow> impl_refusePayloadLength (Impl ctx s) v u"
    using small_max by (simp add: Impl_def refusePayloadLength_def)
  show "ready u \<Longrightarrow> \<not> gone s u" by (simp add: ready_def)
  show "view u = view w \<Longrightarrow> gone s u = gone s w" by (simp add: view_def gone_def)
  let ?M = "unat (maxPayloadLength ctx)"
  show "gone s u' = b" if f: "ready u" "fits (Impl ctx s) op fin (length d + n) u"
    and h: "impl_handleFragment (Impl ctx s) d (of_nat n) op fin u = (b, u')"
  proof -
    obtain c x where w: "whole d op u = (c, x)" by fastforce
    show ?thesis
    proof (cases "op < 3 \<and> ?M < length (fragmentBuffer u) + length d \<and> (fragmentBuffer u \<noteq> [] \<or> \<not> (n = 0 \<and> fin))")
      case True
      then show ?thesis using first_piece(1) [OF f] h force_closes [of u] readyD [OF f(1)] by (auto simp: Impl_def)
    next
      case False
      then have le: "op < 3 \<Longrightarrow> length (fragmentBuffer u) + length d \<le> ?M" using fits_size(1) [OF f(2)] by auto
      have "view u' = view x \<and> b = c" if "n = 0" "fin"
        using first_piece(3) [OF f le that w] h by (auto simp: Impl_def)
      moreover have "u' = with_piece d op u \<and> \<not> b" if "\<not> (n = 0 \<and> fin)"
        using first_piece(2) [OF f le that] h by (auto simp: Impl_def)
      ultimately show ?thesis using whole_ready(1) [OF f(1) w] readyD [OF f(1)]
        by (cases "n = 0 \<and> fin") (auto simp: view_def gone_def with_piece_def)
    qed
  qed
  show "ready u'" if f: "ready u" "fits (Impl ctx s) op fin (length d) u"
    and h: "impl_handleFragment (Impl ctx s) d 0 op fin u = (False, u')"
  proof -
    have f': "fits (Impl ctx s) op fin (length d + 0) u" using f(2) by simp
    note r = readyD [OF f(1)] and fp = first_piece [OF f(1) f', unfolded of_nat_0]
    obtain c x where w: "whole d op u = (c, x)" by fastforce
    show ?thesis
    proof (cases "op < 3 \<and> ?M < length (fragmentBuffer u) + length d \<and> (fragmentBuffer u \<noteq> [] \<or> \<not> fin)")
      case True
      then show ?thesis using fp(1) h by (auto simp: Impl_def)
    next
      case False
      then have le: "op < 3 \<Longrightarrow> length (fragmentBuffer u) + length d \<le> ?M" using fits_size(1) [OF f(2)] by auto
      show ?thesis
      proof (cases fin)
        case True
        from fp(3) [OF le refl True w] h have "\<not> c" "u' = x\<lparr>fragmentBuffer := (if op < 3 then [] else fragmentBuffer u)\<rparr>"
          by (auto simp: Impl_def)
        then show ?thesis using whole_ready(1-5) [OF f(1) w] r by (auto simp: ready_def gone_def)
      next
        case False
        then have "op < 3" using fits_op [OF f(2)] by blast
        moreover have "u' = with_piece d op u" using fp(2) [OF le] False h by (simp add: Impl_def)
        ultimately show ?thesis using le r by (auto simp: ready_def with_piece_def gone_def)
      qed
    qed
  qed
  have early: "\<exists>u''. handleFragment ctx s (d @ e) (of_nat n) op fin u = (True, u'') \<and> view u'' = view (forceClose ctx s ERR_TOO_BIG_MESSAGE u)"
    if f: "ready u" "fits (Impl ctx s) op fin (length d + length e + n) u" "e \<noteq> []" "op < 3" "?M < length (fragmentBuffer u) + length (d @ e)"
  proof -
    have "fits (Impl ctx s) op fin (length (d @ e) + n) u" using f(2) by simp
    moreover have "fragmentBuffer u \<noteq> [] \<or> \<not> (n = 0 \<and> fin)" using f(5) fits_size(1) [OF f(2)] by auto
    ultimately show ?thesis using first_piece(1) [OF f(1), of op fin "d @ e" n] f(4,5) by blast
  qed
  show "\<exists>u''. impl_handleFragment (Impl ctx s) (d @ e) (of_nat n) op fin u = (True, u'') \<and> view u'' = view u'"
    if f: "ready u" "fits (Impl ctx s) op fin (length d + length e + n) u" "e \<noteq> []"
      "impl_handleFragment (Impl ctx s) d (of_nat (length e + n)) op fin u = (True, u')"
  proof -
    have f': "fits (Impl ctx s) op fin (length d + (length e + n)) u" using f(2) by (simp add: add.assoc)
    have n: "\<not> (length e + n = 0 \<and> fin)" using f(3) by simp
    show ?thesis
    proof (cases "op < 3 \<and> ?M < length (fragmentBuffer u) + length d")
      case True
      then have "u' = forceClose ctx s ERR_TOO_BIG_MESSAGE u" using first_piece(1) [OF f(1) f'] n f(4) by (auto simp: Impl_def)
      then show ?thesis using early [OF f(1-3)] True by (auto simp: Impl_def)
    next
      case False
      then show ?thesis using first_piece(2) [OF f(1) f' _ n] f(4) by (auto simp: Impl_def)
    qed
  qed
  show "\<exists>w'. impl_handleFragment (Impl ctx s) (d @ e) (of_nat n) op fin u = (b, w') \<and> view w' = view w \<and> (b \<or> w' = w)"
    if f: "ready u" "fits (Impl ctx s) op fin (length d + length e + n) u" "e \<noteq> []"
      "impl_handleFragment (Impl ctx s) d (of_nat (length e + n)) op fin u = (False, u')"
      "impl_handleFragment (Impl ctx s) e (of_nat n) op fin u' = (b, w)"
  proof -
    have f': "fits (Impl ctx s) op fin (length d + (length e + n)) u" using f(2) by (simp add: add.assoc)
    have f'': "fits (Impl ctx s) op fin (length (d @ e) + n) u" using f(2) by simp
    have n: "\<not> (length e + n = 0 \<and> fin)" using f(3) by simp
    have le: "op < 3 \<Longrightarrow> length (fragmentBuffer u) + length d \<le> ?M"
      using first_piece(1) [OF f(1) f'] n f(4) by (cases "?M < length (fragmentBuffer u) + length d") (auto simp: Impl_def)
    have u': "u' = with_piece d op u" using first_piece(2) [OF f(1) f' le n] f(4) by (simp add: Impl_def)
    note nx = next_piece [OF f(1,2) le, folded u']
    have h: "handleFragment ctx s e (of_nat n) op fin u' = (b, w)" using f(5) by (simp add: Impl_def)
    show ?thesis
    proof (cases "op < 3 \<and> ?M < length (fragmentBuffer u) + length (d @ e)")
      case True
      then have "fragmentBuffer u @ d \<noteq> [] \<or> \<not> (n = 0 \<and> fin)" using fits_size(1) [OF f(2)] by auto
      then have "b" "w = forceClose ctx s ERR_TOO_BIG_MESSAGE u'" using nx(1) True h by auto
      moreover have "view u' = view u" by (simp add: u' view_def with_piece_def)
      ultimately show ?thesis using early [OF f(1-3)] True force_view [of u' u] by (auto simp: Impl_def)
    next
      case False
      then have le': "op < 3 \<Longrightarrow> length (fragmentBuffer u) + length (d @ e) \<le> ?M" by auto
      show ?thesis
      proof (cases "n = 0 \<and> fin")
        case True
        obtain c x where wh: "whole (d @ e) op u = (c, x)" by fastforce
        from first_piece(3) [OF f(1) f'' le' _ _ wh] nx(3) [OF _ le' _ _ wh] True h show ?thesis
          by (fastforce simp: Impl_def)
      next
        case False
        then show ?thesis using first_piece(2) [OF f(1) f'' le'] nx(2) [OF _ le'] h by (auto simp: Impl_def)
      qed
    qed
  qed
qed

end

sublocale ws_connection \<subseteq> fh: frame_handler "Impl ctx s" view "gone s" ready
  by (rule handler)

end
