(* ===== verification/Uws_Application.thy ===== *)
theory Uws_Application imports
  "Uws_Receiver"
begin

section \<open>Applications of WebSocket connections\<close>

text \<open>
  An application answers an event of its connection by calling the connection's interface, from inside the handler.
  \<open>served ctx s app limit n\<close> is the context of such an application, over the settings of \<open>ctx\<close> with the limit \<open>limit\<close> on payloads, whose
  handlers nest at most \<open>n\<close> deep: closing in a handler calls the close handler, which may call again. It
  meets the contract \<open>ws_connection\<close> whatever \<open>app\<close> decides.
\<close>

datatype ws_event = On_message "u8 list" u8 | On_drain | On_close int "u8 list" | On_ping "u8 list" | On_pong "u8 list"
  | On_socket_closed

datatype ws_call =
    Send "u8 list" u8 bool bool
  | Send_first "u8 list" u8 bool
  | Send_fragment "u8 list" bool
  | Send_last "u8 list" bool
  | End int "u8 list"
  | Close

type_synonym ('a, 'z) ws_app = "ws_event \<Rightarrow> ('a, 'z) ws_outer \<Rightarrow> 'a \<times> ws_call list"

fun carry_out :: "('a, 'z) ws_context \<Rightarrow> addr \<Rightarrow> CompressionStatus \<Rightarrow> ws_call \<Rightarrow> ('a, 'z) ws_outer \<Rightarrow> ('a, 'z) ws_outer" where
  "carry_out ctx s c (Send m op compress fin) w = snd (send ctx s c m op compress fin w)"
| "carry_out ctx s c (Send_first m op compress) w = snd (sendFirstFragment ctx s c m op compress w)"
| "carry_out ctx s c (Send_fragment m compress) w = snd (sendFragment ctx s c m compress w)"
| "carry_out ctx s c (Send_last m compress) w = snd (sendLastFragment ctx s c m compress w)"
| "carry_out ctx s c (End code m) w = ws_end ctx s code m c w"
| "carry_out ctx s c Close w = ws_close ctx s c w"

definition with_handlers :: "('a, 'z) ws_context \<Rightarrow> u32 \<Rightarrow> (ws_event \<Rightarrow> ('a, 'z) effect) \<Rightarrow> ('a, 'z) ws_context" where
  "with_handlers ctx limit h = ctx\<lparr>maxPayloadLength := ucast limit, messageHandler := Some (\<lambda>d op. h (On_message d op)),
     drainHandler := Some (h On_drain), closeHandler := Some (\<lambda>code m. h (On_close code m)),
     pingHandler := Some (\<lambda>d. h (On_ping d)), pongHandler := Some (\<lambda>d. h (On_pong d)),
     onSocketClosed := Some (h On_socket_closed)\<rparr>"

definition react :: "('a, 'z) ws_context \<Rightarrow> addr \<Rightarrow> ('a, 'z) ws_app \<Rightarrow> ws_event \<Rightarrow> ('a, 'z) effect" where
  "react ctx s app e c w = (let (a, calls) = app e w in fold (carry_out ctx s c) calls (w\<lparr>application := a\<rparr>))"

primrec served :: "('a, 'z) ws_context \<Rightarrow> addr \<Rightarrow> ('a, 'z) ws_app \<Rightarrow> u32 \<Rightarrow> nat \<Rightarrow> ('a, 'z) ws_context" where
  "served ctx s app limit 0 = with_handlers ctx limit (\<lambda>e c w. w\<lparr>application := fst (app e w)\<rparr>)"
| "served ctx s app limit (Suc n) = with_handlers ctx limit (react (served ctx s app limit n) s app)"

subsection \<open>They meet the contract\<close>

definition decent :: "addr \<Rightarrow> (('a, 'z) ws_outer \<Rightarrow> ('a, 'z) ws_outer) \<Rightarrow> bool" where
  "decent s f \<longleftrightarrow> (\<forall>w. plain s w \<longrightarrow> plain s (f w) \<and> (closing s w \<longrightarrow> closing s (f w)))"

lemma decentI:
  "(\<And>w. plain s w \<Longrightarrow> plain s (f w) \<and> (closing s w \<longrightarrow> closing s (f w))) \<Longrightarrow> decent s f"
  by (simp add: decent_def)

lemma decent_fold: "(\<And>x. x \<in> set xs \<Longrightarrow> decent s (f x)) \<Longrightarrow> decent s (fold f xs)"
  by (induction xs) (auto simp: decent_def)

lemma decent_set [simp]: "plain s (w\<lparr>application := a\<rparr>) = plain s w" "closing s (w\<lparr>application := a\<rparr>) = closing s w"
  by (simp_all add: plain_def closing_def ws_closed_def)

lemma decent_send: "decent s (\<lambda>w. snd (send ctx s c m op compress fin w))"
  using send_steady by (fastforce simp: decent_def closing_def)

lemma decent_net: "(\<And>u. no_tls s (us u) \<Longrightarrow> calm s u (f u)) \<Longrightarrow> decent s (upd_net f)"
  using calm_keeps by (fastforce simp: decent_def plain_def closing_def ws_closed_def)

lemma decent_comp: "decent s f \<Longrightarrow> decent s g \<Longrightarrow> decent s (\<lambda>w. g (f w))"
  by (simp add: decent_def)

lemma served_close_call: "call_closeHandler (with_handlers ctx limit h) code m c v = h (On_close code m) c v"
  by (simp add: call_closeHandler_def with_handlers_def)

lemma decent_end:
  fixes h :: "ws_event \<Rightarrow> ('a, 'z) effect"
  assumes h: "\<And>e c. decent s (h e c)"
  shows "decent s (ws_end (with_handlers ctx limit h) s code m c)"
proof (rule decentI)
  let ?ctx = "with_handlers ctx limit h"
  fix w :: "('a, 'z) ws_outer" assume p: "plain s w"
  show "plain s (ws_end ?ctx s code m c w) \<and> (closing s w \<longrightarrow> closing s (ws_end ?ctx s code m c w))"
  proof (cases "isShuttingDown w")
    case True
    then show ?thesis using p by (simp add: ws_end_def)
  next
    case False
    from end_calls [OF p False, of ?ctx code m c] show ?thesis using h by (auto simp: served_close_call decent_def)
  qed
qed

lemma onClose_ends:
  fixes h :: "ws_event \<Rightarrow> ('a, 'z) effect"
  assumes h: "\<And>e c. decent s (h e c)" and "plain s v" "ws_closed s v"
  shows "plain s (onClose (with_handlers ctx limit h) s reason c v) \<and> closing s (onClose (with_handlers ctx limit h) s reason c v)"
proof -
  let ?v = "h On_socket_closed c (upd_net (uncorkWithoutSending s) v)"
  have "plain s (upd_net (uncorkWithoutSending s) v)" "closing s (upd_net (uncorkWithoutSending s) v)"
    using assms(2,3) by (simp_all add: closing_def ws_closed_def is_closed_def uncorkWithoutSending_def plain_def)
  then have "plain s ?v" "closing s ?v" using h by (auto simp: decent_def)
  moreover have "onClose (with_handlers ctx limit h) s reason c v = (if isShuttingDown ?v then ?v else h (On_close 1006 reason) c ?v)"
    by (simp add: onClose_def Let_def served_close_call) (simp add: with_handlers_def)
  ultimately show ?thesis using h by (simp add: decent_def)
qed

lemma decent_close_socket:
  fixes h :: "ws_event \<Rightarrow> ('a, 'z) effect"
  assumes h: "\<And>e c. decent s (h e c)"
  shows "decent s (close_socket (with_handlers ctx limit h) s reason c)"
proof (rule decentI)
  let ?ctx = "with_handlers ctx limit h"
  fix w :: "('a, 'z) ws_outer" assume p: "plain s w"
  show "plain s (close_socket ?ctx s reason c w) \<and> (closing s w \<longrightarrow> closing s (close_socket ?ctx s reason c w))"
  proof (cases "ws_closed s w")
    case True
    then show ?thesis using p by (simp add: close_socket_def)
  next
    case False
    from close_calls [OF p this, of ?ctx reason c] show ?thesis using onClose_ends [OF h] by auto
  qed
qed

lemma decent_carry_out:
  fixes h :: "ws_event \<Rightarrow> ('a, 'z) effect"
  assumes h: "\<And>e c. decent s (h e c)"
  shows "decent s (carry_out (with_handlers ctx limit h) s c call)"
  using decent_send decent_end [OF h] decent_close_socket [OF h]
  by (cases call) (simp_all add: decent_def sendFirstFragment_def sendFragment_def sendLastFragment_def ws_close_def)

lemma decent_react:
  fixes h :: "ws_event \<Rightarrow> ('a, 'z) effect"
  assumes h: "\<And>e c. decent s (h e c)"
  shows "decent s (react (with_handlers ctx limit h) s app e c)"
proof (rule decentI)
  fix w :: "('a, 'z) ws_outer" assume p: "plain s w"
  have "decent s (fold (carry_out (with_handlers ctx limit h) s c) (snd (app e w)))" by (rule decent_fold) (rule decent_carry_out [OF h])
  then show "plain s (react (with_handlers ctx limit h) s app e c w)
      \<and> (closing s w \<longrightarrow> closing s (react (with_handlers ctx limit h) s app e c w))"
    using p by (simp add: decent_def react_def case_prod_beta Let_def)
qed

lemma served_handlers: "\<exists>h. served ctx s app limit n = with_handlers ctx limit h \<and> (\<forall>e c. decent s (h e c))"
proof (induction n)
  case 0
  have "decent s (\<lambda>w. w\<lparr>application := fst (app e w)\<rparr>)" for e by (simp add: decent_def)
  then show ?case by (intro exI [of _ "\<lambda>e c w. w\<lparr>application := fst (app e w)\<rparr>"]) simp
next
  case (Suc n)
  then obtain h where h: "served ctx s app limit n = with_handlers ctx limit h" "\<And>e c. decent s (h e c)" by blast
  then show ?case using decent_react [of s h]
    by (intro exI [of _ "react (served ctx s app limit n) s app"]) simp
qed

lemma served_connection: "ws_connection (served ctx s app limit n) s"
proof -
  obtain h where h: "served ctx s app limit n = with_handlers ctx limit h" "\<And>e c. decent s (h e c)"
    using served_handlers by blast
  have "unat limit < 2 ^ 32" using unsigned_less [of limit, where 'a = nat] by simp
  then have "(ucast limit :: u64) < 2 ^ 32" by (simp add: word_less_nat_alt unsigned_ucast_eq take_bit_nat_eq_self)
  then show ?thesis using h(2) by unfold_locales (auto simp: h(1) with_handlers_def decent_def)
qed

interpretation wc: ws_connection "served ctx s app limit n" s for ctx s app limit n
  by (rule served_connection)

end
