(* ===== verification/Uws_Example.thy ===== *)
theory Uws_Example imports
  "Uws_Application"
  "Uws_Buffering"
begin

section \<open>A concrete connection\<close>

text \<open>A new connection on the open socket of \<open>scene\<close>, and an application, on which the theorems are applied.\<close>

definition new_connection :: "addr \<Rightarrow> ('a, 'z) websocket \<Rightarrow> bool" where
  "new_connection s d \<longleftrightarrow> plain s (outer d) \<and> \<not> gone s d \<and> compressionStatus d = DISABLED \<and> controlTipLength d = 0
     \<and> fragmentBuffer d = []"

definition bare_context :: "('a, unit) ws_context" where
  "bare_context = \<lparr>SSL = False, maxPayloadLength = 0, maxBackpressure = 0, closeOnBackpressureLimit = False,
     resetIdleTimeoutOnSend = False, sendPingsAutomatically = False, idleTimeoutComponents = (0, 0),
     messageHandler = None, drainHandler = None, closeHandler = None, pingHandler = None, pongHandler = None,
     onSocketClosed = None, inflate = (\<lambda>r m k z. (Some m, z)), deflate = (\<lambda>r m z. (m, z)), isValidUtf8 = (\<lambda>m. True)\<rparr>"

text \<open>An application that keeps the messages it gets.\<close>

fun keeper :: "(u8 list list, unit) ws_app" where
  "keeper (On_message m op) w = (application w @ [m], [])"
| "keeper _ w = (application w, [])"

definition first_state :: "(u8 list list, unit) websocket" where
  "first_state = WebSocketData False False False (fresh_uws (scene [])) () []"

lemma first_new: "new_connection 7 first_state"
  by (simp add: new_connection_def first_state_def WebSocketData_def gone_def ws_closed_def plain_def no_tls_def is_closed_def fresh_uws_def
      us_socket_is_closed_def scene_facts)

end
