(* ===== verification/Uws_Sessions.thy ===== *)
theory Uws_Sessions imports
  Uws_Example
begin

section \<open>Properties of WebSocket connections\<close>

subsection \<open>The frames of a client\<close>

lemma le_nat_le_bytes: "le_nat (le_bytes n (v :: 'a::len word)) = unat v mod 256 ^ n"
proof (induction n v rule: le_bytes.induct)
  case (2 n v)
  have "unat (ucast v :: u8) = unat v mod 256" by (simp add: unsigned_ucast_eq take_bit_eq_mod)
  moreover have "unat (drop_bit 8 v) = unat v div 256" by (simp only: unsigned_drop_bit_eq) (simp add: drop_bit_nat_def take_bit_nat_eq_self)
  ultimately show ?case using 2 by (simp add: mod_mult2_eq)
qed simp

lemma be_nat_swapped:
  assumes "8 * n \<le> LENGTH('a::len)" "unat v < 256 ^ n"
  shows "be_nat (le_bytes n (cond_byte_swap n (v :: 'a word))) = unat v"
proof -
  have "le_bytes n (cond_byte_swap n v) = rev (le_bytes n v)"
    using le_bytes_le_word [of "rev (le_bytes n v)", where 'a = 'a] assms(1) by (simp add: cond_byte_swap_def)
  then show ?thesis using assms(2) by (simp add: be_nat_def le_nat_le_bytes)
qed

definition client_frame :: "u8 list \<Rightarrow> u8 \<Rightarrow> bool \<Rightarrow> u32 \<Rightarrow> u8 list" where
  "client_frame m op fin key = formatMessage False m op (of_nat (length m)) False fin key"

lemma client_header:
  assumes "length m < 2 ^ 32" "op \<in> {CONTINUATION, TEXT, BINARY, CLOSE, PING, PONG}"
    "op \<in> {CLOSE, PING, PONG} \<longrightarrow> fin \<and> length m \<le> 125"
  shows "\<exists>hs. client_frame m op fin key = hs @ mask_from 0 (le_bytes 4 key) m \<and> head_ok hs \<and> length hs = head_size hs
    \<and> head_op hs = op \<and> head_fin hs = fin \<and> payload_size hs = length m \<and> head_key hs = le_bytes 4 key"
proof -
  let ?n = "length m" and ?key = "le_bytes 4 key"
  let ?w = "of_nat ?n :: u64"
  have n: "unat ?w = ?n" using assms(1) by (simp add: unat_of_nat)
  let ?dst0 = "(if fin then 128 else 0) OR (if False \<and> op \<noteq> 0 then SND_COMPRESSED else 0) OR op :: u8"
  have d0: "?dst0 AND 15 = op" "bit ?dst0 7 = fin" "?dst0 AND 112 = 0"
    using assms(2) by (auto simp: CONTINUATION_def TEXT_def BINARY_def CLOSE_def PING_def PONG_def)
  have ok: "head_ok (?dst0 # b # hs)" if "b AND 127 \<le> 125 \<or> op \<notin> {CLOSE, PING, PONG}" for b hs
    using assms(2,3) d0 that by (auto simp: head_ok_def head_op_def head_fin_def head_len_def word_le_nat_alt)
  note hd = head_op_def head_fin_def head_len_def head_size_def payload_size_def head_key_def
  show ?thesis
  proof (cases "?n < 126")
    case True
    let ?b = "ucast ?w OR 0x80 :: u8"
    have "?b AND 127 = take_bit 7 (ucast ?w)"
      by (simp add: bit.conj_disj_distrib2 take_bit_eq_mask mask_eq_exp_minus_1)
    then have b: "unat (?b AND 127) = ?n"
      using True by (simp add: unsigned_take_bit_eq unsigned_ucast_eq n take_bit_nat_eq_self)
    have f: "client_frame m op fin key = (?dst0 # ?b # ?key) @ mask_from 0 ?key m"
      using True n by (simp add: client_frame_def formatMessage_def word_less_nat_alt Let_def)
    show ?thesis by (rule exI [of _ "?dst0 # ?b # ?key"]) (use f ok True b d0 in \<open>auto simp: hd word_le_nat_alt\<close>)
  next
    case False
    then have nc: "op \<notin> {CLOSE, PING, PONG}" using assms(3) by auto
    show ?thesis
    proof (cases "?n \<le> 65535")
      case True
      let ?x = "le_bytes 2 (cond_byte_swap 2 (ucast ?w :: u16))"
      have f: "client_frame m op fin key = (?dst0 # 254 # ?x @ ?key) @ mask_from 0 ?key m"
        using True False n by (simp add: client_frame_def formatMessage_def word_less_nat_alt word_le_nat_alt Let_def)
      have "unat (ucast ?w :: u16) = ?n" using True by (simp add: unsigned_ucast_eq n take_bit_nat_eq_self)
      then have x: "be_nat ?x = ?n" using True be_nat_swapped [of 2 "ucast ?w :: u16"] by simp
      show ?thesis by (rule exI [of _ "?dst0 # 254 # ?x @ ?key"]) (use f ok nc x d0 in \<open>auto simp: hd\<close>)
    next
      case False
      let ?x = "le_bytes 8 (cond_byte_swap 8 ?w)"
      have f: "client_frame m op fin key = (?dst0 # 255 # ?x @ ?key) @ mask_from 0 ?key m"
        using False n by (simp add: client_frame_def formatMessage_def word_less_nat_alt word_le_nat_alt Let_def)
      have x: "be_nat ?x = ?n" using assms(1) n be_nat_swapped [of 8 ?w] by simp
      show ?thesis by (rule exI [of _ "?dst0 # 255 # ?x @ ?key"]) (use f ok nc x d0 in \<open>auto simp: hd\<close>)
    qed
  qed
qed

subsection \<open>A frame, read\<close>

context frame_handler begin

lemma read_frame:
  assumes "phase a = Header []" "head_ok hs" "length hs = head_size hs" "payload_size hs = length m"
    and "head_op hs \<noteq> 0" "stack a = []" "fin_seen a"
    and "fresh (receiver a)" "fits impl (head_op hs) (head_fin hs) (length m) (receiver a)"
  shows "agree (read_bytes impl (hs @ mask_from 0 (head_key hs) m) a)
    (progress impl (head_op hs) (head_fin hs) (head_key hs) m 0 (a\<lparr>stack := [head_op hs], fin_seen := head_fin hs\<rparr>))"
proof -
  let ?a = "a\<lparr>stack := [head_op hs], fin_seen := head_fin hs\<rparr>"
  have r: "\<not> impl_refusePayloadLength impl (of_nat (length m)) (receiver a)" using assms(9) by (simp add: fits_def)
  have "read_bytes impl hs a = progress impl (head_op hs) (head_fin hs) (head_key hs) [] (length m) ?a"
    using header_done [OF assms(1-3)] assms(4-7) r by (simp add: begin_frame_def Let_def)
  then show ?thesis
    using read_payload [of ?a "head_op hs" "head_fin hs" "[]" "length m" "mask_from 0 (head_key hs) m" "head_key hs"]
      assms(8,9) by simp
qed

lemma agree_shown: "agree a b \<Longrightarrow> view (shown impl a) = view (shown impl b) \<and> (phase a = Dead \<longleftrightarrow> phase b = Dead)"
  by (auto simp: agree_def shown_def)

end

subsection \<open>Messages of a client\<close>

text \<open>What the application makes of messages, one after the other, while the connection lasts.\<close>

definition deliver :: "('a, 'z) ws_context \<Rightarrow> addr \<Rightarrow> u8 list \<times> u8 \<times> u32 \<Rightarrow> ('a, 'z) ws_outer \<Rightarrow> ('a, 'z) ws_outer" where
  "deliver ctx s = (\<lambda>(m, op, key) w. if closing s w then w
     else case messageHandler ctx of None \<Rightarrow> w | Some h \<Rightarrow> h m op DISABLED w)"

definition acceptable :: "('a, 'z) ws_context \<Rightarrow> u8 list \<times> u8 \<times> u32 \<Rightarrow> bool" where
  "acceptable ctx = (\<lambda>(m, op, key). length m \<le> unat (maxPayloadLength ctx) \<and> op \<in> {TEXT, BINARY}
     \<and> (op = TEXT \<longrightarrow> isValidUtf8 ctx m))"

context ws_connection begin

lemma deliver_closing: "closing s w \<Longrightarrow> fold (deliver ctx s) ms w = w"
  by (induction ms) (auto simp: deliver_def)

lemma whole_delivers:
  assumes "ready d" "fragmentBuffer d = []" "acceptable ctx (m, op, key)"
  shows "\<exists>d'. handleFragment ctx s m 0 op True d = (gone s d', d') \<and> outer d' = deliver ctx s (m, op, key) (outer d)
    \<and> fragmentBuffer d' = []"
proof -
  note r = readyD [OF assms(1)]
  have op: "op < 3" "op = 1 \<Longrightarrow> isValidUtf8 ctx m" using assms(3) by (auto simp: acceptable_def TEXT_def BINARY_def)
  obtain b d' where w: "whole_message ctx s m op d = (b, d')" by fastforce
  have "outer d' = deliver ctx s (m, op, key) (outer d)"
    using w r(2,3) op(2) by (auto simp: whole_message_def deliver_def on_outer_def gone_closing Let_def split: option.splits if_splits)
  then show ?thesis using whole_message_ready(1,2) [OF r(1-3) w] w op(1) assms(2) by (simp add: handleFragment_def)
qed

lemma messages_read:
  assumes "phase a = Header []" "stack a = []" "fin_seen a" "ready (receiver a)" "fragmentBuffer (receiver a) = []"
    and "\<forall>x \<in> set ms. acceptable ctx x"
  shows "outer (shown (Impl ctx s) (read_bytes (Impl ctx s)
      (concat (map (\<lambda>(m, op, key). client_frame m op True key) ms)) a)) = fold (deliver ctx s) ms (outer (receiver a))"
  using assms
proof (induction ms arbitrary: a)
  case Nil
  then show ?case by (simp add: shown_def)
next
  case (Cons x ms)
  obtain m op key where x: "x = (m, op, key)" by (cases x)
  let ?rest = "concat (map (\<lambda>(m, op, key). client_frame m op True key) ms)"
  have acc: "acceptable ctx (m, op, key)" using Cons.prems(6) x by simp
  then have m: "length m \<le> unat (maxPayloadLength ctx)" "op \<in> {TEXT, BINARY}" by (simp_all add: acceptable_def)
  have l: "length m < 2 ^ 32" using m(1) max_nat by linarith
  have "op \<in> {CONTINUATION, TEXT, BINARY, CLOSE, PING, PONG}" "\<not> op \<in> {CLOSE, PING, PONG}" "op \<noteq> 0"
    using m(2) by (auto simp: TEXT_def BINARY_def CLOSE_def PING_def PONG_def)
  then obtain hs where hs: "client_frame m op True key = hs @ mask_from 0 (head_key hs) m" "head_ok hs" "length hs = head_size hs"
    "head_op hs = op" "head_fin hs" "payload_size hs = length m" and nz: "op \<noteq> 0"
    using client_header [OF l, of op True key] by (metis (full_types))
  have "fits (Impl ctx s) op True (length m) (receiver a)"
    using m l \<open>\<not> op \<in> {CLOSE, PING, PONG}\<close> refuse_sum [of "length m" 0] by (auto simp: fits_def Impl_def)
  then have ag: "fh.agree (read_bytes (Impl ctx s) (hs @ mask_from 0 (head_key hs) m) a)
      (progress (Impl ctx s) op True (head_key hs) m 0 (a\<lparr>stack := [op], fin_seen := True\<rparr>))"
    using fh.read_frame [of a hs m] Cons.prems hs nz by simp
  from whole_delivers [OF Cons.prems(4,5) acc] obtain d' where
    d: "handleFragment ctx s m 0 op True (receiver a) = (gone s d', d')" "outer d' = deliver ctx s x (outer (receiver a))"
      "fragmentBuffer d' = []" unfolding x by blast
  let ?b = "progress (Impl ctx s) op True (head_key hs) m 0 (a\<lparr>stack := [op], fin_seen := True\<rparr>)"
  have b: "?b = (if gone s d' then broken_off d' (a\<lparr>stack := [op], fin_seen := True\<rparr>)
      else a\<lparr>phase := Header [], receiver := d', stack := [], fin_seen := True\<rparr>)"
    using d(1) by (simp add: progress_def Impl_def)
  have "view (shown (Impl ctx s) (read_bytes (Impl ctx s) ?rest (read_bytes (Impl ctx s) (client_frame m op True key) a)))
      = view (shown (Impl ctx s) (read_bytes (Impl ctx s) ?rest ?b))"
    using fh.agree_shown [OF fh.agree_read [OF ag]] by (simp add: hs(1))
  moreover have "outer (shown (Impl ctx s) (read_bytes (Impl ctx s) ?rest ?b)) = fold (deliver ctx s) ms (outer d')"
  proof (cases "gone s d'")
    case True
    then show ?thesis using b deliver_closing [of "outer d'" ms] gone_closing [of d']
      by (simp add: read_bytes_Dead broken_off_def shown_def)
  next
    case False
    have "ready d'" using fh.whole_fresh [of "receiver a" op True m d'] Cons.prems(4) d(1) False
        \<open>fits (Impl ctx s) op True (length m) (receiver a)\<close> by (simp add: Impl_def)
    then show ?thesis using Cons.IH [of ?b] Cons.prems(6) b False d(3) by simp
  qed
  ultimately show ?case using d(2) by (simp add: x view_def)
qed

end

subsection \<open>Properties\<close>

lemma new_ready: "new_connection s d \<Longrightarrow> wc.ready ctx s app limit n d"
  by (simp add: new_connection_def wc.ready_def)

text \<open>
  C5: The parser of WebSocket frames, which works in place on whatever segments the system delivers, keeps incomplete
  headers, unmasks four bytes at a time over the header and forwards parts of payloads, does to a connection what a reader
  that takes one byte at a time does: for every application and every division of the input into segments it returns, and leaves
  the connection, the application's state included, as the reader leaves it on the bytes of the segments; the
  connection is gone exactly when the reader has broken off. So the division into segments does not matter. (The
  connection is new, without TLS and compression; compressed frames are refused.)
\<close>

theorem parser_reads_frames:
  fixes ctx :: "('a, 'z) ws_context" and app :: "('a, 'z) ws_app" and s :: addr and limit :: u32 and n :: nat
  assumes "new_connection s d" "\<forall>seg \<in> set segs. segment_ok seg" "CONSUME_PRE_PADDING True \<le> base"
  defines "impl \<equiv> Impl (served ctx s app limit n) s"
  shows "\<exists>m' st' d'. consume_all impl (gone s) base segs (m, WebSocketState True, d) = Some (m', st', d')
     \<and> outer d' = outer (shown impl (read_bytes impl (concat segs) (new_reader d)))
     \<and> (gone s d' \<longleftrightarrow> phase (read_bytes impl (concat segs) (new_reader d)) = Dead)"
  unfolding impl_def
  using wc.fh.segments_read [OF new_ready [OF assms(1)] assms(2), where base = base and m = m and ctx = ctx and app = app and limit = limit and n = n] assms(3)
  by (auto simp: wc.view_def CONSUME_PRE_PADDING_def LONG_MESSAGE_HEADER_def)


lemma two_segments: "\<forall>seg \<in> set [[130, 129], [0, 0, 0, 0, 1]]. segment_ok seg"
  by (simp add: segment_ok_def CONSUME_PRE_PADDING_def LONG_MESSAGE_HEADER_def)

theorem parser_reads_frames_witness:
  "\<exists>m' st' d'. consume_all (Impl (served bare_context 7 keeper 1000 1) 7) (gone 7) 13 [[130, 129], [0, 0, 0, 0, 1]]
      (\<lambda>_. 0, WebSocketState True, first_state) = Some (m', st', d')
     \<and> outer d' = outer (shown (Impl (served bare_context 7 keeper 1000 1) 7)
         (read_bytes (Impl (served bare_context 7 keeper 1000 1) 7) [130, 129, 0, 0, 0, 0, 1] (new_reader first_state)))"
proof -
  have p: "CONSUME_PRE_PADDING True \<le> 13" by (simp add: CONSUME_PRE_PADDING_def LONG_MESSAGE_HEADER_def)
  have c: "concat [[130, 129], [0, 0, 0, 0, 1]] = [130, 129, 0, 0, 0, 0, 1 :: u8]" by simp
  from parser_reads_frames [OF first_new two_segments p, of bare_context keeper 1000 1 "\<lambda>_. 0", unfolded c]
  show ?thesis by blast
qed


end
