(* ===== verification/Uws_Sending.thy ===== *)
theory Uws_Sending imports
  Uws_Example
  "Us_Output"
begin

section \<open>What sending puts on the wire\<close>

subsection \<open>The parts\<close>

definition server_frame :: "u8 list \<Rightarrow> u8 \<Rightarrow> bool \<Rightarrow> u8 list" where
  "server_frame m op fin = formatMessage True m op (of_nat (length m)) False fin 0"

lemma frame_size:
  assumes "length m < 2 ^ 32"
  shows "unat (messageFrameSize (of_nat (length m))) = length (server_frame m op fin)"
proof -
  have "unat (of_nat (length m) :: u64) = length m" using assms by (simp add: unat_of_nat)
  moreover have "unat (k + of_nat (length m) :: u64) = unat k + length m" if "k \<le> 10" for k
    using assms that by (simp add: word_le_nat_alt unat_word_ariths(1) unat_of_nat)
  ultimately show ?thesis
    by (simp add: messageFrameSize_def server_frame_def formatMessage_def word_less_nat_alt word_le_nat_alt Let_def)
qed

lemma frame_longer: "length m \<le> length (server_frame m op fin)"
  by (simp add: server_frame_def formatMessage_def Let_def)

lemma gave_us:
  assumes "async_ok u" "\<And>t. us_socket_is_closed t (f (us u)) = us_socket_is_closed t (us u)"
  shows "gave s [] u (upd_us f u)"
  using assms
  by (simp add: gave_def upd_us_def async_ok_def slots_ok_def stream_def corked_def pending_def findCorkSlot_def
      getCorkSlot_def is_closed_def split: option.split slot.split)

lemma quiet_closed: "quiet w w' \<Longrightarrow> us_socket_is_closed t w' = us_socket_is_closed t w"
  by (simp add: quiet_def us_socket_is_closed_def)

lemma write2_keeps_closed: "us_socket_is_closed t (snd (us_socket_write2 s d e w)) = us_socket_is_closed t w"
  by (rule quiet_closed [OF quiet_writes(2)]) (rule quiet_refl)

lemma unborrow:
  "slots_ok u \<Longrightarrow> unborrowCorkSlot s u = (case findCorkSlot s u of None \<Rightarrow> u | Some i \<Rightarrow> releaseCorkSlot i u)"
  by (auto simp: unborrowCorkSlot_def findCorkSlot_def slots_ok_def releaseCorkSlot_def set_slot_def Let_def)

lemma release_simps [simp]:
  "async (releaseCorkSlot i u) = async u" "sent (releaseCorkSlot i u) = sent u" "is_closed t (releaseCorkSlot i u) = is_closed t u"
  by (simp_all add: releaseCorkSlot_def is_closed_def)

lemma released_stream:
  assumes "async_ok u" "corked s u = []"
  shows "gave s [] u (uncorkWithoutSending s u)"
proof (cases "findCorkSlot s u")
  case None
  then show ?thesis using assms gave_nothing by (simp add: uncorkWithoutSending_def unborrow async_okD)
next
  case (Some i)
  note rl = released [OF async_okD(1) [OF assms(1)] Some]
  have "gave s [] u (releaseCorkSlot i u)"
    by (rule gaveI) (use rl assms in \<open>auto simp: async_ok_def stream_def pending_def split: if_splits\<close>)
  then show ?thesis using assms(1) Some by (simp add: uncorkWithoutSending_def unborrow async_okD)
qed

lemma write2_stream:
  assumes "socket_write2 s h d u = (k, v)" "async_ok u"
  shows "sent v t = (if t = s then sent u s @ take k (h @ d) else sent u t)" "pending t v = pending t u" "corked t v = corked t u"
    "async v = async u" "async_ok v" "is_closed t v = is_closed t u" "findCorkSlot t v = findCorkSlot t u"
  using assms write2_keeps_closed [of t s h d "us u"]
  by (auto simp: socket_write2_def pending_def corked_def findCorkSlot_def getCorkSlot_def async_ok_def slots_ok_def is_closed_def
      split: prod.splits option.splits slot.splits)

lemma long_stream:
  assumes r: "send_long s m op fin u = (failed, v)" and ok: "async_ok u" "getBufferedAmount s u = 0" "corkBufferEmpty s u"
  shows "gave s (server_frame m op fin) u v"
proof -
  let ?h = "formatMessage True [] op (of_nat (length m)) False fin 0"
  have f: "server_frame m op fin = ?h @ m" by (simp add: server_frame_def formatMessage_def Let_def)
  obtain k w where w: "socket_write2 s ?h m u = (k, w)" by fastforce
  note sw = write2_stream [OF w ok(1)]
  have e: "bp_data (async u s) = []" "corked s u = []" "pending s u = []"
    using ok(2,3) by (auto simp: getBufferedAmount_def bp_totalLength_def bp_data_def corkBufferEmpty_def corked_def pending_def split: option.splits)
  have p: "pendingRemoval (async w s) \<le> length (bp_buffer (async w s))" using async_okD(2) [OF ok(1)] by (simp add: sw)
  let ?b = "if k > length ?h then upd_async s (bp_append (drop (k - length ?h) m)) w
    else upd_async s (bp_append m) (upd_async s (bp_append (drop k ?h)) w)"
  have p': "pendingRemoval (async u s) \<le> length (bp_buffer (async u s))" using p by (simp add: sw)
  have pb: "pending t ?b = (if t = s then drop k (?h @ m) else pending t u)" for t
    using p' e(1) by (simp add: sw)
  have ab: "pendingRemoval (async ?b t) \<le> length (bp_buffer (async ?b t))" for t
    using p' async_okD(2) [OF ok(1), of t] by (simp add: sw)
  have cb: "corked t ?b = corked t u" "slots_ok ?b = slots_ok u" "is_closed t ?b = is_closed t u" "findCorkSlot t ?b = findCorkSlot t u"
    "sent ?b = sent w" for t
    using async_okD(1) [OF ok(1)] async_okD(1) [OF sw(5)] by (simp_all add: sw)
  have "async_ok ?b" unfolding async_ok_def cb pb using ab e(2) ok(1) by (auto simp: async_ok_def)
  moreover have "stream t ?b = stream t u @ (if t = s then ?h @ m else [])" for t
    unfolding stream_def cb pb sw(1) using e(2,3) by (cases "t = s") (simp_all del: take_append drop_append)
  moreover have "length (sent u t) \<le> length (sent ?b t)" for t unfolding cb sw(1) by (cases "t = s") simp_all
  ultimately have gb: "gave s (?h @ m) u ?b" by (intro gaveI) (simp_all only: cb, auto)
  have "corked s ?b = []" unfolding cb by (rule e(2))
  from gave_trans [OF gb released_stream [OF gaveD(1) [OF gb] this]]
  have "gave s (?h @ m) u (uncorkWithoutSending s ?b)" by simp
  moreover have "gave s (?h @ m) u w" if "k = length ?h + length m"
  proof (rule gaveI)
    show "stream t w = stream t u @ (if t = s then ?h @ m else [])" for t
      unfolding stream_def sw(1-3) using e(2,3) that by (cases "t = s") simp_all
    show "length (sent u t) \<le> length (sent w t)" for t unfolding sw(1) by (cases "t = s") simp_all
  qed (use sw(5-7) in simp_all)
  ultimately show ?thesis using r w by (auto simp: send_long_def f Let_def split: if_splits)
qed

lemma frame_stream:
  assumes r: "send_frame s ssl m op False fin u = (failed, v)"
    and ok: "async_ok u" "room (length (server_frame m op fin)) u" "\<not> is_closed s u"
  shows "gave s (server_frame m op fin) u v"
proof -
  let ?f = "server_frame m op fin"
  have "length ?f + CORK_BUFFER_SIZE \<le> INT_MAX" using spec [OF ok(2) [unfolded room_def], of s] by linarith
  then have m: "length m < 2 ^ 32" using frame_longer [of m op fin] by (simp add: INT_MAX_def)
  obtain p a w where g: "getSendBuffer s ssl (length ?f) u = ((p, a), w)" by (metis (no_types) surj_pair)
  let ?w = "put s p ?f w"
  have gw: "gave s ?f u ?w" by (rule send_buffer_stream [OF g ok(1)])
  have rw: "room 0 ?w" using gave_room [OF gw, of 0] ok(2) by simp
  then have l: "length (pending s ?w) + CORK_BUFFER_SIZE \<le> INT_MAX" unfolding room_def by (metis add.commute add_leE add.left_commute)
  have nc: "\<not> is_closed s ?w" using gaveD(3) [OF gw] ok(3) by simp
  have w: "gave s [] ?w x" if "async_write s [] False ?w = ((k, fl), x)" for k fl x
    using write_stream [OF that gaveD(1) [OF gw] l nc] by simp
  have uc: "gave s [] ?w x" if "uncork s [] False ?w = ((k, fl), x)" for k fl x
    using uncork_stream [OF that gaveD(1) [OF gw] l nc] by simp
  have "gave s [] ?w v"
    using r w uc gave_nothing [OF gaveD(1) [OF gw]] g
    by (auto simp: send_frame_def frame_size [OF m, of op fin] server_frame_def Let_def split: SendBufferAttribute.splits prod.splits)
  from gave_trans [OF gw this] show ?thesis by simp
qed

subsection \<open>The properties\<close>

lemma frame_room:
  assumes "room n u" "m \<le> n"
  shows "room m u"
  using room_mono [OF assms] .

lemma timeout_stream: "async_ok u \<Longrightarrow> gave s [] u (async_timeout s k u)"
  unfolding async_timeout_def by (erule gave_us) (rule quiet_closed [OF quiet_options(4)], rule quiet_refl)



lemma shut_down_effect:
  assumes "no_tls s w" "\<not> us_socket_is_closed s w"
  shows "us_socket_is_shut_down s (us_socket_timeout s k (us_socket_shutdown s w))
    = (True, us_socket_timeout s k (us_socket_shutdown s w))"
proof -
  let ?v = "us_internal_socket_raw_shutdown s w"
  have "us_internal_poll_type s ?v = POLL_TYPE_SOCKET_SHUT_DOWN"
  proof (cases "us_internal_poll_type s w = POLL_TYPE_SOCKET_SHUT_DOWN")
    case True
    then show ?thesis by (simp add: us_internal_socket_raw_shutdown_def)
  next
    case False
    then show ?thesis using shutdown_once [of w s] assms(2) by (simp add: us_socket_is_closed_def)
  qed
  moreover have "no_tls s (us_socket_timeout s k ?v)"
    using calm_writes(4) [OF assms(1)] calm_writes(3) [of s ?v k] assms(1)
    by (simp add: calm_us_def us_socket_shutdown_def no_tls_def)
  ultimately show ?thesis using assms(1)
    by (simp add: us_socket_shutdown_def us_socket_is_shut_down_def no_tls_def us_internal_poll_type_def us_socket_timeout_def Let_def)
qed


text \<open>A connection with three bytes buffered and a limit of two.\<close>

definition full_state :: "(u8 list list, unit) ws_outer" where
  "full_state = upd_net (upd_async 7 (bp_append [1, 2, 3])) (outer first_state)"


end
