(* ===== verification/Uws_Bounds.thy ===== *)
theory Uws_Bounds imports
  "Uws_Consume"
  "Uws_Example"
begin

section \<open>The parser stays inside the receive buffer\<close>

text \<open>
  For either role and every receiver: the padding before and after the segment is enough for the spilled header and for the
  unmasking in steps of four bytes.
\<close>

text \<open>\<open>only a n m m'\<close>: the memories differ at most in \<open>n\<close> bytes from \<open>a\<close>.\<close>

definition only :: "addr \<Rightarrow> nat \<Rightarrow> memory \<Rightarrow> memory \<Rightarrow> bool" where
  "only a n m m' \<longleftrightarrow> (\<forall>x. x < a \<or> a + n \<le> x \<longrightarrow> m' x = m x)"

lemma only_refl [simp]: "only a n m m"
  by (simp add: only_def)

lemma only_trans: "only a n m m' \<Longrightarrow> only b k m' m'' \<Longrightarrow> a \<le> b \<Longrightarrow> b + k \<le> a + n \<Longrightarrow> only a n m m''"
  by (auto simp: only_def)

lemma only_widen: "only b k m m' \<Longrightarrow> a \<le> b \<Longrightarrow> b + k \<le> a + n \<Longrightarrow> only a n m m'"
  by (auto simp: only_def)

lemma only_memcpy: "length bs \<le> n \<Longrightarrow> only a n m (memcpy a bs m)"
  by (simp add: only_def memcpy_def)

lemma handle_keeps:
  "handle impl d n k fin r = (b, r') \<Longrightarrow> src r' = src r \<and> len r' = len r \<and> mem r' = mem r \<and> wState r' = wState r"
  by (auto simp: handle_def split: prod.splits)

lemma unmaskImprecise_only:
  assumes "d \<le> s"
  shows "only d (unat n + 4) m (unmaskImprecise d s k n m)"
proof -
  have "unat n < 2 ^ 32" using unsigned_less [of n, where 'a = nat] by simp
  from unmaskImprecise_closed [OF assms this, of k m] show ?thesis
    by (auto simp: only_def)
qed

lemma unmaskInplace_only: "only d (n * 4) m (unmaskInplace d (d + n * 4) k m)"
  by (simp add: unmaskInplace_closed only_def)

lemma xor_tail_only: "i + n \<le> k \<Longrightarrow> only d k m (xor_tail n d i key m)"
  by (auto simp: xor_tail_closed only_def)

definition stop_at :: "'u ws_run \<Rightarrow> nat" where
  "stop_at r = src r + unat (len r)"

lemma opened_spill: "opened op st = Some st' \<Longrightarrow> spillLength st' = spillLength st"
  by (auto simp: opened_def split: if_splits)

text \<open>One frame: what is written lies in the segment, and the cursor stays in it.\<close>

lemma message_only:
  fixes H :: u32 and p :: u64
  assumes r: "consumeMessage srv impl H p r = (b, r')"
    and H: "srv \<longrightarrow> 4 \<le> unat H" "H \<le> len r" and small: "\<And>v u. impl_refusePayloadLength impl v u \<or> unat v < 2 ^ 63"
  shows "only (src r) (unat (len r)) (mem r) (mem r') \<and> spillLength (wState r') \<in> {0, spillLength (wState r)}
    \<and> (\<not> b \<longrightarrow> src r \<le> src r' \<and> stop_at r' = stop_at r)"
proof (cases "opened (getOpCode (mem r) (src r)) (wState r)")
  case None
  then show ?thesis using r by (auto simp: consumeMessage_def)
next
  case (Some st)
  show ?thesis
  proof (cases "impl_refusePayloadLength impl p (user r)")
    case True
    then show ?thesis using r Some opened_spill [OF Some] by (auto simp: consumeMessage_def Let_def)
  next
    case False
    then have p: "unat p < 2 ^ 63" using small by blast
    have h: "unat H < 2 ^ 32" "unat (len r) < 2 ^ 32" using unsigned_less [of H, where 'a = nat] unsigned_less [of "len r", where 'a = nat] by simp_all
    have uh: "unat (ucast H :: u64) = unat H" "unat (ucast (len r) :: u64) = unat (len r)"
      using h by (simp_all add: unsigned_ucast_eq take_bit_nat_eq_self)
    have ph: "unat (p + ucast H) = unat p + unat H" using p h by (simp add: unat_word_ariths uh)
    let ?fits = "p + ucast H \<le> ucast (len r)"
    show ?thesis
    proof (cases ?fits)
      case True
      then have f: "unat p + unat H \<le> unat (len r)" by (simp add: word_le_nat_alt ph uh)
      have up: "unat (ucast p :: u32) = unat p" using f h by (simp add: unsigned_ucast_eq take_bit_nat_eq_self)
      let ?m = "if srv then unmaskImpreciseCopyMask (src r + unat H) (ucast p) (mem r) else mem r"
      have "only (src r + unat H - 4) (unat (ucast p :: u32) + 4) (mem r) (unmaskImpreciseCopyMask (src r + unat H) (ucast p) (mem r))"
        unfolding unmaskImpreciseCopyMask_def by (rule unmaskImprecise_only) simp
      then have o: "only (src r) (unat (len r)) (mem r) ?m" using H(1) f up by (auto intro: only_widen)
      have l: "unat (len r - ucast (p + ucast H)) = unat (len r) - (unat p + unat H)"
      proof -
        have "unat (ucast (p + ucast H) :: u32) = unat p + unat H"
          using f h by (simp add: unsigned_ucast_eq ph take_bit_nat_eq_self)
        then show ?thesis using f by (subst unat_sub) (simp_all add: word_le_nat_alt)
      qed
      show ?thesis using r Some False True o f l ph
        by (cases srv) (auto simp: consumeMessage_def Let_def stop_at_def opened_spill split: prod.splits if_splits
            dest!: handle_keeps)
    next
      case nf: False
      have hl: "unat H \<le> unat (len r)" using H(2) by (simp add: word_le_nat_alt)
      let ?m = "unmaskImprecise (src r) (src r + unat H) k (len r - H) (mem r)"
      have "unat (len r - H) = unat (len r) - unat H" using H(2) by (rule unat_sub)
      then have o: "only (src r) (unat (len r)) (mem r) (unmaskImprecise (src r) (src r + unat H) k (len r - H) (mem r))" if srv for k
        using that unmaskImprecise_only [of "src r" "src r + unat H" "len r - H" "mem r" k] H(1) hl by (auto intro: only_widen)
      show ?thesis using r Some False nf o
        by (cases srv) (auto simp: consumeMessage_def Let_def split: prod.splits dest!: handle_keeps)
    qed
  qed
qed

text \<open>The rest of a payload; the last step of four bytes may reach into the padding after the segment.\<close>

lemma continuation_only:
  assumes r: "consumeContinuation srv impl r = (b, r')"
  shows "only (src r) (unat (len r) + CONSUME_POST_PADDING) (mem r) (mem r') \<and> spillLength (wState r') = spillLength (wState r)
    \<and> (b \<longrightarrow> src r \<le> src r' \<and> stop_at r' = stop_at r)"
proof -
  let ?k = "mask_bytes (wState r)" and ?rem = "remainingBytes (wState r)" and ?l = "unat (len r)"
  show ?thesis
  proof (cases "?rem \<le> len r")
    case True
    then have le: "unat ?rem \<le> ?l" by (simp add: word_le_nat_alt)
    let ?n = "unat (drop_bit 2 ?rem)"
    have n: "?n = unat ?rem div 4" "unat (?rem mod 4) = unat ?rem mod 4" by (simp_all add: unat_quarter unat_mod)
    then have nl: "?n * 4 + unat (?rem mod 4) \<le> ?l" using le by simp
    have "only (src r) (?l + 4) (mem r) (unmaskInplace (src r) (src r + ?n * 4) ?k (mem r))"
      by (rule only_widen [OF unmaskInplace_only]) (use nl in simp_all)
    moreover have "only (src r + ?n * 4) (unat (?rem mod 4)) m (xor_tail (unat (?rem mod 4)) (src r + ?n * 4) 0 ?k m)" for m
      by (rule xor_tail_only) simp
    ultimately have o: "only (src r) (?l + 4) (mem r) (xor_tail (unat (?rem mod 4)) (src r + ?n * 4) 0 ?k
        (unmaskInplace (src r) (src r + ?n * 4) ?k (mem r)))"
      by (rule only_trans) (use nl in simp_all)
    have "unat (len r - ?rem) = ?l - unat ?rem" using True by (rule unat_sub)
    then show ?thesis using r True o le
      by (cases srv) (auto simp: consumeContinuation_def CONSUME_POST_PADDING_def Let_def stop_at_def split: prod.splits if_splits
          dest!: handle_keeps)
  next
    case False
    let ?m = "if LIBUS_RECV_BUFFER_LENGTH = uint (len r) then unmaskAll (src r) ?k (mem r)
      else unmaskInplace (src r) (src r + (unat (drop_bit 2 (len r)) + 1) * 4) ?k (mem r)"
    have "only (src r) (?l + 4) (mem r) (unmaskInplace (src r) (src r + (unat (drop_bit 2 (len r)) + 1) * 4) ?k (mem r))"
      by (rule only_widen [OF unmaskInplace_only]) (simp_all add: unat_quarter)
    moreover have "only (src r) (?l + 4) (mem r) (unmaskAll (src r) ?k (mem r))" if "LIBUS_RECV_BUFFER_LENGTH = uint (len r)"
    proof -
      have "nat LIBUS_RECV_BUFFER_LENGTH = ?l" by (simp add: that)
      then show ?thesis by (simp add: unmaskAll_closed only_def)
    qed
    ultimately have o: "only (src r) (?l + 4) (mem r) ?m" by simp
    show ?thesis using r False o
      by (cases "srv \<and> ?k \<noteq> [0, 0, 0, 0]") (auto simp: consumeContinuation_def CONSUME_POST_PADDING_def Let_def
          split: prod.splits if_splits dest!: handle_keeps)
  qed
qed

lemma spill_fits:
  assumes "len r < LONG_MESSAGE_HEADER srv" "unat (spillLength (wState r)) \<le> CONSUME_PRE_PADDING srv"
  shows "mem (spill_over r) = mem r \<and> unat (spillLength (wState (spill_over r))) \<le> CONSUME_PRE_PADDING srv"
proof -
  have l: "unat (len r) \<le> CONSUME_PRE_PADDING srv" "CONSUME_PRE_PADDING srv < 16"
    using assms(1) by (auto simp: word_less_nat_alt CONSUME_PRE_PADDING_def LONG_MESSAGE_HEADER_def split: if_splits)
  have "len r AND 0xf = take_bit 4 (len r)" by (simp add: take_bit_eq_mask mask_eq_exp_minus_1)
  then have "unat (ucast (len r AND 0xf) :: 4 word) = unat (len r)"
    using l by (simp add: unsigned_ucast_eq unsigned_take_bit_eq take_bit_nat_eq_self)
  then show ?thesis using l assms(2) by (simp add: spill_over_def Let_def)
qed

lemma refused_keeps:
  "refused impl r = (b, r') \<Longrightarrow> src r' = src r \<and> len r' = len r \<and> mem r' = mem r \<and> wState r' = wState r"
  by (auto simp: refused_def Let_def split: prod.splits if_splits)

lemma announced_sizes:
  assumes "announced srv r = a" "SHORT_MESSAGE_HEADER srv \<le> len r"
  shows "a = None \<Longrightarrow> len r < LONG_MESSAGE_HEADER srv"
    "a = Some (H, p) \<Longrightarrow> H \<le> len r \<and> 2 \<le> unat H \<and> (srv \<longrightarrow> 4 \<le> unat H)"
  using assms
  by (auto simp: announced_def Let_def SHORT_MESSAGE_HEADER_def MEDIUM_MESSAGE_HEADER_def LONG_MESSAGE_HEADER_def
      word_less_nat_alt word_le_nat_alt split: if_splits)

lemma parse_only:
  assumes "parseNext srv impl r = Some r'" "\<And>v u. impl_refusePayloadLength impl v u \<or> unat v < 2 ^ 63"
    "unat (spillLength (wState r)) \<le> CONSUME_PRE_PADDING srv"
  shows "only (src r) (unat (len r)) (mem r) (mem r') \<and> unat (spillLength (wState r')) \<le> CONSUME_PRE_PADDING srv"
  using assms
proof (induction srv impl r r' rule: parseNext.raw_induct [rotated, consumes 1])
  case (1 parse srv impl r r')
  note small = "1.prems"(1) and sp = "1.prems"(2) and body = "1.hyps"
  show ?case
  proof (cases "len r < SHORT_MESSAGE_HEADER srv")
    case True
    then have "len r < LONG_MESSAGE_HEADER srv"
      by (auto simp: SHORT_MESSAGE_HEADER_def LONG_MESSAGE_HEADER_def word_less_nat_alt split: if_splits)
    then show ?thesis using body True spill_fits [OF _ sp] by auto
  next
    case False
    then have long: "SHORT_MESSAGE_HEADER srv \<le> len r" by simp
    obtain bad q where q: "refused impl r = (bad, q)" by fastforce
    note k = refused_keeps [OF q]
    show ?thesis
    proof (cases bad)
      case True
      then show ?thesis using body False q k sp by auto
    next
      case nb: False
      show ?thesis
      proof (cases "announced srv q")
        case None
        then have "len q < LONG_MESSAGE_HEADER srv" using announced_sizes(1) long k by metis
        then show ?thesis using body False nb q None spill_fits [of q srv] sp k by auto
      next
        case (Some Hp)
        obtain H p where Hp: "Hp = (H, p)" by fastforce
        obtain stop v where v: "consumeMessage srv impl H p q = (stop, v)" by fastforce
        have sz: "H \<le> len q" "srv \<longrightarrow> 4 \<le> unat H" using announced_sizes(2) [of srv q "Some Hp" H p] Some Hp long k by auto
        note m = message_only [OF v sz(2,1) small]
        then have mv: "only (src r) (unat (len r)) (mem r) (mem v)" "unat (spillLength (wState v)) \<le> CONSUME_PRE_PADDING srv"
          using k sp by auto
        show ?thesis
        proof (cases stop)
          case True
          then show ?thesis using body False nb q Some Hp v mv by auto
        next
          case False
          then have rec: "parse srv impl v = Some r'" using body \<open>\<not> len r < SHORT_MESSAGE_HEADER srv\<close> nb q Some Hp v by simp
          have "only (src v) (unat (len v)) (mem v) (mem r') \<and> unat (spillLength (wState r')) \<le> CONSUME_PRE_PADDING srv"
            by (rule "1.IH" [OF rec small mv(2)])
          moreover have "src r \<le> src v" "src v + unat (len v) = src r + unat (len r)"
            using m False k by (simp_all add: stop_at_def)
          ultimately show ?thesis using only_trans [OF mv(1)] by auto
        qed
      qed
    qed
  qed
qed

text \<open>
  C8: Parsing a segment in place stays inside the receive buffer: for a server or a client, for every receiver that
  refuses absurd lengths, and whatever the bytes are, nothing is written but the segment, the padding of one header
  before it, where the spilled header is put back, and the four bytes of padding after it, into which the
  unmasking in steps of four may run. And no more is ever spilled than the padding before a segment has room for, so this
  holds again for the next segment.
\<close>

theorem consume_stays_in_buffer:
  assumes "consume srv impl r = Some r'" "\<forall>v u. impl_refusePayloadLength impl v u \<or> unat v < 2 ^ 63"
    and "unat (spillLength (wState r)) \<le> CONSUME_PRE_PADDING srv" "CONSUME_PRE_PADDING srv \<le> src r"
    and "unat (len r) + CONSUME_PRE_PADDING srv < 2 ^ 32"
  shows "(\<forall>x. x < src r - CONSUME_PRE_PADDING srv \<or> src r + unat (len r) + CONSUME_POST_PADDING \<le> x \<longrightarrow> mem r' x = mem r x)
    \<and> unat (spillLength (wState r')) \<le> CONSUME_PRE_PADDING srv"
proof -
  let ?n = "unat (spillLength (wState r))" and ?P = "CONSUME_PRE_PADDING srv"
  let ?q = "if ?n \<noteq> 0 then r\<lparr>src := src r - ?n, len := len r + of_nat ?n, mem := memcpy (src r - ?n) (take ?n (spill (wState r))) (mem r)\<rparr> else r"
  have l: "unat (len r + of_nat ?n) = unat (len r) + ?n"
  proof -
    have "unat (len r + of_nat k) = unat (len r) + k" if "unat (len r) + k < 2 ^ 32" for k
      using that by (simp add: unat_word_ariths unat_of_nat)
    moreover have "unat (len r) + ?n < 2 ^ 32" using assms(3,5) by linarith
    ultimately show ?thesis .
  qed
  have q: "src ?q = src r - ?n" "unat (len ?q) = unat (len r) + ?n" "wState ?q = wState r" using l by simp_all
  have oq: "only (src r - ?P) (?P + unat (len r) + CONSUME_POST_PADDING) (mem r) (mem ?q)"
    using assms(3,4) by (cases "?n = 0") (auto intro!: only_widen [OF only_memcpy [of _ ?n]])
  have small: "impl_refusePayloadLength impl v u \<or> unat v < 2 ^ 63" for v u using assms(2) by blast
  have inside: "only (src r - ?P) (?P + unat (len r) + CONSUME_POST_PADDING) (mem r) (mem v)"
    if "only (src ?q) (unat (len ?q) + CONSUME_POST_PADDING) (mem ?q) (mem v)" for v
    by (rule only_trans [OF oq that]) (use assms(3,4) q in auto)
  have "only (src r - ?P) (?P + unat (len r) + CONSUME_POST_PADDING) (mem r) (mem r')
      \<and> unat (spillLength (wState r')) \<le> ?P"
  proof (cases "wantsHead (wState r)")
    case True
    then have "parseNext srv impl ?q = Some r'" using assms(1) by (simp add: consume_def Let_def split: if_splits)
    from parse_only [OF this small] assms(3) have o: "only (src ?q) (unat (len ?q)) (mem ?q) (mem r')" "unat (spillLength (wState r')) \<le> ?P"
      unfolding q(3) by blast+
    from only_widen [OF o(1), of "src ?q" "unat (len ?q) + CONSUME_POST_PADDING"] o(2) inside show ?thesis by simp
  next
    case False
    obtain go v where v: "consumeContinuation srv impl ?q = (go, v)" by fastforce
    note c = continuation_only [OF v]
    have sv: "unat (spillLength (wState v)) \<le> ?P" using c assms(3) q(3) by simp
    show ?thesis
    proof (cases go)
      case True
      then have "parseNext srv impl v = Some r'" using assms(1) False v by (simp add: consume_def Let_def split: if_splits)
      from parse_only [OF this small sv] have o: "only (src v) (unat (len v)) (mem v) (mem r')" "unat (spillLength (wState r')) \<le> ?P"
        by blast+
      have "src ?q \<le> src v" "src v + unat (len v) = src ?q + unat (len ?q)" using c True unfolding stop_at_def by blast+
      then have "only (src ?q) (unat (len ?q) + CONSUME_POST_PADDING) (mem ?q) (mem r')"
        using only_trans [OF conjunct1 [OF c] o(1)] by linarith
      then show ?thesis using inside o(2) by blast
    next
      case go: False
      then have "r' = v" using assms(1) False v by (simp add: consume_def Let_def split: if_splits)
      then show ?thesis using inside c sv by blast
    qed
  qed
  then show ?thesis using assms(4) by (auto simp: only_def)
qed

theorem consume_stays_in_buffer_witness:
  "\<exists>r'. consume True (Impl bare_context 7) \<lparr>src = 13, len = 2, mem = (\<lambda>_. 130), wState = WebSocketState True, user = first_state\<rparr> = Some r'
    \<and> mem r' 19 = 130 \<and> unat (spillLength (wState r')) \<le> 13"
proof -
  let ?r = "\<lparr>src = 13, len = 2, mem = (\<lambda>_. 130), wState = WebSocketState True, user = first_state\<rparr>"
  have c: "consume True (Impl bare_context 7) ?r = Some (spill_over ?r)"
    by (simp add: consume_def WebSocketState_def parseNext.simps [of True "Impl bare_context 7"] SHORT_MESSAGE_HEADER_def)
  have i: "\<forall>v u. impl_refusePayloadLength (Impl bare_context 7 :: (u8 list list, unit) websocket ws_impl) v u \<or> unat v < 2 ^ 63"
  proof (intro allI)
    fix v u show "impl_refusePayloadLength (Impl bare_context 7 :: (u8 list list, unit) websocket ws_impl) v u \<or> unat v < 2 ^ 63"
      by (cases "v = 0") (simp_all add: Impl_def refusePayloadLength_def bare_context_def word_neq_0_conv)
  qed
  from consume_stays_in_buffer [OF c i] c show ?thesis
    by (auto simp: WebSocketState_def CONSUME_PRE_PADDING_def CONSUME_POST_PADDING_def LONG_MESSAGE_HEADER_def)
qed

end
