(* ===== verification/Uws_Lifetime.thy ===== *)
theory Uws_Lifetime imports
  "Uws_Example"
begin

section \<open>The life of a connection\<close>

text \<open>
  Segments, other events and calls of the application in any order. The parser's loop is not bounded by its structure; what
  bounds it is that between any two of them the parser's state mirrors a reader, which the other events do not disturb.
\<close>

subsection \<open>Other events leave the mirrored reader in place\<close>

context ws_connection begin

lemma Impl_handles: "impl_handleFragment (Impl ctx s) = handleFragment ctx s"
  by (simp add: Impl_def)

lemma piece_read:
  assumes "fh.in_body st d a op fin key pay n"
  shows "ready (receiver a)" "fits (Impl ctx s) op fin (length pay + n) (receiver a)" "n > 0" "d = with_piece pay op (receiver a)"
    "op < 3 \<Longrightarrow> length (fragmentBuffer (receiver a)) + length pay \<le> unat (maxPayloadLength ctx)"
proof -
  show e: "ready (receiver a)" "fits (Impl ctx s) op fin (length pay + n) (receiver a)" "n > 0"
    using assms unfolding fh.in_body_def Impl_handles by blast+
  have h: "handleFragment ctx s pay (of_nat n) op fin (receiver a) = (False, d)"
    using assms unfolding fh.in_body_def Impl_handles by blast
  show le: "op < 3 \<Longrightarrow> length (fragmentBuffer (receiver a)) + length pay \<le> unat (maxPayloadLength ctx)"
    using first_piece(1) [OF e(1,2)] h e(3) by (metis Pair_inject not_le_imp_less not_less_zero)
  show "d = with_piece pay op (receiver a)" using first_piece(2) [OF e(1,2) le] h e(3) by simp
qed

lemma mirrors_outer:
  assumes m: "fh.mirrors st d a" and "\<not> gone s d" "plain s w" "\<not> closing s w"
  shows "\<exists>a'. fh.mirrors st (d\<lparr>outer := w\<rparr>) a'"
proof (cases "phase a")
  case (Header hs)
  then have "fh.mirrors st (d\<lparr>outer := w\<rparr>) (a\<lparr>receiver := d\<lparr>outer := w\<rparr>\<rparr>)"
    using m assms(3,4) by (auto simp: fh.mirrors_def fh.at_head_def keeps_def ready_def gone_closing)
  then show ?thesis by blast
next
  case (Body op fin key pay n)
  let ?f = "receiver a\<lparr>outer := w\<rparr>"
  have b: "fh.in_body st d a op fin key pay n" using m Body by (simp add: fh.mirrors_def)
  note p = piece_read [OF b]
  have f: "ready ?f" "fits (Impl ctx s) op fin (length pay + n) ?f"
    using p(1,2) assms(3,4) by (auto simp: ready_def gone_closing fits_def Impl_def)
  have "handleFragment ctx s pay (of_nat n) op fin ?f = (False, with_piece pay op ?f)"
    by (rule first_piece(2) [OF f]) (use p(3,5) in auto)
  moreover have "with_piece pay op ?f = d\<lparr>outer := w\<rparr>" unfolding p(4) by (cases "receiver a") (simp add: with_piece_def)
  ultimately have "fh.in_body st (d\<lparr>outer := w\<rparr>) (a\<lparr>receiver := ?f\<rparr>) op fin key pay n"
    using b f unfolding fh.in_body_def Impl_handles keeps_def by (elim conjE) (intro conjI; simp)
  then have "fh.mirrors st (d\<lparr>outer := w\<rparr>) (a\<lparr>receiver := ?f\<rparr>)" using Body by (simp add: fh.mirrors_def)
  then show ?thesis by blast
next
  case Dead
  then show ?thesis using fh.mirrors_dead [OF m] assms(2) by simp
qed

text \<open>What holds between events, while the connection lasts.\<close>

definition live :: "ws_state \<Rightarrow> ('a, 'z) websocket \<Rightarrow> bool" where
  "live st d \<longleftrightarrow> plain s (outer d) \<and> (\<exists>a. fh.mirrors st d a)"

lemma live_outer: "live st d \<Longrightarrow> \<not> gone s d \<Longrightarrow> plain s w \<Longrightarrow> \<not> closing s w \<Longrightarrow> live st (d\<lparr>outer := w\<rparr>)"
  using mirrors_outer by (auto simp: live_def)

lemma mirrors_plain:
  assumes "fh.mirrors st d a" "\<not> gone s d"
  shows "plain s (outer d)"
proof (cases "phase a")
  case (Header hs)
  then show ?thesis using assms by (auto simp: fh.mirrors_def fh.at_head_def ready_def)
next
  case (Body op fin key pay n)
  then have b: "fh.in_body st d a op fin key pay n" using assms by (simp add: fh.mirrors_def)
  show ?thesis using piece_read(1) [OF b] unfolding piece_read(4) [OF b] by (simp add: with_piece_def ready_def)
next
  case Dead
  then show ?thesis using fh.mirrors_dead [OF assms(1)] assms(2) by simp
qed

lemma ready_live: "ready d \<Longrightarrow> live (WebSocketState True) d"
  using fh.mirrors_new by (auto simp: live_def ready_def)

text \<open>Consuming a segment.\<close>

lemma live_consume:
  assumes "live st d" "\<not> gone s d" "segment_ok seg" "13 \<le> base"
  shows "\<exists>r. consume True (Impl ctx s) \<lparr>src = base, len = of_nat (length seg), mem = memcpy base seg m, wState = st, user = d\<rparr> = Some r
    \<and> (gone s (user r) \<or> live (wState r) (user r))"
proof -
  obtain a where a: "fh.mirrors st d a" using assms(1) by (auto simp: live_def)
  then have "phase a \<noteq> Dead" using fh.mirrors_dead assms(2) by blast
  let ?r = "\<lparr>src = base, len = of_nat (length seg), mem = memcpy base seg m, wState = st, user = d\<rparr>"
  from assms(3) have s: "seg \<noteq> []" "length seg + 13 < 2 ^ 32"
    by (auto simp: segment_ok_def CONSUME_PRE_PADDING_def LONG_MESSAGE_HEADER_def)
  then have l: "unat (len ?r) = length seg" by (simp add: unat_of_nat)
  have "len ?r \<noteq> 0" using l s(1) by (auto simp flip: unat_eq_0)
  then obtain r where "consume True (Impl ctx s) ?r = Some r" "fh.mirrors (wState r) (user r) (read_bytes (Impl ctx s) seg a)"
    using fh.consume_refines [of ?r a] a \<open>phase a \<noteq> Dead\<close> assms(4) s l by auto
  then show ?thesis using mirrors_plain by (auto simp: live_def)
qed

end

subsection \<open>Events, and calls from outside of handlers\<close>

datatype ws_input =
    Segment "u8 list"
  | Writable
  | Ended
  | Timed_out
  | Long_timed_out
  | Called "ws_call list"
  | Called_corked "ws_call list"

definition occurs :: "('a, 'z) ws_context \<Rightarrow> addr \<Rightarrow> addr \<Rightarrow> ws_input \<Rightarrow> memory \<times> ws_state \<times> ('a, 'z) websocket \<Rightarrow>
    (memory \<times> ws_state \<times> ('a, 'z) websocket) option" where
  "occurs ctx s base i = (\<lambda>(m, st, d).
    case i of
      Segment seg \<Rightarrow> onData ctx s base (length seg) (memcpy base seg m, st, d)
    | Writable \<Rightarrow> Some (m, st, on_outer (onWritable ctx s) d)
    | Ended \<Rightarrow> Some (m, st, on_outer (onEnd ctx s) d)
    | Timed_out \<Rightarrow> Some (m, st, on_outer (onTimeout ctx s) d)
    | Long_timed_out \<Rightarrow> Some (m, st, on_outer (onLongTimeout ctx s) d)
    | Called cs \<Rightarrow> Some (m, st, on_outer (\<lambda>c. fold (carry_out ctx s c) cs) d)
    | Called_corked cs \<Rightarrow> Some (m, st, on_outer (ws_cork ctx s (\<lambda>c. fold (carry_out ctx s c) cs)) d))"

fun lives :: "('a, 'z) ws_context \<Rightarrow> addr \<Rightarrow> addr \<Rightarrow> ws_input list \<Rightarrow> memory \<times> ws_state \<times> ('a, 'z) websocket \<Rightarrow>
    (memory \<times> ws_state \<times> ('a, 'z) websocket) option" where
  "lives ctx s base [] x = Some x"
| "lives ctx s base (i # rest) x =
    (if ws_closed s (outer (snd (snd x))) then Some x
     else case occurs ctx s base i x of None \<Rightarrow> None | Some x \<Rightarrow> lives ctx s base rest x)"

subsection \<open>Events are decent\<close>

lemma decent_if: "decent s f \<Longrightarrow> decent s g \<Longrightarrow> decent s (\<lambda>w. if P w then f w else g w)"
  by (simp add: decent_def)

lemma decent_id: "decent s (\<lambda>w. w)"
  by (simp add: decent_def)

lemma timed_out_plain [simp]: "plain s (w\<lparr>hasTimedOut := b\<rparr>) = plain s w" "closing s (w\<lparr>hasTimedOut := b\<rparr>) = closing s w"
  by (simp_all add: plain_def closing_def ws_closed_def)

lemma decent_steps:
  "decent s (upd_net (async_timeout s k))" "decent s (upd_net (async_shutdown s))" "decent s (upd_net (cork s ssl))"
  "decent s (upd_net (\<lambda>u. snd (async_write s bs opt u)))" "decent s (upd_net (\<lambda>u. snd (uncork s bs opt u)))"
  "decent s (upd_net (uncorkWithoutSending s))" "decent s (upd_net (upd_us (us_socket_timeout s k)))"
  by (rule decent_net; simp add: calm_async calm_cork calm_upd_us calm_writes async_timeout_def async_shutdown_def
      uncorkWithoutSending_def calm_refl)+

lemma decent_is_shut_down: "decent s (\<lambda>w. upd_net (upd_us (\<lambda>_. snd (us_socket_is_shut_down s (us (net w))))) w)"
proof -
  have "calm s (net w) (upd_us (\<lambda>_. snd (us_socket_is_shut_down s (us (net w)))) (net w))" if "plain s w" for w :: "('a, 'z) ws_outer"
    using that by (simp add: plain_def calm_upd_us calm_writes)
  then show ?thesis using calm_keeps by (fastforce simp: decent_def plain_def closing_def ws_closed_def)
qed

lemma decent_timeout_reset: "decent s (timeout_reset ctx s)"
  using decent_steps(1) by (simp add: decent_def timeout_reset_def)

lemma decent_onWritable:
  fixes ctx :: "('a, 'z) ws_context" and limit :: u32 and h :: "ws_event \<Rightarrow> ('a, 'z) effect"
  assumes h: "\<And>e c. decent s (h e c)"
  shows "decent s (onWritable (with_handlers ctx limit h) s c)"
proof (rule decentI)
  let ?ctx = "with_handlers ctx limit h"
  fix w :: "('a, 'z) ws_outer" assume p: "plain s w"
  let ?g = "\<lambda>w :: ('a, 'z) ws_outer. upd_net (upd_us (\<lambda>_. snd (us_socket_is_shut_down s (us (net w))))) w"
  let ?w = "?g w"
  let ?v = "upd_net (\<lambda>u. snd (async_write s [] False u)) ?w"
  have w: "plain s ?w \<and> (closing s w \<longrightarrow> closing s ?w)" "plain s ?v \<and> (closing s ?w \<longrightarrow> closing s ?v)"
    using decent_steps(4) decent_is_shut_down p unfolding decent_def by blast+
  have d: "drainHandler ?ctx = Some (h On_drain)" by (simp add: with_handlers_def)
  have r: "plain s (timeout_reset ?ctx s ?v) \<and> (closing s ?v \<longrightarrow> closing s (timeout_reset ?ctx s ?v))"
    using decent_timeout_reset w unfolding decent_def by blast
  have f: "plain s (upd_net (async_shutdown s) u) \<and> (closing s u \<longrightarrow> closing s (upd_net (async_shutdown s) u))"
    "plain s (h On_drain c u) \<and> (closing s u \<longrightarrow> closing s (h On_drain c u))" if "plain s u" for u
    using decent_steps(2) h that unfolding decent_def by blast+
  show "plain s (onWritable ?ctx s c w) \<and> (closing s w \<longrightarrow> closing s (onWritable ?ctx s c w))"
    using w r f unfolding onWritable_def d Let_def case_prod_beta option.case by (simp split: if_split)
qed

lemma decent_events:
  fixes ctx :: "('a, 'z) ws_context" and limit :: u32 and h :: "ws_event \<Rightarrow> ('a, 'z) effect"
  assumes h: "\<And>e c. decent s (h e c)"
  defines "ctx' \<equiv> with_handlers ctx limit h"
  shows "decent s (onEnd ctx' s c)" "decent s (onLongTimeout ctx' s c)" "decent s (onTimeout ctx' s c)"
    "decent s (fold (carry_out ctx' s c) cs)" "decent s (ws_cork ctx' s (\<lambda>c. fold (carry_out ctx' s c) cs) c)"
proof -
  note k = decent_close_socket [where h = h and ctx = ctx and limit = limit, OF h, folded ctx'_def] and e = decent_end [where h = h and ctx = ctx and limit = limit, OF h, folded ctx'_def]
  show "decent s (onEnd ctx' s c)" unfolding onEnd_def by (rule decent_comp [OF decent_steps(6) k])
  show "decent s (onLongTimeout ctx' s c)" unfolding onLongTimeout_def by (rule e)
  show m: "decent s (fold (carry_out ctx' s c) cs)" for c
    by (rule decent_fold) (simp add: ctx'_def decent_carry_out [where h = h, OF h])
  show "decent s (ws_cork ctx' s (\<lambda>c. fold (carry_out ctx' s c) cs) c)"
    unfolding ws_cork_def by (rule decent_if [OF decent_comp [OF decent_comp [OF decent_steps(3) m] decent_steps(5)] m])
  have "decent s (\<lambda>w. w\<lparr>hasTimedOut := True\<rparr>)" by (simp add: decent_def)
  then show "decent s (onTimeout ctx' s c)"
    unfolding onTimeout_def Let_def
    by (intro decent_if decent_comp [OF decent_comp [OF _ decent_steps(7)] decent_steps(4)] k)
qed

subsection \<open>What the parser keeps of its receiver\<close>

text \<open>Whatever the three operations of the receiver that may change it keep, \<open>consume\<close> keeps.\<close>

definition impl_keeps :: "('u \<Rightarrow> bool) \<Rightarrow> 'u ws_impl \<Rightarrow> bool" where
  "impl_keeps P impl \<longleftrightarrow> (\<forall>u. P u \<longrightarrow> P (snd (impl_setCompressed impl u)) \<and> (\<forall>e. P (impl_forceClose impl e u))
     \<and> (\<forall>data n op fin. P (snd (impl_handleFragment impl data n op fin u))))"

lemma handle_keeps_user: "impl_keeps P impl \<Longrightarrow> P (user r) \<Longrightarrow> P (user (snd (handle impl a n k fin r)))"
  by (simp add: handle_def impl_keeps_def case_prod_beta)

lemma message_keeps_user:
  assumes "impl_keeps P impl" "P (user r)"
  shows "P (user (snd (consumeMessage srv impl H p r)))"
  using assms handle_keeps_user [OF assms(1)]
  by (auto simp: consumeMessage_def impl_keeps_def Let_def case_prod_beta split: option.split)

lemma continuation_keeps_user:
  assumes "impl_keeps P impl" "P (user r)"
  shows "P (user (snd (consumeContinuation srv impl r)))"
  using assms(2) handle_keeps_user [OF assms(1)]
  by (auto simp: consumeContinuation_def Let_def case_prod_beta)

lemma parse_keeps_user:
  assumes "parseNext srv impl r = Some r'" "impl_keeps P impl" "P (user r)"
  shows "P (user r')"
  using assms
proof (induction srv impl r r' rule: parseNext.raw_induct [rotated, consumes 1])
  case (1 parse srv impl r r')
  note body = "1.hyps" and k = "1.prems"(1) and u = "1.prems"(2)
  let ?q = "snd (refused impl r)"
  have q: "P (user ?q)" using u k by (simp add: refused_def impl_keeps_def Let_def case_prod_beta)
  then have f: "P (impl_forceClose impl ERR_NONE (user ?q))" using k by (simp add: impl_keeps_def)
  have m: "P (user (snd (consumeMessage srv impl H p ?q)))" for H p by (rule message_keeps_user [OF k q])
  have "P (user r')" if "parse srv impl (snd (consumeMessage srv impl H p ?q)) = Some r'" for H p
    by (rule "1.IH" [OF that k m])
  then show ?case using body u q f m
    by (auto simp: spill_over_def Let_def case_prod_beta split: if_splits option.splits)
qed

lemma consume_keeps_user:
  assumes "consume srv impl r = Some r'" "impl_keeps P impl" "P (user r)"
  shows "P (user r')"
proof -
  let ?n = "unat (spillLength (wState r))"
  let ?q = "if ?n \<noteq> 0 then r\<lparr>src := src r - ?n, len := len r + of_nat ?n, mem := memcpy (src r - ?n) (take ?n (spill (wState r))) (mem r)\<rparr> else r"
  have "P (user ?q)" using assms(3) by simp
  then have c: "P (user (snd (consumeContinuation srv impl ?q)))" and q: "P (user ?q)"
    using continuation_keeps_user [OF assms(2)] by blast+
  have k: "P (user r')" if "parseNext srv impl v = Some r'" "P (user v)" for v
    by (rule parse_keeps_user [OF that(1) assms(2) that(2)])
  show ?thesis
    using assms(1) k c q unfolding consume_def Let_def case_prod_beta
    by (auto simp del: if_split_asm split: if_splits)
qed

subsection \<open>The receiver's operations are decent\<close>

lemma decent_on_outer: "(\<And>c. decent s (f c)) \<Longrightarrow> plain s (outer d) \<Longrightarrow> plain s (outer (on_outer f d))"
  by (simp add: decent_def on_outer_def)

lemma zlib_plain [simp]: "plain s (w\<lparr>zlib := z\<rparr>) = plain s w"
  by (simp add: plain_def)

lemma served_keeps_plain:
  fixes ctx :: "('a, 'z) ws_context" and limit :: u32 and h :: "ws_event \<Rightarrow> ('a, 'z) effect"
  assumes h: "\<And>e c. decent s (h e c)"
  shows "impl_keeps (\<lambda>d. plain s (outer d)) (Impl (with_handlers ctx limit h) s)"
proof -
  let ?ctx = "with_handlers ctx limit h"
  have k: "plain s (outer (forceClose ?ctx s e d))" if "plain s (outer d)" for e d
    unfolding forceClose_def by (rule decent_on_outer [OF decent_close_socket [where h = h, OF h] that])
  have hp: "plain s (outer (on_outer (h e) d))" if "plain s (outer d)" for e d
    by (rule decent_on_outer [OF h that])
  have ep: "plain s (outer (on_outer (ws_end ?ctx s code m) d))" if "plain s (outer d)" for code m d
    by (rule decent_on_outer [OF decent_end [where h = h, OF h] that])
  have sp: "plain s (outer (on_outer (\<lambda>c w. snd (send ?ctx s c m op compress fin w)) d))" if "plain s (outer d)" for m op compress fin d
    by (rule decent_on_outer [OF decent_send that])
  have whs: "messageHandler ?ctx = Some (\<lambda>d op. h (On_message d op))" "pingHandler ?ctx = Some (\<lambda>d. h (On_ping d))"
    "pongHandler ?ctx = Some (\<lambda>d. h (On_pong d))" by (simp_all add: with_handlers_def)
  have m: "plain s (outer (snd (whole_message ?ctx s m op d)))" if "plain s (outer d)" for m op d
    using that k hp unfolding whole_message_def whs
    by (auto simp: inflate_message_def Let_def case_prod_beta split: option.split)
  have c: "plain s (outer (snd (whole_control ?ctx s m op d)))" if "plain s (outer d)" for m op d
    using that ep sp hp unfolding whole_control_def whs call_control_def
    by (auto simp: Let_def case_prod_beta)
  have "plain s (outer (snd (handleFragment ?ctx s m n op fin d)))" if "plain s (outer d)" for m n op fin d
    using that m c k unfolding handleFragment_def by (auto simp: Let_def case_prod_beta)
  then show ?thesis using k by (auto simp: impl_keeps_def Impl_def setCompressed_def)
qed

subsection \<open>Between events\<close>

context ws_connection begin

text \<open>What holds between events: the connection is going away, or the parser mirrors a reader.\<close>

definition lasting :: "ws_state \<Rightarrow> ('a, 'z) websocket \<Rightarrow> bool" where
  "lasting st d \<longleftrightarrow> plain s (outer d) \<and> (gone s d \<or> live st d)"

lemma lasting_decent:
  assumes "lasting st d" "\<And>c. decent s (f c)"
  shows "lasting st (on_outer f d)"
proof -
  let ?w = "f (compressionStatus d) (outer d)"
  have "plain s ?w" "gone s d \<Longrightarrow> closing s ?w" using assms by (auto simp: lasting_def decent_def gone_closing)
  then show ?thesis
    using assms(1) live_outer [of st d ?w] by (cases "gone s d"; cases "closing s ?w") (auto simp: lasting_def gone_closing on_outer_def)
qed

lemma lasting_data:
  assumes "impl_keeps (\<lambda>d. plain s (outer d)) (Impl ctx s)" "lasting st d" "\<not> ws_closed s (outer d)" "segment_ok seg" "13 \<le> base"
  shows "\<exists>m' st' d'. onData ctx s base (length seg) (memcpy base seg m, st, d) = Some (m', st', d') \<and> lasting st' d'"
proof (cases "isShuttingDown (outer d)")
  case True
  then show ?thesis using assms(2) by (simp add: onData_def)
next
  case False
  let ?f = "\<lambda>c w. upd_net (cork s (SSL ctx)) (timeout_reset ctx s w)"
  let ?d = "on_outer ?f d"
  have p: "plain s (outer d)" and l: "live st d" using assms(2,3) False by (auto simp: lasting_def gone_def)
  have "calm s (net (outer d)) (async_timeout s k (net (outer d)))" for k
    using p by (simp add: plain_def async_timeout_def calm_upd_us calm_writes)
  then have c: "calm s (net (outer d)) (cork s (SSL ctx) (async_timeout s k (net (outer d))))" for k
    by (rule calm_trans) (rule calm_cork)
  have "\<not> closing s (outer ?d)" "plain s (outer ?d)"
    using assms(3) False calm_keeps [OF c] by (auto simp: closing_def ws_closed_def plain_def on_outer_def timeout_reset_def)
  then have g: "\<not> gone s ?d" and l': "live st ?d" using live_outer [OF l] assms(3) False
    by (auto simp: gone_closing closing_def on_outer_def)
  obtain r where r: "consume True (Impl ctx s) \<lparr>src = base, len = of_nat (length seg), mem = memcpy base seg m, wState = st, user = ?d\<rparr> = Some r"
    "gone s (user r) \<or> live (wState r) (user r)"
    using live_consume [OF l' g assms(4,5), of m] by blast
  have "plain s (outer (user r))"
    by (rule consume_keeps_user [OF r(1) assms(1)]) (use \<open>plain s (outer ?d)\<close> in simp)
  with r(2) have a: "lasting (wState r) (user r)" by (simp add: lasting_def)
  let ?e = "on_outer (\<lambda>c. upd_net (\<lambda>u. snd (uncork s [] False u))) (user r)"
  have e: "lasting (wState r) ?e" by (rule lasting_decent [OF a]) (rule decent_steps(5))
  then have "lasting (wState r) (on_outer (\<lambda>c. upd_net (async_shutdown s)) ?e)" by (rule lasting_decent) (rule decent_steps(2))
  with e show ?thesis using r(1) False by (simp add: onData_def Let_def)
qed

end

lemma lasting_occurs:
  fixes ctx :: "('a, 'z) ws_context" and app :: "('a, 'z) ws_app" and s :: addr and limit :: u32 and n :: nat
  defines "ctx' \<equiv> served ctx s app limit n"
  assumes l: "wc.lasting ctx s app limit n st d" and "\<not> ws_closed s (outer d)" "\<And>seg. i = Segment seg \<Longrightarrow> segment_ok seg" "13 \<le> base"
  shows "\<exists>m' st' d'. occurs ctx' s base i (m, st, d) = Some (m', st', d') \<and> wc.lasting ctx s app limit n st' d'"
proof -
  obtain h where eq: "ctx' = with_handlers ctx limit h" and h: "\<And>e c. decent s (h e c)"
    unfolding ctx'_def using served_handlers by blast
  note k = served_keeps_plain [where h = h and ctx = ctx and limit = limit, OF h, folded eq]
    and w = decent_onWritable [where h = h and ctx = ctx and limit = limit, OF h, folded eq]
    and e = decent_events [where h = h and ctx = ctx and limit = limit, OF h, folded eq]
  show ?thesis
  proof (cases i)
    case (Segment seg)
    then show ?thesis using wc.lasting_data [OF k [unfolded ctx'_def] l assms(3) assms(4) [OF Segment] assms(5)]
      by (simp add: occurs_def ctx'_def)
  next
    case Writable
    have "wc.lasting ctx s app limit n st (on_outer (onWritable ctx' s) d)" by (rule wc.lasting_decent [OF l w])
    then show ?thesis using Writable by (simp add: occurs_def)
  next
    case Ended
    have "wc.lasting ctx s app limit n st (on_outer (onEnd ctx' s) d)" by (rule wc.lasting_decent [OF l e(1)])
    then show ?thesis using Ended by (simp add: occurs_def)
  next
    case Timed_out
    have "wc.lasting ctx s app limit n st (on_outer (onTimeout ctx' s) d)" by (rule wc.lasting_decent [OF l e(3)])
    then show ?thesis using Timed_out by (simp add: occurs_def)
  next
    case Long_timed_out
    have "wc.lasting ctx s app limit n st (on_outer (onLongTimeout ctx' s) d)" by (rule wc.lasting_decent [OF l e(2)])
    then show ?thesis using Long_timed_out by (simp add: occurs_def)
  next
    case (Called cs)
    have "wc.lasting ctx s app limit n st (on_outer (\<lambda>c. fold (carry_out ctx' s c) cs) d)" by (rule wc.lasting_decent [OF l e(4)])
    then show ?thesis using Called by (simp add: occurs_def)
  next
    case (Called_corked cs)
    have "wc.lasting ctx s app limit n st (on_outer (ws_cork ctx' s (\<lambda>c. fold (carry_out ctx' s c) cs)) d)"
      by (rule wc.lasting_decent [OF l e(5)])
    then show ?thesis using Called_corked by (simp add: occurs_def)
  qed
qed

lemma lasting_lives:
  fixes ctx :: "('a, 'z) ws_context" and app :: "('a, 'z) ws_app" and s :: addr and limit :: u32 and n :: nat
  assumes "wc.lasting ctx s app limit n st d" "\<And>seg. Segment seg \<in> set inputs \<Longrightarrow> segment_ok seg" "13 \<le> base"
  shows "\<exists>x. lives (served ctx s app limit n) s base inputs (m, st, d) = Some x"
  using assms(1,2)
proof (induction inputs arbitrary: m st d)
  case Nil
  then show ?case by simp
next
  case (Cons i rest)
  show ?case
  proof (cases "ws_closed s (outer d)")
    case True
    then show ?thesis by simp
  next
    case False
    from lasting_occurs [OF Cons.prems(1) False _ assms(3), of i m] Cons.prems(2) obtain m' st' d' where
      o: "occurs (served ctx s app limit n) s base i (m, st, d) = Some (m', st', d')" and l: "wc.lasting ctx s app limit n st' d'"
      by auto
    from Cons.IH [OF l Cons.prems(2)] show ?thesis using False o by simp
  qed
qed

subsection \<open>Property\<close>



end
