(* ===== verification/Uws_Http.thy ===== *)
theory Uws_Http imports
  "Uws_Chunked"
  "HOL-Library.Monad_Syntax"
begin

section \<open>Requests (\<open>HttpParser.h\<close>, \<open>BloomFilter.h\<close>)\<close>

text \<open>
  The parser of HTTP requests works in place in a buffer that is readable for some bytes past its end. A buffer is the list of
  all readable bytes, a position in it a number, and reading past its end is None, as is a loop that does not return. Before
  it begins the parser writes a fence, a carriage return and a letter, after the last byte, on which its scans stop.

  \<open>char\<close> is signed. Names and values of headers are views into the buffer in the code; here they are the bytes viewed, which do not
  change until the request has been handed on. \<open>strncmp\<close> on them is equality, as they hold no zero. The request's
  own functions that write (lower case of the method, decoding of the query) belong to the application.
\<close>

subsection \<open>Results\<close>

datatype HttpError = HTTP_ERROR_505_HTTP_VERSION_NOT_SUPPORTED | HTTP_ERROR_431_REQUEST_HEADER_FIELDS_TOO_LARGE
  | HTTP_ERROR_400_BAD_REQUEST

datatype HttpParserError =
    HTTP_PARSER_ERROR_INVALID_CHUNKED_ENCODING
  | HTTP_PARSER_ERROR_INVALID_CONTENT_LENGTH
  | HTTP_PARSER_ERROR_INVALID_TRANSFER_ENCODING
  | HTTP_PARSER_ERROR_MISSING_HOST_HEADER
  | HTTP_PARSER_ERROR_INVALID_REQUEST
  | HTTP_PARSER_ERROR_REQUEST_HEADER_FIELDS_TOO_LARGE
  | HTTP_PARSER_ERROR_INVALID_HTTP_VERSION
  | HTTP_PARSER_ERROR_INVALID_EOF
  | HTTP_PARSER_ERROR_INVALID_METHOD
  | HTTP_PARSER_ERROR_INVALID_HEADER_TOKEN

datatype HTTPHeaderParserError =
    HTTP_HEADER_PARSER_ERROR_NONE
  | HTTP_HEADER_PARSER_ERROR_INVALID_HTTP_VERSION
  | HTTP_HEADER_PARSER_ERROR_INVALID_REQUEST
  | HTTP_HEADER_PARSER_ERROR_INVALID_METHOD
  | HTTP_HEADER_PARSER_ERROR_REQUEST_HEADER_FIELDS_TOO_LARGE

text \<open>
  A result without an error (\<open>HTTP_PARSER_ERROR_NONE\<close>) is a \<open>Success\<close>. \<open>Success n same\<close>: \<open>n\<close> bytes
  were consumed, and \<open>same\<close> says whether \<open>returnedData\<close> is the \<open>user\<close> that was passed in.
\<close>

datatype HttpParserResult = Failed HttpError HttpParserError | Success nat bool

definition shortRead :: HttpParserResult where "shortRead = Success 0 False"

record ConsumeRequestLineResult =
  position :: "nat option"
  isAncientHTTP :: bool
  isConnect :: bool
  headerParserError :: HTTPHeaderParserError

definition line_error :: "HTTPHeaderParserError \<Rightarrow> ConsumeRequestLineResult" where
  "line_error e = \<lparr>position = None, isAncientHTTP = False, isConnect = False, headerParserError = e\<rparr>"

definition line_success :: "nat \<Rightarrow> bool \<Rightarrow> bool \<Rightarrow> ConsumeRequestLineResult" where
  "line_success p ancient con = \<lparr>position = Some p, isAncientHTTP = ancient, isConnect = con,
     headerParserError = HTTP_HEADER_PARSER_ERROR_NONE\<rparr>"

definition line_short :: "bool \<Rightarrow> bool \<Rightarrow> ConsumeRequestLineResult" where
  "line_short ancient con = \<lparr>position = None, isAncientHTTP = ancient, isConnect = con,
     headerParserError = HTTP_HEADER_PARSER_ERROR_NONE\<rparr>"

subsection \<open>The filter of header names\<close>

type_synonym bloom = "u8 \<Rightarrow> bool"

definition perfectHash :: "u32 \<Rightarrow> u32" where "perfectHash features = features * 1843993368"

definition getFeatures :: "u8 list \<Rightarrow> u32" where
  "getFeatures key =
    ucast (key ! 0) OR push_bit 8 (ucast (key ! (length key - 1))) OR push_bit 16 (ucast (key ! (length key - 2)))
      OR push_bit 24 (ucast (key ! (length key div 2)))"

definition scrambled :: "u8 list \<Rightarrow> u8 list" where
  "scrambled key = (let v = perfectHash (getFeatures key) in
     [ucast v, ucast (drop_bit 8 v), ucast (drop_bit 16 v), ucast (drop_bit 24 v)])"

definition mightHave :: "bloom \<Rightarrow> u8 list \<Rightarrow> bool" where
  "mightHave bf key \<longleftrightarrow> (if length key < 2 then True else \<forall>x \<in> set (scrambled key). bf x)"

definition bf_add :: "u8 list \<Rightarrow> bloom \<Rightarrow> bloom" where
  "bf_add key bf = (if length key \<ge> 2 then (\<lambda>x. x \<in> set (scrambled key) \<or> bf x) else bf)"

definition bf_reset :: bloom where "bf_reset = (\<lambda>x. False)"

subsection \<open>Words of eight bytes\<close>

definition ones :: u64 where "ones = (- 1) div 255"

definition hasLess :: "u64 \<Rightarrow> u64 \<Rightarrow> u64" where
  "hasLess x n = (x - ones * n) AND NOT x AND (ones * 128)"

fun packed :: "u8 list \<Rightarrow> u64" where
  "packed [] = 0"
| "packed (b # bs) = ucast b + 256 * packed bs"

definition rd :: "u8 list \<Rightarrow> nat \<Rightarrow> u8 option" where
  "rd b p = (if p < length b then Some (b ! p) else None)"

definition rd_word :: "u8 list \<Rightarrow> nat \<Rightarrow> u64 option" where
  "rd_word b p = (if p + 8 \<le> length b then Some (packed (take 8 (drop p b))) else None)"

definition piece_of :: "u8 list \<Rightarrow> nat \<Rightarrow> nat \<Rightarrow> u8 list" where
  "piece_of b p q = take (q - p) (drop p b)"

subsection \<open>Scans\<close>

function scan :: "(u8 \<Rightarrow> bool) \<Rightarrow> u8 list \<Rightarrow> nat \<Rightarrow> nat option" where
  "scan P b p = (if p < length b then if P (b ! p) then scan P b (p + 1) else Some p else None)"
  by pat_completeness auto
termination by (relation "measure (\<lambda>(P, b, p). length b - p)") auto

declare scan.simps [simp del]

definition isUnlikelyFieldNameByte :: "u8 \<Rightarrow> bool" where
  "isUnlikelyFieldNameByte c \<longleftrightarrow> c \<in> {126, 124, 96, 95, 94, 46, 43, 42, 33} \<or> (c \<ge> 48 \<and> c \<le> 57) \<or> (c \<le> 39 \<and> c \<ge> 35)"

text \<open>The byte is a byte of a name; the byte in lower case.\<close>

definition isFieldNameByteFastLowercased :: "u8 \<Rightarrow> bool \<times> u8" where
  "isFieldNameByteFastLowercased c =
    (if (c \<ge> 97 \<and> c \<le> 122) \<or> c = 45 then (True, c)
     else if c \<ge> 65 \<and> c \<le> 90 then (True, c OR 32)
     else if isUnlikelyFieldNameByte c then (True, c)
     else (False, c))"

function lower_run :: "u8 list \<Rightarrow> nat \<Rightarrow> (nat \<times> u8 list) option" where
  "lower_run b p =
    (if p < length b
     then if 65 \<le> sint (b ! p) \<and> sint (b ! p) \<le> 90 then lower_run (b[p := b ! p OR 32]) (p + 1) else Some (p, b)
     else None)"
  by pat_completeness auto
termination by (relation "measure (\<lambda>(b, p). length b - p)") auto

function name_run :: "u8 list \<Rightarrow> nat \<Rightarrow> (nat \<times> u8 list) option" where
  "name_run b p =
    (if p < length b
     then let (ok, c) = isFieldNameByteFastLowercased (b ! p) in
       if ok then name_run (b[p := c]) (p + 1) else Some (p, b[p := c])
     else None)"
  by pat_completeness auto
termination by (relation "measure (\<lambda>(b, p). length b - p)") auto

declare lower_run.simps [simp del] name_run.simps [simp del]

text \<open>\<open>consumeFieldName\<close>; the loop of the fast path returns with True when it has found the colon.\<close>

partial_function (option) fast_path :: "u8 list \<Rightarrow> nat \<Rightarrow> (bool \<times> nat \<times> u8 list) option" where
  "fast_path b p = do {
     (p, b) \<leftarrow> lower_run b p;
     p \<leftarrow> scan (\<lambda>c. 97 \<le> sint c \<and> sint c \<le> 122) b p;
     c \<leftarrow> rd b p;
     if c = 58 then Some (True, p, b)
     else if c = 45 then fast_path b (p + 1)
     else if \<not> (65 \<le> sint c \<and> sint c \<le> 90) then Some (False, p, b)
     else fast_path b p }"

declare fast_path.simps [code]

definition consumeFieldName :: "u8 list \<Rightarrow> nat \<Rightarrow> (nat \<times> u8 list) option" where
  "consumeFieldName b p = do {
     (found, p, b) \<leftarrow> fast_path b p;
     if found then Some (p, b) else name_run b p }"

function tryConsumeFieldValue :: "u8 list \<Rightarrow> nat \<Rightarrow> nat option" where
  "tryConsumeFieldValue b p = (case rd_word b p of
     None \<Rightarrow> None
   | Some word \<Rightarrow> if hasLess word 32 \<noteq> 0 then scan (\<lambda>c. c > 31) b p else tryConsumeFieldValue b (p + 8))"
  by pat_completeness auto
termination by (relation "measure (\<lambda>(b, p). length b - p)") (auto simp: rd_word_def split: if_splits)

declare tryConsumeFieldValue.simps [simp del]

lemma scan_bounds: "scan P b p = Some q \<Longrightarrow> p \<le> q \<and> q < length b \<and> \<not> P (b ! q)"
  by (induction P b p rule: scan.induct) (subst (asm) scan.simps, auto split: if_splits)

lemma tryConsumeFieldValue_bounds: "tryConsumeFieldValue b p = Some q \<Longrightarrow> p \<le> q \<and> q < length b \<and> b ! q \<le> 31"
proof (induction b p rule: tryConsumeFieldValue.induct)
  case (1 b p)
  from 1(2) 1(1) show ?case
    by (subst (asm) tryConsumeFieldValue.simps) (fastforce split: option.splits if_splits dest: scan_bounds simp: not_less)
qed

text \<open>The loop around it, which goes on after a tab.\<close>

function field_value :: "u8 list \<Rightarrow> nat \<Rightarrow> nat option" where
  "field_value b p = (case tryConsumeFieldValue b p of
     None \<Rightarrow> None
   | Some q \<Rightarrow> if b ! q \<noteq> 13 \<and> b ! q = 9 then field_value b (q + 1) else Some q)"
  by pat_completeness auto
termination by (relation "measure (\<lambda>(b, p). length b - p)") (auto dest: tryConsumeFieldValue_bounds)

declare field_value.simps [simp del]

subsection \<open>The request line\<close>

definition isValidMethodChar :: "u8 \<Rightarrow> bool" where
  "isValidMethodChar c \<longleftrightarrow> (65 \<le> sint c \<and> sint c \<le> 90) \<or> (97 \<le> sint c \<and> sint c \<le> 122) \<or> c = 45"

text \<open>What the connection's settings say; \<open>known_method\<close> is \<open>Bun__HTTPMethod__from\<close>, true when it finds the method.\<close>

record http_config =
  maxHeaderSize :: nat
  requireHostHeader :: bool
  useStrictMethodValidation :: bool
  MAX_FALLBACK_SIZE :: nat
  known_method :: "u8 list \<Rightarrow> bool"

definition isValidMethod :: "http_config \<Rightarrow> u8 list \<Rightarrow> bool" where
  "isValidMethod cfg m =
    (if m = [] then False
     else if useStrictMethodValidation cfg then known_method cfg m
     else list_all isValidMethodChar m)"

text \<open>None is -1.\<close>

definition isHTTPorHTTPSPrefixForProxies :: "u8 list \<Rightarrow> nat \<Rightarrow> nat \<Rightarrow> bool option" where
  "isHTTPorHTTPSPrefixForProxies b data stop =
    (if data + 8 \<ge> stop then None
     else
       let first = take 4 (drop data b); last = take 4 (drop (data + 4) b) in
       if \<exists>c \<in> set first. c AND 0x80 \<noteq> 0 then Some False
       else if map (\<lambda>c. c OR 0x20) first = [104, 116, 116, 112]
       then if take 3 last = [58, 47, 47] then Some True
         else Some (last = [115, 58, 47, 47] \<or> last = [83, 58, 47, 47])
       else Some False)"

text \<open>The method: an error, or where it ends.\<close>

function method_run :: "u8 list \<Rightarrow> nat \<Rightarrow> nat option option" where
  "method_run b p =
    (if p < length b
     then if 32 < sint (b ! p)
       then if \<not> isValidMethodChar (b ! p) then Some None else method_run b (p + 1)
       else Some (Some p)
     else None)"
  by pat_completeness auto
termination by (relation "measure (\<lambda>(b, p). length b - p)") auto

declare method_run.simps [simp del]

definition too_large :: "http_config \<Rightarrow> nat \<Rightarrow> bool" where
  "too_large cfg n \<longleftrightarrow> maxHeaderSize cfg \<noteq> 0 \<and> n > maxHeaderSize cfg"

definition VERSION_1_1 :: "u8 list" where "VERSION_1_1 = [32, 72, 84, 84, 80, 47, 49, 46, 49, 13, 10]"
definition VERSION_1_0 :: "u8 list" where "VERSION_1_0 = [32, 72, 84, 84, 80, 47, 49, 46, 48, 13, 10]"

text \<open>\<open>memcmp(v, data, n) == 0\<close>.\<close>

definition same_bytes :: "u8 list \<Rightarrow> u8 list \<Rightarrow> nat \<Rightarrow> nat \<Rightarrow> bool option" where
  "same_bytes v b data n = (if data + n \<le> length b then Some (take n (drop data b) = take n v) else None)"

text \<open>
  After the target, which ends at \<open>data\<close>. What is left of the buffer is cast to \<open>unsigned int\<close>: a negative distance becomes a large one.
\<close>

definition consumeVersion :: "u8 list \<Rightarrow> nat \<Rightarrow> nat \<Rightarrow> bool \<Rightarrow> ConsumeRequestLineResult option" where
  "consumeVersion b data stop con =
    (let nextPosition = data + 11 in
     if nextPosition \<ge> stop
     then
       let n = unat (min 11 (of_int (int stop - int data) :: u32)) in do {
         new \<leftarrow> same_bytes VERSION_1_1 b data n;
         old \<leftarrow> same_bytes VERSION_1_0 b data n;
         Some (if new then line_short False con
           else if old then line_short True con
           else line_error HTTP_HEADER_PARSER_ERROR_INVALID_HTTP_VERSION) }
     else do {
       new \<leftarrow> same_bytes VERSION_1_1 b data 11;
       old \<leftarrow> same_bytes VERSION_1_0 b data 11;
       Some (if new then line_success nextPosition False con
         else if old then line_success nextPosition True con
         else if b ! data = 13 then line_short False con
         else line_error HTTP_HEADER_PARSER_ERROR_INVALID_HTTP_VERSION) })"

text \<open>The scan for the end of the target; the result comes with the target when it was found.\<close>

function consumeTarget :: "http_config \<Rightarrow> u8 list \<Rightarrow> nat \<Rightarrow> nat \<Rightarrow> nat \<Rightarrow> bool \<Rightarrow>
    (ConsumeRequestLineResult \<times> u8 list) option" where
  "consumeTarget cfg b start data stop con = (case rd_word b data of
     None \<Rightarrow> None
   | Some word \<Rightarrow>
     if too_large cfg (data - start) then Some (line_error HTTP_HEADER_PARSER_ERROR_REQUEST_HEADER_FIELDS_TOO_LARGE, [])
     else if hasLess word 33 \<noteq> 0
     then case scan (\<lambda>c. c > 32) b data of
         None \<Rightarrow> None
       | Some data \<Rightarrow>
         if too_large cfg (data - start) then Some (line_error HTTP_HEADER_PARSER_ERROR_REQUEST_HEADER_FIELDS_TOO_LARGE, [])
         else map_option (\<lambda>r. (r, piece_of b start data)) (consumeVersion b data stop con)
     else consumeTarget cfg b start (data + 8) stop con)"
  by pat_completeness auto
termination by (relation "measure (\<lambda>(cfg, b, start, data, stop, con). length b - data)") (auto simp: rd_word_def split: if_splits)

declare consumeTarget.simps [simp del]

definition CONNECT :: "u8 list" where "CONNECT = [67, 79, 78, 78, 69, 67, 84]"

text \<open>The result, with method and target.\<close>

definition consumeRequestLine :: "http_config \<Rightarrow> u8 list \<Rightarrow> nat \<Rightarrow> nat \<Rightarrow> (ConsumeRequestLineResult \<times> u8 list \<times> u8 list) option" where
  "consumeRequestLine cfg b start stop = do {
     m \<leftarrow> method_run b start;
     case m of
       None \<Rightarrow> Some (line_error HTTP_HEADER_PARSER_ERROR_INVALID_METHOD, [], [])
     | Some data \<Rightarrow>
       if start = data then Some (line_error HTTP_HEADER_PARSER_ERROR_INVALID_METHOD, [], [])
       else if data - start < 2 then Some (line_short False False, [], [])
       else do {
         c \<leftarrow> rd b data;
         c1 \<leftarrow> rd b (data + 1);
         let isHTTPMethod = (c1 = 47);
             con = (\<not> isHTTPMethod \<and> data - start = 7 \<and> piece_of b start data = CONNECT);
             isProxyStyleURL = (\<not> isHTTPMethod \<and> \<not> con \<and> c = 32 \<and> isHTTPorHTTPSPrefixForProxies b (data + 1) stop = Some True);
             key = piece_of b start data
         in if isHTTPMethod \<or> con \<or> isProxyStyleURL
         then if \<not> isValidMethod cfg key then Some (line_error HTTP_HEADER_PARSER_ERROR_INVALID_METHOD, key, [])
           else do {
             (r, target) \<leftarrow> consumeTarget cfg b (data + 1) (data + 1) stop con;
             Some (r, key, target) }
         else if c = 13 then Some (line_short False con, [], [])
         else if c = 32
         then case isHTTPorHTTPSPrefixForProxies b (data + 1) stop of
             None \<Rightarrow> Some (line_short False con, [], [])
           | Some _ \<Rightarrow> Some (line_error HTTP_HEADER_PARSER_ERROR_INVALID_REQUEST, [], [])
         else Some (line_error HTTP_HEADER_PARSER_ERROR_INVALID_HTTP_VERSION, [], []) } }"

subsection \<open>The headers\<close>

type_synonym header = "u8 list \<times> u8 list"

definition ows :: "u8 \<Rightarrow> bool" where "ows c \<longleftrightarrow> c = 32 \<or> c = 9"

definition trim_value :: "u8 list \<Rightarrow> u8 list" where
  "trim_value v = dropWhile ows (rev (dropWhile ows (rev v)))"

definition UWS_HTTP_MAX_HEADERS_COUNT :: nat where "UWS_HTTP_MAX_HEADERS_COUNT = 200"

definition TOO_LARGE :: HttpParserResult where
  "TOO_LARGE = Failed HTTP_ERROR_431_REQUEST_HEADER_FIELDS_TOO_LARGE HTTP_PARSER_ERROR_REQUEST_HEADER_FIELDS_TOO_LARGE"

definition BAD :: "HttpParserError \<Rightarrow> HttpParserResult" where
  "BAD = Failed HTTP_ERROR_400_BAD_REQUEST"

text \<open>
  The loop over the fields, with \<open>n\<close> turns left and the headers so far; \<open>first\<close> is where the method begins. The array of headers
  is ended by an empty name in the code, by the end of the list here.
\<close>

fun header_loop :: "http_config \<Rightarrow> nat \<Rightarrow> nat \<Rightarrow> nat \<Rightarrow> nat \<Rightarrow> u8 list \<Rightarrow> header list \<Rightarrow>
    (HttpParserResult \<times> header list \<times> u8 list) option" where
  "header_loop cfg start stop 0 p b hs = Some (TOO_LARGE, hs, b)"
| "header_loop cfg start stop (Suc n) p b hs = do {
     (q, b) \<leftarrow> consumeFieldName b p;
     c \<leftarrow> rd b q;
     if too_large cfg (q - start) then Some (TOO_LARGE, hs, b)
     else if c \<noteq> 58
     then if q = stop then Some (shortRead, hs, b) else Some (BAD HTTP_PARSER_ERROR_INVALID_HEADER_TOKEN, hs, b)
     else do {
       r \<leftarrow> field_value b (q + 1);
       c \<leftarrow> rd b r;
       if c \<noteq> 13 then Some (BAD HTTP_PARSER_ERROR_INVALID_HEADER_TOKEN, hs, b)
       else if too_large cfg (r - start) then Some (TOO_LARGE, hs, b)
       else if stop < r + 2 then Some (shortRead, hs, b)
       else do {
         c1 \<leftarrow> rd b (r + 1);
         if c1 = 10
         then
           let hs = hs @ [(piece_of b p q, trim_value (piece_of b (q + 1) r))]; p = r + 2 in
           if too_large cfg (p - start) then Some (TOO_LARGE, hs, b)
           else do {
             c \<leftarrow> rd b p;
             if c = 13
             then do {
               c1 \<leftarrow> rd b (p + 1);
               if c1 = 10 then Some (Success (p + 2 - start) False, hs, b)
               else if p + 1 < stop then Some (BAD HTTP_PARSER_ERROR_INVALID_REQUEST, hs, b)
               else Some (shortRead, hs, b) }
             else header_loop cfg start stop n p b hs }
         else if c = 13 then Some (BAD HTTP_PARSER_ERROR_INVALID_REQUEST, hs, b)
         else Some (shortRead, hs, b) } } }"

definition line_failure :: "HTTPHeaderParserError \<Rightarrow> HttpParserResult" where
  "line_failure e = (case e of
     HTTP_HEADER_PARSER_ERROR_INVALID_HTTP_VERSION \<Rightarrow>
       Failed HTTP_ERROR_505_HTTP_VERSION_NOT_SUPPORTED HTTP_PARSER_ERROR_INVALID_HTTP_VERSION
   | HTTP_HEADER_PARSER_ERROR_INVALID_REQUEST \<Rightarrow> BAD HTTP_PARSER_ERROR_INVALID_REQUEST
   | HTTP_HEADER_PARSER_ERROR_INVALID_METHOD \<Rightarrow> BAD HTTP_PARSER_ERROR_INVALID_METHOD
   | HTTP_HEADER_PARSER_ERROR_REQUEST_HEADER_FIELDS_TOO_LARGE \<Rightarrow> TOO_LARGE
   | HTTP_HEADER_PARSER_ERROR_NONE \<Rightarrow> shortRead)"

text \<open>
  Result, headers with method and target first, buffer, and the two flags that are only ever set.
\<close>

definition getHeaders :: "http_config \<Rightarrow> u8 list \<Rightarrow> nat \<Rightarrow> nat \<Rightarrow> bool \<Rightarrow> bool \<Rightarrow>
    (HttpParserResult \<times> header list \<times> u8 list \<times> bool \<times> bool) option" where
  "getHeaders cfg b start stop ancient con = do {
     (line, key, target) \<leftarrow> consumeRequestLine cfg b start stop;
     case position line of
       None \<Rightarrow> Some (line_failure (headerParserError line), [], b, ancient, con)
     | Some p \<Rightarrow>
       let ancient = (isAncientHTTP line \<or> ancient); con = (isConnect line \<or> con) in
       if p + 2 > stop then Some (shortRead, [(key, target)], b, ancient, con)
       else do {
         c \<leftarrow> rd b p;
         c1 \<leftarrow> rd b (p + 1);
         if c = 13 \<and> c1 = 10 then Some (Success (p + 2 - start) False, [(key, target)], b, ancient, con)
         else do {
           (r, hs, b) \<leftarrow> header_loop cfg start stop (UWS_HTTP_MAX_HEADERS_COUNT - 2) p b [(key, target)];
           Some (r, hs, b, ancient, con) } } }"

subsection \<open>What the headers say of the body\<close>

definition n_host :: "u8 list" where "n_host = [104, 111, 115, 116]"
definition n_content_length :: "u8 list" where
  "n_content_length = [99, 111, 110, 116, 101, 110, 116, 45, 108, 101, 110, 103, 116, 104]"
definition n_transfer_encoding :: "u8 list" where
  "n_transfer_encoding = [116, 114, 97, 110, 115, 102, 101, 114, 45, 101, 110, 99, 111, 100, 105, 110, 103]"
definition n_chunked :: "u8 list" where "n_chunked = [99, 104, 117, 110, 107, 101, 100]"

text \<open>Every loop over the headers starts after the request line and stops at an empty name.\<close>

definition visible :: "header list \<Rightarrow> header list" where
  "visible hs = takeWhile (\<lambda>h. fst h \<noteq> []) (tl hs)"

record http_request =
  req_headers :: "header list"
  ancientHttp :: bool
  querySeparator :: nat
  req_filter :: bloom
  req_head :: "u8 list"

definition filter_of :: "header list \<Rightarrow> bloom" where
  "filter_of hs = fold (\<lambda>h. bf_add (fst h)) (visible hs) bf_reset"

definition find_header :: "bloom \<Rightarrow> header list \<Rightarrow> u8 list \<Rightarrow> u8 list option" where
  "find_header bf hs key =
    (if mightHave bf key then map_option snd (find (\<lambda>h. fst h = key) (visible hs)) else None)"

definition getHeader :: "http_request \<Rightarrow> u8 list \<Rightarrow> u8 list option" where
  "getHeader req = find_header (req_filter req) (req_headers req)"

text \<open>The value of all \<open>Content-Length\<close> headers, \<open>[]\<close> for none; None when they are refused.\<close>

fun same_lengths :: "header list \<Rightarrow> u8 list \<Rightarrow> u8 list option" where
  "same_lengths [] acc = Some acc"
| "same_lengths ((k, v) # hs) acc =
    (if k = n_content_length
     then if acc = [] then if v = [] then None else same_lengths hs v
       else if v \<noteq> acc then None else same_lengths hs acc
     else same_lengths hs acc)"

definition contentLengthString :: "bloom \<Rightarrow> header list \<Rightarrow> u8 list option" where
  "contentLengthString bf hs = (if mightHave bf n_content_length then same_lengths (visible hs) [] else Some [])"

record TransferEncoding =
  te_has :: bool
  te_chunked :: bool
  te_invalid :: bool

text \<open>The last of the values separated by commas that is not empty.\<close>

function last_token :: "u8 list \<Rightarrow> u8 list \<Rightarrow> u8 list" where
  "last_token v found =
    (if v = [] then found
     else
       let rest = dropWhile ows v;
           token = rev (dropWhile ows (rev (takeWhile (\<lambda>c. c \<noteq> 44) rest)))
       in last_token (tl (dropWhile (\<lambda>c. c \<noteq> 44) rest)) (if token \<noteq> [] then token else found))"
  by pat_completeness auto
termination
proof (relation "measure (\<lambda>(v, found). length v)", goal_cases)
  case (2 v found rest token)
  have "length (dropWhile (\<lambda>c. c \<noteq> 44) rest) \<le> length v"
    unfolding 2(2) by (rule order_trans [OF length_dropWhile_le length_dropWhile_le])
  then show ?case using 2(1) by (cases v) auto
qed simp

declare last_token.simps [simp del]

text \<open>\<open>strncasecmp\<close>\<close>

definition lower :: "u8 \<Rightarrow> u8" where "lower c = (if 65 \<le> c \<and> c \<le> 90 then c OR 32 else c)"

fun transfer_encoding :: "header list \<Rightarrow> TransferEncoding \<Rightarrow> TransferEncoding" where
  "transfer_encoding [] te = te"
| "transfer_encoding ((k, v) # hs) te =
    (if k = n_transfer_encoding
     then let token = last_token v [] in
       if te_chunked te then te\<lparr>te_invalid := True\<rparr>
       else transfer_encoding hs (te\<lparr>te_has := token \<noteq> [], te_chunked := (map lower token = n_chunked \<or> te_chunked te)\<rparr>)
     else transfer_encoding hs te)"

definition getTransferEncoding :: "bloom \<Rightarrow> header list \<Rightarrow> TransferEncoding" where
  "getTransferEncoding bf hs =
    (let te = \<lparr>te_has = False, te_chunked = False, te_invalid = False\<rparr> in
     if mightHave bf n_transfer_encoding then transfer_encoding (visible hs) te else te)"

definition digits_value :: "u8 list \<Rightarrow> u64" where
  "digits_value = foldl (\<lambda>n c. n * 10 + ucast (c - 48)) 0"

definition toUnsignedInteger :: "u8 list \<Rightarrow> u64" where
  "toUnsignedInteger str =
    (if length str > 18 then - 1
     else if \<exists>c \<in> set str. sint c < 48 \<or> sint c > 57 then - 1
     else digits_value str)"

datatype framing = Chunked_body | Fixed_body u64 | No_body

text \<open>
  The checks between the headers and the call of the request handler: what is wrong with the request, or the filter and how its body
  is framed. \<open>transferEncoding.has\<close> comes before the length, as in the code after the call.
\<close>

definition check_headers :: "http_config \<Rightarrow> bool \<Rightarrow> header list \<Rightarrow> HttpParserError + framing" where
  "check_headers cfg ancient hs =
    (let bf = filter_of hs in
     if \<not> ancient \<and> requireHostHeader cfg \<and> find_header bf hs n_host = None
     then Inl HTTP_PARSER_ERROR_MISSING_HOST_HEADER
     else case contentLengthString bf hs of
         None \<Rightarrow> Inl HTTP_PARSER_ERROR_INVALID_CONTENT_LENGTH
       | Some len \<Rightarrow>
         let te = getTransferEncoding bf hs in
         if te_invalid te \<or> (te_has te \<and> (len \<noteq> [] \<or> \<not> te_chunked te))
         then Inl HTTP_PARSER_ERROR_INVALID_TRANSFER_ENCODING
         else if len \<noteq> [] \<and> toUnsignedInteger len > STATE_SIZE_MASK
         then Inl HTTP_PARSER_ERROR_INVALID_CONTENT_LENGTH
         else Inr (if te_has te then Chunked_body else if len \<noteq> [] then Fixed_body (toUnsignedInteger len) else No_body))"

definition request_of :: "header list \<Rightarrow> bool \<Rightarrow> u8 list \<Rightarrow> http_request" where
  "request_of hs ancient rest =
    \<lparr>req_headers = hs, ancientHttp = ancient, querySeparator = length (takeWhile (\<lambda>c. c \<noteq> 63) (snd (hd hs))),
     req_filter = filter_of hs, req_head = rest\<rparr>"

subsection \<open>The parser of a connection\<close>

record http_parser =
  fallback :: "u8 list"
  remainingStreamingBytes :: u64
  isConnectRequest :: bool

text \<open>The two handlers; True when they return the \<open>user\<close> they were called with.\<close>

record 'u http_app =
  requestHandler :: "http_request \<Rightarrow> 'u \<Rightarrow> bool \<times> 'u"
  dataHandler :: "u8 list \<Rightarrow> bool \<Rightarrow> 'u \<Rightarrow> bool \<times> 'u"

definition emit_chunks :: "'u http_app \<Rightarrow> u8 list list \<Rightarrow> 'u \<Rightarrow> 'u" where
  "emit_chunks app = fold (\<lambda>c u. snd (dataHandler app c (c = []) u))"

definition BAD_CHUNKS :: HttpParserResult where "BAD_CHUNKS = BAD HTTP_PARSER_ERROR_INVALID_CHUNKED_ENCODING"

text \<open>
  After the request handler: the first piece of the body, unless only the headers are to be consumed. The result, or the
  position where to go on.
\<close>

definition begin_body :: "bool \<Rightarrow> 'u http_app \<Rightarrow> framing \<Rightarrow> u8 list \<Rightarrow> nat \<Rightarrow> nat \<Rightarrow> http_parser \<Rightarrow> 'u \<Rightarrow>
    (HttpParserResult + nat) \<times> http_parser \<times> 'u" where
  "begin_body minimally app f b data stop p u =
    (case f of
       Chunked_body \<Rightarrow>
         let p = p\<lparr>remainingStreamingBytes := STATE_IS_CHUNKED\<rparr> in
         if minimally then (Inl (Success data True), p, u)
         else
           let (cs, left, st) = chunks (piece_of b data stop) STATE_IS_CHUNKED False;
               u = emit_chunks app cs u; p = p\<lparr>remainingStreamingBytes := st\<rparr>
           in if isParsingInvalidChunkedEncoding st then (Inl BAD_CHUNKS, p, u) else (Inr (stop - length left), p, u)
     | Fixed_body n \<Rightarrow>
         if minimally then (Inl (Success data True), p, u)
         else
           let emittable = min (unat n) (stop - data);
               (_, u) = dataHandler app (piece_of b data (data + emittable)) (emittable = unat n) u
           in (Inr (data + emittable), p\<lparr>remainingStreamingBytes := n - of_nat emittable\<rparr>, u)
     | No_body \<Rightarrow>
         if isConnectRequest p
         then (Inl (Success stop True), p\<lparr>remainingStreamingBytes := STATE_IS_CHUNKED\<rparr>, u)
         else
           let (_, u) = dataHandler app [] True u
           in (if minimally then Inl (Success data True) else Inr data, p, u))"

text \<open>
  \<open>fenceAndConsumePostPadded\<close> after the fence: the loop over the requests of the buffer. It begins at position 0, so \<open>data\<close>
  is also what has been consumed. When a length is refused the code has already stored it in \<open>remainingStreamingBytes\<close>, which
  is left out here: after an error the connection is closed and the parser not used again.
\<close>

partial_function (option) requests :: "bool \<Rightarrow> http_config \<Rightarrow> 'u http_app \<Rightarrow> nat \<Rightarrow> nat \<Rightarrow> u8 list \<Rightarrow> bool \<Rightarrow> http_parser \<Rightarrow> 'u \<Rightarrow>
    (HttpParserResult \<times> u8 list \<times> http_parser \<times> 'u) option" where
  "requests minimally cfg app data stop b ancient p u =
    (if data \<ge> stop then Some (Success data True, b, p, u)
     else do {
       (r, hs, b, ancient, con) \<leftarrow> getHeaders cfg b data stop ancient (isConnectRequest p);
       let p = p\<lparr>isConnectRequest := con\<rparr> in
       case r of
         Failed e k \<Rightarrow> Some (r, b, p, u)
       | Success consumed _ \<Rightarrow>
         if consumed = 0 then Some (Success data True, b, p, u)
         else
           let data = data + consumed in
           if consumed > MAX_FALLBACK_SIZE cfg then Some (TOO_LARGE, b, p, u)
           else case check_headers cfg ancient hs of
               Inl k \<Rightarrow> Some (BAD k, b, p, u)
             | Inr f \<Rightarrow>
               let p = (case f of Fixed_body n \<Rightarrow> p\<lparr>remainingStreamingBytes := n\<rparr> | _ \<Rightarrow> p);
                   (same, u) = requestHandler app (request_of hs ancient (piece_of b data stop)) u
               in if \<not> same then Some (Success data False, b, p, u)
               else
                 let (next, p, u) = begin_body minimally app f b data stop p u in
                 case next of
                   Inl r \<Rightarrow> Some (r, b, p, u)
                 | Inr data \<Rightarrow> requests minimally cfg app data stop b ancient p u })"

declare requests.simps [code]

definition fence :: "u8 list \<Rightarrow> u8 list \<Rightarrow> u8 list" where
  "fence bs pad = bs @ (pad[0 := 13, 1 := 97])"

definition fenceAndConsumePostPadded :: "bool \<Rightarrow> http_config \<Rightarrow> 'u http_app \<Rightarrow> u8 list \<Rightarrow> u8 list \<Rightarrow> http_parser \<Rightarrow> 'u \<Rightarrow>
    (HttpParserResult \<times> u8 list \<times> http_parser \<times> 'u) option" where
  "fenceAndConsumePostPadded minimally cfg app pad bs p u = do {
     (r, b, p, u) \<leftarrow> requests minimally cfg app 0 (length bs) (fence bs pad) False p u;
     Some (r, take (length bs) b, p, u) }"

text \<open>
  The body of a request that an earlier segment began; the code has this twice. The result, or what the body leaves of the
  segment.
\<close>

definition resume_body :: "'u http_app \<Rightarrow> u8 list \<Rightarrow> http_parser \<Rightarrow> 'u \<Rightarrow> (HttpParserResult + u8 list) \<times> http_parser \<times> 'u" where
  "resume_body app bs p u =
    (if isConnectRequest p
     then let (_, u) = dataHandler app bs False u in (Inl (Success 0 True), p, u)
     else if isParsingChunkedEncoding (remainingStreamingBytes p)
     then
       let (cs, left, st) = chunks bs (remainingStreamingBytes p) False;
           u = emit_chunks app cs u; p = p\<lparr>remainingStreamingBytes := st\<rparr>
       in if isParsingInvalidChunkedEncoding st then (Inl BAD_CHUNKS, p, u) else (Inr left, p, u)
     else
       let n = unat (remainingStreamingBytes p) in
       if n \<ge> length bs
       then let (same, u) = dataHandler app bs (n = length bs) u
         in (Inl (Success 0 same), p\<lparr>remainingStreamingBytes := remainingStreamingBytes p - of_nat (length bs)\<rparr>, u)
       else
         let (same, u) = dataHandler app (take n bs) True u; p = p\<lparr>remainingStreamingBytes := 0\<rparr>
         in (if \<not> same then Inl (Success 0 False) else Inr (drop n bs), p, u))"

text \<open>The end of \<open>consumePostPadded\<close>: requests that begin in this segment.\<close>

definition new_requests :: "http_config \<Rightarrow> 'u http_app \<Rightarrow> u8 list \<Rightarrow> u8 list \<Rightarrow> http_parser \<Rightarrow> 'u \<Rightarrow>
    (HttpParserResult \<times> http_parser \<times> 'u) option" where
  "new_requests cfg app pad bs p u = do {
     (r, b, p, u) \<leftarrow> fenceAndConsumePostPadded False cfg app pad bs p u;
     case r of
       Success consumed True \<Rightarrow>
         if consumed < length bs
         then if length bs - consumed < MAX_FALLBACK_SIZE cfg
           then Some (Success 0 True, p\<lparr>fallback := fallback p @ drop consumed b\<rparr>, u)
           else Some (TOO_LARGE, p, u)
         else Some (Success 0 True, p, u)
     | _ \<Rightarrow> Some (r, p, u) }"

definition resume_then_new :: "http_config \<Rightarrow> 'u http_app \<Rightarrow> u8 list \<Rightarrow> u8 list \<Rightarrow> http_parser \<Rightarrow> 'u \<Rightarrow>
    (HttpParserResult \<times> http_parser \<times> 'u) option" where
  "resume_then_new cfg app pad bs p u =
    (if remainingStreamingBytes p \<noteq> 0
     then case resume_body app bs p u of
         (Inl r, p, u) \<Rightarrow> Some (r, p, u)
       | (Inr bs, p, u) \<Rightarrow> new_requests cfg app pad bs p u
     else new_requests cfg app pad bs p u)"

text \<open>
  \<open>pad\<close> is what lies after the segment, \<open>pad'\<close> what lies after the characters of \<open>fallback\<close>. A request found in \<open>fallback\<close> that ends
  before the new bytes would move the cursor to before the segment: None.
\<close>

definition consumePostPadded :: "http_config \<Rightarrow> 'u http_app \<Rightarrow> u8 list \<Rightarrow> u8 list \<Rightarrow> u8 list \<Rightarrow> http_parser \<Rightarrow> 'u \<Rightarrow>
    (HttpParserResult \<times> http_parser \<times> 'u) option" where
  "consumePostPadded cfg app pad pad' seg p u =
    (if remainingStreamingBytes p = 0 \<and> fallback p \<noteq> []
     then
       let had = length (fallback p);
           fb = fallback p @ take (min (MAX_FALLBACK_SIZE cfg - had) (length seg)) seg
       in do {
         (r, fb, p, u) \<leftarrow> fenceAndConsumePostPadded True cfg app pad' fb (p\<lparr>fallback := fb\<rparr>) u;
         let p = p\<lparr>fallback := fb\<rparr> in
         case r of
           Success consumed True \<Rightarrow>
             if consumed = 0
             then if length fb = MAX_FALLBACK_SIZE cfg then Some (TOO_LARGE, p, u) else Some (Success 0 True, p, u)
             else if consumed < had then None
             else resume_then_new cfg app pad (drop (consumed - had) seg) (p\<lparr>fallback := []\<rparr>) u
         | _ \<Rightarrow> Some (r, p, u) }
     else resume_then_new cfg app pad seg p u)"

end
