(* ===== verification/Uws_Http_Scan.thy ===== *)
theory Uws_Http_Scan imports
  Uws_Http
begin

section \<open>Scanning eight bytes at a time\<close>

text \<open>
  \<open>hasLess\<close> is not zero exactly when one of the eight bytes is less than the bound, so the scans that use it find the first such byte; and the two
  paths of \<open>consumeFieldName\<close> are one scan.
\<close>

subsection \<open>The words\<close>

lemma top_bit: "0 \<le> x \<Longrightarrow> x < 256 \<Longrightarrow> odd (x div 128) \<longleftrightarrow> 128 \<le> (x :: int)"
  by presburger

lemma bit_7: "bit (c :: u8) 7 \<longleftrightarrow> 128 \<le> unat c"
proof -
  have l: "uint c < 256" using uint_bounded [of c] by simp
  have p: "2 ^ 7 = (128 :: int)" by simp
  have "bit c 7 = bit (uint c) 7" by (simp add: bit_uint_iff)
  also have "\<dots> = odd (uint c div 128)" unfolding bit_iff_odd p ..
  also have "\<dots> = (128 \<le> uint c)" by (rule top_bit [OF _ l]) simp
  also have "\<dots> = (128 \<le> unat c)" using uint_nat [of c] by linarith
  finally show ?thesis .
qed

lemma bit_packed: "length bs \<le> 8 \<Longrightarrow> bit (packed bs) j \<longleftrightarrow> j div 8 < length bs \<and> bit (bs ! (j div 8)) (j mod 8)"
proof (induction bs arbitrary: j)
  case Nil
  then show ?case by simp
next
  case (Cons b bs)
  have "ucast b + 256 * packed bs = (ucast b :: u64) OR push_bit 8 (packed bs)"
  proof -
    have "256 * packed bs = push_bit 8 (packed bs)" by (simp add: push_bit_eq_mult)
    moreover have "(ucast b :: u64) + push_bit 8 (packed bs) = ucast b OR push_bit 8 (packed bs)"
      by (rule disjunctive_add) (auto simp: bit_simps dest: bit_imp_le_length)
    ultimately show ?thesis by simp
  qed
  moreover have "j < 64" if "j div 8 < Suc (length bs)" using that Cons.prems by auto
  moreover have "j div 8 = Suc ((j - 8) div 8)" "(j - 8) mod 8 = j mod 8" if "8 \<le> j"
    using that by (simp_all add: le_div_geq le_mod_geq)
  moreover have "\<not> bit b j" if "8 \<le> j" using that bit_imp_le_length [of b j] by auto
  ultimately show ?case using Cons.IH [of "j - 8"] Cons.prems
    by (cases "j < 8") (auto simp: bit_simps nth_Cons')
qed

text \<open>Subtraction of \<open>n\<close> from every byte, with a borrow.\<close>

fun sub_bytes :: "nat \<Rightarrow> bool \<Rightarrow> u8 list \<Rightarrow> u8 list \<times> bool" where
  "sub_bytes n borrow [] = ([], borrow)"
| "sub_bytes n borrow (b # bs) =
    (let k = n + of_bool borrow; (ds, out) = sub_bytes n (unat b < k) bs in ((b - of_nat k) # ds, out))"

lemma small_byte:
  assumes "n \<le> 128"
  shows "(ucast (of_nat n :: u8) :: u64) = of_nat n"
proof -
  have "n < 2 ^ 8" "n < 2 ^ 64" using assms by simp_all
  then have "unat (of_nat n :: u8) = n" "unat (of_nat n :: u64) = n" by (simp_all add: unat_of_nat take_bit_nat_eq_self)
  moreover have "unat (ucast (of_nat n :: u8) :: u64) = unat (of_nat n :: u8)"
    using unsigned_less [of "of_nat n :: u8", where 'a = nat] by (subst unsigned_ucast_eq) (simp add: take_bit_nat_eq_self)
  ultimately show ?thesis by (simp add: word_unat_eq_iff)
qed

lemma sub_bytes_word:
  "n \<le> 128 \<Longrightarrow> sub_bytes n borrow bs = (ds, out) \<Longrightarrow> length ds = length bs
    \<and> packed bs - packed (replicate (length bs) (of_nat n)) - of_bool borrow = packed ds - of_bool out * 256 ^ length bs"
proof (induction bs arbitrary: borrow ds out)
  case Nil
  then show ?case by simp
next
  case (Cons b bs)
  let ?k = "n + of_bool borrow"
  obtain es l where e: "sub_bytes n (unat b < ?k) bs = (es, l)" by fastforce
  then have d: "ds = (b - of_nat ?k) # es" "l = out" using Cons.prems(2) by (simp_all add: Let_def)
  have b: "(ucast b :: u64) - of_nat ?k = ucast (b - of_nat ?k) - 256 * of_bool (unat b < ?k)"
  proof -
    have l: "unat b < 256" using unsigned_less [of b, where 'a = nat] by simp
    have kk: "?k \<le> 129" using Cons.prems(1) by simp
    then have uk: "unat (of_nat ?k :: u8) = ?k" by (subst unat_of_nat) (simp add: take_bit_nat_eq_self)
    have u: "unat (b - of_nat ?k) = (if unat b < ?k then 256 + unat b - ?k else unat b - ?k)"
      unfolding unat_sub_if' uk using l kk by auto
    have "(ucast b :: u64) = of_nat (unat b)" "(ucast (b - of_nat ?k) :: u64) = of_nat (unat (b - of_nat ?k))" by simp_all
    then show ?thesis unfolding u using kk l by (auto simp: of_nat_diff)
  qed
  have n: "(ucast (of_nat n :: u8) :: u64) = of_nat n"
    using Cons.prems(1) by (rule small_byte)
  have IH: "length es = length bs"
    "packed bs - packed (replicate (length bs) (of_nat n)) - of_bool (unat b < ?k) = packed es - of_bool l * 256 ^ length bs"
    using Cons.IH [OF Cons.prems(1) e] by blast+
  have "packed (b # bs) - packed (replicate (length (b # bs)) (of_nat n)) - of_bool borrow
      = (ucast b - of_nat ?k) + 256 * (packed bs - packed (replicate (length bs) (of_nat n)))"
    by (simp add: n algebra_simps)
  also have "\<dots> = ucast (b - of_nat ?k) + 256 * (packed bs - packed (replicate (length bs) (of_nat n)) - of_bool (unat b < ?k))"
    unfolding b by (simp add: algebra_simps)
  also have "\<dots> = ucast (b - of_nat ?k) + 256 * (packed es - of_bool l * 256 ^ length bs)" unfolding IH(2) ..
  also have "\<dots> = packed ds - of_bool out * 256 ^ length (b # bs)" by (simp add: d algebra_simps)
  finally show ?case using IH(1) d by simp
qed

lemma sub_bytes_less:
  assumes "n \<le> 128"
  shows "(\<exists>i < length bs. bit (fst (sub_bytes n False bs) ! i) 7 \<and> \<not> bit (bs ! i) 7) \<longleftrightarrow> (\<exists>b \<in> set bs. unat b < n)"
proof (induction bs)
  case Nil
  then show ?case by simp
next
  case (Cons b bs)
  have l: "unat b < 256" using unsigned_less [of b, where 'a = nat] by simp
  have u: "unat (b - of_nat n) = (if unat b < n then 256 + unat b - n else unat b - n)"
  proof -
    have "unat (of_nat n :: u8) = n" using assms by (subst unat_of_nat) (simp add: take_bit_nat_eq_self)
    then show ?thesis unfolding unat_sub_if' using l by auto
  qed
  have f: "fst (sub_bytes n False (b # bs)) = (b - of_nat n) # fst (sub_bytes n (unat b < n) bs)"
    by (simp add: Let_def case_prod_beta)
  show ?case
  proof (cases "unat b < n")
    case True
    then have "bit (b - of_nat n) 7" "\<not> bit b 7" using assms u by (simp_all add: bit_7)
    then show ?thesis using True f by (intro iffI) (auto intro!: exI [of _ 0])
  next
    case False
    then have "\<not> (bit (b - of_nat n) 7 \<and> \<not> bit b 7)" using u by (auto simp: bit_7)
    then show ?thesis using False f Cons.IH by (auto simp: less_Suc_eq_0_disj)
  qed
qed

lemma eight: "replicate 8 x = [x, x, x, x, x, x, x, x]"
  by (simp add: numeral_eq_Suc)

lemma ones_words: "n \<le> 128 \<Longrightarrow> ones * of_nat n = packed (replicate 8 (of_nat n))" "ones * 128 = packed (replicate 8 128)"
proof -
  have o: "ones = 0x0101010101010101" unfolding ones_def by simp
  show "ones * 128 = packed (replicate 8 128)" unfolding o eight by simp
  assume "n \<le> 128"
  then have "(ucast (of_nat n :: u8) :: u64) = of_nat n" by (rule small_byte)
  then show "ones * of_nat n = packed (replicate 8 (of_nat n))" unfolding o eight by (simp add: algebra_simps)
qed

lemma nonzero_bit: "(w :: u64) \<noteq> 0 \<longleftrightarrow> (\<exists>j < 64. bit w j)"
  using bit_imp_le_length [of w] by (auto simp: bit_eq_iff)

lemma hasLess_exact:
  assumes l: "length bs = 8" and n: "n \<le> 128"
  shows "hasLess (packed bs) (of_nat n) \<noteq> 0 \<longleftrightarrow> (\<exists>b \<in> set bs. unat b < n)"
proof -
  obtain ds out where d: "sub_bytes n False bs = (ds, out)" by fastforce
  from sub_bytes_word [OF n d] have ld: "length ds = 8" and w: "packed bs - ones * of_nat n = packed ds"
    unfolding ones_words(1) [OF n] l by simp_all
  have "hasLess (packed bs) (of_nat n) \<noteq> 0
      \<longleftrightarrow> (\<exists>j. j < 64 \<and> bit (packed ds AND NOT (packed bs) AND packed (replicate 8 128)) j)"
    unfolding hasLess_def w ones_words(2) nonzero_bit ..
  also have "\<dots> \<longleftrightarrow> (\<exists>j < 64. bit (ds ! (j div 8)) (j mod 8) \<and> \<not> bit (bs ! (j div 8)) (j mod 8) \<and> bit (128 :: u8) (j mod 8))"
    using l ld by (auto simp: bit_and_iff bit_not_iff bit_packed)
  also have "\<dots> \<longleftrightarrow> (\<exists>i < 8. bit (ds ! i) 7 \<and> \<not> bit (bs ! i) 7)"
  proof
    have b: "bit (128 :: u8) k \<longleftrightarrow> k = 7" if "k < 8" for k
      using that by (auto simp: numeral_eq_Suc less_Suc_eq)
    assume "\<exists>j < 64. bit (ds ! (j div 8)) (j mod 8) \<and> \<not> bit (bs ! (j div 8)) (j mod 8) \<and> bit (128 :: u8) (j mod 8)"
    then obtain j where "j < 64" "bit (ds ! (j div 8)) (j mod 8)" "\<not> bit (bs ! (j div 8)) (j mod 8)" "j mod 8 = 7"
      using b by fastforce
    then show "\<exists>i < 8. bit (ds ! i) 7 \<and> \<not> bit (bs ! i) 7" by (intro exI [of _ "j div 8"]) auto
  next
    assume "\<exists>i < 8. bit (ds ! i) 7 \<and> \<not> bit (bs ! i) 7"
    then obtain i where "i < 8" "bit (ds ! i) 7" "\<not> bit (bs ! i) 7" by blast
    then show "\<exists>j < 64. bit (ds ! (j div 8)) (j mod 8) \<and> \<not> bit (bs ! (j div 8)) (j mod 8) \<and> bit (128 :: u8) (j mod 8)"
      by (intro exI [of _ "8 * i + 7"]) auto
  qed
  also have "\<dots> \<longleftrightarrow> (\<exists>b \<in> set bs. unat b < n)" using sub_bytes_less [OF n, of bs] d l by simp
  finally show ?thesis .
qed

subsection \<open>Scans\<close>

lemma scan_Some: "scan P b p = Some q \<longleftrightarrow> p \<le> q \<and> q < length b \<and> \<not> P (b ! q) \<and> (\<forall>i. p \<le> i \<and> i < q \<longrightarrow> P (b ! i))"
proof (induction P b p rule: scan.induct)
  case (1 P b p)
  have s: "p \<le> i \<longleftrightarrow> i = p \<or> p + 1 \<le> i" for i by auto
  show ?case using 1 by (subst scan.simps) (auto simp: s)
qed

lemma scan_step: "p < length b \<Longrightarrow> P (b ! p) \<Longrightarrow> scan P b p = scan P b (p + 1)"
  by (subst scan.simps) simp

lemma scan_stop: "p < length b \<Longrightarrow> \<not> P (b ! p) \<Longrightarrow> scan P b p = Some p"
  by (subst scan.simps) simp

lemma scan_skip: "p + k \<le> length b \<Longrightarrow> \<forall>i. p \<le> i \<and> i < p + k \<longrightarrow> P (b ! i) \<Longrightarrow> scan P b p = scan P b (p + k)"
proof (induction k arbitrary: p)
  case (Suc k)
  then have "scan P b p = scan P b (p + 1)" by (intro scan_step) auto
  also have "\<dots> = scan P b (p + 1 + k)" using Suc.prems by (intro Suc.IH) auto
  finally show ?case by simp
qed simp

lemma scan_mono: "scan P b p = Some q \<Longrightarrow> p \<le> r \<Longrightarrow> r \<le> q \<Longrightarrow> scan P b r = Some q"
  by (auto simp: scan_Some)

text \<open>A word at a time; \<open>n\<close> is the bound.\<close>

lemma bex_nth: "(\<exists>x \<in> set xs. Q x) \<longleftrightarrow> (\<exists>i < length xs. Q (xs ! i))"
  by (metis in_set_conv_nth)

lemma word_has_less:
  assumes "p + 8 \<le> length b" "n \<le> 128"
  shows "hasLess (packed (take 8 (drop p b))) (of_nat n) \<noteq> 0 \<longleftrightarrow> (\<exists>i. p \<le> i \<and> i < p + 8 \<and> unat (b ! i) < n)"
proof -
  have "length (take 8 (drop p b)) = 8" using assms(1) by simp
  from hasLess_exact [OF this assms(2)] have "hasLess (packed (take 8 (drop p b))) (of_nat n) \<noteq> 0
      \<longleftrightarrow> (\<exists>i < length (take 8 (drop p b)). unat (take 8 (drop p b) ! i) < n)" unfolding bex_nth .
  also have "\<dots> \<longleftrightarrow> (\<exists>i < 8. unat (b ! (p + i)) < n)" using assms(1) by auto
  also have "\<dots> \<longleftrightarrow> (\<exists>i. p \<le> i \<and> i < p + 8 \<and> unat (b ! i) < n)"
    by (metis add_less_cancel_left le_add1 le_iff_add)
  finally show ?thesis .
qed

lemma byte_below: "31 < (c :: u8) \<longleftrightarrow> \<not> unat c < 32" "32 < c \<longleftrightarrow> \<not> unat c < 33"
  by (auto simp: word_less_nat_alt)

lemma tryConsumeFieldValue_scans:
  "scan (\<lambda>c. 31 < c) b p = Some q \<Longrightarrow> q + 8 \<le> length b \<Longrightarrow> tryConsumeFieldValue b p = Some q"
proof (induction b p rule: tryConsumeFieldValue.induct)
  case (1 b p)
  have p: "p + 8 \<le> length b" using 1(2,3) scan_Some by fastforce
  then have r: "rd_word b p = Some (packed (take 8 (drop p b)))" by (simp add: rd_word_def)
  note h = word_has_less [OF p, of 32, simplified]
  show ?case
  proof (cases "hasLess (packed (take 8 (drop p b))) 32 = 0")
    case True
    then have "\<forall>i. p \<le> i \<and> i < p + 8 \<longrightarrow> 31 < b ! i" using h by (auto simp: byte_below)
    then have "scan (\<lambda>c. 31 < c) b (p + 8) = Some q" using scan_skip [OF p, of "\<lambda>c. 31 < c"] 1(2) by simp
    with 1(1) [OF r] True 1(3) r show ?thesis by (subst tryConsumeFieldValue.simps) simp
  next
    case False
    then show ?thesis using 1(2) r by (subst tryConsumeFieldValue.simps) simp
  qed
qed

subsection \<open>Names of fields\<close>

definition isname :: "u8 \<Rightarrow> bool" where "isname c = fst (isFieldNameByteFastLowercased c)"

lemma name_byte: "isFieldNameByteFastLowercased c = (isname c, if isname c then lower c else c)"
  by (auto simp: isname_def isFieldNameByteFastLowercased_def lower_def word_le_nat_alt)

lemma sint_byte: "sint (c :: u8) = (if uint c < 128 then uint c else uint c - 256)"
proof -
  have "bit (uint c) 7 \<longleftrightarrow> \<not> uint c < 128" 
  proof -
    have "128 \<le> unat c \<longleftrightarrow> \<not> uint c < 128" using uint_nat [of c] by linarith
    then show ?thesis using bit_7 [of c] by (simp add: bit_uint_iff)
  qed
  then have "sint c = take_bit 8 (uint c) - 256 * of_bool (\<not> uint c < 128)"
    by (simp add: sint_uint signed_take_bit_eq_take_bit_minus)
  moreover have "take_bit 8 (uint c) = uint c" using uint_bounded [of c] by (simp add: take_bit_int_eq_self)
  ultimately show ?thesis by simp
qed

lemma sint_bounds:
  "65 \<le> sint (c :: u8) \<and> sint c \<le> 90 \<longleftrightarrow> 65 \<le> c \<and> c \<le> 90" "97 \<le> sint c \<and> sint c \<le> 122 \<longleftrightarrow> 97 \<le> c \<and> c \<le> 122"
  "32 < sint c \<longleftrightarrow> 32 < c \<and> c < 128" "48 \<le> sint c \<and> sint c \<le> 57 \<longleftrightarrow> 48 \<le> c \<and> c \<le> 57"
  using uint_bounded [of c] by (auto simp: sint_byte word_le_def word_less_def)

lemma upper_name: "65 \<le> c \<and> c \<le> 90 \<Longrightarrow> isname c \<and> lower c = c OR 32"
  "97 \<le> c \<and> c \<le> 122 \<Longrightarrow> isname c \<and> lower c = c" "isname 45" "lower 45 = 45" "\<not> isname 58"
  by (auto simp: isname_def isFieldNameByteFastLowercased_def lower_def isUnlikelyFieldNameByte_def word_le_nat_alt)

lemma name_run_step: "p < length b \<Longrightarrow> isname (b ! p) \<Longrightarrow> name_run b p = name_run (b[p := lower (b ! p)]) (p + 1)"
  by (subst name_run.simps) (simp add: name_byte)

lemma name_run_stop: "p < length b \<Longrightarrow> \<not> isname (b ! p) \<Longrightarrow> name_run b p = Some (p, b)"
  by (subst name_run.simps) (simp add: name_byte)

text \<open>A run over the name, and the name in lower case.\<close>

lemma name_run_scan:
  "name_run b p = map_option (\<lambda>q. (q, take p b @ map lower (piece_of b p q) @ drop q b)) (scan isname b p)"
proof (induction b p rule: name_run.induct)
  case (1 b p)
  show ?case
  proof (cases "p < length b")
    case False
    then show ?thesis by (subst name_run.simps, subst scan.simps) simp
  next
    case p: True
    show ?thesis
    proof (cases "isname (b ! p)")
      case False
      then show ?thesis using p by (simp add: name_run_stop scan_stop piece_of_def)
    next
      case True
      let ?b = "b[p := lower (b ! p)]"
      have n: "isname (b ! i) = isname (?b ! i)" if "p < i" for i using that by simp
      then have s: "scan isname ?b (p + 1) = Some q \<longleftrightarrow> scan isname b (p + 1) = Some q" for q
        unfolding scan_Some by auto
      then have s: "scan isname ?b (p + 1) = scan isname b (p + 1)" by (metis not_None_eq)
      have q: "take (p + 1) ?b @ map lower (piece_of ?b (p + 1) q) @ drop q ?b = take p b @ map lower (piece_of b p q) @ drop q b"
        if "p < q" for q
      proof -
        have "piece_of b p q = b ! p # piece_of b (p + 1) q" "piece_of ?b (p + 1) q = piece_of b (p + 1) q"
          using p that by (simp_all add: piece_of_def Cons_nth_drop_Suc [symmetric] take_Cons' )
        then show ?thesis using p that by (simp add: take_Suc_conv_app_nth)
      qed
      have "p < q" if "scan isname b (p + 1) = Some q" for q using that by (simp add: scan_Some)
      then have e: "map_option (\<lambda>q. (q, take (p + 1) ?b @ map lower (piece_of ?b (p + 1) q) @ drop q ?b)) (scan isname b (p + 1))
          = map_option (\<lambda>q. (q, take p b @ map lower (piece_of b p q) @ drop q b)) (scan isname b (p + 1))"
        using q by (auto intro: option.map_cong)
      show ?thesis unfolding name_run_step [OF p True] scan_step [of p b isname, OF p True]
        using 1 [OF p name_byte [of "b ! p", symmetric]] True s e by simp
    qed
  qed
qed

text \<open>The fast path goes through bytes of the name only.\<close>

lemma lower_run_name:
  "case lower_run b p of
     None \<Rightarrow> name_run b p = None
   | Some (q, b') \<Rightarrow> name_run b' q = name_run b p \<and> p \<le> q \<and> q < length b' \<and> length b' = length b
       \<and> \<not> (65 \<le> b' ! q \<and> b' ! q \<le> 90) \<and> (q = p \<longrightarrow> b' = b)"
proof (induction b p rule: lower_run.induct)
  case (1 b p)
  consider "\<not> p < length b" | "p < length b" "65 \<le> b ! p \<and> b ! p \<le> 90" | "p < length b" "\<not> (65 \<le> b ! p \<and> b ! p \<le> 90)" by blast
  then show ?case
  proof cases
    case 1
    then show ?thesis by (subst lower_run.simps, subst name_run.simps) simp
  next
    case 2
    then have "name_run b p = name_run (b[p := b ! p OR 32]) (p + 1)" using name_run_step [of p b] upper_name(1) [of "b ! p"] by simp
    with 1 2 show ?thesis by (subst lower_run.simps) (auto simp: sint_bounds split: option.splits)
  next
    case 3
    then show ?thesis by (subst lower_run.simps) (auto simp: sint_bounds)
  qed
qed

lemma scan_name:
  assumes "\<And>c. P c \<Longrightarrow> isname c \<and> lower c = c"
  shows "case scan P b p of None \<Rightarrow> name_run b p = None | Some q \<Rightarrow> name_run b q = name_run b p"
  using assms
proof (induction P b p rule: scan.induct)
  case (1 P b p)
  show ?case
  proof (cases "p < length b \<and> P (b ! p)")
    case True
    then have "name_run b p = name_run b (p + 1)" using name_run_step [of p b] 1(2) [of "b ! p"] by simp
    then show ?thesis using 1(1) [OF _ _ 1(2)] True scan_step [of p b P] by (simp split: option.splits)
  next
    case False
    then show ?thesis by (subst scan.simps) (auto simp: name_run.simps [of b p])
  qed
qed

lemma fast_path_name:
  "case fast_path b p of
     None \<Rightarrow> name_run b p = None
   | Some (found, q, b') \<Rightarrow> name_run b' q = name_run b p \<and> (found \<longrightarrow> q < length b' \<and> b' ! q = 58)"
proof (induction "length b - p" arbitrary: b p rule: less_induct)
  case less
  let ?P = "\<lambda>c :: u8. 97 \<le> sint c \<and> sint c \<le> 122"
  note l = lower_run_name [of b p]
  show ?case
  proof (cases "lower_run b p")
    case None
    then show ?thesis using l by (subst fast_path.simps) simp
  next
    case (Some x)
    obtain q b' where x: "x = (q, b')" by fastforce
    have lr: "name_run b' q = name_run b p" "p \<le> q" "q < length b'" "length b' = length b"
      "\<not> (65 \<le> b' ! q \<and> b' ! q \<le> 90)" "q = p \<Longrightarrow> b' = b" using l Some x by simp_all
    have s: "case scan ?P b' q of None \<Rightarrow> name_run b' q = None | Some q' \<Rightarrow> name_run b' q' = name_run b' q"
      by (rule scan_name) (simp add: sint_bounds upper_name(2))
    show ?thesis
    proof (cases "scan ?P b' q")
      case None
      then show ?thesis using s lr(1) Some x by (subst fast_path.simps) simp
    next
      case q': (Some q')
      then have sc: "q \<le> q'" "q' < length b'" "name_run b' q' = name_run b p" 
        using q' s [unfolded q' option.case] lr(1) by (simp_all add: scan_Some)
      have f: "fast_path b p = (if b' ! q' = 58 then Some (True, q', b') else if b' ! q' = 45 then fast_path b' (q' + 1)
          else if \<not> (65 \<le> sint (b' ! q') \<and> sint (b' ! q') \<le> 90) then Some (False, q', b') else fast_path b' q')"
        using Some x q' sc(2) by (subst fast_path.simps) (simp add: rd_def)
      consider "b' ! q' = 58" | "b' ! q' = 45" | "b' ! q' \<noteq> 58" "b' ! q' \<noteq> 45" "\<not> (65 \<le> b' ! q' \<and> b' ! q' \<le> 90)"
        | "b' ! q' \<noteq> 58" "b' ! q' \<noteq> 45" "65 \<le> b' ! q' \<and> b' ! q' \<le> 90" by blast
      then show ?thesis
      proof cases
        case 1
        then show ?thesis using f sc by simp
      next
        case 2
        then have "name_run b' q' = name_run b' (q' + 1)" using name_run_step [OF sc(2)] upper_name(3,4) by (metis list_update_id)
        moreover have "length b' - (q' + 1) < length b - p" using lr sc by simp
        ultimately show ?thesis using less [of b' "q' + 1"] f 2 sc(3) by (auto split: option.splits)
      next
        case 3
        then show ?thesis using f sc by (simp add: sint_bounds)
      next
        case 4
        then have "q' \<noteq> q" using lr(5) by blast
        then have "length b' - q' < length b - p" using lr sc by simp
        then show ?thesis using less [of b' q'] f 4 sc(3) by (auto simp: sint_bounds split: option.splits)
      qed
    qed
  qed
qed

lemma consumeFieldName_run: "consumeFieldName b p = name_run b p"
  using fast_path_name [of b p] upper_name(5) name_run_stop
  by (auto simp: consumeFieldName_def split: option.splits if_splits)

lemmas consumeFieldName_scan = consumeFieldName_run [unfolded name_run_scan]

text \<open>
  C37: The fast scans are plain scans. Looking at eight bytes at a time with \<open>hasLess\<close>, \<open>tryConsumeFieldValue\<close> stops exactly at the first
  byte below 32, wherever it lies in its word, when the buffer is readable for eight bytes from there; \<open>consumeFieldName\<close>, with its
  fast path of alternating runs, stops exactly at the first byte that is no byte of a name, and leaves the name in lower case and every other
  byte as it was.
\<close>

theorem word_scans_agree:
  "scan (\<lambda>c. 31 < c) b p = Some q \<Longrightarrow> q + 8 \<le> length b \<Longrightarrow>
    tryConsumeFieldValue b p = Some q
    \<and> consumeFieldName b p' = map_option (\<lambda>q. (q, take p' b @ map lower (piece_of b p' q) @ drop q b)) (scan isname b p')"
  by (simp add: tryConsumeFieldValue_scans consumeFieldName_scan)

theorem word_scans_agree_witness:
  "tryConsumeFieldValue ([72, 105, 58, 32, 97, 98, 99, 100, 101, 13] @ replicate 8 0) 3 = Some 9
    \<and> consumeFieldName ([72, 105, 58, 32, 97, 98, 99, 100, 101, 13] @ replicate 8 0) 0
      = Some (2, [104, 105, 58, 32, 97, 98, 99, 100, 101, 13] @ replicate 8 0)"
proof -
  let ?b = "[72, 105, 58, 32, 97, 98, 99, 100, 101, 13] @ replicate 8 0 :: u8 list"
  have "scan (\<lambda>c. 31 < c) ?b 3 = Some 9" "scan isname ?b 0 = Some 2" "map lower (piece_of ?b 0 2) = [104, 105]" by code_simp+
  then show ?thesis using word_scans_agree [of ?b 3 9 0] by simp
qed

end
