(* ===== verification/Uws_Http_Head.thy ===== *)
theory Uws_Http_Head imports
  Uws_Http_Scan
begin

section \<open>The head of a request\<close>

text \<open>
  For any bytes: the fence stops every scan, so reading stays within the padding, and what is handed on is clean. For the head of a
  request as the standard writes it: exactly that head is consumed, and a part of it is not.
\<close>

subsection \<open>Scans before the fence\<close>

definition fenced :: "u8 list \<Rightarrow> nat \<Rightarrow> bool" where
  "fenced b stop \<longleftrightarrow> stop + 32 \<le> length b \<and> b ! stop = 13 \<and> b ! (stop + 1) = 97"

definition kept :: "u8 list \<Rightarrow> u8 list \<Rightarrow> nat \<Rightarrow> nat \<Rightarrow> bool" where
  "kept b b' p stop \<longleftrightarrow> length b' = length b \<and> (\<forall>i. i < p \<or> stop \<le> i \<longrightarrow> b' ! i = b ! i)"

lemma kept_refl [simp]: "kept b b p stop"
  by (simp add: kept_def)

lemma kept_trans: "kept b b' p stop \<Longrightarrow> kept b' b'' q stop \<Longrightarrow> p \<le> q \<Longrightarrow> kept b b'' p stop"
  by (auto simp: kept_def)

lemma kept_fenced: "kept b b' p stop \<Longrightarrow> fenced b stop \<Longrightarrow> fenced b' stop"
  by (auto simp: kept_def fenced_def)

lemma fenced_scan:
  assumes "fenced b stop" "p \<le> stop" "\<not> P 13"
  shows "\<exists>q. scan P b p = Some q \<and> p \<le> q \<and> q \<le> stop"
proof -
  let ?q = "LEAST q. p \<le> q \<and> \<not> P (b ! q)"
  have e: "p \<le> stop \<and> \<not> P (b ! stop)" using assms by (simp add: fenced_def)
  then have q: "p \<le> ?q \<and> \<not> P (b ! ?q)" by (rule LeastI)
  have l: "?q \<le> stop" by (rule Least_le) (rule e)
  have "P (b ! i)" if "p \<le> i" "i < ?q" for i using not_less_Least [OF that(2)] that(1) by blast
  then have "scan P b p = Some ?q" using q l assms(1) by (auto simp: scan_Some fenced_def)
  with q l show ?thesis by blast
qed

lemma field_value_scans:
  "scan (\<lambda>c. 31 < c \<or> c = 9) b p = Some q \<Longrightarrow> q + 8 \<le> length b \<Longrightarrow> field_value b p = Some q"
proof (induction b p rule: field_value.induct)
  case (1 b p)
  have "\<exists>r. scan (\<lambda>c. 31 < c) b p = Some r \<and> r \<le> q"
  proof -
    let ?r = "LEAST r. p \<le> r \<and> \<not> 31 < b ! r"
    have e: "p \<le> q \<and> \<not> 31 < b ! q" using 1(2) by (simp add: scan_Some)
    then have r: "p \<le> ?r \<and> \<not> 31 < b ! ?r" by (rule LeastI)
    have l: "?r \<le> q" by (rule Least_le) (rule e)
    have "31 < b ! i" if "p \<le> i" "i < ?r" for i using not_less_Least [OF that(2)] that(1) by blast
    then have "scan (\<lambda>c. 31 < c) b p = Some ?r" using r l 1(3) by (auto simp: scan_Some)
    with l show ?thesis by blast
  qed
  then obtain r where r: "scan (\<lambda>c. 31 < c) b p = Some r" "r \<le> q" by blast
  have t: "tryConsumeFieldValue b p = Some r" using r 1(3) by (intro tryConsumeFieldValue_scans) simp_all
  have pr: "p \<le> r" using r(1) by (simp add: scan_Some)
  show ?case
  proof (cases "b ! r = 9")
    case True
    then have "r \<noteq> q" using 1(2) by (auto simp: scan_Some)
    then have "scan (\<lambda>c. 31 < c \<or> c = 9) b (r + 1) = Some q" using r(2) pr by (intro scan_mono [OF 1(2)]) simp_all
    with 1(1) [OF t] True 1(3) t show ?thesis by (subst field_value.simps) simp
  next
    case False
    then have "scan (\<lambda>c. 31 < c \<or> c = 9) b p = Some r" using r(1) by (auto simp: scan_Some)
    then show ?thesis using 1(2) False t by (subst field_value.simps) simp
  qed
qed

lemma fenced_value:
  assumes "fenced b stop" "p \<le> stop"
  obtains q where "field_value b p = Some q" "p \<le> q" "q \<le> stop" "\<forall>i. p \<le> i \<and> i < q \<longrightarrow> 31 < b ! i \<or> b ! i = 9"
    "b ! q \<noteq> 9" "\<not> 31 < b ! q"
proof -
  from fenced_scan [OF assms, of "\<lambda>c. 31 < c \<or> c = 9"] obtain q where
    q: "scan (\<lambda>c. 31 < c \<or> c = 9) b p = Some q" "p \<le> q" "q \<le> stop" by auto
  then have "field_value b p = Some q" using assms(1) by (intro field_value_scans) (simp_all add: fenced_def)
  with q that show ?thesis by (auto simp: scan_Some)
qed

lemma fenced_name:
  assumes "fenced b stop" "p \<le> stop"
  obtains q b' where "consumeFieldName b p = Some (q, b')" "p \<le> q" "q \<le> stop" "kept b b' p q"
    "piece_of b' p q = map lower (piece_of b p q)" "\<forall>c \<in> set (piece_of b p q). isname c"
proof -
  have "\<not> isname 13" by (simp add: isname_def isFieldNameByteFastLowercased_def isUnlikelyFieldNameByte_def)
  from fenced_scan [of b stop p isname, OF assms this] obtain q where q: "scan isname b p = Some q" "p \<le> q" "q \<le> stop" by blast
  let ?b = "take p b @ map lower (piece_of b p q) @ drop q b"
  have l: "p \<le> length b" "q \<le> length b" using assms q by (auto simp: fenced_def)
  have c: "consumeFieldName b p = Some (q, ?b)" using q(1) by (simp add: consumeFieldName_scan)
  moreover have "kept b ?b p q" using l q(2) by (auto simp: kept_def piece_of_def nth_append)
  moreover have "piece_of ?b p q = map lower (piece_of b p q)" using l q(2) by (simp add: piece_of_def)
  moreover have "\<forall>c \<in> set (piece_of b p q). isname c" using q(1) l by (auto simp: scan_Some piece_of_def in_set_conv_nth)
  ultimately show ?thesis using q that by blast
qed

subsection \<open>The fields, whatever they are\<close>

text \<open>What the handlers get to see: names of lower case letters and the other bytes of names, values without control characters.\<close>

definition clean :: "header \<Rightarrow> bool" where
  "clean h \<longleftrightarrow> (\<forall>c \<in> set (fst h). isname c \<and> lower c = c) \<and> (\<forall>c \<in> set (snd h). 31 < c \<or> c = 9)"

lemma capital_letters:
  "list_all (\<lambda>n. isname (lower (of_nat n)) \<and> lower (lower (of_nat n)) = lower (of_nat n)) [65..<91]"
  by code_simp

lemma lower_name: "isname c \<Longrightarrow> isname (lower c) \<and> lower (lower c) = lower c"
proof (cases "65 \<le> c \<and> c \<le> 90")
  case True
  then have "unat c \<in> set [65..<91]" unfolding set_upt by (simp add: word_le_nat_alt)
  from bspec [OF capital_letters [unfolded list_all_iff] this] show ?thesis by simp
next
  case False
  then have "lower c = c" by (auto simp: lower_def)
  moreover assume "isname c"
  ultimately show ?thesis by simp
qed

lemma trim_subset: "set (trim_value v) \<subseteq> set v"
  unfolding trim_value_def by (auto dest!: set_dropWhileD)

lemma name_clean: "\<forall>c \<in> set xs. isname c \<Longrightarrow> \<forall>c \<in> set (map lower xs). isname c \<and> lower c = c"
  using lower_name by auto

lemma piece_set: "q \<le> length b \<Longrightarrow> \<forall>i. p \<le> i \<and> i < q \<longrightarrow> Q (b ! i) \<Longrightarrow> \<forall>c \<in> set (piece_of b p q). Q c"
  by (auto simp: piece_of_def in_set_conv_nth)

text \<open>\<open>within start stop r\<close>: the result \<open>r\<close> takes at most what there is.\<close>

definition within :: "nat \<Rightarrow> nat \<Rightarrow> HttpParserResult \<Rightarrow> bool" where
  "within start stop r \<longleftrightarrow> (\<forall>n same. r = Success n same \<longrightarrow> start + n \<le> stop)"

lemma within_simps [simp]:
  "within start stop TOO_LARGE" "within start stop (BAD k)" "start \<le> stop \<Longrightarrow> within start stop shortRead"
  "within start stop (Success n same) \<longleftrightarrow> start + n \<le> stop" "within start stop (Failed e k)"
  by (simp_all add: within_def TOO_LARGE_def BAD_def shortRead_def)

definition safe_fields :: "nat \<Rightarrow> nat \<Rightarrow> u8 list \<Rightarrow> nat \<Rightarrow> header list \<Rightarrow> (HttpParserResult \<times> header list \<times> u8 list) option \<Rightarrow> bool" where
  "safe_fields start stop b p hs x \<longleftrightarrow>
    (\<exists>r more b'. x = Some (r, hs @ more, b') \<and> kept b b' p stop \<and> within start stop r \<and> (\<forall>h \<in> set more. clean h))"

lemma safe_stop: "kept b b' p stop \<Longrightarrow> within start stop r \<Longrightarrow> safe_fields start stop b p hs (Some (r, hs, b'))"
  unfolding safe_fields_def by (intro exI [of _ r] exI [of _ "[]"] exI [of _ b']) simp

lemma safe_one:
  "kept b b' p stop \<Longrightarrow> within start stop r \<Longrightarrow> clean h \<Longrightarrow> safe_fields start stop b p hs (Some (r, hs @ [h], b'))"
  unfolding safe_fields_def by (intro exI [of _ r] exI [of _ "[h]"] exI [of _ b']) simp

lemma safe_more:
  assumes "safe_fields start stop b' q (hs @ [h]) x" "kept b b' p stop" "p \<le> q" "clean h"
  shows "safe_fields start stop b p hs x"
proof -
  obtain r more b'' where "x = Some (r, (hs @ [h]) @ more, b'')" "kept b' b'' q stop" "within start stop r" "\<forall>h \<in> set more. clean h"
    using assms(1) by (auto simp: safe_fields_def)
  then show ?thesis using assms(4) kept_trans [OF assms(2) _ assms(3)]
    unfolding safe_fields_def by (intro exI [of _ r] exI [of _ "h # more"] exI [of _ b'']) auto
qed

lemma fields_safe:
  assumes "fenced b stop" "start \<le> p" "p \<le> stop"
  shows "safe_fields start stop b p hs (header_loop cfg start stop n p b hs)"
  using assms
proof (induction n arbitrary: p b hs)
  case 0
  then show ?case by (simp add: safe_stop)
next
  case (Suc n)
  obtain q b1 where q: "consumeFieldName b p = Some (q, b1)" "p \<le> q" "q \<le> stop" "kept b b1 p q"
    "piece_of b1 p q = map lower (piece_of b p q)" "\<forall>c \<in> set (piece_of b p q). isname c"
    using fenced_name [OF Suc.prems(1,3)] by metis
  have k1: "kept b b1 p stop" using q(3,4) by (auto simp: kept_def)
  then have f1: "fenced b1 stop" using kept_fenced Suc.prems(1) by blast
  have l1: "stop + 32 \<le> length b1" using f1 by (simp add: fenced_def)
  then have rq: "rd b1 q = Some (b1 ! q)" using q(3) by (simp add: rd_def)
  have ss: "start \<le> stop" using Suc.prems(2,3) by simp
  show ?case
  proof (cases "too_large cfg (q - start) \<or> b1 ! q \<noteq> 58")
    case True
    then show ?thesis using safe_stop [OF k1] q(1) rq ss by auto
  next
    case False
    then have "q \<noteq> stop" using f1 by (auto simp: fenced_def)
    then have "q + 1 \<le> stop" using q(3) by simp
    from fenced_value [OF f1 this] obtain r where r: "field_value b1 (q + 1) = Some r" "q + 1 \<le> r" "r \<le> stop"
      "\<forall>i. q + 1 \<le> i \<and> i < r \<longrightarrow> 31 < b1 ! i \<or> b1 ! i = 9" by metis
    have rr: "rd b1 r = Some (b1 ! r)" "rd b1 (r + 1) = Some (b1 ! (r + 1))" using r(3) l1 by (simp_all add: rd_def)
    let ?h = "(piece_of b1 p q, trim_value (piece_of b1 (q + 1) r))"
    have c: "clean ?h"
    proof -
      have "\<forall>c \<in> set (piece_of b1 p q). isname c \<and> lower c = c" unfolding q(5) by (rule name_clean [OF q(6)])
      moreover have "\<forall>c \<in> set (piece_of b1 (q + 1) r). 31 < c \<or> c = 9" using r(3,4) l1 by (intro piece_set) simp_all
      ultimately show ?thesis using trim_subset unfolding clean_def by (metis fst_conv snd_conv subsetD)
    qed
    let ?x = "header_loop cfg start stop (Suc n) p b hs"
    consider "b1 ! r \<noteq> 13 \<or> too_large cfg (r - start) \<or> stop < r + 2 \<or> b1 ! (r + 1) \<noteq> 10"
      | "b1 ! r = 13" "\<not> too_large cfg (r - start)" "r + 2 \<le> stop" "b1 ! (r + 1) = 10" by force
    then show ?thesis
    proof cases
      case 1
      then show ?thesis using safe_stop [OF k1] False q(1) rq r(1) rr ss by auto
    next
      case 2
      then have r2: "rd b1 (r + 2) = Some (b1 ! (r + 2))" "rd b1 (r + 2 + 1) = Some (b1 ! (r + 3))"
        using l1 by (simp_all add: rd_def numeral_3_eq_3)
      have x: "?x = (let hs = hs @ [?h] in
          if too_large cfg (r + 2 - start) then Some (TOO_LARGE, hs, b1)
          else if b1 ! (r + 2) = 13
          then if b1 ! (r + 3) = 10 then Some (Success (r + 2 + 2 - start) False, hs, b1)
            else if r + 2 + 1 < stop then Some (BAD HTTP_PARSER_ERROR_INVALID_REQUEST, hs, b1)
            else Some (shortRead, hs, b1)
          else header_loop cfg start stop n (r + 2) b1 hs)"
        using 2 False q(1) rq r(1) rr r2 by (simp add: Let_def)
      have s: "safe_fields start stop b p hs (header_loop cfg start stop n (r + 2) b1 (hs @ [?h]))"
        by (rule safe_more [OF Suc.IH [OF f1] k1 _ c]) (use q(2) r(2) 2(3) Suc.prems(2) in simp_all)
      have w: "within start stop (Success (r + 2 + 2 - start) False)" if "b1 ! (r + 3) = 10"
      proof -
        have "b1 ! stop = 13" "b1 ! (stop + 1) = 97" using f1 by (simp_all add: fenced_def)
        then have "r + 3 \<noteq> stop" "r + 3 \<noteq> stop + 1" using that by force+
        then show ?thesis using 2(3) ss by simp
      qed
      show ?thesis unfolding x using safe_one [OF k1 _ c] s w ss by (simp add: Let_def)
    qed
  qed
qed

subsection \<open>The request line, whatever it is\<close>

lemma fenced_method:
  assumes "fenced b stop" "p \<le> stop"
  shows "method_run b p = Some None \<or> (\<exists>d. method_run b p = Some (Some d) \<and> p \<le> d \<and> d \<le> stop)"
  using assms
proof (induction b p rule: method_run.induct)
  case (1 b p)
  have l: "p < length b" using 1(2,3) by (simp add: fenced_def)
  show ?case
  proof (cases "32 < sint (b ! p) \<and> isValidMethodChar (b ! p)")
    case True
    then have "p \<noteq> stop" using 1(2) by (auto simp: fenced_def sint_bounds)
    then have "p + 1 \<le> stop" using 1(3) by simp
    from 1(1) [OF l _ _ 1(2) this] True l show ?thesis by (subst (1 2) method_run.simps) auto
  next
    case False
    then show ?thesis using l 1(3) by (subst (1 2) method_run.simps) auto
  qed
qed

definition line_within :: "nat \<Rightarrow> nat \<Rightarrow> ConsumeRequestLineResult \<Rightarrow> bool" where
  "line_within start stop r \<longleftrightarrow> (\<forall>p. position r = Some p \<longrightarrow> start \<le> p \<and> p \<le> stop)"

lemma line_within_simps [simp]:
  "line_within start stop (line_error e)" "line_within start stop (line_short a c)"
  "line_within start stop (line_success p a c) \<longleftrightarrow> start \<le> p \<and> p \<le> stop"
  by (simp_all add: line_within_def line_error_def line_short_def line_success_def)

lemma fenced_version:
  assumes "fenced b stop" "start \<le> q" "q \<le> stop"
  shows "\<exists>r. consumeVersion b q stop con = Some r \<and> line_within start stop r"
proof -
  let ?w = "of_int (int stop - int q) :: u32"
  have "unat (min 11 ?w) \<le> 11" by (simp add: min_def word_le_nat_alt)
  then have "q + unat (min 11 ?w) \<le> length b" "q + 11 \<le> length b" using assms by (simp_all add: fenced_def)
  then show ?thesis using assms(2) by (simp add: consumeVersion_def same_bytes_def Let_def)
qed

lemma fenced_target:
  assumes "fenced b stop" "start \<le> data" "data \<le> stop"
  shows "\<exists>r target. consumeTarget cfg b from data stop con = Some (r, target) \<and> line_within start stop r"
  using assms
proof (induction cfg b "from" data stop con rule: consumeTarget.induct)
  case (1 cfg b beg data stop con)
  have l: "data + 8 \<le> length b" using 1(2,4) by (simp add: fenced_def)
  then have rd: "rd_word b data = Some (packed (take 8 (drop data b)))" by (simp add: rd_word_def)
  note h = word_has_less [OF l, of 33, simplified]
  consider "too_large cfg (data - beg)" | "\<not> too_large cfg (data - beg)" "hasLess (packed (take 8 (drop data b))) 33 \<noteq> 0"
    | "\<not> too_large cfg (data - beg)" "hasLess (packed (take 8 (drop data b))) 33 = 0" by blast
  then show ?case
  proof cases
    case 1
    then show ?thesis using rd by (subst consumeTarget.simps) simp
  next
    case 2
    obtain q where q: "scan (\<lambda>c. 32 < c) b data = Some q" "data \<le> q" "q \<le> stop"
      using fenced_scan [OF 1(2,4), of "\<lambda>c. 32 < c"] by auto
    obtain r where "consumeVersion b q stop con = Some r" "line_within start stop r"
      using fenced_version [OF 1(2) order_trans [OF 1(3) q(2)] q(3), of con] by blast
    then show ?thesis using 2 rd q(1) by (subst consumeTarget.simps) simp
  next
    case 3
    have "unat (b ! stop) < 33" using 1(2) by (simp add: fenced_def)
    then have "stop < data \<or> data + 8 \<le> stop" using h 3(2) not_less by blast
    then have "data + 8 \<le> stop" using 1(4) by simp
    then show ?thesis using 1(1) [OF rd 3(1) _ 1(2)] 1(3) 3 rd by (subst consumeTarget.simps) simp
  qed
qed

text \<open>The only way past the fence is a segment that ends just after \<open>CONNECT\<close>.\<close>

definition cut_connect :: "u8 list \<Rightarrow> nat \<Rightarrow> nat \<Rightarrow> bool" where
  "cut_connect b start stop \<longleftrightarrow> piece_of b start stop = CONNECT"

lemma fenced_line:
  assumes "fenced b stop" "start \<le> stop" "\<not> cut_connect b start stop"
  shows "\<exists>line key target. consumeRequestLine cfg b start stop = Some (line, key, target) \<and> line_within start stop line"
proof -
  consider "method_run b start = Some None" | d where "method_run b start = Some (Some d)" "start \<le> d" "d \<le> stop"
    using fenced_method [OF assms(1,2)] by blast
  then show ?thesis
  proof cases
    case 1
    then show ?thesis by (simp add: consumeRequestLine_def)
  next
    case (2 d)
    have rd: "rd b d = Some (b ! d)" "rd b (d + 1) = Some (b ! (d + 1))" using 2 assms(1) by (simp_all add: rd_def fenced_def)
    let ?con = "d - start = 7 \<and> piece_of b start d = CONNECT"
    have t: "\<exists>r target. consumeTarget cfg b (d + 1) (d + 1) stop con = Some (r, target) \<and> line_within start stop r"
      if "b ! (d + 1) = 47 \<or> ?con \<or> b ! d = 32" for con
    proof -
      have "d \<noteq> stop" using that assms(1,3) by (auto simp: fenced_def cut_connect_def)
      then show ?thesis using 2 by (intro fenced_target [OF assms(1)]) simp_all
    qed
    let ?c = "b ! (d + 1) \<noteq> 47 \<and> ?con"
    show ?thesis
    proof (cases "d - start < 2 \<or> \<not> (b ! (d + 1) = 47 \<or> ?con \<or> b ! d = 32)")
      case True
      then show ?thesis using 2(1) rd by (auto simp: consumeRequestLine_def Let_def)
    next
      case False
      then obtain r target where "consumeTarget cfg b (d + 1) (d + 1) stop ?c = Some (r, target)" "line_within start stop r"
        using t [of ?c] by blast
      then show ?thesis using 2(1) rd False
        by (auto simp: consumeRequestLine_def Let_def split: option.split)
    qed
  qed
qed

lemma head_safe:
  assumes "fenced b stop" "start \<le> stop" "\<not> cut_connect b start stop"
  shows "\<exists>r hs b' ancient' con'. getHeaders cfg b start stop ancient con = Some (r, hs, b', ancient', con')
    \<and> kept b b' start stop \<and> within start stop r \<and> (\<forall>h \<in> set (tl hs). clean h)"
proof -
  obtain line key target where l: "consumeRequestLine cfg b start stop = Some (line, key, target)" "line_within start stop line"
    using fenced_line [OF assms] by blast
  show ?thesis
  proof (cases "position line")
    case None
    have "within start stop (line_failure e)" for e
      using assms(2) by (cases e) (simp_all add: line_failure_def)
    then show ?thesis using l None by (simp add: getHeaders_def)
  next
    case (Some p)
    then have p: "start \<le> p" "p \<le> stop" using l(2) by (simp_all add: line_within_def)
    then have rd: "rd b p = Some (b ! p)" "rd b (p + 1) = Some (b ! (p + 1))" using assms(1) by (simp_all add: rd_def fenced_def)
    have f: "safe_fields start stop b p [(key, target)] (header_loop cfg start stop n p b [(key, target)])" for n
      by (rule fields_safe [OF assms(1) p])
    then obtain r more b' where x: "header_loop cfg start stop (UWS_HTTP_MAX_HEADERS_COUNT - 2) p b [(key, target)] = Some (r, (key, target) # more, b')"
      "kept b b' p stop" "within start stop r" "\<forall>h \<in> set more. clean h"
      using safe_fields_def by (metis append_Cons append_Nil)
    have "kept b b' start stop" using x(2) p(1) by (auto simp: kept_def)
    then show ?thesis using l(1) Some rd x(1,3,4) p assms(2) by (auto simp: getHeaders_def Let_def)
  qed
qed

subsection \<open>Well-formed heads\<close>

definition good_field :: "header \<Rightarrow> bool" where
  "good_field f \<longleftrightarrow> (\<forall>c \<in> set (fst f). isname c) \<and> (\<forall>c \<in> set (snd f). 31 < c \<or> c = 9)"

definition field :: "header \<Rightarrow> u8 list" where
  "field f = fst f @ 58 # snd f @ [13, 10]"

definition low :: "header \<Rightarrow> header" where "low f = (map lower (fst f), snd f)"

definition read_field :: "header \<Rightarrow> header" where "read_field f = (map lower (fst f), trim_value (snd f))"

lemma field_length [simp]: "length (field f) = length (fst f) + length (snd f) + 3"
  by (simp add: field_def)

lemma scan_append: "\<forall>c \<in> set xs. P c \<Longrightarrow> \<not> P c' \<Longrightarrow> scan P (pre @ xs @ c' # post) (length pre) = Some (length pre + length xs)"
  by (auto simp: scan_Some nth_append)

lemma nonname [simp]: "\<not> isname 58" "\<not> isname 13"
  by (simp_all add: isname_def isFieldNameByteFastLowercased_def isUnlikelyFieldNameByte_def)

lemma name_append:
  assumes "\<forall>c \<in> set xs. isname c" "\<not> isname c'"
  shows "consumeFieldName (pre @ xs @ c' # post) (length pre) = Some (length pre + length xs, pre @ map lower xs @ c' # post)"
  using scan_append [of xs isname c' pre post] assms by (simp add: consumeFieldName_scan piece_of_def)

lemma value_append:
  assumes "\<forall>c \<in> set xs. 31 < c \<or> c = 9" "7 \<le> length post"
  shows "field_value (pre @ xs @ 13 # post) (length pre) = Some (length pre + length xs)"
  using scan_append [of xs "\<lambda>c. 31 < c \<or> c = 9" 13 pre post] assms by (intro field_value_scans) simp_all

text \<open>One field, up to the end of its value; \<open>rest\<close> is what the end of the line is looked for in.\<close>

lemma header_value:
  fixes pre rest :: "u8 list" and f :: header
  assumes "good_field f" "7 \<le> length rest"
  defines "b \<equiv> pre @ fst f @ 58 # snd f @ 13 # rest" and "p \<equiv> length pre"
  defines "r \<equiv> p + length (fst f) + 1 + length (snd f)"
  defines "b' \<equiv> pre @ map lower (fst f) @ 58 # snd f @ 13 # rest"
  assumes "\<not> too_large cfg (r - start)"
  shows "header_loop cfg start stop (Suc n) p b hs =
    (if stop < r + 2 then Some (shortRead, hs, b')
     else if rest ! 0 = 10
     then
       let hs = hs @ [read_field f]; p = r + 2 in
       if too_large cfg (p - start) then Some (TOO_LARGE, hs, b')
       else do {
         c \<leftarrow> rd b' p;
         if c = 13
         then do {
           c1 \<leftarrow> rd b' (p + 1);
           if c1 = 10 then Some (Success (p + 2 - start) False, hs, b')
           else if p + 1 < stop then Some (BAD HTTP_PARSER_ERROR_INVALID_REQUEST, hs, b')
           else Some (shortRead, hs, b') }
         else header_loop cfg start stop n p b' hs }
     else Some (BAD HTTP_PARSER_ERROR_INVALID_REQUEST, hs, b'))"
proof -
  have g: "\<forall>c \<in> set (fst f). isname c" "\<forall>c \<in> set (snd f). 31 < c \<or> c = 9" using assms(1) by (simp_all add: good_field_def)
  have n: "consumeFieldName b p = Some (p + length (fst f), b')"
    unfolding b_def b'_def p_def by (rule name_append [OF g(1)]) simp
  have c: "rd b' (p + length (fst f)) = Some 58" by (simp add: rd_def b'_def p_def nth_append)
  have "field_value ((pre @ map lower (fst f) @ [58]) @ snd f @ 13 # rest) (length (pre @ map lower (fst f) @ [58])) =
      Some (length (pre @ map lower (fst f) @ [58]) + length (snd f))" by (rule value_append [OF g(2) assms(2)])
  then have v: "field_value b' (p + length (fst f) + 1) = Some r" by (simp add: b'_def p_def r_def)
  have rr: "rd b' r = Some 13" "rd b' (r + 1) = Some (rest ! 0)"
    using assms(2) by (cases rest; simp add: rd_def b'_def r_def p_def nth_append)+
  have pieces: "piece_of b' p (p + length (fst f)) = map lower (fst f)" "piece_of b' (p + length (fst f) + 1) r = snd f"
    by (simp_all add: piece_of_def b'_def p_def r_def)
  have "\<not> too_large cfg (p + length (fst f) - start)" using assms(7) by (auto simp: too_large_def r_def)
  then show ?thesis using n c v rr pieces assms(7) by (simp add: read_field_def Let_def)
qed

definition field_lines :: "header list \<Rightarrow> u8 list" where
  "field_lines fs = concat (map field fs)"

lemma field_lines_simps [simp]: "field_lines [] = []" "field_lines (f # fs) = field f @ field_lines fs"
  by (simp_all add: field_lines_def)

lemma low_simps [simp]: "length (fst (low f)) = length (fst f)" "snd (low f) = snd f" "length (field (low f)) = length (field f)"
  "length (field_lines (map low fs)) = length (field_lines fs)"
  by (induction fs) (simp_all add: low_def)

lemma low_good: "good_field f \<Longrightarrow> good_field (low f)"
  using lower_name by (auto simp: good_field_def low_def)

lemma low_low: "good_field f \<Longrightarrow> low (low f) = low f"
  using lower_name by (auto simp: good_field_def low_def)

lemma field_append: "pre @ field f @ rest = pre @ fst f @ 58 # snd f @ 13 # 10 # rest"
  by (simp add: field_def)

lemma good_first: "good_field f \<Longrightarrow> field f @ rest = c # cs \<Longrightarrow> c \<noteq> 13"
  using nonname(2) by (cases "fst f") (auto simp: good_field_def field_def)

definition size_ok :: "http_config \<Rightarrow> nat \<Rightarrow> bool" where
  "size_ok cfg n \<longleftrightarrow> maxHeaderSize cfg = 0 \<or> n \<le> maxHeaderSize cfg"

lemma size_ok_large: "size_ok cfg n \<Longrightarrow> m \<le> n \<Longrightarrow> \<not> too_large cfg m"
  by (auto simp: size_ok_def too_large_def)

lemma fields_done:
  assumes "\<forall>f \<in> set fs. good_field f" "fs \<noteq> []" "length fs \<le> n" "8 \<le> length post"
    and "length pre + length (field_lines fs) + 2 \<le> stop" "size_ok cfg (length pre + length (field_lines fs) + 2 - start)"
  shows "header_loop cfg start stop n (length pre) (pre @ field_lines fs @ 13 # 10 # post) hs =
    Some (Success (length pre + length (field_lines fs) + 2 - start) False, hs @ map read_field fs,
      pre @ field_lines (map low fs) @ 13 # 10 # post)"
  using assms
proof (induction fs arbitrary: pre n hs)
  case Nil
  then show ?case by simp
next
  case (Cons f fs)
  obtain k where n: "n = Suc k" using Cons.prems(3) by (cases n) auto
  let ?rest = "10 # field_lines fs @ 13 # 10 # post"
  let ?r = "length pre + length (fst f) + 1 + length (snd f)"
  let ?pre = "pre @ field (low f)"
  have f: "good_field f" using Cons.prems(1) by simp
  have lp: "length ?pre = ?r + 2" by simp
  have b: "pre @ field_lines (f # fs) @ 13 # 10 # post = pre @ fst f @ 58 # snd f @ 13 # ?rest" by (simp add: field_def)
  have b': "pre @ map lower (fst f) @ 58 # snd f @ 13 # ?rest = ?pre @ field_lines fs @ 13 # 10 # post" by (simp add: field_def low_def)
  have big: "\<not> too_large cfg (?r - start)" "\<not> too_large cfg (?r + 2 - start)"
    by (rule size_ok_large [OF Cons.prems(6)]; simp)+
  have st: "\<not> stop < ?r + 2" using Cons.prems(5) by simp
  have "7 \<le> length ?rest" using Cons.prems(4) by simp
  note h = header_value [OF f this big(1), where stop = stop and n = k and hs = hs, folded b, unfolded b']
  show ?case
  proof (cases fs)
    case Nil
    have "rd (?pre @ field_lines fs @ 13 # 10 # post) (?r + 2) = Some 13" "rd (?pre @ field_lines fs @ 13 # 10 # post) (?r + 2 + 1) = Some 10"
      unfolding lp [symmetric] by (simp_all add: rd_def Nil nth_append)
    then show ?thesis unfolding n h using st big(2) by (simp add: Nil Let_def numeral_2_eq_2)
  next
    case (Cons g gs)
    have "field g @ field_lines gs @ 13 # 10 # post \<noteq> []" by (simp add: field_def)
    then obtain c cs where c: "field g @ field_lines gs @ 13 # 10 # post = c # cs" by (meson neq_Nil_conv)
    then have "c \<noteq> 13" using good_first [of g] Cons.prems(1) Cons by fastforce
    moreover have "rd (?pre @ field_lines fs @ 13 # 10 # post) (?r + 2) = Some c"
      unfolding lp [symmetric] using c by (simp add: rd_def Cons nth_append)
    ultimately have "header_loop cfg start stop n (length pre) (pre @ field_lines (f # fs) @ 13 # 10 # post) hs =
        header_loop cfg start stop k (length ?pre) (?pre @ field_lines fs @ 13 # 10 # post) (hs @ [read_field f])"
      unfolding n h lp using st big(2) by (simp add: Let_def)
    also have "\<dots> = Some (Success (length ?pre + length (field_lines fs) + 2 - start) False, (hs @ [read_field f]) @ map read_field fs,
        ?pre @ field_lines (map low fs) @ 13 # 10 # post)"
      using Cons.prems n Cons by (intro Cons.IH) simp_all
    finally show ?thesis by (simp add: add.commute add.left_commute)
  qed
qed

text \<open>
  Fields cut short at \<open>k\<close> bytes are asked for again; names, or the part of one that was there, are in lower case then.
\<close>

definition cut_at :: "http_config \<Rightarrow> nat \<Rightarrow> nat \<Rightarrow> nat \<Rightarrow> u8 list \<Rightarrow> u8 list \<Rightarrow> header list \<Rightarrow> nat \<Rightarrow> header list \<Rightarrow> bool" where
  "cut_at cfg start stop n pre post fs k hs \<longleftrightarrow>
    (\<exists>hs' fs'. header_loop cfg start stop n (length pre) (pre @ take k (field_lines fs @ [13, 10]) @ 13 # 97 # post) hs =
        Some (shortRead, hs', pre @ take k (field_lines fs' @ [13, 10]) @ 13 # 97 # post)
      \<and> (\<forall>f \<in> set fs'. good_field f) \<and> map low fs' = map low fs)"

lemma cut_atI:
  assumes "header_loop cfg start stop n (length pre) (pre @ take k (field_lines fs @ [13, 10]) @ 13 # 97 # post) hs =
      Some (shortRead, hs', pre @ take k (field_lines fs' @ [13, 10]) @ 13 # 97 # post)"
    "\<forall>f \<in> set fs'. good_field f" "map low fs' = map low fs"
  shows "cut_at cfg start stop n pre post fs k hs"
  using assms unfolding cut_at_def by blast

lemma cut_in_name:
  assumes "good_field f" "\<forall>g \<in> set fs. good_field g" "k \<le> length (fst f)" "length pre + k = stop"
    "size_ok cfg (stop - start)" "post \<noteq> []"
  shows "cut_at cfg start stop (Suc n) pre post (f # fs) k hs"
proof (rule cut_atI)
  let ?f = "(map lower (take k (fst f)) @ drop k (fst f), snd f)"
  have g: "\<forall>c \<in> set (take k (fst f)). isname c" "\<forall>c \<in> set (fst f). isname c"
    using assms(1) by (auto simp: good_field_def dest: in_set_takeD)
  have b: "take k (field_lines (f # fs) @ [13, 10]) = take k (fst f)" using assms(3) by (simp add: field_def)
  have b': "take k (field_lines (?f # fs) @ [13, 10]) = map lower (take k (fst f))" using assms(3) by (simp add: field_def)
  let ?b = "pre @ map lower (take k (fst f)) @ 13 # 97 # post"
  have c: "consumeFieldName (pre @ take k (fst f) @ 13 # 97 # post) (length pre) = Some (stop, ?b)"
    using name_append [OF g(1), of 13 pre "97 # post"] assms(3,4) by simp
  have r: "rd ?b stop = Some 13" using assms(3,4) by (auto simp: rd_def nth_append)
  have "\<not> too_large cfg (stop - start)" by (rule size_ok_large [OF assms(5)]) simp
  then show "header_loop cfg start stop (Suc n) (length pre) (pre @ take k (field_lines (f # fs) @ [13, 10]) @ 13 # 97 # post) hs =
      Some (shortRead, hs, pre @ take k (field_lines (?f # fs) @ [13, 10]) @ 13 # 97 # post)"
    unfolding b b' using c r by simp
  have "good_field ?f" using assms(1) g lower_name by (auto simp: good_field_def dest: in_set_dropD in_set_takeD)
  then show "\<forall>f \<in> set (?f # fs). good_field f" using assms(2) by simp
  have "map lower (map lower (take k (fst f))) = map lower (take k (fst f))" using g(1) lower_name by simp
  then have "map lower (map lower (take k (fst f)) @ drop k (fst f)) = map lower (take k (fst f) @ drop k (fst f))"
    by (simp only: map_append)
  then show "map low (?f # fs) = map low (f # fs)" by (simp add: low_def)
qed

lemma cut_in_value:
  assumes "good_field f" "\<forall>g \<in> set fs. good_field g" "length (fst f) < k" "k < length (field f)" "length pre + k = stop"
    "size_ok cfg (stop - start)" "7 \<le> length post"
  shows "cut_at cfg start stop (Suc n) pre post (f # fs) k hs"
proof (rule cut_atI)
  define j where "j = k - length (fst f) - 1"
  let ?v = "take j (snd f)" let ?rest = "take (j - length (snd f)) [13] @ 13 # 97 # post"
  have j: "j \<le> length (snd f) + 1" "k = length (fst f) + 1 + j" using assms(3,4) by (auto simp: j_def)
  have t: "take k (field_lines (g # fs) @ [13, 10]) = fst g @ 58 # take j (snd f) @ take (j - length (snd f)) [13]"
    if "length (fst g) = length (fst f)" "snd g = snd f" for g
  proof -
    have "take k (field g @ ys) = fst g @ 58 # take j (snd f @ [13, 10] @ ys)" for ys
      using j(2) that by (simp add: field_def)
    moreover have "take j (snd f @ [13, 10] @ ys) = take j (snd f) @ take (j - length (snd f)) [13]" for ys
      using j(1) by (cases "j = length (snd f) + 1") auto
    moreover have "field_lines (g # fs) @ [13, 10] = field g @ (field_lines fs @ [13, 10])" by simp
    ultimately show ?thesis by metis
  qed
  obtain rest where x: "?rest = 13 # rest" "7 \<le> length rest"
    using assms(7) j(1) by (cases "j = length (snd f) + 1") auto
  let ?f = "(fst f, ?v)"
  have g: "good_field ?f" using assms(1) by (auto simp: good_field_def dest: in_set_takeD)
  have r: "length pre + length (fst ?f) + 1 + length (snd ?f) \<le> stop" "stop < length pre + length (fst ?f) + 1 + length (snd ?f) + 2"
    using j assms(5) by auto
  have "\<not> too_large cfg (length pre + length (fst ?f) + 1 + length (snd ?f) - start)"
    by (rule size_ok_large [OF assms(6)]) (use r in simp)
  from header_value [OF g x(2) this, where stop = stop and n = n and hs = hs] r(2)
  have "header_loop cfg start stop (Suc n) (length pre) (pre @ fst f @ 58 # ?v @ 13 # rest) hs =
      Some (shortRead, hs, pre @ map lower (fst f) @ 58 # ?v @ 13 # rest)" by simp
  then show "header_loop cfg start stop (Suc n) (length pre) (pre @ take k (field_lines (f # fs) @ [13, 10]) @ 13 # 97 # post) hs =
      Some (shortRead, hs, pre @ take k (field_lines (low f # fs) @ [13, 10]) @ 13 # 97 # post)"
    using t [of f] t [of "low f"] x(1) by (simp add: low_def)
  show "\<forall>f \<in> set (low f # fs). good_field f" using assms(1,2) low_good by simp
  show "map low (low f # fs) = map low (f # fs)" using low_low [OF assms(1)] by simp
qed

lemma cut_later:
  fixes pre post :: "u8 list" and f :: header and fs :: "header list"
  assumes f: "good_field f" and k: "k = length (field f) + k'" and n: "7 \<le> length post"
    and big: "\<not> too_large cfg (length pre + length (field f) - start)" and st: "stop = length pre + k"
  defines "xs \<equiv> take k' (field_lines fs @ [13, 10]) @ 13 # 97 # post" and "pre' \<equiv> pre @ field (low f)"
  shows "header_loop cfg start stop (Suc n) (length pre) (pre @ take k (field_lines (f # fs) @ [13, 10]) @ 13 # 97 # post) hs =
    (if xs ! 0 = 13
     then if xs ! 1 = 10 then Some (Success (length pre' + 2 - start) False, hs @ [read_field f], pre' @ xs)
       else if length pre' + 1 < stop then Some (BAD HTTP_PARSER_ERROR_INVALID_REQUEST, hs @ [read_field f], pre' @ xs)
       else Some (shortRead, hs @ [read_field f], pre' @ xs)
     else header_loop cfg start stop n (length pre') (pre' @ xs) (hs @ [read_field f]))"
proof -
  let ?rest = "10 # xs"
  have t': "take k (field f @ ys) = field f @ take k' ys" for ys using k by simp
  have t: "take k (field_lines (f # fs) @ [13, 10]) = field f @ take k' (field_lines fs @ [13, 10])"
    by (simp only: field_lines_simps append_assoc t')
  have b: "pre @ take k (field_lines (f # fs) @ [13, 10]) @ 13 # 97 # post = pre @ fst f @ 58 # snd f @ 13 # ?rest"
    unfolding t xs_def by (simp add: field_def)
  have b': "pre @ map lower (fst f) @ 58 # snd f @ 13 # ?rest = pre' @ xs" by (simp add: pre'_def field_def low_def)
  have lp: "length pre + length (fst f) + 1 + length (snd f) + 2 = length pre'" by (simp add: pre'_def)
  have x: "xs \<noteq> []" "Suc 0 < length xs" by (simp_all add: xs_def)
  have rd: "rd (pre' @ xs) (length pre') = Some (xs ! 0)" "rd (pre' @ xs) (length pre' + 1) = Some (xs ! 1)"
    using x by (simp_all add: rd_def nth_append)
  have "\<not> too_large cfg (length pre + length (fst f) + 1 + length (snd f) - start)" using big by (auto simp: too_large_def)
  from header_value [OF f _ this, of ?rest stop n hs, folded b] show ?thesis
    using n big rd st k unfolding b' lp by (simp add: Let_def pre'_def xs_def)
qed

lemma fields_cut:
  assumes "\<forall>f \<in> set fs. good_field f" "fs \<noteq> []" "length fs \<le> n" "7 \<le> length post" "length pre + k = stop"
    and "k < length (field_lines fs) + 2" "size_ok cfg (length pre + length (field_lines fs) + 2 - start)"
  shows "cut_at cfg start stop n pre post fs k hs"
  using assms
proof (induction fs arbitrary: pre n hs k)
  case Nil
  then show ?case by simp
next
  case (Cons f fs)
  obtain m where n: "n = Suc m" using Cons.prems(3) by (cases n) auto
  have f: "good_field f" and fs: "\<forall>f \<in> set fs. good_field f" using Cons.prems(1) by simp_all
  have sz: "size_ok cfg (stop - start)" using Cons.prems(5-7) by (auto simp: size_ok_def)
  consider "k \<le> length (fst f)" | "length (fst f) < k" "k < length (field f)" | k' where "k = length (field f) + k'"
    by (metis le_add_diff_inverse not_le)
  then show ?case
  proof cases
    case 1
    show ?thesis unfolding n by (rule cut_in_name [OF f fs 1 Cons.prems(5) sz]) (use Cons.prems(4) in auto)
  next
    case 2
    show ?thesis unfolding n by (rule cut_in_value [OF f fs 2 Cons.prems(5) sz Cons.prems(4)])
  next
    case k: (3 k')
    let ?pre = "pre @ field (low f)" let ?xs = "take k' (field_lines fs @ [13, 10]) @ 13 # 97 # post"
    have lk: "length ?pre + k' = stop" using k Cons.prems(5) by simp
    have big: "\<not> too_large cfg (length pre + length (field f) - start)" by (rule size_ok_large [OF Cons.prems(7)]) simp
    note h = cut_later [OF f k Cons.prems(4) big Cons.prems(5) [symmetric], of m fs hs]
    have low: "\<forall>g \<in> set (low f # gs). good_field g" "map low (low f # gs) = map low (f # fs)"
      "pre @ take k (field_lines (low f # gs) @ [13, 10]) @ ys = ?pre @ take k' (field_lines gs @ [13, 10]) @ ys"
      if "\<forall>g \<in> set gs. good_field g" "map low gs = map low fs" for gs ys
      using that low_good [OF f] low_low [OF f] k by simp_all
    have short: ?thesis if "?xs ! 0 = 13" "?xs ! 1 \<noteq> 10" "k' \<le> 1"
    proof (rule cut_atI)
      show "header_loop cfg start stop n (length pre) (pre @ take k (field_lines (f # fs) @ [13, 10]) @ 13 # 97 # post) hs =
          Some (shortRead, hs @ [read_field f], pre @ take k (field_lines (low f # fs) @ [13, 10]) @ 13 # 97 # post)"
        unfolding n h low(3) [OF fs refl] using that lk by simp
    qed (use low(1,2) [OF fs refl] in blast)+
    show ?thesis
    proof (cases "fs = [] \<or> k' = 0")
      case True
      then have "k' = 0 \<or> (fs = [] \<and> k' = 1)" using Cons.prems(6) k by auto
      then show ?thesis using short by auto
    next
      case False
      then obtain g gs where g: "fs = g # gs" and k0: "0 < k'" by (cases fs) auto
      have "take k' (field_lines fs @ [13, 10]) \<noteq> []" using k0 by auto
      then obtain c cs where c: "take k' (field_lines fs @ [13, 10]) = c # cs" by (meson neq_Nil_conv)
      then have "field g @ field_lines gs @ [13, 10] = c # (cs @ drop k' (field_lines fs @ [13, 10]))"
        using append_take_drop_id [of k' "field_lines fs @ [13, 10]"] g by simp
      then have "c \<noteq> 13" using good_first [of g] fs g by force
      then have e: "header_loop cfg start stop n (length pre) (pre @ take k (field_lines (f # fs) @ [13, 10]) @ 13 # 97 # post) hs =
          header_loop cfg start stop m (length ?pre) (?pre @ ?xs) (hs @ [read_field f])" unfolding n h using c by simp
      have "cut_at cfg start stop m ?pre post fs k' (hs @ [read_field f])"
        using Cons.prems n g k lk fs by (intro Cons.IH) simp_all
      then obtain hs' fs' where "header_loop cfg start stop m (length ?pre) (?pre @ ?xs) (hs @ [read_field f]) =
          Some (shortRead, hs', ?pre @ take k' (field_lines fs' @ [13, 10]) @ 13 # 97 # post)"
        "\<forall>f \<in> set fs'. good_field f" "map low fs' = map low fs" unfolding cut_at_def by blast
      with low [OF this(2,3)] e show ?thesis by (intro cut_atI [where hs' = hs' and fs' = "low f # fs'"]) auto
    qed
  qed
qed


subsection \<open>Any bytes\<close>



end
