(* ===== verification/Uws_Http_Message.thy ===== *)
theory Uws_Http_Message imports
  Uws_Http_Head
begin

section \<open>Heads of requests, whole and cut\<close>

subsection \<open>The request line\<close>

definition good_line :: "http_config \<Rightarrow> u8 list \<Rightarrow> u8 list \<Rightarrow> bool" where
  "good_line cfg m t \<longleftrightarrow> 2 \<le> length m \<and> (\<forall>c \<in> set m. isValidMethodChar c) \<and> isValidMethod cfg m \<and> take 7 m \<noteq> CONNECT
     \<and> t \<noteq> [] \<and> hd t = 47 \<and> (\<forall>c \<in> set t. 32 < c)"

definition line :: "u8 list \<Rightarrow> u8 list \<Rightarrow> u8 list" where
  "line m t = m @ 32 # t @ VERSION_1_1"

lemma method_char: "isValidMethodChar c \<Longrightarrow> 32 < sint c"
  by (auto simp: isValidMethodChar_def)

lemma method_append:
  assumes "\<forall>c \<in> set m. isValidMethodChar c" "\<not> 32 < sint c'"
  shows "method_run (pre @ m @ c' # post) (length pre) = Some (Some (length pre + length m))"
  using assms
proof (induction m arbitrary: pre)
  case Nil
  then show ?case by (subst method_run.simps) (simp add: nth_append)
next
  case (Cons c m)
  then have "method_run (pre @ (c # m) @ c' # post) (length pre) = method_run ((pre @ [c]) @ m @ c' # post) (length (pre @ [c]))"
    by (subst method_run.simps) (simp add: nth_append method_char)
  also have "\<dots> = Some (Some (length (pre @ [c]) + length m))" using Cons.prems by (intro Cons.IH) simp_all
  finally show ?case by simp
qed

lemma target_scans:
  "scan (\<lambda>c. 32 < c) b data = Some q \<Longrightarrow> q + 8 \<le> length b \<Longrightarrow> \<not> too_large cfg (q - beg) \<Longrightarrow>
    consumeTarget cfg b beg data stop con = map_option (\<lambda>r. (r, piece_of b beg q)) (consumeVersion b q stop con)"
proof (induction cfg b beg data stop con rule: consumeTarget.induct)
  case (1 cfg b beg data stop con)
  have q: "data \<le> q" "q < length b" "\<not> 32 < b ! q" using 1(2) by (simp_all add: scan_Some)
  then have l: "data + 8 \<le> length b" using 1(3) by simp
  then have rd: "rd_word b data = Some (packed (take 8 (drop data b)))" by (simp add: rd_word_def)
  have s: "\<not> too_large cfg (data - beg)" using 1(4) q(1) by (auto simp: too_large_def)
  note h = word_has_less [OF l, of 33, simplified]
  show ?case
  proof (cases "hasLess (packed (take 8 (drop data b))) 33 = 0")
    case False
    then show ?thesis using rd s 1(2,4) by (subst consumeTarget.simps) simp
  next
    case True
    then have "\<forall>i. data \<le> i \<and> i < data + 8 \<longrightarrow> 32 < b ! i" using h by (auto simp: byte_below)
    then have "scan (\<lambda>c. 32 < c) b (data + 8) = Some q" using scan_skip [OF l, of "\<lambda>c. 32 < c"] 1(2) by simp
    with 1(1) [OF rd s] True 1(3,4) rd s show ?thesis by (subst consumeTarget.simps) simp
  qed
qed

lemma target_append:
  assumes "\<forall>c \<in> set t. 32 < c" "\<not> 32 < c'" "8 \<le> length (c' # post)" "size_ok cfg (length t)"
  shows "consumeTarget cfg (pre @ t @ c' # post) (length pre) (length pre) stop con =
    map_option (\<lambda>r. (r, t)) (consumeVersion (pre @ t @ c' # post) (length pre + length t) stop con)"
proof -
  have s: "scan (\<lambda>c. 32 < c) (pre @ t @ c' # post) (length pre) = Some (length pre + length t)"
    by (rule scan_append [OF assms(1,2)])
  have "\<not> too_large cfg (length pre + length t - length pre)" by (rule size_ok_large [OF assms(4)]) simp
  from target_scans [OF s _ this] assms(3) show ?thesis by (simp add: piece_of_def)
qed

text \<open>From the space after the method on.\<close>

lemma line_from_target:
  assumes "good_line cfg m t" "t' \<noteq> []" "hd t' = 47"
  shows "consumeRequestLine cfg (pre @ m @ 32 # t' @ post) (length pre) stop =
    map_option (\<lambda>(r, target). (r, m, target))
      (consumeTarget cfg (pre @ m @ 32 # t' @ post) (length pre + length m + 1) (length pre + length m + 1) stop False)"
proof -
  obtain x where t': "t' = 47 # x" using assms(2,3) by (cases t') auto
  have m: "\<forall>c \<in> set m. isValidMethodChar c" "2 \<le> length m" "isValidMethod cfg m" using assms(1) by (simp_all add: good_line_def)
  have d: "method_run (pre @ m @ 32 # t' @ post) (length pre) = Some (Some (length pre + length m))"
    by (rule method_append [OF m(1)]) simp
  have rd: "rd (pre @ m @ 32 # t' @ post) (length pre + length m) = Some 32"
    "rd (pre @ m @ 32 # t' @ post) (length pre + length m + 1) = Some 47"
    by (simp_all add: rd_def nth_append t')
  have k: "piece_of (pre @ m @ 32 # t' @ post) (length pre) (length pre + length m) = m" by (simp add: piece_of_def)
  show ?thesis using d rd m(2,3) k
    by (auto simp: consumeRequestLine_def Let_def bind_eq_Some_conv split: option.split Option.bind_splits)
qed

lemma line_done:
  assumes "good_line cfg m t" "size_ok cfg (length t)" "length pre + length (line m t) < stop" "8 \<le> length post"
  shows "consumeRequestLine cfg (pre @ line m t @ post) (length pre) stop =
    Some (line_success (length pre + length (line m t)) False False, m, t)"
proof -
  let ?pre = "pre @ m @ [32]"
  have t: "\<forall>c \<in> set t. 32 < c" "t \<noteq> []" "hd t = 47" using assms(1) by (simp_all add: good_line_def)
  have b: "pre @ line m t @ post = pre @ m @ 32 # t @ VERSION_1_1 @ post" by (simp add: line_def)
  have c: "consumeTarget cfg (?pre @ t @ 32 # tl VERSION_1_1 @ post) (length ?pre) (length ?pre) stop False =
      map_option (\<lambda>r. (r, t)) (consumeVersion (?pre @ t @ 32 # tl VERSION_1_1 @ post) (length ?pre + length t) stop False)"
    by (rule target_append [OF t(1) _ _ assms(2)]) (use assms(4) in simp_all)
  have v: "?pre @ t @ 32 # tl VERSION_1_1 @ post = pre @ line m t @ post" "?pre @ t @ VERSION_1_1 @ post = pre @ line m t @ post"
    "length ?pre = length pre + length m + 1" "length VERSION_1_1 = 11" by (simp_all add: line_def VERSION_1_1_def)
  have "consumeVersion (?pre @ t @ VERSION_1_1 @ post) (length ?pre + length t) stop False =
      Some (line_success (length pre + length (line m t)) False False)"
    using assms(3) v(4) by (simp add: consumeVersion_def same_bytes_def line_def Let_def ac_simps)
  then have "consumeTarget cfg (pre @ line m t @ post) (length pre + length m + 1) (length pre + length m + 1) stop False =
      Some (line_success (length pre + length (line m t)) False False, t)" using c unfolding v by simp
  then show ?thesis using line_from_target [OF assms(1) t(2,3), of pre "VERSION_1_1 @ post" stop] unfolding b [symmetric] by simp
qed

text \<open>A line cut short, even by nothing: whether headers follow is not known yet.\<close>

lemma version_short:
  assumes "k \<le> 11" "data + k = stop" "30 \<le> length post" "data = length pre"
  shows "consumeVersion (pre @ take k VERSION_1_1 @ 13 # 97 # post) data stop con = Some (line_short False con)"
proof -
  have "of_int (int stop - int data) = (of_nat k :: u32)" using assms(2) by auto
  moreover have "unat (min 11 (of_nat k :: u32)) = k"
  proof -
    have "unat (of_nat k :: u32) = k" using assms(1) by (simp add: unat_of_nat take_bit_nat_eq_self)
    then show ?thesis using assms(1) by (auto simp: min_def word_le_nat_alt)
  qed
  moreover have "length VERSION_1_1 = 11" by (simp add: VERSION_1_1_def)
  ultimately show ?thesis using assms by (simp add: consumeVersion_def same_bytes_def Let_def min_def)
qed

definition asks_for_more :: "ConsumeRequestLineResult \<Rightarrow> bool" where
  "asks_for_more r \<longleftrightarrow> position r = None \<and> headerParserError r = HTTP_HEADER_PARSER_ERROR_NONE"

lemma line_short_asks [simp]: "asks_for_more (line_short a c)"
  by (simp add: asks_for_more_def line_short_def)

lemma cut_in_method:
  assumes "good_line cfg m t" "0 < k" "k \<le> length m + 1" "stop = length pre + k" "30 \<le> length post"
  shows "\<exists>r x. consumeRequestLine cfg (pre @ take k (m @ [32]) @ 13 # 97 # post) (length pre) stop = Some (r, x) \<and> asks_for_more r"
proof (cases "k \<le> length m")
  case True
  let ?b = "pre @ take k m @ 13 # 97 # post"
  have "\<forall>c \<in> set (take k m). isValidMethodChar c" using assms(1) by (auto simp: good_line_def dest: in_set_takeD)
  from method_append [OF this, of 13 pre "97 # post"]
  have d: "method_run ?b (length pre) = Some (Some (length pre + k))" using True by (simp add: sint_bounds)
  have rd: "rd ?b (length pre + k) = Some 13" "rd ?b (length pre + k + 1) = Some 97"
    using True by (simp_all add: rd_def nth_append)
  have "piece_of ?b (length pre) (length pre + k) = take k m" using True by (simp add: piece_of_def)
  moreover have "take k m \<noteq> CONNECT" if "k = 7" using that assms(1) by (simp add: good_line_def)
  ultimately show ?thesis using d rd True assms(2) by (auto simp: consumeRequestLine_def Let_def)
next
  case False
  then have k: "k = length m + 1" using assms(3) by simp
  let ?b = "pre @ m @ 32 # 13 # 97 # post"
  have m: "\<forall>c \<in> set m. isValidMethodChar c" "2 \<le> length m" "take 7 m \<noteq> CONNECT" using assms(1) by (simp_all add: good_line_def)
  have d: "method_run ?b (length pre) = Some (Some (length pre + length m))" by (rule method_append [OF m(1)]) simp
  have rd: "rd ?b (length pre + length m) = Some 32" "rd ?b (length pre + length m + 1) = Some 13"
    by (simp_all add: rd_def nth_append)
  have "piece_of ?b (length pre) (length pre + length m) = m" by (simp add: piece_of_def)
  moreover have "isHTTPorHTTPSPrefixForProxies ?b (length pre + length m + 1) stop = None"
    using assms(4) k by (simp add: isHTTPorHTTPSPrefixForProxies_def)
  moreover have "m \<noteq> CONNECT" using m(3) by (auto simp: CONNECT_def)
  ultimately show ?thesis using d rd m(2) k by (auto simp: consumeRequestLine_def Let_def)
qed

lemma line_cut:
  assumes "good_line cfg m t" "size_ok cfg (length t)" "0 < k" "k \<le> length (line m t)" "stop = length pre + k" "30 \<le> length post"
  shows "\<exists>r x. consumeRequestLine cfg (pre @ take k (line m t) @ 13 # 97 # post) (length pre) stop = Some (r, x) \<and> asks_for_more r"
proof (cases "k \<le> length m + 1")
  case True
  have "take k (line m t) = take k (m @ [32])" using True by (simp add: line_def take_Cons')
  then show ?thesis using cut_in_method [OF assms(1,3) True assms(5,6)] by simp
next
  case False
  let ?pre = "pre @ m @ [32]"
  have t: "\<forall>c \<in> set t. 32 < c" "t \<noteq> []" "hd t = 47" using assms(1) by (simp_all add: good_line_def)
  define j where "j = k - length m - 1"
  then have k: "k = length m + 1 + j" "0 < j" using False by simp_all
  have lp: "length ?pre = length pre + length m + 1" by simp
  have x: "take k (line m t) = m @ 32 # take j (t @ VERSION_1_1)" using k by (simp add: line_def)
  let ?t = "take j t" let ?v = "take (j - length t) VERSION_1_1 @ 13 # 97 # post"
  have tt: "\<forall>c \<in> set ?t. 32 < c" "?t \<noteq> []" "hd ?t = 47" "size_ok cfg (length ?t)"
    using t k(2) assms(2) by (auto dest: in_set_takeD simp: size_ok_def)
  obtain c vs where v: "?v = c # vs" "\<not> 32 < c" "8 \<le> length (c # vs)"
    using assms(6) by (cases "j - length t") (auto simp: VERSION_1_1_def)
  have "consumeVersion (?pre @ ?t @ c # vs) (length ?pre + length ?t) stop False = Some (line_short False False)"
    using version_short [of "j - length t" "length ?pre + length ?t" stop post "?pre @ ?t" False] assms(4,5,6) k v(1)
    by (simp add: line_def VERSION_1_1_def)
  with target_append [OF tt(1) v(2,3) tt(4), of ?pre stop False]
  have "consumeTarget cfg (pre @ m @ 32 # ?t @ ?v) (length pre + length m + 1) (length pre + length m + 1) stop False =
      Some (line_short False False, ?t)" unfolding v(1) lp by simp
  then show ?thesis using line_from_target [OF assms(1) tt(2,3), of pre ?v stop] unfolding x by simp
qed

subsection \<open>Heads\<close>

definition good_head :: "http_config \<Rightarrow> u8 list \<Rightarrow> u8 list \<Rightarrow> header list \<Rightarrow> bool" where
  "good_head cfg m t fs \<longleftrightarrow> good_line cfg m t \<and> (\<forall>f \<in> set fs. good_field f) \<and> length fs \<le> UWS_HTTP_MAX_HEADERS_COUNT - 2"

definition http_head :: "u8 list \<Rightarrow> u8 list \<Rightarrow> header list \<Rightarrow> u8 list" where
  "http_head m t fs = line m t @ field_lines fs @ [13, 10]"

lemma http_head_length: "length (http_head m t fs) = length (line m t) + length (field_lines fs) + 2"
  by (simp add: http_head_def)

lemma line_length: "length (line m t) = length m + length t + 12"
  by (simp add: line_def VERSION_1_1_def)

lemma head_done:
  assumes "good_head cfg m t fs" "size_ok cfg (length (http_head m t fs))" "length pre + length (http_head m t fs) \<le> stop" "8 \<le> length post"
  shows "getHeaders cfg (pre @ http_head m t fs @ post) (length pre) stop ancient con =
    Some (Success (length (http_head m t fs)) False, (m, t) # map read_field fs, pre @ http_head m t (map low fs) @ post, ancient, con)"
proof -
  let ?pre = "pre @ line m t" let ?post = "field_lines fs @ 13 # 10 # post"
  have g: "good_line cfg m t" "\<forall>f \<in> set fs. good_field f" "length fs \<le> UWS_HTTP_MAX_HEADERS_COUNT - 2" using assms(1) by (simp_all add: good_head_def)
  have b: "pre @ http_head m t gs @ post = ?pre @ field_lines gs @ 13 # 10 # post" for gs by (simp add: http_head_def)
  have sz: "size_ok cfg (length t)" using assms(2) by (auto simp: size_ok_def http_head_length line_length)
  have "length pre + length (line m t) < stop" using assms(3) by (simp add: http_head_length)
  from line_done [OF g(1) sz this, of ?post] assms(4)
  have l: "consumeRequestLine cfg (?pre @ ?post) (length pre) stop = Some (line_success (length ?pre) False False, m, t)" by simp
  have p: "\<not> length ?pre + 2 > stop" using assms(3) by (simp add: http_head_length)
  show ?thesis
  proof (cases fs)
    case Nil
    have "rd (?pre @ ?post) (length ?pre) = Some 13" "rd (?pre @ ?post) (length ?pre + 1) = Some 10"
      by (simp_all add: rd_def nth_append Nil)
    then show ?thesis using l p unfolding b by (simp add: getHeaders_def line_success_def http_head_length Nil)
  next
    case (Cons f gs)
    obtain c cs where c: "?post = c # cs" "c \<noteq> 13"
    proof -
      have "?post \<noteq> []" by simp
      then obtain c cs where x: "?post = c # cs" by (meson neq_Nil_conv)
      then have "c \<noteq> 13" using good_first [of f "field_lines gs @ 13 # 10 # post"] g(2) Cons by simp
      with x that show ?thesis by blast
    qed
    have rd: "rd (?pre @ ?post) (length ?pre) = Some c" "\<exists>c1. rd (?pre @ ?post) (length ?pre + 1) = Some c1"
      unfolding c(1) using c(1) by (auto simp: rd_def nth_append Cons field_def dest: arg_cong [of _ _ length])
    have "header_loop cfg (length pre) stop (UWS_HTTP_MAX_HEADERS_COUNT - 2) (length ?pre) (?pre @ ?post) [(m, t)] =
        Some (Success (length ?pre + length (field_lines fs) + 2 - length pre) False, [(m, t)] @ map read_field fs,
          ?pre @ field_lines (map low fs) @ 13 # 10 # post)"
      using assms(2,3,4) Cons by (intro fields_done [OF g(2) _ g(3)]) (simp_all add: http_head_length add.commute add.left_commute)
    then show ?thesis using l p rd c(2) unfolding b
      by (auto simp: getHeaders_def line_success_def http_head_length Let_def)
  qed
qed

lemma head_cut:
  assumes "good_head cfg m t fs" "size_ok cfg (length (http_head m t fs))" "0 < k" "k < length (http_head m t fs)"
    "stop = length pre + k" "30 \<le> length post"
  shows "\<exists>hs fs'. getHeaders cfg (pre @ take k (http_head m t fs) @ 13 # 97 # post) (length pre) stop ancient con =
      Some (shortRead, hs, pre @ take k (http_head m t fs') @ 13 # 97 # post, ancient, con)
    \<and> (\<forall>f \<in> set fs'. good_field f) \<and> map low fs' = map low fs"
proof (cases "k \<le> length (line m t)")
  case True
  have g: "good_line cfg m t" "\<forall>f \<in> set fs. good_field f" using assms(1) by (simp_all add: good_head_def)
  have sz: "size_ok cfg (length t)" using assms(2) by (auto simp: size_ok_def http_head_length line_length)
  have x: "take k (http_head m t fs) = take k (line m t)" using True by (simp add: http_head_def)
  from line_cut [OF g(1) sz assms(3) True assms(5,6)] obtain r x where
    "consumeRequestLine cfg (pre @ take k (line m t) @ 13 # 97 # post) (length pre) stop = Some (r, x)" "asks_for_more r" by blast
  then have "getHeaders cfg (pre @ take k (http_head m t fs) @ 13 # 97 # post) (length pre) stop ancient con =
      Some (shortRead, [], pre @ take k (http_head m t fs) @ 13 # 97 # post, ancient, con)"
    unfolding x by (cases x) (simp add: getHeaders_def asks_for_more_def line_failure_def)
  with g(2) show ?thesis by blast
next
  case False
  define j where "j = k - length (line m t)"
  have j: "0 < j" "j < length (field_lines fs) + 2" "k = length (line m t) + j" using False assms(4) by (simp_all add: j_def http_head_length)
  have g: "good_line cfg m t" "\<forall>f \<in> set fs. good_field f" "length fs \<le> UWS_HTTP_MAX_HEADERS_COUNT - 2" using assms(1) by (simp_all add: good_head_def)
  let ?pre = "pre @ line m t" let ?post = "take j (field_lines fs @ [13, 10]) @ 13 # 97 # post"
  have b: "pre @ take k (http_head m t gs) @ ys = ?pre @ take j (field_lines gs @ [13, 10]) @ ys" for gs ys
    using j(3) by (simp add: http_head_def)
  have sz: "size_ok cfg (length t)" using assms(2) by (auto simp: size_ok_def http_head_length line_length)
  have st: "length pre + length (line m t) < stop" using assms(5) j by simp
  from line_done [OF g(1) sz this, of ?post] assms(6)
  have l: "consumeRequestLine cfg (?pre @ ?post) (length pre) stop = Some (line_success (length ?pre) False False, m, t)" by simp
  show ?thesis
  proof (cases "j = 1")
    case True
    then have "getHeaders cfg (?pre @ ?post) (length pre) stop ancient con = Some (shortRead, [(m, t)], ?pre @ ?post, ancient, con)"
      using l assms(5) j(3) by (simp add: getHeaders_def line_success_def)
    with g(2) show ?thesis unfolding b by blast
  next
    case j2: False
    then obtain f gs where f: "fs = f # gs" using j by (cases fs) auto
    have "take j (field_lines fs @ [13, 10]) \<noteq> []" using j(1) by auto
    then obtain c cs where c: "take j (field_lines fs @ [13, 10]) = c # cs" by (meson neq_Nil_conv)
    then have "field f @ field_lines gs @ [13, 10] = c # (cs @ drop j (field_lines fs @ [13, 10]))"
      using append_take_drop_id [of j "field_lines fs @ [13, 10]"] f by simp
    then have c13: "c \<noteq> 13" using good_first [of f] g(2) f by force
    have rd: "rd (?pre @ ?post) (length ?pre) = Some c" "\<exists>c1. rd (?pre @ ?post) (length ?pre + 1) = Some c1"
      unfolding c by (auto simp: rd_def nth_append)
    have "cut_at cfg (length pre) stop (UWS_HTTP_MAX_HEADERS_COUNT - 2) ?pre post fs j [(m, t)]"
      using assms(2,5,6) j f by (intro fields_cut [OF g(2) _ g(3)]) (simp_all add: http_head_length add.commute add.left_commute)
    then obtain hs' fs' where h: "header_loop cfg (length pre) stop (UWS_HTTP_MAX_HEADERS_COUNT - 2) (length ?pre) (?pre @ ?post) [(m, t)] =
        Some (shortRead, hs', ?pre @ take j (field_lines fs' @ [13, 10]) @ 13 # 97 # post)"
      "\<forall>f \<in> set fs'. good_field f" "map low fs' = map low fs" unfolding cut_at_def by blast
    have "\<not> length ?pre + 2 > stop" using assms(5) j j2 by simp
    with l rd c13 h(1) have "getHeaders cfg (?pre @ ?post) (length pre) stop ancient con =
        Some (shortRead, hs', ?pre @ take j (field_lines fs' @ [13, 10]) @ 13 # 97 # post, ancient, con)"
      by (auto simp: getHeaders_def line_success_def Let_def)
    with h(2,3) show ?thesis unfolding b by blast
  qed
qed

end
