(* ===== verification/Uws_Http_Serve.thy ===== *)
theory Uws_Http_Serve imports
  Uws_Http_Message
  "Uws_Chunking"
begin

section \<open>Requests arrive\<close>

text \<open>
  A client sends one request after the other on a connection, each with a body of known length, a body in chunked encoding, or none. However that
  stream is cut into segments, the handlers are called with these requests and with pieces of their bodies.
\<close>

subsection \<open>What a client sends\<close>

datatype body_sent = Without | With_length "u8 list" "u8 list" | In_chunks "u8 list" "u8 list"

record http_message =
  msg_method :: "u8 list"
  msg_target :: "u8 list"
  msg_fields :: "header list"
  msg_body :: body_sent

definition framing_field :: "body_sent \<Rightarrow> header list" where
  "framing_field s = (case s of
     Without \<Rightarrow> []
   | With_length ds b \<Rightarrow> [(n_content_length, ds)]
   | In_chunks w b \<Rightarrow> [(n_transfer_encoding, n_chunked)])"

definition body_wire :: "body_sent \<Rightarrow> u8 list" where
  "body_wire s = (case s of Without \<Rightarrow> [] | With_length ds b \<Rightarrow> b | In_chunks w b \<Rightarrow> w)"

definition body_bytes :: "body_sent \<Rightarrow> u8 list" where
  "body_bytes s = (case s of Without \<Rightarrow> [] | With_length ds b \<Rightarrow> b | In_chunks w b \<Rightarrow> b)"

definition all_fields :: "http_message \<Rightarrow> header list" where
  "all_fields msg = msg_fields msg @ framing_field (msg_body msg)"

definition head_with :: "http_message \<Rightarrow> header list \<Rightarrow> u8 list" where
  "head_with msg = http_head (msg_method msg) (msg_target msg)"

definition wire :: "http_message \<Rightarrow> u8 list" where
  "wire msg = head_with msg (all_fields msg) @ body_wire (msg_body msg)"

definition decimal_value :: "u8 list \<Rightarrow> nat" where
  "decimal_value = foldl (\<lambda>n c. n * 10 + (unat c - 48)) 0"

definition chunk_encodes :: "u8 list \<Rightarrow> u8 list \<Rightarrow> bool" where
  "chunk_encodes w b \<longleftrightarrow> (\<forall>rest. decode False (Line 0 False Digits) (w @ rest) = (Done, map Byte b @ [End], rest))"

definition good_body :: "body_sent \<Rightarrow> bool" where
  "good_body s = (case s of
     Without \<Rightarrow> True
   | With_length ds b \<Rightarrow> length b < 2 ^ 32 \<and> ds \<noteq> [] \<and> length ds \<le> 18 \<and> (\<forall>c \<in> set ds. 48 \<le> c \<and> c \<le> 57) \<and> decimal_value ds = length b
   | In_chunks w b \<Rightarrow> chunk_encodes w b)"

definition well_formed :: "http_config \<Rightarrow> http_message \<Rightarrow> bool" where
  "well_formed cfg msg \<longleftrightarrow> good_head cfg (msg_method msg) (msg_target msg) (all_fields msg)
     \<and> length (head_with msg (all_fields msg)) \<le> MAX_FALLBACK_SIZE cfg \<and> size_ok cfg (length (head_with msg (all_fields msg)))
     \<and> (\<forall>f \<in> set (msg_fields msg). fst f \<noteq> [] \<and> map lower (fst f) \<notin> {n_content_length, n_transfer_encoding})
     \<and> (requireHostHeader cfg \<longrightarrow> (\<exists>f \<in> set (msg_fields msg). map lower (fst f) = n_host))
     \<and> good_body (msg_body msg)"

text \<open>A length of 0 is well-formed, but see \<open>empty_body_end_lost\<close>.\<close>

definition good_message :: "http_config \<Rightarrow> http_message \<Rightarrow> bool" where
  "good_message cfg msg \<longleftrightarrow> well_formed cfg msg \<and> (\<forall>ds. msg_body msg \<noteq> With_length ds [])"

subsection \<open>The filter has no false negatives\<close>

lemma might_keep: "mightHave bf k \<Longrightarrow> mightHave (fold (\<lambda>h. bf_add (fst h)) hs bf) k"
  by (induction hs arbitrary: bf) (auto simp: mightHave_def bf_add_def split: if_splits)

lemma might_have:
  assumes "k \<in> fst ` set hs"
  shows "mightHave (fold (\<lambda>h. bf_add (fst h)) hs bf) k"
proof -
  from assms obtain xs h ys where x: "hs = xs @ h # ys" "fst h = k" by (auto dest: split_list)
  have "mightHave (bf_add k bf) k" for bf by (simp add: mightHave_def bf_add_def)
  then show ?thesis unfolding x(1) using x(2) by (auto intro!: might_keep)
qed

lemma filter_has: "k \<in> fst ` set (visible hs) \<Longrightarrow> mightHave (filter_of hs) k"
  unfolding filter_of_def by (rule might_have)

subsection \<open>What the headers announce\<close>

lemma visible_read: "\<forall>f \<in> set fs. fst f \<noteq> [] \<Longrightarrow> visible (x # map read_field fs) = map read_field fs"
  by (auto simp: visible_def read_field_def takeWhile_eq_all_conv)

lemma same_lengths_skip: "\<forall>h \<in> set hs. fst h \<noteq> n_content_length \<Longrightarrow> same_lengths (hs @ hs') acc = same_lengths hs' acc"
  by (induction hs) auto

lemma transfer_skip: "\<forall>h \<in> set hs. fst h \<noteq> n_transfer_encoding \<Longrightarrow> transfer_encoding (hs @ hs') te = transfer_encoding hs' te"
  by (induction hs) auto

lemma trim_id: "\<forall>c \<in> set v. \<not> ows c \<Longrightarrow> trim_value v = v"
proof -
  assume a: "\<forall>c \<in> set v. \<not> ows c"
  have d: "dropWhile ows xs = xs" if "\<forall>c \<in> set xs. \<not> ows c" for xs using that by (cases xs) auto
  show ?thesis unfolding trim_value_def using d [of v] d [of "rev v"] a by simp
qed

lemma decimal_bound: "\<forall>c \<in> set ds. 48 \<le> c \<and> c \<le> 57 \<Longrightarrow> decimal_value ds < 10 ^ length ds"
proof (induction ds rule: rev_induct)
  case (snoc d ds)
  then have "unat d \<le> 57" "decimal_value ds < 10 ^ length ds" by (simp_all add: word_le_nat_alt)
  then have "unat d - 48 \<le> 9" "decimal_value ds < 10 ^ length ds" by linarith+
  then show ?case by (simp add: decimal_value_def)
qed (simp add: decimal_value_def)

lemma digits_decimal: "\<forall>c \<in> set ds. 48 \<le> c \<and> c \<le> 57 \<Longrightarrow> digits_value ds = of_nat (decimal_value ds)"
proof (induction ds rule: rev_induct)
  case (snoc d ds)
  then have d: "48 \<le> d" by simp
  have "ucast (d - 48) = (of_nat (unat (d - 48)) :: u64)" by simp
  also have "unat (d - 48) = unat d - 48" using d by (subst unat_sub) (simp_all add: word_le_nat_alt)
  finally show ?case using snoc by (simp add: digits_value_def decimal_value_def)
qed (simp add: digits_value_def decimal_value_def)

lemma integer_decimal:
  assumes "\<forall>c \<in> set ds. 48 \<le> c \<and> c \<le> 57" "length ds \<le> 18"
  shows "toUnsignedInteger ds = of_nat (decimal_value ds)"
proof -
  have "\<not> (\<exists>c \<in> set ds. sint c < 48 \<or> sint c > 57)" using assms(1) sint_bounds(4) by (metis not_less)
  then show ?thesis using assms by (simp add: toUnsignedInteger_def digits_decimal)
qed

lemma small_size:
  assumes "n < 2 ^ 32"
  shows "\<not> (of_nat n :: u64) > STATE_SIZE_MASK" "\<not> isParsingChunkedEncoding (of_nat n)" "unat (of_nat n :: u64) = n"
proof -
  let ?n = "of_nat n :: u64"
  show u: "unat ?n = n" using assms by (simp add: unat_of_nat take_bit_nat_eq_self)
  have "unat (take_bit 59 ?n) = unat ?n" unfolding unsigned_take_bit_eq u using assms by (simp add: take_bit_nat_eq_self)
  then have t: "?n AND STATE_SIZE_MASK = ?n" using chunkSize_take [of ?n] by (simp add: chunkSize_def word_unat_eq_iff)
  then show "\<not> ?n > STATE_SIZE_MASK" by (metis word_and_le1 not_le)
  have "?n AND NOT STATE_SIZE_MASK = 0" using t by (metis and.assoc bit.conj_cancel_right and_zero_eq)
  then show "\<not> isParsingChunkedEncoding ?n" by (simp add: isParsingChunkedEncoding_def)
qed

lemma running_chunked: "running st \<Longrightarrow> isParsingChunkedEncoding st \<and> st \<noteq> 0"
proof -
  assume r: "running st"
  then have "bit st 62 \<or> bit st 63" by (auto simp: running_def in_line_def in_chunk_def)
  then have "bit (st AND NOT STATE_SIZE_MASK) 62 \<or> bit (st AND NOT STATE_SIZE_MASK) 63"
    by (simp add: bit_simps STATE_SIZE_MASK_def STATE_HAS_SIZE_def STATE_IS_CHUNKED_def)
  then have "st AND NOT STATE_SIZE_MASK \<noteq> 0" by (metis bit_0_eq bot_apply bot_bool_def)
  then show ?thesis by (auto simp: isParsingChunkedEncoding_def)
qed

lemma framing_names:
  "map lower n_content_length = n_content_length" "map lower n_transfer_encoding = n_transfer_encoding" "map lower n_chunked = n_chunked"
  "n_content_length \<noteq> n_transfer_encoding" "trim_value n_chunked = n_chunked" "last_token n_chunked [] = n_chunked" "n_chunked \<noteq> []"
  by code_simp+

lemma announced_framing:
  assumes g: "well_formed cfg msg"
  shows "check_headers cfg False ((msg_method msg, msg_target msg) # map read_field (all_fields msg)) =
    Inr (case msg_body msg of Without \<Rightarrow> No_body | With_length ds b \<Rightarrow> Fixed_body (of_nat (length b)) | In_chunks w b \<Rightarrow> Chunked_body)"
proof -
  let ?hs = "(msg_method msg, msg_target msg) # map read_field (all_fields msg)"
  let ?xs = "map read_field (msg_fields msg)"
  have gf: "\<forall>f \<in> set (all_fields msg). fst f \<noteq> []"
    using g by (auto simp: well_formed_def all_fields_def framing_field_def n_content_length_def n_transfer_encoding_def split: body_sent.splits)
  then have v: "visible ?hs = ?xs @ map read_field (framing_field (msg_body msg))"
    by (simp add: visible_read) (simp add: all_fields_def)
  have x: "\<forall>h \<in> set ?xs. fst h \<noteq> n_content_length" "\<forall>h \<in> set ?xs. fst h \<noteq> n_transfer_encoding"
    using g by (auto simp: well_formed_def read_field_def)
  have host: "requireHostHeader cfg \<longrightarrow> find_header (filter_of ?hs) ?hs n_host \<noteq> None"
  proof
    assume "requireHostHeader cfg"
    then have "n_host \<in> fst ` set (visible ?hs)" using g v by (force simp: well_formed_def read_field_def)
    then show "find_header (filter_of ?hs) ?hs n_host \<noteq> None"
      using filter_has [of n_host ?hs] by (auto simp: find_header_def find_None_iff)
  qed
  let ?te = "\<lparr>te_has = False, te_chunked = False, te_invalid = False\<rparr>"
  note fr = framing_names read_field_def
  show ?thesis
  proof (cases "msg_body msg")
    case Without
    have "contentLengthString (filter_of ?hs) ?hs = Some []" "getTransferEncoding (filter_of ?hs) ?hs = ?te"
      using same_lengths_skip [OF x(1), of "[]" "[]"] transfer_skip [OF x(2), of "[]" ?te]
      unfolding contentLengthString_def getTransferEncoding_def v Without by (simp_all add: framing_field_def Let_def)
    then show ?thesis using host unfolding check_headers_def Without by (auto simp: Let_def)
  next
    case (With_length ds b)
    have d: "ds \<noteq> []" "length ds \<le> 18" "\<forall>c \<in> set ds. 48 \<le> c \<and> c \<le> 57" "decimal_value ds = length b" "length b < 2 ^ 32"
      using g With_length by (simp_all add: well_formed_def good_body_def)
    have "\<forall>c \<in> set ds. \<not> ows c" using d(3) by (auto simp: ows_def word_le_nat_alt)
    then have t: "trim_value ds = ds" by (rule trim_id)
    have "n_content_length \<in> fst ` set (visible ?hs)" unfolding v With_length by (simp add: framing_field_def fr)
    then have m: "mightHave (filter_of ?hs) n_content_length" by (rule filter_has)
    have "contentLengthString (filter_of ?hs) ?hs = Some ds" "getTransferEncoding (filter_of ?hs) ?hs = ?te"
      using same_lengths_skip [OF x(1), of "[(n_content_length, ds)]" "[]"] transfer_skip [OF x(2), of "[(n_content_length, ds)]" ?te] m t d(1)
      unfolding contentLengthString_def getTransferEncoding_def v With_length by (simp_all add: framing_field_def fr Let_def)
    then show ?thesis using host d small_size(1) [OF d(5)] integer_decimal [OF d(3,2)]
      unfolding check_headers_def With_length by (auto simp: Let_def)
  next
    case (In_chunks w b)
    have "n_transfer_encoding \<in> fst ` set (visible ?hs)" unfolding v In_chunks by (simp add: framing_field_def fr)
    then have m: "mightHave (filter_of ?hs) n_transfer_encoding" by (rule filter_has)
    have "contentLengthString (filter_of ?hs) ?hs = Some []"
      "getTransferEncoding (filter_of ?hs) ?hs = \<lparr>te_has = True, te_chunked = True, te_invalid = False\<rparr>"
      using same_lengths_skip [OF x(1), of "[(n_transfer_encoding, n_chunked)]" "[]"]
        transfer_skip [OF x(2), of "[(n_transfer_encoding, n_chunked)]" ?te] m framing_names(4)
      unfolding contentLengthString_def getTransferEncoding_def v In_chunks by (simp_all add: framing_field_def fr Let_def)
    then show ?thesis using host unfolding check_headers_def In_chunks by (auto simp: Let_def)
  qed
qed

subsection \<open>What the handlers are called with\<close>

datatype http_call = Req http_request | Dat "u8 list" bool

definition apply_call :: "'u http_app \<Rightarrow> http_call \<Rightarrow> 'u \<Rightarrow> 'u" where
  "apply_call app c u = (case c of Req r \<Rightarrow> snd (requestHandler app r u) | Dat d fin \<Rightarrow> snd (dataHandler app d fin u))"

text \<open>An application that neither closes nor upgrades the connection.\<close>

definition stays :: "'u http_app \<Rightarrow> bool" where
  "stays app \<longleftrightarrow> (\<forall>r u. fst (requestHandler app r u)) \<and> (\<forall>d fin u. fst (dataHandler app d fin u))"

lemma stays_handlers:
  "stays app \<Longrightarrow> requestHandler app r u = (True, apply_call app (Req r) u)"
  "stays app \<Longrightarrow> dataHandler app d fin u = (True, apply_call app (Dat d fin) u)"
  by (simp_all add: stays_def apply_call_def prod_eq_iff)

definition request_ok :: "http_message \<Rightarrow> http_request \<Rightarrow> bool" where
  "request_ok msg r \<longleftrightarrow> req_headers r = (msg_method msg, msg_target msg) # map read_field (all_fields msg) \<and> \<not> ancientHttp r"

text \<open>A body in pieces, the last of which is announced as the last.\<close>

definition body_calls :: "u8 list \<Rightarrow> http_call list \<Rightarrow> bool" where
  "body_calls b cs \<longleftrightarrow> (\<exists>ps q. cs = map (\<lambda>x. Dat x False) ps @ [Dat q True] \<and> concat ps @ q = b)"

inductive transcript :: "http_message list \<Rightarrow> http_call list \<Rightarrow> bool" where
  transcript_Nil: "transcript [] []"
| transcript_Cons: "request_ok msg r \<Longrightarrow> body_calls (body_bytes (msg_body msg)) ds \<Longrightarrow> transcript msgs cs \<Longrightarrow>
    transcript (msg # msgs) (Req r # ds @ cs)"

definition chunk_calls :: "piece list \<Rightarrow> http_call list \<Rightarrow> bool" where
  "chunk_calls P ds \<longleftrightarrow> (\<exists>cs. ds = map (\<lambda>c. Dat c (c = [])) cs \<and> concat (map (\<lambda>c. pieces (Some c)) cs) = P)"

lemma emit_calls: "emit_chunks app cs u = fold (apply_call app) (map (\<lambda>c. Dat c (c = [])) cs) u"
  by (induction cs arbitrary: u) (simp_all add: emit_chunks_def apply_call_def)

lemma chunk_calls_Nil: "chunk_calls [] ds \<Longrightarrow> ds = []"
proof -
  assume "chunk_calls [] ds"
  then obtain cs where c: "ds = map (\<lambda>c. Dat c (c = [])) cs" "concat (map (\<lambda>c. pieces (Some c)) cs) = []" by (auto simp: chunk_calls_def)
  then have "cs = []" by (cases cs) (auto simp: pieces_Some split: if_splits)
  then show ?thesis using c by simp
qed

lemma chunk_calls_body:
  assumes "chunk_calls (map Byte b @ [End]) ds"
  shows "body_calls b ds"
proof -
  obtain cs where c: "ds = map (\<lambda>c. Dat c (c = [])) cs" "concat (map (\<lambda>c. pieces (Some c)) cs) = map Byte b @ [End]"
    using assms by (auto simp: chunk_calls_def)
  have "\<exists>ps. cs = ps @ [[]] \<and> [] \<notin> set ps \<and> concat ps = b" using c(2)
  proof (induction cs arbitrary: b)
    case Nil
    then show ?case by simp
  next
    case (Cons x cs)
    show ?case
    proof (cases "x = []")
      case True
      then have "b = []" using Cons.prems by (cases b) (auto simp: pieces_Some)
      moreover from this have "concat (map (\<lambda>c. pieces (Some c)) cs) = []" using Cons.prems True by (simp add: pieces_Some)
      then have "cs = []" by (cases cs) (auto simp: pieces_Some split: if_splits)
      ultimately show ?thesis using True by (intro exI [of _ "[]"]) simp
    next
      case False
      have m: "map Byte x @ concat (map (\<lambda>c. pieces (Some c)) cs) = map Byte b @ [End]" using Cons.prems False by (simp add: pieces_Some)
      then have "\<exists>b'. b = x @ b'"
      proof (induction x arbitrary: b)
        case (Cons c x)
        then show ?case by (cases b) auto
      qed simp
      then obtain b' where b': "b = x @ b'" by blast
      then have "concat (map (\<lambda>c. pieces (Some c)) cs) = map Byte b' @ [End]" using m by simp
      from Cons.IH [OF this] obtain ps where "cs = ps @ [[]]" "[] \<notin> set ps" "concat ps = b'" by blast
      then show ?thesis using False b' by (intro exI [of _ "x # ps"]) simp
    qed
  qed
  then obtain ps where ps: "cs = ps @ [[]]" "[] \<notin> set ps" "concat ps = b" by blast
  have "map (\<lambda>c. Dat c (c = [])) ps = map (\<lambda>c. Dat c False) ps" using ps(2) by (induction ps) auto
  then have "ds = map (\<lambda>x. Dat x False) ps @ [Dat [] True]" using c(1) ps(1) by simp
  with ps(3) show ?thesis unfolding body_calls_def by (intro exI [of _ ps] exI [of _ "[]"]) simp
qed

lemma decode_suffix: "decode t m xs = (m', ps, left) \<Longrightarrow> \<exists>used. xs = used @ left"
proof (induction xs arbitrary: m ps)
  case (Cons x xs)
  show ?case
  proof (cases "m = Done \<or> m = Bad")
    case True
    then show ?thesis using Cons.prems by auto
  next
    case False
    obtain m1 qs where "bstep t m x = (m1, qs)" by fastforce
    moreover obtain m2 rs l where d: "decode t m1 xs = (m2, rs, l)" by (metis prod_cases3)
    ultimately have "l = left" "m2 = m'" using Cons.prems False by auto
    then obtain used where "xs = used @ left" using Cons.IH d by blast
    then show ?thesis by (intro exI [of _ "x # used"]) simp
  qed
qed simp

lemma chunks_part:
  assumes r: "running st" and d: "decode False (mode_of st) (xs @ w) = (Done, P, rest)" and c: "chunks xs st False = (cs, left, st')"
  shows "\<exists>P'. P = concat (map (\<lambda>c. pieces (Some c)) cs) @ P' \<and> st' \<noteq> STATE_IS_ERROR \<and> (\<exists>used. xs = used @ left)
    \<and> (st' = 0 \<and> P' = [] \<and> left @ w = rest \<or> running st' \<and> left = [] \<and> decode False (mode_of st') w = (Done, P', rest))"
proof -
  note a = chunks_agree [OF r c]
  obtain m1 Q l where x: "decode False (mode_of st) xs = (m1, Q, l)" by (metis prod_cases3)
  obtain m2 R l2 where y: "decode False m1 (l @ w) = (m2, R, l2)" by (metis prod_cases3)
  have "(m2, Q @ R, l2) = (Done, P, rest)" using d unfolding decode_append [of False "mode_of st" xs w] x Let_def prod.case y .
  then have e: "m2 = Done" "P = Q @ R" "l2 = rest" by simp_all
  have "m1 \<noteq> Bad" using y e(1) by auto
  then have ne: "st' \<noteq> STATE_IS_ERROR" using a unfolding x by (auto split: if_splits)
  have b: "(m1, Q, l) = (mode_of st', concat (map (\<lambda>c. pieces (Some c)) cs), left) \<and> (st' = 0 \<or> running st' \<and> left = [])"
    using a unfolding x if_not_P [OF ne] .
  then have s: "m1 = mode_of st'" "Q = concat (map (\<lambda>c. pieces (Some c)) cs)" "l = left" "st' = 0 \<or> running st' \<and> left = []"
    by simp_all
  have u: "\<exists>used. xs = used @ left" using decode_suffix [OF x] s(3) by simp
  have z: "mode_of 0 = Done" by (simp add: mode_of_def STATE_IS_ERROR_def)
  show ?thesis using s(4)
  proof
    assume "st' = 0"
    then have "R = []" "left @ w = rest" using y e(3) s(1,3) z by simp_all
    then show ?thesis using e(2) s(2) u ne \<open>st' = 0\<close> by auto
  next
    assume r': "running st' \<and> left = []"
    then have "decode False (mode_of st') w = (Done, R, rest)" using y e s(1,3) by simp
    then show ?thesis using e(2) s(2) u ne r' by auto
  qed
qed


subsection \<open>After a head\<close>

text \<open>What was read before has lower-case names; what is still to come has not.\<close>

lemma mix_tail: "length a' = length a \<Longrightarrow> take k (a' @ t) @ drop k (a @ t) = (take k a' @ drop k a) @ t"
  by (cases "k \<le> length a") simp_all

lemma mix_head: "take k (p @ a) @ drop k (p @ b) = p @ take (k - length p) a @ drop (k - length p) b"
  by (cases "k \<le> length p") simp_all

lemma mix_field:
  assumes "good_field f" "good_field f'" "low f' = low f"
  shows "\<exists>g. take k (field f') @ drop k (field f) = field g \<and> good_field g \<and> low g = low f"
proof -
  have e: "map lower (fst f') = map lower (fst f)" "snd f' = snd f" using assms(3) by (simp_all add: low_def)
  then have l: "length (fst f') = length (fst f)" by (metis length_map)
  let ?g = "(take k (fst f') @ drop k (fst f), snd f)"
  have "good_field ?g" using assms(1,2) by (auto simp: good_field_def dest: in_set_takeD in_set_dropD)
  moreover have "map lower (fst ?g) = map lower (fst f)" using e(1) by (simp add: take_map [symmetric] drop_map [symmetric])
  then have "low ?g = low f" by (simp add: low_def)
  moreover have "take k (field f') @ drop k (field f) = field ?g" unfolding field_def e(2) using mix_tail [OF l] by simp
  ultimately show ?thesis by blast
qed

lemma mix_lines:
  assumes "\<forall>f \<in> set fs. good_field f" "\<forall>f \<in> set fs'. good_field f" "map low fs' = map low fs"
  shows "\<exists>gs. take k (field_lines fs') @ drop k (field_lines fs) = field_lines gs \<and> (\<forall>f \<in> set gs. good_field f) \<and> map low gs = map low fs"
  using assms
proof (induction fs arbitrary: fs' k)
  case (Cons f fs)
  then obtain f' fs'' where x: "fs' = f' # fs''" "low f' = low f" "map low fs'' = map low fs" by (cases fs') auto
  then have l: "length (field f') = length (field f)" by (metis low_simps(3))
  show ?case
  proof (cases "k \<le> length (field f)")
    case True
    from mix_field [of f f' k] Cons.prems x obtain g where
      g: "take k (field f') @ drop k (field f) = field g" "good_field g" "low g = low f" by auto
    have "take k (field_lines fs') @ drop k (field_lines (f # fs)) = field_lines (g # fs)"
      using True l g(1) x(1) by simp
    with g Cons.prems show ?thesis by (intro exI [of _ "g # fs"]) auto
  next
    case False
    from Cons.IH [of fs'' "k - length (field f)"] Cons.prems x obtain gs where
      g: "take (k - length (field f)) (field_lines fs'') @ drop (k - length (field f)) (field_lines fs) = field_lines gs"
        "\<forall>f \<in> set gs. good_field f" "map low gs = map low fs" by auto
    have "take k (field_lines fs') @ drop k (field_lines (f # fs)) = field_lines (f' # gs)"
      using False l g(1) x(1) by simp
    with g Cons.prems x show ?thesis by (intro exI [of _ "f' # gs"]) auto
  qed
qed simp

lemma mix_heads:
  assumes "\<forall>f \<in> set fs. good_field f" "\<forall>f \<in> set fs'. good_field f" "map low fs' = map low fs"
  shows "\<exists>gs. take k (head_with msg fs') @ drop k (head_with msg fs) = head_with msg gs \<and> (\<forall>f \<in> set gs. good_field f) \<and> map low gs = map low fs"
proof -
  let ?l = "line (msg_method msg) (msg_target msg)"
  from mix_lines [OF assms, of "k - length ?l"] obtain gs where
    g: "take (k - length ?l) (field_lines fs') @ drop (k - length ?l) (field_lines fs) = field_lines gs"
      "\<forall>f \<in> set gs. good_field f" "map low gs = map low fs" by blast
  have "length (field_lines fs') = length (field_lines fs)" by (metis low_simps(4) assms(3))
  from mix_tail [OF this, of "k - length ?l" "[13, 10]"] g(1)
  have "take k (head_with msg fs') @ drop k (head_with msg fs) = head_with msg gs"
    unfolding head_with_def http_head_def mix_head by simp
  with g show ?thesis by blast
qed

lemma same_low:
  assumes "map low fs' = map low fs"
  shows "length fs' = length fs" "map read_field fs' = map read_field fs" "length (head_with msg fs') = length (head_with msg fs)"
proof -
  have r: "map read_field fs = map (\<lambda>f. (fst f, trim_value (snd f))) (map low fs)" for fs by (simp add: read_field_def low_def)
  show "map read_field fs' = map read_field fs" unfolding r assms ..
  have "length (map low fs') = length (map low fs)" using assms by (rule arg_cong)
  then show "length fs' = length fs" by simp
  have "length (head_with msg fs) = length (head_with msg (map low fs))" for fs by (simp add: head_with_def http_head_length)
  then show "length (head_with msg fs') = length (head_with msg fs)" using assms by metis
qed

definition framing_of :: "body_sent \<Rightarrow> framing" where
  "framing_of s = (case s of Without \<Rightarrow> No_body | With_length ds b \<Rightarrow> Fixed_body (of_nat (length b)) | In_chunks w b \<Rightarrow> Chunked_body)"

definition announces :: "body_sent \<Rightarrow> http_parser \<Rightarrow> http_parser" where
  "announces s p = (case s of With_length ds b \<Rightarrow> p\<lparr>remainingStreamingBytes := of_nat (length b)\<rparr> | _ \<Rightarrow> p)"

lemma after_head:
  assumes g: "well_formed cfg msg" and s: "stays app" and c: "\<not> isConnectRequest p"
    and fs: "\<forall>f \<in> set fs. good_field f" "map low fs = map low (all_fields msg)"
    and l: "length pre + length (head_with msg fs) \<le> stop" "8 \<le> length post"
  shows "\<exists>r. request_ok msg r \<and>
    requests mini cfg app (length pre) stop (pre @ head_with msg fs @ post) False p u =
      (let (next, p, u) = begin_body mini app (framing_of (msg_body msg)) (pre @ head_with msg (map low fs) @ post)
         (length pre + length (head_with msg fs)) stop (announces (msg_body msg) p) (apply_call app (Req r) u) in
       case next of Inl r \<Rightarrow> Some (r, pre @ head_with msg (map low fs) @ post, p, u)
       | Inr data \<Rightarrow> requests mini cfg app data stop (pre @ head_with msg (map low fs) @ post) False p u)"
proof -
  let ?b = "pre @ head_with msg (map low fs) @ post" and ?d = "length pre + length (head_with msg fs)"
  let ?hs = "(msg_method msg, msg_target msg) # map read_field (all_fields msg)"
  define r where "r = request_of ?hs False (piece_of ?b ?d stop)"
  note sl = same_low [OF fs(2)]
  have gh: "good_head cfg (msg_method msg) (msg_target msg) fs" "size_ok cfg (length (head_with msg fs))"
    "length (head_with msg fs) \<le> MAX_FALLBACK_SIZE cfg"
    using g fs(1) unfolding well_formed_def sl(3) by (simp_all add: good_head_def sl(1))
  have n0: "0 < length (head_with msg fs)" by (simp add: head_with_def http_head_length)
  have h: "getHeaders cfg (pre @ head_with msg fs @ post) (length pre) stop False False =
      Some (Success (length (head_with msg fs)) False, ?hs, ?b, False, False)"
    using head_done [OF gh(1) gh(2) [unfolded head_with_def] l(1) [unfolded head_with_def] l(2), of False False, folded head_with_def] by (simp add: sl(2))
  have "\<not> stop \<le> length pre" using n0 l(1) by linarith
  then have k: "\<not> stop \<le> length pre" "isConnectRequest p = False" using c by simp_all
  have f: "(case framing_of (msg_body msg) of Fixed_body n \<Rightarrow> p\<lparr>isConnectRequest := False, remainingStreamingBytes := n\<rparr>
      | _ \<Rightarrow> p\<lparr>isConnectRequest := False\<rparr>) = announces (msg_body msg) p"
    using c by (cases p) (auto simp: framing_of_def announces_def split: body_sent.split)
  have "requests mini cfg app (length pre) stop (pre @ head_with msg fs @ post) False p u =
      (let (next, p, u) = begin_body mini app (framing_of (msg_body msg)) ?b ?d stop (announces (msg_body msg) p) (apply_call app (Req r) u) in
       case next of Inl r \<Rightarrow> Some (r, ?b, p, u) | Inr data \<Rightarrow> requests mini cfg app data stop ?b False p u)"
    using h n0 k gh(3) f announced_framing [OF g, folded framing_of_def] stays_handlers(1) [OF s]
    by (subst requests.simps) (simp add: r_def Let_def)
  moreover have "request_ok msg r" by (simp add: r_def request_ok_def request_of_def)
  ultimately show ?thesis by blast
qed

text \<open>A head that is not complete is kept for the next segment.\<close>

lemma cut_head:
  assumes g: "well_formed cfg msg" and c: "\<not> isConnectRequest p" and fs: "\<forall>f \<in> set fs. good_field f" "map low fs = map low (all_fields msg)"
    and k: "0 < k" "k < length (head_with msg (all_fields msg))" and post: "30 \<le> length post"
  shows "\<exists>gs. (\<forall>f \<in> set gs. good_field f) \<and> map low gs = map low (all_fields msg) \<and>
    requests mini cfg app (length pre) (length pre + k) (pre @ take k (head_with msg fs) @ 13 # 97 # post) False p u =
      Some (Success (length pre) True, pre @ take k (head_with msg gs) @ 13 # 97 # post, p, u)"
proof -
  note sl = same_low [OF fs(2)]
  have gh: "good_head cfg (msg_method msg) (msg_target msg) fs" "size_ok cfg (length (head_with msg fs))"
    using g fs(1) sl(1) unfolding sl(3) well_formed_def by (simp_all add: good_head_def)
  obtain hs gs where h: "getHeaders cfg (pre @ take k (head_with msg fs) @ 13 # 97 # post) (length pre) (length pre + k) False False =
      Some (shortRead, hs, pre @ take k (head_with msg gs) @ 13 # 97 # post, False, False)"
    "\<forall>f \<in> set gs. good_field f" "map low gs = map low fs"
    using head_cut [OF gh(1) gh(2) [unfolded head_with_def] k(1), of "length pre + k" pre post False False, folded head_with_def] k(2) post sl(3) by auto
  have "requests mini cfg app (length pre) (length pre + k) (pre @ take k (head_with msg fs) @ 13 # 97 # post) False p u =
      Some (Success (length pre) True, pre @ take k (head_with msg gs) @ 13 # 97 # post, p, u)"
    using k(1) h(1) c by (subst requests.simps) (cases p, simp add: shortRead_def)
  with h(2,3) fs(2) show ?thesis by metis
qed

subsection \<open>Between two segments\<close>

text \<open>
  What the parser holds between two segments, what is still to come, and which calls of the handlers are right from here.
\<close>

definition then_messages :: "(http_call list \<Rightarrow> bool) \<Rightarrow> http_message list \<Rightarrow> http_call list \<Rightarrow> bool" where
  "then_messages B msgs cs \<longleftrightarrow> (\<exists>ds es. cs = ds @ es \<and> B ds \<and> transcript msgs es)"

inductive waits :: "http_config \<Rightarrow> http_parser \<Rightarrow> u8 list \<Rightarrow> (http_call list \<Rightarrow> bool) \<Rightarrow> bool" for cfg where
  at_boundary: "remainingStreamingBytes p = 0 \<Longrightarrow> fallback p = [] \<Longrightarrow> \<not> isConnectRequest p \<Longrightarrow> \<forall>msg \<in> set msgs. good_message cfg msg \<Longrightarrow>
    waits cfg p (concat (map wire msgs)) (transcript msgs)"
| in_head: "remainingStreamingBytes p = 0 \<Longrightarrow> fallback p = take k (head_with msg fs) \<Longrightarrow> 0 < k \<Longrightarrow> k < length (head_with msg fs) \<Longrightarrow>
    \<forall>f \<in> set fs. good_field f \<Longrightarrow> map low fs = map low (all_fields msg) \<Longrightarrow>
    \<not> isConnectRequest p \<Longrightarrow> \<forall>msg \<in> set (msg # msgs). good_message cfg msg \<Longrightarrow>
    waits cfg p (drop k (head_with msg (all_fields msg)) @ body_wire (msg_body msg) @ concat (map wire msgs)) (transcript (msg # msgs))"
| in_fixed: "remainingStreamingBytes p = of_nat (length b) \<Longrightarrow> fallback p = [] \<Longrightarrow> b \<noteq> [] \<Longrightarrow> length b < 2 ^ 32 \<Longrightarrow>
    \<not> isConnectRequest p \<Longrightarrow> \<forall>msg \<in> set msgs. good_message cfg msg \<Longrightarrow>
    waits cfg p (b @ concat (map wire msgs)) (then_messages (body_calls b) msgs)"
| in_chunks: "running (remainingStreamingBytes p) \<Longrightarrow> fallback p = [] \<Longrightarrow>
    decode False (mode_of (remainingStreamingBytes p)) w = (Done, P, concat (map wire msgs)) \<Longrightarrow>
    \<not> isConnectRequest p \<Longrightarrow> \<forall>msg \<in> set msgs. good_message cfg msg \<Longrightarrow>
    waits cfg p w (then_messages (chunk_calls P) msgs)"

definition goes_on :: "http_config \<Rightarrow> 'u http_app \<Rightarrow> u8 list \<Rightarrow> (http_call list \<Rightarrow> bool) \<Rightarrow> 'u \<Rightarrow> http_parser \<Rightarrow> 'u \<Rightarrow> bool" where
  "goes_on cfg app w K u p' u' \<longleftrightarrow>
    (\<exists>K' cs. waits cfg p' w K' \<and> u' = fold (apply_call app) cs u \<and> (\<forall>es. K' es \<longrightarrow> K (cs @ es)))"

definition loop_served :: "http_config \<Rightarrow> 'u http_app \<Rightarrow> u8 list \<Rightarrow> (http_call list \<Rightarrow> bool) \<Rightarrow> 'u \<Rightarrow> u8 list \<Rightarrow> nat \<Rightarrow>
    (HttpParserResult \<times> u8 list \<times> http_parser \<times> 'u) option \<Rightarrow> bool" where
  "loop_served cfg app w K u F stop x \<longleftrightarrow>
    (\<exists>n b p' u'. x = Some (Success n True, b, p', u') \<and> n \<le> stop \<and> stop \<le> length b \<and> fallback p' = F
      \<and> (n < stop \<longrightarrow> stop - n < MAX_FALLBACK_SIZE cfg) \<and> goes_on cfg app w K u (p'\<lparr>fallback := drop n (take stop b)\<rparr>) u')"

definition taken :: "http_config \<Rightarrow> 'u http_app \<Rightarrow> u8 list \<Rightarrow> (http_call list \<Rightarrow> bool) \<Rightarrow> 'u \<Rightarrow>
    (HttpParserResult \<times> http_parser \<times> 'u) option \<Rightarrow> bool" where
  "taken cfg app w K u x \<longleftrightarrow> (\<exists>p' u'. x = Some (Success 0 True, p', u') \<and> goes_on cfg app w K u p' u')"

lemma goes_on_after:
  "goes_on cfg app w K' (fold (apply_call app) cs u) p' u' \<Longrightarrow> (\<And>es. K' es \<Longrightarrow> K (cs @ es)) \<Longrightarrow> goes_on cfg app w K u p' u'"
  unfolding goes_on_def by (metis append.assoc comp_apply fold_append)

lemma served_after:
  assumes "loop_served cfg app w K' (fold (apply_call app) cs u) F stop x" and k: "\<And>es. K' es \<Longrightarrow> K (cs @ es)"
  shows "loop_served cfg app w K u F stop x"
proof -
  from assms(1) obtain n b p' u' where x: "x = Some (Success n True, b, p', u')" "n \<le> stop" "stop \<le> length b" "fallback p' = F"
    "n < stop \<longrightarrow> stop - n < MAX_FALLBACK_SIZE cfg"
    and g: "goes_on cfg app w K' (fold (apply_call app) cs u) (p'\<lparr>fallback := drop n (take stop b)\<rparr>) u'"
    unfolding loop_served_def by blast
  from g k have "goes_on cfg app w K u (p'\<lparr>fallback := drop n (take stop b)\<rparr>) u'" by (rule goes_on_after)
  with x show ?thesis unfolding loop_served_def by blast
qed

lemma taken_after:
  assumes "taken cfg app w K' (fold (apply_call app) cs u) x" and k: "\<And>es. K' es \<Longrightarrow> K (cs @ es)"
  shows "taken cfg app w K u x"
proof -
  from assms(1) obtain p' u' where x: "x = Some (Success 0 True, p', u')"
    and g: "goes_on cfg app w K' (fold (apply_call app) cs u) p' u'" unfolding taken_def by blast
  from g k have "goes_on cfg app w K u p' u'" by (rule goes_on_after)
  with x show ?thesis unfolding taken_def by blast
qed

lemma goes_on_now: "waits cfg p' w K \<Longrightarrow> goes_on cfg app w K u p' u"
  unfolding goes_on_def by (intro exI [of _ K] exI [of _ "[]"]) simp

subsubsection \<open>The calls\<close>

lemma body_whole: "body_calls b [Dat b True]"
  unfolding body_calls_def by (intro exI [of _ "[]"] exI [of _ b]) simp

lemma body_part:
  assumes "body_calls b' ds"
  shows "body_calls (b @ b') (Dat b False # ds)"
proof -
  from assms obtain ps q where "ds = map (\<lambda>x. Dat x False) ps @ [Dat q True]" "concat ps @ q = b'" unfolding body_calls_def by blast
  then show ?thesis unfolding body_calls_def by (intro exI [of _ "b # ps"] exI [of _ q]) simp
qed

lemma chunk_calls_append:
  assumes "chunk_calls P ds" "chunk_calls Q es"
  shows "chunk_calls (P @ Q) (ds @ es)"
proof -
  from assms obtain cs cs' where "ds = map (\<lambda>c. Dat c (c = [])) cs" "concat (map (\<lambda>c. pieces (Some c)) cs) = P"
    "es = map (\<lambda>c. Dat c (c = [])) cs'" "concat (map (\<lambda>c. pieces (Some c)) cs') = Q" unfolding chunk_calls_def by blast
  then show ?thesis unfolding chunk_calls_def by (intro exI [of _ "cs @ cs'"]) simp
qed

lemma chunk_calls_are: "chunk_calls (concat (map (\<lambda>c. pieces (Some c)) cs)) (map (\<lambda>c. Dat c (c = [])) cs)"
  by (auto simp: chunk_calls_def)

lemma then_after_body: "B ds \<Longrightarrow> transcript msgs es \<Longrightarrow> then_messages B msgs (ds @ es)"
  by (auto simp: then_messages_def)

lemma then_part: "then_messages B' msgs es \<Longrightarrow> (\<And>ds'. B' ds' \<Longrightarrow> B (ds @ ds')) \<Longrightarrow> then_messages B msgs (ds @ es)"
  unfolding then_messages_def by (metis append.assoc)

lemma first_message:
  "request_ok msg r \<Longrightarrow> then_messages (body_calls (body_bytes (msg_body msg))) msgs es \<Longrightarrow> transcript (msg # msgs) (Req r # es)"
  unfolding then_messages_def using transcript_Cons by blast


subsection \<open>A segment without a head from before\<close>

lemma served_stop:
  assumes "waits cfg (p\<lparr>fallback := []\<rparr>) w K" "stop \<le> length b"
  shows "loop_served cfg app w K u (fallback p) stop (requests mini cfg app stop stop b a p u)"
  using assms goes_on_now by (subst requests.simps) (auto simp: loop_served_def)

definition serves :: "http_config \<Rightarrow> 'u http_app \<Rightarrow> u8 list \<Rightarrow> u8 list \<Rightarrow> http_message list \<Rightarrow> bool" where
  "serves cfg app w post msgs \<longleftrightarrow> (\<forall>pre seg p u. seg @ w = concat (map wire msgs) \<longrightarrow> remainingStreamingBytes p = 0 \<longrightarrow> \<not> isConnectRequest p \<longrightarrow>
    loop_served cfg app w (transcript msgs) u (fallback p) (length pre + length seg)
      (requests False cfg app (length pre) (length pre + length seg) (pre @ seg @ 13 # 97 # post) False p u))"

lemma servesD:
  "serves cfg app w post msgs \<Longrightarrow> seg @ w = concat (map wire msgs) \<Longrightarrow> remainingStreamingBytes p = 0 \<Longrightarrow> \<not> isConnectRequest p \<Longrightarrow>
    loop_served cfg app w (transcript msgs) u (fallback p) (length pre + length seg)
      (requests False cfg app (length pre) (length pre + length seg) (pre @ seg @ 13 # 97 # post) False p u)"
  by (simp add: serves_def)

lemma piece_here: "piece_of (pre @ xs @ post) (length pre) (length pre + length xs) = xs"
  by (simp add: piece_of_def)

lemma fixed_serves:
  assumes ih: "serves cfg app w post msgs" and s: "stays app" and good: "\<forall>msg \<in> set msgs. good_message cfg msg"
    and b: "length b < 2 ^ 32" and w: "seg @ w = b @ concat (map wire msgs)" and p: "\<not> isConnectRequest p"
  shows "loop_served cfg app w (then_messages (body_calls b) msgs) u (fallback p) (length pre + length seg)
    (let (next, p, u) = begin_body False app (Fixed_body (of_nat (length b))) (pre @ seg @ 13 # 97 # post) (length pre)
         (length pre + length seg) p u in
     case next of Inl r \<Rightarrow> Some (r, pre @ seg @ 13 # 97 # post, p, u)
     | Inr data \<Rightarrow> requests False cfg app data (length pre + length seg) (pre @ seg @ 13 # 97 # post) False p u)"
proof (cases "length b \<le> length seg")
  case True
  then obtain seg' where x: "seg = b @ seg'" "seg' @ w = concat (map wire msgs)" using w by (auto simp: append_eq_append_conv2)
  let ?p = "p\<lparr>remainingStreamingBytes := 0\<rparr>"
  have "loop_served cfg app w (transcript msgs) (fold (apply_call app) [Dat b True] u) (fallback ?p) (length (pre @ b) + length seg')
      (requests False cfg app (length (pre @ b)) (length (pre @ b) + length seg') ((pre @ b) @ seg' @ 13 # 97 # post) False ?p
        (fold (apply_call app) [Dat b True] u))"
    by (rule servesD [OF ih x(2)]) (use p in simp_all)
  from served_after [where K = "then_messages (body_calls b) msgs", OF this then_after_body [where B = "body_calls b", OF body_whole]]
  show ?thesis using x(1) small_size(3) [OF b] stays_handlers(2) [OF s] piece_here [of pre b "seg' @ 13 # 97 # post"]
    by (simp add: begin_body_def Let_def add.assoc)
next
  case False
  then obtain b' where x: "b = seg @ b'" "w = b' @ concat (map wire msgs)" "b' \<noteq> []" using w by (auto simp: append_eq_append_conv2)
  let ?p = "p\<lparr>remainingStreamingBytes := of_nat (length b')\<rparr>"
  have "waits cfg (?p\<lparr>fallback := []\<rparr>) w (then_messages (body_calls b') msgs)"
    unfolding x(2) using b x p good by (intro in_fixed) simp_all
  from served_stop [OF this, of "length pre + length seg" "pre @ seg @ 13 # 97 # post" app "fold (apply_call app) [Dat seg False] u" False False]
  have "loop_served cfg app w (then_messages (body_calls b') msgs) (fold (apply_call app) [Dat seg False] u) (fallback ?p) (length pre + length seg)
      (requests False cfg app (length pre + length seg) (length pre + length seg) (pre @ seg @ 13 # 97 # post) False ?p
        (fold (apply_call app) [Dat seg False] u))" by simp
  from served_after [where K = "then_messages (body_calls b) msgs", OF this then_part [where B = "body_calls b" and ds = "[Dat seg False]"]] body_part [of b' _ seg] x(1)
  have "loop_served cfg app w (then_messages (body_calls b) msgs) u (fallback ?p) (length pre + length seg)
      (requests False cfg app (length pre + length seg) (length pre + length seg) (pre @ seg @ 13 # 97 # post) False ?p
        (fold (apply_call app) [Dat seg False] u))" by simp
  then show ?thesis using x(1,3) small_size(3) [OF b] stays_handlers(2) [OF s] piece_here [of pre seg "13 # 97 # post"]
    by (simp add: begin_body_def Let_def)
qed

lemma chunks_serve:
  assumes ih: "serves cfg app w post msgs" and s: "stays app" and good: "\<forall>msg \<in> set msgs. good_message cfg msg"
    and d: "decode False (mode_of STATE_IS_CHUNKED) (seg @ w) = (Done, P, concat (map wire msgs))" and p: "\<not> isConnectRequest p"
  shows "loop_served cfg app w (then_messages (chunk_calls P) msgs) u (fallback p) (length pre + length seg)
    (let (next, p, u) = begin_body False app Chunked_body (pre @ seg @ 13 # 97 # post) (length pre) (length pre + length seg) p u in
     case next of Inl r \<Rightarrow> Some (r, pre @ seg @ 13 # 97 # post, p, u)
     | Inr data \<Rightarrow> requests False cfg app data (length pre + length seg) (pre @ seg @ 13 # 97 # post) False p u)"
proof -
  obtain cs left st where c: "chunks seg STATE_IS_CHUNKED False = (cs, left, st)" by (metis prod_cases3)
  have "running STATE_IS_CHUNKED" using chunked_word by (simp add: running_def)
  from chunks_part [OF this d c] obtain P' used where P: "P = concat (map (\<lambda>c. pieces (Some c)) cs) @ P'"
    and st: "st \<noteq> STATE_IS_ERROR" and used: "seg = used @ left"
    and e: "st = 0 \<and> P' = [] \<and> left @ w = concat (map wire msgs) \<or> running st \<and> left = [] \<and> decode False (mode_of st) w = (Done, P', concat (map wire msgs))"
    by blast
  let ?ds = "map (\<lambda>c. Dat c (c = [])) cs" and ?p = "p\<lparr>remainingStreamingBytes := st\<rparr>"
  have part: "\<And>ds. chunk_calls P' ds \<Longrightarrow> chunk_calls P (?ds @ ds)" unfolding P by (rule chunk_calls_append [OF chunk_calls_are])
  have now: "begin_body False app Chunked_body (pre @ seg @ 13 # 97 # post) (length pre) (length pre + length seg) p u =
      (Inr (length (pre @ used)), ?p, fold (apply_call app) ?ds u)"
    using c st used piece_here [of pre seg "13 # 97 # post"] by (simp add: begin_body_def isParsingInvalidChunkedEncoding_def emit_calls)
  show ?thesis using e
  proof (elim disjE conjE)
    assume x: "st = 0" "P' = []" "left @ w = concat (map wire msgs)"
    have "chunk_calls P ?ds" using part [of "[]"] x(2) by (simp add: chunk_calls_def)
    note k = then_after_body [where B = "chunk_calls P", OF this]
    have "loop_served cfg app w (transcript msgs) (fold (apply_call app) ?ds u) (fallback ?p) (length (pre @ used) + length left)
        (requests False cfg app (length (pre @ used)) (length (pre @ used) + length left) ((pre @ used) @ left @ 13 # 97 # post) False ?p
          (fold (apply_call app) ?ds u))"
      by (rule servesD [OF ih x(3)]) (use x(1) p in simp_all)
    from served_after [where K = "then_messages (chunk_calls P) msgs", OF this k] show ?thesis unfolding now using used by (simp add: add.assoc)
  next
    assume x: "running st" "left = []" "decode False (mode_of st) w = (Done, P', concat (map wire msgs))"
    have "waits cfg (?p\<lparr>fallback := []\<rparr>) w (then_messages (chunk_calls P') msgs)" using x p good by (intro in_chunks) simp_all
    from served_stop [OF this, of "length pre + length seg" "pre @ seg @ 13 # 97 # post"]
    have "loop_served cfg app w (then_messages (chunk_calls P') msgs) (fold (apply_call app) ?ds u) (fallback ?p) (length pre + length seg)
        (requests False cfg app (length pre + length seg) (length pre + length seg) (pre @ seg @ 13 # 97 # post) False ?p
          (fold (apply_call app) ?ds u))" by simp
    from served_after [where K = "then_messages (chunk_calls P) msgs", OF this then_part [where B = "chunk_calls P", OF _ part]] show ?thesis unfolding now using used x(2) by simp
  qed
qed


lemma body_serves:
  assumes "serves cfg app w post msgs" "stays app" "\<forall>msg \<in> set msgs. good_message cfg msg" "good_body s"
    and w: "seg @ w = body_wire s @ concat (map wire msgs)" and p: "\<not> isConnectRequest p" "remainingStreamingBytes p = 0"
  shows "loop_served cfg app w (then_messages (body_calls (body_bytes s)) msgs) u (fallback p) (length pre + length seg)
    (let (next, p, u) = begin_body False app (framing_of s) (pre @ seg @ 13 # 97 # post) (length pre) (length pre + length seg) (announces s p) u in
     case next of Inl r \<Rightarrow> Some (r, pre @ seg @ 13 # 97 # post, p, u)
     | Inr data \<Rightarrow> requests False cfg app data (length pre + length seg) (pre @ seg @ 13 # 97 # post) False p u)"
proof (cases s)
  case Without
  have "loop_served cfg app w (transcript msgs) (fold (apply_call app) [Dat [] True] u) (fallback p) (length pre + length seg)
      (requests False cfg app (length pre) (length pre + length seg) (pre @ seg @ 13 # 97 # post) False p (fold (apply_call app) [Dat [] True] u))"
    by (rule servesD [OF assms(1)]) (use w p Without in \<open>simp_all add: body_wire_def\<close>)
  from served_after [where K = "then_messages (body_calls []) msgs", OF this then_after_body [where B = "body_calls []", OF body_whole]]
  show ?thesis using p(1) Without stays_handlers(2) [OF assms(2)]
    by (simp add: framing_of_def announces_def begin_body_def body_bytes_def Let_def)
next
  case (With_length ds b)
  then have "length b < 2 ^ 32" "seg @ w = b @ concat (map wire msgs)" using assms(4) w by (simp_all add: good_body_def body_wire_def)
  from fixed_serves [OF assms(1,2,3) this, of "announces s p"] p(1) show ?thesis
    by (simp add: With_length framing_of_def announces_def body_bytes_def)
next
  case (In_chunks v b)
  have "decode False (mode_of STATE_IS_CHUNKED) (seg @ w) = (Done, map Byte b @ [End], concat (map wire msgs))"
    using w assms(4) In_chunks by (simp add: good_body_def chunk_encodes_def chunked_word body_wire_def)
  note c = chunks_serve [OF assms(1,2,3) this p(1), of u pre]
  have "chunk_calls (map Byte b @ [End]) ds \<Longrightarrow> body_calls b ds" for ds by (rule chunk_calls_body)
  then have "then_messages (chunk_calls (map Byte b @ [End])) msgs es \<Longrightarrow> then_messages (body_calls b) msgs ([] @ es)" for es
    by (auto simp: then_messages_def)
  from served_after [where cs = "[]" and u = u and K = "then_messages (body_calls b) msgs", OF _ this] c
  show ?thesis by (simp add: In_chunks framing_of_def announces_def body_bytes_def)
qed

lemma longer_prefix: "seg @ w = a @ r \<Longrightarrow> length a \<le> length seg \<Longrightarrow> \<exists>s. seg = a @ s \<and> s @ w = r"
  by (intro exI [of _ "drop (length a) seg"]) (metis append_eq_append_conv_if append_take_drop_id)

lemma loop_serves:
  assumes s: "stays app" and post: "30 \<le> length post"
  shows "\<forall>msg \<in> set msgs. good_message cfg msg \<Longrightarrow> serves cfg app w post msgs"
proof (induction msgs)
  case Nil
  show ?case unfolding serves_def
  proof (intro allI impI)
    fix pre seg :: "u8 list" and p :: http_parser and u
    assume w: "seg @ w = concat (map wire [])" and p: "remainingStreamingBytes p = 0" "\<not> isConnectRequest p"
    have "waits cfg (p\<lparr>fallback := []\<rparr>) [] (transcript [])" using at_boundary [of "p\<lparr>fallback := []\<rparr>" "[]"] p by simp
    from served_stop [OF this, of "length pre" "pre @ 13 # 97 # post"] w
    show "loop_served cfg app w (transcript []) u (fallback p) (length pre + length seg)
      (requests False cfg app (length pre) (length pre + length seg) (pre @ seg @ 13 # 97 # post) False p u)" by simp
  qed
next
  case (Cons msg msgs)
  then have g: "well_formed cfg msg" and ms: "\<forall>msg \<in> set msgs. good_message cfg msg" and ih: "serves cfg app w post msgs"
    by (simp_all add: good_message_def)
  let ?fs = "all_fields msg"
  have gf: "\<forall>f \<in> set ?fs. good_field f" using g by (simp add: well_formed_def good_head_def)
  show ?case unfolding serves_def
  proof (intro allI impI)
    fix pre seg :: "u8 list" and p :: http_parser and u
    assume w: "seg @ w = concat (map wire (msg # msgs))" and p: "remainingStreamingBytes p = 0" "\<not> isConnectRequest p"
    let ?x = "requests False cfg app (length pre) (length pre + length seg) (pre @ seg @ 13 # 97 # post) False p u"
    consider "seg = []" | "seg \<noteq> []" "length seg < length (head_with msg ?fs)" | "length (head_with msg ?fs) \<le> length seg" by linarith
    then show "loop_served cfg app w (transcript (msg # msgs)) u (fallback p) (length pre + length seg) ?x"
    proof cases
      case 1
      have "waits cfg (p\<lparr>fallback := []\<rparr>) w (transcript (msg # msgs))"
        using at_boundary [of "p\<lparr>fallback := []\<rparr>" "msg # msgs" cfg] p w 1 Cons.prems by simp
      from served_stop [OF this, of "length pre + length seg" "pre @ seg @ 13 # 97 # post"] show ?thesis using 1 by simp
    next
      case 2
      let ?k = "length seg"
      have sw: "seg @ w = head_with msg ?fs @ body_wire (msg_body msg) @ concat (map wire msgs)" using w by (simp add: wire_def)
      have sg: "seg = take ?k (head_with msg ?fs)" using arg_cong [OF sw, of "take ?k"] 2(2) by simp
      have ww: "w = drop ?k (head_with msg ?fs) @ body_wire (msg_body msg) @ concat (map wire msgs)"
        using arg_cong [OF sw, of "drop ?k"] 2(2) by simp
      obtain fs' where fs': "\<forall>f \<in> set fs'. good_field f" "map low fs' = map low ?fs"
        and x: "?x = Some (Success (length pre) True, pre @ take ?k (head_with msg fs') @ 13 # 97 # post, p, u)"
        using cut_head [OF g p(2) gf refl _ 2(2) post, of False app pre u] 2(1) unfolding sg [symmetric] by auto
      note sl = same_low(3) [OF fs'(2), of msg]
      have "waits cfg (p\<lparr>fallback := take ?k (head_with msg fs')\<rparr>) w (transcript (msg # msgs))"
        unfolding ww using p 2 fs' Cons.prems sl by (intro in_head [where fs = fs']) simp_all
      moreover have "drop (length pre) (take (length pre + ?k) (pre @ take ?k (head_with msg fs') @ 13 # 97 # post)) = take ?k (head_with msg fs')"
        using 2 sl by simp
      moreover have "length (head_with msg ?fs) \<le> MAX_FALLBACK_SIZE cfg" using g by (simp add: well_formed_def)
      ultimately show ?thesis using x 2 sl goes_on_now unfolding loop_served_def by fastforce
    next
      case 3
      let ?h = "head_with msg ?fs"
      have sw: "seg @ w = ?h @ body_wire (msg_body msg) @ concat (map wire msgs)" using w by (simp add: wire_def)
      then obtain seg' where sg: "seg = ?h @ seg'" "seg' @ w = body_wire (msg_body msg) @ concat (map wire msgs)"
        using longer_prefix [OF _ 3] by blast
      have gb: "good_body (msg_body msg)" using g by (simp add: well_formed_def)
      let ?pre = "pre @ head_with msg (map low ?fs)"
      have ll: "map low (map low ?fs) = map low ?fs" using gf by (simp add: low_low)
      note sl = same_low(3) [OF ll, of msg]
      have e: "length pre + length seg = length ?pre + length seg'" "length pre + length ?h = length ?pre"
        "pre @ head_with msg (map low ?fs) @ seg' @ 13 # 97 # post = ?pre @ seg' @ 13 # 97 # post"
        "pre @ ?h @ seg' @ 13 # 97 # post = pre @ seg @ 13 # 97 # post" using sg(1) sl by simp_all
      have l: "length pre + length ?h \<le> length pre + length seg" "8 \<le> length (seg' @ 13 # 97 # post)" using 3 post by simp_all
      obtain r where r: "request_ok msg r" and x: "?x =
          (let (next, p, u) = begin_body False app (framing_of (msg_body msg)) (?pre @ seg' @ 13 # 97 # post)
             (length ?pre) (length ?pre + length seg') (announces (msg_body msg) p) (apply_call app (Req r) u) in
           case next of Inl r \<Rightarrow> Some (r, ?pre @ seg' @ 13 # 97 # post, p, u)
           | Inr data \<Rightarrow> requests False cfg app data (length ?pre + length seg') (?pre @ seg' @ 13 # 97 # post) False p u)"
        using after_head [OF g s p(2) gf refl l, of False u] unfolding e by blast
      have "loop_served cfg app w (then_messages (body_calls (body_bytes (msg_body msg))) msgs) (fold (apply_call app) [Req r] u) (fallback p)
          (length ?pre + length seg') ?x"
        unfolding x using body_serves [OF ih s ms gb sg(2) p(2,1), of "apply_call app (Req r) u" ?pre] by simp
      from served_after [where K = "transcript (msg # msgs)", OF this] first_message [OF r] sg(1) sl show ?thesis by (simp add: add.assoc)
    qed
  qed
qed


lemma fence_form:
  assumes "32 \<le> length pad"
  obtains post where "fence bs pad = bs @ 13 # 97 # post" "30 \<le> length post"
proof -
  obtain a a' post where "pad = a # a' # post" using assms by (cases pad; cases "tl pad") auto
  with assms that [of post] show ?thesis by (simp add: fence_def)
qed

lemma new_requests_serve:
  assumes "stays app" "32 \<le> length pad" "\<forall>msg \<in> set msgs. good_message cfg msg" "seg @ w = concat (map wire msgs)"
    and p: "remainingStreamingBytes p = 0" "\<not> isConnectRequest p" "fallback p = []"
  shows "taken cfg app w (transcript msgs) u (new_requests cfg app pad seg p u)"
proof -
  obtain post where f: "fence seg pad = seg @ 13 # 97 # post" "30 \<le> length post" using fence_form [OF assms(2)] by metis
  from servesD [OF loop_serves [OF assms(1) f(2) assms(3)] assms(4) p(1,2), of u "[]"]
  obtain n b p' u' where x: "requests False cfg app 0 (length seg) (fence seg pad) False p u = Some (Success n True, b, p', u')"
    and n: "n \<le> length seg" "length seg \<le> length b" "fallback p' = []" "n < length seg \<longrightarrow> length seg - n < MAX_FALLBACK_SIZE cfg"
    and g: "goes_on cfg app w (transcript msgs) u (p'\<lparr>fallback := drop n (take (length seg) b)\<rparr>) u'"
    unfolding loop_served_def f(1) p(3) by auto
  show ?thesis
  proof (cases "n < length seg")
    case True
    then show ?thesis using x n g by (auto simp: taken_def new_requests_def fenceAndConsumePostPadded_def)
  next
    case False
    then have "p'\<lparr>fallback := drop n (take (length seg) b)\<rparr> = p'" using n(1,3) by (cases p') simp
    then have "goes_on cfg app w (transcript msgs) u p' u'" using g by metis
    then show ?thesis using x n False by (auto simp: taken_def new_requests_def fenceAndConsumePostPadded_def)
  qed
qed

lemma then_nothing: "taken cfg app w (transcript msgs) (fold (apply_call app) ds u) x \<Longrightarrow> B ds \<Longrightarrow> taken cfg app w (then_messages B msgs) u x"
  by (erule taken_after) (rule then_after_body)

lemma then_goes:
  "taken cfg app w (then_messages B' msgs) (fold (apply_call app) ds u) x \<Longrightarrow> (\<And>ds'. B' ds' \<Longrightarrow> B (ds @ ds')) \<Longrightarrow>
    taken cfg app w (then_messages B msgs) u x"
  by (erule taken_after) (rule then_part)

lemma taken_now: "waits cfg p w K \<Longrightarrow> taken cfg app w K u (Some (Success 0 True, p, u))"
  by (auto simp: taken_def intro: goes_on_now)

lemma resumed_serves:
  assumes s: "stays app" and pad: "32 \<le> length pad" and w: "waits cfg p (seg @ w) K" and p: "fallback p = []"
  shows "taken cfg app w K u (resume_then_new cfg app pad seg p u)"
  using w
proof cases
  case (at_boundary msgs)
  then show ?thesis using new_requests_serve [OF s pad, of msgs cfg seg w p u] by (simp add: resume_then_new_def)
next
  case (in_head k msg fs msgs)
  then have "length (fallback p) = k" by simp
  with p in_head show ?thesis by simp
next
  case (in_fixed b msgs)
  note u = small_size(3) [OF in_fixed(6)] and nc = small_size(2) [OF in_fixed(6)]
  have r: "remainingStreamingBytes p \<noteq> 0" using u in_fixed(3,5) by auto
  show ?thesis
  proof (cases "length seg < length b")
    case True
    then obtain b' where x: "b = seg @ b'" "w = b' @ concat (map wire msgs)" "b' \<noteq> []"
      using in_fixed(1) by (auto simp: append_eq_append_conv2)
    let ?p = "p\<lparr>remainingStreamingBytes := of_nat (length b')\<rparr>"
    have "waits cfg ?p w (then_messages (body_calls b') msgs)" unfolding x(2) using in_fixed x by (intro waits.in_fixed) simp_all
    from then_goes [where ds = "[Dat seg False]" and B = "body_calls b", OF taken_now [OF this]] body_part [of b' _ seg]
    have "taken cfg app w K u (Some (Success 0 True, ?p, fold (apply_call app) [Dat seg False] u))"
      unfolding in_fixed(2) x(1) by simp
    then show ?thesis using r u nc True in_fixed x stays_handlers(2) [OF s] by (simp add: resume_then_new_def resume_body_def Let_def)
  next
    case False
    then obtain seg' where x: "seg = b @ seg'" "seg' @ w = concat (map wire msgs)" using in_fixed(1) by (auto simp: append_eq_append_conv2)
    let ?p = "p\<lparr>remainingStreamingBytes := 0\<rparr>" and ?u = "fold (apply_call app) [Dat b True] u"
    show ?thesis
    proof (cases "seg' = []")
      case True
      have "waits cfg ?p w (transcript msgs)" using at_boundary [of ?p msgs cfg] in_fixed x True by simp
      from then_nothing [where ds = "[Dat b True]" and B = "body_calls b" and u = u, OF taken_now [OF this] body_whole]
      show ?thesis using r u nc in_fixed x True stays_handlers(2) [OF s] by (simp add: resume_then_new_def resume_body_def Let_def)
    next
      case False
      have "taken cfg app w (transcript msgs) ?u (new_requests cfg app pad seg' ?p ?u)"
        by (rule new_requests_serve [OF s pad _ x(2)]) (use in_fixed in simp_all)
      from then_nothing [where B = "body_calls b", OF this body_whole]
      show ?thesis using r u nc in_fixed x False stays_handlers(2) [OF s] by (simp add: resume_then_new_def resume_body_def Let_def)
    qed
  qed
next
  case (in_chunks P msgs)
  obtain cs left st where c: "chunks seg (remainingStreamingBytes p) False = (cs, left, st)" by (metis prod_cases3)
  from chunks_part [OF in_chunks(2,4) c] obtain P' where P: "P = concat (map (\<lambda>c. pieces (Some c)) cs) @ P'"
    and st: "st \<noteq> STATE_IS_ERROR"
    and e: "st = 0 \<and> P' = [] \<and> left @ w = concat (map wire msgs) \<or> running st \<and> left = [] \<and> decode False (mode_of st) w = (Done, P', concat (map wire msgs))"
    by blast
  let ?ds = "map (\<lambda>c. Dat c (c = [])) cs" and ?p = "p\<lparr>remainingStreamingBytes := st\<rparr>" let ?u = "fold (apply_call app) ?ds u"
  have part: "\<And>ds. chunk_calls P' ds \<Longrightarrow> chunk_calls P (?ds @ ds)" unfolding P by (rule chunk_calls_append [OF chunk_calls_are])
  have now: "resume_then_new cfg app pad seg p u = new_requests cfg app pad left ?p ?u"
    using c st in_chunks(5) running_chunked [OF in_chunks(2)]
    by (simp add: resume_then_new_def resume_body_def isParsingInvalidChunkedEncoding_def emit_calls)
  show ?thesis using e
  proof (elim disjE conjE)
    assume x: "st = 0" "P' = []" "left @ w = concat (map wire msgs)"
    have "chunk_calls P ?ds" using part [of "[]"] x(2) by (simp add: chunk_calls_def)
    moreover have "taken cfg app w (transcript msgs) ?u (new_requests cfg app pad left ?p ?u)"
      by (rule new_requests_serve [OF s pad _ x(3)]) (use in_chunks x in simp_all)
    ultimately show ?thesis unfolding now in_chunks(1) by (intro then_nothing)
  next
    assume x: "running st" "left = []" "decode False (mode_of st) w = (Done, P', concat (map wire msgs))"
    have "waits cfg ?p w (then_messages (chunk_calls P') msgs)" using x in_chunks by (intro waits.in_chunks) simp_all
    from then_goes [where B = "chunk_calls P", OF taken_now [OF this] part]
    have "taken cfg app w K u (Some (Success 0 True, ?p, ?u))" unfolding in_chunks(1) .
    then show ?thesis unfolding now x(2) by (simp add: new_requests_def fenceAndConsumePostPadded_def requests.simps)
  qed
qed


subsection \<open>A head in several segments\<close>

lemma body_announced:
  assumes s: "stays app" and g: "good_message cfg msg" and ms: "\<forall>msg \<in> set msgs. good_message cfg msg"
    and p: "\<not> isConnectRequest p" "remainingStreamingBytes p = 0"
  shows "\<exists>p' ds K. begin_body True app (framing_of (msg_body msg)) b data stop (announces (msg_body msg) p) u =
      (Inl (Success data True), p', fold (apply_call app) ds u)
    \<and> waits cfg (p'\<lparr>fallback := []\<rparr>) (body_wire (msg_body msg) @ concat (map wire msgs)) K
    \<and> (\<forall>es. K es \<longrightarrow> then_messages (body_calls (body_bytes (msg_body msg))) msgs (ds @ es))"
proof (cases "msg_body msg")
  case Without
  have "waits cfg (p\<lparr>fallback := []\<rparr>) (concat (map wire msgs)) (transcript msgs)" using p ms by (intro at_boundary) simp_all
  moreover have "then_messages (body_calls []) msgs ([Dat [] True] @ es)" if "transcript msgs es" for es
    using that by (intro then_after_body body_whole)
  ultimately show ?thesis using p(1) Without stays_handlers(2) [OF s]
    by (intro exI [of _ p] exI [of _ "[Dat [] True]"] exI [of _ "transcript msgs"])
      (simp add: framing_of_def announces_def begin_body_def body_wire_def body_bytes_def)
next
  case (With_length ds b)
  then have "b \<noteq> []" "length b < 2 ^ 32" using g by (auto simp: good_message_def well_formed_def good_body_def)
  then have "waits cfg (announces (msg_body msg) p\<lparr>fallback := []\<rparr>) (b @ concat (map wire msgs)) (then_messages (body_calls b) msgs)"
    using p ms by (intro in_fixed) (simp_all add: With_length announces_def)
  then show ?thesis using With_length
    by (intro exI [of _ "announces (msg_body msg) p"] exI [of _ "[]"] exI [of _ "then_messages (body_calls b) msgs"])
      (simp add: framing_of_def begin_body_def body_wire_def body_bytes_def)
next
  case (In_chunks v b)
  let ?p = "p\<lparr>remainingStreamingBytes := STATE_IS_CHUNKED\<rparr>" and ?K = "then_messages (chunk_calls (map Byte b @ [End])) msgs"
  have "decode False (mode_of STATE_IS_CHUNKED) (v @ concat (map wire msgs)) = (Done, map Byte b @ [End], concat (map wire msgs))"
    using g In_chunks by (simp add: good_message_def well_formed_def good_body_def chunk_encodes_def chunked_word)
  then have "waits cfg (?p\<lparr>fallback := []\<rparr>) (v @ concat (map wire msgs)) ?K"
    using p ms chunked_word(1) by (intro in_chunks) (simp_all add: running_def)
  moreover have "then_messages (body_calls b) msgs es" if "?K es" for es using that chunk_calls_body unfolding then_messages_def by blast
  ultimately show ?thesis using In_chunks
    by (intro exI [of _ ?p] exI [of _ "[]"] exI [of _ ?K]) (simp add: framing_of_def announces_def begin_body_def body_wire_def body_bytes_def)
qed

lemma head_longer:
  assumes pad': "32 \<le> length pad'" and g: "well_formed cfg msg"
    and p: "remainingStreamingBytes p = 0" "fallback p = take k (head_with msg fs)" "\<not> isConnectRequest p"
    and k: "0 < k" "k + length seg < length (head_with msg (all_fields msg))"
    and fs: "\<forall>f \<in> set fs. good_field f" "map low fs = map low (all_fields msg)"
    and seg: "seg = take (length seg) (drop k (head_with msg (all_fields msg)))"
  shows "\<exists>gs. (\<forall>f \<in> set gs. good_field f) \<and> map low gs = map low (all_fields msg) \<and> consumePostPadded cfg app pad pad' seg p u =
    Some (Success 0 True, p\<lparr>fallback := take (k + length seg) (head_with msg gs)\<rparr>, u)"
proof -
  let ?H = "head_with msg (all_fields msg)" and ?n = "k + length seg"
  have gf: "\<forall>f \<in> set (all_fields msg). good_field f" and H: "length ?H \<le> MAX_FALLBACK_SIZE cfg"
    using g by (simp_all add: well_formed_def good_head_def)
  obtain gs where gs: "take k (head_with msg fs) @ drop k ?H = head_with msg gs" "\<forall>f \<in> set gs. good_field f" "map low gs = map low (all_fields msg)"
    using mix_heads [OF gf fs] by blast
  note sl = same_low [OF gs(3)] and lfs = same_low(3) [OF fs(2), of msg]
  have had: "length (fallback p) = k" using p(2) k(2) lfs by simp
  have m: "take (min (MAX_FALLBACK_SIZE cfg - k) (length seg)) seg = seg" using H k(2) by simp
  define fb where "fb = fallback p @ seg"
  have lfb: "length fb = ?n" using had by (simp add: fb_def)
  have ne: "remainingStreamingBytes p = 0 \<and> fallback p \<noteq> []" using p(1) had k(1) by auto
  have "fb = take ?n (take k (head_with msg fs) @ drop k ?H)" using k lfs seg by (simp add: fb_def p(2))
  then have fb: "fb = take ?n (head_with msg gs)" unfolding gs(1) .
  obtain post where f: "fence fb pad' = fb @ 13 # 97 # post" "30 \<le> length post" using fence_form [OF pad'] by metis
  obtain fs' where fs': "\<forall>f \<in> set fs'. good_field f" "map low fs' = map low (all_fields msg)"
    and x: "requests True cfg app (length ([] :: u8 list)) (length ([] :: u8 list) + ?n) ([] @ take ?n (head_with msg gs) @ 13 # 97 # post) False
      (p\<lparr>fallback := fb\<rparr>) u = Some (Success (length ([] :: u8 list)) True, [] @ take ?n (head_with msg fs') @ 13 # 97 # post, p\<lparr>fallback := fb\<rparr>, u)"
    using cut_head [OF g _ gs(2,3) _ k(2) f(2), of "p\<lparr>fallback := fb\<rparr>" True app "[]" u] p(3) k(1) by auto
  have x: "requests True cfg app 0 (length fb) (fence fb pad') False (p\<lparr>fallback := fb\<rparr>) u =
      Some (Success 0 True, take ?n (head_with msg fs') @ 13 # 97 # post, p\<lparr>fallback := fb\<rparr>, u)"
    using x unfolding f(1) lfb fb [symmetric] by simp
  have l': "length (head_with msg fs') = length ?H" by (rule same_low(3) [OF fs'(2)])
  have tk: "take (length fb) (take ?n (head_with msg fs') @ 13 # 97 # post) = take ?n (head_with msg fs')"
    using l' k(2) lfb by simp
  have "consumePostPadded cfg app pad pad' seg p u = Some (Success 0 True, p\<lparr>fallback := take ?n (head_with msg fs')\<rparr>, u)"
    unfolding consumePostPadded_def if_P [OF ne] had Let_def m fb_def [symmetric] fenceAndConsumePostPadded_def x
    using tk l' k(2) H by simp
  with fs' show ?thesis by blast
qed

lemma head_completed:
  assumes pad': "32 \<le> length pad'" and g: "well_formed cfg msg" and s: "stays app"
    and p: "remainingStreamingBytes p = 0" "fallback p = take k (head_with msg fs)" "\<not> isConnectRequest p"
    and k: "0 < k" "k < length (head_with msg (all_fields msg))"
    and fs: "\<forall>f \<in> set fs. good_field f" "map low fs = map low (all_fields msg)"
    and sg: "seg = drop k (head_with msg (all_fields msg)) @ seg'"
  obtains r b n stop fb where "request_ok msg r"
    "\<And>p' u'. begin_body True app (framing_of (msg_body msg)) b n stop (announces (msg_body msg) (p\<lparr>fallback := fb\<rparr>)) (apply_call app (Req r) u) =
        (Inl (Success n True), p', u') \<Longrightarrow>
      consumePostPadded cfg app pad pad' seg p u = resume_then_new cfg app pad seg' (p'\<lparr>fallback := []\<rparr>) u'"
proof -
  let ?H = "head_with msg (all_fields msg)"
  let ?n = "length ?H"
  have gf: "\<forall>f \<in> set (all_fields msg). good_field f" and H: "length ?H \<le> MAX_FALLBACK_SIZE cfg"
    using g by (simp_all add: well_formed_def good_head_def)
  obtain gs where gs: "take k (head_with msg fs) @ drop k ?H = head_with msg gs" "\<forall>f \<in> set gs. good_field f" "map low gs = map low (all_fields msg)"
    using mix_heads [OF gf fs] by blast
  note sl = same_low [OF gs(3)] and lfs = same_low(3) [OF fs(2), of msg]
  have had: "length (fallback p) = k" using p(2) k(2) lfs by simp
  define j where "j = min (MAX_FALLBACK_SIZE cfg - k) (length seg)"
  define fb where "fb = fallback p @ take j seg"
  have ne: "remainingStreamingBytes p = 0 \<and> fallback p \<noteq> []" using p(1) had k(1) by auto
  obtain post where f: "fence fb pad' = fb @ 13 # 97 # post" "30 \<le> length post" using fence_form [OF pad'] by metis
  have "?n - k \<le> j" using H sg unfolding j_def by simp
  then have "take j seg = drop k ?H @ take (j - (?n - k)) seg'" by (simp add: sg)
  then have fb: "fb = head_with msg gs @ take (j - (?n - k)) seg'" unfolding fb_def p(2) gs(1) [symmetric] by simp
  let ?p = "p\<lparr>fallback := fb\<rparr>" and ?post = "take (j - (?n - k)) seg' @ 13 # 97 # post"
  have l: "length [] + length (head_with msg gs) \<le> length fb" "8 \<le> length ?post" "\<not> isConnectRequest ?p"
    using f(2) p(3) by (simp_all add: fb)
  have e: "head_with msg gs @ ?post = fence fb pad'" "length (head_with msg gs) = ?n" using f(1) fb sl(3) by simp_all
  obtain r where r: "request_ok msg r"
    and x: "requests True cfg app 0 (length fb) (fence fb pad') False ?p u =
      (let (next, p, u) = begin_body True app (framing_of (msg_body msg)) (head_with msg (map low gs) @ ?post) ?n (length fb)
           (announces (msg_body msg) ?p) (apply_call app (Req r) u) in
       case next of Inl r \<Rightarrow> Some (r, head_with msg (map low gs) @ ?post, p, u)
       | Inr data \<Rightarrow> requests True cfg app data (length fb) (head_with msg (map low gs) @ ?post) False p u)"
    using after_head [OF g s l(3) gs(2,3) l(1,2), of True u] unfolding append_Nil list.size(3) add_0 e by blast
  have dr: "drop (?n - k) seg = seg'" "?H \<noteq> []" using k by (auto simp: sg)
  have "consumePostPadded cfg app pad pad' seg p u = resume_then_new cfg app pad seg' (p'\<lparr>fallback := []\<rparr>) u'"
    if b: "begin_body True app (framing_of (msg_body msg)) (head_with msg (map low gs) @ ?post) ?n (length fb)
        (announces (msg_body msg) ?p) (apply_call app (Req r) u) = (Inl (Success ?n True), p', u')" for p' u'
    unfolding consumePostPadded_def if_P [OF ne] had Let_def j_def [symmetric] fb_def [symmetric] fenceAndConsumePostPadded_def x b
    using k dr by simp
  with r that show ?thesis by blast
qed

lemma head_goes_on:
  assumes s: "stays app" and pad: "32 \<le> length pad" "32 \<le> length pad'"
    and p: "remainingStreamingBytes p = 0" "fallback p = take k (head_with msg fs)" "\<not> isConnectRequest p"
    and k: "0 < k" "k < length (head_with msg (all_fields msg))"
    and fs: "\<forall>f \<in> set fs. good_field f" "map low fs = map low (all_fields msg)"
    and ms: "\<forall>msg \<in> set (msg # msgs). good_message cfg msg"
    and w: "seg @ w = drop k (head_with msg (all_fields msg)) @ body_wire (msg_body msg) @ concat (map wire msgs)"
  shows "taken cfg app w (transcript (msg # msgs)) u (consumePostPadded cfg app pad pad' seg p u)"
proof -
  let ?H = "head_with msg (all_fields msg)"
  have g: "good_message cfg msg" and rest: "\<forall>msg \<in> set msgs. good_message cfg msg" using ms by simp_all
  then have wf: "well_formed cfg msg" by (simp add: good_message_def)
  show ?thesis
  proof (cases "k + length seg < length ?H")
    case True
    have "seg = take (length seg) (drop k ?H)" using arg_cong [OF w, of "take (length seg)"] True by simp
    from head_longer [where pad = pad and app = app and u = u, OF pad(2) wf p k(1) True fs this] obtain gs where gs: "\<forall>f \<in> set gs. good_field f" "map low gs = map low (all_fields msg)"
      and x: "consumePostPadded cfg app pad pad' seg p u = Some (Success 0 True, p\<lparr>fallback := take (k + length seg) (head_with msg gs)\<rparr>, u)"
      by blast
    have "w = drop (length seg) (seg @ w)" by simp
    also have "\<dots> = drop (length seg) (drop k ?H) @ body_wire (msg_body msg) @ concat (map wire msgs)" unfolding w using True by simp
    finally have ww: "w = drop (k + length seg) ?H @ body_wire (msg_body msg) @ concat (map wire msgs)"
      unfolding drop_drop add.commute [of k] .
    have "length (head_with msg gs) = length ?H" by (rule same_low(3) [OF gs(2)])
    then have "waits cfg (p\<lparr>fallback := take (k + length seg) (head_with msg gs)\<rparr>) w (transcript (msg # msgs))"
      unfolding ww using p(1,3) k(1) True gs ms by (intro in_head [where fs = gs]) simp_all
    then show ?thesis unfolding x by (rule taken_now)
  next
    case False
    then have "length (drop k ?H) \<le> length seg" by simp
    with w obtain seg' where sg: "seg = drop k ?H @ seg'" "seg' @ w = body_wire (msg_body msg) @ concat (map wire msgs)"
      using longer_prefix by blast
    obtain r b n stop fb where r: "request_ok msg r" and x: "\<And>p' u'. begin_body True app (framing_of (msg_body msg)) b n stop
          (announces (msg_body msg) (p\<lparr>fallback := fb\<rparr>)) (apply_call app (Req r) u) = (Inl (Success n True), p', u') \<Longrightarrow>
        consumePostPadded cfg app pad pad' seg p u = resume_then_new cfg app pad seg' (p'\<lparr>fallback := []\<rparr>) u'"
      using head_completed [OF pad(2) wf s p k fs sg(1)] by metis
    from body_announced [OF s g rest, of "p\<lparr>fallback := fb\<rparr>" b n stop "apply_call app (Req r) u"] p(1,3)
    obtain p' ds K where b: "begin_body True app (framing_of (msg_body msg)) b n stop (announces (msg_body msg) (p\<lparr>fallback := fb\<rparr>))
          (apply_call app (Req r) u) = (Inl (Success n True), p', fold (apply_call app) (Req r # ds) u)"
      and wt: "waits cfg (p'\<lparr>fallback := []\<rparr>) (seg' @ w) K"
      and K: "\<And>es. K es \<Longrightarrow> then_messages (body_calls (body_bytes (msg_body msg))) msgs (ds @ es)"
      unfolding sg(2) by auto
    have tk: "taken cfg app w K (fold (apply_call app) (Req r # ds) u)
        (resume_then_new cfg app pad seg' (p'\<lparr>fallback := []\<rparr>) (fold (apply_call app) (Req r # ds) u))"
      by (rule resumed_serves [OF s pad(1) wt]) simp
    have "transcript (msg # msgs) ((Req r # ds) @ es)" if "K es" for es using first_message [OF r K [OF that]] by simp
    from taken_after [where K = "transcript (msg # msgs)", OF tk this] show ?thesis unfolding x [OF b] .
  qed
qed

lemma segment_taken:
  assumes s: "stays app" and pad: "32 \<le> length pad" "32 \<le> length pad'" and w: "waits cfg p (seg @ w) K"
  shows "taken cfg app w K u (consumePostPadded cfg app pad pad' seg p u)"
proof (cases "fallback p = []")
  case True
  from resumed_serves [OF s pad(1) w this] True show ?thesis by (simp add: consumePostPadded_def)
next
  case False
  from w False show ?thesis
  proof cases
    case (in_head k msg fs msgs)
    have "k < length (head_with msg (all_fields msg))" using in_head(6) same_low(3) [OF in_head(8), of msg] by simp
    from head_goes_on [OF s pad in_head(3,4,9,5) this in_head(7,8,10,1)] show ?thesis unfolding in_head(2) .
  qed simp_all
qed


subsection \<open>A connection\<close>

text \<open>The segments of a connection one after the other, each with what lies after it and after \<open>fallback\<close>.\<close>

fun deliver_all :: "http_config \<Rightarrow> 'u http_app \<Rightarrow> (u8 list \<times> u8 list \<times> u8 list) list \<Rightarrow> http_parser \<Rightarrow> 'u \<Rightarrow> (http_parser \<times> 'u) option" where
  "deliver_all cfg app [] p u = Some (p, u)"
| "deliver_all cfg app ((pad, pad', seg) # segs) p u = (case consumePostPadded cfg app pad pad' seg p u of
     Some (Success 0 True, p, u) \<Rightarrow> deliver_all cfg app segs p u
   | _ \<Rightarrow> None)"

definition parser_idle :: "http_parser \<Rightarrow> bool" where
  "parser_idle p \<longleftrightarrow> remainingStreamingBytes p = 0 \<and> fallback p = [] \<and> \<not> isConnectRequest p"

lemma waits_end: "waits cfg p [] K \<Longrightarrow> parser_idle p \<and> K []"
proof (erule waits.cases, goal_cases)
  case (1 p msgs)
  have "wire msg \<noteq> []" for msg by (simp add: wire_def head_with_def http_head_def)
  then have "msgs = []" using 1 by (cases msgs) auto
  then show ?case using 1 transcript_Nil by (auto simp: parser_idle_def)
next
  case (2 p k msg fs msgs)
  then have "k < length (head_with msg (all_fields msg))" using same_low(3) [of fs "all_fields msg" msg] by simp
  then show ?case using 2 by simp
next
  case (4 p w P msgs)
  then have "mode_of (remainingStreamingBytes p) = Done" by simp
  then have "\<not> running (remainingStreamingBytes p)" using mode_line(1) mode_chunk(1) by (auto simp: running_def split: if_splits)
  then show ?case using 4 by simp
qed simp

lemma delivered:
  assumes "stays app" "\<forall>(pad, pad', seg) \<in> set segs. 32 \<le> length pad \<and> 32 \<le> length pad'"
    and "waits cfg p (concat (map (\<lambda>(pad, pad', seg). seg) segs)) K"
  shows "\<exists>p' cs. deliver_all cfg app segs p u = Some (p', fold (apply_call app) cs u) \<and> K cs \<and> parser_idle p'"
  using assms(2,3)
proof (induction segs arbitrary: p K u)
  case Nil
  then have "waits cfg p [] K" by simp
  then have "parser_idle p \<and> K []" by (rule waits_end)
  then show ?case by (intro exI [of _ p] exI [of _ "[]"]) simp
next
  case (Cons x segs)
  obtain pad pad' seg where x: "x = (pad, pad', seg)" by (metis prod_cases3)
  have "taken cfg app (concat (map (\<lambda>(pad, pad', seg). seg) segs)) K u (consumePostPadded cfg app pad pad' seg p u)"
    by (rule segment_taken [OF assms(1)]) (use Cons.prems x in simp_all)
  then obtain p' K' cs where c: "consumePostPadded cfg app pad pad' seg p u = Some (Success 0 True, p', fold (apply_call app) cs u)"
    and w: "waits cfg p' (concat (map (\<lambda>(pad, pad', seg). seg) segs)) K'" and K: "\<And>es. K' es \<Longrightarrow> K (cs @ es)"
    unfolding taken_def goes_on_def by blast
  from Cons.IH [OF _ w, of "fold (apply_call app) cs u"] Cons.prems(1) obtain p'' es where
    "deliver_all cfg app segs p' (fold (apply_call app) cs u) = Some (p'', fold (apply_call app) es (fold (apply_call app) cs u))" "K' es" "parser_idle p''"
    by auto
  with c K x show ?case by (intro exI [of _ p''] exI [of _ "cs @ es"]) simp
qed



subsection \<open>An example\<close>

definition strict :: http_config where
  "strict = \<lparr>maxHeaderSize = 16384, requireHostHeader = True, useStrictMethodValidation = False, MAX_FALLBACK_SIZE = 16384,
     known_method = (\<lambda>m. True)\<rparr>"

definition recorder :: "http_call list http_app" where
  "recorder = \<lparr>requestHandler = (\<lambda>r u. (True, u @ [Req r])), dataHandler = (\<lambda>d fin u. (True, u @ [Dat d fin]))\<rparr>"

definition at_rest :: http_parser where "at_rest = \<lparr>fallback = [], remainingStreamingBytes = 0, isConnectRequest = False\<rparr>"

definition padding :: "u8 list" where "padding = replicate 32 0"

definition POST_with :: "body_sent \<Rightarrow> http_message" where
  "POST_with s = \<lparr>msg_method = [80, 79, 83, 84], msg_target = [47], msg_fields = [(n_host, [97])], msg_body = s\<rparr>"

lemma recorder_stays: "stays recorder"
  by (simp add: stays_def recorder_def)

lemma apply_recorder: "apply_call recorder c u = u @ [c]"
  by (simp add: apply_call_def recorder_def split: http_call.split)

lemma idle_at_rest: "parser_idle at_rest"
  by (simp add: parser_idle_def at_rest_def)

lemma names_good: "c \<in> set n_host \<Longrightarrow> isname c" "c \<in> set n_content_length \<Longrightarrow> isname c" "c \<in> set n_transfer_encoding \<Longrightarrow> isname c"
  by (auto simp: n_host_def n_content_length_def n_transfer_encoding_def isname_def isFieldNameByteFastLowercased_def)

lemma framing_good:
  assumes "\<forall>f \<in> set (framing_field s). \<forall>c \<in> set (snd f). 31 < c"
  shows "f \<in> set (framing_field s) \<Longrightarrow> good_field f"
  using assms names_good by (cases s) (auto simp: framing_field_def good_field_def)

lemma POST_well_formed:
  assumes "\<forall>f \<in> set (framing_field s). length (fst f) + length (snd f) \<le> 1000 \<and> (\<forall>c \<in> set (snd f). 31 < c)" "good_body s"
  shows "well_formed strict (POST_with s)"
proof -
  have "\<forall>f \<in> set (framing_field s). good_field f" using framing_good assms(1) by blast
  then have g: "\<forall>f \<in> set (all_fields (POST_with s)). good_field f" using names_good(1)
    by (simp add: all_fields_def POST_with_def ball_Un) (simp add: good_field_def)
  have "length (framing_field s) \<le> 1" by (cases s) (simp_all add: framing_field_def)
  moreover have "length (field_lines (framing_field s)) \<le> 1003" using assms(1) by (cases s) (auto simp: framing_field_def)
  ultimately show ?thesis using g assms(2) unfolding well_formed_def head_with_def http_head_length line_length size_ok_def
    by (auto simp: all_fields_def POST_with_def strict_def good_head_def good_line_def isValidMethodChar_def isValidMethod_def
        CONNECT_def UWS_HTTP_MAX_HEADERS_COUNT_def field_lines_def n_host_def n_content_length_def n_transfer_encoding_def lower_def)
qed


end
