(* ===== verification/Uws_Http_Faults.thy ===== *)
theory Uws_Http_Faults imports
  Uws_Http_Serve
begin

section \<open>Where the parser of requests goes wrong\<close>

subsection \<open>A body of length 0\<close>

lemma deliver_one: "consumePostPadded cfg app pad pad' seg p u = Some (Success 0 True, p', u') \<Longrightarrow>
    deliver_all cfg app ((pad, pad', seg) # segs) p u = deliver_all cfg app segs p' u'"
  by simp

lemma idle_update: "parser_idle p \<Longrightarrow> p\<lparr>remainingStreamingBytes := 0\<rparr> = p \<and> p\<lparr>fallback := []\<rparr> = p"
  by (cases p) (simp add: parser_idle_def)

lemma empty_body_in_one:
  assumes s: "stays app" and g: "well_formed cfg msg" "msg_body msg = With_length ds []" and p: "parser_idle p" and pad: "32 \<le> length pad"
  shows "\<exists>r. request_ok msg r \<and> consumePostPadded cfg app pad pad' (wire msg) p u =
    Some (Success 0 True, p, fold (apply_call app) [Req r, Dat [] True] u)"
proof -
  let ?H = "head_with msg (all_fields msg)"
  have c: "\<not> isConnectRequest p" "remainingStreamingBytes p = 0" "fallback p = []" using p by (simp_all add: parser_idle_def)
  have w: "wire msg = ?H" by (simp add: wire_def g(2) body_wire_def)
  have gf: "\<forall>f \<in> set (all_fields msg). good_field f" using g by (simp add: well_formed_def good_head_def)
  obtain post where f: "fence ?H pad = ?H @ 13 # 97 # post" "30 \<le> length post" using fence_form [OF pad] by metis
  let ?b = "head_with msg (map low (all_fields msg)) @ 13 # 97 # post"
  have l: "length ([] :: u8 list) + length ?H \<le> length ?H" "8 \<le> length (13 # 97 # post)" using f(2) by simp_all
  obtain r where r: "request_ok msg r" and x: "requests False cfg app 0 (length ?H) (fence ?H pad) False p u =
      (let (next, p, u) = begin_body False app (framing_of (msg_body msg)) ?b (length ?H) (length ?H) (announces (msg_body msg) p)
           (apply_call app (Req r) u) in
       case next of Inl r \<Rightarrow> Some (r, ?b, p, u) | Inr data \<Rightarrow> requests False cfg app data (length ?H) ?b False p u)"
    using after_head [OF g(1) s c(1) gf refl l, of False u] unfolding append_Nil list.size(3) add_0 f(1) by blast
  have "begin_body False app (framing_of (msg_body msg)) ?b (length ?H) (length ?H) (announces (msg_body msg) p) (apply_call app (Req r) u) =
      (Inr (length ?H), p, fold (apply_call app) [Req r, Dat [] True] u)"
    using idle_update [OF p] stays_handlers(2) [OF s] by (simp add: g(2) framing_of_def announces_def begin_body_def piece_of_def)
  then have "requests False cfg app 0 (length ?H) (fence ?H pad) False p u =
      Some (Success (length ?H) True, ?b, p, fold (apply_call app) [Req r, Dat [] True] u)"
    unfolding x by (simp add: requests.simps)
  then have "consumePostPadded cfg app pad pad' (wire msg) p u = Some (Success 0 True, p, fold (apply_call app) [Req r, Dat [] True] u)"
    unfolding w using c by (simp add: consumePostPadded_def resume_then_new_def new_requests_def fenceAndConsumePostPadded_def)
  with r show ?thesis by blast
qed

lemma empty_body_in_two:
  assumes s: "stays app" and g: "well_formed cfg msg" "msg_body msg = With_length ds []" and p: "parser_idle p"
    and pad: "32 \<le> length pad1" "32 \<le> length pad2" "32 \<le> length pad'" and k: "0 < k" "k < length (wire msg)"
  shows "\<exists>r. request_ok msg r \<and> deliver_all cfg app [(pad1, pad', take k (wire msg)), (pad2, pad', drop k (wire msg))] p u =
    Some (p, fold (apply_call app) [Req r] u)"
proof -
  let ?H = "head_with msg (all_fields msg)"
  have c: "\<not> isConnectRequest p" "remainingStreamingBytes p = 0" "fallback p = []" using p by (simp_all add: parser_idle_def)
  have w: "wire msg = ?H" by (simp add: wire_def g(2) body_wire_def)
  have k': "k < length ?H" using k(2) w by simp
  have gf: "\<forall>f \<in> set (all_fields msg). good_field f" and H: "length ?H \<le> MAX_FALLBACK_SIZE cfg"
    using g by (simp_all add: well_formed_def good_head_def)
  obtain post where f: "fence (take k ?H) pad1 = take k ?H @ 13 # 97 # post" "30 \<le> length post" using fence_form [OF pad(1)] by metis
  obtain gs where gs: "\<forall>f \<in> set gs. good_field f" "map low gs = map low (all_fields msg)"
    and x: "requests False cfg app (length ([] :: u8 list)) (length ([] :: u8 list) + k) ([] @ take k ?H @ 13 # 97 # post) False p u =
      Some (Success (length ([] :: u8 list)) True, [] @ take k (head_with msg gs) @ 13 # 97 # post, p, u)"
    using cut_head [OF g(1) c(1) gf refl k(1) k' f(2), of False app "[]" u] by blast
  have l: "length (head_with msg gs) = length ?H" by (rule same_low(3) [OF gs(2)])
  let ?p = "p\<lparr>fallback := take k (head_with msg gs)\<rparr>"
  have one: "consumePostPadded cfg app pad1 pad' (take k (wire msg)) p u = Some (Success 0 True, ?p, u)"
    using x f k(1) k' l c H unfolding w
    by (simp add: consumePostPadded_def resume_then_new_def new_requests_def fenceAndConsumePostPadded_def)
  have d: "drop k ?H = drop k ?H @ []" by simp
  have p1: "remainingStreamingBytes ?p = 0" "fallback ?p = take k (head_with msg gs)" "\<not> isConnectRequest ?p" using c by simp_all
  obtain r b n stop fb where r: "request_ok msg r"
    and y: "\<And>p' u'. begin_body True app (framing_of (msg_body msg)) b n stop (announces (msg_body msg) (?p\<lparr>fallback := fb\<rparr>)) (apply_call app (Req r) u) =
        (Inl (Success n True), p', u') \<Longrightarrow>
      consumePostPadded cfg app pad2 pad' (drop k ?H) ?p u = resume_then_new cfg app pad2 [] (p'\<lparr>fallback := []\<rparr>) u'"
    using head_completed [where pad = pad2 and u = u, OF pad(3) g(1) s p1 k(1) k' gs d] by metis
  have "begin_body True app (framing_of (msg_body msg)) b n stop (announces (msg_body msg) (?p\<lparr>fallback := fb\<rparr>)) (apply_call app (Req r) u) =
      (Inl (Success n True), p\<lparr>fallback := fb, remainingStreamingBytes := 0\<rparr>, apply_call app (Req r) u)"
    by (simp add: g(2) framing_of_def announces_def begin_body_def)
  from y [OF this] have two: "consumePostPadded cfg app pad2 pad' (drop k (wire msg)) ?p u = Some (Success 0 True, p, fold (apply_call app) [Req r] u)"
    using idle_update [OF p] c unfolding w
    by (simp add: resume_then_new_def new_requests_def fenceAndConsumePostPadded_def requests.simps)
  show ?thesis using r by (intro exI [of _ r]) (simp add: one two)
qed

text \<open>
  C40: The end of an empty body is lost. A request with \<open>Content-Length: 0\<close> that arrives in one segment is reported with the end of its
  body, as every request is. When any cut lies inside its head, it is reported too, but the data handler is never called for it.
\<close>

theorem empty_body_end_lost:
  assumes "stays app" "well_formed cfg msg" "msg_body msg = With_length ds []" "parser_idle p"
    and "32 \<le> length pad1" "32 \<le> length pad2" "32 \<le> length pad'" "0 < k" "k < length (wire msg)"
  shows "(\<exists>r. request_ok msg r \<and> deliver_all cfg app [(pad1, pad', wire msg)] p u = Some (p, fold (apply_call app) [Req r, Dat [] True] u))
    \<and> (\<exists>r. request_ok msg r \<and> deliver_all cfg app [(pad1, pad', take k (wire msg)), (pad2, pad', drop k (wire msg))] p u =
      Some (p, fold (apply_call app) [Req r] u))"
proof
  from empty_body_in_one [OF assms(1-5), of pad' u] show "\<exists>r. request_ok msg r \<and> deliver_all cfg app [(pad1, pad', wire msg)] p u =
    Some (p, fold (apply_call app) [Req r, Dat [] True] u)" using deliver_one by fastforce
  show "\<exists>r. request_ok msg r \<and> deliver_all cfg app [(pad1, pad', take k (wire msg)), (pad2, pad', drop k (wire msg))] p u =
    Some (p, fold (apply_call app) [Req r] u)" by (rule empty_body_in_two [OF assms])
qed

theorem empty_body_end_lost_witness:
  "\<exists>r r'. deliver_all strict recorder [(padding, padding, wire (POST_with (With_length [48] [])))] at_rest [] = Some (at_rest, [Req r, Dat [] True])
    \<and> deliver_all strict recorder [(padding, padding, take 7 (wire (POST_with (With_length [48] [])))),
        (padding, padding, drop 7 (wire (POST_with (With_length [48] []))))] at_rest [] = Some (at_rest, [Req r'])"
proof -
  have "well_formed strict (POST_with (With_length [48] []))" by (rule POST_well_formed) (simp_all add: framing_field_def n_content_length_def good_body_def decimal_value_def)
  moreover have "7 < length (wire (POST_with (With_length [48] [])))"
    by (simp add: wire_def head_with_def http_head_length line_length POST_with_def)
  ultimately show ?thesis
    using empty_body_end_lost [OF recorder_stays _ _ idle_at_rest, of strict "POST_with (With_length [48] [])" "[48]" padding padding padding 7 "[]"]
    by (auto simp: padding_def POST_with_def apply_recorder)
qed

subsection \<open>A header without a name\<close>

text \<open>
  C38: A header without a name hides the ones after it. A field that begins with the colon is accepted, and so is the whole head; but
  every look at the headers stops there: what the request is taken to be (a missing host, the length of its body, its encoding) and what a
  handler finds under any name is what it would be if the fields after it had not been sent, whatever they are.
\<close>

theorem empty_name_hides_headers:
  assumes "good_head cfg m t (fs @ ([], v) # gs)" "size_ok cfg (length (http_head m t (fs @ ([], v) # gs)))"
    and "length (http_head m t (fs @ ([], v) # gs)) \<le> stop" "8 \<le> length post"
  shows "\<exists>hs b'. getHeaders cfg (http_head m t (fs @ ([], v) # gs) @ post) 0 stop ancient con =
      Some (Success (length (http_head m t (fs @ ([], v) # gs))) False, hs, b', ancient, con)
    \<and> check_headers cfg ancient hs = check_headers cfg ancient ((m, t) # map read_field fs)
    \<and> (\<forall>rest key. getHeader (request_of hs ancient rest) key = getHeader (request_of ((m, t) # map read_field fs) ancient rest) key)"
proof -
  let ?hs = "(m, t) # map read_field (fs @ ([], v) # gs)" and ?hs' = "(m, t) # map read_field fs"
  have "getHeaders cfg (http_head m t (fs @ ([], v) # gs) @ post) 0 stop ancient con =
      Some (Success (length (http_head m t (fs @ ([], v) # gs))) False, ?hs, http_head m t (map low (fs @ ([], v) # gs)) @ post, ancient, con)"
    using head_done [of cfg m t _ "[]" stop post ancient con] assms by simp
  moreover have v: "visible ?hs = visible ?hs'"
    by (induction fs) (simp_all add: visible_def read_field_def)
  then have "check_headers cfg ancient ?hs = check_headers cfg ancient ?hs'"
    by (simp only: check_headers_def filter_of_def find_header_def contentLengthString_def getTransferEncoding_def)
  moreover have "getHeader (request_of ?hs ancient rest) key = getHeader (request_of ?hs' ancient rest) key" for rest key
    using v by (simp add: getHeader_def request_of_def find_header_def filter_of_def)
  ultimately show ?thesis by blast
qed

theorem empty_name_hides_headers_witness:
  "\<exists>hs b'. getHeaders strict (http_head [80, 85, 84] [47] ([(n_host, [97])] @ ([], []) # [(n_content_length, [51])]) @ padding) 0 100 False False =
      Some (Success (length (http_head [80, 85, 84] [47] ([(n_host, [97])] @ ([], []) # [(n_content_length, [51])]))) False, hs, b', False, False)
    \<and> check_headers strict False hs = check_headers strict False [([80, 85, 84], [47]), read_field (n_host, [97])]"
proof -
  have "good_head strict [80, 85, 84] [47] ([(n_host, [97])] @ ([], []) # [(n_content_length, [51])])"
    by (simp add: good_head_def good_line_def isValidMethodChar_def isValidMethod_def strict_def CONNECT_def good_field_def names_good
        UWS_HTTP_MAX_HEADERS_COUNT_def)
  from empty_name_hides_headers [OF this, of 100 padding False False] show ?thesis
    by (auto simp: http_head_length line_length field_lines_def n_host_def n_content_length_def size_ok_def strict_def padding_def)
qed

subsection \<open>A segment that ends after CONNECT\<close>

lemma target_overreads:
  "\<forall>i. data \<le> i \<and> i < length b \<longrightarrow> 32 < b ! i \<Longrightarrow> size_ok cfg (length b - beg) \<Longrightarrow> consumeTarget cfg b beg data stop con = None"
proof (induction cfg b beg data stop con rule: consumeTarget.induct)
  case (1 cfg b beg data stop con)
  show ?case
  proof (cases "data + 8 \<le> length b")
    case False
    then show ?thesis by (subst consumeTarget.simps) (simp add: rd_word_def)
  next
    case l: True
    then have rd: "rd_word b data = Some (packed (take 8 (drop data b)))" by (simp add: rd_word_def)
    have s: "\<not> too_large cfg (data - beg)" using 1(3) l by (auto simp: too_large_def size_ok_def)
    have "hasLess (packed (take 8 (drop data b))) 33 = 0"
      using word_has_less [OF l, of 33, simplified] 1(2) l by (auto simp: byte_below)
    with 1(1) [OF rd s] 1(2,3) rd s show ?thesis by (subst consumeTarget.simps) simp
  qed
qed



end
