(* ===== verification/Spec2Isabelle.thy ===== *)
theory Spec2Isabelle imports
  Us_Closing
  Us_Sweeping
  Us_Ready
  Us_Output
  Us_Parking
  Us_Reclaim
  Us_Descriptors
  Us_Names
  Us_Datagrams
  Us_Serving
  Us_Reparking
  Us_Naming
  Uws_Chunking
  Uws_Buffering
  Uws_Sessions
  Uws_Sending
  Uws_Bounds
  Uws_Lifetime
  Uws_Http_Faults
begin

text \<open>
  A verification development for the network layer of the repository: the socket and event loop library
  \<open>packages/bun-usockets/src\<close> (C, some C++), and what the upper layer \<open>packages/bun-uws/src\<close> (C++
  templates) builds on it to read requests of HTTP, with bodies in chunked encoding, and to speak the WebSocket protocol. Theories \<open>Us_\<close> are about the
  first, theories \<open>Uws_\<close> about the second. Definitions keep the names of the source.

  \<^bold>\<open>The program.\<close>
  One loop waits in epoll or kqueue for the descriptors of its polls. A poll belongs to a socket, a listening socket, a
  datagram socket or an internal callback (timers, the wakeup). A wait fills an array of ready events, which are dispatched one
  after the other: a ready socket is read, with TLS through the session of BoringSSL, and its group's callbacks are called. A
  callback is code of the application and may call any operation of the library, on this or another socket: close it,
  write to it, move it to another group. Therefore closed sockets stay allocated until the end of the iteration, stopping a
  poll clears its event in the array, and the walks of the timeout sweep hold iterators in the loop and the group that
  unlinking moves on. Sockets of a group are on one intrusive list; sockets whose handshake must wait, as the loop
  has spent its budget for this iteration, are parked on another; connecting sockets wait for the resolver and then race candidate
  descriptors.

  Above, a socket of uWebSockets has a buffer for what the system did not take and may borrow one of two cork buffers of its
  loop. The parser of requests works in place on what was received, keeps a head that is not complete for the next segment and hands a
  body on in pieces. A WebSocket connection parses frames in place in the loop's receive buffer, hands messages to the application,
  whose handlers may send, end or close in turn, and assembles frames in whatever buffer the bytes will leave from.

  \<^bold>\<open>The state.\<close>
  \<open>Us_State\<close> has the structures of \<open>internal/internal.h\<close>, \<open>internal/loop_data.h\<close>,
  \<open>internal/eventing/epoll_kqueue.h\<close> and \<open>libusockets.h\<close> as records, bit fields at their width. A \<open>world\<close> maps addresses
  to them, with the loop, and \<open>heap_tag\<close> says what is allocated: pointers and aliasing are explicit. Outside
  of the program are the kernel, the resolver and BoringSSL: \<open>kern\<close> holds a script of their answers, which is arbitrary, and the trace of
  the calls and of the events dispatched so far. A call into BoringSSL also lists the operations on its BIO that it makes before it answers.
  The application is a \<open>handler\<close>, a function from the event and the world. Operations
  pass the world explicitly; a loop whose end depends on the application or on the shape of a pointer structure is a
  \<open>partial_function\<close> where None is not returning (or stopping at a null pointer), and it is a
  theorem, not an assumption, that it returns.

  \<^bold>\<open>The library below, theory by theory.\<close>
  \<^item> \<open>Us_Prelude\<close>: C types, pointers, and the locale \<open>intrusive_dlist\<close>: what linking and unlinking do to the two
    fields of the nodes, refined to lists. \<open>Us_Invariant\<close> interprets it for the four kinds of lists of the code.
  \<^item> \<open>Us_Bsd\<close> (\<open>bsd.c\<close>, Linux): wrappers of system calls. \<open>Us_Descriptors\<close> shows from the history of calls which
    descriptors stay open, \<open>Us_Names\<close> what addresses and options become.
  \<^item> \<open>Us_Poll\<close>, \<open>Us_Kqueue\<close> (\<open>eventing/epoll_kqueue.c\<close>): polls, timers, wakeups, the array of ready events; the change lists and
    the merging of events of kqueue. \<open>Us_Ready\<close>: their properties.
  \<^item> \<open>Us_Group\<close>, \<open>Us_Timeout\<close>, \<open>Us_Loop\<close>, \<open>Us_Dispatch\<close> (\<open>context.c\<close>, \<open>loop.c\<close>): lists of groups and sockets, clocks and the sweep, parked
    sockets, answers of the resolver, freeing, dispatching, running. \<open>Us_Sweeping\<close>, \<open>Us_Parking\<close>, \<open>Us_Reclaim\<close>,
    \<open>Us_Reparking\<close>: when timeouts fire, what parking does, that exactly the closed is freed, and how parking twice destroys
    the lists.
  \<^item> \<open>Us_Close\<close>, \<open>Us_Tls\<close> (\<open>socket.c\<close>, \<open>crypto/openssl.c\<close>): closing through the TLS layer; handshake, reading, writing and the end of
    TLS sockets. \<open>Us_Socket\<close>, \<open>Us_Connect\<close>, \<open>Us_Listen\<close>, \<open>Us_Udp\<close> (\<open>socket.c\<close>, \<open>context.c\<close>, \<open>udp.c\<close>): the public operations.
  \<^item> \<open>Us_Sni_Tree\<close>, \<open>Us_Server_Names\<close> (\<open>crypto/sni_tree.cpp\<close> and its callers): the tree of server names and the references to
    contexts in it. \<open>Us_Sni_Values\<close>, \<open>Us_Naming\<close>: lookup is best match, adding and removing cancel, references balance.
  \<^item> \<open>Us_Invariant\<close>: \<open>wf_world A w\<close> says that \<open>w\<close> represents the abstract state \<open>A\<close>, the lists of groups, sockets, parked, closed and
    freed sockets. \<open>Us_Contract\<close> states as locale \<open>dispatch_contract\<close> what a callback may do, in \<open>Us_Client\<close> every application that
    uses the public operations, nested to any depth \<open>n\<close>, is shown to obey it; \<open>event_contract\<close> and \<open>answering\<close> extend it
    (\<open>Us_Receiving\<close>, \<open>Us_Serving\<close>) to whole ready sockets and their termination. \<open>Us_Closing\<close>, \<open>Us_Output\<close>, \<open>Us_Datagrams\<close>: closing, writing and
    datagrams. \<open>Us_Scene\<close> is a concrete loop for examples.

  \<^bold>\<open>The upper layer.\<close>
  \<^item> \<open>Uws_Chunked\<close> (\<open>ChunkedEncoding.h\<close>): the parser of chunked bodies with its state in one 64-bit word;
    \<open>Uws_Chunked_Spec\<close> is a machine that takes one byte at a time, \<open>Uws_Chunking\<close> the refinement and, with
    \<open>Uws_Writing\<close> (number formats and chunks of \<open>HttpResponse.h\<close>, \<open>Utilities.h\<close>), the round trip.
  \<^item> \<open>Uws_Async\<close> (\<open>AsyncSocket.h\<close>, \<open>AsyncSocketData.h\<close>, \<open>LoopData.h\<close>): buffered and corked writing. \<open>Uws_Stream\<close> and \<open>Uws_Buffering\<close>: the
    stream of a socket, which is what the system took, what is buffered and what is corked, only grows, in order.
  \<^item> \<open>Uws_Frames\<close> (\<open>WebSocketProtocol.h\<close>): the frame parser over an explicit memory, in both roles, and formatting. The class it is
    instantiated with is a record of four functions. \<open>Uws_Reader\<close> is the specification, a reader of single
    bytes, with the locale \<open>frame_handler\<close> of what the parser needs of that class; \<open>Uws_Frames_Spec\<close>, \<open>Uws_Reading\<close> and
    \<open>Uws_Consume\<close> prove the refinement inside it: unmasking over the header, rotation of keys, spills. \<open>Uws_Bounds\<close>: what is written stays in the
    buffer, for any class.
  \<^item> \<open>Uws_WebSocket\<close> (\<open>WebSocket.h\<close>, \<open>WebSocketContext.h\<close>, \<open>WebSocketContextData.h\<close>, \<open>WebSocketData.h\<close>): sending, ending, closing, corking, the receiver of
    fragments and all event handlers. \<open>Uws_Connection\<close> shows what they leave alone, \<open>Uws_Receiver\<close> that the receiver obeys \<open>frame_handler\<close>
    (a sublocale of \<open>ws_connection\<close>, which asks of the handlers only not to revive a connection), \<open>Uws_Application\<close> that every
    application meets that. \<open>Uws_Sessions\<close>, \<open>Uws_Sending\<close>, \<open>Uws_Lifetime\<close>: what arrives, what is sent, and that every event returns.

  \<^item> \<open>Uws_Http\<close> (\<open>HttpParser.h\<close>, \<open>BloomFilter.h\<close>): the parser of requests over the bytes that are readable, in which a read past
    the end is None: scans of words, the request line, fields, the framing of the body, the fallback buffer. \<open>Uws_Http_Scan\<close>: the scans by words
    are plain scans. \<open>Uws_Http_Head\<close>: on any bytes the parser of heads stays inside its buffer. \<open>Uws_Http_Message\<close>: a well-formed head is consumed
    whole, one cut anywhere asks for more. \<open>Uws_Http_Serve\<close>: what the handlers are called with is what the client sent, by an invariant on
    what the parser holds between two segments. \<open>Uws_Http_Faults\<close>: three inputs it gets wrong.

  \<^bold>\<open>Bounds.\<close>
  Callbacks nest to a depth \<open>n\<close> that theorems quantify over. Constants are the code's: four concurrent candidates of
  a connecting socket, five parked sockets let in per iteration, 48 further waits when the array of events is full, 204
  datagrams per call, ten labels of a server name. Corking needs no fuel beyond two, as there are two slots
  (\<open>uncork_depth 2\<close>). A segment has at least one byte and, with the padding, fewer than \<open>2 ^ 32\<close> (\<open>segment_ok\<close>; the receive
  buffer has 512 KiB); the limit on payloads has 32 bits as in the code. Lengths the code keeps in an \<open>int\<close> are assumed not
  to exceed \<open>INT_MAX\<close> where a theorem says so. A segment of HTTP is followed by at least 32 bytes of padding, as the code requires
  (\<open>MINIMUM_HTTP_POST_PADDING\<close>); a request has at most 198 fields, a body of known length has fewer than \<open>2 ^ 32\<close> bytes in the theorem about
  arriving requests. The loop over the requests of a buffer is a \<open>partial_function\<close> whose returning is part of that theorem.

  \<^bold>\<open>Not modelled.\<close>
  \<^item> The building of TLS contexts (sequences of calls into BoringSSL that load keys), QUIC (\<open>quic.c\<close> wraps lsquic, which
    is a parameter of the loop), the back end for libuv, macOS and Windows branches, debug output.
  \<^item> The locks of the resolver's queue: its operations are atomic steps. Allocation does not fail.
  \<^item> Compression (zlib and libdeflate are parameters, and properties about received frames are for connections without it), the check of
    UTF-8 (simdutf, a parameter), publishing and the topic tree.
  \<^item> The rest of uWebSockets: the HTTP contexts and applications in C++ templates, router and responses (but for chunked bodies), the functions of a
    request that serve the application (lower case of the method, decoding of the query, parameters), the PROXY protocol, which is not compiled in.
  \<^item> The runtime itself: bindings to JavaScriptCore, and third-party code such as SQLite and llhttp. These are other
    programs, larger than this one by two orders of magnitude.
\<close>

end
